(* ===== verification/Go_Prelude.thy ===== *)
theory Go_Prelude
  imports Main "HOL-Library.Word" "HOL-Library.Sublist" "HOL-Library.Monad_Syntax"
begin

text \<open>
  The vocabulary the component theories share.

  \<^item> Go strings are byte strings, lists of \<open>char\<close>; the parts of package \<open>strings\<close> the
    server uses are defined here on them. \<open>strings.ToLower\<close>, \<open>unicode.IsLetter\<close>,
    \<open>unicode.IsDigit\<close> and the notion of white space are those of ASCII: on a text
    without bytes from 128 up, Go's rune loop is the byte loop below. The byte-level
    operations (\<open>Index\<close>, \<open>HasPrefix\<close>, \<open>Split\<close>, \<open>Join\<close>, \<open>TrimRight\<close>)
    are exact for every string.
  \<^item> An instant is an \<open>int\<close> number of nanoseconds; where the code uses the zero
    \<open>time.Time\<close> as a marker the model has an \<open>option\<close>. A duration is an \<open>int\<close>.
  \<^item> The locales are the contracts several components share: an operation that keeps
    an invariant, a processor that re-cuts a stream without losing data, a store of
    single-use tokens. Each component's theory interprets them on its own operations.
\<close>

named_theorems go_defs \<open>definitions of string and time operations, for evaluation\<close>

section \<open>Time\<close>

type_synonym instant = int
type_synonym duration = int

abbreviation (input) nanosecond :: duration where "nanosecond \<equiv> 1"
abbreviation (input) millisecond :: duration where "millisecond \<equiv> 1000000"
abbreviation (input) second :: duration where "second \<equiv> 1000000000"

text \<open>Go's integer division and conversion of a float to an integer truncate towards 0.\<close>

definition go_quot :: "int \<Rightarrow> int \<Rightarrow> int" where
  "go_quot a b = sgn a * sgn b * (\<bar>a\<bar> div \<bar>b\<bar>)"

lemma go_quot_nonneg: "0 \<le> a \<Longrightarrow> 0 < b \<Longrightarrow> go_quot a b = a div b"
  by (cases "a = 0") (auto simp: go_quot_def sgn_if)

lemma go_quot_le: "0 \<le> a \<Longrightarrow> 0 < b \<Longrightarrow> go_quot a b * b \<le> a"
  by (simp add: go_quot_nonneg minus_mod_eq_div_mult [symmetric])

section \<open>Strings\<close>

type_synonym str = "char list"

subsection \<open>Characters\<close>

definition is_space :: "char \<Rightarrow> bool" where
  "is_space c \<longleftrightarrow> of_char c \<in> {9, 10, 11, 12, 13, 32 :: nat}"

definition is_upper :: "char \<Rightarrow> bool" where
  "is_upper c \<longleftrightarrow> 65 \<le> (of_char c :: nat) \<and> (of_char c :: nat) \<le> 90"

definition is_lower :: "char \<Rightarrow> bool" where
  "is_lower c \<longleftrightarrow> 97 \<le> (of_char c :: nat) \<and> (of_char c :: nat) \<le> 122"

definition is_letter :: "char \<Rightarrow> bool" where
  "is_letter c \<longleftrightarrow> is_upper c \<or> is_lower c"

definition is_digit :: "char \<Rightarrow> bool" where
  "is_digit c \<longleftrightarrow> 48 \<le> (of_char c :: nat) \<and> (of_char c :: nat) \<le> 57"

text \<open>Lower case sets bit 5 of an upper-case letter.\<close>

fun lower_char :: "char \<Rightarrow> char" where
  "lower_char (Char b0 b1 b2 b3 b4 b5 b6 b7) =
     (if is_upper (Char b0 b1 b2 b3 b4 b5 b6 b7) then Char b0 b1 b2 b3 b4 True b6 b7
      else Char b0 b1 b2 b3 b4 b5 b6 b7)"

definition to_lower :: "str \<Rightarrow> str" where
  "to_lower s = map lower_char s"

subsection \<open>Trimming and prefixes\<close>

definition trim_right :: "(char \<Rightarrow> bool) \<Rightarrow> str \<Rightarrow> str" where
  "trim_right p s = rev (dropWhile p (rev s))"

definition trim :: "(char \<Rightarrow> bool) \<Rightarrow> str \<Rightarrow> str" where
  "trim p s = trim_right p (dropWhile p s)"

definition trim_space :: "str \<Rightarrow> str" where
  "trim_space s = trim is_space s"

definition has_prefix :: "str \<Rightarrow> str \<Rightarrow> bool" where
  "has_prefix p s \<longleftrightarrow> take (length p) s = p"

definition has_suffix :: "str \<Rightarrow> str \<Rightarrow> bool" where
  "has_suffix p s \<longleftrightarrow> length p \<le> length s \<and> drop (length s - length p) s = p"

definition trim_prefix :: "str \<Rightarrow> str \<Rightarrow> str" where
  "trim_prefix p s = (if has_prefix p s then drop (length p) s else s)"

definition trim_suffix :: "str \<Rightarrow> str \<Rightarrow> str" where
  "trim_suffix p s = (if has_suffix p s then take (length s - length p) s else s)"

subsection \<open>Searching\<close>

fun index_of :: "str \<Rightarrow> str \<Rightarrow> nat option" where
  "index_of p [] = (if p = [] then Some 0 else None)"
| "index_of p (c # s) =
     (if has_prefix p (c # s) then Some 0 else map_option Suc (index_of p s))"

definition contains_str :: "str \<Rightarrow> str \<Rightarrow> bool" where
  "contains_str s p \<longleftrightarrow> index_of p s \<noteq> None"

subsection \<open>Splitting and joining\<close>

fun fields_aux :: "str \<Rightarrow> str \<Rightarrow> str list" where
  "fields_aux acc [] = (if acc = [] then [] else [rev acc])"
| "fields_aux acc (c # s) =
     (if is_space c then (if acc = [] then fields_aux [] s else rev acc # fields_aux [] s)
      else fields_aux (c # acc) s)"

definition str_fields :: "str \<Rightarrow> str list" where
  "str_fields s = fields_aux [] s"

fun split_aux :: "char \<Rightarrow> str \<Rightarrow> str \<Rightarrow> str list" where
  "split_aux d acc [] = [rev acc]"
| "split_aux d acc (c # s) =
     (if c = d then rev acc # split_aux d [] s else split_aux d (c # acc) s)"

definition split_on :: "char \<Rightarrow> str \<Rightarrow> str list" where
  "split_on d s = split_aux d [] s"

fun join :: "str \<Rightarrow> str list \<Rightarrow> str" where
  "join sep [] = []"
| "join sep [x] = x"
| "join sep (x # y # xs) = x @ sep @ join sep (y # xs)"

subsection \<open>Decimal numbers\<close>

fun digits_of :: "nat \<Rightarrow> str" where
  "digits_of n = (if n < 10 then [char_of (n + 48)] else digits_of (n div 10) @ [char_of (n mod 10 + 48)])"

declare digits_of.simps [simp del]

definition itoa :: "int \<Rightarrow> str" where
  "itoa n = (if n < 0 then ''-'' else []) @ digits_of (nat \<bar>n\<bar>)"

lemmas [go_defs] =
  is_space_def is_upper_def is_lower_def is_letter_def is_digit_def to_lower_def
  trim_right_def trim_def trim_space_def has_prefix_def has_suffix_def trim_prefix_def
  trim_suffix_def contains_str_def str_fields_def split_on_def

section \<open>Generic lemmas\<close>

subsection \<open>Prefixes and searching\<close>

lemma has_prefix_iff: "has_prefix p s \<longleftrightarrow> (\<exists>t. s = p @ t)"
  by (metis append_eq_conv_conj has_prefix_def append_take_drop_id)

lemma has_prefix_append [simp]: "has_prefix p (p @ s)"
  by (simp add: has_prefix_def)

lemma has_prefix_Nil [simp]: "has_prefix [] s"
  by (simp add: has_prefix_def)

lemma has_prefix_Cons [simp]:
  "has_prefix (a # p) (b # s) \<longleftrightarrow> a = b \<and> has_prefix p s"
  by (auto simp: has_prefix_def)

lemma has_prefix_Cons_Nil [simp]: "\<not> has_prefix (a # p) []"
  by (simp add: has_prefix_def)

lemma trim_prefix_append [simp]: "trim_prefix p (p @ s) = s"
  by (simp add: trim_prefix_def)

lemma index_of_SomeD:
  "index_of p s = Some i \<Longrightarrow> i + length p \<le> length s \<and> take (length p) (drop i s) = p"
proof (induction s arbitrary: i)
  case Nil
  then show ?case by (simp split: if_splits)
next
  case (Cons c s)
  show ?case
  proof (cases "has_prefix p (c # s)")
    case True
    with Cons.prems have "i = 0" by simp
    moreover from True obtain t where "c # s = p @ t" by (auto simp: has_prefix_iff)
    then have "length p \<le> length (c # s)" by simp
    ultimately show ?thesis using True by (simp add: has_prefix_def)
  next
    case False
    with Cons.prems obtain j where "index_of p s = Some j" "i = Suc j" by auto
    with Cons.IH show ?thesis by auto
  qed
qed

lemma index_of_iff: "index_of p s = None \<longleftrightarrow> (\<nexists>u v. s = u @ p @ v)"
proof (induction s)
  case Nil
  then show ?case by auto
next
  case (Cons c s)
  have "(\<exists>u v. c # s = u @ p @ v) \<longleftrightarrow> has_prefix p (c # s) \<or> (\<exists>u v. s = u @ p @ v)"
  proof
    assume "\<exists>u v. c # s = u @ p @ v"
    then obtain u v where uv: "c # s = u @ p @ v" by blast
    show "has_prefix p (c # s) \<or> (\<exists>u v. s = u @ p @ v)"
    proof (cases u)
      case Nil
      with uv show ?thesis by (auto simp: has_prefix_iff)
    next
      case (Cons d u')
      with uv show ?thesis by auto
    qed
  next
    assume "has_prefix p (c # s) \<or> (\<exists>u v. s = u @ p @ v)"
    then show "\<exists>u v. c # s = u @ p @ v"
    proof
      assume "has_prefix p (c # s)"
      then obtain t where "c # s = [] @ p @ t" by (auto simp: has_prefix_iff)
      then show ?thesis by blast
    next
      assume "\<exists>u v. s = u @ p @ v"
      then obtain u v where "c # s = (c # u) @ p @ v" by auto
      then show ?thesis by blast
    qed
  qed
  with Cons.IH show ?case by auto
qed

lemma contains_str_iff: "contains_str s p \<longleftrightarrow> (\<exists>u v. s = u @ p @ v)"
  using index_of_iff [of p s] by (auto simp: contains_str_def)

subsection \<open>Words of a text\<close>

lemma fields_aux_nonempty: "x \<in> set (fields_aux acc s) \<Longrightarrow> x \<noteq> []"
  by (induction acc s rule: fields_aux.induct) (auto split: if_splits)

lemma fields_nonempty: "x \<in> set (str_fields s) \<Longrightarrow> x \<noteq> []"
  by (simp add: str_fields_def fields_aux_nonempty)

lemma fields_aux_no_space:
  "x \<in> set (fields_aux acc s) \<Longrightarrow> \<forall>c \<in> set acc. \<not> is_space c \<Longrightarrow>
   \<forall>c \<in> set x. \<not> is_space c"
proof (induction s arbitrary: acc)
  case Nil
  then show ?case by (simp split: if_splits)
next
  case (Cons d s)
  show ?case
  proof (cases "is_space d")
    case True
    with Cons.prems Cons.IH [of "[]"] show ?thesis by (auto split: if_splits)
  next
    case False
    with Cons.prems Cons.IH [of "d # acc"] show ?thesis by simp
  qed
qed

lemma fields_no_space: "x \<in> set (str_fields s) \<Longrightarrow> list_all (\<lambda>c. \<not> is_space c) x"
  using fields_aux_no_space [of x "[]" s] by (simp add: str_fields_def list_all_iff)

lemma fields_aux_word:
  "list_all (\<lambda>c. \<not> is_space c) w \<Longrightarrow> fields_aux acc (w @ s) = fields_aux (rev w @ acc) s"
  by (induction w arbitrary: acc) auto

lemma is_space_blank [simp]: "is_space CHR '' ''"
  by (simp add: is_space_def)

lemma fields_join:
  "list_all (\<lambda>w. w \<noteq> [] \<and> list_all (\<lambda>c. \<not> is_space c) w) ws \<Longrightarrow> str_fields (join '' '' ws) = ws"
proof (induction ws rule: induct_list012)
  case 1
  show ?case by (simp add: str_fields_def)
next
  case (2 x)
  then have "fields_aux [] (x @ []) = fields_aux (rev x) []"
    by (subst fields_aux_word) simp_all
  with 2 show ?case by (simp add: str_fields_def)
next
  case (3 x y zs)
  then show ?case by (simp add: str_fields_def fields_aux_word)
qed

lemma fields_join_fields [simp]: "str_fields (join '' '' (str_fields s)) = str_fields s"
  by (rule fields_join) (auto simp: list_all_iff fields_nonempty dest: fields_no_space)

subsection \<open>Entries kept by a filter\<close>

lemma trim_space_idem: "trim_space (trim_space s) = trim_space s"
proof -
  let ?d = "dropWhile is_space s"
  have r: "trim_right is_space (trim_right is_space t) = trim_right is_space t" for t
    by (simp add: trim_right_def dropWhile_idem)
  have "dropWhile is_space (trim_right is_space ?d) = trim_right is_space ?d"
  proof (cases "trim_right is_space ?d")
    case (Cons c u)
    obtain t where "?d = trim_right is_space ?d @ t"
      by (metis rev_append rev_rev_ident takeWhile_dropWhile_id trim_right_def)
    with Cons have "hd ?d = c" "?d \<noteq> []" by (metis append_Cons list.sel(1), auto)
    with hd_dropWhile [of is_space s] Cons show ?thesis by (auto simp: dropWhile_eq_Nil_conv)
  qed simp
  with r show ?thesis by (simp add: trim_space_def trim_def)
qed

lemma trim_space_word_ends:
  "s = [] \<or> \<not> is_space (hd s) \<and> \<not> is_space (last s) \<Longrightarrow> trim_space s = s"
proof (cases s rule: rev_cases)
  case (snoc t c)
  assume "s = [] \<or> \<not> is_space (hd s) \<and> \<not> is_space (last s)"
  with snoc have "\<not> is_space (hd s)" "\<not> is_space c" by auto
  moreover have "dropWhile is_space s = s" using \<open>\<not> is_space (hd s)\<close> by (cases s) auto
  ultimately show ?thesis using snoc by (simp add: trim_space_def trim_def trim_right_def)
qed (simp add: trim_space_def trim_def trim_right_def)

lemma trim_space_fixed_ends:
  "trim_space s = s \<Longrightarrow> s = [] \<or> \<not> is_space (hd s) \<and> \<not> is_space (last s)"
proof (rule ccontr)
  assume t: "trim_space s = s" and n: "\<not> (s = [] \<or> \<not> is_space (hd s) \<and> \<not> is_space (last s))"
  have le: "length (trim_right is_space u) \<le> length u" for u
    using length_dropWhile_le [of is_space "rev u"] by (simp add: trim_right_def)
  have lt: "length (trim_right is_space u) < length u" if "u \<noteq> []" "is_space (last u)" for u
    using that length_dropWhile_le [of is_space "rev (butlast u)"]
    by (cases u rule: rev_cases) (auto simp: trim_right_def)
  have "length (trim_space s) < length s"
  proof (cases "is_space (hd s)")
    case True
    with n obtain c u where "s = c # u" "is_space c" by (cases s) auto
    then have "length (trim_space s) \<le> length u"
      using le [of "dropWhile is_space u"] length_dropWhile_le [of is_space u]
      by (simp add: trim_space_def trim_def)
    with \<open>s = c # u\<close> show ?thesis by simp
  next
    case False
    with n have "dropWhile is_space s = s" by (cases s) auto
    with lt [of s] n False show ?thesis by (simp add: trim_space_def trim_def)
  qed
  with t show False by simp
qed

lemma lookup_filter:
  assumes "distinct (map fst entries)"
  shows "map_of (filter keep entries) key = (if \<exists>v. map_of entries key = Some v \<and> keep (key, v) then map_of entries key else None)"
  using assms
proof (induction entries)
  case (Cons e rest)
  have "map_of rest key = None" if "fst e = key"
    using Cons.prems that by (auto simp: map_of_eq_None_iff)
  with Cons show ?case by (cases "fst e = key") auto
qed simp

section \<open>Contracts shared by several components\<close>

subsection \<open>An operation that keeps an invariant\<close>

text \<open>
  A component is a step function over events and an invariant; what holds after one step
  holds after any sequence of them, in whatever order the goroutines' critical sections
  run.
\<close>

locale guarded_machine =
  fixes step :: "'s \<Rightarrow> 'e \<Rightarrow> 's"
    and invar :: "'s \<Rightarrow> bool"
  assumes step_invar: "invar s \<Longrightarrow> invar (step s e)"
begin

lemma run_invar: "invar s \<Longrightarrow> invar (fold (\<lambda>e s. step s e) es s)"
  by (induction es arbitrary: s) (auto intro: step_invar)

lemma run_frame:
  assumes "\<And>s e. invar s \<Longrightarrow> f (step s e) = f s" and "invar s"
  shows "f (fold (\<lambda>e s. step s e) es s) = f s"
  using assms(2)
proof (induction es arbitrary: s)
  case (Cons e es)
  from Cons.IH [OF step_invar [OF Cons.prems]] assms(1) [OF Cons.prems] show ?case by simp
qed simp

end

subsection \<open>A machine that implements a simpler one\<close>

text \<open>
  The concrete operations keep an invariant and, seen through \<open>abs\<close>, do what the
  specification's operations do; so a whole run does, and what it shows is what the
  specification shows.
\<close>

locale implements = guarded_machine step invar
  for step :: "'s \<Rightarrow> 'e \<Rightarrow> 's" and invar :: "'s \<Rightarrow> bool" +
  fixes abs :: "'s \<Rightarrow> 'a"
    and spec_step :: "'a \<Rightarrow> 'e \<Rightarrow> 'a"
  assumes step_abs: "invar s \<Longrightarrow> abs (step s e) = spec_step (abs s) e"
begin

lemma run_abs:
  "invar s \<Longrightarrow> abs (fold (\<lambda>e s. step s e) es s) = fold (\<lambda>e a. spec_step a e) es (abs s)"
  by (induction es arbitrary: s) (simp_all add: step_invar step_abs)

end

subsection \<open>A processor that re-cuts a stream\<close>

text \<open>
  Audio and text arrive in pieces whose boundaries mean nothing. A processor consumes a
  piece, keeps what it cannot pass on yet and emits blocks; \<open>held\<close> is what a state has
  kept, \<open>inp\<close> and \<open>outp\<close> the data a piece and a block carry. The contract is that
  one step neither loses, duplicates nor reorders data.
\<close>

fun run_chunks :: "('s \<Rightarrow> 'a \<Rightarrow> 's \<times> 'b list) \<Rightarrow> 's \<Rightarrow> 'a list \<Rightarrow> 's \<times> 'b list" where
  "run_chunks f s [] = (s, [])"
| "run_chunks f s (x # xs) =
     (case f s x of (s1, ys) \<Rightarrow> (case run_chunks f s1 xs of (s2, zs) \<Rightarrow> (s2, ys @ zs)))"

lemma run_chunks_append:
  "run_chunks f s (xs @ ys) =
     (case run_chunks f s xs of (s1, us) \<Rightarrow> (case run_chunks f s1 ys of (s2, vs) \<Rightarrow> (s2, us @ vs)))"
  by (induction xs arbitrary: s) (simp_all split: prod.split)

locale lossless_stream =
  fixes feed :: "'s \<Rightarrow> 'a \<Rightarrow> 's \<times> 'b list"
    and held :: "'s \<Rightarrow> 'd list"
    and inp :: "'a \<Rightarrow> 'd list"
    and outp :: "'b \<Rightarrow> 'd list"
  assumes conserve: "feed s x = (s', ys) \<Longrightarrow> held s @ inp x = concat (map outp ys) @ held s'"
begin

lemma run_conserve:
  "run_chunks feed s xs = (s', ys) \<Longrightarrow>
   held s @ concat (map inp xs) = concat (map outp ys) @ held s'"
proof (induction xs arbitrary: s s' ys)
  case Nil
  then show ?case by simp
next
  case (Cons x xs)
  obtain s1 us where f: "feed s x = (s1, us)" by fastforce
  obtain s2 zs where r: "run_chunks feed s1 xs = (s2, zs)" by fastforce
  from Cons.prems f r have "s' = s2" and "ys = us @ zs" by auto
  moreover have "held s @ inp x @ concat (map inp xs) =
      concat (map outp us) @ held s1 @ concat (map inp xs)"
    using conserve [OF f] by (metis append.assoc)
  ultimately show ?case using Cons.IH [OF r] by simp
qed

end

text \<open>
  When every block carries a multiple of \<open>n\<close> items and fewer than \<open>n\<close> are ever held,
  the data emitted depends only on the data received, not on how it was cut up.
\<close>

locale aligned_stream = lossless_stream +
  fixes n :: nat
    and ok :: "'s \<Rightarrow> bool"
  assumes width: "0 < n"
    and feed_ok: "ok s \<Longrightarrow> feed s x = (s', ys) \<Longrightarrow> ok s'"
    and held_short: "ok s \<Longrightarrow> length (held s) < n"
    and blocks: "ok s \<Longrightarrow> feed s x = (s', ys) \<Longrightarrow> y \<in> set ys \<Longrightarrow> n dvd length (outp y)"
begin

lemma run_blocks:
  "ok s \<Longrightarrow> run_chunks feed s xs = (s', ys) \<Longrightarrow> ok s' \<and> (\<forall>y \<in> set ys. n dvd length (outp y))"
proof (induction xs arbitrary: s s' ys)
  case Nil
  then show ?case by simp
next
  case (Cons x xs)
  obtain s1 us where f: "feed s x = (s1, us)" by fastforce
  obtain s2 zs where r: "run_chunks feed s1 xs = (s2, zs)" by fastforce
  from Cons.prems f r have "s' = s2" and "ys = us @ zs" by auto
  with Cons.IH [OF feed_ok [OF Cons.prems(1) f] r] blocks [OF Cons.prems(1) f] show ?case
    by auto
qed

lemma dvd_length_concat:
  "\<forall>y \<in> set ys. n dvd length (outp y) \<Longrightarrow> n dvd length (concat (map outp ys))"
  by (induction ys) (auto intro: dvd_add)

lemma run_determined:
  assumes "ok s" and "run_chunks feed s xs = (s', ys)"
  shows "concat (map outp ys) =
      (let d = held s @ concat (map inp xs) in take (length d div n * n) d)"
    and "held s' = (let d = held s @ concat (map inp xs) in drop (length d div n * n) d)"
proof -
  let ?d = "held s @ concat (map inp xs)" and ?o = "concat (map outp ys)"
  from run_blocks [OF assms] have "n dvd length ?o" and "ok s'"
    by (auto intro: dvd_length_concat)
  then obtain k where k: "length ?o = k * n"
    by (auto simp: dvd_def mult.commute)
  from run_conserve [OF assms(2)] have d: "?d = ?o @ held s'" .
  from held_short [OF \<open>ok s'\<close>] have "length ?d div n = k"
    using k d by (simp add: div_mult_self1 [symmetric])
  with k d show "concat (map outp ys) =
      (let d = held s @ concat (map inp xs) in take (length d div n * n) d)"
    and "held s' = (let d = held s @ concat (map inp xs) in drop (length d div n * n) d)"
    by (simp_all add: Let_def)
qed

lemma run_chunking_irrelevant:
  assumes "ok s" and "run_chunks feed s xs = (s1, ys)" and "run_chunks feed s xs' = (s2, zs)"
    and "concat (map inp xs) = concat (map inp xs')"
  shows "concat (map outp ys) = concat (map outp zs)"
  using run_determined(1) [OF assms(1,2)] run_determined(1) [OF assms(1,3)] assms(4) by simp

end

subsection \<open>A store of single-use tokens\<close>

text \<open>
  Two components hand out bearer tokens that work once: the session manager's resume
  tokens and the confirmation gate's approvals. \<open>find\<close> is what a token stands for in a
  state, \<open>redeem\<close> spends it.
\<close>

locale single_use =
  fixes find :: "'s \<Rightarrow> 't \<Rightarrow> 'v option"
    and redeem :: "'s \<Rightarrow> 't \<Rightarrow> 's \<times> 'v option"
  assumes redeem_found: "redeem s t = (s', Some v) \<Longrightarrow> find s t = Some v"
    and redeem_spends: "redeem s t = (s', r) \<Longrightarrow> find s' t = None"
    and redeem_others: "redeem s t = (s', r) \<Longrightarrow> find s' u = Some v \<Longrightarrow> find s u = Some v"
begin

lemma redeem_none: "find s t = None \<Longrightarrow> snd (redeem s t) = None"
  using redeem_found by (metis option.exhaust prod.collapse option.distinct(1))

lemma redeem_twice: "redeem s t = (s', r) \<Longrightarrow> snd (redeem s' t) = None"
  by (rule redeem_none) (rule redeem_spends)

fun redeem_all :: "'s \<Rightarrow> 't list \<Rightarrow> 'v option list" where
  "redeem_all s [] = []"
| "redeem_all s (t # ts) = snd (redeem s t) # redeem_all (fst (redeem s t)) ts"

lemma redeem_all_absent:
  "find s t = None \<Longrightarrow> i < length ts \<Longrightarrow> ts ! i = t \<Longrightarrow> redeem_all s ts ! i = None"
proof (induction ts arbitrary: s i)
  case Nil
  then show ?case by simp
next
  case (Cons u ts)
  show ?case
  proof (cases i)
    case 0
    with Cons.prems show ?thesis by (simp add: redeem_none)
  next
    case (Suc j)
    have "find (fst (redeem s u)) t = None"
      using redeem_others [of s u _ "snd (redeem s u)" t] Cons.prems(1)
      by (metis not_Some_eq prod.collapse)
    with Cons.IH Cons.prems Suc show ?thesis by simp
  qed
qed

lemma redeem_at_most_once:
  "i < j \<Longrightarrow> j < length ts \<Longrightarrow> ts ! i = ts ! j \<Longrightarrow> redeem_all s ts ! j = None"
proof (induction ts arbitrary: s i j)
  case Nil
  then show ?case by simp
next
  case (Cons u ts)
  then obtain k where j: "j = Suc k" by (cases j) auto
  show ?case
  proof (cases i)
    case 0
    with Cons.prems j have "ts ! k = u" by simp
    moreover have "find (fst (redeem s u)) u = None"
      by (metis redeem_spends prod.collapse)
    ultimately show ?thesis using Cons.prems j by (simp add: redeem_all_absent)
  next
    case (Suc l)
    with Cons j show ?thesis by simp
  qed
qed

end

end
