(* ===== verification/Rate_Limiter.thy ===== *)
theory Rate_Limiter
  imports Go_Prelude "HOL-Library.AList"
begin

text \<open>
  The fixed-window limiter of \<open>internal/signaling/rate_limiter.go\<close>, which guards session
  creation and ICE restarts, and the function that names the client it counts.

  The Go map \<open>counts\<close> is an association list with distinct keys, so that its size is the
  list's length; \<open>time.Now()\<close> is the parameter \<open>now\<close>. The lemmas show how many
  requests an interval can admit, that clients do not influence each other, and what the
  advertised waiting time is worth.
\<close>

section \<open>State\<close>

record rate_count =
  rc_count :: int
  rc_reset :: instant

record limiter =
  rl_limit :: int
  rl_window :: duration
  rl_counts :: "(str \<times> rate_count) list"

definition rl_entry :: "limiter \<Rightarrow> str \<Rightarrow> rate_count option" where
  "rl_entry l k = map_of (rl_counts l) k"

definition set_entry :: "str \<Rightarrow> rate_count \<Rightarrow> limiter \<Rightarrow> limiter" where
  "set_entry k c l = l\<lparr>rl_counts := AList.update k c (rl_counts l)\<rparr>"

definition default_widget_rate_limit :: int where
  "default_widget_rate_limit = 120"

definition default_widget_rate_window :: duration where
  "default_widget_rate_window = 60 * second"

definition rate_limiter_gc_threshold :: nat where
  "rate_limiter_gc_threshold = 8192"

definition new_limiter :: "int \<Rightarrow> duration \<Rightarrow> limiter" where
  "new_limiter lim win =
     \<lparr> rl_limit = (if lim \<le> 0 then default_widget_rate_limit else lim),
       rl_window = (if win \<le> 0 then default_widget_rate_window else win),
       rl_counts = [] \<rparr>"

section \<open>Operations\<close>

definition maybe_gc :: "instant \<Rightarrow> limiter \<Rightarrow> limiter" where
  "maybe_gc now l =
     (if length (rl_counts l) < rate_limiter_gc_threshold then l
      else l\<lparr>rl_counts := filter (\<lambda>(k, v). \<not> rc_reset v < now) (rl_counts l)\<rparr>)"

definition client_key :: "str \<Rightarrow> str" where
  "client_key client = (if client = [] then ''_unknown'' else client)"

text \<open>The answer is the pair Go returns: whether to proceed, and the seconds to wait.\<close>

definition allow :: "limiter \<Rightarrow> instant \<Rightarrow> str \<Rightarrow> limiter \<times> bool \<times> int" where
  "allow l now client =
     (let k = client_key client;
          fresh = (maybe_gc now (set_entry k \<lparr>rc_count = 1, rc_reset = now + rl_window l\<rparr> l),
             True, 0)
      in case rl_entry l k of
           None \<Rightarrow> fresh
         | Some c \<Rightarrow>
             if rc_reset c < now then fresh
             else if rl_limit l \<le> rc_count c
             then (l, False, max 1 (go_quot (rc_reset c - now) second))
             else (set_entry k (c\<lparr>rc_count := rc_count c + 1\<rparr>) l, True, 0))"

definition limiter_ok :: "limiter \<Rightarrow> bool" where
  "limiter_ok l \<longleftrightarrow> 0 < rl_limit l \<and> 0 < rl_window l \<and> distinct (map fst (rl_counts l)) \<and>
     (\<forall>k c. rl_entry l k = Some c \<longrightarrow> 1 \<le> rc_count c \<and> rc_count c \<le> rl_limit l)"

section \<open>Naming the client\<close>

text \<open>
  \<open>net.SplitHostPort\<close>: the host part, or no value on an error. The last colon separates
  the port, a bracketed host is an IPv6 address.
\<close>

definition last_colon :: "str \<Rightarrow> nat option" where
  "last_colon s = map_option (\<lambda>i. length s - 1 - i) (index_of '':'' (rev s))"

definition split_host :: "str \<Rightarrow> str option" where
  "split_host s =
     (case last_colon s of
        None \<Rightarrow> None
      | Some i \<Rightarrow>
          if has_prefix ''['' s then
            (case index_of '']'' s of
               None \<Rightarrow> None
             | Some e \<Rightarrow>
                 if e + 1 \<noteq> i then None
                 else if contains_str (drop 1 s) ''['' \<or> contains_str (drop (e + 1) s) '']''
                 then None else Some (take (e - 1) (drop 1 s)))
          else if contains_str (take i s) '':'' then None
          else if contains_str s ''['' \<or> contains_str s '']'' then None
          else Some (take i s))"

definition client_ip :: "(str \<Rightarrow> str) \<Rightarrow> str \<Rightarrow> str" where
  "client_ip header remote_addr =
     (let xff = header ''X-Forwarded-For'' in
      if xff \<noteq> [] then
        (case index_of '','' xff of
           Some i \<Rightarrow> trim_space (take i xff)
         | None \<Rightarrow> trim_space xff)
      else let real_ip = header ''X-Real-IP'' in
        if real_ip \<noteq> [] then trim_space real_ip
        else (case split_host remote_addr of None \<Rightarrow> remote_addr | Some h \<Rightarrow> h))"

section \<open>Runs\<close>

text \<open>The requests in the order their critical sections ran, with the answers they got.\<close>

fun serve :: "limiter \<Rightarrow> (instant \<times> str) list \<Rightarrow> (str \<times> bool) list" where
  "serve l [] = []"
| "serve l ((now, client) # rs) =
     (case allow l now client of
        (l', ok, _) \<Rightarrow> (client_key client, ok) # serve l' rs)"

definition admitted :: "str \<Rightarrow> (str \<times> bool) list \<Rightarrow> int" where
  "admitted k answers = int (length (filter (\<lambda>(c, ok). c = k \<and> ok) answers))"

lemma admitted_simps [simp]:
  "admitted k [] = 0"
  "admitted k ((c, ok) # as) = (if c = k \<and> ok then 1 else 0) + admitted k as"
  by (simp_all add: admitted_def)

section \<open>One request\<close>

lemma distinct_fst_filter: "distinct (map fst xs) \<Longrightarrow> distinct (map fst (filter P xs))"
  by (simp add: distinct_map_filter)

lemma entry_set [simp]: "rl_entry (set_entry k c l) j = (if j = k then Some c else rl_entry l j)"
  by (simp add: rl_entry_def set_entry_def update_conv)

lemma set_frame [simp]:
  "rl_limit (set_entry k c l) = rl_limit l" "rl_window (set_entry k c l) = rl_window l"
  by (simp_all add: set_entry_def)

lemma gc_frame [simp]:
  "rl_limit (maybe_gc now l) = rl_limit l" "rl_window (maybe_gc now l) = rl_window l"
  by (simp_all add: maybe_gc_def)

text \<open>Collection drops records whose window has ended, and nothing else.\<close>

lemma gc_entry:
  "limiter_ok l \<Longrightarrow>
   rl_entry (maybe_gc now l) k = rl_entry l k \<or>
   (rl_entry (maybe_gc now l) k = None \<and> (\<exists>c. rl_entry l k = Some c \<and> rc_reset c < now))"
  by (cases "map_of (rl_counts l) k")
    (auto simp: maybe_gc_def limiter_ok_def rl_entry_def lookup_filter not_less)

lemma gc_entryD: "limiter_ok l \<Longrightarrow> rl_entry (maybe_gc now l) k = Some c \<Longrightarrow> rl_entry l k = Some c"
  using gc_entry [of l now k] by auto

lemma entry_ok:
  "limiter_ok l \<Longrightarrow> rl_entry l k = Some c \<Longrightarrow> 1 \<le> rc_count c \<and> rc_count c \<le> rl_limit l"
  by (simp add: limiter_ok_def)

lemma gc_ok:
  assumes "limiter_ok l"
  shows "limiter_ok (maybe_gc now l)"
proof -
  have "distinct (map fst (rl_counts (maybe_gc now l)))"
    using assms by (simp add: limiter_ok_def maybe_gc_def distinct_fst_filter)
  then show ?thesis
    using assms entry_ok [OF assms gc_entryD [OF assms]] by (simp add: limiter_ok_def)
qed

lemma set_ok:
  "limiter_ok l \<Longrightarrow> 1 \<le> rc_count c \<Longrightarrow> rc_count c \<le> rl_limit l \<Longrightarrow> limiter_ok (set_entry k c l)"
  unfolding limiter_ok_def by (auto simp: set_entry_def distinct_update)
    (simp_all add: rl_entry_def update_conv split: if_splits)

lemma allow_ok:
  assumes "limiter_ok l" and "allow l now client = (l', r)"
  shows "limiter_ok l'"
proof -
  from assms(1) have "1 \<le> rl_limit l" by (simp add: limiter_ok_def)
  then show ?thesis using assms entry_ok [OF assms(1), of "client_key client"]
    by (auto simp: allow_def Let_def intro!: gc_ok set_ok split: option.splits if_splits)
qed

lemma allow_frame:
  "allow l now client = (l', r) \<Longrightarrow> rl_limit l' = rl_limit l \<and> rl_window l' = rl_window l"
  by (auto simp: allow_def Let_def split: option.splits if_splits)

lemma new_limiter_ok: "limiter_ok (new_limiter lim win)"
  by (simp add: limiter_ok_def new_limiter_def rl_entry_def default_widget_rate_limit_def
      default_widget_rate_window_def)

text \<open>A limiter answering requests is a guarded machine with the representation invariant.\<close>

definition allow_step :: "limiter \<Rightarrow> instant \<times> str \<Rightarrow> limiter" where
  "allow_step l e = fst (allow l (fst e) (snd e))"

interpretation rate: guarded_machine allow_step limiter_ok
  by unfold_locales (auto simp: allow_step_def intro: allow_ok prod.collapse [symmetric])

section \<open>How much an interval admits\<close>

text \<open>
  What a client can still get up to the instant \<open>b\<close>: the rest of its current window, and
  a whole new one if that window ends before \<open>b\<close>.
\<close>

definition capacity :: "instant \<Rightarrow> str \<Rightarrow> limiter \<Rightarrow> int" where
  "capacity b k l =
     (case rl_entry l k of
        None \<Rightarrow> rl_limit l
      | Some c \<Rightarrow> rl_limit l - rc_count c + (if rc_reset c < b then rl_limit l else 0))"

lemma capacity_bounds:
  assumes "limiter_ok l"
  shows "0 \<le> capacity b k l" and "capacity b k l \<le> 2 * rl_limit l"
  using entry_ok [OF assms, of k] assms
  by (fastforce simp: capacity_def limiter_ok_def split: option.splits)+

lemma capacity_gc:
  assumes "limiter_ok l" and "now \<le> b"
  shows "capacity b k (maybe_gc now l) \<le> capacity b k l"
  using gc_entry [OF assms(1), of now k]
proof
  assume "rl_entry (maybe_gc now l) k = rl_entry l k"
  then show ?thesis by (simp add: capacity_def split: option.split)
next
  assume "rl_entry (maybe_gc now l) k = None \<and> (\<exists>c. rl_entry l k = Some c \<and> rc_reset c < now)"
  with entry_ok [OF assms(1), of k] assms(2) show ?thesis by (auto simp: capacity_def)
qed

lemma allow_capacity:
  assumes ok: "limiter_ok l" and allow: "allow l now client = (l', adm, r)"
    and "now \<le> b" and "b \<le> now + rl_window l"
  shows "(if client_key client = k \<and> adm then 1 else 0) + capacity b k l' \<le> capacity b k l"
proof -
  let ?k = "client_key client"
  let ?new = "set_entry ?k \<lparr>rc_count = 1, rc_reset = now + rl_window l\<rparr> l"
  have "limiter_ok ?new" using ok by (intro set_ok) (auto simp: limiter_ok_def)
  then have gc: "capacity b k (maybe_gc now ?new) \<le> capacity b k ?new"
    by (rule capacity_gc [OF _ assms(3)])
  have new: "capacity b k ?new = (if ?k = k then rl_limit l - 1 else capacity b k l)"
    using assms(4) by (simp add: capacity_def split: option.split)
  show ?thesis
  proof (cases "rl_entry l ?k")
    case None
    with allow have "l' = maybe_gc now ?new" and "adm" by (auto simp: allow_def Let_def)
    moreover have "capacity b ?k l = rl_limit l" using None by (simp add: capacity_def)
    ultimately show ?thesis using gc new by auto
  next
    case (Some c)
    show ?thesis
    proof (cases "rc_reset c < now")
      case True
      with Some allow have "l' = maybe_gc now ?new" and "adm" by (auto simp: allow_def Let_def)
      moreover have "rl_limit l \<le> capacity b ?k l"
        using Some True assms(3) entry_ok [OF ok Some] by (simp add: capacity_def)
      ultimately show ?thesis using gc new by auto
    next
      case False
      with Some allow show ?thesis
        by (auto simp: allow_def Let_def capacity_def split: if_splits option.split)
    qed
  qed
qed

lemma serve_capacity:
  assumes "limiter_ok l" and "\<forall>(t, c) \<in> set rs. a \<le> t \<and> t \<le> a + rl_window l"
  shows "admitted k (serve l rs) \<le> capacity (a + rl_window l) k l"
  using assms
proof (induction rs arbitrary: l)
  case Nil
  then show ?case by (simp add: capacity_bounds)
next
  case (Cons q rs)
  obtain now client where q: "q = (now, client)" by fastforce
  obtain l' adm r where al: "allow l now client = (l', adm, r)" by (metis prod_cases3)
  from Cons.prems q have "now \<le> a + rl_window l" and "a \<le> now" by auto
  with allow_capacity [OF Cons.prems(1) al, of "a + rl_window l" k]
  have "(if client_key client = k \<and> adm then 1 else 0) + capacity (a + rl_window l) k l'
      \<le> capacity (a + rl_window l) k l" by simp
  moreover from allow_frame [OF al] have "rl_window l' = rl_window l" by simp
  ultimately show ?case
    using Cons.IH [OF allow_ok [OF Cons.prems(1) al]] Cons.prems(2) q al by auto
qed

section \<open>Clients do not influence each other\<close>

text \<open>
  Two limiters agree on a client at an instant when they hold the same record for it, or
  neither holds one that is still live.
\<close>

definition dead_at :: "instant \<Rightarrow> str \<Rightarrow> limiter \<Rightarrow> bool" where
  "dead_at t k l \<longleftrightarrow> (\<forall>c. rl_entry l k = Some c \<longrightarrow> rc_reset c < t)"

definition agree_at :: "instant \<Rightarrow> str \<Rightarrow> limiter \<Rightarrow> limiter \<Rightarrow> bool" where
  "agree_at t k l m \<longleftrightarrow> limiter_ok l \<and> limiter_ok m \<and> rl_limit l = rl_limit m \<and>
     rl_window l = rl_window m \<and> (rl_entry l k = rl_entry m k \<or> dead_at t k l \<and> dead_at t k m)"

lemma agree_at_mono: "agree_at t k l m \<Longrightarrow> t \<le> u \<Longrightarrow> agree_at u k l m"
  by (fastforce simp: agree_at_def dead_at_def)

lemma allow_other_agrees:
  assumes "agree_at now k l m" and "client_key client \<noteq> k" and "allow l now client = (l', r)"
  shows "agree_at now k l' m"
proof -
  from assms(1) have ok: "limiter_ok l" by (simp add: agree_at_def)
  let ?new = "set_entry (client_key client) \<lparr>rc_count = 1, rc_reset = now + rl_window l\<rparr> l"
  have "limiter_ok ?new" using ok by (intro set_ok) (auto simp: limiter_ok_def)
  from gc_entry [OF this, of now k] assms(2,3)
  have "rl_entry l' k = rl_entry l k \<or>
      (rl_entry l' k = None \<and> (\<exists>c. rl_entry l k = Some c \<and> rc_reset c < now))"
    by (auto simp: allow_def Let_def split: option.splits if_splits)
  with assms(1) allow_ok [OF ok assms(3)] allow_frame [OF assms(3)] show ?thesis
    by (auto simp: agree_at_def dead_at_def)
qed

lemma allow_same_agrees:
  assumes "agree_at now k l m" and "client_key client = k"
    and "allow l now client = (l', adm, r)" and "allow m now client = (m', adm', r')"
  shows "agree_at now k l' m' \<and> adm = adm'"
proof -
  from assms(1) have okl: "limiter_ok l" and okm: "limiter_ok m" by (simp_all add: agree_at_def)
  let ?c = "\<lparr>rc_count = 1, rc_reset = now + rl_window l\<rparr>"
  have live: "rl_entry (maybe_gc now (set_entry k ?c h)) k = Some ?c"
    if "limiter_ok h" "rl_window h = rl_window l" for h
  proof -
    have "limiter_ok (set_entry k ?c h)" using that by (intro set_ok) (auto simp: limiter_ok_def)
    from gc_entry [OF this, of now k] that show ?thesis by (auto simp: limiter_ok_def)
  qed
  have "rl_entry l' k = rl_entry m' k \<and> adm = adm'"
    using assms live [OF okl refl] live [OF okm]
    by (auto simp: allow_def Let_def agree_at_def dead_at_def split: option.splits if_splits)
  with allow_ok [OF okl assms(3)] allow_ok [OF okm assms(4)] allow_frame [OF assms(3)]
    allow_frame [OF assms(4)] assms(1) show ?thesis by (simp add: agree_at_def)
qed

lemma serve_isolated:
  assumes "sorted (map fst rs)" and "agree_at t k l m" and "\<forall>q \<in> set rs. t \<le> fst q"
  shows "filter (\<lambda>(c, ok). c = k) (serve l rs) =
    serve m (filter (\<lambda>(u, c). client_key c = k) rs)"
  using assms
proof (induction rs arbitrary: t l m)
  case Nil
  then show ?case by simp
next
  case (Cons q rs)
  obtain now client where q: "q = (now, client)" by fastforce
  obtain l' adm r where al: "allow l now client = (l', adm, r)" by (metis prod_cases3)
  obtain m' adm' r' where am: "allow m now client = (m', adm', r')" by (metis prod_cases3)
  from Cons.prems q have agree: "agree_at now k l m" by (auto intro: agree_at_mono)
  from Cons.prems q have rest: "sorted (map fst rs)" "\<forall>q \<in> set rs. now \<le> fst q" by auto
  show ?case
  proof (cases "client_key client = k")
    case True
    from allow_same_agrees [OF agree True al am] Cons.IH [OF rest(1) _ rest(2)] True q al am
    show ?thesis by simp
  next
    case False
    from allow_other_agrees [OF agree False al] Cons.IH [OF rest(1) _ rest(2)] False q al
    show ?thesis by simp
  qed
qed

section \<open>Waiting after a refusal\<close>

lemma denied_entry:
  assumes "allow l now client = (l', False, r)"
  shows "\<exists>c. rl_entry l (client_key client) = Some c \<and> now \<le> rc_reset c \<and>
    rl_limit l \<le> rc_count c \<and> r = max 1 (go_quot (rc_reset c - now) second) \<and> l' = l"
  using assms by (auto simp: allow_def Let_def split: option.splits if_splits)

lemma dead_admits: "dead_at t (client_key client) l \<Longrightarrow> fst (snd (allow l t client))"
  by (auto simp: allow_def Let_def dead_at_def split: option.splits)

lemma denied_dead:
  assumes "allow l now client = (l', False, r)" and "now + (r + 1) * second \<le> t"
  shows "l' = l" and "1 \<le> r" and "dead_at t (client_key client) l"
proof -
  obtain c where c: "rl_entry l (client_key client) = Some c" "now \<le> rc_reset c"
      "r = max 1 (go_quot (rc_reset c - now) second)" "l' = l"
    using denied_entry [OF assms(1)] by auto
  then show "l' = l" and "1 \<le> r" by auto
  have "rc_reset c - now < (r + 1) * second"
    using c(2,3) by (simp add: go_quot_nonneg)
  then show "dead_at t (client_key client) l" using c(1) assms(2) by (simp add: dead_at_def)
qed

lemma step_other_dead:
  assumes "limiter_ok l" and "client_key (snd e) \<noteq> k" and "fst e \<le> t" and "dead_at t k l"
  shows "dead_at t k (allow_step l e)"
proof -
  have "agree_at (fst e) k l l" using assms(1) by (simp add: agree_at_def)
  from allow_other_agrees [OF this assms(2)]
  have "agree_at (fst e) k (allow_step l e) l"
    by (metis allow_step_def prod.collapse)
  with assms(3,4) show ?thesis by (fastforce simp: agree_at_def dead_at_def)
qed

lemma run_other_dead:
  "limiter_ok l \<Longrightarrow> \<forall>e \<in> set es. client_key (snd e) \<noteq> k \<and> fst e \<le> t \<Longrightarrow> dead_at t k l \<Longrightarrow>
   dead_at t k (fold (\<lambda>e l. allow_step l e) es l)"
proof (induction es arbitrary: l)
  case (Cons e es)
  then show ?case using step_other_dead [of l e k t] rate.step_invar [of l e] by simp
qed simp

section \<open>Properties\<close>

text \<open>C27: within any interval as long as the window a client is admitted at most twice the
  limit (the end of one window and the start of the next), and at most the limit when the
  limiter is new.\<close>

theorem rate_limit_bounds_admissions:
  assumes "limiter_ok l" and "\<forall>q \<in> set rs. a \<le> fst q \<and> fst q \<le> a + rl_window l"
  shows "admitted k (serve l rs) \<le> 2 * rl_limit l \<and>
    (l = new_limiter lim win \<longrightarrow> admitted k (serve l rs) \<le> rl_limit l)"
proof -
  have "admitted k (serve l rs) \<le> capacity (a + rl_window l) k l"
    using assms by (intro serve_capacity) auto
  moreover have "l = new_limiter lim win \<longrightarrow> capacity (a + rl_window l) k l = rl_limit l"
    by (auto simp: capacity_def new_limiter_def rl_entry_def)
  ultimately show ?thesis
    using capacity_bounds(2) [OF assms(1), of "a + rl_window l" k] by linarith
qed

theorem rate_limit_bounds_admissions_witness:
  "admitted ''a'' (serve (new_limiter 2 10) [(0, ''a''), (3, ''a''), (4, ''b''), (7, ''a'')]) \<le> 2"
  using rate_limit_bounds_admissions [of "new_limiter 2 10"
      "[(0, ''a''), (3, ''a''), (4, ''b''), (7, ''a'')]" 0 "''a''" 2 10]
  by (simp add: new_limiter_ok) (simp add: new_limiter_def)

text \<open>Clients are limited independently: while the clock does not go back, the answers a
  client gets are exactly those of a limiter nobody else uses.\<close>

theorem rate_limit_isolates_clients:
  assumes "sorted (map fst rs)" and "limiter_ok l"
  shows "filter (\<lambda>(c, ok). c = k) (serve l rs) =
    serve l (filter (\<lambda>(u, c). client_key c = k) rs)"
proof (cases rs)
  case Nil
  then show ?thesis by simp
next
  case (Cons q qs)
  have "agree_at (fst q) k l l" using assms(2) by (simp add: agree_at_def)
  moreover have "\<forall>p \<in> set rs. fst q \<le> fst p" using assms(1) Cons by auto
  ultimately show ?thesis using serve_isolated [OF assms(1)] by blast
qed

theorem rate_limit_isolates_clients_witness:
  "filter (\<lambda>(c, ok). c = ''b'')
     (serve (new_limiter 1 10) [(0, ''a''), (3, ''b''), (4, ''a''), (7, ''b'')]) =
   serve (new_limiter 1 10) [(3, ''b''), (7, ''b'')]"
  using rate_limit_isolates_clients [of "[(0, ''a''), (3, ''b''), (4, ''a''), (7, ''b'')]"
      "new_limiter 1 10" "''b''"]
  by (simp add: new_limiter_ok client_key_def)

text \<open>A refusal names a waiting time of at least a second, and a client that comes back
  after that many seconds and one more is admitted, whatever other clients did in
  between.\<close>

theorem rate_limit_retry_after:
  assumes "limiter_ok l" and "allow l now client = (l', False, r)"
    and "now + (r + 1) * second \<le> t"
    and "\<forall>e \<in> set es. client_key (snd e) \<noteq> client_key client \<and> fst e \<le> t"
  shows "1 \<le> r \<and> fst (snd (allow (fold (\<lambda>e m. allow_step m e) es l') t client))"
  using denied_dead [OF assms(2,3)] run_other_dead [OF assms(1,4)] by (simp add: dead_admits)

theorem rate_limit_retry_after_witness:
  "fst (snd (allow (fold (\<lambda>e m. allow_step m e) [(4, ''b'')]
      (allow_step (new_limiter 1 (10 * second)) (0, ''a''))) (11 * second) ''a''))"
  using rate_limit_retry_after [of "allow_step (new_limiter 1 (10 * second)) (0, ''a'')"
      second "''a''" "allow_step (new_limiter 1 (10 * second)) (0, ''a'')" 9 "11 * second"
      "[(4, ''b'')]"]
  by (simp add: rate.step_invar new_limiter_ok client_key_def)
    (simp add: allow_step_def allow_def new_limiter_def rl_entry_def set_entry_def client_key_def
      maybe_gc_def rate_limiter_gc_threshold_def go_quot_def)

text \<open>Coming back after exactly the advertised number of seconds is too early whenever
  more than a second of the window is left: the number is rounded down, and the window
  includes its last instant.\<close>

theorem rate_limit_retry_after_too_short:
  assumes "allow l now client = (l', False, r)" and "rl_entry l (client_key client) = Some c"
    and "now + second \<le> rc_reset c"
  shows "\<not> fst (snd (allow l' (now + r * second) client))"
proof -
  from denied_entry [OF assms(1)] assms(2)
  have c: "rl_limit l \<le> rc_count c" "r = max 1 (go_quot (rc_reset c - now) second)" "l' = l"
    by auto
  from assms(3) have "1 \<le> (rc_reset c - now) div second" by linarith
  then have "r = (rc_reset c - now) div second"
    using c(2) assms(3) by (simp add: go_quot_nonneg)
  then have "now + r * second \<le> rc_reset c" by linarith
  with c assms(2) show ?thesis by (simp add: allow_def Let_def)
qed

theorem rate_limit_retry_after_too_short_witness:
  "\<not> fst (snd (allow (allow_step (new_limiter 1 (10 * second)) (0, ''a''))
      (second + 9 * second) ''a''))"
  using rate_limit_retry_after_too_short [of
      "allow_step (new_limiter 1 (10 * second)) (0, ''a'')" second "''a''"
      "allow_step (new_limiter 1 (10 * second)) (0, ''a'')" 9
      "\<lparr>rc_count = 1, rc_reset = 10 * second\<rparr>"]
  by (simp add: allow_step_def allow_def new_limiter_def rl_entry_def set_entry_def client_key_def
      maybe_gc_def rate_limiter_gc_threshold_def go_quot_def)

end
