(* ===== verification/Session_Manager.thy ===== *)
theory Session_Manager
  imports Go_Prelude "HOL-Library.AList"
begin

text \<open>
  Calls and the table that keeps them: \<open>internal/session/session.go\<close> and \<open>manager.go\<close>.

  A Go pointer to a session or to a peer is an index into the manager's store, so two tables
  that name one session share it: \<open>mg_sessions\<close> is \<open>Manager.sessions\<close>,
  \<open>mg_resumable\<close> is \<open>Manager.resumable\<close>. A zero \<open>idleSince\<close> is \<open>None\<close>. What the
  code takes from outside is an argument: the clock, a fresh UUID, the random token (\<open>None\<close>
  when the random source fails), whether building a peer succeeds.

  The operations come twice. As the functions the handlers call they run to their end; as
  events (section "Interleaving") they are split at every point where the code releases a
  lock, so that a sequence of events is one interleaving of the goroutines.
\<close>

section \<open>State\<close>

type_synonym addr = nat

record session =
  ss_id :: str
  ss_cancelled :: bool
  ss_peers :: "(str \<times> addr) list"
  ss_idle :: "instant option"
  ss_etag :: str
  ss_conv :: "(str \<times> str) option"
  ss_token :: str
  ss_resource :: str

record peer_obj =
  po_id :: str
  po_session :: addr
  po_closed :: bool

record manager =
  mg_max :: int
  mg_grace_ms :: int
  mg_realtime :: bool
  mg_sessions :: "(str \<times> addr) list"
  mg_resumable :: "str \<Rightarrow> addr option"
  mg_store :: "session list"
  mg_peers :: "peer_obj list"

definition default_session_grace_ms :: int where
  "default_session_grace_ms = 30000"

definition reap_interval_cap :: duration where
  "reap_interval_cap = 10 * second"

definition new_manager :: "int \<Rightarrow> int \<Rightarrow> bool \<Rightarrow> manager" where
  "new_manager max_sessions grace_ms realtime =
     \<lparr> mg_max = max_sessions, mg_grace_ms = grace_ms, mg_realtime = realtime,
       mg_sessions = [], mg_resumable = Map.empty, mg_store = [], mg_peers = [] \<rparr>"

section \<open>Sessions\<close>

definition quoted :: "str \<Rightarrow> str" where
  "quoted s = CHR 0x22 # s @ [CHR 0x22]"

definition new_session :: "str \<Rightarrow> instant \<Rightarrow> session" where
  "new_session sid now =
     \<lparr> ss_id = sid, ss_cancelled = False, ss_peers = [], ss_idle = Some now,
       ss_etag = quoted sid, ss_conv = None, ss_token = [], ss_resource = [] \<rparr>"

definition set_resource_id :: "str \<Rightarrow> session \<Rightarrow> session" where
  "set_resource_id r s =
     (if r = [] then s else if ss_resource s = [] then s\<lparr>ss_resource := r\<rparr> else s)"

definition rotate_etag :: "str \<Rightarrow> session \<Rightarrow> session" where
  "rotate_etag uuid s = s\<lparr>ss_etag := quoted uuid\<rparr>"

definition resumable :: "manager \<Rightarrow> bool" where
  "resumable m \<longleftrightarrow> \<not> mg_realtime m"

text \<open>The token and the one it replaces, or nothing when the random source fails.\<close>

definition rotate_resume_token :: "str option \<Rightarrow> session \<Rightarrow> session \<times> (str \<times> str) option" where
  "rotate_resume_token random s =
     (case random of
        None \<Rightarrow> (s, None)
      | Some t \<Rightarrow> (s\<lparr>ss_token := t\<rparr>, Some (ss_token s, t)))"

definition add_to_peers :: "str \<Rightarrow> addr \<Rightarrow> session \<Rightarrow> session" where
  "add_to_peers pid p s = s\<lparr>ss_peers := AList.update pid p (ss_peers s), ss_idle := None\<rparr>"

definition remove_peer :: "str \<Rightarrow> instant \<Rightarrow> session \<Rightarrow> session" where
  "remove_peer pid now s =
     (let s' = s\<lparr>ss_peers := AList.delete pid (ss_peers s)\<rparr>
      in if ss_peers s' = [] then s'\<lparr>ss_idle := Some now\<rparr> else s')"

text \<open>\<open>build\<close> is \<open>pipeline.NewConversationState\<close>, which can fail on a provider's
  configuration; a second call finds what the first one built.\<close>

definition conversation :: "(str \<Rightarrow> str \<Rightarrow> (str \<times> str) option) \<Rightarrow> session \<Rightarrow> session \<times> (str \<times> str) option" where
  "conversation build s =
     (case ss_conv s of
        Some c \<Rightarrow> (s, Some c)
      | None \<Rightarrow>
          (case build (ss_id s) (ss_resource s) of
             None \<Rightarrow> (s, None)
           | Some c \<Rightarrow> (s\<lparr>ss_conv := Some c\<rparr>, Some c)))"

section \<open>The store\<close>

definition the_session :: "manager \<Rightarrow> addr \<Rightarrow> session" where
  "the_session m a = mg_store m ! a"

definition upd_session :: "addr \<Rightarrow> (session \<Rightarrow> session) \<Rightarrow> manager \<Rightarrow> manager" where
  "upd_session a f m = m\<lparr>mg_store := (mg_store m)[a := f (mg_store m ! a)]\<rparr>"

definition get_peer :: "manager \<Rightarrow> addr \<Rightarrow> str \<Rightarrow> addr option" where
  "get_peer m a pid = map_of (ss_peers (the_session m a)) pid"

text \<open>\<open>AddPeer\<close>: the peer's \<open>OnClose\<close> is a closure over this session and this identifier,
  which the peer record keeps. The answer tells the new peer and whether it resumes a
  conversation.\<close>

definition add_peer :: "addr \<Rightarrow> str \<Rightarrow> bool \<Rightarrow> manager \<Rightarrow> manager \<times> (addr \<times> bool) option" where
  "add_peer a pid built m =
     (if \<not> built then (m, None)
      else let p = length (mg_peers m) in
        (upd_session a (add_to_peers pid p)
           (m\<lparr>mg_peers := mg_peers m @ [\<lparr>po_id = pid, po_session = a, po_closed = False\<rparr>]\<rparr>),
         Some (p, ss_conv (the_session m a) \<noteq> None)))"

text \<open>
  \<open>Peer.Close\<close> is two critical sections with the transport's teardown (up to three
  seconds) between them: the first marks the peer closed and stops later calls, the second
  is the \<open>OnClose\<close> callback.
\<close>

definition begin_close :: "addr \<Rightarrow> manager \<Rightarrow> manager \<times> bool" where
  "begin_close p m =
     (if po_closed (mg_peers m ! p) then (m, False)
      else (m\<lparr>mg_peers := (mg_peers m)[p := (mg_peers m ! p)\<lparr>po_closed := True\<rparr>]\<rparr>, True))"

definition finish_close :: "addr \<Rightarrow> instant \<Rightarrow> manager \<Rightarrow> manager" where
  "finish_close p now m =
     upd_session (po_session (mg_peers m ! p)) (remove_peer (po_id (mg_peers m ! p)) now) m"

definition close_peer :: "instant \<Rightarrow> addr \<Rightarrow> manager \<Rightarrow> manager" where
  "close_peer now p m =
     (case begin_close p m of (m', first) \<Rightarrow> if first then finish_close p now m' else m')"

definition peer_addrs :: "manager \<Rightarrow> addr \<Rightarrow> addr list" where
  "peer_addrs m a = map snd (ss_peers (the_session m a))"

definition clear_peers :: "session \<Rightarrow> session" where
  "clear_peers s = s\<lparr>ss_peers := []\<rparr>"

definition evict_peers :: "instant \<Rightarrow> addr \<Rightarrow> manager \<Rightarrow> manager" where
  "evict_peers now a m = fold (close_peer now) (peer_addrs m a) (upd_session a clear_peers m)"

definition close_session :: "instant \<Rightarrow> addr \<Rightarrow> manager \<Rightarrow> manager" where
  "close_session now a m =
     (let m1 = upd_session a (\<lambda>s. s\<lparr>ss_cancelled := True\<rparr>) m
      in fold (close_peer now) (peer_addrs m1 a) (upd_session a clear_peers m1))"

section \<open>The manager\<close>

definition issue_resume_token :: "addr \<Rightarrow> str option \<Rightarrow> manager \<Rightarrow> manager \<times> str" where
  "issue_resume_token a random m =
     (if \<not> resumable m then (m, [])
      else case rotate_resume_token random (the_session m a) of
        (_, None) \<Rightarrow> (m, [])
      | (s', Some (old, current)) \<Rightarrow>
          let m1 = upd_session a (\<lambda>_. s') m;
              r1 = (if old \<noteq> [] then (mg_resumable m1)(old := None) else mg_resumable m1)
          in (m1\<lparr>mg_resumable := r1(current := Some a)\<rparr>, current))"

definition resume :: "instant \<Rightarrow> manager \<Rightarrow> str \<Rightarrow> manager \<times> addr option" where
  "resume now m token =
     (if token = [] then (m, None)
      else case mg_resumable m token of
        None \<Rightarrow> (m, None)
      | Some a \<Rightarrow>
          (evict_peers now a (m\<lparr>mg_resumable := (mg_resumable m)(token := None)\<rparr>), Some a))"

definition get_or_create :: "str \<Rightarrow> instant \<Rightarrow> manager \<Rightarrow> manager \<times> addr option" where
  "get_or_create sid now m =
     (case map_of (mg_sessions m) sid of
        Some a \<Rightarrow> (m, Some a)
      | None \<Rightarrow>
          if 0 < mg_max m \<and> mg_max m \<le> int (length (mg_sessions m)) then (m, None)
          else let a = length (mg_store m) in
            (m\<lparr>mg_store := mg_store m @ [new_session sid now],
               mg_sessions := AList.update sid a (mg_sessions m)\<rparr>, Some a))"

definition get_session :: "manager \<Rightarrow> str \<Rightarrow> addr option" where
  "get_session m sid = map_of (mg_sessions m) sid"

definition drop_resume_token :: "addr \<Rightarrow> manager \<Rightarrow> manager" where
  "drop_resume_token a m =
     (let t = ss_token (the_session m a)
      in if t \<noteq> [] then m\<lparr>mg_resumable := (mg_resumable m)(t := None)\<rparr> else m)"

definition unlist :: "str \<Rightarrow> manager \<Rightarrow> manager" where
  "unlist sid m = m\<lparr>mg_sessions := AList.delete sid (mg_sessions m)\<rparr>"

definition remove_session :: "str \<Rightarrow> instant \<Rightarrow> manager \<Rightarrow> manager" where
  "remove_session sid now m =
     (case map_of (mg_sessions m) sid of
        None \<Rightarrow> m
      | Some a \<Rightarrow> drop_resume_token a (unlist sid (close_session now a m)))"

definition grace :: "manager \<Rightarrow> duration" where
  "grace m = (if 0 < mg_grace_ms m then mg_grace_ms m else default_session_grace_ms) * millisecond"

definition reap_interval :: "manager \<Rightarrow> duration" where
  "reap_interval m =
     (let i = go_quot (grace m) 3;
          j = (if i < second then second else i)
      in if reap_interval_cap < j then reap_interval_cap else j)"

definition expired :: "instant \<Rightarrow> manager \<Rightarrow> addr \<Rightarrow> bool" where
  "expired now m a \<longleftrightarrow>
     (case ss_idle (the_session m a) of None \<Rightarrow> False | Some i \<Rightarrow> \<not> now - i < grace m)"

definition expired_entries :: "instant \<Rightarrow> manager \<Rightarrow> (str \<times> addr) list" where
  "expired_entries now m = filter (\<lambda>(sid, a). expired now m a) (mg_sessions m)"

definition unlist_expired :: "instant \<Rightarrow> manager \<Rightarrow> manager" where
  "unlist_expired now m =
     fold (\<lambda>(sid, a) h. drop_resume_token a (unlist sid h)) (expired_entries now m) m"

definition reap :: "instant \<Rightarrow> manager \<Rightarrow> manager" where
  "reap now m =
     fold (\<lambda>(sid, a). close_session now a) (expired_entries now m) (unlist_expired now m)"

definition close_all :: "instant \<Rightarrow> manager \<Rightarrow> manager" where
  "close_all now m =
     (let m1 = fold (\<lambda>(sid, a) h. unlist sid (close_session now a h)) (mg_sessions m) m
      in m1\<lparr>mg_resumable := Map.empty\<rparr>)"

section \<open>What each operation changes\<close>

lemma upd_session_frame [simp]:
  "mg_max (upd_session a f m) = mg_max m"
  "mg_grace_ms (upd_session a f m) = mg_grace_ms m"
  "mg_realtime (upd_session a f m) = mg_realtime m"
  "mg_sessions (upd_session a f m) = mg_sessions m"
  "mg_resumable (upd_session a f m) = mg_resumable m"
  "mg_peers (upd_session a f m) = mg_peers m"
  "length (mg_store (upd_session a f m)) = length (mg_store m)"
  by (simp_all add: upd_session_def)

lemma the_session_upd [simp]:
  "the_session (upd_session a f m) b =
     (if b = a \<and> a < length (mg_store m) then f (the_session m a) else the_session m b)"
  by (cases "a < length (mg_store m)") 
    (auto simp: upd_session_def the_session_def nth_list_update list_update_beyond)

lemma the_session_frame [simp]:
  "the_session (mg_peers_update f m) a = the_session m a"
  "the_session (mg_resumable_update g m) a = the_session m a"
  "the_session (mg_sessions_update h m) a = the_session m a"
  by (simp_all add: the_session_def)

text \<open>The part of a manager that closing a transport does not touch.\<close>

definition same_tables :: "manager \<Rightarrow> manager \<Rightarrow> bool" where
  "same_tables m m' \<longleftrightarrow> mg_max m' = mg_max m \<and> mg_grace_ms m' = mg_grace_ms m \<and>
     mg_realtime m' = mg_realtime m \<and> mg_sessions m' = mg_sessions m \<and>
     mg_resumable m' = mg_resumable m \<and> length (mg_store m') = length (mg_store m) \<and>
     length (mg_peers m') = length (mg_peers m)"

lemma same_tables_refl [simp]: "same_tables m m"
  by (simp add: same_tables_def)

lemma same_tables_trans [trans]: "same_tables a b \<Longrightarrow> same_tables b c \<Longrightarrow> same_tables a c"
  by (simp add: same_tables_def)

lemma same_tables_upd [simp]: "same_tables m (upd_session a f m)"
  by (simp add: same_tables_def)

lemma close_peer_tables [simp]: "same_tables m (close_peer now p m)"
  by (simp add: close_peer_def begin_close_def finish_close_def same_tables_def)

lemma fold_close_tables [simp]: "same_tables m (fold (close_peer now) ps m)"
  by (induction ps arbitrary: m) (auto intro: same_tables_trans [OF close_peer_tables])

lemma evict_tables [simp]: "same_tables m (evict_peers now a m)"
  unfolding evict_peers_def by (rule same_tables_trans [OF same_tables_upd fold_close_tables])

lemma close_session_tables [simp]: "same_tables m (close_session now a m)"
  unfolding close_session_def Let_def
  by (intro same_tables_trans [OF _ fold_close_tables] same_tables_trans [OF _ same_tables_upd])
    (rule same_tables_refl)

lemma tables_eq_simps [simp]:
  "mg_max (evict_peers now a m) = mg_max m"
  "mg_sessions (evict_peers now a m) = mg_sessions m"
  "mg_resumable (evict_peers now a m) = mg_resumable m"
  "mg_max (close_session now a m) = mg_max m"
  "mg_grace_ms (close_session now a m) = mg_grace_ms m"
  "mg_sessions (close_session now a m) = mg_sessions m"
  "mg_resumable (close_session now a m) = mg_resumable m"
  "length (mg_store (evict_peers now a m)) = length (mg_store m)"
  "length (mg_peers (evict_peers now a m)) = length (mg_peers m)"
  "length (mg_store (close_session now a m)) = length (mg_store m)"
  "length (mg_peers (close_session now a m)) = length (mg_peers m)"
  using evict_tables [of m now a] close_session_tables [of m now a]
  by (simp_all add: same_tables_def)

subsection \<open>Closing transports\<close>

lemma remove_peer_empty: "ss_peers s = [] \<Longrightarrow> remove_peer pid now s = s\<lparr>ss_idle := Some now\<rparr>"
  by (simp add: remove_peer_def)

lemma close_peer_peers:
  "p < length (mg_peers m) \<Longrightarrow>
   mg_peers (close_peer now p m) = (mg_peers m)[p := (mg_peers m ! p)\<lparr>po_closed := True\<rparr>]"
proof (cases "po_closed (mg_peers m ! p)")
  case True
  then have "(mg_peers m ! p)\<lparr>po_closed := True\<rparr> = mg_peers m ! p" by simp
  then have "(mg_peers m)[p := (mg_peers m ! p)\<lparr>po_closed := True\<rparr>] = mg_peers m"
    by (metis list_update_id)
  with True show ?thesis by (simp add: close_peer_def begin_close_def)
qed (simp add: close_peer_def begin_close_def finish_close_def)

lemma close_peer_session:
  assumes "p < length (mg_peers m)" and "po_session (mg_peers m ! p) < length (mg_store m)"
  shows "the_session (close_peer now p m) b =
    (if b = po_session (mg_peers m ! p) \<and> \<not> po_closed (mg_peers m ! p)
     then remove_peer (po_id (mg_peers m ! p)) now (the_session m b) else the_session m b)"
  using assms by (simp add: close_peer_def begin_close_def finish_close_def)

lemma fold_close:
  assumes "\<forall>p \<in> set ps. p < length (mg_peers m) \<and> po_session (mg_peers m ! p) = a"
    and "a < length (mg_store m)" and "ss_peers (the_session m a) = []"
  shows "the_session (fold (close_peer now) ps m) b =
      (if b = a \<and> (\<exists>p \<in> set ps. \<not> po_closed (mg_peers m ! p))
       then (the_session m a)\<lparr>ss_idle := Some now\<rparr> else the_session m b)"
    and "q < length (mg_peers m) \<Longrightarrow> mg_peers (fold (close_peer now) ps m) ! q =
      (if q \<in> set ps then (mg_peers m ! q)\<lparr>po_closed := True\<rparr> else mg_peers m ! q)"
  using assms
proof (induction ps arbitrary: m)
  case (Cons p ps)
  {
    case 1
    let ?m = "close_peer now p m"
    from 1 have p: "p < length (mg_peers m)" "po_session (mg_peers m ! p) = a" by auto
    then have sess: "the_session ?m b = (if b = a \<and> \<not> po_closed (mg_peers m ! p)
        then (the_session m b)\<lparr>ss_idle := Some now\<rparr> else the_session m b)" for b
      using 1 by (simp add: close_peer_session remove_peer_empty)
    have ih: "the_session (fold (close_peer now) ps ?m) b =
        (if b = a \<and> (\<exists>q \<in> set ps. \<not> po_closed (mg_peers ?m ! q))
         then (the_session ?m a)\<lparr>ss_idle := Some now\<rparr> else the_session ?m b)"
      using 1 p close_peer_tables [of m now p] sess [of a]
      by (intro Cons.IH(1)) (auto simp: close_peer_peers nth_list_update same_tables_def)
    have "(\<exists>q \<in> set ps. \<not> po_closed (mg_peers ?m ! q)) \<longleftrightarrow>
        (\<exists>q \<in> set ps. q \<noteq> p \<and> \<not> po_closed (mg_peers m ! q))"
      using 1 p by (auto simp: close_peer_peers nth_list_update)
    with ih sess show ?case by auto
  next
    case 2
    let ?m = "close_peer now p m"
    from 2 have p: "p < length (mg_peers m)" "po_session (mg_peers m ! p) = a" by auto
    have "mg_peers (fold (close_peer now) ps ?m) ! q =
        (if q \<in> set ps then (mg_peers ?m ! q)\<lparr>po_closed := True\<rparr> else mg_peers ?m ! q)"
      using 2 p close_peer_tables [of m now p]
      by (intro Cons.IH(2))
        (auto simp: close_peer_peers nth_list_update same_tables_def close_peer_session
          remove_peer_empty)
    then show ?case using 2 p by (auto simp: close_peer_peers nth_list_update)
  }
qed simp_all

section \<open>The representation invariant\<close>

text \<open>
  Every pointer is valid, every key of a table is the identifier of what it holds, a
  registered peer is open and knows its session, the number of sessions respects the cap; a
  token resolves only to a listed session whose current token it is; and a listed session
  is either carrying a peer or has been idle since a known instant.
\<close>

definition peers_ok :: "manager \<Rightarrow> addr \<Rightarrow> bool" where
  "peers_ok m a \<longleftrightarrow> distinct (map fst (ss_peers (the_session m a))) \<and>
     (\<forall>(pid, p) \<in> set (ss_peers (the_session m a)).
        p < length (mg_peers m) \<and> po_id (mg_peers m ! p) = pid \<and>
        po_session (mg_peers m ! p) = a \<and> \<not> po_closed (mg_peers m ! p))"

definition idle_ok :: "manager \<Rightarrow> addr \<Rightarrow> bool" where
  "idle_ok m a \<longleftrightarrow> (ss_idle (the_session m a) = None \<longleftrightarrow> ss_peers (the_session m a) \<noteq> [])"

definition listed :: "manager \<Rightarrow> addr \<Rightarrow> bool" where
  "listed m a \<longleftrightarrow> (ss_id (the_session m a), a) \<in> set (mg_sessions m)"

definition sessions_ok :: "manager \<Rightarrow> bool" where
  "sessions_ok m \<longleftrightarrow> distinct (map fst (mg_sessions m)) \<and>
     (\<forall>(sid, a) \<in> set (mg_sessions m). a < length (mg_store m) \<and> ss_id (the_session m a) = sid) \<and>
     (0 < mg_max m \<longrightarrow> int (length (mg_sessions m)) \<le> mg_max m)"

definition tokens_ok :: "manager \<Rightarrow> bool" where
  "tokens_ok m \<longleftrightarrow> (\<forall>t a. mg_resumable m t = Some a \<longrightarrow>
     t \<noteq> [] \<and> a < length (mg_store m) \<and> listed m a \<and> ss_token (the_session m a) = t)"

definition manager_ok :: "manager \<Rightarrow> bool" where
  "manager_ok m \<longleftrightarrow> sessions_ok m \<and> tokens_ok m \<and>
     (\<forall>a < length (mg_store m). peers_ok m a \<and> idle_ok m a) \<and>
     (\<forall>p < length (mg_peers m). po_session (mg_peers m ! p) < length (mg_store m))"

lemma new_manager_ok: "manager_ok (new_manager max_sessions grace_ms realtime)"
  by (simp add: manager_ok_def sessions_ok_def tokens_ok_def new_manager_def)

lemma manager_okD:
  assumes "manager_ok m"
  shows "sessions_ok m" "tokens_ok m" "a < length (mg_store m) \<Longrightarrow> peers_ok m a"
    "a < length (mg_store m) \<Longrightarrow> idle_ok m a"
    "p < length (mg_peers m) \<Longrightarrow> po_session (mg_peers m ! p) < length (mg_store m)"
  using assms by (simp_all add: manager_ok_def)

lemma peers_okD:
  "peers_ok m a \<Longrightarrow> p \<in> set (peer_addrs m a) \<Longrightarrow>
   p < length (mg_peers m) \<and> po_session (mg_peers m ! p) = a \<and> \<not> po_closed (mg_peers m ! p)"
  by (auto simp: peers_ok_def peer_addrs_def)

lemma sessions_okD:
  assumes "sessions_ok m"
  shows "distinct (map fst (mg_sessions m))"
    and "(sid, a) \<in> set (mg_sessions m) \<Longrightarrow> a < length (mg_store m) \<and> ss_id (the_session m a) = sid"
  using assms by (auto simp: sessions_ok_def)

lemma sessions_ok_inj:
  "sessions_ok m \<Longrightarrow> (sid, a) \<in> set (mg_sessions m) \<Longrightarrow> (tid, a) \<in> set (mg_sessions m) \<Longrightarrow> sid = tid"
  by (metis sessions_okD(2))

lemma session_lookup:
  "sessions_ok m \<Longrightarrow> map_of (mg_sessions m) sid = Some a \<longleftrightarrow> (sid, a) \<in> set (mg_sessions m)"
  by (simp add: map_of_eq_Some_iff sessions_okD(1))

lemma listed_iff:
  "sessions_ok m \<Longrightarrow> listed m a \<longleftrightarrow> (\<exists>sid. (sid, a) \<in> set (mg_sessions m))"
  using sessions_okD(2) by (fastforce simp: listed_def)

subsection \<open>Evicting and closing, in full\<close>

text \<open>Replacing a session's peer map and closing what it held, after a change \<open>f\<close> to the
  session's other fields.\<close>

definition detach :: "instant \<Rightarrow> session \<Rightarrow> session" where
  "detach now s = s\<lparr>ss_peers := [], ss_idle := (if ss_peers s = [] then ss_idle s else Some now)\<rparr>"

lemma drain:
  fixes h :: manager
  assumes "peers_ok m a" and "a < length (mg_store m)"
    and "mg_peers h = mg_peers m" and "length (mg_store h) = length (mg_store m)"
    and "ss_peers (the_session h a) = []"
  shows "the_session (fold (close_peer now) (peer_addrs m a) h) b =
      (if b = a \<and> ss_peers (the_session m a) \<noteq> []
       then (the_session h a)\<lparr>ss_idle := Some now\<rparr> else the_session h b)"
    and "q < length (mg_peers m) \<Longrightarrow>
      mg_peers (fold (close_peer now) (peer_addrs m a) h) ! q =
        (if q \<in> set (peer_addrs m a) then (mg_peers m ! q)\<lparr>po_closed := True\<rparr>
         else mg_peers m ! q)"
proof -
  have *: "\<forall>p \<in> set (peer_addrs m a). p < length (mg_peers h) \<and> po_session (mg_peers h ! p) = a"
    using peers_okD [OF assms(1)] assms(3) by auto
  have "(\<exists>p \<in> set (peer_addrs m a). \<not> po_closed (mg_peers h ! p)) \<longleftrightarrow>
      ss_peers (the_session m a) \<noteq> []"
    using peers_okD [OF assms(1)] assms(3)
    by (cases "ss_peers (the_session m a)") (auto simp: peer_addrs_def)
  with fold_close(1) [OF * _ assms(5)] assms(2,4)
  show "the_session (fold (close_peer now) (peer_addrs m a) h) b =
      (if b = a \<and> ss_peers (the_session m a) \<noteq> []
       then (the_session h a)\<lparr>ss_idle := Some now\<rparr> else the_session h b)" by simp
  show "q < length (mg_peers m) \<Longrightarrow>
      mg_peers (fold (close_peer now) (peer_addrs m a) h) ! q =
        (if q \<in> set (peer_addrs m a) then (mg_peers m ! q)\<lparr>po_closed := True\<rparr>
         else mg_peers m ! q)"
    using fold_close(2) [OF * _ assms(5)] assms(2,3,4) by simp
qed

lemma evict_session:
  assumes "peers_ok m a" and "a < length (mg_store m)"
  shows "the_session (evict_peers now a m) b =
    (if b = a then detach now (the_session m a) else the_session m b)"
  unfolding evict_peers_def
  using assms by (simp add: drain(1) clear_peers_def detach_def)

lemma evict_peer:
  assumes "peers_ok m a" and "a < length (mg_store m)" and "q < length (mg_peers m)"
  shows "mg_peers (evict_peers now a m) ! q =
    (if q \<in> set (peer_addrs m a) then (mg_peers m ! q)\<lparr>po_closed := True\<rparr> else mg_peers m ! q)"
  unfolding evict_peers_def
  using assms by (simp add: drain(2) clear_peers_def)

lemma close_session_session:
  assumes "peers_ok m a" and "a < length (mg_store m)"
  shows "the_session (close_session now a m) b =
    (if b = a then detach now ((the_session m a)\<lparr>ss_cancelled := True\<rparr>) else the_session m b)"
proof -
  have "peer_addrs (upd_session a (\<lambda>s. s\<lparr>ss_cancelled := True\<rparr>) m) a = peer_addrs m a"
    by (simp add: peer_addrs_def)
  then show ?thesis
    unfolding close_session_def Let_def
    using assms by (simp add: drain(1) clear_peers_def detach_def)
qed

lemma close_session_peer:
  assumes "peers_ok m a" and "a < length (mg_store m)" and "q < length (mg_peers m)"
  shows "mg_peers (close_session now a m) ! q =
    (if q \<in> set (peer_addrs m a) then (mg_peers m ! q)\<lparr>po_closed := True\<rparr> else mg_peers m ! q)"
proof -
  have "peer_addrs (upd_session a (\<lambda>s. s\<lparr>ss_cancelled := True\<rparr>) m) a = peer_addrs m a"
    by (simp add: peer_addrs_def)
  then show ?thesis
    unfolding close_session_def Let_def
    using assms by (simp add: drain(2) clear_peers_def)
qed

subsection \<open>Preservation\<close>

text \<open>A change that keeps the tables and every session's identity and token.\<close>

lemma tables_ok_step:
  assumes "same_tables m m'"
    and "\<And>b. b < length (mg_store m) \<Longrightarrow>
      ss_id (the_session m' b) = ss_id (the_session m b) \<and>
      ss_token (the_session m' b) = ss_token (the_session m b)"
  shows "sessions_ok m \<Longrightarrow> sessions_ok m'" and "tokens_ok m \<Longrightarrow> tokens_ok m'"
proof -
  show "sessions_ok m \<Longrightarrow> sessions_ok m'"
    using assms by (fastforce simp: sessions_ok_def same_tables_def)
  show "tokens_ok m \<Longrightarrow> tokens_ok m'"
    using assms by (simp add: tokens_ok_def same_tables_def listed_def)
qed

lemma manager_ok_step:
  assumes "manager_ok m" and "same_tables m m'"
    and "\<And>b. b < length (mg_store m) \<Longrightarrow>
      ss_id (the_session m' b) = ss_id (the_session m b) \<and>
      ss_token (the_session m' b) = ss_token (the_session m b) \<and> peers_ok m' b \<and> idle_ok m' b"
    and "\<And>p. p < length (mg_peers m) \<Longrightarrow> po_session (mg_peers m' ! p) = po_session (mg_peers m ! p)"
  shows "manager_ok m'"
proof -
  have "sessions_ok m'" and "tokens_ok m'"
    using tables_ok_step [OF assms(2)] assms(3) manager_okD(1,2) [OF assms(1)] by blast+
  then show ?thesis
    using assms(3,4) manager_okD(5) [OF assms(1)] assms(2)
    by (simp add: manager_ok_def same_tables_def)
qed

lemma detach_simps [simp]:
  "ss_id (detach now s) = ss_id s" "ss_token (detach now s) = ss_token s"
  "ss_peers (detach now s) = []" "ss_resource (detach now s) = ss_resource s"
  "ss_conv (detach now s) = ss_conv s" "ss_cancelled (detach now s) = ss_cancelled s"
  "ss_etag (detach now s) = ss_etag s"
  "ss_idle (detach now s) = (if ss_peers s = [] then ss_idle s else Some now)"
  by (simp_all add: detach_def)

lemma peers_ok_closed_elsewhere:
  assumes "peers_ok m b" and "peers_ok m a" and "b \<noteq> a"
    and "ss_peers (the_session m' b) = ss_peers (the_session m b)"
    and "length (mg_peers m') = length (mg_peers m)"
    and "\<And>q. q < length (mg_peers m) \<Longrightarrow> mg_peers m' ! q =
      (if q \<in> set (peer_addrs m a) then (mg_peers m ! q)\<lparr>po_closed := True\<rparr> else mg_peers m ! q)"
  shows "peers_ok m' b"
proof -
  have "p \<notin> set (peer_addrs m a)" if "(pid, p) \<in> set (ss_peers (the_session m b))" for pid p
    using peers_okD [OF assms(2), of p] assms(1,3) that by (auto simp: peers_ok_def)
  then show ?thesis
    using assms(1,4,5,6) by (fastforce simp: peers_ok_def)
qed

lemma evict_ok:
  assumes "manager_ok m" and "a < length (mg_store m)"
  shows "manager_ok (evict_peers now a m)"
proof (rule manager_ok_step [OF assms(1) evict_tables])
  fix b assume b: "b < length (mg_store m)"
  note ok = manager_okD [OF assms(1)]
  note sess = evict_session [OF ok(3) [OF assms(2)] assms(2), of now]
  have "peers_ok (evict_peers now a m) b"
  proof (cases "b = a")
    case False
    show ?thesis
      by (rule peers_ok_closed_elsewhere [OF ok(3) [OF b] ok(3) [OF assms(2)] False])
        (use False in \<open>simp_all add: sess evict_peer [OF ok(3) [OF assms(2)] assms(2)]\<close>)
  qed (simp add: peers_ok_def sess)
  moreover have "idle_ok (evict_peers now a m) b"
    using ok(4) [OF assms(2)] ok(4) [OF b] by (auto simp: idle_ok_def sess)
  ultimately show "ss_id (the_session (evict_peers now a m) b) = ss_id (the_session m b) \<and>
      ss_token (the_session (evict_peers now a m) b) = ss_token (the_session m b) \<and>
      peers_ok (evict_peers now a m) b \<and> idle_ok (evict_peers now a m) b"
    by (simp add: sess)
next
  fix p assume "p < length (mg_peers m)"
  with assms show "po_session (mg_peers (evict_peers now a m) ! p) = po_session (mg_peers m ! p)"
    by (simp add: evict_peer [OF manager_okD(3)])
qed

lemma close_session_ok:
  assumes "manager_ok m" and "a < length (mg_store m)"
  shows "manager_ok (close_session now a m)"
proof (rule manager_ok_step [OF assms(1) close_session_tables])
  fix b assume b: "b < length (mg_store m)"
  note ok = manager_okD [OF assms(1)]
  note sess = close_session_session [OF ok(3) [OF assms(2)] assms(2), of now]
  have "peers_ok (close_session now a m) b"
  proof (cases "b = a")
    case False
    show ?thesis
      by (rule peers_ok_closed_elsewhere [OF ok(3) [OF b] ok(3) [OF assms(2)] False])
        (use False in \<open>simp_all add: sess close_session_peer [OF ok(3) [OF assms(2)] assms(2)]\<close>)
  qed (simp add: peers_ok_def sess)
  moreover have "idle_ok (close_session now a m) b"
    using ok(4) [OF assms(2)] ok(4) [OF b] by (auto simp: idle_ok_def sess)
  ultimately show "ss_id (the_session (close_session now a m) b) = ss_id (the_session m b) \<and>
      ss_token (the_session (close_session now a m) b) = ss_token (the_session m b) \<and>
      peers_ok (close_session now a m) b \<and> idle_ok (close_session now a m) b"
    by (simp add: sess)
next
  fix p assume "p < length (mg_peers m)"
  with assms show "po_session (mg_peers (close_session now a m) ! p) = po_session (mg_peers m ! p)"
    by (simp add: close_session_peer [OF manager_okD(3)])
qed

text \<open>An update of the fields that no table depends on.\<close>

lemma upd_ok:
  assumes "manager_ok m"
    and "\<And>s. ss_id (f s) = ss_id s \<and> ss_token (f s) = ss_token s \<and> ss_peers (f s) = ss_peers s \<and>
      ss_idle (f s) = ss_idle s"
  shows "manager_ok (upd_session a f m)"
  by (rule manager_ok_step [OF assms(1)])
    (use assms manager_okD(3,4) [OF assms(1)] in \<open>auto simp: peers_ok_def idle_ok_def\<close>)

lemma set_resource_ok: "manager_ok m \<Longrightarrow> manager_ok (upd_session a (set_resource_id r) m)"
  by (rule upd_ok) (simp_all add: set_resource_id_def)

lemma rotate_etag_ok: "manager_ok m \<Longrightarrow> manager_ok (upd_session a (rotate_etag u) m)"
  by (rule upd_ok) (simp_all add: rotate_etag_def)

lemma conversation_ok: "manager_ok m \<Longrightarrow> manager_ok (upd_session a (\<lambda>s. fst (conversation b s)) m)"
  by (rule upd_ok) (auto simp: conversation_def split: option.splits)

lemma remove_peer_simps [simp]:
  "ss_id (remove_peer pid now s) = ss_id s" "ss_token (remove_peer pid now s) = ss_token s"
  "ss_peers (remove_peer pid now s) = AList.delete pid (ss_peers s)"
  "ss_resource (remove_peer pid now s) = ss_resource s"
  by (simp_all add: remove_peer_def Let_def)

lemma remove_peer_idle: "ss_idle (remove_peer pid now s) =
    (if AList.delete pid (ss_peers s) = [] then Some now else ss_idle s)"
  by (simp add: remove_peer_def Let_def)

lemma delete_set: "set (AList.delete k xs) = {x \<in> set xs. fst x \<noteq> k}"
  by (induction xs) auto

lemma in_updateD: "x \<in> set (AList.update k v xs) \<Longrightarrow> x \<in> set xs \<or> x = (k, v)"
  by (induction xs) (auto split: if_splits)

lemma update_new: "k \<notin> fst ` set xs \<Longrightarrow> AList.update k v xs = xs @ [(k, v)]"
  by (induction xs) auto

lemma close_peer_ok:
  assumes "manager_ok m" and "p < length (mg_peers m)"
  shows "manager_ok (close_peer now p m)"
proof (rule manager_ok_step [OF assms(1) close_peer_tables])
  note ok = manager_okD [OF assms(1)]
  let ?a = "po_session (mg_peers m ! p)" and ?pid = "po_id (mg_peers m ! p)"
  fix b assume b: "b < length (mg_store m)"
  have sess: "the_session (close_peer now p m) b =
    (if b = ?a \<and> \<not> po_closed (mg_peers m ! p) then remove_peer ?pid now (the_session m b)
     else the_session m b)"
    using close_peer_session [OF assms(2) ok(5) [OF assms(2)]] by simp
  have "q \<noteq> p" if "(pid, q) \<in> set (ss_peers (the_session (close_peer now p m) b))" for pid q
    using that ok(3) [OF b] by (auto simp: sess peers_ok_def delete_set split: if_splits)
  moreover have "(pid, q) \<in> set (ss_peers (the_session m b))"
    if "(pid, q) \<in> set (ss_peers (the_session (close_peer now p m) b))" for pid q
    using that by (auto simp: sess delete_set split: if_splits)
  moreover have "distinct (map fst (ss_peers (the_session (close_peer now p m) b)))"
    using ok(3) [OF b] by (auto simp: sess peers_ok_def distinct_delete)
  ultimately have "peers_ok (close_peer now p m) b"
    using ok(3) [OF b] by (fastforce simp: peers_ok_def close_peer_peers assms(2))
  moreover have "idle_ok (close_peer now p m) b"
    using ok(4) [OF b] by (auto simp: idle_ok_def sess remove_peer_idle)
  ultimately show "ss_id (the_session (close_peer now p m) b) = ss_id (the_session m b) \<and>
      ss_token (the_session (close_peer now p m) b) = ss_token (the_session m b) \<and>
      peers_ok (close_peer now p m) b \<and> idle_ok (close_peer now p m) b"
    by (simp add: sess)
next
  fix q assume "q < length (mg_peers m)"
  with assms(2) show "po_session (mg_peers (close_peer now p m) ! q) = po_session (mg_peers m ! q)"
    by (simp add: close_peer_peers nth_list_update)
qed

lemma add_peer_ok:
  assumes "manager_ok m" and "a < length (mg_store m)" and "add_peer a pid built m = (m', r)"
  shows "manager_ok m'"
proof (cases built)
  case False
  with assms show ?thesis by (simp add: add_peer_def)
next
  case True
  note ok = manager_okD [OF assms(1)]
  let ?p = "length (mg_peers m)"
  let ?o = "\<lparr>po_id = pid, po_session = a, po_closed = False\<rparr>"
  from True assms(3) have m': "m' = upd_session a (add_to_peers pid ?p) (m\<lparr>mg_peers := mg_peers m @ [?o]\<rparr>)"
    by (simp add: add_peer_def Let_def)
  then have sess: "the_session m' b = (if b = a then add_to_peers pid ?p (the_session m a) else the_session m b)"
    for b using assms(2) by simp
  have "sessions_ok m'" and "tokens_ok m'"
    using ok(1,2) sess by (auto simp: sessions_ok_def tokens_ok_def listed_def m' add_to_peers_def)
  moreover have "peers_ok m' b" if "b < length (mg_store m)" for b
  proof (cases "b = a")
    case True
    have "p < length (mg_peers m') \<and> po_id (mg_peers m' ! p) = i \<and>
        po_session (mg_peers m' ! p) = a \<and> \<not> po_closed (mg_peers m' ! p)"
      if "(i, p) \<in> set (AList.update pid ?p (ss_peers (the_session m a)))" for i p
    proof -
      from that have "(i, p) \<in> set (ss_peers (the_session m a)) \<or> i = pid \<and> p = ?p"
        by (auto dest: in_updateD)
      then show ?thesis using ok(3) [OF assms(2)] by (auto simp: peers_ok_def m' nth_append)
    qed
    then show ?thesis using True ok(3) [OF assms(2)]
      by (auto simp: peers_ok_def sess add_to_peers_def distinct_update)
  next
    case False
    then show ?thesis using ok(3) [OF that] by (auto simp: peers_ok_def sess m' nth_append)
  qed
  moreover have "idle_ok m' b" if "b < length (mg_store m)" for b
    using ok(4) [OF that] by (simp add: idle_ok_def sess add_to_peers_def)
  moreover have "po_session (mg_peers m' ! p) < length (mg_store m')" if "p < length (mg_peers m')" for p
    using that ok(5) [of p] assms(2) by (cases "p = ?p") (auto simp: m' nth_append)
  ultimately show ?thesis by (simp add: manager_ok_def m')
qed

lemma issue_ok:
  assumes "manager_ok m" and "a < length (mg_store m)" and "listed m a"
    and "random \<noteq> Some []" and "issue_resume_token a random m = (m', t)"
  shows "manager_ok m'"
proof (cases "resumable m \<and> random \<noteq> None")
  case False
  with assms(5) have "m' = m"
    by (cases random) (auto simp: issue_resume_token_def rotate_resume_token_def split: if_splits)
  with assms(1) show ?thesis by simp
next
  case True
  note ok = manager_okD [OF assms(1)]
  obtain u where u: "random = Some u" and "u \<noteq> []" using True assms(4) by auto
  have res: "mg_resumable m' = (\<lambda>v. if v = u then Some a
      else if v = ss_token (the_session m a) \<and> v \<noteq> [] then None else mg_resumable m v)"
    and rest: "mg_sessions m' = mg_sessions m" "mg_peers m' = mg_peers m" "mg_max m' = mg_max m"
      "length (mg_store m') = length (mg_store m)"
    and sess: "\<And>b. the_session m' b =
      (if b = a then (the_session m a)\<lparr>ss_token := u\<rparr> else the_session m b)"
    using True u assms(2,5)
    by (auto simp: issue_resume_token_def rotate_resume_token_def Let_def split: if_splits)
  have "sessions_ok m'" using ok(1) by (auto simp: sessions_ok_def rest sess)
  moreover have "tokens_ok m'"
    unfolding tokens_ok_def
  proof (intro allI impI)
    fix v b assume vb: "mg_resumable m' v = Some b"
    show "v \<noteq> [] \<and> b < length (mg_store m') \<and> listed m' b \<and> ss_token (the_session m' b) = v"
    proof (cases "v = u")
      case True
      with vb \<open>u \<noteq> []\<close> assms(2,3) show ?thesis by (simp add: res rest sess listed_def)
    next
      case False
      with vb have "mg_resumable m v = Some b" "v \<noteq> ss_token (the_session m a) \<or> v = []"
        by (auto simp: res split: if_splits)
      moreover from this ok(2) have "b \<noteq> a" by (auto simp: tokens_ok_def)
      ultimately show ?thesis using ok(2) by (simp add: tokens_ok_def rest sess listed_def)
    qed
  qed
  moreover have "peers_ok m' b \<and> idle_ok m' b" if "b < length (mg_store m)" for b
    using ok(3,4) [OF that] by (auto simp: peers_ok_def idle_ok_def sess rest)
  ultimately show ?thesis using ok(5) by (simp add: manager_ok_def rest)
qed

lemma forget_token_ok:
  "manager_ok m \<Longrightarrow> manager_ok (m\<lparr>mg_resumable := (mg_resumable m)(t := None)\<rparr>)"
  by (auto simp: manager_ok_def sessions_ok_def tokens_ok_def listed_def peers_ok_def idle_ok_def)

lemma token_addr: "manager_ok m \<Longrightarrow> mg_resumable m t = Some a \<Longrightarrow> a < length (mg_store m) \<and> listed m a"
  by (auto simp: manager_ok_def tokens_ok_def)

lemma resume_ok: "manager_ok m \<Longrightarrow> resume now m t = (m', r) \<Longrightarrow> manager_ok m'"
  using token_addr [of m t] forget_token_ok [of m t]
  by (auto simp: resume_def intro!: evict_ok split: option.splits if_splits)

lemma get_or_create_ok:
  assumes "manager_ok m" and "get_or_create sid now m = (m', r)"
  shows "manager_ok m'"
proof (cases "m' = m")
  case False
  note ok = manager_okD [OF assms(1)]
  let ?a = "length (mg_store m)"
  from False assms(2) have new: "map_of (mg_sessions m) sid = None"
      "\<not> (0 < mg_max m \<and> mg_max m \<le> int (length (mg_sessions m)))"
    and m': "m' = m\<lparr>mg_store := mg_store m @ [new_session sid now],
      mg_sessions := AList.update sid ?a (mg_sessions m)\<rparr>"
    by (auto simp: get_or_create_def Let_def split: option.splits if_splits)
  from new(1) have fresh: "sid \<notin> fst ` set (mg_sessions m)" by (simp add: map_of_eq_None_iff)
  have sess: "the_session m' b = (if b = ?a then new_session sid now else the_session m b)"
    if "b \<le> ?a" for b using that by (auto simp: m' the_session_def nth_append)
  have "sessions_ok m'"
    using ok(1) new(2) fresh sess
    by (fastforce simp: sessions_ok_def m' update_new nth_append the_session_def new_session_def)
  moreover have "tokens_ok m'"
  proof -
    have "listed m' b \<and> ss_token (the_session m' b) = ss_token (the_session m b)"
      if "listed m b" "b < ?a" for b
      using that sess [of b] by (simp add: listed_def m' update_new fresh)
    moreover have "mg_resumable m' = mg_resumable m" "?a \<le> length (mg_store m')"
      by (simp_all add: m')
    ultimately show ?thesis using ok(2) by (fastforce simp: tokens_ok_def)
  qed
  moreover have "peers_ok m' b \<and> idle_ok m' b" if "b < length (mg_store m')" for b
    using ok(3,4) [of b] sess [of b] that
    by (cases "b = ?a") (auto simp: peers_ok_def idle_ok_def m' new_session_def)
  moreover have "mg_peers m' = mg_peers m" "length (mg_store m') = Suc (length (mg_store m))"
    by (simp_all add: m')
  ultimately show ?thesis using ok(5) by (auto simp: manager_ok_def less_Suc_eq)
qed (use assms in simp)

definition retire :: "str \<Rightarrow> addr \<Rightarrow> manager \<Rightarrow> manager" where
  "retire sid a m = drop_resume_token a (unlist sid m)"

lemma retire_tables:
  "mg_sessions (retire sid a m) = AList.delete sid (mg_sessions m)"
  "mg_store (retire sid a m) = mg_store m" "mg_peers (retire sid a m) = mg_peers m"
  "mg_max (retire sid a m) = mg_max m" "the_session (retire sid a m) b = the_session m b"
  "mg_grace_ms (retire sid a m) = mg_grace_ms m"
  by (simp_all add: retire_def drop_resume_token_def unlist_def Let_def the_session_def)

lemma retire_resumable:
  assumes "manager_ok m"
  shows "mg_resumable (retire sid a m) t = (if mg_resumable m t = Some a then None
    else if t = ss_token (the_session m a) \<and> t \<noteq> [] then None else mg_resumable m t)"
  using manager_okD(2) [OF assms]
  by (auto simp: retire_def drop_resume_token_def unlist_def Let_def the_session_def tokens_ok_def)

lemma retire_ok:
  assumes "manager_ok m" and "(sid, a) \<in> set (mg_sessions m)"
  shows "manager_ok (retire sid a m)"
proof -
  note ok = manager_okD [OF assms(1)]
  have "sessions_ok (retire sid a m)"
    using ok(1) length_delete_le [of sid "mg_sessions m"]
    by (fastforce simp: sessions_ok_def retire_tables distinct_delete delete_set)
  moreover have "tokens_ok (retire sid a m)"
    unfolding tokens_ok_def
  proof (intro allI impI)
    fix t b assume "mg_resumable (retire sid a m) t = Some b"
    then have t: "mg_resumable m t = Some b" "b \<noteq> a"
      by (auto simp: retire_resumable [OF assms(1)] split: if_splits)
    with ok(2) have b: "t \<noteq> []" "b < length (mg_store m)" "listed m b"
        "ss_token (the_session m b) = t" by (auto simp: tokens_ok_def)
    from b(3) sessions_okD(2) [OF ok(1) assms(2)] t(2) have "ss_id (the_session m b) \<noteq> sid"
      using assms(2) ok(1) by (metis (no_types) eq_key_imp_eq_value listed_def sessions_okD(1))
    with b show "t \<noteq> [] \<and> b < length (mg_store (retire sid a m)) \<and> listed (retire sid a m) b \<and>
        ss_token (the_session (retire sid a m) b) = t"
      by (simp add: retire_tables listed_def delete_set)
  qed
  ultimately show ?thesis
    using ok(3-5) by (auto simp: manager_ok_def peers_ok_def idle_ok_def retire_tables)
qed

lemma remove_session_retire:
  "remove_session sid now m =
     (case map_of (mg_sessions m) sid of
        None \<Rightarrow> m | Some a \<Rightarrow> retire sid a (close_session now a m))"
  by (simp add: remove_session_def retire_def split: option.split)

lemma remove_session_ok: "manager_ok m \<Longrightarrow> manager_ok (remove_session sid now m)"
  using sessions_okD(2) [OF manager_okD(1), of m sid]
  by (auto simp: remove_session_retire intro!: retire_ok close_session_ok
      dest: map_of_SomeD split: option.split)

subsection \<open>The sweep\<close>

lemma fold_retire:
  assumes "manager_ok m" and "set es \<subseteq> set (mg_sessions m)" and "distinct (map fst es)"
  shows "manager_ok (fold (\<lambda>(sid, a). retire sid a) es m)"
    and "set (mg_sessions (fold (\<lambda>(sid, a). retire sid a) es m)) = set (mg_sessions m) - set es"
    and "mg_store (fold (\<lambda>(sid, a). retire sid a) es m) = mg_store m"
    and "mg_peers (fold (\<lambda>(sid, a). retire sid a) es m) = mg_peers m"
  using assms
proof (induction es arbitrary: m)
  case (Cons e es)
  obtain sid a where e: "e = (sid, a)" by fastforce
  let ?m = "retire sid a m"
  {
    fix m assume prems: "manager_ok m" "set (e # es) \<subseteq> set (mg_sessions m)" "distinct (map fst (e # es))"
    let ?m = "retire sid a m"
    from prems e have mem: "(sid, a) \<in> set (mg_sessions m)" by simp
    have "set (mg_sessions ?m) = set (mg_sessions m) - {(sid, a)}"
      using mem eq_key_imp_eq_value [OF sessions_okD(1) [OF manager_okD(1) [OF prems(1)]]]
      by (fastforce simp: retire_tables delete_set)
    moreover from this prems e have "set es \<subseteq> set (mg_sessions ?m)" by force
    ultimately have "manager_ok ?m" "set es \<subseteq> set (mg_sessions ?m)" "distinct (map fst es)"
        "set (mg_sessions ?m) = set (mg_sessions m) - {(sid, a)}"
      using retire_ok [OF prems(1) mem] prems(3) by auto
  } note step = this
  {
    case 1 then show ?case using Cons.IH(1) [OF step(1-3) [OF 1]] by (simp add: e)
  next
    case 2 then show ?case
      using Cons.IH(2) [OF step(1-3) [OF 2]] step(4) [OF 2] by (auto simp: e)
  next
    case 3 then show ?case using Cons.IH(3) [OF step(1-3) [OF 3]] by (simp add: e retire_tables)
  next
    case 4 then show ?case using Cons.IH(4) [OF step(1-3) [OF 4]] by (simp add: e retire_tables)
  }
qed simp_all

lemma fold_close_sessions:
  assumes "manager_ok m" and "\<forall>(sid, a) \<in> set es. a < length (mg_store m)"
  shows "manager_ok (fold (\<lambda>(sid, a). close_session now a) es m)"
    and "mg_sessions (fold (\<lambda>(sid, a). close_session now a) es m) = mg_sessions m"
    and "mg_resumable (fold (\<lambda>(sid, a). close_session now a) es m) = mg_resumable m"
    and "b \<notin> snd ` set es \<Longrightarrow>
      the_session (fold (\<lambda>(sid, a). close_session now a) es m) b = the_session m b"
    and "b \<in> snd ` set es \<or> ss_cancelled (the_session m b) \<Longrightarrow>
      ss_cancelled (the_session (fold (\<lambda>(sid, a). close_session now a) es m) b)"
    and "b \<in> snd ` set es \<or> ss_peers (the_session m b) = [] \<Longrightarrow>
      ss_peers (the_session (fold (\<lambda>(sid, a). close_session now a) es m) b) = []"
  using assms
proof (induction es arbitrary: m)
  case (Cons e es)
  obtain sid a where e: "e = (sid, a)" by fastforce
  let ?m = "close_session now a m"
  {
    fix m assume prems: "manager_ok m" "\<forall>(sid, a) \<in> set (e # es). a < length (mg_store m)"
    let ?m = "close_session now a m"
    from prems e have a: "a < length (mg_store m)" by simp
    have "manager_ok ?m" "\<forall>(sid, a) \<in> set es. a < length (mg_store ?m)"
        "the_session ?m b = (if b = a then detach now ((the_session m a)\<lparr>ss_cancelled := True\<rparr>)
          else the_session m b)"
      using close_session_ok [OF prems(1) a] close_session_session [OF manager_okD(3) [OF prems(1) a] a]
        prems(2) by simp_all
  } note step = this
  {
    case 1 then show ?case using Cons.IH(1) [OF step(1,2) [OF 1]] by (simp add: e)
  next
    case 2 then show ?case using Cons.IH(2) [OF step(1,2) [OF 2]] by (simp add: e)
  next
    case 3 then show ?case using Cons.IH(3) [OF step(1,2) [OF 3]] by (simp add: e)
  next
    case 4 then show ?case
      using Cons.IH(4) [OF _ step(1,2) [OF 4(2,3)]] step(3) [OF 4(2,3)] by (simp add: e)
  next
    case 5 then show ?case
      using Cons.IH(5) [OF _ step(1,2) [OF 5(2,3)]] step(3) [OF 5(2,3)] by (auto simp: e)
  next
    case 6 then show ?case
      using Cons.IH(6) [OF _ step(1,2) [OF 6(2,3)]] step(3) [OF 6(2,3)] by (auto simp: e)
  }
qed simp_all

lemma unlist_expired_retire:
  "unlist_expired now m = fold (\<lambda>(sid, a). retire sid a) (expired_entries now m) m"
  by (simp add: unlist_expired_def retire_def [abs_def])

lemma reap_effect:
  assumes "manager_ok m"
  shows "manager_ok (reap now m)"
    and "(sid, a) \<in> set (mg_sessions (reap now m)) \<longleftrightarrow>
      (sid, a) \<in> set (mg_sessions m) \<and> \<not> expired now m a"
    and "(sid, a) \<in> set (mg_sessions m) \<Longrightarrow> \<not> expired now m a \<Longrightarrow>
      the_session (reap now m) a = the_session m a"
    and "(sid, a) \<in> set (mg_sessions m) \<Longrightarrow> expired now m a \<Longrightarrow>
      ss_cancelled (the_session (reap now m) a) \<and> ss_peers (the_session (reap now m) a) = []"
proof -
  let ?es = "expired_entries now m"
  have es: "set ?es \<subseteq> set (mg_sessions m)" "distinct (map fst ?es)"
    using sessions_okD(1) [OF manager_okD(1) [OF assms]]
    by (auto simp: expired_entries_def distinct_map_filter)
  note un = fold_retire [OF assms es, folded unlist_expired_retire]
  have "\<forall>(sid, a) \<in> set ?es. a < length (mg_store (unlist_expired now m))"
    using es(1) sessions_okD(2) [OF manager_okD(1) [OF assms]] un(3) by auto
  note cl = fold_close_sessions [OF un(1) this, where now = now, folded reap_def]
  have same: "the_session (unlist_expired now m) = the_session m"
    using un(3) by (simp add: the_session_def fun_eq_iff)
  have mem: "a \<in> snd ` set ?es \<longleftrightarrow> (\<exists>sid. (sid, a) \<in> set (mg_sessions m)) \<and> expired now m a" for a
    by (force simp: expired_entries_def)
  show "manager_ok (reap now m)" by (rule cl(1))
  show "(sid, a) \<in> set (mg_sessions (reap now m)) \<longleftrightarrow>
      (sid, a) \<in> set (mg_sessions m) \<and> \<not> expired now m a"
    using cl(2) un(2) by (auto simp: expired_entries_def)
  show "(sid, a) \<in> set (mg_sessions m) \<Longrightarrow> \<not> expired now m a \<Longrightarrow>
      the_session (reap now m) a = the_session m a"
    using cl(4) [of a] mem [of a] same by simp
  show "(sid, a) \<in> set (mg_sessions m) \<Longrightarrow> expired now m a \<Longrightarrow>
      ss_cancelled (the_session (reap now m) a) \<and> ss_peers (the_session (reap now m) a) = []"
    using cl(5,6) [of a] mem [of a] by blast
qed

subsection \<open>Closing everything\<close>

lemma begin_close_forget [simp]:
  "begin_close p (mg_resumable_update f m) =
     (mg_resumable_update f (fst (begin_close p m)), snd (begin_close p m))"
  by (simp add: begin_close_def)

lemma close_peer_forget [simp]:
  "close_peer now p (mg_resumable_update f m) = mg_resumable_update f (close_peer now p m)"
  by (auto simp: close_peer_def finish_close_def upd_session_def split: prod.splits)

lemma fold_close_forget [simp]:
  "fold (close_peer now) ps (mg_resumable_update f m) =
     mg_resumable_update f (fold (close_peer now) ps m)"
  by (induction ps arbitrary: m) simp_all

lemma upd_forget [simp]:
  "upd_session a g (mg_resumable_update f m) = mg_resumable_update f (upd_session a g m)"
  by (simp add: upd_session_def)

lemma close_session_forget [simp]:
  "close_session now a (mg_resumable_update f m) = mg_resumable_update f (close_session now a m)"
  by (simp add: close_session_def Let_def peer_addrs_def)

lemma unlist_forget [simp]:
  "unlist sid (mg_resumable_update f m) = mg_resumable_update f (unlist sid m)"
  by (simp add: unlist_def)

lemma unlist_ok:
  assumes "manager_ok m" and "mg_resumable m = Map.empty"
  shows "manager_ok (unlist sid m)"
  using assms length_delete_le [of sid "mg_sessions m"]
  by (fastforce simp: manager_ok_def sessions_ok_def tokens_ok_def peers_ok_def idle_ok_def
      unlist_def distinct_delete delete_set)

lemma fold_close_all:
  assumes "manager_ok m" and "mg_resumable m = Map.empty" and "\<forall>(sid, a) \<in> set es. a < length (mg_store m)"
  shows "manager_ok (fold (\<lambda>(sid, a) h. unlist sid (close_session now a h)) es m) \<and>
    mg_resumable (fold (\<lambda>(sid, a) h. unlist sid (close_session now a h)) es m) = Map.empty \<and>
    set (mg_sessions (fold (\<lambda>(sid, a) h. unlist sid (close_session now a h)) es m)) =
      {x \<in> set (mg_sessions m). fst x \<notin> fst ` set es}"
  using assms
proof (induction es arbitrary: m)
  case (Cons e es)
  obtain sid a where e: "e = (sid, a)" by fastforce
  let ?m = "unlist sid (close_session now a m)"
  from Cons.prems e have "manager_ok ?m" by (intro unlist_ok close_session_ok) auto
  moreover from Cons.prems e have "mg_resumable ?m = Map.empty"
      "\<forall>(sid, a) \<in> set es. a < length (mg_store ?m)"
    by (auto simp: unlist_def)
  ultimately show ?case using Cons.IH [of ?m] by (auto simp: e unlist_def delete_set)
qed simp

lemma close_all_ok:
  assumes "manager_ok m"
  shows "manager_ok (close_all now m)" and "mg_sessions (close_all now m) = []"
    and "mg_resumable (close_all now m) = Map.empty"
proof -
  let ?f = "\<lambda>(sid, a) h. unlist sid (close_session now a h)"
  let ?m = "m\<lparr>mg_resumable := Map.empty\<rparr>"
  have comm: "fold ?f es (mg_resumable_update g m) = mg_resumable_update g (fold ?f es m)" for es g m
    by (induction es arbitrary: m) auto
  have eq: "close_all now m = fold ?f (mg_sessions m) ?m"
    by (simp add: close_all_def comm)
  have "manager_ok ?m" using assms
    by (auto simp: manager_ok_def sessions_ok_def tokens_ok_def peers_ok_def idle_ok_def)
  moreover have "\<forall>(sid, a) \<in> set (mg_sessions m). a < length (mg_store ?m)"
    using sessions_okD(2) [OF manager_okD(1) [OF assms]] by auto
  ultimately have "manager_ok (close_all now m)" "mg_resumable (close_all now m) = Map.empty"
      "set (mg_sessions (close_all now m)) = {}"
    using fold_close_all [of ?m "mg_sessions m" now] unfolding eq by auto
  then show "manager_ok (close_all now m)" and "mg_sessions (close_all now m) = []"
    and "mg_resumable (close_all now m) = Map.empty" by simp_all
qed

lemma listed_mem:
  assumes "manager_ok m" and "get_session m sid = Some a"
  shows "(sid, a) \<in> set (mg_sessions m)" and "a < length (mg_store m)"
proof -
  show mem: "(sid, a) \<in> set (mg_sessions m)"
    using assms(2) by (auto simp: get_session_def dest: map_of_SomeD)
  then show "a < length (mg_store m)" using sessions_okD(2) [OF manager_okD(1) [OF assms(1)]] by blast
qed

lemma reap_keeps:
  assumes "manager_ok m" and "get_session m sid = Some a" and "\<not> expired now m a"
  shows "get_session (reap now m) sid = Some a" and "the_session (reap now m) a = the_session m a"
  using reap_effect(2,3) [OF assms(1), where now = now] listed_mem(1) [OF assms(1,2)] assms(3)
    session_lookup [OF manager_okD(1) [OF reap_effect(1) [OF assms(1)]]]
  by (simp_all add: get_session_def)

lemma reap_takes:
  assumes "manager_ok m" and "get_session m sid = Some a" and "expired now m a"
  shows "get_session (reap now m) sid = None" and "ss_cancelled (the_session (reap now m) a)"
proof -
  have "(sid, b) \<notin> set (mg_sessions (reap now m))" for b
    using reap_effect(2) [OF assms(1), of sid b now] assms(3) listed_mem(1) [OF assms(1,2)]
      eq_key_imp_eq_value [OF sessions_okD(1) [OF manager_okD(1) [OF assms(1)]]] by blast
  then show "get_session (reap now m) sid = None"
    by (metis get_session_def map_of_SomeD not_None_eq)
  show "ss_cancelled (the_session (reap now m) a)"
    using reap_effect(4) [OF assms(1) listed_mem(1) [OF assms(1,2)] assms(3)] by blast
qed

section \<open>Calls run to their end\<close>

text \<open>
  One operation of the package at a time. A pointer is only ever obtained from the manager,
  so an operation on an address outside the store does not occur; the handler issues a token
  only for a session it has just created or resumed.
\<close>

datatype op =
    Op_create str instant
  | Op_resume str instant
  | Op_add_peer addr str bool
  | Op_issue addr str
  | Op_close_peer addr instant
  | Op_set_resource addr str
  | Op_rotate_etag addr str
  | Op_remove str instant
  | Op_reap instant
  | Op_close_all instant

fun op_step :: "manager \<Rightarrow> op \<Rightarrow> manager" where
  "op_step m (Op_create sid now) = fst (get_or_create sid now m)"
| "op_step m (Op_resume t now) = fst (resume now m t)"
| "op_step m (Op_add_peer a pid built) =
     (if a < length (mg_store m) then fst (add_peer a pid built m) else m)"
| "op_step m (Op_issue a t) =
     (if a < length (mg_store m) \<and> listed m a \<and> t \<noteq> []
      then fst (issue_resume_token a (Some t) m) else m)"
| "op_step m (Op_close_peer p now) = (if p < length (mg_peers m) then close_peer now p m else m)"
| "op_step m (Op_set_resource a r) = upd_session a (set_resource_id r) m"
| "op_step m (Op_rotate_etag a u) = upd_session a (rotate_etag u) m"
| "op_step m (Op_remove sid now) = remove_session sid now m"
| "op_step m (Op_reap now) = reap now m"
| "op_step m (Op_close_all now) = close_all now m"

lemma op_step_ok: "manager_ok m \<Longrightarrow> manager_ok (op_step m e)"
  by (cases e)
    (auto intro: get_or_create_ok resume_ok add_peer_ok issue_ok close_peer_ok set_resource_ok
      rotate_etag_ok remove_session_ok reap_effect(1) close_all_ok(1) prod.collapse [symmetric])

text \<open>The invariant of the calls adds that no listed session has been cancelled.\<close>

definition call_ok :: "manager \<Rightarrow> bool" where
  "call_ok m \<longleftrightarrow> manager_ok m \<and>
     (\<forall>(sid, a) \<in> set (mg_sessions m). \<not> ss_cancelled (the_session m a))"

lemma new_call_ok: "call_ok (new_manager max_sessions grace_ms realtime)"
  by (simp add: call_ok_def new_manager_ok) (simp add: new_manager_def)

lemma remove_peer_cancelled [simp]: "ss_cancelled (remove_peer pid now s) = ss_cancelled s"
  by (simp add: remove_peer_def Let_def)

lemma close_peer_cancelled:
  "manager_ok m \<Longrightarrow> p < length (mg_peers m) \<Longrightarrow>
   ss_cancelled (the_session (close_peer now p m) b) = ss_cancelled (the_session m b)"
  by (simp add: close_peer_session manager_okD(5))

lemma resume_effect:
  assumes "manager_ok m" and "resume now m t = (m', Some a)"
  shows "mg_resumable m t = Some a" and "t \<noteq> []" and "mg_sessions m' = mg_sessions m"
    and "the_session m' b = (if b = a then detach now (the_session m a) else the_session m b)"
    and "mg_resumable m' = (mg_resumable m)(t := None)" and "a < length (mg_store m)"
    and "listed m a" and "ss_token (the_session m a) = t"
proof -
  from assms(2) show t: "mg_resumable m t = Some a" "t \<noteq> []"
    by (auto simp: resume_def split: if_splits option.splits)
  from assms(2) t have m': "m' = evict_peers now a (m\<lparr>mg_resumable := (mg_resumable m)(t := None)\<rparr>)"
    by (simp add: resume_def)
  from token_addr [OF assms(1) t(1)] show a: "a < length (mg_store m)" and "listed m a" by auto
  from manager_okD(2) [OF assms(1)] t show "ss_token (the_session m a) = t"
    by (simp add: tokens_ok_def)
  show "mg_sessions m' = mg_sessions m" and "mg_resumable m' = (mg_resumable m)(t := None)"
    by (simp_all add: m')
  have "peers_ok (m\<lparr>mg_resumable := (mg_resumable m)(t := None)\<rparr>) a"
    using manager_okD(3) [OF forget_token_ok [OF assms(1)]] a by simp
  then show "the_session m' b = (if b = a then detach now (the_session m a) else the_session m b)"
    using a by (simp add: m' evict_session)
qed

lemma alive_step:
  assumes "manager_ok m" and "mg_sessions m' = mg_sessions m"
    and "\<And>sid a. (sid, a) \<in> set (mg_sessions m) \<Longrightarrow> a < length (mg_store m) \<Longrightarrow>
      ss_cancelled (the_session m' a) = ss_cancelled (the_session m a)"
  shows "(\<forall>(sid, a) \<in> set (mg_sessions m'). \<not> ss_cancelled (the_session m' a)) \<longleftrightarrow>
    (\<forall>(sid, a) \<in> set (mg_sessions m). \<not> ss_cancelled (the_session m a))"
  using assms sessions_okD(2) [OF manager_okD(1) [OF assms(1)]] by fastforce

lemma upd_alive:
  assumes "call_ok m" and "manager_ok (upd_session a f m)"
    and "ss_cancelled (f (the_session m a)) = ss_cancelled (the_session m a)"
  shows "call_ok (upd_session a f m)"
  using assms alive_step [of m "upd_session a f m"] by (simp add: call_ok_def)

lemma create_effect:
  assumes "get_or_create sid now m = (m', r)" and "m' \<noteq> m"
  shows "map_of (mg_sessions m) sid = None" and "r = Some (length (mg_store m))"
    and "mg_sessions m' = mg_sessions m @ [(sid, length (mg_store m))]"
    and "b \<le> length (mg_store m) \<Longrightarrow> the_session m' b =
      (if b = length (mg_store m) then new_session sid now else the_session m b)"
  using assms
  by (auto simp: get_or_create_def Let_def the_session_def nth_append map_of_eq_None_iff update_new
      split: option.splits if_splits)

lemma create_alive:
  assumes "call_ok m" and "get_or_create sid now m = (m', r)"
  shows "call_ok m'"
proof (cases "m' = m")
  case False
  note eff = create_effect [OF assms(2) False]
  from assms(1) have ok: "manager_ok m" by (simp add: call_ok_def)
  have "\<not> ss_cancelled (the_session m' b)" if "(tid, b) \<in> set (mg_sessions m')" for tid b
  proof (cases "b = length (mg_store m)")
    case True
    then show ?thesis using eff(4) [of b] by (simp add: new_session_def)
  next
    case False
    with that eff(3) have b: "(tid, b) \<in> set (mg_sessions m)" by auto
    from sessions_okD(2) [OF manager_okD(1) [OF ok] b] have "b < length (mg_store m)" by blast
    with eff(4) [of b] b assms(1) show ?thesis by (auto simp: call_ok_def)
  qed
  then show ?thesis using get_or_create_ok [OF ok assms(2)] by (auto simp: call_ok_def)
qed (use assms in simp)

lemma resume_None: "resume now m t = (m', None) \<Longrightarrow> m' = m"
  by (auto simp: resume_def split: if_splits option.splits)

lemma resume_alive:
  assumes "call_ok m" and "resume now m t = (m', r)"
  shows "call_ok m'"
proof (cases r)
  case None
  with assms resume_None show ?thesis by blast
next
  case (Some a)
  from assms(1) have ok: "manager_ok m" by (simp add: call_ok_def)
  note eff = resume_effect [OF ok assms(2) [unfolded Some]]
  have "ss_cancelled (the_session m' b) = ss_cancelled (the_session m b)" for b
    by (simp add: eff(4))
  with assms(1) resume_ok [OF ok assms(2)] eff(3) show ?thesis by (simp add: call_ok_def)
qed

lemma add_peer_alive:
  "call_ok m \<Longrightarrow> a < length (mg_store m) \<Longrightarrow> add_peer a pid built m = (m', r) \<Longrightarrow> call_ok m'"
  using add_peer_ok [of m a pid built m' r] alive_step [of m m']
  by (auto simp: call_ok_def add_peer_def add_to_peers_def Let_def split: if_splits)

lemma issue_alive:
  "call_ok m \<Longrightarrow> a < length (mg_store m) \<Longrightarrow> listed m a \<Longrightarrow> t \<noteq> [] \<Longrightarrow>
   issue_resume_token a (Some t) m = (m', u) \<Longrightarrow> call_ok m'"
  using issue_ok [of m a "Some t" m' u] alive_step [of m m']
  by (auto simp: call_ok_def issue_resume_token_def rotate_resume_token_def Let_def
      split: if_splits)

lemma close_peer_alive: "call_ok m \<Longrightarrow> p < length (mg_peers m) \<Longrightarrow> call_ok (close_peer now p m)"
  using close_peer_ok [of m p now] alive_step [of m "close_peer now p m"] close_peer_tables [of m now p]
  by (auto simp: call_ok_def close_peer_cancelled same_tables_def)

lemma remove_alive:
  assumes "call_ok m"
  shows "call_ok (remove_session sid now m)"
proof (cases "map_of (mg_sessions m) sid")
  case None
  with assms show ?thesis by (simp add: remove_session_def)
next
  case (Some a)
  from assms have ok: "manager_ok m" by (simp add: call_ok_def)
  have mem: "(sid, a) \<in> set (mg_sessions m)" using Some by (rule map_of_SomeD)
  then have a: "a < length (mg_store m)" using sessions_okD(2) [OF manager_okD(1) [OF ok]] by blast
  have "\<not> ss_cancelled (the_session (remove_session sid now m) b)"
    if "(tid, b) \<in> set (mg_sessions (remove_session sid now m))" for tid b
  proof -
    from that Some have b: "(tid, b) \<in> set (mg_sessions m)" "tid \<noteq> sid"
      by (auto simp: remove_session_retire retire_tables delete_set)
    with sessions_ok_inj [OF manager_okD(1) [OF ok] mem] have "b \<noteq> a" by blast
    with b(1) assms Some close_session_session [OF manager_okD(3) [OF ok a] a, of now]
    show ?thesis by (auto simp: remove_session_retire retire_tables call_ok_def)
  qed
  then show ?thesis using remove_session_ok [OF ok] by (auto simp: call_ok_def)
qed

lemma reap_alive: "call_ok m \<Longrightarrow> call_ok (reap now m)"
  using reap_effect(1-3) [where m = m and now = now] by (fastforce simp: call_ok_def)

lemma call_okD: "call_ok m \<Longrightarrow> manager_ok m"
  by (simp add: call_ok_def)

lemma op_step_call_ok: "call_ok m \<Longrightarrow> call_ok (op_step m e)"
proof (cases e)
  case (Op_create sid now)
  assume "call_ok m"
  then show ?thesis using create_alive [of m sid now] Op_create by (simp add: prod_eq_iff)
next
  case (Op_resume t now)
  assume "call_ok m"
  then show ?thesis using resume_alive [of m now t] Op_resume by (simp add: prod_eq_iff)
next
  case (Op_add_peer a pid built)
  assume "call_ok m"
  then show ?thesis using add_peer_alive [of m a pid built] Op_add_peer by (simp add: prod_eq_iff)
next
  case (Op_issue a t)
  assume "call_ok m"
  then show ?thesis using issue_alive [of m a t] Op_issue by (simp add: prod_eq_iff)
next
  case (Op_set_resource a r)
  assume "call_ok m"
  then show ?thesis using set_resource_ok [OF call_okD] Op_set_resource
    by (auto intro!: upd_alive simp: set_resource_id_def split: if_splits)
next
  case (Op_rotate_etag a u)
  assume "call_ok m"
  then show ?thesis using rotate_etag_ok [OF call_okD] Op_rotate_etag
    by (auto intro!: upd_alive simp: rotate_etag_def)
next
  case (Op_close_all now)
  assume "call_ok m"
  then show ?thesis using close_all_ok [OF call_okD, of m now] Op_close_all by (simp add: call_ok_def)
qed (auto intro: close_peer_alive remove_alive reap_alive)

interpretation calls: guarded_machine op_step call_ok
  by unfold_locales (rule op_step_call_ok)

interpretation tokens: single_use "\<lambda>m t. if t = [] then None else mg_resumable m t" "resume now" for now
proof unfold_locales
  fix m t m' a assume "resume now m t = (m', Some a)"
  then show "(if t = [] then None else mg_resumable m t) = Some a"
    by (auto simp: resume_def split: if_splits option.splits)
next
  fix m t m' r assume "resume now m t = (m', r)"
  then show "(if t = [] then None else mg_resumable m' t) = None"
    by (auto simp: resume_def split: if_splits option.splits)
next
  fix m t m' r u a
  assume "resume now m t = (m', r)" and "(if u = [] then None else mg_resumable m' u) = Some a"
  then show "(if u = [] then None else mg_resumable m u) = Some a"
    by (auto simp: resume_def split: if_splits option.splits)
qed

section \<open>Interleaving\<close>

text \<open>
  The same operations, one critical section at a time. A call that holds no lock between two
  of its sections contributes two events, and any other goroutine's events may come between
  them; the addresses a call carries over that gap are the event's arguments.
\<close>

datatype event =
    Ev_create str instant
  | Ev_take_token str
  | Ev_clear_peers addr
  | Ev_begin_close addr
  | Ev_finish_close addr instant
  | Ev_add_peer addr str bool
  | Ev_rotate_token addr str
  | Ev_index_token addr str str
  | Ev_set_resource addr str
  | Ev_rotate_etag addr str
  | Ev_remove str instant
  | Ev_unlist_expired instant
  | Ev_cancel addr
  | Ev_close_all instant

definition take_token :: "str \<Rightarrow> manager \<Rightarrow> manager" where
  "take_token t m = m\<lparr>mg_resumable := (mg_resumable m)(t := None)\<rparr>"

definition index_token :: "addr \<Rightarrow> str \<Rightarrow> str \<Rightarrow> manager \<Rightarrow> manager" where
  "index_token a old current m =
     m\<lparr>mg_resumable :=
        (if old \<noteq> [] then (mg_resumable m)(old := None) else mg_resumable m)(current := Some a)\<rparr>"

fun ev_step :: "manager \<Rightarrow> event \<Rightarrow> manager" where
  "ev_step m (Ev_create sid now) = fst (get_or_create sid now m)"
| "ev_step m (Ev_take_token t) = take_token t m"
| "ev_step m (Ev_clear_peers a) = upd_session a clear_peers m"
| "ev_step m (Ev_begin_close p) = (if p < length (mg_peers m) then fst (begin_close p m) else m)"
| "ev_step m (Ev_finish_close p now) = (if p < length (mg_peers m) then finish_close p now m else m)"
| "ev_step m (Ev_add_peer a pid built) =
     (if a < length (mg_store m) then fst (add_peer a pid built m) else m)"
| "ev_step m (Ev_rotate_token a t) =
     upd_session a (\<lambda>s. fst (rotate_resume_token (Some t) s)) m"
| "ev_step m (Ev_index_token a old current) = index_token a old current m"
| "ev_step m (Ev_set_resource a r) = upd_session a (set_resource_id r) m"
| "ev_step m (Ev_rotate_etag a u) = upd_session a (rotate_etag u) m"
| "ev_step m (Ev_remove sid now) = remove_session sid now m"
| "ev_step m (Ev_unlist_expired now) = unlist_expired now m"
| "ev_step m (Ev_cancel a) = upd_session a (\<lambda>s. s\<lparr>ss_cancelled := True\<rparr>) m"
| "ev_step m (Ev_close_all now) = close_all now m"

text \<open>What no interleaving can break: valid peers, the cap, and who is on the call.\<close>

definition table_ok :: "manager \<Rightarrow> bool" where
  "table_ok m \<longleftrightarrow> distinct (map fst (mg_sessions m)) \<and>
     (0 < mg_max m \<longrightarrow> int (length (mg_sessions m)) \<le> mg_max m)"

text \<open>A change that adds no session and, for every session that had one, keeps its caller.\<close>

definition settles :: "manager \<Rightarrow> manager \<Rightarrow> bool" where
  "settles m m' \<longleftrightarrow> mg_max m' = mg_max m \<and> mg_realtime m' = mg_realtime m \<and> length (mg_store m) \<le> length (mg_store m') \<and>
     (\<forall>a < length (mg_store m). ss_resource (the_session m a) \<noteq> [] \<longrightarrow>
        ss_resource (the_session m' a) = ss_resource (the_session m a)) \<and>
     (\<exists>P. mg_sessions m' = filter P (mg_sessions m))"

lemma ex_filter [simp]: "\<exists>P. xs = filter P xs"
  by (rule exI [of _ "\<lambda>_. True"]) simp

lemma settles_refl [simp]: "settles m m"
  by (simp add: settles_def)

lemma settles_trans [trans]: "settles a b \<Longrightarrow> settles b c \<Longrightarrow> settles a c"
  unfolding settles_def by (elim conjE exE) (auto intro: exI [of _ "\<lambda>x. _ x \<and> _ x"])

lemma settles_table_ok:
  assumes "table_ok m" and "settles m m'"
  shows "table_ok m'"
proof -
  from assms(2) obtain P where "mg_sessions m' = filter P (mg_sessions m)" "mg_max m' = mg_max m"
    by (auto simp: settles_def)
  moreover have "int (length (filter P (mg_sessions m))) \<le> n"
    if "int (length (mg_sessions m)) \<le> n" for n
    using length_filter_le [of P "mg_sessions m"] that by linarith
  ultimately show ?thesis using assms(1) by (auto simp: table_ok_def distinct_map_filter)
qed

lemma settles_upd:
  "(\<And>s. ss_resource s \<noteq> [] \<Longrightarrow> ss_resource (f s) = ss_resource s) \<Longrightarrow> settles m (upd_session a f m)"
  by (simp add: settles_def)

lemma settles_peers [simp]: "settles m (mg_peers_update f m)"
  by (simp add: settles_def)

lemma settles_resumable [simp]: "settles m (mg_resumable_update f m)"
  by (simp add: settles_def)

lemma settles_unlist [simp]: "settles m (unlist sid m)"
  unfolding settles_def unlist_def by (auto simp: AList.delete_eq)

lemma settles_fold: "(\<And>x h. settles h (f x h)) \<Longrightarrow> settles m (fold f xs m)"
  by (induction xs arbitrary: m) (auto intro: settles_trans)

lemma settles_close_peer [simp]: "settles m (close_peer now p m)"
  by (auto simp: close_peer_def begin_close_def finish_close_def
      intro: settles_trans [OF settles_peers settles_upd])

lemma settles_close_session [simp]: "settles m (close_session now a m)"
  unfolding close_session_def Let_def
  by (rule settles_trans [OF settles_trans [OF settles_upd settles_upd] settles_fold])
    (simp_all add: clear_peers_def)

lemma settles_drop [simp]: "settles m (drop_resume_token a m)"
  by (simp add: drop_resume_token_def Let_def)

lemma settles_remove [simp]: "settles m (remove_session sid now m)"
  by (auto simp: remove_session_def split: option.split
      intro!: settles_trans [OF _ settles_drop] settles_trans [OF _ settles_unlist])

lemma settles_unlist_expired [simp]: "settles m (unlist_expired now m)"
  unfolding unlist_expired_def
  by (rule settles_fold) (auto intro!: settles_trans [OF _ settles_drop])

lemma settles_close_all [simp]: "settles m (close_all now m)"
  unfolding close_all_def Let_def
  by (rule settles_trans [OF settles_fold settles_resumable])
    (auto intro!: settles_trans [OF _ settles_unlist])

lemma settles_add_peer: "settles m (fst (add_peer a pid built m))"
  by (auto simp: add_peer_def Let_def add_to_peers_def
      intro: settles_trans [OF settles_peers settles_upd])

lemma settles_event:
  assumes "\<And>sid now. e \<noteq> Ev_create sid now"
  shows "settles m (ev_step m e)"
  using assms
  by (cases e)
    (auto simp: take_token_def index_token_def settles_add_peer begin_close_def finish_close_def
      clear_peers_def rotate_resume_token_def set_resource_id_def rotate_etag_def
      intro!: settles_upd)

lemma create_settles:
  assumes "table_ok m" and "get_or_create sid now m = (m', r)"
  shows "table_ok m'" and "length (mg_store m) \<le> length (mg_store m')"
    and "a < length (mg_store m) \<Longrightarrow> the_session m' a = the_session m a"
  using assms
  by (auto simp: get_or_create_def table_ok_def Let_def the_session_def nth_append distinct_update
      update_new map_of_eq_None_iff split: option.splits if_splits)

lemma ev_step_table_ok: "table_ok m \<Longrightarrow> table_ok (ev_step m e)"
proof (cases e)
  case (Ev_create sid now)
  assume "table_ok m"
  then show ?thesis using create_settles(1) [of m sid now] Ev_create by (simp add: prod_eq_iff)
qed (use settles_table_ok [OF _ settles_event] in blast)+

interpretation events: guarded_machine ev_step table_ok
  by unfold_locales (rule ev_step_table_ok)

lemma ev_step_resource:
  assumes "table_ok m" and "a < length (mg_store m)" and "ss_resource (the_session m a) = r" and "r \<noteq> []"
  shows "a < length (mg_store (ev_step m e)) \<and> ss_resource (the_session (ev_step m e) a) = r"
proof (cases "\<exists>sid now. e = Ev_create sid now")
  case True
  then obtain sid now where e: "e = Ev_create sid now" by blast
  show ?thesis
    using create_settles(2,3) [OF assms(1), of sid now] assms(2,3) e by (fastforce simp: prod_eq_iff)
next
  case False
  then have "settles m (ev_step m e)" by (intro settles_event) auto
  with assms show ?thesis by (auto simp: settles_def)
qed

section \<open>Properties\<close>

text \<open>C1: the number of sessions never exceeds \<open>server.max_sessions\<close>, however the critical
  sections of concurrent requests, closing transports and the reaper interleave.\<close>

theorem session_cap_holds:
  assumes "0 < cap"
  shows "int (length (mg_sessions (fold (\<lambda>e m. ev_step m e) es (new_manager cap grace_ms realtime)))) \<le> cap"
proof -
  let ?m = "new_manager cap grace_ms realtime"
  have "table_ok ?m" by (simp add: table_ok_def new_manager_def)
  moreover have "mg_max (ev_step m e) = mg_max m" for m e
  proof (cases "\<exists>sid now. e = Ev_create sid now")
    case True
    then show ?thesis by (auto simp: get_or_create_def Let_def split: option.split)
  next
    case False
    then show ?thesis using settles_event [of e m] by (auto simp: settles_def)
  qed
  ultimately have "table_ok (fold (\<lambda>e m. ev_step m e) es ?m)"
      "mg_max (fold (\<lambda>e m. ev_step m e) es ?m) = mg_max ?m"
    by (auto intro: events.run_invar events.run_frame)
  with assms show ?thesis by (simp add: table_ok_def new_manager_def)
qed

theorem session_cap_holds_witness:
  "int (length (mg_sessions (fold (\<lambda>e m. ev_step m e)
     [Ev_create ''a'' 0, Ev_create ''b'' 1, Ev_create ''a'' 2] (new_manager 1 0 False)))) \<le> 1"
  by (rule session_cap_holds) simp

text \<open>Who is on the call is decided once: under every interleaving a session that has an
  identity keeps it.\<close>

theorem caller_identity_is_write_once:
  assumes "table_ok m" and "a < length (mg_store m)" and "ss_resource (the_session m a) = r" and "r \<noteq> []"
  shows "ss_resource (the_session (fold (\<lambda>e m. ev_step m e) es m) a) = r"
  using assms
proof (induction es arbitrary: m)
  case (Cons e es)
  from ev_step_resource [OF Cons.prems, of e] Cons.IH [OF ev_step_table_ok [OF Cons.prems(1)]] Cons.prems(4)
  show ?case by simp
qed simp

theorem caller_identity_is_write_once_witness:
  "ss_resource (the_session (fold (\<lambda>e m. ev_step m e) [Ev_set_resource 0 ''bob'', Ev_add_peer 0 ''s'' True]
     (ev_step (ev_step (new_manager 0 0 False) (Ev_create ''s'' 0)) (Ev_set_resource 0 ''ann''))) 0) = ''ann''"
  by (rule caller_identity_is_write_once)
    (simp_all add: table_ok_def new_manager_def get_or_create_def upd_session_def set_resource_id_def
      new_session_def the_session_def)

text \<open>C5: whatever calls have been made, a resume token resolves only to a listed session that
  has not been closed and whose latest token it is, and redeeming it detaches the old
  transports and keeps the conversation and the caller.\<close>

theorem resume_reaches_live_session:
  assumes "m = fold (\<lambda>e m. op_step m e) es (new_manager cap grace_ms realtime)"
    and "resume now m t = (m', Some a)"
  shows "get_session m (ss_id (the_session m a)) = Some a \<and> ss_token (the_session m a) = t \<and>
    \<not> ss_cancelled (the_session m' a) \<and> ss_peers (the_session m' a) = [] \<and>
    ss_idle (the_session m' a) \<noteq> None \<and> ss_conv (the_session m' a) = ss_conv (the_session m a) \<and>
    ss_resource (the_session m' a) = ss_resource (the_session m a)"
proof -
  have ok: "call_ok m" unfolding assms(1) by (rule calls.run_invar) (rule new_call_ok)
  note eff = resume_effect [OF call_okD [OF ok] assms(2)]
  have "idle_ok m a" using manager_okD(4) [OF call_okD [OF ok] eff(6)] .
  then have "ss_idle (the_session m' a) \<noteq> None" by (auto simp: eff(4) idle_ok_def)
  moreover have "get_session m (ss_id (the_session m a)) = Some a"
    using eff(7) session_lookup [OF manager_okD(1) [OF call_okD [OF ok]]]
    by (simp add: get_session_def listed_def)
  moreover have "\<not> ss_cancelled (the_session m a)"
    using ok eff(7) by (auto simp: call_ok_def listed_def)
  ultimately show ?thesis by (simp add: eff(4,8))
qed

theorem resume_reaches_live_session_witness:
  "ss_token (the_session (fold (\<lambda>e m. op_step m e)
     [Op_create ''s'' 0, Op_add_peer 0 ''s'' True, Op_issue 0 ''tok''] (new_manager 0 0 False)) 0) = ''tok''"
proof -
  let ?m = "fold (\<lambda>e m. op_step m e)
    [Op_create ''s'' 0, Op_add_peer 0 ''s'' True, Op_issue 0 ''tok''] (new_manager 0 0 False)"
  have "snd (resume 5 ?m ''tok'') = Some 0" by code_simp
  then have "resume 5 ?m ''tok'' = (fst (resume 5 ?m ''tok''), Some 0)" by (metis prod.collapse)
  from resume_reaches_live_session [OF refl this] show ?thesis by simp
qed

lemma op_step_no_token:
  assumes "mg_resumable m t = None" and "\<forall>a. e \<noteq> Op_issue a t"
  shows "mg_resumable (op_step m e) t = None"
proof -
  have drop: "mg_resumable (drop_resume_token a (unlist sid h)) t = None"
    if "mg_resumable h t = None" for a sid h
    using that by (simp add: drop_resume_token_def unlist_def Let_def)
  have "mg_resumable (fold (\<lambda>(sid, a) h. drop_resume_token a (unlist sid h)) xs h) t = None"
    if "mg_resumable h t = None" for xs h
    using that by (induction xs arbitrary: h) (auto simp: drop)
  moreover have "mg_resumable (fold (\<lambda>(sid, a). close_session now a) xs h) = mg_resumable h"
    for xs :: "(str \<times> addr) list" and h now
    by (induction xs arbitrary: h) auto
  ultimately show ?thesis
    using assms close_peer_tables [of m]
    by (cases e)
      (auto simp: get_or_create_def Let_def resume_def add_peer_def issue_resume_token_def
        rotate_resume_token_def drop remove_session_def reap_def unlist_expired_def close_all_def
        same_tables_def split: option.split)
qed

text \<open>C7: a resume token works at most once: after it has been presented, no sequence of
  operations in which the random source does not repeat it makes it valid again.\<close>

theorem resume_token_works_once:
  assumes "\<forall>e \<in> set es. \<forall>a. e \<noteq> Op_issue a t"
  shows "snd (resume now' (fold (\<lambda>e m. op_step m e) es (fst (resume now m t))) t) = None"
proof -
  have "(if t = [] then None else mg_resumable (fst (resume now m t)) t) = None"
    by (rule tokens.redeem_spends [of now m t _ "snd (resume now m t)"]) simp
  moreover have "mg_resumable (fold (\<lambda>e m. op_step m e) es h) t = None"
    if "mg_resumable h t = None" for h
    using that assms by (induction es arbitrary: h) (auto simp: op_step_no_token)
  ultimately show ?thesis by (intro tokens.redeem_none) (auto split: if_splits)
qed

theorem resume_token_works_once_witness:
  "snd (resume 9 (fold (\<lambda>e m. op_step m e) [Op_add_peer 0 ''s'' True, Op_issue 0 ''t2'']
     (fst (resume 5 (fold (\<lambda>e m. op_step m e) [Op_create ''s'' 0, Op_issue 0 ''t1'']
       (new_manager 0 0 False)) ''t1''))) ''t1'') = None"
  by (rule resume_token_works_once) simp

text \<open>DELETE ends a conversation for good: the session is no longer listed, its context is
  cancelled, its transports are closed, and no resume token leads to it.\<close>

theorem removed_session_is_unreachable:
  assumes "call_ok m" and "get_session m sid = Some a"
  shows "get_session (remove_session sid now m) sid = None \<and>
    mg_resumable (remove_session sid now m) t \<noteq> Some a \<and>
    ss_cancelled (the_session (remove_session sid now m) a) \<and>
    (p \<in> set (peer_addrs m a) \<longrightarrow> po_closed (mg_peers (remove_session sid now m) ! p))"
proof -
  have ok: "manager_ok m" using assms(1) by (rule call_okD)
  have mem: "(sid, a) \<in> set (mg_sessions m)" using assms(2) by (auto simp: get_session_def dest: map_of_SomeD)
  then have a: "a < length (mg_store m)" using sessions_okD(2) [OF manager_okD(1) [OF ok]] by blast
  have eq: "remove_session sid now m = retire sid a (close_session now a m)"
    using assms(2) by (simp add: remove_session_retire get_session_def)
  have "map_of (AList.delete sid (mg_sessions m)) sid = None"
    by (simp add: delete_conv)
  moreover have "ss_cancelled (the_session (close_session now a m) a)"
    using close_session_session [OF manager_okD(3) [OF ok a] a] by simp
  moreover have "p \<in> set (peer_addrs m a) \<longrightarrow> po_closed (mg_peers (close_session now a m) ! p)"
    using close_session_peer [OF manager_okD(3) [OF ok a] a] peers_okD [OF manager_okD(3) [OF ok a]]
    by simp
  ultimately show ?thesis
    using retire_resumable [OF close_session_ok [OF ok a], of sid a now t]
    by (simp add: eq retire_tables get_session_def)
qed

theorem removed_session_is_unreachable_witness:
  "get_session (remove_session ''s'' 7 (fold (\<lambda>e m. op_step m e)
     [Op_create ''s'' 0, Op_add_peer 0 ''s'' True, Op_issue 0 ''t''] (new_manager 0 0 False))) ''s'' = None"
proof -
  let ?m = "fold (\<lambda>e m. op_step m e)
     [Op_create ''s'' 0, Op_add_peer 0 ''s'' True, Op_issue 0 ''t''] (new_manager 0 0 False)"
  have "call_ok ?m" by (rule calls.run_invar) (rule new_call_ok)
  moreover have "get_session ?m ''s'' = Some 0" by code_simp
  ultimately show ?thesis using removed_session_is_unreachable by blast
qed

text \<open>The reaper closes exactly the sessions that have had no peer for the grace period: a
  session that carries a peer is never touched, and no session without one outlives a sweep
  that comes after its grace.\<close>

theorem reap_is_exact:
  assumes "call_ok m" and "get_session m sid = Some a"
  shows "(ss_peers (the_session m a) \<noteq> [] \<longrightarrow>
      get_session (reap now m) sid = Some a \<and> the_session (reap now m) a = the_session m a) \<and>
    (ss_peers (the_session m a) = [] \<longrightarrow> (\<exists>i. ss_idle (the_session m a) = Some i \<and>
      (if now - i < grace m
       then get_session (reap now m) sid = Some a \<and> the_session (reap now m) a = the_session m a
       else get_session (reap now m) sid = None \<and> ss_cancelled (the_session (reap now m) a))))"
proof -
  have ok: "manager_ok m" using assms(1) by (rule call_okD)
  have a: "a < length (mg_store m)" using listed_mem(2) [OF ok assms(2)] .
  from manager_okD(4) [OF ok a] reap_keeps [OF ok assms(2), of now] reap_takes [OF ok assms(2), of now]
  show ?thesis
    by (cases "ss_idle (the_session m a)") (auto simp: idle_ok_def expired_def)
qed

theorem reap_is_exact_witness:
  "get_session (reap (30 * second) (fold (\<lambda>e m. op_step m e)
     [Op_create ''s'' 0] (new_manager 0 0 False))) ''s'' = None"
proof -
  let ?m = "fold (\<lambda>e m. op_step m e) [Op_create ''s'' 0] (new_manager 0 0 False)"
  have "call_ok ?m" by (rule calls.run_invar) (rule new_call_ok)
  moreover have "get_session ?m ''s'' = Some 0" by code_simp
  ultimately have "ss_peers (the_session ?m 0) = [] \<longrightarrow> (\<exists>i. ss_idle (the_session ?m 0) = Some i \<and>
      (if 30 * second - i < grace ?m
       then get_session (reap (30 * second) ?m) ''s'' = Some 0 \<and>
         the_session (reap (30 * second) ?m) 0 = the_session ?m 0
       else get_session (reap (30 * second) ?m) ''s'' = None \<and>
         ss_cancelled (the_session (reap (30 * second) ?m) 0)))"
    using reap_is_exact by blast
  moreover have "ss_peers (the_session ?m 0) = []" "ss_idle (the_session ?m 0) = Some 0"
      "grace ?m = 30 * second" by code_simp+
  ultimately show ?thesis by simp
qed

text \<open>A transport that finishes closing unregisters whatever peer is registered under its
  identifier. All peers of a session share one identifier, so when a caller resumes while the
  old transport is still tearing down (up to three seconds), the end of that teardown
  removes the new peer: the call goes on unregistered, and a sweep after the grace period
  cancels it although its transport is open.\<close>

theorem late_close_ends_resumed_call:
  assumes "call_ok m" and "get_session m sid = Some a"
    and "ss_peers (the_session m a) = [(pid, q)]"
    and "p < length (mg_peers m)" and "p \<noteq> q"
    and "po_session (mg_peers m ! p) = a" and "po_id (mg_peers m ! p) = pid"
    and "now + grace m \<le> later"
  shows "get_peer (finish_close p now m) a pid = None \<and>
    \<not> po_closed (mg_peers (finish_close p now m) ! q) \<and>
    get_session (reap later (finish_close p now m)) sid = None \<and>
    ss_cancelled (the_session (reap later (finish_close p now m)) a)"
proof -
  have ok: "manager_ok m" using assms(1) by (rule call_okD)
  have a: "a < length (mg_store m)" using listed_mem(2) [OF ok assms(2)] .
  let ?m = "finish_close p now m"
  have sess: "the_session ?m b =
      (if b = a then (the_session m a)\<lparr>ss_peers := [], ss_idle := Some now\<rparr> else the_session m b)" for b
    using assms(3,6,7) a by (simp add: finish_close_def remove_peer_def)
  have frame: "mg_peers ?m = mg_peers m" "mg_sessions ?m = mg_sessions m" "same_tables m ?m"
    by (simp_all add: finish_close_def)
  have "manager_ok ?m"
    by (rule manager_ok_step [OF ok frame(3)])
      (use manager_okD(3,4) [OF ok] in \<open>auto simp: sess frame peers_ok_def idle_ok_def\<close>)
  moreover have "get_session ?m sid = Some a" using assms(2) by (simp add: get_session_def frame)
  moreover have "grace ?m = grace m" by (simp add: finish_close_def grace_def)
  then have "expired later ?m a" using assms(8) by (simp add: expired_def sess)
  ultimately have "get_session (reap later ?m) sid = None \<and> ss_cancelled (the_session (reap later ?m) a)"
    using reap_takes by blast
  moreover have "\<not> po_closed (mg_peers m ! q)"
    using manager_okD(3) [OF ok a] assms(3) by (simp add: peers_ok_def)
  ultimately show ?thesis by (simp add: get_peer_def sess frame)
qed

text \<open>The state of a call resumed while its first transport was closing.\<close>

definition resumed_during_close :: manager where
  "resumed_during_close =
     (let m0 = fold (\<lambda>e m. op_step m e)
            [Op_create ''s'' 0, Op_add_peer 0 ''s'' True, Op_issue 0 ''t''] (new_manager 0 0 False);
          m1 = fst (begin_close 0 m0);
          m2 = fst (resume second m1 ''t'')
      in fst (add_peer 0 ''s'' True m2))"

lemma resumed_during_close_eq:
  "resumed_during_close =
     \<lparr> mg_max = 0, mg_grace_ms = 0, mg_realtime = False, mg_sessions = [(''s'', 0)],
       mg_resumable = Map.empty,
       mg_store = [\<lparr> ss_id = ''s'', ss_cancelled = False, ss_peers = [(''s'', 1)], ss_idle = None,
         ss_etag = quoted ''s'', ss_conv = None, ss_token = ''t'', ss_resource = [] \<rparr>],
       mg_peers = [\<lparr>po_id = ''s'', po_session = 0, po_closed = True\<rparr>,
         \<lparr>po_id = ''s'', po_session = 0, po_closed = False\<rparr>] \<rparr>"
  by (simp add: resumed_during_close_def Let_def new_manager_def get_or_create_def new_session_def
      add_peer_def upd_session_def add_to_peers_def issue_resume_token_def rotate_resume_token_def
      resumable_def the_session_def listed_def resume_def evict_peers_def peer_addrs_def clear_peers_def
      begin_close_def close_peer_def fun_eq_iff)

theorem late_close_ends_resumed_call_witness:
  "\<not> po_closed (mg_peers (finish_close 0 (2 * second) resumed_during_close) ! 1) \<and>
   get_session (reap (32 * second) (finish_close 0 (2 * second) resumed_during_close)) ''s'' = None"
proof -
  have "call_ok resumed_during_close"
    by (simp add: resumed_during_close_eq call_ok_def manager_ok_def sessions_ok_def tokens_ok_def
        peers_ok_def idle_ok_def the_session_def less_Suc_eq)
  from late_close_ends_resumed_call [OF this, of "''s''" 0 "''s''" 1 0 "2 * second" "32 * second"]
  show ?thesis
    by (simp add: resumed_during_close_eq get_session_def the_session_def grace_def
        default_session_grace_ms_def)
qed

text \<open>Redeeming a token does not restart the grace period of a session without peers. If a
  sweep falls between redeeming it and adding the new peer, the caller is given a peer on a
  cancelled session and a fresh token that resolves to it, although the session is no longer
  listed.\<close>

theorem sweep_during_resume_leaves_dead_token:
  assumes "manager_ok m" and "resumable m" and "mg_resumable m t = Some a"
    and "ss_peers (the_session m a) = []" and "expired later m a"
    and "add_peer a pid True (reap later (fst (resume now m t))) = (m3, Some p)"
    and "issue_resume_token a (Some u) m3 = (m4, u')"
  shows "u' = u \<and> mg_resumable m4 u = Some a \<and> ss_cancelled (the_session m4 a) \<and>
    get_session m4 (ss_id (the_session m a)) = None"
proof -
  have t: "t \<noteq> []" "a < length (mg_store m)" "listed m a"
    using manager_okD(2) [OF assms(1)] assms(3) by (auto simp: tokens_ok_def)
  obtain m1 where m1: "resume now m t = (m1, Some a)"
    using assms(3) t(1) by (simp add: resume_def)
  note eff = resume_effect [OF assms(1) m1]
  have ok: "manager_ok m1" using resume_ok [OF assms(1) m1] .
  let ?sid = "ss_id (the_session m a)"
  have tables: "mg_realtime m1 = mg_realtime m" "grace m1 = grace m"
      "length (mg_store m1) = length (mg_store m)"
    using m1 evict_tables [of "m\<lparr>mg_resumable := (mg_resumable m)(t := None)\<rparr>" now a] assms(3) t(1)
    by (auto simp: resume_def same_tables_def grace_def)
  have g: "get_session m1 ?sid = Some a"
    using t(3) session_lookup [OF manager_okD(1) [OF assms(1)]]
    by (simp add: get_session_def eff(3) listed_def)
  have "expired later m1 a"
    using assms(4,5) by (simp add: expired_def eff(4) tables split: option.splits)
  note gone = reap_takes [OF ok g this]
  have "settles m1 (reap later m1)"
    unfolding reap_def
    by (rule settles_trans [OF settles_unlist_expired settles_fold]) auto
  then have len: "a < length (mg_store (reap later m1))"
    using t(2) tables by (simp add: settles_def)
  have frame: "mg_sessions m3 = mg_sessions (reap later m1)"
      "ss_cancelled (the_session m3 a) = ss_cancelled (the_session (reap later m1) a)"
      "mg_realtime m3 = mg_realtime (reap later m1)" "a < length (mg_store m3)"
    using assms(6) len m1 by (auto simp: add_peer_def Let_def add_to_peers_def)
  have "mg_realtime (reap later m1) = mg_realtime m1"
    using \<open>settles m1 (reap later m1)\<close> by (simp add: settles_def)
  with assms(2,7) frame gone tables len show ?thesis
    by (auto simp: issue_resume_token_def rotate_resume_token_def Let_def resumable_def
        get_session_def split: if_splits)
qed

theorem sweep_during_resume_leaves_dead_token_witness:
  "mg_resumable (fst (issue_resume_token 0 (Some ''u'')
     (fst (add_peer 0 ''s'' True (reap (31 * second) (fst (resume (30 * second)
       (fold (\<lambda>e m. op_step m e) [Op_create ''s'' 0, Op_issue 0 ''t''] (new_manager 0 0 False)) ''t'')))))))
   ''u'' = Some 0"
proof -
  let ?m = "fold (\<lambda>e m. op_step m e) [Op_create ''s'' 0, Op_issue 0 ''t''] (new_manager 0 0 False)"
  let ?r = "reap (31 * second) (fst (resume (30 * second) ?m ''t''))"
  have "manager_ok ?m" by (rule call_okD [OF calls.run_invar]) (rule new_call_ok)
  moreover have "resumable ?m" "mg_resumable ?m ''t'' = Some 0" "ss_peers (the_session ?m 0) = []"
      "expired (31 * second) ?m 0" by code_simp+
  moreover have "add_peer 0 ''s'' True ?r = (fst (add_peer 0 ''s'' True ?r), Some (length (mg_peers ?r),
      ss_conv (the_session ?r 0) \<noteq> None))"
    by (simp add: add_peer_def Let_def)
  ultimately show ?thesis
    using sweep_during_resume_leaves_dead_token [of ?m "''t''" 0 "31 * second" "''s''" "30 * second"
        "fst (add_peer 0 ''s'' True ?r)" "(length (mg_peers ?r), ss_conv (the_session ?r 0) \<noteq> None)"
        "''u''" "fst (issue_resume_token 0 (Some ''u'') (fst (add_peer 0 ''s'' True ?r)))"
        "snd (issue_resume_token 0 (Some ''u'') (fst (add_peer 0 ''s'' True ?r)))"]
    by simp
qed

end
