(* ===== verification/ICE_Restart.thy ===== *)
theory ICE_Restart
  imports Go_Prelude
begin

text \<open>
  ICE restart, \<open>internal/peer/icerestart.go\<close>: reading the client's SDP fragment, folding its
  credentials and candidates into the stored offer, and rendering the server's answer as a
  fragment. The strings are those of the code, byte for byte; the session version of an
  \<open>o=\<close> line is a 64-bit word, as \<open>strconv.ParseUint\<close> and Go's addition have it.

  The lemmas show that the two renderers produce texts whose lines are exactly the ones they
  emit, so that what the code writes can be read back by the code that reads.
\<close>

section \<open>Lines\<close>

definition split_sdp_lines :: "str \<Rightarrow> str list" where
  "split_sdp_lines sdp =
     filter (\<lambda>l. l \<noteq> []) (map (trim_right (\<lambda>c. c = CHR 0x0D)) (split_on CHR 0x0A sdp))"

definition crlf :: str where
  "crlf = [CHR 0x0D, CHR 0x0A]"

definition render_lines :: "str list \<Rightarrow> str" where
  "render_lines ls = join crlf ls @ crlf"

section \<open>Reading a fragment\<close>

datatype restart_error =
    No_ICE_credentials
  | Peer_closed
  | No_remote_description
  | Set_restart_offer
  | Create_restart_answer
  | Set_restart_answer

record ice_part =
  ip_ufrag :: str
  ip_pwd :: str
  ip_candidates :: "str list"

definition read_ice_line :: "str \<Rightarrow> ice_part \<Rightarrow> ice_part" where
  "read_ice_line line p =
     (if has_prefix ''a=ice-ufrag:'' line then
        (if ip_ufrag p = [] then p\<lparr>ip_ufrag := trim_prefix ''a=ice-ufrag:'' line\<rparr> else p)
      else if has_prefix ''a=ice-pwd:'' line then
        (if ip_pwd p = [] then p\<lparr>ip_pwd := trim_prefix ''a=ice-pwd:'' line\<rparr> else p)
      else if has_prefix ''a=candidate:'' line then
        p\<lparr>ip_candidates := ip_candidates p @ [trim_prefix ''a=candidate:'' line]\<rparr>
      else p)"

definition no_ice_part :: ice_part where
  "no_ice_part = \<lparr>ip_ufrag = [], ip_pwd = [], ip_candidates = []\<rparr>"

definition read_ice_lines :: "str list \<Rightarrow> restart_error + ice_part" where
  "read_ice_lines ls =
     (let p = fold read_ice_line ls no_ice_part
      in if ip_ufrag p = [] \<or> ip_pwd p = [] then Inl No_ICE_credentials else Inr p)"

definition parse_ice_fragment :: "str \<Rightarrow> restart_error + ice_part" where
  "parse_ice_fragment fragment = read_ice_lines (split_sdp_lines fragment)"

section \<open>The session version\<close>

fun digits_value :: "nat \<Rightarrow> str \<Rightarrow> nat option" where
  "digits_value acc [] = Some acc"
| "digits_value acc (c # s) =
     (if is_digit c then digits_value (10 * acc + (of_char c - 48)) s else None)"

definition parse_uint64 :: "str \<Rightarrow> 64 word option" where
  "parse_uint64 s =
     (if s = [] then None
      else case digits_value 0 s of
        None \<Rightarrow> None
      | Some n \<Rightarrow> if n < 2 ^ 64 then Some (of_nat n) else None)"

definition format_uint64 :: "64 word \<Rightarrow> str" where
  "format_uint64 w = digits_of (unat w)"

definition bump_sdp_origin :: "str \<Rightarrow> str" where
  "bump_sdp_origin line =
     (let fs = str_fields (trim_prefix ''o='' line)
      in if length fs < 6 then line
         else case parse_uint64 (fs ! 2) of
           None \<Rightarrow> line
         | Some v \<Rightarrow> ''o='' @ join '' '' (fs[2 := format_uint64 (v + 1)]))"

section \<open>Rewriting the offer\<close>

definition new_candidates :: "str list \<Rightarrow> str list" where
  "new_candidates cs =
     map (\<lambda>c. ''a=candidate:'' @ c) cs @ (if cs \<noteq> [] then [''a=end-of-candidates''] else [])"

fun rewrite_lines :: "str \<Rightarrow> str \<Rightarrow> str list \<Rightarrow> int \<Rightarrow> bool \<Rightarrow> str list \<Rightarrow> str list" where
  "rewrite_lines ufrag pwd cs media inserted [] = (if inserted then [] else new_candidates cs)"
| "rewrite_lines ufrag pwd cs media inserted (line # ls) =
     (if has_prefix ''m='' line then
        (if media = 0 \<and> \<not> inserted then new_candidates cs else []) @
          line # rewrite_lines ufrag pwd cs (media + 1) (inserted \<or> media = 0) ls
      else if has_prefix ''o='' line then
        bump_sdp_origin line # rewrite_lines ufrag pwd cs media inserted ls
      else if has_prefix ''a=ice-ufrag:'' line then
        (''a=ice-ufrag:'' @ ufrag) # rewrite_lines ufrag pwd cs media inserted ls
      else if has_prefix ''a=ice-pwd:'' line then
        (''a=ice-pwd:'' @ pwd) # rewrite_lines ufrag pwd cs media inserted ls
      else if has_prefix ''a=candidate:'' line \<or> line = ''a=end-of-candidates'' then
        rewrite_lines ufrag pwd cs media inserted ls
      else line # rewrite_lines ufrag pwd cs media inserted ls)"

definition rewrite_ice_for_restart :: "str \<Rightarrow> str \<Rightarrow> str \<Rightarrow> str list \<Rightarrow> str" where
  "rewrite_ice_for_restart remote_sdp ufrag pwd cs =
     render_lines (rewrite_lines ufrag pwd cs (-1) False (split_sdp_lines remote_sdp))"

section \<open>The answer's fragment\<close>

record answer_part = ice_part +
  ap_mline :: str
  ap_mid :: str
  ap_media :: int

definition read_answer_line :: "str \<Rightarrow> answer_part \<Rightarrow> answer_part" where
  "read_answer_line line a =
     (if has_prefix ''m='' line then
        (let b = a\<lparr>ap_media := ap_media a + 1\<rparr>
         in if ap_media b = 0 then b\<lparr>ap_mline := line\<rparr> else b)
      else if 0 < ap_media a then a
      else if has_prefix ''a=ice-ufrag:'' line then
        (if ip_ufrag a = [] then a\<lparr>ip_ufrag := trim_prefix ''a=ice-ufrag:'' line\<rparr> else a)
      else if has_prefix ''a=ice-pwd:'' line then
        (if ip_pwd a = [] then a\<lparr>ip_pwd := trim_prefix ''a=ice-pwd:'' line\<rparr> else a)
      else if has_prefix ''a=mid:'' line then
        (if ap_mid a = [] then a\<lparr>ap_mid := trim_prefix ''a=mid:'' line\<rparr> else a)
      else if has_prefix ''a=candidate:'' line then
        a\<lparr>ip_candidates := ip_candidates a @ [trim_prefix ''a=candidate:'' line]\<rparr>
      else a)"

definition answer_lines :: "str list \<Rightarrow> str list" where
  "answer_lines ls =
     (let a = fold read_answer_line ls
            \<lparr>ip_ufrag = [], ip_pwd = [], ip_candidates = [], ap_mline = [], ap_mid = [], ap_media = -1\<rparr>
      in (if ip_ufrag a \<noteq> [] then [''a=ice-ufrag:'' @ ip_ufrag a] else []) @
         (if ip_pwd a \<noteq> [] then [''a=ice-pwd:'' @ ip_pwd a] else []) @
         (if ap_mline a \<noteq> [] then [ap_mline a] else []) @
         (if ap_mid a \<noteq> [] then [''a=mid:'' @ ap_mid a] else []) @
         map (\<lambda>c. ''a=candidate:'' @ c) (ip_candidates a) @
         [''a=end-of-candidates''])"

definition ice_fragment_from_sdp :: "str \<Rightarrow> str" where
  "ice_fragment_from_sdp local_sdp = render_lines (answer_lines (split_sdp_lines local_sdp))"

section \<open>The restart\<close>

text \<open>
  What the restart reads and changes of a peer. The WebRTC stack's calls are arguments: whether
  it accepts the synthesised offer, whether it can create an answer and set it, and the local
  description it ends up with.
\<close>

record transport =
  tr_closed :: bool
  tr_remote :: "str option"
  tr_local :: str

definition restart_ice ::
  "(str \<Rightarrow> transport \<Rightarrow> bool) \<Rightarrow> (transport \<Rightarrow> str option) \<Rightarrow> (str \<Rightarrow> transport \<Rightarrow> str option) \<Rightarrow>
   transport \<Rightarrow> str \<Rightarrow> transport \<times> (restart_error + str)" where
  "restart_ice accepts create_answer set_local t fragment =
     (case parse_ice_fragment fragment of
        Inl e \<Rightarrow> (t, Inl e)
      | Inr p \<Rightarrow>
          if tr_closed t then (t, Inl Peer_closed)
          else case tr_remote t of
            None \<Rightarrow> (t, Inl No_remote_description)
          | Some remote \<Rightarrow>
              let offer = rewrite_ice_for_restart remote (ip_ufrag p) (ip_pwd p) (ip_candidates p)
              in if \<not> accepts offer t then (t, Inl Set_restart_offer)
                 else let t1 = t\<lparr>tr_remote := Some offer\<rparr> in
                   (case create_answer t1 of
                      None \<Rightarrow> (t1, Inl Create_restart_answer)
                    | Some answer \<Rightarrow>
                        (case set_local answer t1 of
                           None \<Rightarrow> (t1, Inl Set_restart_answer)
                         | Some sdp \<Rightarrow> (t1\<lparr>tr_local := sdp\<rparr>, Inr (ice_fragment_from_sdp sdp)))))"

section \<open>Lines that survive rendering\<close>

definition sdp_line :: "str \<Rightarrow> bool" where
  "sdp_line l \<longleftrightarrow> l \<noteq> [] \<and> CHR 0x0A \<notin> set l \<and> last l \<noteq> CHR 0x0D"

lemma split_aux_no_sep: "x \<in> set (split_aux d acc s) \<Longrightarrow> d \<notin> set acc \<Longrightarrow> d \<notin> set x"
  by (induction d acc s rule: split_aux.induct) (auto split: if_splits)

lemma trim_right_subset: "set (trim_right P s) \<subseteq> set s"
  unfolding trim_right_def using set_dropWhileD by fastforce

lemma trim_right_last: "trim_right P s \<noteq> [] \<Longrightarrow> \<not> P (last (trim_right P s))"
  unfolding trim_right_def by (simp add: last_rev hd_dropWhile)

lemma split_sdp_lines_ok: "list_all sdp_line (split_sdp_lines sdp)"
proof -
  have "sdp_line l" if l: "l \<in> set (split_sdp_lines sdp)" for l
  proof -
    from l obtain r where r: "r \<in> set (split_on CHR 0x0A sdp)"
        "l = trim_right (\<lambda>c. c = CHR 0x0D) r" "l \<noteq> []"
      by (auto simp: split_sdp_lines_def)
    then have "CHR 0x0A \<notin> set r" using split_aux_no_sep [of r "CHR 0x0A" "[]" sdp]
      by (simp add: split_on_def)
    with r trim_right_subset [of "\<lambda>c. c = CHR 0x0D" r] trim_right_last [of "\<lambda>c. c = CHR 0x0D" r]
    show ?thesis by (auto simp: sdp_line_def)
  qed
  then show ?thesis by (simp add: list_all_iff)
qed

lemma split_aux_append:
  "d \<notin> set w \<Longrightarrow> split_aux d acc (w @ d # s) = (rev acc @ w) # split_aux d [] s"
  by (induction w arbitrary: acc) auto

lemma trim_right_keep: "s = [] \<or> \<not> P (last s) \<Longrightarrow> trim_right P s = s"
  unfolding trim_right_def by (cases s rule: rev_cases) auto

lemma trim_right_snoc: "P c \<Longrightarrow> trim_right P (s @ [c]) = trim_right P s"
  by (simp add: trim_right_def)

lemma split_rendered_line:
  assumes "sdp_line l"
  shows "split_sdp_lines (l @ crlf @ s) = l # split_sdp_lines s"
proof -
  have "split_on CHR 0x0A (l @ crlf @ s) = (l @ [CHR 0x0D]) # split_on CHR 0x0A s"
    using split_aux_append [of "CHR 0x0A" "l @ [CHR 0x0D]" "[]" s] assms
    by (simp add: split_on_def crlf_def sdp_line_def)
  moreover have "trim_right (\<lambda>c. c = CHR 0x0D) (l @ [CHR 0x0D]) = l"
    using assms by (simp add: trim_right_snoc trim_right_keep sdp_line_def)
  ultimately show ?thesis using assms by (simp add: split_sdp_lines_def sdp_line_def)
qed

lemma split_sdp_lines_Nil [simp]: "split_sdp_lines [] = []"
  by (simp add: split_sdp_lines_def split_on_def trim_right_def)

lemma split_crlf [simp]: "split_sdp_lines crlf = []"
  by (simp add: split_sdp_lines_def split_on_def trim_right_def crlf_def)

lemma split_rendered: "list_all sdp_line ls \<Longrightarrow> split_sdp_lines (render_lines ls) = ls"
proof (induction ls rule: induct_list012)
  case 1
  show ?case by (simp add: render_lines_def)
next
  case (2 x)
  then show ?case using split_rendered_line [of x "[]"] by (simp add: render_lines_def)
next
  case (3 x y zs)
  then show ?case using split_rendered_line [of x "join crlf (y # zs) @ crlf"]
    by (simp add: render_lines_def)
qed

section \<open>Decimal numbers\<close>

lemma digit_char: "n < 10 \<Longrightarrow> is_digit (char_of (n + 48 :: nat)) \<and> of_char (char_of (n + 48 :: nat)) = n + 48"
  by (simp add: is_digit_def of_char_of take_bit_eq_mod)

lemma digits_value_append:
  "digits_value acc (xs @ ys) =
     (case digits_value acc xs of None \<Rightarrow> None | Some a \<Rightarrow> digits_value a ys)"
  by (induction xs arbitrary: acc) auto

lemma digits_of_value: "digits_value acc (digits_of n) = Some (acc * 10 ^ length (digits_of n) + n)"
proof (induction n arbitrary: acc rule: digits_of.induct)
  case (1 n)
  show ?case
  proof (cases "n < 10")
    case True
    with digit_char show ?thesis by (simp add: digits_of.simps [of n])
  next
    case False
    have "10 * (acc * 10 ^ length (digits_of (n div 10)) + n div 10) + n mod 10 =
        acc * (10 * 10 ^ length (digits_of (n div 10))) + n"
      by (simp add: algebra_simps)
    with False 1 [OF False] digit_char [of "n mod 10"] show ?thesis
      by (simp add: digits_of.simps [of n] digits_value_append)
  qed
qed

lemma digits_of_digits: "list_all is_digit (digits_of n)"
proof (induction n rule: digits_of.induct)
  case (1 n)
  then show ?case using digit_char [of n] digit_char [of "n mod 10"]
    by (cases "n < 10") (simp_all add: digits_of.simps [of n])
qed

lemma digits_of_nonempty: "digits_of n \<noteq> []"
  by (simp add: digits_of.simps [of n])

lemma parse_format_uint64 [simp]: "parse_uint64 (format_uint64 w) = Some w"
  using unsigned_less [of w]
  by (simp add: parse_uint64_def format_uint64_def digits_of_value digits_of_nonempty)

lemma digit_not_space: "is_digit c \<Longrightarrow> \<not> is_space c"
  by (auto simp: is_digit_def is_space_def)

lemma format_uint64_word: "format_uint64 w \<noteq> [] \<and> list_all (\<lambda>c. \<not> is_space c) (format_uint64 w)"
  using digits_of_digits [of "unat w"]
  by (auto simp: format_uint64_def digits_of_nonempty list_all_iff digit_not_space)

lemma bump_join:
  assumes "list_all (\<lambda>w. w \<noteq> [] \<and> list_all (\<lambda>c. \<not> is_space c) w) ws" and "6 \<le> length ws"
    and "ws ! 2 = format_uint64 v"
  shows "bump_sdp_origin (''o='' @ join '' '' ws) = ''o='' @ join '' '' (ws[2 := format_uint64 (v + 1)])"
proof -
  have "trim_prefix ''o='' (''o='' @ join '' '' ws) = join '' '' ws" by (rule trim_prefix_append)
  with assms fields_join [OF assms(1)] show ?thesis
    by (simp add: bump_sdp_origin_def Let_def del: append.simps append_Cons)
qed

section \<open>What a rewritten offer reads back as\<close>

lemma prefix_comparable: "has_prefix p l \<Longrightarrow> has_prefix q l \<Longrightarrow> has_prefix p q \<or> has_prefix q p"
  by (auto simp: has_prefix_iff append_eq_append_conv2)

lemma prefix_clash:
  "has_prefix p l \<Longrightarrow> has_prefix q l \<Longrightarrow> \<not> has_prefix p q \<Longrightarrow> \<not> has_prefix q p \<Longrightarrow> False"
  using prefix_comparable by blast

definition ice_line :: "str \<Rightarrow> bool" where
  "ice_line l \<longleftrightarrow> has_prefix ''a=ice-ufrag:'' l \<or> has_prefix ''a=ice-pwd:'' l \<or>
     has_prefix ''a=candidate:'' l \<or> l = ''a=end-of-candidates''"

definition bump_line :: "str \<Rightarrow> str" where
  "bump_line l = (if has_prefix ''o='' l then bump_sdp_origin l else l)"

lemma bump_origin_prefix: "has_prefix ''o='' l \<Longrightarrow> has_prefix ''o='' (bump_sdp_origin l)"
  by (auto simp: bump_sdp_origin_def Let_def split: option.split)

lemma not_ice_line: "has_prefix ''o='' l \<or> has_prefix ''m='' l \<Longrightarrow> \<not> ice_line l"
  by (auto simp: ice_line_def elim: prefix_clash)

lemma ice_attribute [simp]:
  "ice_line (''a=ice-ufrag:'' @ u)" "ice_line (''a=ice-pwd:'' @ u)" "ice_line (''a=candidate:'' @ u)"
  by (simp_all add: ice_line_def)

lemma m_not_o: "has_prefix ''m='' l \<Longrightarrow> \<not> has_prefix ''o='' l"
  using prefix_comparable [of "''m=''" l "''o=''"] by auto

lemma new_candidates_ice: "filter (\<lambda>l. \<not> ice_line l) (new_candidates cs) = []"
  by (auto simp: new_candidates_def ice_line_def filter_empty_conv)

lemma rewrite_keeps:
  "filter (\<lambda>l. \<not> ice_line l) (rewrite_lines u p cs media ins ls) =
     map bump_line (filter (\<lambda>l. \<not> ice_line l) ls)"
proof (induction ls arbitrary: media ins)
  case Nil
  then show ?case by (simp add: new_candidates_ice)
next
  case (Cons l ls)
  show ?case
  proof (cases "has_prefix ''m='' l \<or> has_prefix ''o='' l")
    case True
    then show ?thesis
      using not_ice_line [of l] not_ice_line [of "bump_sdp_origin l"] bump_origin_prefix [of l] m_not_o [of l]
      by (auto simp: Cons.IH new_candidates_ice bump_line_def)
  next
    case nomo: False
    show ?thesis
    proof (cases "ice_line l")
      case True
      let ?R = "rewrite_lines u p cs media ins ls"
      from nomo True have "rewrite_lines u p cs media ins (l # ls) \<in>
          {(''a=ice-ufrag:'' @ u) # ?R, (''a=ice-pwd:'' @ p) # ?R, ?R}"
        by (simp add: ice_line_def del: append.simps) blast
      then have "filter (\<lambda>l. \<not> ice_line l) (rewrite_lines u p cs media ins (l # ls)) =
          filter (\<lambda>l. \<not> ice_line l) ?R"
        using ice_attribute by (auto simp del: append.simps rewrite_lines.simps)
      with True show ?thesis by (simp add: Cons.IH del: rewrite_lines.simps)
    next
      case False
      with nomo have "rewrite_lines u p cs media ins (l # ls) = l # rewrite_lines u p cs media ins ls"
        by (simp add: ice_line_def)
      with nomo False show ?thesis by (simp add: Cons.IH bump_line_def)
    qed
  qed
qed

definition tail_ok :: "str \<Rightarrow> bool" where
  "tail_ok u \<longleftrightarrow> CHR 0x0A \<notin> set u \<and> (u \<noteq> [] \<longrightarrow> last u \<noteq> CHR 0x0D)"

lemma attribute_line:
  "tail_ok u \<Longrightarrow> sdp_line (''a=ice-ufrag:'' @ u)" "tail_ok u \<Longrightarrow> sdp_line (''a=ice-pwd:'' @ u)"
  "tail_ok u \<Longrightarrow> sdp_line (''a=candidate:'' @ u)" "tail_ok u \<Longrightarrow> sdp_line (''a=mid:'' @ u)"
  "sdp_line ''a=end-of-candidates''"
  by (auto simp: tail_ok_def sdp_line_def)

lemma tail_ok_trim: "sdp_line l \<Longrightarrow> has_prefix p l \<Longrightarrow> tail_ok (trim_prefix p l)"
  by (auto simp: has_prefix_iff tail_ok_def sdp_line_def)

definition part_ok :: "ice_part \<Rightarrow> bool" where
  "part_ok p \<longleftrightarrow> tail_ok (ip_ufrag p) \<and> tail_ok (ip_pwd p) \<and> list_all tail_ok (ip_candidates p)"

lemma read_ice_line_ok: "sdp_line l \<Longrightarrow> part_ok p \<Longrightarrow> part_ok (read_ice_line l p)"
  by (auto simp: read_ice_line_def part_ok_def tail_ok_trim)

lemma read_ice_fold_ok: "list_all sdp_line ls \<Longrightarrow> part_ok p \<Longrightarrow> part_ok (fold read_ice_line ls p)"
  by (induction ls arbitrary: p) (auto intro: read_ice_line_ok)

lemma parsed_part:
  assumes "parse_ice_fragment fragment = Inr p"
  shows "part_ok p" and "ip_ufrag p \<noteq> []" and "ip_pwd p \<noteq> []"
proof -
  have "part_ok no_ice_part" by (simp add: part_ok_def no_ice_part_def tail_ok_def)
  with assms read_ice_fold_ok [OF split_sdp_lines_ok] show "part_ok p"
    by (auto simp: parse_ice_fragment_def read_ice_lines_def Let_def split: if_splits)
  from assms show "ip_ufrag p \<noteq> []" and "ip_pwd p \<noteq> []"
    by (auto simp: parse_ice_fragment_def read_ice_lines_def Let_def split: if_splits)
qed

lemma join_no_char: "c \<notin> set sep \<Longrightarrow> \<forall>x \<in> set xs. c \<notin> set x \<Longrightarrow> c \<notin> set (join sep xs)"
  by (induction sep xs rule: join.induct) auto

lemma last_join: "xs \<noteq> [] \<Longrightarrow> last xs \<noteq> [] \<Longrightarrow> join sep xs \<noteq> [] \<and> last (join sep xs) = last (last xs)"
  by (induction sep xs rule: join.induct) auto

lemma bump_origin_line: "sdp_line l \<Longrightarrow> sdp_line (bump_sdp_origin l)"
proof (cases "bump_sdp_origin l = l")
  case False
  let ?fs = "str_fields (trim_prefix ''o='' l)"
  from False obtain v where b: "bump_sdp_origin l = ''o='' @ join '' '' (?fs[2 := format_uint64 (v + 1)])"
      "6 \<le> length ?fs"
    by (auto simp: bump_sdp_origin_def Let_def split: option.splits if_splits)
  let ?gs = "?fs[2 := format_uint64 (v + 1)]"
  have w: "x \<noteq> [] \<and> list_all (\<lambda>c. \<not> is_space c) x" if "x \<in> set ?gs" for x
  proof (cases "x = format_uint64 (v + 1)")
    case True
    then show ?thesis by (simp add: format_uint64_word)
  next
    case False
    then have "x \<in> set ?fs"
      using that set_update_subset_insert [of ?fs 2 "format_uint64 (v + 1)"] by blast
    then show ?thesis using fields_nonempty fields_no_space by blast
  qed
  have sp: "is_space CHR 0x0A" "is_space CHR 0x0D" by (simp_all add: is_space_def)
  have "CHR 0x0A \<notin> set (join '' '' ?gs)"
    using w sp by (intro join_no_char) (auto simp: list_all_iff)
  moreover have "last ?gs \<in> set ?gs" using b(2) by (intro last_in_set) auto
  then have "last ?gs \<noteq> []" and "\<not> is_space (last (last ?gs))"
    using w [of "last ?gs"] last_in_set [of "last ?gs"] by (auto simp: list_all_iff)
  then have "last ?gs \<noteq> []" "last (last ?gs) \<noteq> CHR 0x0D"
    using sp by auto
  then have "join '' '' ?gs \<noteq> [] \<and> last (join '' '' ?gs) \<noteq> CHR 0x0D"
    using last_join [of ?gs "'' ''"] b(2) by force
  ultimately show ?thesis by (simp add: b(1) sdp_line_def)
qed simp

lemma rewrite_lines_ok:
  "list_all sdp_line ls \<Longrightarrow> tail_ok u \<Longrightarrow> tail_ok p \<Longrightarrow> list_all tail_ok cs \<Longrightarrow>
   list_all sdp_line (rewrite_lines u p cs media ins ls)"
proof (induction ls arbitrary: media ins)
  case Nil
  then show ?case using attribute_line(3,5) by (auto simp: new_candidates_def list_all_iff)
next
  case (Cons l ls)
  then have ih: "list_all sdp_line (rewrite_lines u p cs m i ls)" for m i by simp
  have "list_all sdp_line (new_candidates cs)"
    using Cons.prems attribute_line(3,5) by (auto simp: new_candidates_def list_all_iff)
  with Cons.prems ih attribute_line(1) [of u] attribute_line(2) [of p] bump_origin_line [of l]
  show ?case by (simp del: append_Cons)
qed

lemma rewritten_lines:
  assumes "tail_ok u" and "tail_ok p" and "list_all tail_ok cs"
  shows "split_sdp_lines (rewrite_ice_for_restart sdp u p cs) =
    rewrite_lines u p cs (-1) False (split_sdp_lines sdp)"
  unfolding rewrite_ice_for_restart_def
  by (rule split_rendered [OF rewrite_lines_ok [OF split_sdp_lines_ok assms]])

subsection \<open>Reading attributes\<close>

lemma read_ice_line_simps [simp]:
  "read_ice_line (''a=ice-ufrag:'' @ u) q = (if ip_ufrag q = [] then q\<lparr>ip_ufrag := u\<rparr> else q)"
  "read_ice_line (''a=ice-pwd:'' @ u) q = (if ip_pwd q = [] then q\<lparr>ip_pwd := u\<rparr> else q)"
  "read_ice_line (''a=candidate:'' @ u) q = q\<lparr>ip_candidates := ip_candidates q @ [u]\<rparr>"
  "read_ice_line ''a=end-of-candidates'' q = q"
  by (simp_all add: read_ice_line_def trim_prefix_def)

lemma read_ice_line_other: "\<not> ice_line l \<Longrightarrow> read_ice_line l q = q"
  by (simp add: read_ice_line_def ice_line_def)

lemma fold_read_new [simp]:
  "fold read_ice_line (new_candidates cs) q = q\<lparr>ip_candidates := ip_candidates q @ cs\<rparr>"
proof -
  have "fold read_ice_line (map (\<lambda>c. ''a=candidate:'' @ c) cs) q = q\<lparr>ip_candidates := ip_candidates q @ cs\<rparr>"
    by (induction cs arbitrary: q) (simp_all del: append.simps)
  then show ?thesis by (cases "cs = []") (simp_all add: new_candidates_def del: append.simps)
qed

text \<open>The credentials a list of lines has: whether it carries one line of each kind.\<close>

definition carries :: "str \<Rightarrow> str list \<Rightarrow> bool" where
  "carries p ls \<longleftrightarrow> list_ex (has_prefix p) ls"

lemma read_again:
  "ip_ufrag q \<in> {[], u} \<Longrightarrow> read_ice_line (''a=ice-ufrag:'' @ u) q = q\<lparr>ip_ufrag := u\<rparr>"
  "ip_pwd q \<in> {[], p} \<Longrightarrow> read_ice_line (''a=ice-pwd:'' @ p) q = q\<lparr>ip_pwd := p\<rparr>"
  by (auto simp del: append.simps)

lemma fold_read_rewritten:
  assumes "u \<noteq> []" and "p \<noteq> []" and "ip_ufrag q \<in> {[], u}" and "ip_pwd q \<in> {[], p}"
  shows "fold read_ice_line (rewrite_lines u p cs media ins ls) q =
    q\<lparr>ip_ufrag := (if carries ''a=ice-ufrag:'' ls then u else ip_ufrag q),
      ip_pwd := (if carries ''a=ice-pwd:'' ls then p else ip_pwd q),
      ip_candidates := ip_candidates q @ (if ins then [] else cs)\<rparr>"
  using assms
proof (induction ls arbitrary: media ins q)
  case Nil
  then show ?case by (simp add: carries_def)
next
  case (Cons l ls)
  note ih = Cons.IH [OF Cons.prems(1,2)]
  have sep: "\<not> (has_prefix ''a=ice-ufrag:'' l \<and> has_prefix ''a=ice-pwd:'' l)"
    by (auto elim: prefix_clash)
  show ?case
  proof (cases "ice_line l")
    case True
    then have nomo: "\<not> has_prefix ''m='' l" "\<not> has_prefix ''o='' l" using not_ice_line by blast+
    consider (u) "has_prefix ''a=ice-ufrag:'' l" | (p) "has_prefix ''a=ice-pwd:'' l"
      | (c) "\<not> has_prefix ''a=ice-ufrag:'' l" "\<not> has_prefix ''a=ice-pwd:'' l"
        "has_prefix ''a=candidate:'' l \<or> l = ''a=end-of-candidates''"
      using True by (auto simp: ice_line_def)
    then show ?thesis
    proof cases
      case u
      then have "rewrite_lines u p cs media ins (l # ls) =
          (''a=ice-ufrag:'' @ u) # rewrite_lines u p cs media ins ls"
        using nomo by (simp del: append.simps)
      then show ?thesis using Cons.prems ih [of "q\<lparr>ip_ufrag := u\<rparr>"] u sep
        by (simp add: read_again carries_def del: append.simps rewrite_lines.simps read_ice_line_simps)
    next
      case p
      then have "rewrite_lines u p cs media ins (l # ls) =
          (''a=ice-pwd:'' @ p) # rewrite_lines u p cs media ins ls"
        using nomo sep by (simp del: append.simps)
      then show ?thesis using Cons.prems ih [of "q\<lparr>ip_pwd := p\<rparr>"] p sep
        by (simp add: read_again carries_def del: append.simps rewrite_lines.simps read_ice_line_simps)
    next
      case c
      with nomo Cons.prems show ?thesis by (auto simp: ih carries_def)
    qed
  next
    case False
    then have "\<not> has_prefix ''a=ice-ufrag:'' l" "\<not> has_prefix ''a=ice-pwd:'' l"
        "\<not> has_prefix ''a=candidate:'' l" "l \<noteq> ''a=end-of-candidates''"
      by (simp_all add: ice_line_def)
    moreover have "read_ice_line (bump_sdp_origin l) r = r" if "has_prefix ''o='' l" for r
      using that by (intro read_ice_line_other not_ice_line) (simp add: bump_origin_prefix)
    ultimately show ?thesis
      using Cons.prems False by (simp add: ih carries_def read_ice_line_other)
  qed
qed

subsection \<open>Where the candidates go\<close>

definition is_mline :: "str \<Rightarrow> bool" where
  "is_mline l \<longleftrightarrow> has_prefix ''m='' l"

lemma rewrite_inserted:
  "list_all (\<lambda>l. \<not> has_prefix ''a=candidate:'' l) (rewrite_lines u p cs media True ls)"
  by (induction ls arbitrary: media)
    (auto elim: prefix_clash simp: bump_origin_prefix dest: bump_origin_prefix)

lemma candidate_free_m: "is_mline l \<Longrightarrow> \<not> has_prefix ''a=candidate:'' l"
  by (auto simp: is_mline_def elim: prefix_clash)

lemma rewrite_other_line:
  assumes "\<not> is_mline l"
  shows "\<exists>h. rewrite_lines u p cs media ins (l # ls) = h @ rewrite_lines u p cs media ins ls \<and>
    list_all (\<lambda>l. \<not> is_mline l \<and> \<not> has_prefix ''a=candidate:'' l) h"
proof (cases "has_prefix ''o='' l")
  case True
  with assms have "rewrite_lines u p cs media ins (l # ls) =
      [bump_sdp_origin l] @ rewrite_lines u p cs media ins ls" by (simp add: is_mline_def)
  moreover have "list_all (\<lambda>l. \<not> is_mline l \<and> \<not> has_prefix ''a=candidate:'' l) [bump_sdp_origin l]"
    using bump_origin_prefix [OF True] by (auto simp: is_mline_def elim: prefix_clash)
  ultimately show ?thesis by blast
next
  case noo: False
  let ?R = "rewrite_lines u p cs media ins ls"
  have "rewrite_lines u p cs media ins (l # ls) \<in> {[''a=ice-ufrag:'' @ u] @ ?R, [''a=ice-pwd:'' @ p] @ ?R, [] @ ?R} \<or>
      (rewrite_lines u p cs media ins (l # ls) = [l] @ ?R \<and> \<not> has_prefix ''a=candidate:'' l)"
    using assms noo by (simp add: is_mline_def)
  then show ?thesis using assms
    by (elim disjE insertE emptyE conjE)
      (rule exI, rule conjI, assumption, simp add: is_mline_def)+
qed

text \<open>From the start of the first media section on, and from before it.\<close>

lemma rewrite_in_section:
  "\<exists>pre post. rewrite_lines u p cs 0 False ls = pre @ new_candidates cs @ post \<and>
     list_all (\<lambda>l. \<not> is_mline l \<and> \<not> has_prefix ''a=candidate:'' l) pre \<and>
     list_all (\<lambda>l. \<not> has_prefix ''a=candidate:'' l) post \<and> (post = [] \<or> is_mline (hd post))"
proof (induction ls)
  case Nil
  show ?case by (intro exI [of _ "[]"]) simp
next
  case (Cons l ls)
  show ?case
  proof (cases "is_mline l")
    case True
    then show ?thesis using rewrite_inserted [of u p cs 1 ls] candidate_free_m [of l]
      by (intro exI [of _ "[]"] exI [of _ "l # rewrite_lines u p cs 1 True ls"])
        (simp add: is_mline_def)
  next
    case False
    from rewrite_other_line [OF False] obtain h where h:
      "rewrite_lines u p cs 0 False (l # ls) = h @ rewrite_lines u p cs 0 False ls"
      "list_all (\<lambda>l. \<not> is_mline l \<and> \<not> has_prefix ''a=candidate:'' l) h" by blast
    from Cons.IH obtain pre post where
      "rewrite_lines u p cs 0 False ls = pre @ new_candidates cs @ post"
      "list_all (\<lambda>l. \<not> is_mline l \<and> \<not> has_prefix ''a=candidate:'' l) pre"
      "list_all (\<lambda>l. \<not> has_prefix ''a=candidate:'' l) post" "post = [] \<or> is_mline (hd post)" by blast
    with h show ?thesis by (intro exI [of _ "h @ pre"] exI [of _ post]) simp
  qed
qed

lemma rewrite_place:
  "list_ex is_mline ls \<Longrightarrow>
   \<exists>pre m sec post. rewrite_lines u p cs (-1) False ls = pre @ m # sec @ new_candidates cs @ post \<and>
     list_all (\<lambda>l. \<not> is_mline l \<and> \<not> has_prefix ''a=candidate:'' l) (pre @ sec) \<and> is_mline m \<and>
     list_all (\<lambda>l. \<not> has_prefix ''a=candidate:'' l) post \<and> (post = [] \<or> is_mline (hd post))"
proof (induction ls)
  case (Cons l ls)
  show ?case
  proof (cases "is_mline l")
    case True
    obtain pre post where
      "rewrite_lines u p cs 0 False ls = pre @ new_candidates cs @ post"
      "list_all (\<lambda>l. \<not> is_mline l \<and> \<not> has_prefix ''a=candidate:'' l) pre"
      "list_all (\<lambda>l. \<not> has_prefix ''a=candidate:'' l) post" "post = [] \<or> is_mline (hd post)"
      using rewrite_in_section [of u p cs ls] by blast
    with True show ?thesis
      by (intro exI [of _ "[]"] exI [of _ l] exI [of _ pre] exI [of _ post]) (simp add: is_mline_def)
  next
    case False
    from rewrite_other_line [OF False] obtain h where h:
      "rewrite_lines u p cs (-1) False (l # ls) = h @ rewrite_lines u p cs (-1) False ls"
      "list_all (\<lambda>l. \<not> is_mline l \<and> \<not> has_prefix ''a=candidate:'' l) h" by blast
    from Cons False obtain pre m sec post where
      "rewrite_lines u p cs (-1) False ls = pre @ m # sec @ new_candidates cs @ post"
      "list_all (\<lambda>l. \<not> is_mline l \<and> \<not> has_prefix ''a=candidate:'' l) (pre @ sec)" "is_mline m"
      "list_all (\<lambda>l. \<not> has_prefix ''a=candidate:'' l) post" "post = [] \<or> is_mline (hd post)" by auto
    with h show ?thesis by (intro exI [of _ "h @ pre"] exI [of _ m] exI [of _ sec] exI [of _ post]) simp
  qed
qed simp

subsection \<open>Reading an answer back\<close>

text \<open>The lines up to the second media section.\<close>

fun first_section :: "bool \<Rightarrow> str list \<Rightarrow> str list" where
  "first_section seen [] = []"
| "first_section seen (l # ls) =
     (if has_prefix ''m='' l then (if seen then [] else l # first_section True ls)
      else l # first_section seen ls)"

lemma read_answer_later: "0 < ap_media a \<Longrightarrow> ice_part.truncate (fold read_answer_line ls a) = ice_part.truncate a"
  by (induction ls arbitrary: a) (simp_all add: read_answer_line_def Let_def ice_part.truncate_def)

lemma read_answer_ice:
  assumes "ap_media a \<le> 0" and "\<not> has_prefix ''m='' l"
  shows "ice_part.truncate (read_answer_line l a) = read_ice_line l (ice_part.truncate a)"
    and "ap_media (read_answer_line l a) = ap_media a"
proof -
  have sep: "has_prefix ''a=mid:'' l \<Longrightarrow> \<not> has_prefix ''a=candidate:'' l"
      "has_prefix ''a=mid:'' l \<Longrightarrow> \<not> has_prefix ''a=ice-ufrag:'' l"
      "has_prefix ''a=mid:'' l \<Longrightarrow> \<not> has_prefix ''a=ice-pwd:'' l"
    by (auto elim: prefix_clash)
  show "ice_part.truncate (read_answer_line l a) = read_ice_line l (ice_part.truncate a)"
    using assms sep by (auto simp: read_answer_line_def read_ice_line_def ice_part.truncate_def)
  show "ap_media (read_answer_line l a) = ap_media a"
    using assms by (auto simp: read_answer_line_def)
qed

lemma read_ice_mline: "has_prefix ''m='' l \<Longrightarrow> read_ice_line l q = q"
  by (intro read_ice_line_other not_ice_line) simp

lemma read_answer_section:
  "ap_media a = -1 \<or> ap_media a = 0 \<Longrightarrow>
   ice_part.truncate (fold read_answer_line ls a) =
     fold read_ice_line (first_section (ap_media a = 0) ls) (ice_part.truncate a)"
proof (induction ls arbitrary: a)
  case (Cons l ls)
  show ?case
  proof (cases "has_prefix ''m='' l")
    case True
    let ?b = "read_answer_line l a"
    have t: "ice_part.truncate ?b = ice_part.truncate a" "ap_media ?b = ap_media a + 1"
      using True by (simp_all add: read_answer_line_def Let_def ice_part.truncate_def)
    show ?thesis
    proof (cases "ap_media a = 0")
      case True
      with t \<open>has_prefix ''m='' l\<close> read_answer_later [of ?b ls] show ?thesis by simp
    next
      case False
      with Cons.prems t True Cons.IH [of ?b] show ?thesis by (simp add: read_ice_mline)
    qed
  next
    case False
    have "ap_media a \<le> 0" using Cons.prems by auto
    note step = read_answer_ice [OF this False]
    with False Cons.IH [of "read_answer_line l a"] Cons.prems show ?thesis by simp
  qed
qed simp

definition answer_ok :: "answer_part \<Rightarrow> bool" where
  "answer_ok a \<longleftrightarrow> part_ok (ice_part.truncate a) \<and> tail_ok (ap_mid a) \<and>
     (ap_mline a \<noteq> [] \<longrightarrow> sdp_line (ap_mline a) \<and> is_mline (ap_mline a))"

lemma read_answer_ok: "sdp_line l \<Longrightarrow> answer_ok a \<Longrightarrow> answer_ok (read_answer_line l a)"
  by (auto simp: answer_ok_def read_answer_line_def Let_def part_ok_def ice_part.truncate_def
      tail_ok_trim is_mline_def)

lemma read_answer_fold_ok: "list_all sdp_line ls \<Longrightarrow> answer_ok a \<Longrightarrow> answer_ok (fold read_answer_line ls a)"
  by (induction ls arbitrary: a) (auto intro: read_answer_ok)

lemma read_candidates:
  "fold read_ice_line (map (\<lambda>c. ''a=candidate:'' @ c) cs) q = q\<lparr>ip_candidates := ip_candidates q @ cs\<rparr>"
  by (induction cs arbitrary: q) (simp_all del: append.simps)

lemma read_ice_mid [simp]: "read_ice_line (''a=mid:'' @ m) q = q"
  by (simp add: read_ice_line_def)

lemma answer_lines_read:
  "list_all sdp_line ls \<Longrightarrow>
   list_all sdp_line (answer_lines ls) \<and> read_ice_lines (answer_lines ls) = read_ice_lines (first_section False ls)"
proof -
  assume ls: "list_all sdp_line ls"
  let ?a0 = "\<lparr>ip_ufrag = [], ip_pwd = [], ip_candidates = [], ap_mline = [], ap_mid = [], ap_media = -1\<rparr>"
  define a where "a = fold read_answer_line ls ?a0"
  have "answer_ok ?a0" by (simp add: answer_ok_def part_ok_def tail_ok_def ice_part.truncate_def)
  from read_answer_fold_ok [OF ls this] have ok: "tail_ok (ip_ufrag a)" "tail_ok (ip_pwd a)"
      "list_all tail_ok (ip_candidates a)" "tail_ok (ap_mid a)"
      "ap_mline a \<noteq> [] \<longrightarrow> sdp_line (ap_mline a) \<and> is_mline (ap_mline a)"
    by (simp_all add: answer_ok_def part_ok_def ice_part.truncate_def a_def)
  have lines: "answer_lines ls =
      (if ip_ufrag a \<noteq> [] then [''a=ice-ufrag:'' @ ip_ufrag a] else []) @
      (if ip_pwd a \<noteq> [] then [''a=ice-pwd:'' @ ip_pwd a] else []) @
      (if ap_mline a \<noteq> [] then [ap_mline a] else []) @
      (if ap_mid a \<noteq> [] then [''a=mid:'' @ ap_mid a] else []) @
      map (\<lambda>c. ''a=candidate:'' @ c) (ip_candidates a) @ [''a=end-of-candidates'']"
    by (simp only: answer_lines_def Let_def a_def)
  have "list_all sdp_line (answer_lines ls)"
    unfolding lines using ok attribute_line by (auto simp: list_all_iff simp del: append.simps)
  moreover have "fold read_ice_line (answer_lines ls) no_ice_part =
      \<lparr>ip_ufrag = ip_ufrag a, ip_pwd = ip_pwd a, ip_candidates = ip_candidates a\<rparr>"
    unfolding lines using ok(5)
    by (simp add: read_candidates read_ice_mline is_mline_def no_ice_part_def del: append.simps)
  moreover have "fold read_ice_line (first_section False ls) no_ice_part =
      \<lparr>ip_ufrag = ip_ufrag a, ip_pwd = ip_pwd a, ip_candidates = ip_candidates a\<rparr>"
    using read_answer_section [of ?a0 ls] by (simp add: a_def [symmetric] ice_part.truncate_def no_ice_part_def)
  ultimately show ?thesis by (simp add: read_ice_lines_def)
qed

section \<open>Properties\<close>

text \<open>An ICE restart changes nothing but the transport: with the fragment's credentials the
  synthesised offer has, line for line and in order, every line of the stored offer that is
  not an ICE line; of these only the \<open>o=\<close> line differs, by its session version.\<close>

theorem restart_offer_keeps_session:
  assumes "parse_ice_fragment fragment = Inr p"
  shows "filter (\<lambda>l. \<not> ice_line l)
      (split_sdp_lines (rewrite_ice_for_restart sdp (ip_ufrag p) (ip_pwd p) (ip_candidates p))) =
    map bump_line (filter (\<lambda>l. \<not> ice_line l) (split_sdp_lines sdp))"
  using parsed_part(1) [OF assms] by (simp add: part_ok_def rewritten_lines rewrite_keeps)

definition sample_fragment :: str where
  "sample_fragment = render_lines [''a=ice-ufrag:new'', ''a=ice-pwd:secret'', ''a=candidate:1 udp'']"

definition sample_offer :: str where
  "sample_offer = render_lines [''v=0'', ''o=- 7 8 IN IP4 0.0.0.0'', ''m=audio 9'',
     ''a=ice-ufrag:old'', ''a=ice-pwd:old'', ''a=candidate:9 udp'', ''a=mid:0'', ''m=application 9'', ''a=mid:1'']"

lemma sample_parsed:
  "parse_ice_fragment sample_fragment =
     Inr \<lparr>ip_ufrag = ''new'', ip_pwd = ''secret'', ip_candidates = [''1 udp'']\<rparr>"
  by code_simp

theorem restart_offer_keeps_session_witness:
  "filter (\<lambda>l. \<not> ice_line l) (split_sdp_lines (rewrite_ice_for_restart sample_offer ''new'' ''secret'' [''1 udp''])) =
   map bump_line (filter (\<lambda>l. \<not> ice_line l) (split_sdp_lines sample_offer))"
  using restart_offer_keeps_session [OF sample_parsed, of sample_offer] by simp

text \<open>C25: the synthesised offer carries exactly the new ICE generation: reading it back yields the
  fragment's credentials and its candidates in order, none of the old ones, and the
  candidates stand together at the end of the first media section.\<close>

theorem restart_offer_has_new_generation:
  assumes "parse_ice_fragment fragment = Inr p"
    and "carries ''a=ice-ufrag:'' (split_sdp_lines sdp)" and "carries ''a=ice-pwd:'' (split_sdp_lines sdp)"
    and "carries ''m='' (split_sdp_lines sdp)"
    and "offer = rewrite_ice_for_restart sdp (ip_ufrag p) (ip_pwd p) (ip_candidates p)"
  shows "parse_ice_fragment offer = Inr p \<and>
    (\<exists>pre m sec post. split_sdp_lines offer = pre @ m # sec @ new_candidates (ip_candidates p) @ post \<and>
       list_all (\<lambda>l. \<not> is_mline l \<and> \<not> has_prefix ''a=candidate:'' l) (pre @ sec) \<and> is_mline m \<and>
       list_all (\<lambda>l. \<not> has_prefix ''a=candidate:'' l) post \<and> (post = [] \<or> is_mline (hd post)))"
proof -
  have "list_ex is_mline (split_sdp_lines sdp)"
    using assms(4) by (simp add: carries_def is_mline_def [abs_def])
  from rewrite_place [OF this] parsed_part [OF assms(1)] assms(2,3,5) show ?thesis
    by (simp add: parse_ice_fragment_def part_ok_def rewritten_lines read_ice_lines_def
        fold_read_rewritten no_ice_part_def)
qed

theorem restart_offer_has_new_generation_witness:
  "parse_ice_fragment (rewrite_ice_for_restart sample_offer ''new'' ''secret'' [''1 udp'']) =
   Inr \<lparr>ip_ufrag = ''new'', ip_pwd = ''secret'', ip_candidates = [''1 udp'']\<rparr>"
proof -
  have "carries ''a=ice-ufrag:'' (split_sdp_lines sample_offer)"
    "carries ''a=ice-pwd:'' (split_sdp_lines sample_offer)"
    "carries ''m='' (split_sdp_lines sample_offer)" by code_simp+
  from restart_offer_has_new_generation [OF sample_parsed this refl] show ?thesis by simp
qed

text \<open>The fragment the server answers with reads back as the credentials and candidates of
  its local description, up to the second media section.\<close>

theorem answer_fragment_reads_back:
  "parse_ice_fragment (ice_fragment_from_sdp sdp) =
   read_ice_lines (first_section False (split_sdp_lines sdp))"
  using answer_lines_read [OF split_sdp_lines_ok]
  by (simp add: parse_ice_fragment_def ice_fragment_from_sdp_def split_rendered)

text \<open>An \<open>o=\<close> line of at least six fields whose third is a decimal 64-bit number gets that
  number plus one, modulo 2 to the 64, and no other change.\<close>

theorem origin_version_bumped:
  assumes "list_all (\<lambda>w. w \<noteq> [] \<and> list_all (\<lambda>c. \<not> is_space c) w) ws" and "6 \<le> length ws"
    and "ws ! 2 = format_uint64 v"
  shows "bump_sdp_origin (''o='' @ join '' '' ws) =
    ''o='' @ join '' '' (ws[2 := format_uint64 (v + 1)])"
  using assms by (rule bump_join)

theorem origin_version_bumped_witness:
  "bump_sdp_origin (''o='' @ join '' '' [''-'', ''7'', format_uint64 (-1), ''IN'', ''IP4'', ''::'']) =
   ''o='' @ join '' '' [''-'', ''7'', format_uint64 0, ''IN'', ''IP4'', ''::'']"
  using origin_version_bumped [of "[''-'', ''7'', format_uint64 (-1), ''IN'', ''IP4'', ''::'']" "-1"]
    format_uint64_word [of "-1"]
  by (simp add: is_space_def del: append.simps)

text \<open>A refused restart leaves the peer as it was: on a fragment without credentials, a
  closed peer, a peer without a remote description or an offer the stack rejects, nothing
  changes; a restart that succeeds replaces the remote description by the synthesised offer
  and answers with the fragment of the new local description.\<close>

theorem restart_changes_only_on_acceptance:
  "case restart_ice accepts create_answer set_local t fragment of
     (t', Inr body) \<Rightarrow> \<not> tr_closed t \<and> (\<exists>p remote answer sdp.
       parse_ice_fragment fragment = Inr p \<and> tr_remote t = Some remote \<and>
       create_answer (t\<lparr>tr_remote := tr_remote t'\<rparr>) = Some answer \<and>
       set_local answer (t\<lparr>tr_remote := tr_remote t'\<rparr>) = Some sdp \<and>
       t' = t\<lparr>tr_remote := Some (rewrite_ice_for_restart remote (ip_ufrag p) (ip_pwd p) (ip_candidates p)),
         tr_local := sdp\<rparr> \<and> body = ice_fragment_from_sdp sdp)
   | (t', Inl e) \<Rightarrow>
       (e \<in> {No_ICE_credentials, Peer_closed, No_remote_description, Set_restart_offer} \<longrightarrow> t' = t) \<and>
       (e = Peer_closed \<longrightarrow> tr_closed t) \<and> (e = No_remote_description \<longrightarrow> tr_remote t = None) \<and>
       (e = No_ICE_credentials \<longrightarrow> parse_ice_fragment fragment = Inl No_ICE_credentials)"
proof -
  have "e = No_ICE_credentials" if "parse_ice_fragment fragment = Inl e" for e
    using that by (auto simp: parse_ice_fragment_def read_ice_lines_def Let_def split: if_splits)
  then show ?thesis
    by (auto simp: restart_ice_def Let_def split: sum.splits option.splits)
qed

theorem restart_changes_only_on_acceptance_witness:
  "fst (restart_ice (\<lambda>_ _. True) (\<lambda>_. Some []) (\<lambda>_ _. Some [])
     \<lparr>tr_closed = True, tr_remote = Some sample_offer, tr_local = []\<rparr> sample_fragment) =
   \<lparr>tr_closed = True, tr_remote = Some sample_offer, tr_local = []\<rparr>"
  using restart_changes_only_on_acceptance [where accepts = "\<lambda>_ _. True" and
      create_answer = "\<lambda>_. Some []" and set_local = "\<lambda>_ _. Some []" and
      t = "\<lparr>tr_closed = True, tr_remote = Some sample_offer, tr_local = []\<rparr>" and
      fragment = sample_fragment]
  by (simp add: restart_ice_def sample_parsed)

end
