(* ===== verification/Peer_Connection.thy ===== *)
theory Peer_Connection
  imports Go_Prelude
begin

text \<open>
  The parts of \<open>internal/peer/peer.go\<close> that are the server's own: what a change of the
  connection's state does, which Opus layout an offer asks for, which ICE servers a peer is
  given, the summary of an offer's media lines. The closing of a peer is modelled with the
  sessions (theory \<open>Session_Manager\<close>), the restart in \<open>ICE_Restart\<close>; the WebRTC
  stack itself is not modelled.
\<close>

section \<open>Connection states\<close>

datatype conn_state =
    St_unknown | St_new | St_connecting | St_connected | St_disconnected | St_failed | St_closed

definition is_terminal_state :: "conn_state \<Rightarrow> bool" where
  "is_terminal_state st \<longleftrightarrow> st = St_failed \<or> st = St_closed"

text \<open>The link's flag, the \<open>connection\<close> events it asked to send, in order, and whether
  it has asked for the peer to be closed.\<close>

record link =
  ln_disconnected :: bool
  ln_events :: "str list"
  ln_close :: bool

definition new_link :: link where
  "new_link = \<lparr>ln_disconnected = False, ln_events = [], ln_close = False\<rparr>"

definition mark_disconnected :: "link \<Rightarrow> link" where
  "mark_disconnected l = l\<lparr>ln_disconnected := True\<rparr>"

definition clear_disconnected :: "link \<Rightarrow> link \<times> bool" where
  "clear_disconnected l = (l\<lparr>ln_disconnected := False\<rparr>, ln_disconnected l)"

definition announce :: "str \<Rightarrow> link \<Rightarrow> link" where
  "announce st l = l\<lparr>ln_events := ln_events l @ [st]\<rparr>"

definition on_connection_state :: "conn_state \<Rightarrow> link \<Rightarrow> link" where
  "on_connection_state st l =
     (if st = St_disconnected then announce ''reconnecting'' (mark_disconnected l)
      else if st = St_connected then
        (case clear_disconnected l of
           (l', was) \<Rightarrow> if was then announce ''connected'' l' else l')
      else if is_terminal_state st then l\<lparr>ln_close := True\<rparr> else l)"

text \<open>
  The announcements make sense to a listener: \<open>connected\<close> only ever follows a
  \<open>reconnecting\<close>, and the flag is set exactly while \<open>reconnecting\<close> is the last word.
\<close>

definition link_ok :: "link \<Rightarrow> bool" where
  "link_ok l \<longleftrightarrow>
     (ln_disconnected l \<longleftrightarrow> ln_events l \<noteq> [] \<and> last (ln_events l) = ''reconnecting'') \<and>
     (\<forall>xs ys. ln_events l = xs @ ''connected'' # ys \<longrightarrow> xs \<noteq> [] \<and> last xs = ''reconnecting'')"

lemma new_link_ok: "link_ok new_link"
  by (simp add: link_ok_def new_link_def)

lemma announce_ok:
  assumes "link_ok l" and "st = ''reconnecting'' \<and> d \<or> st = ''connected'' \<and> \<not> d \<and> ln_disconnected l"
  shows "link_ok (announce st (l\<lparr>ln_disconnected := d\<rparr>))"
  using assms
  by (auto simp: link_ok_def announce_def append_eq_append_conv2 append_eq_Cons_conv Cons_eq_append_conv)

lemma connection_state_ok: "link_ok l \<Longrightarrow> link_ok (on_connection_state st l)"
  using announce_ok [of l "''reconnecting''" True] announce_ok [of l "''connected''" False]
  by (auto simp: on_connection_state_def mark_disconnected_def clear_disconnected_def)
    (simp_all add: link_ok_def)

interpretation links: guarded_machine "\<lambda>l st. on_connection_state st l" link_ok
  by unfold_locales (rule connection_state_ok)

section \<open>Opus layout\<close>

text \<open>
  The regular expression \<open>(?i)a=rtpmap:\d+\s+opus/48000/(\d+)\<close>. The digits and the blanks
  are disjoint classes, so the leftmost match is found by one pass from each position; Go's
  \<open>\s\<close> is tab, newline, form feed, carriage return and space.
\<close>

definition is_re_space :: "char \<Rightarrow> bool" where
  "is_re_space c \<longleftrightarrow> of_char c \<in> {9, 10, 12, 13, 32 :: nat}"

definition prefix_fold :: "str \<Rightarrow> str \<Rightarrow> str option" where
  "prefix_fold p s = (if to_lower (take (length p) s) = p then Some (drop (length p) s) else None)"

definition some_of :: "(char \<Rightarrow> bool) \<Rightarrow> str \<Rightarrow> (str \<times> str) option" where
  "some_of q s = (if takeWhile q s = [] then None else Some (takeWhile q s, dropWhile q s))"

definition match_rtpmap :: "str \<Rightarrow> (str \<times> str) option" where
  "match_rtpmap s =
     do { s1 \<leftarrow> prefix_fold ''a=rtpmap:'' s;
          (_, s2) \<leftarrow> some_of is_digit s1;
          (_, s3) \<leftarrow> some_of is_re_space s2;
          s4 \<leftarrow> prefix_fold ''opus/48000/'' s3;
          some_of is_digit s4 }"

lemma some_of_shorter: "some_of q s = Some (x, r) \<Longrightarrow> length r \<le> length s"
  by (auto simp: some_of_def length_dropWhile_le split: if_splits)

lemma prefix_fold_shorter: "prefix_fold p s = Some r \<Longrightarrow> length r \<le> length s"
  by (auto simp: prefix_fold_def split: if_splits)

lemma match_rtpmap_shorter: "match_rtpmap s = Some (x, r) \<Longrightarrow> length r \<le> length s"
  by (auto simp: match_rtpmap_def bind_eq_Some_conv
      dest!: some_of_shorter prefix_fold_shorter split: prod.splits)

function find_rtpmaps :: "str \<Rightarrow> str list" where
  "find_rtpmaps [] = []"
| "find_rtpmaps (c # s) =
     (case match_rtpmap (c # s) of
        None \<Rightarrow> find_rtpmaps s
      | Some (m, rest) \<Rightarrow> m # (if length rest \<le> length s then find_rtpmaps rest else find_rtpmaps s))"
  by pat_completeness auto
termination by (relation "measure length") auto

fun pick_channels :: "bool \<Rightarrow> str list \<Rightarrow> 16 word" where
  "pick_channels saw_one [] = (if saw_one then 1 else 2)"
| "pick_channels saw_one (m # ms) =
     (if m = ''2'' then 2 else if m = ''1'' then pick_channels True ms else pick_channels saw_one ms)"

definition detect_opus_channels :: "str \<Rightarrow> 16 word" where
  "detect_opus_channels sdp =
     (let ms = find_rtpmaps sdp in if ms = [] then 2 else pick_channels False ms)"

lemma pick_channels_spec:
  "pick_channels b ms =
     (if ''2'' \<in> set ms then 2 else if b \<or> ''1'' \<in> set ms then 1 else 2)"
  by (induction ms arbitrary: b) auto

section \<open>ICE servers and the summary of an offer\<close>

record ice_server =
  is_urls :: "str list"
  is_username :: str
  is_credential :: str

definition ice_servers :: "str \<Rightarrow> str \<Rightarrow> ice_server list" where
  "ice_servers public_ip secret =
     (if public_ip \<noteq> [] \<and> secret \<noteq> [] then
        [\<lparr>is_urls = [''stun:'' @ public_ip @ '':3478''], is_username = [], is_credential = []\<rparr>,
         \<lparr>is_urls = [''turn:'' @ public_ip @ '':3478''], is_username = ''voiceagent'',
           is_credential = secret\<rparr>]
      else [\<lparr>is_urls = [''stun:stun.l.google.com:19302''], is_username = [], is_credential = []\<rparr>])"

definition is_direction :: "str \<Rightarrow> bool" where
  "is_direction line \<longleftrightarrow> has_prefix ''a=sendrecv'' line \<or> has_prefix ''a=sendonly'' line \<or>
     has_prefix ''a=recvonly'' line \<or> has_prefix ''a=inactive'' line"

fun summary_parts :: "str \<Rightarrow> str list \<Rightarrow> str list" where
  "summary_parts cur [] = (if cur \<noteq> [] then [cur] else [])"
| "summary_parts cur (raw # ls) =
     (let line = trim_right (\<lambda>c. c = CHR 0x0D) raw in
      if has_prefix ''m='' line then
        (if cur \<noteq> [] then [cur] else []) @ summary_parts line ls
      else if cur \<noteq> [] \<and> is_direction line then
        summary_parts (cur @ '' ['' @ trim_prefix ''a='' line @ '']'') ls
      else summary_parts cur ls)"

definition summarize_m_lines :: "str \<Rightarrow> str" where
  "summarize_m_lines sdp = join '' | '' (summary_parts [] (split_on CHR 0x0A sdp))"

lemma summary_parts_count:
  "length (summary_parts cur ls) = (if cur = [] then 0 else 1) +
     length (filter (\<lambda>l. has_prefix ''m='' (trim_right (\<lambda>c. c = CHR 0x0D) l)) ls)"
  by (induction cur ls rule: summary_parts.induct) (auto simp: Let_def)

section \<open>Properties\<close>

text \<open>Whatever states the connection goes through, a client is told \<open>connected\<close> only as
  the announcement right after a \<open>reconnecting\<close>, the peer remembers being disconnected
  exactly while \<open>reconnecting\<close> is the last word, and only a terminal state closes it.\<close>

theorem recovery_is_announced_once:
  assumes "l = fold on_connection_state sts new_link"
  shows "(\<forall>xs ys. ln_events l = xs @ ''connected'' # ys \<longrightarrow> xs \<noteq> [] \<and> last xs = ''reconnecting'') \<and>
    (ln_disconnected l \<longleftrightarrow> ln_events l \<noteq> [] \<and> last (ln_events l) = ''reconnecting'') \<and>
    (ln_close l \<longleftrightarrow> list_ex is_terminal_state sts)"
proof -
  have "ln_close (fold on_connection_state sts h) \<longleftrightarrow> ln_close h \<or> list_ex is_terminal_state sts" for h
    by (induction sts arbitrary: h)
      (auto simp: on_connection_state_def announce_def mark_disconnected_def clear_disconnected_def
        is_terminal_state_def)
  moreover have "\<not> ln_close new_link" by (simp add: new_link_def)
  ultimately show ?thesis
    using links.run_invar [OF new_link_ok, of sts] assms unfolding link_ok_def by simp
qed

theorem recovery_is_announced_once_witness:
  "ln_disconnected (fold on_connection_state
     [St_connecting, St_connected, St_disconnected, St_connected, St_disconnected] new_link)"
  using recovery_is_announced_once [OF refl, of
      "[St_connecting, St_connected, St_disconnected, St_connected, St_disconnected]"]
  by (simp add: on_connection_state_def announce_def mark_disconnected_def clear_disconnected_def
      is_terminal_state_def new_link_def)

end
