(* ===== verification/Signaling.thy ===== *)
theory Signaling
  imports Rate_Limiter Session_Manager ICE_Restart Peer_Connection
begin

text \<open>
  The WHIP endpoint: \<open>internal/signaling/handler.go\<close> and \<open>identity.go\<close>. One request is a
  function from the server's state and the request to the new state and the response, with
  every call it makes to the limiter, the manager and the peer taken from their theories.

  What the handler takes from outside is the record \<open>env\<close>: the clock, two fresh UUIDs,
  random bytes, and the outcomes of the WebRTC stack's calls. A header that is not set is
  the empty string, as \<open>http.Header.Get\<close> reads it.
\<close>

section \<open>Requests and responses\<close>

datatype http_method = GET | OPTIONS | POST | PATCH | DELETE | OTHER_METHOD

record request =
  rq_method :: http_method
  rq_path :: str
  rq_header :: "str \<Rightarrow> str"
  rq_query :: "str \<Rightarrow> str"
  rq_remote :: str
  rq_body :: "str option"
  rq_claim :: str

record response =
  rs_status :: nat
  rs_header :: "str \<Rightarrow> str"
  rs_body :: str

definition no_headers :: "str \<Rightarrow> str" where
  "no_headers = (\<lambda>_. [])"

text \<open>\<open>http.Error\<close> on a response whose headers so far are \<open>h\<close>.\<close>

definition http_error :: "nat \<Rightarrow> str \<Rightarrow> (str \<Rightarrow> str) \<Rightarrow> response" where
  "http_error status msg h =
     \<lparr> rs_status = status,
       rs_header = h(''Content-Type'' := ''text/plain; charset=utf-8'',
         ''X-Content-Type-Options'' := ''nosniff''),
       rs_body = msg @ [CHR 0x0A] \<rparr>"

record env =
  en_now :: instant
  en_uuid :: str
  en_etag_uuid :: str
  en_random :: "nat list option"
  en_built :: bool
  en_negotiate :: "16 word \<Rightarrow> str \<Rightarrow> str option"
  en_accepts :: "str \<Rightarrow> transport \<Rightarrow> bool"
  en_create_answer :: "transport \<Rightarrow> str option"
  en_set_local :: "str \<Rightarrow> transport \<Rightarrow> str option"

record peer_options =
  opt_direction :: str
  opt_aec_absent :: bool

record server =
  sv_mgr :: manager
  sv_limiter :: limiter
  sv_restarts :: limiter
  sv_transports :: "addr \<Rightarrow> transport"
  sv_options :: "addr \<Rightarrow> peer_options"

section \<open>Constants and helpers\<close>

definition default_whip_rate_limit :: int where
  "default_whip_rate_limit = 30"

definition default_restart_rate_limit :: int where
  "default_restart_rate_limit = 60"

definition max_ice_fragment_bytes :: nat where
  "max_ice_fragment_bytes = 64 * 1024"

definition at_capacity_retry_after_s :: int where
  "at_capacity_retry_after_s = 10"

definition ice_fragment_content_type :: str where
  "ice_fragment_content_type = ''application/trickle-ice-sdpfrag''"

definition new_server :: "int \<Rightarrow> int \<Rightarrow> bool \<Rightarrow> server" where
  "new_server max_sessions grace_ms realtime =
     \<lparr> sv_mgr = new_manager max_sessions grace_ms realtime,
       sv_limiter = new_limiter default_whip_rate_limit (60 * second),
       sv_restarts = new_limiter default_restart_rate_limit (60 * second),
       sv_transports = (\<lambda>_. \<lparr>tr_closed = False, tr_remote = None, tr_local = []\<rparr>),
       sv_options = (\<lambda>_. \<lparr>opt_direction = [], opt_aec_absent = False\<rparr>) \<rparr>"

text \<open>\<open>base64.RawURLEncoding\<close>, on bytes below 256.\<close>

definition base64url_alphabet :: str where
  "base64url_alphabet = ''ABCDEFGHIJKLMNOPQRSTUVWXYZabcdefghijklmnopqrstuvwxyz0123456789-_''"

definition b64 :: "nat \<Rightarrow> char" where
  "b64 n = base64url_alphabet ! (n mod 64)"

fun base64url :: "nat list \<Rightarrow> str" where
  "base64url [] = []"
| "base64url [a] = [b64 (a div 4), b64 (a mod 4 * 16)]"
| "base64url [a, b] = [b64 (a div 4), b64 (a mod 4 * 16 + b div 16), b64 (b mod 16 * 4)]"
| "base64url (a # b # c # r) =
     b64 (a div 4) # b64 (a mod 4 * 16 + b div 16) # b64 (b mod 16 * 4 + c div 64) # b64 (c mod 64) #
     base64url r"

text \<open>The token is made of 32 random bytes; the source can fail.\<close>

definition new_resume_token :: "nat list option \<Rightarrow> str option" where
  "new_resume_token random = map_option (\<lambda>bytes. base64url (take 32 bytes)) random"

definition peer_options_from :: "request \<Rightarrow> peer_options" where
  "peer_options_from r =
     \<lparr> opt_direction = rq_query r ''direction'', opt_aec_absent = (rq_query r ''aec'' = ''none'') \<rparr>"

definition with_resource_id :: "str \<Rightarrow> request \<Rightarrow> request" where
  "with_resource_id rid r = (if rid = [] then r else r\<lparr>rq_claim := rid\<rparr>)"

definition resolve_resource_id :: "request \<Rightarrow> str" where
  "resolve_resource_id r =
     (if rq_claim r \<noteq> [] then rq_claim r else rq_header r ''X-StreamCore-Resource-Id'')"

section \<open>POST: a new call, or a resumed one\<close>

text \<open>\<open>HandleOffer\<close>: the track gets the layout the offer asks for, then the stack negotiates.\<close>

definition handle_offer :: "env \<Rightarrow> str \<Rightarrow> transport option" where
  "handle_offer e offer =
     (case en_negotiate e (detect_opus_channels offer) offer of
        None \<Rightarrow> None
      | Some answer \<Rightarrow> Some \<lparr>tr_closed = False, tr_remote = Some offer, tr_local = answer\<rparr>)"

text \<open>The session a POST is for, its resume status, and the manager after finding it.\<close>

definition post_session :: "env \<Rightarrow> request \<Rightarrow> manager \<Rightarrow> manager \<times> addr option \<times> str" where
  "post_session e r m =
     (let token = rq_query r ''resume'' in
      case (if token \<noteq> [] then resume (en_now e) m token else (m, None)) of
        (m1, Some a) \<Rightarrow> (upd_session a (rotate_etag (en_etag_uuid e)) m1, Some a, ''resumed'')
      | (m1, None) \<Rightarrow>
          (case get_or_create (en_uuid e) (en_now e) m1 of
             (m2, found) \<Rightarrow> (m2, found, if token \<noteq> [] then ''expired'' else ''new'')))"

definition created_headers :: "str \<Rightarrow> str \<Rightarrow> str \<Rightarrow> str \<Rightarrow> str \<Rightarrow> str" where
  "created_headers sid etag status token =
     (let h = no_headers(''Content-Type'' := ''application/sdp'', ''Location'' := ''/whip/'' @ sid,
            ''ETag'' := etag, ''Accept-Patch'' := ice_fragment_content_type, ''X-Resume-Status'' := status)
      in if token \<noteq> [] then h(''X-Resume-Token'' := token) else h)"

text \<open>From the session on: identity, peer, offer, token.\<close>

definition post_call :: "env \<Rightarrow> request \<Rightarrow> str \<Rightarrow> addr \<Rightarrow> str \<Rightarrow> server \<Rightarrow> server \<times> response" where
  "post_call e r offer a status s =
     (let m = upd_session a (set_resource_id (resolve_resource_id r)) (sv_mgr s);
          sid = ss_id (the_session m a)
      in case add_peer a sid (en_built e) m of
           (m1, None) \<Rightarrow> (s\<lparr>sv_mgr := m1\<rparr>, http_error 500 ''failed to create peer'' no_headers)
         | (m1, Some (p, _)) \<Rightarrow>
             let s1 = s\<lparr>sv_options := (sv_options s)(p := peer_options_from r)\<rparr> in
             (case handle_offer e offer of
                None \<Rightarrow> (s1\<lparr>sv_mgr := close_peer (en_now e) p m1\<rparr>,
                  http_error 500 ''failed to handle offer'' no_headers)
              | Some t \<Rightarrow>
                  let etag = ss_etag (the_session m1 a) in
                  (case issue_resume_token a (new_resume_token (en_random e)) m1 of
                     (m2, token) \<Rightarrow>
                       (s1\<lparr>sv_mgr := m2, sv_transports := (sv_transports s1)(p := t)\<rparr>,
                        \<lparr> rs_status = 201, rs_header = created_headers sid etag status token,
                          rs_body = tr_local t \<rparr>))))"

definition handle_whip_post :: "env \<Rightarrow> request \<Rightarrow> server \<Rightarrow> server \<times> response" where
  "handle_whip_post e r s =
     (let ct = rq_header r ''Content-Type'' in
      if ct \<noteq> [] \<and> \<not> has_prefix ''application/sdp'' ct
      then (s, http_error 415 ''Content-Type must be application/sdp'' no_headers)
      else case rq_body r of
        None \<Rightarrow> (s, http_error 400 ''failed to read offer'' no_headers)
      | Some offer \<Rightarrow>
          if offer = [] then (s, http_error 400 ''empty SDP offer'' no_headers)
          else case post_session e r (sv_mgr s) of
            (m, None, _) \<Rightarrow>
              (s\<lparr>sv_mgr := m\<rparr>,
               http_error 503 ''server is at session capacity''
                 (no_headers(''Retry-After'' := itoa at_capacity_retry_after_s)))
          | (m, Some a, status) \<Rightarrow> post_call e r offer a status (s\<lparr>sv_mgr := m\<rparr>))"

section \<open>PATCH: an ICE restart\<close>

definition live_transport :: "server \<Rightarrow> addr \<Rightarrow> transport" where
  "live_transport s p = (sv_transports s p)\<lparr>tr_closed := po_closed (mg_peers (sv_mgr s) ! p)\<rparr>"

definition patch_headers :: "str \<Rightarrow> str" where
  "patch_headers = no_headers(''Accept-Patch'' := ice_fragment_content_type)"

definition handle_whip_patch :: "env \<Rightarrow> request \<Rightarrow> str \<Rightarrow> server \<Rightarrow> server \<times> response" where
  "handle_whip_patch e r sid s =
     (if \<not> has_prefix ice_fragment_content_type (rq_header r ''Content-Type'')
      then (s, http_error 415 (''Content-Type must be '' @ ice_fragment_content_type) patch_headers)
      else case get_session (sv_mgr s) sid of
        None \<Rightarrow> (s, http_error 404 ''unknown session'' no_headers)
      | Some a \<Rightarrow>
          let match = rq_header r ''If-Match''; etag = ss_etag (the_session (sv_mgr s) a) in
          if match \<noteq> [] \<and> match \<noteq> ''*'' \<and> match \<noteq> etag
          then (s, http_error 412 ''ETag does not match the current ICE session''
                 (no_headers(''ETag'' := etag)))
          else case get_peer (sv_mgr s) a sid of
            None \<Rightarrow> (s, http_error 404 ''session has no peer'' no_headers)
          | Some p \<Rightarrow>
              (case rq_body r of
                 None \<Rightarrow> (s, http_error 400 ''failed to read ICE fragment'' no_headers)
               | Some body \<Rightarrow>
                   (case restart_ice (en_accepts e) (en_create_answer e) (en_set_local e)
                      (live_transport s p) (take max_ice_fragment_bytes body) of
                      (t, result) \<Rightarrow>
                        let s1 = s\<lparr>sv_transports := (sv_transports s)(p := t)\<rparr> in
                        (case result of
                           Inl No_ICE_credentials \<Rightarrow>
                             (s1, http_error 405
                               ''trickle ICE is not supported; send an ICE restart fragment'' patch_headers)
                         | Inl Peer_closed \<Rightarrow> (s1, http_error 409 ''session is not restartable'' no_headers)
                         | Inl No_remote_description \<Rightarrow>
                             (s1, http_error 409 ''session is not restartable'' no_headers)
                         | Inl _ \<Rightarrow> (s1, http_error 500 ''failed to restart ICE'' no_headers)
                         | Inr fragment \<Rightarrow>
                             let m = upd_session a (rotate_etag (en_etag_uuid e)) (sv_mgr s1) in
                             (s1\<lparr>sv_mgr := m\<rparr>,
                              \<lparr> rs_status = 200,
                                rs_header = no_headers(''Content-Type'' := ice_fragment_content_type,
                                  ''ETag'' := ss_etag (the_session m a)),
                                rs_body = fragment \<rparr>)))))"

section \<open>DELETE and the handler\<close>

definition handle_whip_delete :: "env \<Rightarrow> str \<Rightarrow> server \<Rightarrow> server \<times> response" where
  "handle_whip_delete e sid s =
     (s\<lparr>sv_mgr := remove_session sid (en_now e) (sv_mgr s)\<rparr>,
      \<lparr>rs_status = 200, rs_header = no_headers, rs_body = []\<rparr>)"

definition url_required :: response where
  "url_required = http_error 400 ''session URL required: /whip/{sessionId}'' no_headers"

definition whip_handler :: "env \<Rightarrow> request \<Rightarrow> server \<Rightarrow> server \<times> response" where
  "whip_handler e r s =
     (let sid = trim_prefix ''/'' (trim_prefix ''/whip'' (rq_path r));
          client = client_ip (rq_header r) (rq_remote r)
      in case rq_method r of
           OPTIONS \<Rightarrow>
             (s, \<lparr> rs_status = 204,
                   rs_header = no_headers(''Accept-Post'' := ''application/sdp'',
                     ''Accept-Patch'' := ice_fragment_content_type),
                   rs_body = [] \<rparr>)
         | POST \<Rightarrow>
             (case allow (sv_limiter s) (en_now e) client of
                (l, ok, retry) \<Rightarrow>
                  if \<not> ok then (s\<lparr>sv_limiter := l\<rparr>,
                    http_error 429 ''too many session requests'' (no_headers(''Retry-After'' := itoa retry)))
                  else handle_whip_post e r (s\<lparr>sv_limiter := l\<rparr>))
         | PATCH \<Rightarrow>
             if sid = [] then (s, url_required)
             else (case allow (sv_restarts s) (en_now e) client of
                (l, ok, retry) \<Rightarrow>
                  if \<not> ok then (s\<lparr>sv_restarts := l\<rparr>,
                    http_error 429 ''too many ICE restart requests'' (no_headers(''Retry-After'' := itoa retry)))
                  else handle_whip_patch e r sid (s\<lparr>sv_restarts := l\<rparr>))
         | DELETE \<Rightarrow>
             if sid = [] then (s, url_required) else handle_whip_delete e sid s
         | _ \<Rightarrow> (s, http_error 405 ''method not allowed'' no_headers))"

section \<open>The invariant of the server\<close>

definition env_ok :: "env \<Rightarrow> bool" where
  "env_ok e \<longleftrightarrow> en_random e \<noteq> Some []"

lemma base64url_nonempty: "bs \<noteq> [] \<Longrightarrow> base64url bs \<noteq> []"
  by (cases bs rule: base64url.cases) auto

lemma new_token_nonempty: "env_ok e \<Longrightarrow> new_resume_token (en_random e) \<noteq> Some []"
  by (auto simp: env_ok_def new_resume_token_def base64url_nonempty)

lemma listed_in:
  "call_ok m \<Longrightarrow> get_session m sid = Some a \<Longrightarrow> listed m a \<and> ss_id (the_session m a) = sid \<and> a < length (mg_store m)"
  using listed_mem [OF call_okD] sessions_okD(2) [OF manager_okD(1) [OF call_okD]]
  by (fastforce simp: listed_def)

lemma listed_get: "call_ok m \<Longrightarrow> listed m a \<Longrightarrow> get_session m (ss_id (the_session m a)) = Some a"
  using session_lookup [OF manager_okD(1) [OF call_okD]] by (simp add: listed_def get_session_def)

lemma create_found: "get_or_create sid now m = (m', Some a) \<Longrightarrow> get_session m' sid = Some a"
  by (auto simp: get_or_create_def get_session_def Let_def update_conv' split: option.splits if_splits)

lemma post_session_ok:
  assumes "call_ok m" and "post_session e r m = (m', found, status)"
  shows "call_ok m'" and "found = Some a \<Longrightarrow> listed m' a \<and> a < length (mg_store m')"
proof -
  let ?t = "rq_query r ''resume''"
  obtain m1 x where res: "(if ?t \<noteq> [] then resume (en_now e) m ?t else (m, None)) = (m1, x)"
    by fastforce
  have ok1: "call_ok m1" using res assms(1) resume_alive [OF assms(1)] by (auto split: if_splits)
  show "call_ok m'"
  proof (cases x)
    case None
    with assms(2) res create_alive [OF ok1] show ?thesis
      by (auto simp: post_session_def Let_def split: prod.splits)
  next
    case (Some b)
    have "call_ok (upd_session b (rotate_etag (en_etag_uuid e)) m1)"
      using rotate_etag_ok [OF call_okD [OF ok1]] by (intro upd_alive ok1) (simp_all add: rotate_etag_def)
    with Some assms(2) res show ?thesis by (simp add: post_session_def)
  qed
  show "listed m' a \<and> a < length (mg_store m')" if "found = Some a"
  proof (cases x)
    case None
    with assms(2) res that have "get_or_create (en_uuid e) (en_now e) m1 = (m', Some a)"
      by (auto simp: post_session_def Let_def split: prod.splits)
    from listed_in [OF \<open>call_ok m'\<close> create_found [OF this]] show ?thesis by blast
  next
    case (Some b)
    with assms(2) res that have eq: "m' = upd_session b (rotate_etag (en_etag_uuid e)) m1" "b = a"
      by (auto simp: post_session_def)
    from Some res have "resume (en_now e) m ?t = (m1, Some b)" by (auto split: if_splits)
    note eff = resume_effect [OF call_okD [OF assms(1)] this]
    have "length (mg_store m1) = length (mg_store m)"
      using \<open>resume (en_now e) m ?t = (m1, Some b)\<close> by (auto simp: resume_def split: if_splits option.splits)
    then show ?thesis using eff eq by (auto simp: listed_def rotate_etag_def)
  qed
qed

lemma set_resource_alive: "call_ok m \<Longrightarrow> call_ok (upd_session a (set_resource_id i) m)"
  using set_resource_ok [OF call_okD]
  by (intro upd_alive) (auto simp: set_resource_id_def split: if_splits)

lemma rotate_etag_alive: "call_ok m \<Longrightarrow> call_ok (upd_session a (rotate_etag u) m)"
  using rotate_etag_ok [OF call_okD] by (intro upd_alive) (auto simp: rotate_etag_def)

lemma add_peer_frame:
  assumes "add_peer a pid built m = (m', Some (p, old))" and "a < length (mg_store m)"
  shows "p = length (mg_peers m)" and "length (mg_peers m') = Suc p"
    and "mg_peers m' ! p = \<lparr>po_id = pid, po_session = a, po_closed = False\<rparr>"
    and "the_session m' a = add_to_peers pid p (the_session m a)"
    and "mg_sessions m' = mg_sessions m" and "length (mg_store m') = length (mg_store m)"
    and "mg_resumable m' = mg_resumable m"
  using assms by (auto simp: add_peer_def Let_def split: if_splits)

lemma set_resource_id_simps [simp]:
  "ss_id (set_resource_id i s) = ss_id s" "ss_etag (set_resource_id i s) = ss_etag s"
  "ss_peers (set_resource_id i s) = ss_peers s" "ss_token (set_resource_id i s) = ss_token s"
  by (simp_all add: set_resource_id_def)

lemma add_to_peers_simps [simp]:
  "ss_id (add_to_peers pid p s) = ss_id s" "ss_etag (add_to_peers pid p s) = ss_etag s"
  "ss_peers (add_to_peers pid p s) = AList.update pid p (ss_peers s)"
  by (simp_all add: add_to_peers_def)

lemma issue_call_ok:
  assumes "call_ok m" and "listed m a" and "a < length (mg_store m)" and "random \<noteq> Some []"
    and "issue_resume_token a random m = (m', t)"
  shows "call_ok m'"
proof (cases random)
  case None
  with assms(1,5) show ?thesis
    by (auto simp: issue_resume_token_def rotate_resume_token_def split: if_splits)
next
  case (Some u)
  with assms issue_alive [OF assms(1,3,2), of u m' t] show ?thesis by auto
qed

lemma post_call_ok:
  assumes "call_ok (sv_mgr s)" and "listed (sv_mgr s) a" and "a < length (mg_store (sv_mgr s))"
    and "env_ok e"
  shows "call_ok (sv_mgr (fst (post_call e r offer a status s)))"
proof -
  let ?m = "upd_session a (set_resource_id (resolve_resource_id r)) (sv_mgr s)"
  let ?sid = "ss_id (the_session ?m a)"
  have ok: "call_ok ?m" using set_resource_alive [OF assms(1)] .
  show ?thesis
  proof (cases "add_peer a ?sid (en_built e) ?m")
    case (Pair m1 x)
    have ok1: "call_ok m1" using add_peer_alive [OF ok _ Pair] assms(3) by simp
    show ?thesis
    proof (cases x)
      case None
      with Pair ok1 show ?thesis by (simp add: post_call_def Let_def)
    next
      case (Some y)
      obtain p old where y: "y = (p, old)" by fastforce
      note fr = add_peer_frame [OF Pair [unfolded Some y]]
      have a: "a < length (mg_store ?m)" using assms(3) by simp
      have "listed m1 a" using assms(2) fr(4,5) [OF a] assms(3) by (simp add: listed_def)
      moreover have "a < length (mg_store m1)" using fr(6) [OF a] assms(3) by simp
      moreover obtain m2 tok where m2: "issue_resume_token a (new_resume_token (en_random e)) m1 = (m2, tok)"
        by fastforce
      ultimately have "call_ok m2"
        using issue_call_ok [OF ok1 _ _ new_token_nonempty [OF assms(4)]] by blast
      moreover have "call_ok (close_peer (en_now e) p m1)"
        using close_peer_alive [OF ok1, of p] fr(2) [OF a] by simp
      ultimately show ?thesis
        using Pair Some y m2 by (simp add: post_call_def Let_def split: option.split)
    qed
  qed
qed

lemma handle_post_ok:
  assumes "call_ok (sv_mgr s)" and "env_ok e"
  shows "call_ok (sv_mgr (fst (handle_whip_post e r s)))"
proof -
  obtain m x st where ps: "post_session e r (sv_mgr s) = (m, x, st)" by (metis prod_cases3)
  note pk = post_session_ok [OF assms(1) ps]
  show ?thesis
  proof (cases x)
    case None
    with ps pk(1) assms(1) show ?thesis
      by (auto simp: handle_whip_post_def Let_def split: option.split)
  next
    case (Some a)
    from post_call_ok [of "s\<lparr>sv_mgr := m\<rparr>" a e] pk(1) pk(2) [OF Some] assms(2) Some ps assms(1)
    show ?thesis by (auto simp: handle_whip_post_def Let_def split: option.split)
  qed
qed

lemma handle_patch_ok:
  "call_ok (sv_mgr s) \<Longrightarrow> call_ok (sv_mgr (fst (handle_whip_patch e r sid s)))"
  by (simp add: handle_whip_patch_def Let_def rotate_etag_alive
      split: option.split prod.split sum.split restart_error.split)

definition server_ok :: "server \<Rightarrow> bool" where
  "server_ok s \<longleftrightarrow> call_ok (sv_mgr s) \<and> limiter_ok (sv_limiter s) \<and> limiter_ok (sv_restarts s)"

lemma new_server_ok: "server_ok (new_server cap grace_ms realtime)"
  by (simp add: server_ok_def new_server_def new_call_ok new_limiter_ok)

lemma handlers_keep_limiters:
  "sv_limiter (fst (handle_whip_post e r s)) = sv_limiter s"
  "sv_restarts (fst (handle_whip_post e r s)) = sv_restarts s"
  "sv_limiter (fst (handle_whip_patch e r sid s)) = sv_limiter s"
  "sv_restarts (fst (handle_whip_patch e r sid s)) = sv_restarts s"
  by (simp_all add: handle_whip_post_def post_call_def handle_whip_patch_def Let_def
      split: option.split prod.split sum.split restart_error.split)

lemma whip_handler_ok:
  assumes "server_ok s" and "env_ok e"
  shows "server_ok (fst (whip_handler e r s))"
proof -
  let ?c = "client_ip (rq_header r) (rq_remote r)"
  obtain l ok n where al: "allow (sv_limiter s) (en_now e) ?c = (l, ok, n)" by (metis prod_cases3)
  obtain l' ok' n' where al': "allow (sv_restarts s) (en_now e) ?c = (l', ok', n')" by (metis prod_cases3)
  from assms(1) have "limiter_ok l" "limiter_ok l'"
    using allow_ok [OF _ al] allow_ok [OF _ al'] by (auto simp: server_ok_def)
  with assms al al' show ?thesis
    using handle_post_ok [of "s\<lparr>sv_limiter := l\<rparr>" e r] handle_patch_ok [of "s\<lparr>sv_restarts := l'\<rparr>" e r]
      remove_alive [of "sv_mgr s"]
    by (cases "rq_method r")
      (simp_all add: whip_handler_def Let_def server_ok_def handlers_keep_limiters handle_whip_delete_def)
qed

text \<open>
  The server between requests: transports fail and finish closing, the reaper sweeps. Events
  other than requests are the manager's own operations.
\<close>

datatype server_event =
    Request env request
  | Background op

fun server_step :: "server \<Rightarrow> server_event \<Rightarrow> server" where
  "server_step s (Request e r) = (if env_ok e then fst (whip_handler e r s) else s)"
| "server_step s (Background b) = s\<lparr>sv_mgr := op_step (sv_mgr s) b\<rparr>"

lemma server_step_ok: "server_ok s \<Longrightarrow> server_ok (server_step s ev)"
  by (cases ev) (auto simp: whip_handler_ok, auto simp: server_ok_def op_step_call_ok)

interpretation server: guarded_machine server_step server_ok
  by unfold_locales (rule server_step_ok)

section \<open>Properties\<close>

text \<open>An offer the handler gets as far as looking for a session with.\<close>

definition proper_offer :: "request \<Rightarrow> bool" where
  "proper_offer r \<longleftrightarrow>
     (rq_header r ''Content-Type'' = [] \<or> has_prefix ''application/sdp'' (rq_header r ''Content-Type'')) \<and>
     rq_body r \<noteq> None \<and> rq_body r \<noteq> Some []"

lemma post_call_status: "rs_status (snd (post_call e r offer a st s)) \<in> {201, 500}"
  by (auto simp: post_call_def Let_def http_error_def split: option.split prod.split)

lemma handle_post_proper:
  assumes "proper_offer r" and "rq_body r = Some offer" and "post_session e r (sv_mgr s) = (m, x, st)"
  shows "handle_whip_post e r s = (case x of
      None \<Rightarrow> (s\<lparr>sv_mgr := m\<rparr>, http_error 503 ''server is at session capacity''
        (no_headers(''Retry-After'' := itoa at_capacity_retry_after_s)))
    | Some a \<Rightarrow> post_call e r offer a st (s\<lparr>sv_mgr := m\<rparr>))"
  using assms by (auto simp: handle_whip_post_def proper_offer_def Let_def split: option.split)

lemma handle_post_improper:
  assumes "\<not> proper_offer r"
  shows "fst (handle_whip_post e r s) = s \<and> rs_status (snd (handle_whip_post e r s)) \<in> {400, 415}"
  using assms by (auto simp: handle_whip_post_def proper_offer_def Let_def http_error_def split: option.split)

text \<open>A POST is refused for capacity exactly when its offer is proper, its resume token does
  not resolve (or there is none) and the server already holds \<open>max_sessions\<close> sessions; a
  caller who can resume is never refused for capacity.\<close>

theorem post_refused_exactly_at_capacity:
  assumes "server_ok s" and "get_session (sv_mgr s) (en_uuid e) = None"
  shows "rs_status (snd (handle_whip_post e r s)) = 503 \<longleftrightarrow>
    proper_offer r \<and> snd (resume (en_now e) (sv_mgr s) (rq_query r ''resume'')) = None \<and>
    0 < mg_max (sv_mgr s) \<and> mg_max (sv_mgr s) \<le> int (length (mg_sessions (sv_mgr s)))"
proof (cases "proper_offer r")
  case False
  with handle_post_improper [OF False, of e s] show ?thesis by auto
next
  case True
  then obtain offer where offer: "rq_body r = Some offer" by (auto simp: proper_offer_def)
  obtain m x st where ps: "post_session e r (sv_mgr s) = (m, x, st)" by (metis prod_cases3)
  obtain m1 y where res: "resume (en_now e) (sv_mgr s) (rq_query r ''resume'') = (m1, y)" by fastforce
  have res0: "resume (en_now e) (sv_mgr s) [] = (sv_mgr s, None)" by (simp add: resume_def)
  have "x = None \<longleftrightarrow> y = None \<and> 0 < mg_max (sv_mgr s) \<and>
      mg_max (sv_mgr s) \<le> int (length (mg_sessions (sv_mgr s)))"
  proof (cases y)
    case None
    with resume_None res have "m1 = sv_mgr s" by blast
    with None res ps assms(2) res0 show ?thesis
      by (auto simp: post_session_def Let_def get_or_create_def get_session_def split: if_splits)
  next
    case (Some a)
    with res ps res0 show ?thesis by (auto simp: post_session_def Let_def split: if_splits)
  qed
  moreover have "rs_status (snd (handle_whip_post e r s)) = 503 \<longleftrightarrow> x = None"
  proof (cases x)
    case None
    with handle_post_proper [OF True offer ps] show ?thesis by (simp add: http_error_def)
  next
    case (Some a)
    with handle_post_proper [OF True offer ps] post_call_status [of e r offer a st "s\<lparr>sv_mgr := m\<rparr>"]
    show ?thesis by auto
  qed
  ultimately show ?thesis using True res by simp
qed

definition sample_env :: env where
  "sample_env = \<lparr> en_now = 5, en_uuid = ''id2'', en_etag_uuid = ''tag2'', en_random = Some [1, 2, 3],
     en_built = True, en_negotiate = (\<lambda>_ _. Some ''answer''), en_accepts = (\<lambda>_ _. True),
     en_create_answer = (\<lambda>_. Some ''answer''), en_set_local = (\<lambda>_ _. Some sample_offer) \<rparr>"

definition sample_request :: "http_method \<Rightarrow> str \<Rightarrow> str \<Rightarrow> request" where
  "sample_request meth path body = \<lparr> rq_method = meth, rq_path = path, rq_header = (\<lambda>_. []),
     rq_query = (\<lambda>_. []), rq_remote = ''10.0.0.1:80'', rq_body = Some body, rq_claim = [] \<rparr>"

text \<open>A server with room for one call, and that call on it.\<close>

definition busy_server :: server where
  "busy_server = fst (handle_whip_post (sample_env\<lparr>en_uuid := ''id1''\<rparr>)
     (sample_request POST ''/whip'' ''v=0'') (new_server 1 0 False))"

lemma server_post_ok: "server_ok s \<Longrightarrow> env_ok e \<Longrightarrow> server_ok (fst (handle_whip_post e r s))"
  by (simp add: server_ok_def handle_post_ok handlers_keep_limiters)

lemma busy_server_ok: "server_ok busy_server"
  unfolding busy_server_def
  by (intro server_post_ok new_server_ok) (simp add: env_ok_def sample_env_def)

theorem post_refused_exactly_at_capacity_witness:
  "rs_status (snd (handle_whip_post sample_env (sample_request POST ''/whip'' ''v=0'') busy_server)) = 503"
proof -
  have "get_session (sv_mgr busy_server) (en_uuid sample_env) = None"
    "proper_offer (sample_request POST ''/whip'' ''v=0'')"
    "snd (resume (en_now sample_env) (sv_mgr busy_server)
       (rq_query (sample_request POST ''/whip'' ''v=0'') ''resume'')) = None"
    "mg_max (sv_mgr busy_server) = 1" "length (mg_sessions (sv_mgr busy_server)) = 1"
    by code_simp+
  with post_refused_exactly_at_capacity [OF busy_server_ok] show ?thesis by simp
qed

text \<open>C9: a POST answered with 201 has done all it says: the session named in \<open>Location\<close> is
  listed with an open peer under its own identifier, \<open>ETag\<close> is its ICE session's tag,
  \<open>X-Resume-Status\<close> is \<open>resumed\<close> exactly when the presented token resolved, and to
  this session, and the advertised resume token resolves to it.\<close>

theorem created_call_is_as_advertised:
  assumes "server_ok s" and "env_ok e" and "handle_whip_post e r s = (s', resp)" and "rs_status resp = 201"
  shows "\<exists>a sid p. rs_header resp ''Location'' = ''/whip/'' @ sid \<and> get_session (sv_mgr s') sid = Some a \<and>
    get_peer (sv_mgr s') a sid = Some p \<and> \<not> po_closed (mg_peers (sv_mgr s') ! p) \<and>
    rs_header resp ''ETag'' = ss_etag (the_session (sv_mgr s') a) \<and>
    (rs_header resp ''X-Resume-Status'' = ''resumed'' \<longleftrightarrow>
       snd (resume (en_now e) (sv_mgr s) (rq_query r ''resume'')) = Some a) \<and>
    (snd (resume (en_now e) (sv_mgr s) (rq_query r ''resume'')) \<in> {None, Some a}) \<and>
    (rs_header resp ''X-Resume-Token'' \<noteq> [] \<longrightarrow>
       mg_resumable (sv_mgr s') (rs_header resp ''X-Resume-Token'') = Some a)"
proof -
  have proper: "proper_offer r"
    using handle_post_improper [of r e s] assms(3,4) by fastforce
  then obtain offer where offer: "rq_body r = Some offer" by (auto simp: proper_offer_def)
  have okm: "call_ok (sv_mgr s)" using assms(1) by (simp add: server_ok_def)
  obtain m x st where ps: "post_session e r (sv_mgr s) = (m, x, st)" by (metis prod_cases3)
  note pk = post_session_ok [OF okm ps]
  from handle_post_proper [OF proper offer ps] assms(3,4) obtain a where x: "x = Some a"
    by (cases x) (auto simp: http_error_def)
  have pc: "post_call e r offer a st (s\<lparr>sv_mgr := m\<rparr>) = (s', resp)"
    using handle_post_proper [OF proper offer ps] assms(3) x by simp
  let ?m = "upd_session a (set_resource_id (resolve_resource_id r)) m"
  let ?sid = "ss_id (the_session m a)"
  have a: "a < length (mg_store m)" "a < length (mg_store ?m)" using pk(2) [OF x] by simp_all
  have okm2: "call_ok ?m" using set_resource_alive [OF pk(1)] .
  obtain m1 p old where ap: "add_peer a ?sid (en_built e) ?m = (m1, Some (p, old))"
    using pc assms(4) a by (auto simp: post_call_def Let_def http_error_def split: prod.splits option.splits)
  note fr = add_peer_frame [OF ap a(2)]
  obtain t where ho: "handle_offer e offer = Some t"
    using pc assms(4) a ap by (auto simp: post_call_def Let_def http_error_def split: prod.splits option.splits)
  obtain m2 tok where iss: "issue_resume_token a (new_resume_token (en_random e)) m1 = (m2, tok)" by fastforce
  from pc ap ho iss a have s': "sv_mgr s' = m2"
    and resp: "rs_header resp = created_headers ?sid (ss_etag (the_session m1 a)) st tok"
    by (auto simp: post_call_def Let_def)
  have ok1: "call_ok m1" using add_peer_alive [OF okm2 a(2) ap] .
  have l1: "listed m1 a" using pk(2) [OF x] fr(4,5) a by (simp add: listed_def)
  have same: "mg_sessions m2 = mg_sessions m1" "mg_peers m2 = mg_peers m1"
      "ss_id (the_session m2 a) = ss_id (the_session m1 a)"
      "ss_peers (the_session m2 a) = ss_peers (the_session m1 a)"
      "ss_etag (the_session m2 a) = ss_etag (the_session m1 a)"
      "tok \<noteq> [] \<longrightarrow> mg_resumable m2 tok = Some a"
    using iss by (auto simp: issue_resume_token_def rotate_resume_token_def Let_def
        split: if_splits option.splits)
  have sid1: "ss_id (the_session m1 a) = ?sid" using fr(4) a by simp
  have "get_session m2 ?sid = Some a"
    using listed_get [OF ok1 l1] same sid1 by (simp add: get_session_def)
  moreover have "get_peer m2 a ?sid = Some p"
    using same fr(4) by (simp add: get_peer_def update_conv')
  moreover have "\<not> po_closed (mg_peers m2 ! p)" using same fr(3) by simp
  moreover have "st = ''resumed'' \<longleftrightarrow> snd (resume (en_now e) (sv_mgr s) (rq_query r ''resume'')) = Some a"
      "snd (resume (en_now e) (sv_mgr s) (rq_query r ''resume'')) \<in> {None, Some a}"
    using ps x by (auto simp: post_session_def Let_def resume_def split: if_splits prod.splits option.splits)
  ultimately show ?thesis
    using same unfolding s' resp
    by (intro exI [of _ a] exI [of _ ?sid] exI [of _ p]) (simp add: created_headers_def Let_def no_headers_def)
qed

definition first_call :: "server \<times> response" where
  "first_call = handle_whip_post (sample_env\<lparr>en_uuid := ''id1''\<rparr>)
     (sample_request POST ''/whip'' ''v=0'') (new_server 1 0 False)"

theorem created_call_is_as_advertised_witness:
  "\<exists>t. get_session (sv_mgr (fst first_call)) ''id1'' = Some 0 \<and> mg_resumable (sv_mgr (fst first_call)) t = Some 0"
proof -
  have "env_ok (sample_env\<lparr>en_uuid := ''id1''\<rparr>)" by (simp add: env_ok_def sample_env_def)
  moreover have "handle_whip_post (sample_env\<lparr>en_uuid := ''id1''\<rparr>)
     (sample_request POST ''/whip'' ''v=0'') (new_server 1 0 False) = (fst first_call, snd first_call)"
    by (simp add: first_call_def)
  moreover have "rs_status (snd first_call) = 201" by code_simp
  moreover have "rs_header (snd first_call) ''Location'' = ''/whip/id1''" by code_simp
  moreover have "rs_header (snd first_call) ''X-Resume-Token'' \<noteq> []" by code_simp
  moreover have "get_session (sv_mgr (fst first_call)) ''id1'' = Some 0" by code_simp
  ultimately show ?thesis
    using created_call_is_as_advertised [OF new_server_ok, of "sample_env\<lparr>en_uuid := ''id1''\<rparr>"
        "sample_request POST ''/whip'' ''v=0''" 1 0 False "fst first_call" "snd first_call"]
    by auto
qed

text \<open>A PATCH whose \<open>If-Match\<close> names another ICE session changes nothing and is answered
  with 412 and the current tag.\<close>

theorem stale_patch_is_refused:
  assumes "has_prefix ice_fragment_content_type (rq_header r ''Content-Type'')"
    and "get_session (sv_mgr s) sid = Some a" and "rq_header r ''If-Match'' \<notin> {[], ''*''}"
    and "rq_header r ''If-Match'' \<noteq> ss_etag (the_session (sv_mgr s) a)"
  shows "fst (handle_whip_patch e r sid s) = s \<and> rs_status (snd (handle_whip_patch e r sid s)) = 412 \<and>
    rs_header (snd (handle_whip_patch e r sid s)) ''ETag'' = ss_etag (the_session (sv_mgr s) a)"
  using assms by (auto simp: handle_whip_patch_def Let_def http_error_def)

text \<open>A PATCH that succeeds found the peer open and the fragment whole; it announces a new
  tag, under which alone the session can be restarted from then on: the same request
  repeated with the old tag is refused with 412.\<close>

theorem patch_rotates_etag:
  assumes "server_ok s" and "handle_whip_patch e r sid s = (s', resp)" and "rs_status resp = 200"
    and "get_session (sv_mgr s) sid = Some a" and "old = ss_etag (the_session (sv_mgr s) a)"
    and "old \<noteq> quoted (en_etag_uuid e)" and "old \<notin> {[], ''*''}"
  shows "rs_header resp ''ETag'' = ss_etag (the_session (sv_mgr s') a) \<and>
    ss_etag (the_session (sv_mgr s') a) = quoted (en_etag_uuid e) \<and>
    mg_sessions (sv_mgr s') = mg_sessions (sv_mgr s) \<and> mg_peers (sv_mgr s') = mg_peers (sv_mgr s) \<and>
    rs_status (snd (handle_whip_patch e'
      (r\<lparr>rq_header := (rq_header r)(''If-Match'' := old)\<rparr>) sid s')) = 412"
proof -
  have a: "a < length (mg_store (sv_mgr s))"
    using listed_mem(2) [OF call_okD assms(4)] assms(1) by (simp add: server_ok_def)
  have ct: "has_prefix ice_fragment_content_type (rq_header r ''Content-Type'')"
    using assms(2,3) by (auto simp: handle_whip_patch_def http_error_def split: if_splits)
  have m: "sv_mgr s' = upd_session a (rotate_etag (en_etag_uuid e)) (sv_mgr s) \<and>
      rs_header resp ''ETag'' = ss_etag (the_session (sv_mgr s') a)"
    using assms(2,3,4) ct
    by (auto simp: handle_whip_patch_def Let_def http_error_def
        split: if_splits option.splits prod.splits sum.splits restart_error.splits)
  then have e: "ss_etag (the_session (sv_mgr s') a) = quoted (en_etag_uuid e)"
    using a by (simp add: rotate_etag_def)
  have "get_session (sv_mgr s') sid = Some a" using m assms(4) by (simp add: get_session_def)
  with m e ct assms(6,7) show ?thesis
    by (auto simp: handle_whip_patch_def Let_def http_error_def)
qed

text \<open>A call whose offer carries ICE credentials.\<close>

definition ice_server_state :: server where
  "ice_server_state = fst (handle_whip_post (sample_env\<lparr>en_uuid := ''id1''\<rparr>)
     (sample_request POST ''/whip'' (render_lines [''m=audio'', ''a=ice-ufrag:o'', ''a=ice-pwd:o'']))
     (new_server 1 0 False))"

definition patch_request :: "str \<Rightarrow> request" where
  "patch_request match = (sample_request PATCH ''/whip/id1'' sample_fragment)\<lparr>rq_header :=
     (\<lambda>_. [])(''Content-Type'' := ice_fragment_content_type, ''If-Match'' := match)\<rparr>"

theorem stale_patch_is_refused_witness:
  "rs_status (snd (handle_whip_patch sample_env (patch_request ''other'') ''id1'' ice_server_state)) = 412"
proof -
  have "get_session (sv_mgr ice_server_state) ''id1'' = Some 0" by code_simp
  moreover have "ss_etag (the_session (sv_mgr ice_server_state) 0) = quoted ''id1''" by code_simp
  ultimately show ?thesis
    using stale_patch_is_refused [of "patch_request ''other''" ice_server_state "''id1''" 0 sample_env]
    by (simp add: patch_request_def has_prefix_def ice_fragment_content_type_def quoted_def)
qed

theorem patch_rotates_etag_witness:
  "rs_status (snd (handle_whip_patch sample_env (patch_request (quoted ''id1'')) ''id1''
     (fst (handle_whip_patch sample_env (patch_request (quoted ''id1'')) ''id1'' ice_server_state)))) = 412"
proof -
  let ?out = "handle_whip_patch sample_env (patch_request (quoted ''id1'')) ''id1'' ice_server_state"
  have ok: "server_ok ice_server_state"
    unfolding ice_server_state_def
    by (intro server_post_ok new_server_ok) (simp add: env_ok_def sample_env_def)
  have out: "?out = (fst ?out, snd ?out)" by simp
  have peer: "get_peer (sv_mgr ice_server_state) 0 ''id1'' = Some 0" by code_simp
  have whole: "take max_ice_fragment_bytes sample_fragment = sample_fragment"
  proof -
    have "length sample_fragment = 54" by code_simp
    then show ?thesis by (simp add: max_ice_fragment_bytes_def)
  qed
  have "isl (snd (restart_ice (\<lambda>_ _. True) (\<lambda>_. Some ''answer'') (\<lambda>_ _. Some sample_offer)
      (live_transport ice_server_state 0) sample_fragment)) = False" by code_simp
  then obtain t f where restart: "restart_ice (\<lambda>_ _. True) (\<lambda>_. Some ''answer'') (\<lambda>_ _. Some sample_offer)
      (live_transport ice_server_state 0) sample_fragment = (t, Inr f)"
    by (metis isl_def prod.collapse sum.exhaust)
  have get: "get_session (sv_mgr ice_server_state) ''id1'' = Some 0" by code_simp
  have tag: "quoted ''id1'' = ss_etag (the_session (sv_mgr ice_server_state) 0)" by code_simp
  have st: "rs_status (snd ?out) = 200"
    using get peer tag whole restart
    by (simp add: handle_whip_patch_def Let_def patch_request_def sample_request_def sample_env_def
        has_prefix_def ice_fragment_content_type_def)
  have ne: "quoted ''id1'' \<noteq> quoted (en_etag_uuid sample_env)" "quoted ''id1'' \<notin> {[], ''*''}"
    by (simp_all add: quoted_def sample_env_def)
  have same: "(patch_request (quoted ''id1''))\<lparr>rq_header :=
      (rq_header (patch_request (quoted ''id1'')))(''If-Match'' := quoted ''id1'')\<rparr> = patch_request (quoted ''id1'')"
    by (simp add: patch_request_def)
  from patch_rotates_etag [OF ok out st get tag ne, of sample_env] show ?thesis by (simp add: same)
qed

lemma handlers_not_429:
  "rs_status (snd (handle_whip_post e r h)) \<noteq> 429"
  "rs_status (snd (handle_whip_patch e r sid h)) \<noteq> 429"
proof -
  show "rs_status (snd (handle_whip_post e r h)) \<noteq> 429"
    by (auto simp: handle_whip_post_def post_call_def Let_def http_error_def
        split: option.split prod.split)
  show "rs_status (snd (handle_whip_patch e r sid h)) \<noteq> 429"
    by (simp add: handle_whip_patch_def Let_def http_error_def
        split: option.split prod.split sum.split restart_error.split)
qed

text \<open>A request over its client's budget touches no session: it is answered with 429 and a
  waiting time of at least a second, and only the limiter it was counted by changes hands;
  restarts and new calls are counted apart.\<close>

theorem limited_request_touches_nothing:
  assumes "whip_handler e r s = (s', resp)" and "rs_status resp = 429"
  shows "sv_mgr s' = sv_mgr s \<and> sv_transports s' = sv_transports s \<and>
    (\<exists>n \<ge> 1. rs_header resp ''Retry-After'' = itoa n) \<and>
    (rq_method r = POST \<and> sv_restarts s' = sv_restarts s \<or>
     rq_method r = PATCH \<and> sv_limiter s' = sv_limiter s)"
proof -
  let ?c = "client_ip (rq_header r) (rq_remote r)"
  have retry: "1 \<le> n" if "allow l t c = (l', False, n)" for l t c l' n
    using denied_entry [OF that] by auto
  consider (post) "rq_method r = POST" | (patch) "rq_method r = PATCH"
    | (other) "rq_method r \<notin> {POST, PATCH}" by blast
  then show ?thesis
  proof cases
    case post
    obtain l ok n where al: "allow (sv_limiter s) (en_now e) ?c = (l, ok, n)" by (metis prod_cases3)
    with assms post handlers_not_429(1) [of e r "s\<lparr>sv_limiter := l\<rparr>"] have "\<not> ok"
      by (auto simp: whip_handler_def)
    with al retry [of "sv_limiter s" "en_now e" ?c l n] have "1 \<le> n" by simp
    with \<open>\<not> ok\<close> assms post al show ?thesis
      by (auto simp: whip_handler_def http_error_def no_headers_def)
  next
    case patch
    let ?sid = "trim_prefix ''/'' (trim_prefix ''/whip'' (rq_path r))"
    obtain l ok n where al: "allow (sv_restarts s) (en_now e) ?c = (l, ok, n)" by (metis prod_cases3)
    from assms patch have sid: "?sid \<noteq> []"
      by (auto simp: whip_handler_def Let_def url_required_def http_error_def)
    with assms patch al handlers_not_429(2) [of e r ?sid "s\<lparr>sv_restarts := l\<rparr>"] have "\<not> ok"
      by (auto simp: whip_handler_def)
    with al retry [of "sv_restarts s" "en_now e" ?c l n] have "1 \<le> n" by simp
    with \<open>\<not> ok\<close> assms patch al sid show ?thesis
      by (auto simp: whip_handler_def http_error_def no_headers_def)
  next
    case other
    with assms show ?thesis
      by (cases "rq_method r")
        (auto simp: whip_handler_def Let_def url_required_def http_error_def handle_whip_delete_def
          split: if_splits)
  qed
qed

theorem limited_request_touches_nothing_witness:
  "sv_mgr (fst (whip_handler sample_env (sample_request POST ''/whip'' ''v=0'')
     ((new_server 0 0 False)\<lparr>sv_limiter := set_entry ''10.0.0.1'' \<lparr>rc_count = 30, rc_reset = 9\<rparr>
       (new_limiter 30 second)\<rparr>))) = new_manager 0 0 False"
proof -
  let ?s = "(new_server 0 0 False)\<lparr>sv_limiter := set_entry ''10.0.0.1'' \<lparr>rc_count = 30, rc_reset = 9\<rparr>
    (new_limiter 30 second)\<rparr>"
  let ?r = "sample_request POST ''/whip'' ''v=0''"
  let ?out = "whip_handler sample_env ?r ?s"
  have "client_ip (rq_header ?r) (rq_remote ?r) = ''10.0.0.1''" by code_simp
  then have "rs_status (snd ?out) = 429"
    by (simp add: whip_handler_def allow_def Let_def client_key_def new_limiter_def http_error_def
        sample_env_def sample_request_def)
  then have "sv_mgr (fst ?out) = sv_mgr ?s"
    using limited_request_touches_nothing [of sample_env ?r ?s "fst ?out" "snd ?out"] by simp
  then show ?thesis by (simp add: new_server_def)
qed

text \<open>DELETE is idempotent and always answered with 200: after it the session is not listed
  and no resume token leads to it, and a second one changes nothing.\<close>

theorem delete_is_idempotent:
  assumes "server_ok s" and "handle_whip_delete e sid s = (s', resp)"
  shows "rs_status resp = 200 \<and> get_session (sv_mgr s') sid = None \<and>
    fst (handle_whip_delete e' sid s') = s' \<and>
    (\<forall>t a. get_session (sv_mgr s) sid = Some a \<longrightarrow> mg_resumable (sv_mgr s') t \<noteq> Some a)"
proof -
  have ok: "call_ok (sv_mgr s)" using assms(1) by (simp add: server_ok_def)
  have s': "s' = s\<lparr>sv_mgr := remove_session sid (en_now e) (sv_mgr s)\<rparr>" and "rs_status resp = 200"
    using assms(2) by (auto simp: handle_whip_delete_def)
  have gone: "map_of (mg_sessions (remove_session sid (en_now e) (sv_mgr s))) sid = None"
    by (auto simp: remove_session_retire retire_tables delete_conv split: option.split)
  have "mg_resumable (sv_mgr s') t \<noteq> Some a" if "get_session (sv_mgr s) sid = Some a" for t a
  proof
    assume t: "mg_resumable (sv_mgr s') t = Some a"
    have ok': "call_ok (sv_mgr s')" using remove_alive [OF ok] s' by simp
    from listed_mem [OF call_okD [OF ok] that] close_session_session [OF manager_okD(3) [OF call_okD [OF ok]]]
    have sid: "ss_id (the_session (sv_mgr s') a) = sid"
      using that listed_in [OF ok that]
      by (simp add: s' remove_session_retire get_session_def retire_tables)
    have "get_session (sv_mgr s') (ss_id (the_session (sv_mgr s') a)) = Some a"
      using token_addr [OF call_okD [OF ok'] t] listed_get [OF ok'] by blast
    then have "get_session (sv_mgr s') sid = Some a" unfolding sid .
    with gone show False by (simp add: s' get_session_def)
  qed
  with \<open>rs_status resp = 200\<close> gone show ?thesis
    by (simp add: s' handle_whip_delete_def get_session_def remove_session_def)
qed

theorem delete_is_idempotent_witness:
  "get_session (sv_mgr (fst (handle_whip_delete sample_env ''id1'' busy_server))) ''id1'' = None"
  using delete_is_idempotent [OF busy_server_ok, of sample_env "''id1''"
      "fst (handle_whip_delete sample_env ''id1'' busy_server)"
      "snd (handle_whip_delete sample_env ''id1'' busy_server)"] by simp

end
