(* ===== verification/Go_Json.thy ===== *)
theory Go_Json
  imports Go_Prelude "HOL-Library.AList" "HOL-Library.List_Lexorder" "HOL-Library.Char_ord" Complex_Main
begin

text \<open>
  JSON as the server's Go code sees it. A \<open>json.RawMessage\<close> is absent, a text that parses, or
  a text that does not; a text that parses is identified with its value, objects keeping the
  order and the repetitions of their keys. Numbers are exact. A decoded object is a Go map: an
  association list with distinct keys, in which a repeated key has its last value, and it is
  marshalled with its keys sorted.
\<close>

datatype json =
    JNull
  | JBool bool
  | JNum rat
  | JStr str
  | JArr "json list"
  | JObj "(str \<times> json) list"

datatype raw = Absent | Json json | Malformed str

type_synonym 'a fields = "(str \<times> 'a) list"

definition decode_map :: "(str \<times> 'a) list \<Rightarrow> 'a fields" where
  "decode_map kvs = fold (\<lambda>kv m. AList.update (fst kv) (snd kv) m) kvs []"

definition marshal_map :: "json fields \<Rightarrow> json" where
  "marshal_map m = JObj (sort_key fst m)"

text \<open>Decoding to \<open>any\<close> and marshalling again; \<open>fl\<close> is the rounding to \<open>float64\<close>.\<close>

fun recode :: "(rat \<Rightarrow> rat) \<Rightarrow> json \<Rightarrow> json" where
  "recode fl (JNum x) = JNum (fl x)"
| "recode fl (JArr js) = JArr (map (recode fl) js)"
| "recode fl (JObj kvs) = marshal_map (decode_map (map (\<lambda>kv. (fst kv, recode fl (snd kv))) kvs))"
| "recode fl j = j"

text \<open>\<open>json.Unmarshal\<close> into a map of fields: an object, or \<open>null\<close>, which leaves the map nil.\<close>

definition unmarshal_fields :: "raw \<Rightarrow> json fields option" where
  "unmarshal_fields r =
     (case r of
        Json (JObj kvs) \<Rightarrow> Some (decode_map kvs)
      | Json JNull \<Rightarrow> Some []
      | _ \<Rightarrow> None)"

section \<open>Go maps\<close>

lemma distinct_decode_map: "distinct (map fst (decode_map kvs))"
proof -
  have "distinct (map fst (fold (\<lambda>kv m. AList.update (fst kv) (snd kv) m) kvs m))"
    if "distinct (map fst m)" for m
    using that by (induction kvs arbitrary: m) (auto simp: distinct_update)
  then show ?thesis by (simp add: decode_map_def)
qed

lemma map_of_decode_map: "map_of (decode_map kvs) = map_of (rev kvs)"
proof -
  have "map_of (fold (\<lambda>kv m. AList.update (fst kv) (snd kv) m) kvs m) = map_of m ++ map_of (rev kvs)" for m
    by (induction kvs arbitrary: m) (auto simp: update_conv map_add_def fun_eq_iff split: option.split)
  then show ?thesis by (simp add: decode_map_def)
qed

lemma set_sort_key_fields [simp]: "set (sort_key fst m) = set m"
  by simp

lemma map_of_sort_key: "distinct (map fst m) \<Longrightarrow> map_of (sort_key fst m) = map_of m"
proof -
  assume d: "distinct (map fst m)"
  have "distinct (map fst (sort_key fst m))"
    using d by (metis distinct_map distinct_sort set_sort)
  with d show ?thesis by (intro map_of_inject_set [THEN iffD2]) simp_all
qed

lemma map_of_delete_self [simp]: "map_of (AList.delete k m) k = None"
  by (simp add: delete_conv)

lemma distinct_delete: "distinct (map fst m) \<Longrightarrow> distinct (map fst (AList.delete k m))"
  by (simp add: AList.distinct_delete)

end
