(* ===== verification/Plugin_Manifest.thy ===== *)
theory Plugin_Manifest
  imports Go_Json
begin

text \<open>
  Plugin manifests (\<open>internal/plugin/manifest.go\<close>): the single-tool form folded into the list
  of tools, the operator's overrides, validation, and the normalisation of phrases and
  transcripts a half-spoken sentence is matched with. Decoding the YAML is a library call; the
  records below are its result. The names of the records' fields carry a prefix per type.
\<close>

section \<open>Manifests\<close>

record capture_spec =
  ca_arg :: str
  ca_after :: "str list"

record partial_spec =
  ps_match :: "str list"
  ps_starts_with :: "str list"
  ps_once :: bool
  ps_capture :: "capture_spec option"
  ps_settle_ms :: int

record speak_rule =
  sr_when :: "json fields"
  sr_speak :: str

record dispatch_spec =
  ds_topic :: str
  ds_payload :: "json fields"
  ds_speak :: str
  ds_omit_zero :: bool
  ds_speak_when :: "speak_rule list"

record tool_spec =
  ts_name :: str
  ts_description :: str
  ts_parameters_raw :: "json option"
  ts_confirm :: bool
  ts_thinking :: bool
  ts_requires :: "str list"
  ts_internal :: bool
  ts_confirm_prompt :: str
  ts_dispatch :: "dispatch_spec option"
  ts_on_partial :: "partial_spec option"

record manifest =
  mf_name :: str
  mf_description :: str
  mf_parameters_raw :: "json option"
  mf_confirm :: bool
  mf_thinking :: bool
  mf_requires :: "str list"
  mf_dispatch :: "dispatch_spec option"
  mf_tools :: "tool_spec list"
  mf_enabled :: "bool option"
  mf_language :: str
  mf_entrypoint :: str
  mf_exec :: "str list"
  mf_timeout_ms :: int
  mf_events :: "str list"
  mf_config :: raw

definition parameters :: "tool_spec \<Rightarrow> json" where
  "parameters t =
     (case ts_parameters_raw t of
        None \<Rightarrow> JObj [(''type'', JStr ''object''), (''properties'', JObj [])]
      | Some j \<Rightarrow> j)"

definition describes_tool :: "manifest \<Rightarrow> bool" where
  "describes_tool m \<longleftrightarrow> mf_parameters_raw m \<noteq> None \<or> mf_dispatch m \<noteq> None \<or> mf_requires m \<noteq> []"

definition expand_language :: "str \<Rightarrow> str \<Rightarrow> str list" where
  "expand_language language entrypoint =
     (if language = ''python'' then [''python3'', entrypoint]
      else if language = ''typescript'' then [''npx'', ''tsx'', entrypoint]
      else if language = ''javascript'' then [''node'', entrypoint]
      else [])"

definition single_tool :: "manifest \<Rightarrow> tool_spec" where
  "single_tool m =
     \<lparr> ts_name = mf_name m, ts_description = mf_description m, ts_parameters_raw = mf_parameters_raw m,
       ts_confirm = mf_confirm m, ts_thinking = mf_thinking m, ts_requires = mf_requires m,
       ts_internal = False, ts_confirm_prompt = [], ts_dispatch = mf_dispatch m, ts_on_partial = None \<rparr>"

definition normalize :: "manifest \<Rightarrow> manifest" where
  "normalize m =
     (let m1 = (if mf_tools m = [] \<and> mf_name m \<noteq> [] \<and> describes_tool m
                then m\<lparr>mf_tools := [single_tool m]\<rparr> else m)
      in if mf_exec m1 = [] \<and> mf_entrypoint m1 \<noteq> []
         then m1\<lparr>mf_exec := expand_language (mf_language m1) (mf_entrypoint m1)\<rparr> else m1)"

definition needs_process :: "manifest \<Rightarrow> bool" where
  "needs_process m \<longleftrightarrow> mf_exec m \<noteq> []"

subsection \<open>What the operator overrides\<close>

text \<open>
  The value of a struct field after decoding: keys match without regard to case, the last one
  wins, \<open>null\<close> resets a pointer.
\<close>

definition struct_field :: "str \<Rightarrow> raw \<Rightarrow> json option" where
  "struct_field name r =
     (case r of
        Json (JObj kvs) \<Rightarrow>
          (case find (\<lambda>kv. to_lower (fst kv) = name) (rev kvs) of
             None \<Rightarrow> None
           | Some kv \<Rightarrow> if snd kv = JNull then None else Some (snd kv))
      | _ \<Rightarrow> None)"

text \<open>A value of the wrong type leaves a pointer to the zero value behind.\<close>

definition override_enabled :: "raw \<Rightarrow> bool option" where
  "override_enabled config =
     (case struct_field ''enabled'' config of
        None \<Rightarrow> None
      | Some (JBool b) \<Rightarrow> Some b
      | Some _ \<Rightarrow> Some False)"

definition override_timeout_ms :: "raw \<Rightarrow> int option" where
  "override_timeout_ms config =
     (case struct_field ''timeout_ms'' config of
        None \<Rightarrow> None
      | Some (JNum x) \<Rightarrow> Some (if of_int \<lfloor>x\<rfloor> = x then \<lfloor>x\<rfloor> else 0)
      | Some _ \<Rightarrow> Some 0)"

definition is_enabled :: "manifest \<Rightarrow> bool" where
  "is_enabled m =
     (case override_enabled (mf_config m) of
        Some b \<Rightarrow> b
      | None \<Rightarrow> (case mf_enabled m of Some b \<Rightarrow> b | None \<Rightarrow> True))"

definition default_execute_timeout :: duration where
  "default_execute_timeout = 30 * second"

definition timeout :: "manifest \<Rightarrow> duration" where
  "timeout m =
     (case override_timeout_ms (mf_config m) of
        Some ms \<Rightarrow> if 0 < ms then ms * millisecond
          else if 0 < mf_timeout_ms m then mf_timeout_ms m * millisecond else default_execute_timeout
      | None \<Rightarrow> if 0 < mf_timeout_ms m then mf_timeout_ms m * millisecond else default_execute_timeout)"

lemma timeout_pos: "0 < timeout m"
  by (simp add: timeout_def default_execute_timeout_def split: option.split)

subsection \<open>Validation\<close>

datatype manifest_error =
    No_name
  | Nothing_declared
  | Tool_unnamed nat
  | Duplicate_tool str
  | No_topic str
  | Partial_without_dispatch str
  | Partial_matches_nothing str
  | Capture_without_arg str
  | Capture_without_anchor str
  | Empty_anchor str
  | Settle_without_capture str
  | Empty_phrase str
  | Tool_needs_process str
  | Events_without_process
  | Unsupported_language str

definition blank :: "str \<Rightarrow> bool" where
  "blank s \<longleftrightarrow> trim_space s = []"

definition validate_capture :: "str \<Rightarrow> capture_spec option \<Rightarrow> manifest_error option" where
  "validate_capture tool cap =
     (case cap of
        None \<Rightarrow> None
      | Some c \<Rightarrow>
          if blank (ca_arg c) then Some (Capture_without_arg tool)
          else if ca_after c = [] then Some (Capture_without_anchor tool)
          else if list_ex blank (ca_after c) then Some (Empty_anchor tool)
          else None)"

definition validate_partial :: "str \<Rightarrow> dispatch_spec option \<Rightarrow> partial_spec option \<Rightarrow> manifest_error option" where
  "validate_partial tool dispatch ps =
     (case ps of
        None \<Rightarrow> None
      | Some p \<Rightarrow>
          if dispatch = None then Some (Partial_without_dispatch tool)
          else if ps_match p = [] \<and> ps_starts_with p = [] \<and> ps_capture p = None then Some (Partial_matches_nothing tool)
          else case validate_capture tool (ps_capture p) of
            Some e \<Rightarrow> Some e
          | None \<Rightarrow>
              if ps_capture p = None \<and> 0 < ps_settle_ms p then Some (Settle_without_capture tool)
              else if list_ex blank (ps_match p @ ps_starts_with p) then Some (Empty_phrase tool)
              else None)"

fun validate_tools :: "nat \<Rightarrow> str list \<Rightarrow> tool_spec list \<Rightarrow> manifest_error option" where
  "validate_tools i seen [] = None"
| "validate_tools i seen (t # ts) =
     (if ts_name t = [] then Some (Tool_unnamed i)
      else if ts_name t \<in> set seen then Some (Duplicate_tool (ts_name t))
      else if (case ts_dispatch t of None \<Rightarrow> False | Some d \<Rightarrow> blank (ds_topic d)) then Some (No_topic (ts_name t))
      else case validate_partial (ts_name t) (ts_dispatch t) (ts_on_partial t) of
        Some e \<Rightarrow> Some e
      | None \<Rightarrow> validate_tools (Suc i) (ts_name t # seen) ts)"

definition validate :: "manifest \<Rightarrow> manifest_error option" where
  "validate m =
     (if blank (mf_name m) then Some No_name
      else if mf_tools m = [] \<and> mf_events m = [] \<and> \<not> needs_process m then Some Nothing_declared
      else case validate_tools 0 [] (mf_tools m) of
        Some e \<Rightarrow> Some e
      | None \<Rightarrow>
          if needs_process m then None
          else case find (\<lambda>t. ts_dispatch t = None) (mf_tools m) of
            Some t \<Rightarrow> Some (Tool_needs_process (ts_name t))
          | None \<Rightarrow>
              if mf_events m \<noteq> [] then Some Events_without_process
              else if mf_language m \<noteq> [] \<and> mf_entrypoint m \<noteq> [] then Some (Unsupported_language (mf_language m))
              else None)"

section \<open>Phrases\<close>

text \<open>The reduction the matcher compares: lower case, no punctuation, single blanks. The first
  argument is the text emitted so far, reversed.\<close>

fun normalize_aux :: "str \<Rightarrow> bool \<Rightarrow> str \<Rightarrow> str" where
  "normalize_aux b space [] = rev b"
| "normalize_aux b space (r # rs) =
     (if is_letter r \<or> is_digit r \<or> r = CHR 0x27 then normalize_aux (r # b) False rs
      else if \<not> space then normalize_aux (CHR '' '' # b) True rs
      else normalize_aux b space rs)"

definition normalize_partial :: "str \<Rightarrow> str" where
  "normalize_partial txt = trim_space (normalize_aux [] True (to_lower txt))"

definition default_settle_ms :: int where "default_settle_ms = 250"

definition settle :: "partial_spec \<Rightarrow> duration" where
  "settle p = (if ps_settle_ms p \<le> 0 then default_settle_ms * millisecond else ps_settle_ms p * millisecond)"

definition phrases :: "partial_spec \<Rightarrow> str list \<times> str list \<times> str list" where
  "phrases p =
     (map normalize_partial (ps_match p), map normalize_partial (ps_starts_with p),
      (case ps_capture p of None \<Rightarrow> [] | Some c \<Rightarrow> map normalize_partial (ca_after c)))"

definition partial_arg :: "partial_spec \<Rightarrow> str" where
  "partial_arg p = (case ps_capture p of None \<Rightarrow> [] | Some c \<Rightarrow> ca_arg c)"

section \<open>What validation accepts\<close>

definition partial_ok :: "partial_spec \<Rightarrow> bool" where
  "partial_ok p \<longleftrightarrow>
     (ps_match p \<noteq> [] \<or> ps_starts_with p \<noteq> [] \<or> ps_capture p \<noteq> None) \<and>
     (\<forall>c. ps_capture p = Some c \<longrightarrow> \<not> blank (ca_arg c) \<and> ca_after c \<noteq> [] \<and> (\<forall>a \<in> set (ca_after c). \<not> blank a)) \<and>
     (ps_capture p = None \<longrightarrow> ps_settle_ms p \<le> 0) \<and>
     (\<forall>a \<in> set (ps_match p) \<union> set (ps_starts_with p). \<not> blank a)"

definition tool_ok :: "tool_spec \<Rightarrow> bool" where
  "tool_ok t \<longleftrightarrow> ts_name t \<noteq> [] \<and> (\<forall>d. ts_dispatch t = Some d \<longrightarrow> \<not> blank (ds_topic d)) \<and>
     (\<forall>p. ts_on_partial t = Some p \<longrightarrow> ts_dispatch t \<noteq> None \<and> partial_ok p)"

lemma validate_partial_iff:
  "validate_partial tool d ps = None \<longleftrightarrow> (\<forall>p. ps = Some p \<longrightarrow> d \<noteq> None \<and> partial_ok p)"
  by (auto simp: validate_partial_def validate_capture_def partial_ok_def list_ex_iff split: option.splits)

lemma validate_tools_Cons:
  "validate_tools i seen (t # ts) = None \<longleftrightarrow>
     tool_ok t \<and> ts_name t \<notin> set seen \<and> validate_tools (Suc i) (ts_name t # seen) ts = None"
proof (cases "validate_partial (ts_name t) (ts_dispatch t) (ts_on_partial t)")
  case None
  with validate_partial_iff [of "ts_name t" "ts_dispatch t" "ts_on_partial t"] show ?thesis
    by (auto simp: tool_ok_def split: option.splits)
next
  case (Some e)
  with validate_partial_iff [of "ts_name t" "ts_dispatch t" "ts_on_partial t"] show ?thesis
    by (auto simp: tool_ok_def split: option.splits)
qed

lemma validate_tools_iff:
  "validate_tools i seen ts = None \<longleftrightarrow>
     list_all tool_ok ts \<and> distinct (map ts_name ts) \<and> set (map ts_name ts) \<inter> set seen = {}"
proof (induction ts arbitrary: i seen)
  case (Cons t ts)
  show ?case unfolding validate_tools_Cons Cons.IH by auto
qed simp

definition well_formed :: "manifest \<Rightarrow> bool" where
  "well_formed m \<longleftrightarrow>
     \<not> blank (mf_name m) \<and> list_all tool_ok (mf_tools m) \<and> distinct (map ts_name (mf_tools m)) \<and>
     (needs_process m \<or>
      mf_tools m \<noteq> [] \<and> mf_events m = [] \<and> (\<forall>t \<in> set (mf_tools m). ts_dispatch t \<noteq> None) \<and>
      (mf_language m = [] \<or> mf_entrypoint m = []))"

section \<open>Properties\<close>

text \<open>Validation accepts exactly the manifests the loader can act on: a name, named and
  distinct tools, topics for packets, phrases only on tools that merely send a packet, and
  without a process nothing that would need one.\<close>

theorem validation_is_exact:
  "validate m = None \<longleftrightarrow> well_formed m"
proof (cases "find (\<lambda>t. ts_dispatch t = None) (mf_tools m)")
  case None
  then have "\<forall>t \<in> set (mf_tools m). ts_dispatch t \<noteq> None" by (auto simp: find_None_iff)
  with None validate_tools_iff [of 0 "[]" "mf_tools m"] show ?thesis
    by (cases "validate_tools 0 [] (mf_tools m)") (auto simp: validate_def well_formed_def)
next
  case (Some t)
  then have "t \<in> set (mf_tools m)" "ts_dispatch t = None" by (auto simp: find_Some_iff)
  with Some validate_tools_iff [of 0 "[]" "mf_tools m"] show ?thesis
    by (cases "validate_tools 0 [] (mf_tools m)") (auto simp: validate_def well_formed_def)
qed

end
