(* ===== verification/Plugin_Registry.thy ===== *)
theory Plugin_Registry
  imports Plugin_Manifest
begin

text \<open>
  The plugin manager (\<open>internal/plugin/manager.go\<close>, \<open>session.go\<close>), the requests a plugin
  may make of the server (\<open>callbacks.go\<close>) and the recovery of a crashed plugin
  (\<open>external.go\<close>). A registered tool is a packet described by its manifest or a tool of a
  numbered plugin process; what a process answers is an argument. The registry is a Go map, an
  association list with distinct keys.
\<close>

section \<open>The registry\<close>

datatype registered = Packet tool_spec | Hosted nat tool_spec

fun spec_of :: "registered \<Rightarrow> tool_spec" where
  "spec_of (Packet t) = t"
| "spec_of (Hosted h t) = t"

type_synonym registry = "(str \<times> registered) list"

definition is_internal :: "registered \<Rightarrow> bool" where
  "is_internal r = ts_internal (spec_of r)"

definition tools :: "registry \<Rightarrow> registered list" where
  "tools reg = filter (\<lambda>r. \<not> is_internal r) (map snd reg)"

definition partial_tools :: "registry \<Rightarrow> tool_spec list" where
  "partial_tools reg =
     concat (map (\<lambda>kr. case snd kr of
        Packet t \<Rightarrow> if ts_on_partial t \<noteq> None then [t] else []
      | Hosted h t \<Rightarrow> []) reg)"

definition lookup_tool :: "registry \<Rightarrow> str \<Rightarrow> registered option" where
  "lookup_tool reg name = map_of reg name"

definition get_tool :: "registry \<Rightarrow> str \<Rightarrow> registered option" where
  "get_tool reg name =
     (case lookup_tool reg name of
        None \<Rightarrow> None
      | Some r \<Rightarrow> if is_internal r then None else Some r)"

definition register :: "registered \<Rightarrow> registry \<Rightarrow> registry" where
  "register r reg = AList.update (ts_name (spec_of r)) r reg"

datatype load_error = Invalid manifest_error | No_dispatch str | Blank_topic str | Start_failed

definition new_dispatch_tool :: "tool_spec \<Rightarrow> load_error + registered" where
  "new_dispatch_tool t =
     (case ts_dispatch t of
        None \<Rightarrow> Inl (No_dispatch (ts_name t))
      | Some d \<Rightarrow> if blank (ds_topic d) then Inl (Blank_topic (ts_name t)) else Inr (Packet t))"

fun host_tools :: "nat \<Rightarrow> tool_spec list \<Rightarrow> load_error + registered list" where
  "host_tools h [] = Inr []"
| "host_tools h (t # ts) =
     (case (if ts_dispatch t \<noteq> None then new_dispatch_tool t else Inr (Hosted h t)) of
        Inl e \<Rightarrow> Inl e
      | Inr r \<Rightarrow> (case host_tools h ts of Inl e \<Rightarrow> Inl e | Inr rs \<Rightarrow> Inr (r # rs)))"

fun owned_by :: "nat \<Rightarrow> registered \<Rightarrow> bool" where
  "owned_by h (Hosted h' t) = (h' = h)"
| "owned_by h (Packet t) = False"

definition register_host_tools :: "nat \<Rightarrow> tool_spec list \<Rightarrow> registry \<Rightarrow> load_error + registry" where
  "register_host_tools h specs reg =
     (case host_tools h specs of
        Inl e \<Rightarrow> Inl e
      | Inr rs \<Rightarrow> Inr (fold register rs (filter (\<lambda>kr. \<not> owned_by h (snd kr)) reg)))"

record manager_state =
  pm_plugins :: registry
  pm_hosts :: "nat list"
  pm_handlers :: "(str \<times> nat) list"
  pm_next :: nat

fun register_packets :: "tool_spec list \<Rightarrow> registry \<Rightarrow> load_error option \<times> registry" where
  "register_packets [] reg = (None, reg)"
| "register_packets (t # ts) reg =
     (case new_dispatch_tool t of
        Inl e \<Rightarrow> (Some e, reg)
      | Inr r \<Rightarrow> register_packets ts (register r reg))"

text \<open>What starting a process led to: nothing, or the tools it advertises after the handshake.\<close>

definition load :: "raw \<Rightarrow> tool_spec list option \<Rightarrow> manifest \<Rightarrow> manager_state \<Rightarrow> load_error option \<times> manager_state" where
  "load config started m0 s =
     (case validate m0 of
        Some e \<Rightarrow> (Some (Invalid e), s)
      | None \<Rightarrow>
          let m = m0\<lparr>mf_config := config\<rparr> in
          if \<not> is_enabled m then (None, s)
          else if \<not> needs_process m then
            (case register_packets (mf_tools m) (pm_plugins s) of (e, reg) \<Rightarrow> (e, s\<lparr>pm_plugins := reg\<rparr>))
          else case started of
            None \<Rightarrow> (Some Start_failed, s)
          | Some specs \<Rightarrow>
              let h = pm_next s; s1 = s\<lparr>pm_next := Suc h\<rparr> in
              (case register_host_tools h specs (pm_plugins s1) of
                 Inl e \<Rightarrow> (Some e, s1)
               | Inr reg \<Rightarrow>
                   (None, s1\<lparr>pm_plugins := reg, pm_hosts := pm_hosts s1 @ [h],
                      pm_handlers := (if mf_events m \<noteq> [] then AList.update (mf_name m) h (pm_handlers s1)
                                      else pm_handlers s1)\<rparr>)))"

text \<open>The second declaration pass; \<open>ready h available\<close> is what host \<open>h\<close> revises its list to.\<close>

definition announce_ready :: "(nat \<Rightarrow> str list \<Rightarrow> tool_spec list option) \<Rightarrow> manager_state \<Rightarrow> manager_state" where
  "announce_ready ready s =
     (let available = sort (map fst (pm_plugins s)) in
      fold (\<lambda>h s. case ready h available of
          None \<Rightarrow> s
        | Some specs \<Rightarrow>
            (case register_host_tools h specs (pm_plugins s) of
               Inl e \<Rightarrow> s
             | Inr reg \<Rightarrow> s\<lparr>pm_plugins := reg\<rparr>)) (pm_hosts s) s)"

section \<open>Calls that do not come from the model\<close>

datatype call_error = Unknown_tool str | Needs_confirmation str

datatype execution = Executes registered str raw

definition call_tool :: "registry \<Rightarrow> str \<Rightarrow> str \<Rightarrow> raw \<Rightarrow> call_error + execution" where
  "call_tool reg session name args =
     (case lookup_tool reg name of
        None \<Rightarrow> Inl (Unknown_tool name)
      | Some r \<Rightarrow>
          if ts_confirm (spec_of r) then Inl (Needs_confirmation name)
          else Inr (Executes r session (if args = Absent then Json (JObj []) else args)))"

subsection \<open>Live conversations\<close>

type_synonym sinks = "str \<Rightarrow> nat option"

definition bind_session :: "str \<Rightarrow> nat \<Rightarrow> sinks \<Rightarrow> sinks" where
  "bind_session session pipe m = (if session = [] then m else m(session \<mapsto> pipe))"

definition unbind_session :: "str \<Rightarrow> sinks \<Rightarrow> sinks" where
  "unbind_session session m = m(session := None)"

subsection \<open>Requests of a plugin\<close>

record emission =
  em_topic :: str
  em_payload :: raw
  em_session :: str

datatype plugin_request =
    Emit "emission option"
  | Tools_call "(str \<times> raw \<times> str) option"
  | Llm_complete "(str \<times> str \<times> str) option"
  | Rag_search "(str \<times> int \<times> str) option"
  | Other_method str

datatype serve_error =
    Unknown_method str
  | Bad_params
  | Topic_required
  | Session_required
  | Name_required
  | Own_tool str
  | Prompt_required
  | Query_required
  | No_live_session str
  | Call_failed call_error

datatype served =
    Emitted nat emission
  | Called execution
  | Completed nat str str
  | Searched nat str int

definition find_sink :: "sinks \<Rightarrow> str \<Rightarrow> serve_error + nat" where
  "find_sink m session = (case m session of None \<Rightarrow> Inl (No_live_session session) | Some p \<Rightarrow> Inr p)"

definition owns_tool :: "tool_spec list \<Rightarrow> str \<Rightarrow> bool" where
  "owns_tool specs name \<longleftrightarrow> list_ex (\<lambda>t. ts_name t = name) specs"

definition serve_emit :: "sinks \<Rightarrow> emission option \<Rightarrow> serve_error + served" where
  "serve_emit m params =
     (case params of
        None \<Rightarrow> Inl Bad_params
      | Some em \<Rightarrow>
          if em_topic em = [] then Inl Topic_required
          else if em_session em = [] then Inl Session_required
          else case find_sink m (em_session em) of Inl e \<Rightarrow> Inl e | Inr p \<Rightarrow> Inr (Emitted p em))"

definition serve_tool_call :: "registry \<Rightarrow> tool_spec list \<Rightarrow> (str \<times> raw \<times> str) option \<Rightarrow> serve_error + served" where
  "serve_tool_call reg own params =
     (case params of
        None \<Rightarrow> Inl Bad_params
      | Some (name, args, session) \<Rightarrow>
          if name = [] then Inl Name_required
          else if owns_tool own name then Inl (Own_tool name)
          else case call_tool reg session name args of
            Inl e \<Rightarrow> Inl (Call_failed e)
          | Inr x \<Rightarrow> Inr (Called x))"

definition serve_complete :: "sinks \<Rightarrow> (str \<times> str \<times> str) option \<Rightarrow> serve_error + served" where
  "serve_complete m params =
     (case params of
        None \<Rightarrow> Inl Bad_params
      | Some (system, prompt, session) \<Rightarrow>
          if prompt = [] then Inl Prompt_required
          else case find_sink m session of Inl e \<Rightarrow> Inl e | Inr p \<Rightarrow> Inr (Completed p system prompt))"

definition serve_search :: "sinks \<Rightarrow> (str \<times> int \<times> str) option \<Rightarrow> serve_error + served" where
  "serve_search m params =
     (case params of
        None \<Rightarrow> Inl Bad_params
      | Some (query, limit, session) \<Rightarrow>
          if blank query then Inl Query_required
          else case find_sink m session of Inl e \<Rightarrow> Inl e | Inr p \<Rightarrow> Inr (Searched p query limit))"

fun serve :: "registry \<Rightarrow> sinks \<Rightarrow> tool_spec list \<Rightarrow> plugin_request \<Rightarrow> serve_error + served" where
  "serve reg m own (Emit params) = serve_emit m params"
| "serve reg m own (Tools_call params) = serve_tool_call reg own params"
| "serve reg m own (Llm_complete params) = serve_complete m params"
| "serve reg m own (Rag_search params) = serve_search m params"
| "serve reg m own (Other_method method) = Inl (Unknown_method method)"

section \<open>Restarting a crashed plugin\<close>

text \<open>How one start ends: the process comes up, it does not, or the handshake fails, in which
  case \<open>Start\<close> calls \<open>Stop\<close>.\<close>

datatype attempt = Comes_up | Does_not_start | Handshake_fails

definition restart_attempts :: nat where "restart_attempts = 5"

text \<open>\<open>Start\<close>: the stopping flag and whether it succeeded.\<close>

definition start_plugin :: "attempt \<Rightarrow> bool \<Rightarrow> bool \<times> bool" where
  "start_plugin a stopping =
     (case a of Comes_up \<Rightarrow> (False, True) | Does_not_start \<Rightarrow> (False, False) | Handshake_fails \<Rightarrow> (True, False))"

text \<open>The loop of \<open>restart\<close>: the starts made, whether the plugin is up, the stopping flag. The
  list says how each start would end.\<close>

fun restart :: "nat \<Rightarrow> attempt list \<Rightarrow> bool \<Rightarrow> nat \<times> bool \<times> bool" where
  "restart 0 as stopping = (0, False, stopping)"
| "restart (Suc n) as stopping =
     (if stopping then (0, False, stopping)
      else case as of
        [] \<Rightarrow> (0, False, stopping)
      | a # rest \<Rightarrow>
          (case start_plugin a stopping of
             (stopping', True) \<Rightarrow> (1, True, stopping')
           | (stopping', False) \<Rightarrow>
               (case restart n rest stopping' of (k, up, st) \<Rightarrow> (Suc k, up, st))))"


section \<open>The registry's invariant\<close>

text \<open>Every tool is registered under its own name; a packet has a topic, a hosted tool does not
  dispatch.\<close>

fun registered_ok :: "registered \<Rightarrow> bool" where
  "registered_ok (Packet t) = (\<exists>d. ts_dispatch t = Some d \<and> \<not> blank (ds_topic d))"
| "registered_ok (Hosted h t) = (ts_dispatch t = None)"

definition registry_ok :: "registry \<Rightarrow> bool" where
  "registry_ok reg \<longleftrightarrow> distinct (map fst reg) \<and>
     (\<forall>k r. map_of reg k = Some r \<longrightarrow> ts_name (spec_of r) = k \<and> registered_ok r)"

lemma register_tool_ok: "registry_ok reg \<Longrightarrow> registered_ok r \<Longrightarrow> registry_ok (register r reg)"
  by (auto simp: registry_ok_def register_def distinct_update update_conv)

lemma fold_register_ok: "registry_ok reg \<Longrightarrow> list_all registered_ok rs \<Longrightarrow> registry_ok (fold register rs reg)"
  by (induction rs arbitrary: reg) (auto intro: register_tool_ok)

lemma filter_registry_ok: "registry_ok reg \<Longrightarrow> registry_ok (filter P reg)"
  by (auto simp: registry_ok_def lookup_filter distinct_map_filter split: option.splits if_splits)

lemma new_dispatch_tool_ok: "new_dispatch_tool t = Inr r \<Longrightarrow> r = Packet t \<and> registered_ok r"
  by (auto simp: new_dispatch_tool_def split: option.splits if_splits)

lemma host_tools_ok: "host_tools h specs = Inr rs \<Longrightarrow> list_all registered_ok rs \<and> map spec_of rs = specs"
proof (induction specs arbitrary: rs)
  case (Cons t ts)
  from Cons.prems obtain r qs where r: "(if ts_dispatch t \<noteq> None then new_dispatch_tool t else Inr (Hosted h t)) = Inr r"
    and qs: "host_tools h ts = Inr qs" "rs = r # qs" by (auto split: sum.splits)
  from r new_dispatch_tool_ok [of t r] have "registered_ok r \<and> spec_of r = t" by (auto split: if_splits)
  with Cons.IH [OF qs(1)] qs(2) show ?case by simp
qed simp

lemma register_host_tools_ok: "registry_ok reg \<Longrightarrow> register_host_tools h specs reg = Inr reg' \<Longrightarrow> registry_ok reg'"
  using host_tools_ok [of h specs]
  by (auto simp: register_host_tools_def intro: fold_register_ok filter_registry_ok split: sum.splits)

lemma register_packets_ok: "registry_ok reg \<Longrightarrow> register_packets ts reg = (e, reg') \<Longrightarrow> registry_ok reg'"
proof (induction ts arbitrary: reg)
  case (Cons t ts)
  show ?case
  proof (cases "new_dispatch_tool t")
    case (Inl x)
    with Cons.prems show ?thesis by simp
  next
    case (Inr r)
    then have "registered_ok r" by (blast dest: new_dispatch_tool_ok)
    from Cons.IH [OF register_tool_ok [OF Cons.prems(1) this]] Cons.prems(2) Inr show ?thesis by simp
  qed
qed simp

lemma load_ok:
  assumes ok: "registry_ok (pm_plugins s)" and l: "load config started m0 s = (e, s')"
  shows "registry_ok (pm_plugins s')"
proof -
  let ?m = "m0\<lparr>mf_config := config\<rparr>"
  consider "pm_plugins s' = pm_plugins s"
    | e' where "register_packets (mf_tools ?m) (pm_plugins s) = (e', pm_plugins s')"
    | specs where "register_host_tools (pm_next s) specs (pm_plugins s) = Inr (pm_plugins s')"
  proof (cases "validate m0")
    case (Some x)
    with l show ?thesis by (intro that(1)) (simp add: load_def)
  next
    case None
    show ?thesis
    proof (cases "is_enabled ?m")
      case False
      with l None show ?thesis by (intro that(1)) (simp add: load_def)
    next
      case True
      show ?thesis
      proof (cases "needs_process ?m")
        case False
        obtain e' reg where "register_packets (mf_tools ?m) (pm_plugins s) = (e', reg)" by fastforce
        with l None True False show ?thesis by (intro that(2) [of e']) (auto simp: load_def)
      next
        case proc: True
        show ?thesis
        proof (cases started)
          case None
          with l \<open>validate m0 = None\<close> True proc show ?thesis by (intro that(1)) (simp add: load_def)
        next
          case (Some specs)
          show ?thesis
          proof (cases "register_host_tools (pm_next s) specs (pm_plugins s)")
            case (Inl x)
            with l None True proc Some show ?thesis by (intro that(1)) (auto simp: load_def Let_def)
          next
            case (Inr reg)
            with l None True proc Some show ?thesis by (intro that(3)) (auto simp: load_def Let_def)
          qed
        qed
      qed
    qed
  qed
  then show ?thesis
    by cases (use ok in \<open>auto intro: register_packets_ok register_host_tools_ok\<close>)
qed

lemma announce_ready_ok: "registry_ok (pm_plugins s) \<Longrightarrow> registry_ok (pm_plugins (announce_ready ready s))"
proof -
  have "registry_ok (pm_plugins s') \<Longrightarrow>
      registry_ok (pm_plugins (fold (\<lambda>h s. case ready h available of
          None \<Rightarrow> s
        | Some specs \<Rightarrow>
            (case register_host_tools h specs (pm_plugins s) of
               Inl e \<Rightarrow> s
             | Inr reg \<Rightarrow> s\<lparr>pm_plugins := reg\<rparr>)) hs s'))" for available hs and s' :: manager_state
  proof (induction hs arbitrary: s')
    case (Cons h hs)
    show ?case
      using Cons.IH Cons.prems register_host_tools_ok [OF Cons.prems, of h]
      by (auto split: option.splits sum.splits)
  qed simp
  then show "registry_ok (pm_plugins s) \<Longrightarrow> ?thesis" by (simp add: announce_ready_def Let_def)
qed

datatype manager_event =
    Load_plugin raw "tool_spec list option" manifest
  | Ready_pass "nat \<Rightarrow> str list \<Rightarrow> tool_spec list option"
  | Register_tool registered

fun manager_step :: "manager_state \<Rightarrow> manager_event \<Rightarrow> manager_state" where
  "manager_step s (Load_plugin config started m) = snd (load config started m s)"
| "manager_step s (Ready_pass ready) = announce_ready ready s"
| "manager_step s (Register_tool r) =
     (if registered_ok r then s\<lparr>pm_plugins := register r (pm_plugins s)\<rparr> else s)"

definition new_plugin_manager :: manager_state where
  "new_plugin_manager = \<lparr> pm_plugins = [], pm_hosts = [], pm_handlers = [], pm_next = 0 \<rparr>"

interpretation registry: guarded_machine manager_step "\<lambda>s. registry_ok (pm_plugins s)"
proof (unfold_locales, goal_cases)
  case (1 s e)
  then show ?case
    by (cases e) (auto intro: load_ok announce_ready_ok register_tool_ok prod.collapse [symmetric])
qed

lemma registry_ok_new: "registry_ok (pm_plugins new_plugin_manager)"
  by (simp add: registry_ok_def new_plugin_manager_def)

definition reached :: "manager_event list \<Rightarrow> registry" where
  "reached es = pm_plugins (fold (\<lambda>e s. manager_step s e) es new_plugin_manager)"

lemma reached_ok: "registry_ok (reached es)"
  unfolding reached_def by (rule registry.run_invar [OF registry_ok_new])

section \<open>Where the code does not do what it means to\<close>

text \<open>A revised list replaces a host's hosted tools but not its packets: a packet the plugin no
  longer declares stays callable.\<close>

lemma withdrawn_packet_survives:
  assumes "host_tools h old = Inr rs" and "Packet t \<in> set rs" and "distinct (map ts_name old)"
    and "host_tools h new = Inr rs'" and "ts_name t \<notin> ts_name ` set new"
    and "register_host_tools h old reg = Inr reg1" and "register_host_tools h new reg1 = Inr reg2"
    and "registry_ok reg"
  shows "lookup_tool reg2 (ts_name t) = Some (Packet t)"
proof -
  have keep: "map_of (fold register qs r) n = map_of r n" if "n \<notin> (\<lambda>q. ts_name (spec_of q)) ` set qs" for qs r n
    using that by (induction qs arbitrary: r) (auto simp: register_def update_conv)
  have put: "map_of (fold register qs r) (ts_name t) = Some (Packet t)"
    if "Packet t \<in> set qs" "distinct (map (\<lambda>q. ts_name (spec_of q)) qs)" for qs r
    using that
  proof (induction qs arbitrary: r)
    case (Cons q qs)
    show ?case
    proof (cases "Packet t = q")
      case True
      with Cons.prems(2) have "ts_name t \<notin> (\<lambda>q. ts_name (spec_of q)) ` set qs" by auto
      from keep [OF this, of "register q r"] True [symmetric] show ?thesis
        by (simp add: register_def [of "Packet t" r] update_conv)
    qed (use Cons in auto)
  qed simp
  have d: "distinct (map (\<lambda>q. ts_name (spec_of q)) rs)"
    using assms(3) host_tools_ok [OF assms(1)] by (metis (no_types, lifting) comp_apply list.map_comp map_eq_conv)
  have "registry_ok reg1" using assms(6,8) by (rule register_host_tools_ok [rotated])
  moreover have "map_of reg1 (ts_name t) = Some (Packet t)"
    using assms(1,6) put [OF assms(2) d] by (auto simp: register_host_tools_def)
  ultimately have "map_of (filter (\<lambda>kr. \<not> owned_by h (snd kr)) reg1) (ts_name t) = Some (Packet t)"
    by (simp add: lookup_filter registry_ok_def)
  moreover have "ts_name t \<notin> (\<lambda>q. ts_name (spec_of q)) ` set rs'"
    using assms(5) host_tools_ok [OF assms(4)] by (auto simp: image_iff)
  ultimately show ?thesis
    using assms(4,7) keep by (auto simp: register_host_tools_def lookup_tool_def)
qed

text \<open>One failed handshake ends the recovery: \<open>Start\<close> stops the process it could not talk to,
  which leaves the stopping flag set, and the next round of the loop takes that for a
  shutdown, whatever the four remaining attempts would have led to.\<close>

lemma failed_handshake_ends_recovery:
  "restart restart_attempts (Handshake_fails # as) False = (1, False, True)"
  by (simp add: restart_attempts_def start_plugin_def numeral_eq_Suc)

lemma recovery_otherwise_tries_all:
  "restart n (replicate n Does_not_start) False = (n, False, False)"
  by (induction n) (simp_all add: start_plugin_def)

text \<open>Conversations are bound by the session's id, which a resumed call keeps: when the old
  pipeline ends after the new one has started, it unbinds the new one.\<close>

lemma resumed_call_is_unbound:
  "find_sink (unbind_session sid (bind_session sid new (bind_session sid old m))) sid = Inl (No_live_session sid)"
  by (simp add: find_sink_def unbind_session_def)

lemma call_tool_executes:
  "call_tool reg session name args = Inr (Executes r session' args') \<Longrightarrow>
   map_of reg name = Some r \<and> \<not> ts_confirm (spec_of r)"
  by (auto simp: call_tool_def lookup_tool_def split: option.splits if_splits)

lemma serve_called:
  assumes "serve reg m own req = Inr (Called (Executes r session args))"
  shows "\<exists>name. map_of reg name = Some r \<and> \<not> ts_confirm (spec_of r) \<and> name \<notin> ts_name ` set own"
proof (cases req)
  case (Tools_call params)
  show ?thesis
  proof (cases params)
    case None
    with assms Tools_call show ?thesis by (simp add: serve_tool_call_def)
  next
    case (Some p)
    obtain name a sid where p: "p = (name, a, sid)" by (cases p)
    show ?thesis
    proof (cases "name = [] \<or> owns_tool own name")
      case True
      with assms Tools_call Some p show ?thesis by (simp add: serve_tool_call_def split: if_splits)
    next
      case False
      with assms Tools_call Some p have "call_tool reg sid name a = Inr (Executes r session args)"
        by (simp add: serve_tool_call_def split: sum.splits)
      from call_tool_executes [OF this] False show ?thesis by (auto simp: owns_tool_def list_ex_iff)
    qed
  qed
next
  case (Emit params)
  with assms show ?thesis
    by (cases params) (simp_all add: serve_emit_def find_sink_def split: if_splits option.splits)
next
  case (Llm_complete params)
  with assms show ?thesis
    by (cases params) (simp_all add: serve_complete_def find_sink_def split: if_splits option.splits prod.splits)
next
  case (Rag_search params)
  with assms show ?thesis
    by (cases params) (simp_all add: serve_search_def find_sink_def split: if_splits option.splits prod.splits)
qed (use assms in simp)

section \<open>Properties\<close>

text \<open>C8: after any loading and revising of plugins the ways around the gates are closed: a plugin
  that calls a tool of another reaches neither a tool that needs a spoken confirmation nor one
  of its own, the model reaches no internal tool, and only a packet, never a process, can be
  fired from an unfinished sentence.\<close>

theorem no_call_bypasses_the_gates:
  assumes "reg = reached es"
  shows "(serve reg m own req = Inr (Called (Executes r session args)) \<longrightarrow>
      map_of reg (ts_name (spec_of r)) = Some r \<and> \<not> ts_confirm (spec_of r) \<and>
      ts_name (spec_of r) \<notin> ts_name ` set own) \<and>
    (get_tool reg name = Some r \<longrightarrow> r \<in> set (tools reg) \<and> \<not> ts_internal (spec_of r) \<and> ts_name (spec_of r) = name) \<and>
    (t \<in> set (partial_tools reg) \<longrightarrow> ts_dispatch t \<noteq> None \<and> ts_on_partial t \<noteq> None)"
proof -
  have ok: "registry_ok reg" using assms reached_ok by simp
  then have name: "map_of reg k = Some r \<Longrightarrow> ts_name (spec_of r) = k" for k r by (simp add: registry_ok_def)
  have "map_of reg (ts_name (spec_of r)) = Some r \<and> \<not> ts_confirm (spec_of r) \<and>
      ts_name (spec_of r) \<notin> ts_name ` set own"
    if "serve reg m own req = Inr (Called (Executes r session args))"
    using serve_called [OF that] name by metis
  moreover have "r \<in> set (tools reg) \<and> \<not> ts_internal (spec_of r) \<and> ts_name (spec_of r) = name"
    if "get_tool reg name = Some r"
  proof -
    from that have m: "map_of reg name = Some r" "\<not> is_internal r"
      by (auto simp: get_tool_def lookup_tool_def split: option.splits if_splits)
    from map_of_SomeD [OF m(1)] m(2) have "r \<in> set (tools reg)" by (force simp: tools_def image_iff)
    with m name show ?thesis by (simp add: is_internal_def)
  qed
  moreover have "ts_dispatch t \<noteq> None \<and> ts_on_partial t \<noteq> None" if "t \<in> set (partial_tools reg)"
  proof -
    from that obtain k where "(k, Packet t) \<in> set reg" "ts_on_partial t \<noteq> None"
      by (auto simp: partial_tools_def split: registered.splits if_splits)
    moreover from this(1) ok have "map_of reg k = Some (Packet t)" by (simp add: registry_ok_def)
    moreover from this ok have "registered_ok (Packet t)" unfolding registry_ok_def by blast
    ultimately show ?thesis by auto
  qed
  ultimately show ?thesis by blast
qed

definition plain_tool :: "str \<Rightarrow> tool_spec" where
  "plain_tool n = \<lparr> ts_name = n, ts_description = [], ts_parameters_raw = None, ts_confirm = False,
     ts_thinking = False, ts_requires = [], ts_internal = False, ts_confirm_prompt = [], ts_dispatch = None,
     ts_on_partial = None \<rparr>"

theorem no_call_bypasses_the_gates_witness:
  "\<not> ts_confirm (plain_tool ''clock'') \<and> ts_name (plain_tool ''clock'') \<notin> ts_name ` set [plain_tool ''pay'']"
proof -
  let ?es = "[Register_tool (Hosted 3 (plain_tool ''clock''))]"
  have "reached ?es = [(''clock'', Hosted 3 (plain_tool ''clock''))]"
    by (simp add: reached_def new_plugin_manager_def register_def plain_tool_def)
  then have "serve (reached ?es) Map.empty [plain_tool ''pay''] (Tools_call (Some (''clock'', Absent, ''s''))) =
      Inr (Called (Executes (Hosted 3 (plain_tool ''clock'')) ''s'' (Json (JObj []))))"
    by (simp add: serve_tool_call_def owns_tool_def call_tool_def lookup_tool_def plain_tool_def)
  from no_call_bypasses_the_gates [OF refl, THEN conjunct1, THEN mp, OF this] show ?thesis by simp
qed

end
