(* ===== verification/Barge_In.thy ===== *)
theory Barge_In
  imports Go_Prelude
begin

text \<open>
  Interruptions: the text predicates of \<open>internal/pipeline/bargein.go\<close>, the loop of
  \<open>inbound.go\<close> that decides when a caller talking over the agent cuts it off, and the
  ducking of \<open>duck.go\<close> and \<open>outbound.go\<close>.

  The predicates are those of ASCII text: \<open>lastWord\<close>'s em dash, a character of three bytes,
  is left out of its punctuation.

  A Go map from words to \<open>true\<close> is the list of its words. The voice-activity detector's
  verdict on a frame is an input of the step (its own theory is \<open>Vad\<close>), as are the clock and
  the agent's state; what the callback of the speech recogniser stores between frames is an
  event of its own.
\<close>

section \<open>Vocabularies\<close>

definition readback_phrase_markers :: "str list" where
  "readback_phrase_markers = [
    ''is that right'', ''is that correct'', ''let me read that back'', ''just to confirm'',
    ''could you spell'']"

definition backchannel_word_tokens :: "str list" where
  "backchannel_word_tokens = [
    ''mm'', ''mhm'', ''mmhmm'', ''mhmm'', ''hmm'', ''hm'', ''uh'', ''huh'', ''uhhuh'', ''um'',
    ''umm'', ''yep'', ''yup'', ''yeah'', ''yea'', ''yes'', ''ya'', ''okay'', ''ok'', ''kay'',
    ''right'', ''sure'', ''alright'', ''cool'', ''nice'', ''wow'', ''oh'', ''ah'', ''aha'',
    ''gotcha'', ''got'', ''it'', ''i'', ''see'', ''true'', ''totally'', ''exactly'', ''thats'',
    ''that's'']"

definition barge_in_command_tokens :: "str list" where
  "barge_in_command_tokens = [
    ''stop'', ''wait'', ''pause'', ''cancel'', ''actually'', ''no'', ''hang'', ''hold'',
    ''repeat'', ''transfer'', ''operator'', ''human'', ''help'']"

definition barge_in_weak_tokens :: "str list" where
  "barge_in_weak_tokens = [
    ''i'', ''im'', ''i'm'', ''me'', ''my'', ''you'', ''your'', ''we'', ''it'', ''this'',
    ''that'', ''the'', ''a'', ''an'', ''and'', ''or'', ''but'', ''so'', ''to'', ''of'', ''for'',
    ''with'', ''on'', ''in'', ''at'', ''from'', ''about'', ''is'', ''are'', ''was'', ''were'',
    ''be'', ''can'', ''could'', ''would'', ''should'', ''will'', ''do'', ''does'', ''did'',
    ''need'', ''want'', ''um'', ''uh'', ''uhh'', ''umm'', ''hmm'', ''okay'', ''ok'', ''yeah'',
    ''yes'', ''yep'', ''right'', ''sure'']"

definition incomplete_tail_words :: "str list" where
  "incomplete_tail_words = [
    ''um'', ''uh'', ''er'', ''hmm'', ''like'', ''and'', ''or'', ''but'', ''so'', ''because'',
    ''if'', ''when'', ''then'', ''while'', ''as'', ''that'', ''which'', ''who'', ''where'',
    ''why'', ''how'', ''the'', ''a'', ''an'', ''my'', ''your'', ''this'', ''to'', ''of'',
    ''for'', ''with'', ''at'', ''on'', ''in'', ''by'', ''from'', ''about'', ''into'', ''onto'',
    ''over'', ''under'', ''is'', ''are'', ''was'', ''were'', ''be'', ''been'', ''being'', ''am'',
    ''do'', ''does'', ''did'', ''have'', ''has'', ''had'', ''will'', ''would'', ''can'',
    ''could'', ''shall'', ''should'', ''may'', ''might'', ''must'', ''i'', ''you'', ''he'',
    ''she'', ''we'', ''they'', ''it'']"

definition dictation_tail_words :: "str list" where
  "dictation_tail_words = [
    ''dot'', ''dash'', ''hyphen'', ''underscore'', ''plus'', ''slash'', ''period'', ''point'',
    ''gmail'', ''hotmail'', ''outlook'', ''yahoo'', ''icloud'', ''mail'']"

section \<open>Predicates\<close>

definition normalized_transcript_text :: "str \<Rightarrow> str" where
  "normalized_transcript_text s =
     join '' '' (str_fields (map (\<lambda>c. if is_letter c \<or> is_digit c \<or> c = CHR 0x27 then c else CHR '' '')
       (to_lower s)))"

definition punct :: str where
  "punct = '',.!?;:-'' @ [CHR 0x27, CHR 0x22]"

definition last_word :: "str \<Rightarrow> str" where
  "last_word s =
     (let fs = str_fields (to_lower s)
      in if fs = [] then [] else trim (\<lambda>c. c \<in> set punct) (last fs))"

fun is_backchannel_only :: "str list \<Rightarrow> bool" where
  "is_backchannel_only tokens =
     (tokens \<noteq> [] \<and> list_all (\<lambda>tok. tok \<in> set backchannel_word_tokens) tokens)"

definition is_meaningful_barge_in_transcript :: "str \<Rightarrow> bool" where
  "is_meaningful_barge_in_transcript s =
     (let tokens = str_fields (normalized_transcript_text s) in
      if tokens = [] then False
      else if list_ex (\<lambda>tok. tok \<in> set barge_in_command_tokens) tokens then True
      else if is_backchannel_only tokens then False
      else let content_words =
          length (filter (\<lambda>tok. 3 \<le> length tok \<and> tok \<notin> set barge_in_weak_tokens) tokens)
        in 1 \<le> content_words \<and> 2 \<le> length tokens)"

definition is_acknowledgement_only :: "str \<Rightarrow> bool" where
  "is_acknowledgement_only s = is_backchannel_only (str_fields (normalized_transcript_text s))"

fun strong_command :: "str list \<Rightarrow> bool" where
  "strong_command [] = False"
| "strong_command (tok # toks) =
     (tok = ''stop'' \<or> tok = ''cancel'' \<or>
      tok = ''hang'' \<and> (case toks of [] \<Rightarrow> False | t # _ \<Rightarrow> t = ''up'') \<or> strong_command toks)"

definition is_strong_barge_in_command :: "str \<Rightarrow> bool" where
  "is_strong_barge_in_command s = strong_command (str_fields (normalized_transcript_text s))"

definition ends_terminal :: "str \<Rightarrow> bool" where
  "ends_terminal s =
     (let t = trim_right (\<lambda>c. c \<in> set ([CHR 0x27, CHR 0x22] @ '')]}'')) (trim_space s)
      in t \<noteq> [] \<and> last t \<in> set ''.!?'')"

definition ends_incomplete :: "str \<Rightarrow> bool" where
  "ends_incomplete s \<longleftrightarrow> last_word s \<in> set incomplete_tail_words"

definition ends_dictation :: "str \<Rightarrow> bool" where
  "ends_dictation s =
     (let w = last_word s in
      if w = [] then False
      else if w \<in> set dictation_tail_words then True
      else if length w = 1 \<and> is_lower (hd w) then True
      else list_all is_digit w)"

text \<open>\<open>readbackInProgress\<close>: whether the agent is speaking a confirmation.\<close>

definition readback_in_progress :: "bool \<Rightarrow> str \<Rightarrow> bool" where
  "readback_in_progress speaking agent_text =
     (speaking \<and> agent_text \<noteq> [] \<and>
      (let normalized = '' '' @ normalized_transcript_text agent_text @ '' ''
       in list_ex (\<lambda>m. contains_str normalized ('' '' @ m @ '' '')) readback_phrase_markers))"

section \<open>Ducking\<close>

text \<open>One sample of ducked audio: a signed 16-bit value through 32-bit arithmetic, Go's division.\<close>

definition duck_gain_numerator :: int where "duck_gain_numerator = 1"

definition duck_gain_denominator :: int where "duck_gain_denominator = 4"

definition duck_sample :: "16 word \<Rightarrow> 16 word" where
  "duck_sample v =
     word_of_int (go_quot (sint (word_of_int (sint v * duck_gain_numerator) :: 32 word)) duck_gain_denominator)"

definition frame_size :: nat where
  "frame_size = 320"

definition outgoing_samples :: "bool \<Rightarrow> 16 word list \<Rightarrow> 16 word list" where
  "outgoing_samples muted samples =
     (let s = (if length samples < frame_size
        then samples @ replicate (frame_size - length samples) 0 else samples)
      in if muted then map duck_sample s else s)"

section \<open>The inbound loop\<close>

text \<open>
  The variables of \<open>runInbound\<close> and the pipeline fields it writes: whether a candidate is
  pending and since when, what the recogniser last said, whether outgoing audio is ducked,
  the capacity-1 interrupt channel, how often the detector was reset.
\<close>

record inbound =
  ib_pending :: bool
  ib_start :: instant
  ib_has_partial :: bool
  ib_partial :: str
  ib_muted :: bool
  ib_interrupt :: bool
  ib_resets :: nat

definition new_inbound :: inbound where
  "new_inbound = \<lparr> ib_pending = False, ib_start = 0, ib_has_partial = False, ib_partial = [],
     ib_muted = False, ib_interrupt = False, ib_resets = 0 \<rparr>"

definition maybe_start_duck :: "bool \<Rightarrow> inbound \<Rightarrow> inbound" where
  "maybe_start_duck speaking s = (if \<not> speaking then s else s\<lparr>ib_muted := True\<rparr>)"

definition maybe_restore_duck :: "inbound \<Rightarrow> inbound" where
  "maybe_restore_duck s = s\<lparr>ib_muted := False\<rparr>"

definition signal_interrupt :: "inbound \<Rightarrow> inbound" where
  "signal_interrupt s = s\<lparr>ib_interrupt := True\<rparr>"

definition reset_vad :: "inbound \<Rightarrow> inbound" where
  "reset_vad s = s\<lparr>ib_resets := ib_resets s + 1\<rparr>"

text \<open>What a frame finds: the clock, the detector's verdict, whether the agent speaks and what,
  and the configuration.\<close>

record frame_input =
  fi_now :: instant
  fi_vad :: bool
  fi_speaking :: bool
  fi_agent_text :: str
  fi_barge_in :: bool
  fi_guard :: bool
  fi_emits_partials :: bool

definition backchannel_window :: duration where
  "backchannel_window = 600 * millisecond"

definition inbound_frame :: "frame_input \<Rightarrow> inbound \<Rightarrow> inbound" where
  "inbound_frame f s =
     (if \<not> fi_barge_in f then s
      else if ib_pending s then
        (if backchannel_window \<le> fi_now f - ib_start s then
           signal_interrupt (reset_vad (maybe_restore_duck (s\<lparr>ib_pending := False\<rparr>)))
         else if \<not> fi_vad f then
           (if \<not> is_meaningful_barge_in_transcript (ib_partial s) then
              maybe_restore_duck (s\<lparr>ib_pending := False, ib_has_partial := False\<rparr>)
            else if fi_guard f \<and> readback_in_progress (fi_speaking f) (fi_agent_text f) \<and>
                \<not> is_strong_barge_in_command (ib_partial s) then
              maybe_restore_duck (s\<lparr>ib_pending := False, ib_has_partial := False\<rparr>)
            else signal_interrupt (reset_vad (s\<lparr>ib_pending := False\<rparr>)))
         else s)
      else if fi_vad f \<and> fi_speaking f \<and> (\<not> fi_emits_partials f \<or> ib_has_partial s) then
        maybe_start_duck (fi_speaking f)
          (s\<lparr>ib_pending := True, ib_start := fi_now f, ib_has_partial := False\<rparr>)
      else s)"

text \<open>The recogniser's callback: a final ends the utterance, a partial is remembered.\<close>

definition on_transcript :: "bool \<Rightarrow> str \<Rightarrow> inbound \<Rightarrow> inbound" where
  "on_transcript final txt s =
     (if final then s\<lparr>ib_has_partial := False, ib_partial := []\<rparr>
      else let trimmed = to_lower (trim_space txt) in
        s\<lparr>ib_partial := trimmed, ib_has_partial := (ib_has_partial s \<or> 2 \<le> length trimmed)\<rparr>)"

datatype inbound_event =
    Frame frame_input
  | Transcript bool str
  | Take_interrupt

fun inbound_step :: "inbound \<Rightarrow> inbound_event \<Rightarrow> inbound" where
  "inbound_step s (Frame f) = inbound_frame f s"
| "inbound_step s (Transcript final txt) = on_transcript final txt s"
| "inbound_step s Take_interrupt = s\<lparr>ib_interrupt := False\<rparr>"

section \<open>The predicates agree with each other\<close>

lemma backchannel_not_command: "tok \<in> set backchannel_word_tokens \<Longrightarrow> tok \<notin> set barge_in_command_tokens"
proof -
  have "list_all (\<lambda>t. t \<notin> set barge_in_command_tokens) backchannel_word_tokens" by code_simp
  then show "tok \<in> set backchannel_word_tokens \<Longrightarrow> tok \<notin> set barge_in_command_tokens"
    by (simp add: list_all_iff)
qed

lemma strong_is_command: "strong_command toks \<Longrightarrow> list_ex (\<lambda>t. t \<in> set barge_in_command_tokens) toks"
proof (induction toks)
  case (Cons tok toks)
  have "{''stop'', ''cancel'', ''hang''} \<subseteq> set barge_in_command_tokens"
    by (simp add: barge_in_command_tokens_def)
  with Cons show ?case by auto
qed simp

lemma backchannel_no_command:
  "is_backchannel_only toks \<Longrightarrow> \<not> list_ex (\<lambda>t. t \<in> set barge_in_command_tokens) toks"
  using backchannel_not_command by (auto simp: list_all_iff list_ex_iff)

section \<open>Ducked audio\<close>

lemma duck_sample_value: "sint (duck_sample v) = go_quot (sint v) 4"
proof -
  have b: "- (2 ^ 15) \<le> sint v" "sint v < 2 ^ 15"
    using sint_range_size [of v] by (auto simp: word_size)
  then have "sint (word_of_int (sint v * 1) :: 32 word) = sint v"
    by (subst sint_sbintrunc') (simp add: signed_take_bit_int_eq_self)
  moreover have "- (2 ^ 15) \<le> go_quot (sint v) 4" "go_quot (sint v) 4 < 2 ^ 15"
    using b by (auto simp: go_quot_def sgn_if)
  then have "sint (word_of_int (go_quot (sint v) 4) :: 16 word) = go_quot (sint v) 4"
    by (subst sint_sbintrunc') (simp add: signed_take_bit_int_eq_self)
  ultimately show ?thesis
    by (simp only: duck_sample_def duck_gain_numerator_def duck_gain_denominator_def)
qed

section \<open>Runs of the inbound loop\<close>

definition run_inbound :: "inbound_event list \<Rightarrow> inbound \<Rightarrow> inbound" where
  "run_inbound evs s = fold (\<lambda>e s. inbound_step s e) evs s"

lemma run_inbound_simps [simp]:
  "run_inbound [] s = s"
  "run_inbound (evs @ [e]) s = inbound_step (run_inbound evs s) e"
  by (simp_all add: run_inbound_def)

text \<open>A frame that opens the suppression window, and one that fires.\<close>

definition opens_window :: "frame_input \<Rightarrow> bool" where
  "opens_window f \<longleftrightarrow> fi_barge_in f \<and> fi_vad f \<and> fi_speaking f"

definition fires :: "frame_input \<Rightarrow> inbound \<Rightarrow> bool" where
  "fires f s \<longleftrightarrow> fi_barge_in f \<and> ib_pending s \<and>
     (backchannel_window \<le> fi_now f - ib_start s \<or>
      \<not> fi_vad f \<and> is_meaningful_barge_in_transcript (ib_partial s) \<and>
      (fi_guard f \<and> readback_in_progress (fi_speaking f) (fi_agent_text f) \<longrightarrow>
         is_strong_barge_in_command (ib_partial s)))"

lemma duck_simps [simp]:
  "ib_pending (maybe_start_duck b s) = ib_pending s" "ib_start (maybe_start_duck b s) = ib_start s"
  "ib_interrupt (maybe_start_duck b s) = ib_interrupt s"
  "ib_pending (maybe_restore_duck s) = ib_pending s" "ib_start (maybe_restore_duck s) = ib_start s"
  "ib_interrupt (maybe_restore_duck s) = ib_interrupt s"
  "ib_pending (signal_interrupt s) = ib_pending s" "ib_start (signal_interrupt s) = ib_start s"
  "ib_interrupt (signal_interrupt s)" "ib_muted (signal_interrupt s) = ib_muted s"
  "ib_pending (reset_vad s) = ib_pending s" "ib_start (reset_vad s) = ib_start s"
  "ib_interrupt (reset_vad s) = ib_interrupt s" "ib_muted (reset_vad s) = ib_muted s"
  "ib_partial (reset_vad s) = ib_partial s" "ib_partial (maybe_restore_duck s) = ib_partial s"
  by (simp_all add: maybe_start_duck_def maybe_restore_duck_def signal_interrupt_def reset_vad_def)

lemma frame_interrupts: "ib_interrupt (inbound_frame f s) \<longleftrightarrow> ib_interrupt s \<or> fires f s"
  by (auto simp: inbound_frame_def fires_def)

lemma frame_pending:
  "ib_pending (inbound_frame f s) \<Longrightarrow>
   ib_pending s \<and> ib_start (inbound_frame f s) = ib_start s \<or>
   opens_window f \<and> ib_start (inbound_frame f s) = fi_now f"
  by (auto simp: inbound_frame_def opens_window_def split: if_splits)

lemma transcript_frame [simp]:
  "ib_pending (on_transcript b txt s) = ib_pending s" "ib_start (on_transcript b txt s) = ib_start s"
  "ib_interrupt (on_transcript b txt s) = ib_interrupt s" "ib_muted (on_transcript b txt s) = ib_muted s"
  by (simp_all add: on_transcript_def Let_def)

lemma pending_was_opened:
  "ib_pending (run_inbound evs new_inbound) \<Longrightarrow>
   \<exists>f. Frame f \<in> set evs \<and> opens_window f \<and> ib_start (run_inbound evs new_inbound) = fi_now f"
proof (induction evs rule: rev_induct)
  case Nil
  then show ?case by (simp add: new_inbound_def)
next
  case (snoc e evs)
  show ?case
  proof (cases e)
    case (Frame f)
    with snoc.prems frame_pending [of f "run_inbound evs new_inbound"] snoc.IH show ?thesis by auto
  qed (use snoc in auto)
qed

lemma interrupt_was_fired:
  "ib_interrupt (run_inbound evs new_inbound) \<Longrightarrow>
   \<exists>pre f post. evs = pre @ Frame f # post \<and> fires f (run_inbound pre new_inbound)"
proof (induction evs rule: rev_induct)
  case Nil
  then show ?case by (simp add: new_inbound_def)
next
  case (snoc e evs)
  show ?case
  proof (cases "ib_interrupt (run_inbound evs new_inbound)")
    case True
    with snoc.IH obtain pre f post where
      "evs = pre @ Frame f # post" "fires f (run_inbound pre new_inbound)" by blast
    then show ?thesis by (intro exI [of _ pre] exI [of _ f] exI [of _ "post @ [e]"]) simp
  next
    case False
    with snoc.prems obtain f where "e = Frame f" "fires f (run_inbound evs new_inbound)"
      using frame_interrupts by (cases e) auto
    then show ?thesis by (intro exI [of _ evs] exI [of _ f] exI [of _ "[]"]) simp
  qed
qed

lemma quiet_frame_muted:
  "\<not> ib_pending s \<Longrightarrow> \<not> (fi_vad f \<and> fi_speaking f) \<Longrightarrow> inbound_frame f s = s"
  by (auto simp: inbound_frame_def)

lemma quiet_run_muted:
  "\<not> ib_pending s \<Longrightarrow> \<forall>f. Frame f \<in> set evs \<longrightarrow> \<not> (fi_vad f \<and> fi_speaking f) \<Longrightarrow>
   ib_muted (run_inbound evs s) = ib_muted s \<and> \<not> ib_pending (run_inbound evs s)"
proof (induction evs rule: rev_induct)
  case (snoc e evs)
  then have ih: "ib_muted (run_inbound evs s) = ib_muted s" "\<not> ib_pending (run_inbound evs s)"
    by simp_all
  show ?case
  proof (cases e)
    case (Frame f)
    have "\<not> (fi_vad f \<and> fi_speaking f)" using snoc.prems(2) [rule_format, of f] Frame by simp
    from quiet_frame_muted [OF ih(2) this] ih Frame show ?thesis by simp
  next
    case (Transcript b w)
    with ih show ?thesis by simp
  next
    case Take_interrupt
    with ih show ?thesis by simp
  qed
qed simp

section \<open>Properties\<close>

text \<open>The agent is interrupted only by a caller who was heard while the agent spoke: before
  the frame that fires there is one at which the detector heard speech over the agent's, and
  either 600 ms have passed since, or the speech ended with a transcript that is worth it
  (no mere acknowledgement, and during a guarded readback an explicit command).\<close>

theorem barge_in_needs_speech_over_agent:
  assumes "ib_interrupt (run_inbound evs new_inbound)"
  shows "\<exists>pre f post g. evs = pre @ Frame f # post \<and> Frame g \<in> set pre \<and>
    fi_vad g \<and> fi_speaking g \<and> fi_barge_in f \<and>
    (600 * millisecond \<le> fi_now f - fi_now g \<or>
     \<not> fi_vad f \<and> is_meaningful_barge_in_transcript (ib_partial (run_inbound pre new_inbound)) \<and>
     (fi_guard f \<and> readback_in_progress (fi_speaking f) (fi_agent_text f) \<longrightarrow>
        is_strong_barge_in_command (ib_partial (run_inbound pre new_inbound))))"
proof -
  obtain pre f post where ev: "evs = pre @ Frame f # post" and fire: "fires f (run_inbound pre new_inbound)"
    using interrupt_was_fired [OF assms] by blast
  from pending_was_opened [of pre] fire obtain g where "Frame g \<in> set pre" "opens_window g"
      "ib_start (run_inbound pre new_inbound) = fi_now g"
    by (auto simp: fires_def)
  with ev fire show ?thesis
    by (intro exI [of _ pre] exI [of _ f] exI [of _ post] exI [of _ g])
      (auto simp: fires_def opens_window_def backchannel_window_def)
qed

definition sample_frame :: "instant \<Rightarrow> bool \<Rightarrow> bool \<Rightarrow> frame_input" where
  "sample_frame now voice speaking = \<lparr> fi_now = now, fi_vad = voice, fi_speaking = speaking,
     fi_agent_text = [], fi_barge_in = True, fi_guard = False, fi_emits_partials = True \<rparr>"

theorem barge_in_needs_speech_over_agent_witness:
  "\<exists>g. Frame g \<in> set [Transcript False ''hello'', Frame (sample_frame 0 True True)] \<and> fi_speaking g"
proof -
  let ?evs = "[Transcript False ''hello'', Frame (sample_frame 0 True True),
    Frame (sample_frame (700 * millisecond) True True)]"
  have "ib_interrupt (run_inbound ?evs new_inbound)" by code_simp
  from barge_in_needs_speech_over_agent [OF this] show ?thesis
    by (auto simp: Cons_eq_append_conv)
qed

text \<open>The two thresholds are consistent: a turn of mere acknowledgements never counts as
  worth an interruption, and a strong command always does.\<close>

theorem barge_in_predicates_agree:
  "(is_acknowledgement_only s \<longrightarrow> \<not> is_meaningful_barge_in_transcript s) \<and>
   (is_strong_barge_in_command s \<longrightarrow>
      is_meaningful_barge_in_transcript s \<and> \<not> is_acknowledgement_only s)"
proof -
  let ?t = "str_fields (normalized_transcript_text s)"
  have "\<not> is_meaningful_barge_in_transcript s" if "is_backchannel_only ?t"
    using that backchannel_no_command [OF that]
    by (simp add: is_meaningful_barge_in_transcript_def Let_def)
  moreover have "is_meaningful_barge_in_transcript s" if "strong_command ?t"
    using strong_is_command [OF that] by (auto simp: is_meaningful_barge_in_transcript_def Let_def)
  ultimately show ?thesis
    by (auto simp: is_acknowledgement_only_def is_strong_barge_in_command_def)
qed

theorem barge_in_predicates_agree_witness:
  "\<not> is_meaningful_barge_in_transcript ''Yeah, okay.'' \<and> is_meaningful_barge_in_transcript ''hang up''"
proof -
  have "is_acknowledgement_only ''Yeah, okay.''" "is_strong_barge_in_command ''hang up''" by code_simp+
  then show ?thesis using barge_in_predicates_agree by blast
qed

text \<open>An interruption by a short utterance leaves the duck on. From then on every frame the
  sender puts on the wire is attenuated to a quarter, the next answer included, until the
  caller is next heard over the agent; the other three ways out of the window restore the
  volume.\<close>

theorem short_interruption_leaves_duck_on:
  assumes "ib_pending s" and "ib_muted s" and "fi_barge_in f" and "\<not> fi_vad f"
    and "fi_now f - ib_start s < backchannel_window"
    and "is_meaningful_barge_in_transcript (ib_partial s)" and "\<not> fi_guard f"
    and "\<forall>g. Frame g \<in> set evs \<longrightarrow> \<not> (fi_vad g \<and> fi_speaking g)"
    and "length samples = frame_size" and "i < frame_size"
  shows "ib_interrupt (inbound_frame f s) \<and>
    sint (outgoing_samples (ib_muted (run_inbound evs (inbound_frame f s))) samples ! i) =
      go_quot (sint (samples ! i)) 4"
proof -
  have "ib_muted (inbound_frame f s)" "\<not> ib_pending (inbound_frame f s)" "ib_interrupt (inbound_frame f s)"
    using assms(1-7) by (simp_all add: inbound_frame_def)
  with quiet_run_muted [OF _ assms(8), of "inbound_frame f s"] assms(9,10) show ?thesis
    by (simp add: outgoing_samples_def duck_sample_value)
qed

theorem short_interruption_leaves_duck_on_witness:
  "sint (outgoing_samples (ib_muted (run_inbound [Transcript True ''stop''] (inbound_frame (sample_frame 100 False True)
     (run_inbound [Transcript False ''stop'', Frame (sample_frame 0 True True)] new_inbound))))
     (replicate 320 1000) ! 0) = 250"
proof -
  let ?s = "run_inbound [Transcript False ''stop'', Frame (sample_frame 0 True True)] new_inbound"
  have "ib_pending ?s" "ib_muted ?s" "ib_start ?s = 0"
    "is_meaningful_barge_in_transcript (ib_partial ?s)" by code_simp+
  then show ?thesis
    using short_interruption_leaves_duck_on [of ?s "sample_frame 100 False True" "[Transcript True ''stop'']"
        "replicate 320 1000" 0]
    by (simp add: sample_frame_def backchannel_window_def frame_size_def go_quot_def)
qed

end
