(* ===== verification/Turn_Buffer.thy ===== *)
theory Turn_Buffer
  imports Barge_In
begin

text \<open>
  The turn buffer (\<open>internal/pipeline/turnbuffer.go\<close>) with the retrieval it prefetches
  (\<open>rag_gate.go\<close>, \<open>rag_prefetch.go\<close>). A final transcript opens or extends the pending
  turn and re-arms a timer; the turn is passed on when the timer fires. A step is one
  iteration of the goroutine's \<open>select\<close>; what it passes on is its output. Waiting for the
  search itself is outside the model: a prefetch is known by its query.
\<close>

section \<open>Words of a merged text\<close>

lemma fields_aux_append_space:
  "is_space d \<Longrightarrow> fields_aux acc (s @ d # t) = fields_aux acc s @ fields_aux [] t"
  by (induction acc s rule: fields_aux.induct) simp_all

lemma fields_append: "str_fields (s @ '' '' @ t) = str_fields s @ str_fields t"
  by (simp add: str_fields_def fields_aux_append_space)

lemma fields_aux_spaces: "list_all is_space t \<Longrightarrow> fields_aux acc (s @ t) = fields_aux acc s"
proof (induction acc s rule: fields_aux.induct)
  case (1 acc)
  then show ?case by (induction t arbitrary: acc) simp_all
qed simp_all

lemma fields_trim_right: "str_fields (trim_right is_space s) = str_fields s"
proof -
  have "s = trim_right is_space s @ rev (takeWhile is_space (rev s))"
    by (metis rev_append rev_rev_ident takeWhile_dropWhile_id trim_right_def)
  moreover have "list_all is_space (rev (takeWhile is_space (rev s)))"
    by (auto simp: list_all_iff dest: set_takeWhileD)
  ultimately show ?thesis
    by (metis fields_aux_spaces str_fields_def)
qed

lemma fields_drop_spaces: "str_fields (dropWhile is_space s) = str_fields s"
  by (induction s) (simp_all add: str_fields_def)

lemma fields_trim_space [simp]: "str_fields (trim_space s) = str_fields s"
  by (simp add: trim_space_def trim_def fields_trim_right fields_drop_spaces)

lemma fields_Nil [simp]: "str_fields [] = []"
  by (simp add: str_fields_def)

section \<open>The retrieval gate\<close>

definition filler_words :: "str list" where
  "filler_words =
    [''yes'', ''yeah'', ''yep'', ''yup'', ''no'', ''nope'', ''nah'',
     ''sure'', ''okay'', ''alright'', ''right'', ''fine'',
     ''thanks'', ''thank'', ''please'', ''welcome'',
     ''hi'', ''hello'', ''hey'', ''bye'', ''goodbye'',
     ''um'', ''uh'', ''uhh'', ''umm'', ''hmm'', ''mhm'',
     ''the'', ''and'', ''but'', ''for'', ''not'', ''with'',
     ''you'', ''your'', ''yours'', ''yourself'',
     ''are'', ''was'', ''were'', ''been'', ''being'',
     ''have'', ''has'', ''had'', ''having'',
     ''can'', ''could'', ''will'', ''would'',
     ''shall'', ''should'', ''may'', ''might'', ''must'',
     ''this'', ''that'', ''these'', ''those'',
     ''what'', ''which'', ''who'', ''whom'', ''whose'',
     ''where'', ''when'', ''why'', ''how'',
     ''just'', ''very'', ''too'', ''also'', ''now'',
     ''some'', ''any'', ''all'', ''more'', ''most'',
     ''here'', ''there'', ''then'', ''than'',
     ''like'', ''want'', ''need'',
     ''about'', ''from'', ''into'', ''onto'',
     ''one'', ''two'', ''three'', ''four'', ''five'',
     ''six'', ''seven'', ''eight'', ''nine'', ''ten'',
     ''eleven'', ''twelve'', ''thirteen'', ''fourteen'',
     ''fifteen'', ''sixteen'', ''seventeen'', ''eighteen'', ''nineteen'',
     ''twenty'', ''thirty'', ''forty'', ''fifty'',
     ''sixty'', ''seventy'', ''eighty'', ''ninety'',
     ''hundred'', ''thousand'', ''million'',
     ''first'', ''second'', ''third'', ''fourth'', ''fifth'',
     ''morning'', ''afternoon'', ''evening'', ''night'', ''midday'',
     ''today'', ''tomorrow'', ''yesterday'', ''tonight'',
     ''oclock'',
     ''monday'', ''tuesday'', ''wednesday'', ''thursday'',
     ''friday'', ''saturday'', ''sunday'',
     ''january'', ''february'', ''march'', ''april'', ''june'',
     ''july'', ''august'', ''september'', ''october'', ''november'', ''december'',
     ''week'', ''month'', ''year'', ''day'', ''hour'', ''minute'',
     ''next'', ''last'']"

definition should_skip_rag :: "str \<Rightarrow> bool" where
  "should_skip_rag user_text =
     (let b = map (\<lambda>r. if is_letter r then lower_char r else CHR '' '') user_text
      in \<not> list_ex (\<lambda>tok. 3 \<le> length tok \<and> tok \<notin> set filler_words) (str_fields b))"

definition rag_search_query :: "str \<Rightarrow> str" where
  "rag_search_query user_text = trim_space user_text"

text \<open>A turn is skipped exactly when each of its parts would be: merging finals never turns a
  question worth a search into one that is not.\<close>

lemma is_letter_blank [simp]: "\<not> is_letter CHR '' ''"
  by (simp add: is_letter_def is_upper_def is_lower_def)

lemma skip_merged:
  "should_skip_rag (s @ '' '' @ t) \<longleftrightarrow> should_skip_rag s \<and> should_skip_rag t"
  by (simp add: should_skip_rag_def Let_def fields_append [simplified])

text \<open>The prefetch slot holds the query of the search in flight.\<close>

definition start_rag_prefetch :: "bool \<Rightarrow> str \<Rightarrow> str option \<Rightarrow> str option" where
  "start_rag_prefetch enabled pending_text slot =
     (if \<not> enabled then slot
      else if should_skip_rag pending_text then slot
      else Some (rag_search_query pending_text))"

definition take_rag_prefetch :: "str \<Rightarrow> str option \<Rightarrow> str option \<times> str option" where
  "take_rag_prefetch query slot =
     (None, case slot of None \<Rightarrow> None | Some q \<Rightarrow> if q \<noteq> query then None else Some q)"

section \<open>The buffer\<close>

record transcript_event =
  te_text :: str
  te_final :: bool
  te_start :: instant
  te_merge_ms :: int
  te_over :: bool

record turn_buffer =
  tb_pending :: "transcript_event option"
  tb_timer :: "instant option"
  tb_began :: "instant option"
  tb_prefetched :: bool

datatype turn_input =
    Final instant transcript_event
  | Timer instant

datatype turn_output =
    Turn transcript_event
  | Prefetch str

definition turn_merge_max :: duration where
  "turn_merge_max = 2500 * millisecond"

definition turn_merge_incomplete :: duration where
  "turn_merge_incomplete = 900 * millisecond"

definition merge_wait :: "str \<Rightarrow> duration \<Rightarrow> duration" where
  "merge_wait txt base =
     (if ends_terminal txt then base
      else if ends_incomplete txt \<or> ends_dictation txt then turn_merge_incomplete
      else base)"

definition merge_base :: "int \<Rightarrow> duration" where
  "merge_base turn_merge_ms =
     (let base = turn_merge_ms * millisecond in if base \<le> 0 then 350 * millisecond else base)"

definition new_turn_buffer :: turn_buffer where
  "new_turn_buffer = \<lparr> tb_pending = None, tb_timer = None, tb_began = None, tb_prefetched = False \<rparr>"

definition flush :: "instant \<Rightarrow> turn_buffer \<Rightarrow> turn_buffer \<times> turn_output list" where
  "flush now b =
     (case tb_pending b of
        None \<Rightarrow> (b, [])
      | Some ev \<Rightarrow>
          (b\<lparr>tb_pending := None, tb_prefetched := False, tb_timer := None\<rparr>,
           [Turn (case tb_began b of
                    None \<Rightarrow> ev
                  | Some t \<Rightarrow> ev\<lparr>te_merge_ms := go_quot (now - t) millisecond\<rparr>)]))"

text \<open>Opening or extending the pending turn; afterwards there is a pending turn and a beginning.\<close>

definition extend_turn :: "instant \<Rightarrow> transcript_event \<Rightarrow> str \<Rightarrow> turn_buffer \<Rightarrow>
    turn_buffer \<times> transcript_event \<times> instant" where
  "extend_turn now ev txt b =
     (case tb_pending b of
        None \<Rightarrow>
          let merged = ev\<lparr>te_text := txt\<rparr>
          in (b\<lparr>tb_pending := Some merged, tb_began := Some now\<rparr>, merged, now)
      | Some p \<Rightarrow>
          let merged = p\<lparr>te_text := trim_space (te_text p @ '' '' @ txt),
                         te_over := te_over p \<or> te_over ev\<rparr>
          in (b\<lparr>tb_pending := Some merged\<rparr>, merged,
              case tb_began b of None \<Rightarrow> 0 | Some t \<Rightarrow> t))"

definition arm_turn :: "duration \<Rightarrow> bool \<Rightarrow> instant \<Rightarrow> turn_buffer \<times> transcript_event \<times> instant \<Rightarrow>
    turn_buffer \<times> turn_output list" where
  "arm_turn base rag_prefetch now x =
     (case x of (b, ev, began) \<Rightarrow>
        let wait = merge_wait (te_text ev) base;
            elapsed = now - began;
            remaining = turn_merge_max - elapsed
        in if turn_merge_max < elapsed + wait \<and> remaining \<le> 0 then flush now b
           else let wait' = (if turn_merge_max < elapsed + wait then remaining else wait);
                    ask = \<not> tb_prefetched b \<and> rag_prefetch
                in (b\<lparr>tb_prefetched := (tb_prefetched b \<or> rag_prefetch), tb_timer := Some (now + wait')\<rparr>,
                    if ask then [Prefetch (te_text ev)] else []))"

fun turn_step :: "duration \<Rightarrow> bool \<Rightarrow> turn_buffer \<Rightarrow> turn_input \<Rightarrow> turn_buffer \<times> turn_output list" where
  "turn_step base rag_prefetch b (Final now ev) =
     (let txt = trim_space (te_text ev) in
      if txt = [] then (b, [])
      else arm_turn base rag_prefetch now (extend_turn now ev txt b))"
| "turn_step base rag_prefetch b (Timer now) =
     (case tb_timer b of
        None \<Rightarrow> (b, [])
      | Some d \<Rightarrow> if d \<le> now then flush now b else (b, []))"


section \<open>The buffer never loses a word\<close>

definition te_words :: "transcript_event \<Rightarrow> str list" where
  "te_words ev = str_fields (te_text ev)"

definition held_words :: "turn_buffer \<Rightarrow> str list" where
  "held_words b = (case tb_pending b of None \<Rightarrow> [] | Some ev \<Rightarrow> te_words ev)"

fun input_words :: "turn_input \<Rightarrow> str list" where
  "input_words (Final now ev) = te_words ev"
| "input_words (Timer now) = []"

fun turn_words :: "turn_output \<Rightarrow> str list" where
  "turn_words (Turn ev) = te_words ev"
| "turn_words (Prefetch q) = []"

lemma flush_words:
  "flush now b = (b', out) \<Longrightarrow> held_words b = concat (map turn_words out) @ held_words b'"
  by (auto simp: flush_def held_words_def te_words_def split: option.splits)

lemma extend_words:
  "extend_turn now ev txt b = (b', ev', began) \<Longrightarrow>
   held_words b' = held_words b @ str_fields txt \<and> tb_pending b' = Some ev'"
  by (auto simp: extend_turn_def held_words_def te_words_def Let_def fields_append [simplified]
      split: option.splits)

lemma arm_words:
  assumes "arm_turn base rag now (b, ev, began) = (b', out)"
  shows "held_words b = concat (map turn_words out) @ held_words b'"
  using assms flush_words [of now b b' out]
  by (auto simp: arm_turn_def Let_def held_words_def split: if_splits)

lemma trim_space_Nil_words: "trim_space s = [] \<Longrightarrow> str_fields s = []"
  by (metis fields_Nil fields_trim_space)

lemma turn_step_words:
  assumes "turn_step base rag b e = (b', out)"
  shows "held_words b @ input_words e = concat (map turn_words out) @ held_words b'"
proof (cases e)
  case (Final now ev)
  show ?thesis
  proof (cases "trim_space (te_text ev) = []")
    case True
    with assms Final show ?thesis by (auto simp: te_words_def trim_space_Nil_words)
  next
    case False
    obtain b1 ev1 began where x: "extend_turn now ev (trim_space (te_text ev)) b = (b1, ev1, began)"
      by (metis prod.collapse)
    from assms Final False x have "arm_turn base rag now (b1, ev1, began) = (b', out)" by simp
    from arm_words [OF this] extend_words [OF x] Final show ?thesis by (simp add: te_words_def)
  qed
next
  case (Timer now)
  with assms flush_words [of now b b' out] show ?thesis by (auto split: option.splits if_splits)
qed

interpretation turns: lossless_stream "turn_step base rag" held_words input_words turn_words
  for base rag
  by unfold_locales (rule turn_step_words)

section \<open>The buffer never holds a turn for long\<close>

text \<open>A pending turn is trimmed, not blank, and has a timer that fires within the bound.\<close>

definition buffer_ok :: "turn_buffer \<Rightarrow> bool" where
  "buffer_ok b \<longleftrightarrow>
     (case tb_pending b of
        None \<Rightarrow> tb_timer b = None
      | Some ev \<Rightarrow> te_text ev \<noteq> [] \<and>
          (\<exists>t d. tb_began b = Some t \<and> tb_timer b = Some d \<and> d \<le> t + turn_merge_max))"

lemma buffer_ok_new: "buffer_ok new_turn_buffer"
  by (simp add: buffer_ok_def new_turn_buffer_def)

lemma flush_ok: "buffer_ok b \<Longrightarrow> flush now b = (b', out) \<Longrightarrow> buffer_ok b'"
  by (auto simp: flush_def buffer_ok_def split: option.splits)

lemma flush_pending: "flush now b = (b', out) \<Longrightarrow> tb_pending b' = None"
  by (auto simp: flush_def split: option.splits)

lemma flush_ok_pending:
  "tb_pending b = Some ev \<Longrightarrow> flush now b = (b', out) \<Longrightarrow> buffer_ok b'"
  by (auto simp: flush_def buffer_ok_def)

lemma fields_aux_Nil_iff: "fields_aux acc s = [] \<longleftrightarrow> acc = [] \<and> list_all is_space s"
  by (induction acc s rule: fields_aux.induct) auto

lemma fields_empty_trim: "str_fields s = [] \<Longrightarrow> trim_space s = []"
  by (auto simp: str_fields_def fields_aux_Nil_iff trim_space_def trim_def trim_right_def
      dropWhile_eq_Nil_conv list_all_iff dest: set_dropWhileD)

lemma extend_ok:
  assumes "buffer_ok b" and "trim_space txt = txt" and "txt \<noteq> []"
    and "extend_turn now ev txt b = (b', ev', began)"
  shows "tb_pending b' = Some ev' \<and> te_text ev' \<noteq> [] \<and> tb_began b' = Some began"
proof (cases "tb_pending b")
  case None
  with assms show ?thesis by (auto simp: extend_turn_def Let_def)
next
  case (Some p)
  have "trim_space (te_text p @ '' '' @ txt) \<noteq> []"
  proof
    assume "trim_space (te_text p @ '' '' @ txt) = []"
    then have "str_fields (te_text p @ '' '' @ txt) = []" by (rule trim_space_Nil_words)
    then have w: "str_fields txt = []" by (simp add: fields_append [simplified])
    have "trim_space txt \<noteq> []" using assms by simp
    with w show False using fields_empty_trim by blast
  qed
  with assms Some show ?thesis by (auto simp: extend_turn_def Let_def buffer_ok_def)
qed


lemma arm_ok:
  assumes "tb_pending b = Some ev" and "te_text ev \<noteq> []" and "tb_began b = Some began"
    and "arm_turn base rag now (b, ev, began) = (b', out)"
  shows "buffer_ok b'"
  using assms flush_ok_pending [OF assms(1), of now b' out]
  by (auto simp: arm_turn_def Let_def buffer_ok_def split: if_splits)

lemma turn_step_ok: "buffer_ok b \<Longrightarrow> turn_step base rag b e = (b', out) \<Longrightarrow> buffer_ok b'"
proof (cases e)
  case (Final now ev)
  assume ok: "buffer_ok b" and s: "turn_step base rag b e = (b', out)"
  show ?thesis
  proof (cases "trim_space (te_text ev) = []")
    case True
    with s ok Final show ?thesis by simp
  next
    case False
    obtain b1 ev1 began where x: "extend_turn now ev (trim_space (te_text ev)) b = (b1, ev1, began)"
      by (metis prod.collapse)
    from s Final False x have "arm_turn base rag now (b1, ev1, began) = (b', out)" by simp
    with extend_ok [OF ok trim_space_idem False x] show ?thesis by (blast intro: arm_ok)
  qed
next
  case (Timer now)
  assume "buffer_ok b" "turn_step base rag b e = (b', out)"
  with Timer flush_ok [of b now b' out] show ?thesis by (auto split: option.splits if_splits)
qed

interpretation buffer: guarded_machine "\<lambda>b e. fst (turn_step base rag b e)" buffer_ok
  for base rag
  by unfold_locales (metis prod.collapse turn_step_ok)

lemma run_turns_fst:
  "fst (run_chunks (turn_step base rag) b es) = fold (\<lambda>e b. fst (turn_step base rag b e)) es b"
proof (induction es arbitrary: b)
  case (Cons e es)
  show ?case by (simp add: Cons.IH [symmetric] split_beta)
qed simp

section \<open>Properties\<close>

text \<open>C15: whatever the caller's pauses, no recognised word is lost, repeated or reordered: the
  words of the turns passed on, followed by those of the turn still pending, are the words
  of the finals in the order they came.\<close>

theorem turn_buffer_keeps_every_word:
  assumes "run_chunks (turn_step base rag) new_turn_buffer es = (b, out)"
  shows "concat (map turn_words out) @ held_words b = concat (map input_words es)"
  using turns.run_conserve [OF assms] by (simp add: held_words_def new_turn_buffer_def)

definition a_final :: "str \<Rightarrow> transcript_event" where
  "a_final s = \<lparr> te_text = s, te_final = True, te_start = 0, te_merge_ms = 0, te_over = False \<rparr>"

theorem turn_buffer_keeps_every_word_witness:
  "concat (map turn_words (snd (run_chunks (turn_step 350000000 False) new_turn_buffer
     [Final 0 (a_final ''I want to''), Final 400000000 (a_final '' book a table. ''), Timer 750000000]))) =
   [''I'', ''want'', ''to'', ''book'', ''a'', ''table.'']"
proof -
  let ?es = "[Final 0 (a_final ''I want to''), Final 400000000 (a_final '' book a table. ''), Timer 750000000]"
  obtain b out where r: "run_chunks (turn_step 350000000 False) new_turn_buffer ?es = (b, out)"
    by fastforce
  have "held_words (fst (run_chunks (turn_step 350000000 False) new_turn_buffer ?es)) = []" by code_simp
  moreover have "concat (map input_words ?es) = [''I'', ''want'', ''to'', ''book'', ''a'', ''table.'']"
    by code_simp
  ultimately show ?thesis using turn_buffer_keeps_every_word [OF r] r by simp
qed

text \<open>C38: a turn is answered in bounded time however often it is extended: while one is pending
  the timer is armed no later than 2.5 s after the turn began, and its firing passes on
  exactly the pending text and reports a wait of at most 2500 ms.\<close>

theorem pending_turn_is_answered:
  assumes "fst (run_chunks (turn_step base rag) new_turn_buffer es) = b" and "tb_pending b = Some ev"
  shows "\<exists>began d. tb_began b = Some began \<and> tb_timer b = Some d \<and> d \<le> began + turn_merge_max \<and>
    turn_step base rag b (Timer d) =
      (b\<lparr>tb_pending := None, tb_timer := None, tb_prefetched := False\<rparr>,
       [Turn (ev\<lparr>te_merge_ms := go_quot (d - began) millisecond\<rparr>)]) \<and>
    (began \<le> d \<longrightarrow> go_quot (d - began) millisecond \<le> 2500)"
proof -
  have "buffer_ok b"
    using assms(1) run_turns_fst buffer.run_invar [OF buffer_ok_new] by metis
  with assms(2) obtain t d where td: "tb_began b = Some t" "tb_timer b = Some d" "d \<le> t + turn_merge_max"
    by (auto simp: buffer_ok_def)
  moreover have "go_quot (d - t) millisecond \<le> 2500" if "t \<le> d"
    using that td(3) go_quot_nonneg [of "d - t" millisecond] by (simp add: turn_merge_max_def)
  ultimately show ?thesis
    using assms(2) by (intro exI [of _ t] exI [of _ d]) (simp add: flush_def)
qed

theorem pending_turn_is_answered_witness:
  "\<exists>(b :: turn_buffer) d. tb_pending b \<noteq> None \<and> tb_timer b = Some d \<and> d \<le> 2500000000"
proof -
  let ?r = "fst (run_chunks (turn_step 350000000 False) new_turn_buffer
    [Final 0 (a_final ''I want to''), Final 2400000000 (a_final ''book and'')])"
  have p: "tb_pending ?r = Some (a_final ''I want to book and'')" and "tb_began ?r = Some 0" by code_simp+
  moreover from pending_turn_is_answered [OF refl p]
  obtain t d where "tb_began ?r = Some t" "tb_timer ?r = Some d" "d \<le> t + turn_merge_max" by metis
  ultimately show ?thesis
    by (intro exI [of _ ?r] exI [of _ d]) (simp del: run_chunks.simps turn_step.simps add: turn_merge_max_def)
qed

end
