(* ===== verification/Partial_Reflex.thy ===== *)
theory Partial_Reflex
  imports Turn_Buffer Plugin_Manifest
begin

text \<open>
  Tools fired from a half-spoken sentence (\<open>internal/pipeline/partial.go\<close>). The matcher's
  loops run over byte offsets; slicing a string beyond its end panics, which is the value
  \<open>None\<close> of a scan. A capture waits for its timer; timers are identified by a number, and a
  step of the reflex is a transcript, a timer that goes off, or the end of the utterance.
\<close>

section \<open>Matching\<close>

definition at_boundary :: "str \<Rightarrow> nat \<Rightarrow> nat \<Rightarrow> bool" where
  "at_boundary msg start stop \<longleftrightarrow>
     (start = 0 \<or> msg ! (start - 1) = CHR '' '') \<and> (stop = length msg \<or> msg ! stop = CHR '' '')"

text \<open>All the places where a phrase stands between word boundaries, from an offset on.\<close>

function occurrences :: "str \<Rightarrow> str \<Rightarrow> nat \<Rightarrow> (nat \<times> nat) list option" where
  "occurrences msg phrase offset =
     (if length msg < offset then None
      else case index_of phrase (drop offset msg) of
        None \<Rightarrow> Some []
      | Some i \<Rightarrow>
          let start = offset + i; stop = start + length phrase in
          map_option (\<lambda>rest. if at_boundary msg start stop then (start, stop) # rest else rest)
            (occurrences msg phrase (Suc start)))"
  by pat_completeness auto
termination
  by (relation "measure (\<lambda>(msg, phrase, offset). Suc (length msg) - offset)") auto

declare occurrences.simps [simp del]

text \<open>\<open>containsPhrase\<close> stops at the first hit, so it panics only when it has found none.\<close>

function contains_at :: "str \<Rightarrow> str \<Rightarrow> nat \<Rightarrow> bool option" where
  "contains_at msg phrase offset =
     (if length msg < offset then None
      else case index_of phrase (drop offset msg) of
        None \<Rightarrow> Some False
      | Some i \<Rightarrow>
          let start = offset + i; stop = start + length phrase in
          if at_boundary msg start stop then Some True else contains_at msg phrase (Suc start))"
  by pat_completeness auto
termination
  by (relation "measure (\<lambda>(msg, phrase, offset). Suc (length msg) - offset)") auto

declare contains_at.simps [simp del]

fun contains_phrase :: "str \<Rightarrow> str list \<Rightarrow> bool option" where
  "contains_phrase msg [] = Some False"
| "contains_phrase msg (p # ps) =
     (case contains_at msg p 0 of
        None \<Rightarrow> None
      | Some True \<Rightarrow> Some True
      | Some False \<Rightarrow> contains_phrase msg ps)"

definition has_prefix_phrase :: "str \<Rightarrow> str list \<Rightarrow> bool" where
  "has_prefix_phrase msg ps \<longleftrightarrow> list_ex (\<lambda>p. msg = p \<or> has_prefix (p @ '' '') msg) ps"

fun all_occurrences :: "str \<Rightarrow> str list \<Rightarrow> (nat \<times> nat) list option" where
  "all_occurrences msg [] = Some []"
| "all_occurrences msg (a # as) =
     (case occurrences msg a 0 of
        None \<Rightarrow> None
      | Some xs \<Rightarrow> map_option (\<lambda>ys. xs @ ys) (all_occurrences msg as))"

definition longest_at :: "(nat \<times> nat) list \<Rightarrow> (nat \<times> nat) list" where
  "longest_at occ =
     fold (\<lambda>(start, stop) m.
       if (case map_of m start of None \<Rightarrow> 0 | Some e \<Rightarrow> e) < stop then AList.update start stop m else m) occ []"

text \<open>The rest of the text after the last anchor and the number of anchors.\<close>

definition capture_after_anchor :: "str \<Rightarrow> str list \<Rightarrow> (str \<times> nat) option option" where
  "capture_after_anchor msg anchors =
     map_option (\<lambda>occ.
       let m = longest_at occ in
       if m = [] then None
       else Some (trim_space (drop (foldr (\<lambda>x e. max (snd x) e) m 0) msg), length m))
     (all_occurrences msg anchors)"

section \<open>The reflex\<close>

record reflex_entry =
  re_name :: str
  re_match :: "str list"
  re_starts_with :: "str list"
  re_after :: "str list"
  re_arg :: str
  re_once :: bool

definition reflex_entry_of :: "tool_spec \<Rightarrow> partial_spec \<Rightarrow> reflex_entry" where
  "reflex_entry_of t p =
     (case phrases p of (m, s, a) \<Rightarrow>
        \<lparr> re_name = ts_name t, re_match = m, re_starts_with = s, re_after = a,
          re_arg = partial_arg p, re_once = ps_once p \<rparr>)"

record capture =
  cp_timer :: nat
  cp_text :: str
  cp_anchors :: nat

record reflex =
  rx_fired :: "str \<Rightarrow> bool"
  rx_anchors :: "str \<Rightarrow> nat"
  rx_pending :: "str \<Rightarrow> capture option"
  rx_next :: nat

record reflex_hit =
  rh_name :: str
  rh_arg :: "(str \<times> str) option"
  rh_anchors :: nat

definition new_reflex :: reflex where
  "new_reflex = \<lparr> rx_fired = (\<lambda>n. False), rx_anchors = (\<lambda>n. 0), rx_pending = Map.empty, rx_next = 0 \<rparr>"

definition end_utterance :: "reflex \<Rightarrow> reflex" where
  "end_utterance s = s\<lparr>rx_fired := (\<lambda>n. False), rx_pending := Map.empty, rx_anchors := (\<lambda>n. 0)\<rparr>"

definition stage :: "reflex_entry \<Rightarrow> str \<Rightarrow> reflex \<Rightarrow> reflex option" where
  "stage e msg s =
     (case capture_after_anchor msg (re_after e) of
        None \<Rightarrow> None
      | Some None \<Rightarrow> Some s
      | Some (Some (rest, anchors)) \<Rightarrow>
          if rest = [] then Some s
          else
            let fresh = s\<lparr>rx_next := Suc (rx_next s),
              rx_pending := (rx_pending s)(re_name e \<mapsto>
                \<lparr> cp_timer = rx_next s, cp_text = rest, cp_anchors = anchors \<rparr>)\<rparr> in
            (case rx_pending s (re_name e) of
               None \<Rightarrow> Some fresh
             | Some p \<Rightarrow> if cp_text p = rest \<and> cp_anchors p = anchors then Some s else Some fresh))"

definition observe_entry :: "str \<Rightarrow> reflex_entry \<Rightarrow> reflex \<Rightarrow> (reflex \<times> reflex_hit list) option" where
  "observe_entry msg e s =
     (if re_once e \<and> rx_fired s (re_name e) then Some (s, [])
      else if re_arg e \<noteq> [] then map_option (\<lambda>s'. (s', [])) (stage e msg s)
      else case contains_phrase msg (re_match e) of
        None \<Rightarrow> None
      | Some b \<Rightarrow>
          if \<not> b \<and> \<not> has_prefix_phrase msg (re_starts_with e) then Some (s, [])
          else Some (if re_once e then s\<lparr>rx_fired := (rx_fired s)(re_name e := True)\<rparr> else s,
                     [\<lparr> rh_name = re_name e, rh_arg = None, rh_anchors = 0 \<rparr>]))"

fun observe_entries :: "str \<Rightarrow> reflex_entry list \<Rightarrow> reflex \<Rightarrow> (reflex \<times> reflex_hit list) option" where
  "observe_entries msg [] s = Some (s, [])"
| "observe_entries msg (e # es) s =
     (case observe_entry msg e s of
        None \<Rightarrow> None
      | Some (s1, hs) \<Rightarrow> map_option (\<lambda>(s2, gs). (s2, hs @ gs)) (observe_entries msg es s1))"

definition observe :: "reflex_entry list \<Rightarrow> str \<Rightarrow> reflex \<Rightarrow> (reflex \<times> reflex_hit list) option" where
  "observe es partial s =
     (let msg = normalize_partial partial in
      if msg = [] then Some (s, []) else observe_entries msg es s)"

definition settled :: "reflex_entry \<Rightarrow> nat \<Rightarrow> reflex \<Rightarrow> reflex \<times> reflex_hit list" where
  "settled e timer s =
     (case rx_pending s (re_name e) of
        None \<Rightarrow> (s, [])
      | Some p \<Rightarrow>
          if cp_timer p \<noteq> timer then (s, [])
          else
            let s1 = s\<lparr>rx_pending := (rx_pending s)(re_name e := None)\<rparr> in
            if cp_anchors p \<le> rx_anchors s (re_name e) then (s1, [])
            else
              let s2 = s1\<lparr>rx_anchors := (rx_anchors s1)(re_name e := cp_anchors p)\<rparr> in
              (if re_once e then s2\<lparr>rx_fired := (rx_fired s2)(re_name e := True)\<rparr> else s2,
               [\<lparr> rh_name = re_name e, rh_arg = Some (re_arg e, cp_text p), rh_anchors = cp_anchors p \<rparr>]))"

datatype reflex_event =
    Partial str
  | Settled reflex_entry nat
  | End_utterance

fun reflex_step :: "reflex_entry list \<Rightarrow> reflex \<Rightarrow> reflex_event \<Rightarrow> (reflex \<times> reflex_hit list) option" where
  "reflex_step es s (Partial msg) = observe es msg s"
| "reflex_step es s (Settled e timer) = (if e \<in> set es then Some (settled e timer s) else Some (s, []))"
| "reflex_step es s End_utterance = Some (end_utterance s, [])"

fun reflex_run :: "reflex_entry list \<Rightarrow> reflex \<Rightarrow> reflex_event list \<Rightarrow> (reflex \<times> reflex_hit list) option" where
  "reflex_run es s [] = Some (s, [])"
| "reflex_run es s (v # vs) =
     (case reflex_step es s v of
        None \<Rightarrow> None
      | Some (s1, hs) \<Rightarrow> map_option (\<lambda>(s2, gs). (s2, hs @ gs)) (reflex_run es s1 vs))"

section \<open>Packets already sent\<close>

definition reflex_dedup_ttl :: duration where
  "reflex_dedup_ttl = 10 * second"

definition emission_key :: "str \<Rightarrow> str \<Rightarrow> str" where
  "emission_key topic payload = topic @ [CHR 0x00] @ payload"

definition remember_reflex_emission :: "instant \<Rightarrow> str \<Rightarrow> str \<Rightarrow> (str \<Rightarrow> instant option) \<Rightarrow> (str \<Rightarrow> instant option)" where
  "remember_reflex_emission now topic payload sent =
     (\<lambda>k. if k = emission_key topic payload then Some now
       else case sent k of
         None \<Rightarrow> None
       | Some t \<Rightarrow>
           if reflex_dedup_ttl < now - t \<or> has_prefix (topic @ [CHR 0x00]) k then None else Some t)"

definition reflex_already_sent :: "instant \<Rightarrow> (str \<Rightarrow> instant option) \<Rightarrow> str \<Rightarrow> (str \<Rightarrow> instant option) \<times> bool" where
  "reflex_already_sent now sent key =
     (case sent key of
        None \<Rightarrow> (sent, False)
      | Some t \<Rightarrow> if reflex_dedup_ttl < now - t then (sent, False) else (sent(key := None), True))"

text \<open>A record suppresses one repetition: it is a single-use token of its packet.\<close>

definition live_record :: "instant \<Rightarrow> (str \<Rightarrow> instant option) \<Rightarrow> str \<Rightarrow> instant option" where
  "live_record now sent key =
     (case sent key of None \<Rightarrow> None | Some t \<Rightarrow> if reflex_dedup_ttl < now - t then None else Some t)"

definition suppress :: "instant \<Rightarrow> (str \<Rightarrow> instant option) \<Rightarrow> str \<Rightarrow> (str \<Rightarrow> instant option) \<times> instant option" where
  "suppress now sent key =
     (case reflex_already_sent now sent key of (sent', b) \<Rightarrow> (sent', if b then sent key else None))"

interpretation sent_packets: single_use "live_record now" "suppress now" for now
  by unfold_locales
    (auto simp: live_record_def suppress_def reflex_already_sent_def split: option.splits if_splits)

lemma remembered_is_suppressed_once:
  assumes "0 \<le> d" and "d \<le> reflex_dedup_ttl"
  shows "snd (reflex_already_sent (now + d) (remember_reflex_emission now topic payload sent) (emission_key topic payload))"
  using assms by (simp add: reflex_already_sent_def remember_reflex_emission_def)

lemma only_latest_of_a_topic_suppresses:
  "payload' \<noteq> payload \<Longrightarrow>
   \<not> snd (reflex_already_sent later (remember_reflex_emission now topic payload sent) (emission_key topic payload'))"
  using has_prefix_append [of "topic @ [CHR 0x00]" payload']
  by (auto simp: reflex_already_sent_def remember_reflex_emission_def emission_key_def split: option.split)


section \<open>Matching is matching of words\<close>

definition occurs :: "str \<Rightarrow> str \<Rightarrow> nat \<Rightarrow> bool" where
  "occurs msg p start \<longleftrightarrow> start + length p \<le> length msg \<and> take (length p) (drop start msg) = p \<and>
     at_boundary msg start (start + length p)"

lemma index_of_first:
  "index_of p s = Some i \<Longrightarrow> j < i \<Longrightarrow> \<not> has_prefix p (drop j s)"
proof (induction s arbitrary: i j)
  case (Cons c s)
  show ?case
  proof (cases "has_prefix p (c # s)")
    case False
    with Cons.prems obtain k where "index_of p s = Some k" "i = Suc k" by auto
    with Cons.prems(2) False Cons.IH [of k "j - 1"] show ?thesis by (cases j) auto
  qed (use Cons.prems in simp)
qed (simp split: if_splits)

lemma occurs_has_prefix: "occurs msg p start \<Longrightarrow> has_prefix p (drop start msg)"
  by (simp add: occurs_def has_prefix_def)

lemma index_of_None_prefix: "index_of p s = None \<Longrightarrow> \<not> has_prefix p (drop j s)"
  using index_of_iff [of p s] by (metis append_take_drop_id has_prefix_iff)

lemma contains_at_correct:
  "p \<noteq> [] \<Longrightarrow> offset \<le> length msg \<Longrightarrow>
   contains_at msg p offset = Some (\<exists>start. offset \<le> start \<and> occurs msg p start)"
proof (induction msg p offset rule: contains_at.induct)
  case (1 msg p offset)
  show ?case
  proof (cases "index_of p (drop offset msg)")
    case None
    have "\<not> occurs msg p start" if "offset \<le> start" for start
      using index_of_None_prefix [OF None, of "start - offset"] that occurs_has_prefix [of msg p start] by auto
    with None 1(3) show ?thesis by (auto simp: contains_at.simps [of msg p offset])
  next
    case (Some i)
    let ?start = "offset + i"
    from index_of_SomeD [OF Some] 1(3) have len: "?start + length p \<le> length msg"
      and here: "take (length p) (drop ?start msg) = p" by (auto simp: add.commute)
    have first: "\<not> occurs msg p start" if "offset \<le> start" "start < ?start" for start
      using index_of_first [OF Some, of "start - offset"] that occurs_has_prefix [of msg p start] by auto
    show ?thesis
    proof (cases "at_boundary msg ?start (?start + length p)")
      case True
      with len here have "occurs msg p ?start" by (simp add: occurs_def)
      with True Some 1(3) show ?thesis
        by (auto simp: contains_at.simps [of msg p offset] Let_def intro: exI [of _ ?start])
    next
      case False
      from len 1(2) have "Suc ?start \<le> length msg" by (cases p) auto
      with 1(1) [OF _ Some refl refl False] 1(2,3)
      have "contains_at msg p (Suc ?start) = Some (\<exists>start. Suc ?start \<le> start \<and> occurs msg p start)" by simp
      moreover have "(\<exists>start. Suc ?start \<le> start \<and> occurs msg p start) \<longleftrightarrow> (\<exists>start. offset \<le> start \<and> occurs msg p start)"
        using first False by (metis Suc_leD add_leD1 le_eq_less_or_eq le_simps(3) nat_le_linear not_less_eq_eq occurs_def)
      ultimately show ?thesis
        using False Some 1(3) by (simp add: contains_at.simps [of msg p offset] Let_def)
    qed
  qed
qed

lemma contains_phrase_correct:
  "[] \<notin> set ps \<Longrightarrow> contains_phrase msg ps = Some (\<exists>p \<in> set ps. \<exists>start. occurs msg p start)"
proof (induction ps)
  case (Cons p ps)
  then have "contains_at msg p 0 = Some (\<exists>start. occurs msg p start)"
    using contains_at_correct [of p 0 msg] by auto
  with Cons show ?case by (auto split: bool.split)
qed simp

text \<open>A text of words separated by single blanks, and the places of a phrase in it.\<close>

definition word :: "str \<Rightarrow> bool" where
  "word w \<longleftrightarrow> w \<noteq> [] \<and> list_all (\<lambda>c. \<not> is_space c) w"

lemma fields_word: "w \<in> set (str_fields s) \<Longrightarrow> word w"
  by (simp add: word_def fields_nonempty fields_no_space)

lemma fields_join_words: "list_all word ws \<Longrightarrow> str_fields (join '' '' ws) = ws"
  by (rule fields_join) (simp add: word_def [abs_def])

lemma join_append: "us \<noteq> [] \<Longrightarrow> vs \<noteq> [] \<Longrightarrow> join sep (us @ vs) = join sep us @ sep @ join sep vs"
proof (induction us rule: induct_list012)
  case (2 x)
  then show ?case by (cases vs) auto
qed auto

lemma occurs_iff:
  "occurs msg p start \<longleftrightarrow>
     (\<exists>u v. msg = u @ p @ v \<and> length u = start \<and> (u = [] \<or> last u = CHR '' '') \<and> (v = [] \<or> hd v = CHR '' ''))"
proof
  assume o: "occurs msg p start"
  let ?u = "take start msg" and ?v = "drop (start + length p) msg"
  from o have "msg = ?u @ p @ ?v"
    by (metis add.commute append_take_drop_id drop_drop occurs_def)
  moreover have "length ?u = start" using o by (simp add: occurs_def)
  moreover have "?u = [] \<or> last ?u = CHR '' ''"
    using o by (cases start) (auto simp: occurs_def at_boundary_def take_Suc_conv_app_nth)
  moreover have "?v = [] \<or> hd ?v = CHR '' ''"
    using o by (cases "start + length p = length msg") (auto simp: occurs_def at_boundary_def hd_drop_conv_nth)
  ultimately show "\<exists>u v. msg = u @ p @ v \<and> length u = start \<and> (u = [] \<or> last u = CHR '' '') \<and> (v = [] \<or> hd v = CHR '' '')"
    by blast
next
  assume "\<exists>u v. msg = u @ p @ v \<and> length u = start \<and> (u = [] \<or> last u = CHR '' '') \<and> (v = [] \<or> hd v = CHR '' '')"
  then obtain u v where m: "msg = u @ p @ v" "length u = start"
    and u: "u = [] \<or> last u = CHR '' ''" and v: "v = [] \<or> hd v = CHR '' ''" by blast
  have "start = 0 \<or> msg ! (start - 1) = CHR '' ''" using u m by (cases u rule: rev_cases) auto
  moreover have "start + length p = length msg \<or> msg ! (start + length p) = CHR '' ''"
    using v m by (cases v) (auto simp: nth_append)
  ultimately show "occurs msg p start" using m by (auto simp: occurs_def at_boundary_def)
qed

lemma fields_left: "u = [] \<or> last u = CHR '' '' \<Longrightarrow> str_fields (u @ s) = str_fields u @ str_fields s"
proof (cases u rule: rev_cases)
  case (snoc t c)
  assume "u = [] \<or> last u = CHR '' ''"
  with snoc have u: "u = t @ '' ''" by simp
  have "str_fields (t @ '' '' @ s) = str_fields t @ str_fields s" by (rule fields_append)
  moreover have "str_fields (t @ '' '' @ []) = str_fields t @ str_fields []" by (rule fields_append)
  ultimately show ?thesis using u by simp
qed simp

lemma fields_right: "v = [] \<or> hd v = CHR '' '' \<Longrightarrow> str_fields (s @ v) = str_fields s @ str_fields v"
proof (cases v)
  case (Cons c t)
  assume "v = [] \<or> hd v = CHR '' ''"
  with Cons have v: "v = '' '' @ t" by simp
  have "str_fields (s @ '' '' @ t) = str_fields s @ str_fields t" by (rule fields_append)
  moreover have "str_fields ([] @ '' '' @ t) = str_fields [] @ str_fields t" by (rule fields_append)
  ultimately show ?thesis using v by simp
qed simp

lemma occurs_words:
  assumes "list_all word ts" and "list_all word ws" and "ws \<noteq> []"
  shows "(\<exists>start. occurs (join '' '' ts) (join '' '' ws) start) \<longleftrightarrow> sublist ws ts"
proof
  assume "\<exists>start. occurs (join '' '' ts) (join '' '' ws) start"
  then obtain u v where t: "join '' '' ts = u @ join '' '' ws @ v"
    and u: "u = [] \<or> last u = CHR '' ''" and v: "v = [] \<or> hd v = CHR '' ''"
    by (auto simp: occurs_iff)
  have "ts = str_fields (u @ join '' '' ws @ v)" using fields_join_words [OF assms(1)] t by simp
  also have "\<dots> = str_fields u @ ws @ str_fields v"
    using fields_left [OF u] fields_right [OF v] fields_join_words [OF assms(2)] by simp
  finally show "sublist ws ts" by (auto simp: sublist_def)
next
  assume "sublist ws ts"
  then obtain us vs where ts: "ts = us @ ws @ vs" by (auto simp: sublist_def)
  let ?u = "if us = [] then [] else join '' '' us @ '' ''"
  let ?v = "if vs = [] then [] else '' '' @ join '' '' vs"
  have "join '' '' ts = ?u @ join '' '' ws @ ?v"
    using assms(3) join_append [of us "ws @ vs" "'' ''"] join_append [of ws vs "'' ''"] by (auto simp: ts)
  moreover have "?u = [] \<or> last ?u = CHR '' ''" and "?v = [] \<or> hd ?v = CHR '' ''" by auto
  ultimately show "\<exists>start. occurs (join '' '' ts) (join '' '' ws) start"
    unfolding occurs_iff by blast
qed


text \<open>A normalised text is one of words separated by single blanks.\<close>

fun single_spaced :: "bool \<Rightarrow> str \<Rightarrow> bool" where
  "single_spaced b [] = True"
| "single_spaced b (c # s) =
     (if is_space c then c = CHR '' '' \<and> \<not> b \<and> single_spaced True s else single_spaced False s)"

lemma single_spaced_join:
  "single_spaced b s \<Longrightarrow> b = (acc = []) \<Longrightarrow>
   rev acc @ s = join '' '' (fields_aux acc s) \<or> rev acc @ s = join '' '' (fields_aux acc s) @ '' ''"
proof (induction b s arbitrary: acc rule: single_spaced.induct)
  case (1 b)
  then show ?case by simp
next
  case (2 b c s)
  show ?case
  proof (cases "is_space c")
    case False
    with 2(2) [OF False, of "c # acc"] 2(3) show ?thesis by simp
  next
    case True
    with 2 have c: "c = CHR '' ''" "acc \<noteq> []" "single_spaced True s" by auto
    from 2(1) [OF True c(3), of "[]"]
    have ih: "s = join '' '' (fields_aux [] s) \<or> s = join '' '' (fields_aux [] s) @ '' ''" by simp
    show ?thesis
    proof (cases "fields_aux [] s")
      case Nil
      with ih c(3) have "s = []" by (auto simp: is_space_def)
      with True c show ?thesis by simp
    next
      case (Cons w ws)
      with ih True c show ?thesis by (auto simp: append_assoc [symmetric] simp del: append_assoc)
    qed
  qed
qed

fun squeeze :: "bool \<Rightarrow> str \<Rightarrow> str" where
  "squeeze b [] = []"
| "squeeze b (r # rs) =
     (if is_letter r \<or> is_digit r \<or> r = CHR 0x27 then r # squeeze False rs
      else if \<not> b then CHR '' '' # squeeze True rs else squeeze b rs)"

lemma normalize_aux_squeeze: "normalize_aux acc b s = rev acc @ squeeze b s"
  by (induction acc b s rule: normalize_aux.induct) auto

lemma kept_no_space: "is_letter r \<or> is_digit r \<or> r = CHR 0x27 \<Longrightarrow> \<not> is_space r"
  by (auto simp: is_letter_def is_upper_def is_lower_def is_digit_def is_space_def)

lemma squeeze_single_spaced: "single_spaced b (squeeze b s)"
proof (induction b s rule: squeeze.induct)
  case (2 b r rs)
  then show ?case using kept_no_space [of r] by auto
qed simp

lemma join_ends:
  "list_all word ws \<Longrightarrow> ws \<noteq> [] \<Longrightarrow>
   join '' '' ws \<noteq> [] \<and> \<not> is_space (hd (join '' '' ws)) \<and> \<not> is_space (last (join '' '' ws))"
proof (induction ws rule: induct_list012)
  case (2 x)
  then have "x \<noteq> []" "list_all (\<lambda>c. \<not> is_space c) x" by (auto simp: word_def)
  then show ?case by (auto simp: list_all_iff)
next
  case (3 x y zs)
  then have "x \<noteq> []" "list_all (\<lambda>c. \<not> is_space c) x" by (auto simp: word_def)
  with 3 show ?case by (auto simp: list_all_iff hd_append last_append)
qed simp

lemma trim_space_join: "list_all word ws \<Longrightarrow> trim_space (join '' '' ws) = join '' '' ws"
  by (cases "ws = []") (auto intro: trim_space_word_ends dest: join_ends)

lemma trim_space_blank: "trim_space (s @ '' '') = trim_space s"
proof (cases "list_all is_space s")
  case True
  then have "dropWhile is_space s = []" "dropWhile is_space (s @ '' '') = []"
    by (auto simp only: dropWhile_eq_Nil_conv list_all_iff) auto
  then show ?thesis by (simp only: trim_space_def trim_def)
next
  case False
  then have "dropWhile is_space (s @ '' '') = dropWhile is_space s @ '' ''"
    by (auto simp: list_all_iff dropWhile_append)
  then show ?thesis by (simp add: trim_space_def trim_def trim_right_def)
qed

lemma normalize_partial_join: "normalize_partial s = join '' '' (str_fields (normalize_partial s))"
proof -
  let ?q = "squeeze True (to_lower s)"
  let ?ws = "str_fields ?q"
  have w: "list_all word ?ws" by (simp add: list_all_iff fields_word)
  from single_spaced_join [OF squeeze_single_spaced [of True "to_lower s"], of "[]"]
  have "?q = join '' '' ?ws \<or> ?q = join '' '' ?ws @ '' ''" by (simp add: str_fields_def)
  then have "trim_space ?q = join '' '' ?ws"
    using trim_space_join [OF w] trim_space_blank by metis
  then show ?thesis
    using fields_trim_space [of ?q] by (simp add: normalize_partial_def normalize_aux_squeeze)
qed

lemma normalized_phrase_fires:
  assumes "\<forall>p \<in> set ps. normalize_partial p \<noteq> []"
  shows "contains_phrase (normalize_partial s) (map normalize_partial ps) =
    Some (\<exists>p \<in> set ps. sublist (str_fields (normalize_partial p)) (str_fields (normalize_partial s)))"
proof -
  have words: "list_all word (str_fields s')" for s' by (simp add: list_all_iff fields_word)
  have "(\<exists>start. occurs (normalize_partial s) (normalize_partial p) start) \<longleftrightarrow>
      sublist (str_fields (normalize_partial p)) (str_fields (normalize_partial s))" if "p \<in> set ps" for p
  proof -
    have "str_fields (normalize_partial p) \<noteq> []"
      using assms that normalize_partial_join [of p] by (metis join.simps(1))
    from occurs_words [OF words words this, of "normalize_partial s"] show ?thesis
      using normalize_partial_join by metis
  qed
  moreover have "[] \<notin> set (map normalize_partial ps)" using assms by auto
  ultimately show ?thesis
    using contains_phrase_correct [of "map normalize_partial ps" "normalize_partial s"] by simp
qed


section \<open>No slice goes beyond the text\<close>

definition entry_ok :: "reflex_entry \<Rightarrow> bool" where
  "entry_ok e \<longleftrightarrow> [] \<notin> set (re_match e) \<and> [] \<notin> set (re_after e)"

lemma occurrences_total: "p \<noteq> [] \<Longrightarrow> offset \<le> length msg \<Longrightarrow> \<exists>xs. occurrences msg p offset = Some xs"
proof (induction msg p offset rule: occurrences.induct)
  case (1 msg p offset)
  show ?case
  proof (cases "index_of p (drop offset msg)")
    case None
    with 1(3) show ?thesis by (simp add: occurrences.simps [of msg p offset])
  next
    case (Some i)
    from index_of_SomeD [OF Some] 1(2,3) have "Suc (offset + i) \<le> length msg" by (cases p) auto
    with 1(1) [OF _ Some refl refl] 1(2,3) obtain xs where "occurrences msg p (Suc (offset + i)) = Some xs" by auto
    with Some 1(3) show ?thesis by (simp add: occurrences.simps [of msg p offset] Let_def)
  qed
qed

lemma all_occurrences_total: "[] \<notin> set ps \<Longrightarrow> \<exists>xs. all_occurrences msg ps = Some xs"
proof (induction ps)
  case (Cons p ps)
  then obtain xs where "occurrences msg p 0 = Some xs" using occurrences_total [of p 0 msg] by auto
  with Cons show ?case by auto
qed simp

lemma observe_entry_total: "entry_ok e \<Longrightarrow> \<exists>r. observe_entry msg e s = Some r"
  using all_occurrences_total [of "re_after e" msg] contains_phrase_correct [of "re_match e" msg]
  by (auto simp: entry_ok_def observe_entry_def stage_def capture_after_anchor_def Let_def split: option.splits)

lemma observe_entries_total: "list_all entry_ok es \<Longrightarrow> \<exists>r. observe_entries msg es s = Some r"
proof (induction es arbitrary: s)
  case (Cons e es)
  then obtain s1 hs where "observe_entry msg e s = Some (s1, hs)" using observe_entry_total [of e msg s] by auto
  with Cons.IH [of s1] Cons.prems show ?case by auto
qed simp

lemma reflex_step_total: "list_all entry_ok es \<Longrightarrow> \<exists>r. reflex_step es s v = Some r"
  using observe_entries_total by (cases v) (auto simp: observe_def Let_def)

lemma reflex_run_total: "list_all entry_ok es \<Longrightarrow> \<exists>r. reflex_run es s vs = Some r"
proof (induction vs arbitrary: s)
  case (Cons v vs)
  then obtain s1 hs where "reflex_step es s v = Some (s1, hs)" using reflex_step_total [of es s v] by auto
  with Cons.IH [of s1] Cons.prems show ?case by auto
qed simp

section \<open>How often a tool fires\<close>

definition hits_of :: "reflex_entry \<Rightarrow> reflex_hit list \<Rightarrow> reflex_hit list" where
  "hits_of e hs = filter (\<lambda>h. rh_name h = re_name e) hs"

lemma hits_of_append [simp]: "hits_of e (xs @ ys) = hits_of e xs @ hits_of e ys"
  by (simp add: hits_of_def)

definition reflex_inv :: "reflex_entry \<Rightarrow> reflex \<Rightarrow> reflex_hit list \<Rightarrow> bool" where
  "reflex_inv e s hs \<longleftrightarrow>
     (re_arg e = [] \<longrightarrow> rx_pending s (re_name e) = None) \<and>
     (\<forall>p. rx_pending s (re_name e) = Some p \<longrightarrow> cp_text p \<noteq> []) \<and>
     (re_once e \<and> hits_of e hs \<noteq> [] \<longrightarrow> rx_fired s (re_name e) \<and> rx_pending s (re_name e) = None) \<and>
     (re_once e \<longrightarrow> length (hits_of e hs) \<le> 1) \<and>
     (re_arg e \<noteq> [] \<longrightarrow> sorted_wrt (<) (map rh_anchors (hits_of e hs)) \<and>
        (\<forall>h \<in> set (hits_of e hs). rh_anchors h \<le> rx_anchors s (re_name e) \<and>
           (\<exists>t. rh_arg h = Some (re_arg e, t) \<and> t \<noteq> [])))"

text \<open>What one entry does leaves the others alone.\<close>

lemma stage_other:
  "stage e' msg s = Some s' \<Longrightarrow> n \<noteq> re_name e' \<Longrightarrow>
   rx_pending s' n = rx_pending s n \<and> rx_fired s' = rx_fired s \<and> rx_anchors s' = rx_anchors s"
  by (auto simp: stage_def Let_def split: option.splits if_splits prod.splits)

lemma observe_entry_other:
  assumes "observe_entry msg e' s = Some (s', gs)" and "re_name e \<noteq> re_name e'"
  shows "hits_of e gs = [] \<and> rx_pending s' (re_name e) = rx_pending s (re_name e) \<and>
    rx_fired s' (re_name e) = rx_fired s (re_name e) \<and> rx_anchors s' (re_name e) = rx_anchors s (re_name e)"
  using assms stage_other [of e' msg s s' "re_name e"]
  by (auto simp: observe_entry_def hits_of_def split: option.splits if_splits)

lemma stage_same:
  "stage e msg s = Some s' \<Longrightarrow> rx_fired s' = rx_fired s \<and> rx_anchors s' = rx_anchors s \<and>
   (rx_pending s' (re_name e) = rx_pending s (re_name e) \<or>
    (\<exists>p. rx_pending s' (re_name e) = Some p \<and> cp_text p \<noteq> []))"
  by (auto simp: stage_def Let_def split: option.splits if_splits prod.splits)

lemma reflex_inv_cong:
  assumes "reflex_inv e s hs" and "hits_of e gs = []" and "rx_pending s' (re_name e) = rx_pending s (re_name e)"
    and "rx_fired s' (re_name e) = rx_fired s (re_name e)" and "rx_anchors s' (re_name e) = rx_anchors s (re_name e)"
  shows "reflex_inv e s' (hs @ gs)"
  using assms by (simp add: reflex_inv_def)

lemma observe_entry_same:
  assumes inv: "reflex_inv e s hs" and step: "observe_entry msg e s = Some (s', gs)"
  shows "reflex_inv e s' (hs @ gs)"
proof (cases "re_once e \<and> rx_fired s (re_name e)")
  case True
  with step have "s' = s" "gs = []" by (simp_all add: observe_entry_def)
  with inv show ?thesis by simp
next
  case False
  show ?thesis
  proof (cases "re_arg e = []")
    case True
    then show ?thesis
      using inv step False
      by (auto simp: observe_entry_def reflex_inv_def hits_of_def split: option.splits if_splits)
  next
    case capture: False
    with False step obtain s1 where "stage e msg s = Some s1" "s' = s1" "gs = []"
      by (auto simp: observe_entry_def)
    with stage_same [of e msg s s1] inv capture False show ?thesis
      by (auto simp: reflex_inv_def)
  qed
qed

lemma observe_entries_inv:
  assumes "reflex_inv e s hs" and "observe_entries msg es s = Some (s', gs)"
    and "\<And>e'. e' \<in> set es \<Longrightarrow> re_name e' = re_name e \<Longrightarrow> e' = e"
  shows "reflex_inv e s' (hs @ gs)"
  using assms
proof (induction es arbitrary: s hs gs)
  case (Cons e' es)
  from Cons.prems(2) obtain s1 hs1 hs2 where one: "observe_entry msg e' s = Some (s1, hs1)"
    and rest: "observe_entries msg es s1 = Some (s', hs2)" and gs: "gs = hs1 @ hs2"
    by (auto split: option.splits)
  have "reflex_inv e s1 (hs @ hs1)"
  proof (cases "re_name e' = re_name e")
    case True
    with Cons.prems(3) have "e' = e" by simp
    with Cons.prems(1) one show ?thesis by (blast intro: observe_entry_same)
  next
    case False
    with observe_entry_other [OF one, of e] Cons.prems(1) show ?thesis by (auto intro: reflex_inv_cong)
  qed
  from Cons.IH [OF this rest] Cons.prems(3) gs show ?case by simp
qed simp

lemma settled_inv:
  assumes inv: "reflex_inv e s hs" and step: "settled e' timer s = (s', gs)" and "re_name e' = re_name e \<Longrightarrow> e' = e"
  shows "reflex_inv e s' (hs @ gs)"
proof (cases "re_name e' = re_name e")
  case False
  with step have "hits_of e gs = []" "rx_pending s' (re_name e) = rx_pending s (re_name e)"
    "rx_fired s' (re_name e) = rx_fired s (re_name e)" "rx_anchors s' (re_name e) = rx_anchors s (re_name e)"
    by (auto simp: settled_def hits_of_def Let_def split: option.splits if_splits)
  with inv show ?thesis by (rule reflex_inv_cong)
next
  case True
  with assms(3) have e: "e' = e" by simp
  show ?thesis
  proof (cases "rx_pending s (re_name e)")
    case None
    with step e inv show ?thesis by (simp add: settled_def)
  next
    case (Some p)
    with inv have arg: "re_arg e \<noteq> []" "cp_text p \<noteq> []" and fresh: "re_once e \<Longrightarrow> hits_of e hs = []"
      by (auto simp: reflex_inv_def)
    have le: "\<forall>h \<in> set (hits_of e hs). rh_anchors h \<le> rx_anchors s (re_name e)"
      using inv arg by (auto simp: reflex_inv_def)
    consider "cp_timer p \<noteq> timer" | "cp_timer p = timer" "cp_anchors p \<le> rx_anchors s (re_name e)"
      | "cp_timer p = timer" "rx_anchors s (re_name e) < cp_anchors p" by linarith
    then show ?thesis
    proof cases
      case 1
      with step e Some inv show ?thesis by (simp add: settled_def)
    next
      case 2
      with step e Some have "gs = []" "s' = s\<lparr>rx_pending := (rx_pending s)(re_name e := None)\<rparr>"
        by (simp_all add: settled_def)
      with inv show ?thesis by (auto simp: reflex_inv_def)
    next
      case 3
      with step e Some arg fresh le inv show ?thesis
        by (auto simp: settled_def reflex_inv_def hits_of_def Let_def sorted_wrt_append dest: order.strict_trans1 split: if_splits)
    qed
  qed
qed

lemma reflex_run_inv:
  assumes "reflex_inv e s hs" and "reflex_run es s vs = Some (s', gs)" and "End_utterance \<notin> set vs"
    and "\<And>e'. e' \<in> set es \<Longrightarrow> re_name e' = re_name e \<Longrightarrow> e' = e"
  shows "reflex_inv e s' (hs @ gs)"
  using assms
proof (induction vs arbitrary: s hs gs)
  case (Cons v vs)
  from Cons.prems(2) obtain s1 hs1 hs2 where one: "reflex_step es s v = Some (s1, hs1)"
    and rest: "reflex_run es s1 vs = Some (s', hs2)" and gs: "gs = hs1 @ hs2"
    by (auto split: option.splits)
  have "reflex_inv e s1 (hs @ hs1)"
  proof (cases v)
    case (Partial msg)
    with one Cons.prems(1,4) show ?thesis
      by (auto simp: observe_def Let_def intro: observe_entries_inv split: if_splits)
  next
    case (Settled e' timer)
    with one Cons.prems(1,4) show ?thesis
      by (cases "e' \<in> set es") (auto intro: settled_inv)
  qed (use Cons.prems(3) in simp)
  from Cons.IH [OF this rest] Cons.prems(3,4) gs show ?case by simp
qed simp


section \<open>A retracted capture\<close>

text \<open>A revision without the anchor does not cancel the capture it retracts: the timer still
  fires with words the transcript no longer contains.\<close>

definition pick_entry :: reflex_entry where
  "pick_entry = \<lparr> re_name = ''pick'', re_match = [], re_starts_with = [], re_after = [''pick the''],
     re_arg = ''label'', re_once = False \<rparr>"

lemma retracted_capture_fires:
  "map rh_arg (snd (the (reflex_run [pick_entry] new_reflex
     [Partial ''pick the red'', Partial ''pick your red'', Settled pick_entry 0]))) = [Some (''label'', ''red'')]"
  by code_simp

section \<open>Properties\<close>

text \<open>A phrase of a manifest fires exactly when its words occur one after the other in the
  transcript, whatever the case, the punctuation and the spacing of either: a part of a word
  never counts, and a phrase may stand anywhere.\<close>

theorem phrase_fires_on_its_words:
  assumes "\<forall>p \<in> set ps. normalize_partial p \<noteq> []"
  shows "contains_phrase (normalize_partial s) (map normalize_partial ps) =
    Some (\<exists>p \<in> set ps. sublist (str_fields (normalize_partial p)) (str_fields (normalize_partial s)))"
  using assms by (rule normalized_phrase_fires)

theorem phrase_fires_on_its_words_witness:
  "contains_phrase (normalize_partial ''No, stop!'') (map normalize_partial [''Stop'']) = Some True"
proof -
  have "\<forall>p \<in> set [''Stop'']. normalize_partial p \<noteq> []" by code_simp
  from phrase_fires_on_its_words [OF this, of "''No, stop!''"]
  have "contains_phrase (normalize_partial ''No, stop!'') (map normalize_partial [''Stop'']) =
    Some (sublist (str_fields (normalize_partial ''Stop'')) (str_fields (normalize_partial ''No, stop!'')))" by simp
  moreover have "str_fields (normalize_partial ''Stop'') = [''stop'']"
    "str_fields (normalize_partial ''No, stop!'') = [''no'', ''stop'']" by code_simp+
  moreover have "sublist [''stop''] [''no'', ''stop'']" by (simp add: sublist_Cons_right)
  ultimately show ?thesis by simp
qed

text \<open>Within one utterance a tool that is to fire once fires at most once, however often the
  transcript is revised, and a capturing tool fires again only when a new anchor has been
  spoken, always with a non-empty argument.\<close>

theorem reflex_fires_once_per_instruction:
  assumes "reflex_run es (end_utterance s) vs = Some (s', hs)" and "End_utterance \<notin> set vs"
    and "distinct (map re_name es)" and "e \<in> set es"
  shows "(re_once e \<longrightarrow> length (hits_of e hs) \<le> 1) \<and>
    (re_arg e \<noteq> [] \<longrightarrow> sorted_wrt (<) (map rh_anchors (hits_of e hs)) \<and>
       (\<forall>h \<in> set (hits_of e hs). \<exists>t. rh_arg h = Some (re_arg e, t) \<and> t \<noteq> []))"
proof -
  have "reflex_inv e (end_utterance s) []"
    by (simp add: reflex_inv_def end_utterance_def hits_of_def)
  moreover have "e' = e" if "e' \<in> set es" "re_name e' = re_name e" for e'
    using that assms(3,4) by (auto simp: distinct_map dest: inj_onD)
  ultimately have "reflex_inv e s' ([] @ hs)" using assms(1,2) by (blast intro: reflex_run_inv)
  then show ?thesis by (simp add: reflex_inv_def)
qed

definition stop_entry :: reflex_entry where
  "stop_entry = \<lparr> re_name = ''stop'', re_match = [''stop''], re_starts_with = [], re_after = [],
     re_arg = [], re_once = True \<rparr>"

definition grab_entry :: reflex_entry where
  "grab_entry = \<lparr> re_name = ''grab'', re_match = [], re_starts_with = [], re_after = [''grab the'', ''no the''],
     re_arg = ''label'', re_once = False \<rparr>"

theorem reflex_fires_once_per_instruction_witness:
  "\<exists>s' hs. reflex_run [stop_entry, grab_entry] (end_utterance new_reflex)
     [Partial ''Stop'', Partial ''Stop, grab the red'', Settled grab_entry 0,
      Partial ''Stop, grab the red one, no, the blue'', Settled grab_entry 1] = Some (s', hs) \<and>
   length (hits_of stop_entry hs) = 1 \<and> sorted_wrt (<) (map rh_anchors (hits_of grab_entry hs))"
proof -
  let ?vs = "[Partial ''Stop'', Partial ''Stop, grab the red'', Settled grab_entry 0,
      Partial ''Stop, grab the red one, no, the blue'', Settled grab_entry 1]"
  have total: "list_all entry_ok [stop_entry, grab_entry]"
    by (simp add: entry_ok_def stop_entry_def grab_entry_def)
  obtain s' hs where r: "reflex_run [stop_entry, grab_entry] (end_utterance new_reflex) ?vs = Some (s', hs)"
    using reflex_step_total [OF total] by (metis reflex_run_total total surj_pair)
  have "map rh_name (snd (the (reflex_run [stop_entry, grab_entry] (end_utterance new_reflex) ?vs))) =
      [''stop'', ''grab'', ''grab'']" by code_simp
  then have "map rh_name hs = [''stop'', ''grab'', ''grab'']" using r by simp
  then have "length (hits_of stop_entry hs) = 1"
    by (auto simp: hits_of_def stop_entry_def map_eq_Cons_conv)
  moreover have "sorted_wrt (<) (map rh_anchors (hits_of grab_entry hs))"
    using reflex_fires_once_per_instruction [OF r, of grab_entry] by (simp add: stop_entry_def grab_entry_def)
  ultimately show ?thesis using r by blast
qed

text \<open>Validation lets through a phrase of punctuation alone, which normalises to nothing, and
  then the first transcript that is not empty makes the matcher slice beyond the end of it.\<close>

theorem punctuation_phrase_panics:
  "\<exists>d p t. validate_partial (ts_name t) (Some d) (Some p) = None \<and> ts_on_partial t = Some p \<and>
     observe [reflex_entry_of t p] ''go'' new_reflex = None"
proof -
  define d :: dispatch_spec where "d = \<lparr> ds_topic = ''move'', ds_payload = [], ds_speak = [], ds_omit_zero = False, ds_speak_when = [] \<rparr>"
  define p :: partial_spec where "p = \<lparr> ps_match = [''!''], ps_starts_with = [], ps_once = True, ps_capture = None, ps_settle_ms = 0 \<rparr>"
  define t :: tool_spec where "t = \<lparr> ts_name = ''t'', ts_description = [], ts_parameters_raw = None, ts_confirm = False,
    ts_thinking = False, ts_requires = [], ts_internal = False, ts_confirm_prompt = [], ts_dispatch = Some d,
    ts_on_partial = Some p \<rparr>"
  have "validate_partial (ts_name t) (Some d) (Some p) = None" unfolding t_def p_def d_def by code_simp
  moreover have "observe [reflex_entry_of t p] ''go'' new_reflex = None" unfolding t_def p_def by code_simp
  moreover have "ts_on_partial t = Some p" by (simp add: t_def)
  ultimately show ?thesis by blast
qed

end
