(* ===== verification/Plugin_Dispatch.thy ===== *)
theory Plugin_Dispatch
  imports Plugin_Manifest Partial_Reflex
begin

text \<open>
  Tools that only send a packet (\<open>internal/plugin/dispatch.go\<close>), the envelope a tool's result
  comes in (\<open>result.go\<close>), the prompts with placeholders (\<open>tool.go\<close>) and the running of a tool
  by the pipeline (\<open>runTool\<close> in \<open>internal/pipeline/toolgate.go\<close>). A run that panics is the
  outcome \<open>Panic\<close>. \<open>show\<close> stands for Go's rendering of numbers and of compound values.
  Left out: text after the arguments' first JSON value, and repeated keys inside a schema.
\<close>

datatype 'a outcome = Panic | Fail str | Done 'a

section \<open>Arguments and their schema\<close>

text \<open>The decoded arguments: \<open>null\<close> makes the map nil, which is the \<open>None\<close> inside.\<close>

definition decode_args :: "raw \<Rightarrow> json fields option outcome" where
  "decode_args params =
     (case params of
        Absent \<Rightarrow> Done (Some [])
      | Json (JObj kvs) \<Rightarrow> Done (Some (decode_map kvs))
      | Json JNull \<Rightarrow> Done None
      | _ \<Rightarrow> Fail ''decode arguments'')"

record property_schema =
  pr_type :: str
  pr_min :: "rat option"
  pr_max :: "rat option"

record schema =
  sc_additional :: bool
  sc_properties :: "property_schema fields"

fun as_string :: "json option \<Rightarrow> str option" where
  "as_string None = Some []"
| "as_string (Some (JStr s)) = Some s"
| "as_string (Some _) = None"

fun as_number :: "json option \<Rightarrow> rat option option" where
  "as_number None = Some None"
| "as_number (Some (JNum x)) = Some (Some x)"
| "as_number (Some _) = None"

fun as_bool :: "json option \<Rightarrow> bool option" where
  "as_bool None = Some False"
| "as_bool (Some (JBool b)) = Some b"
| "as_bool (Some _) = None"

definition parse_property :: "json \<Rightarrow> property_schema option" where
  "parse_property j =
     (case j of
        JObj kvs \<Rightarrow>
          (case (as_string (struct_field ''type'' (Json j)), as_number (struct_field ''minimum'' (Json j)),
                 as_number (struct_field ''maximum'' (Json j))) of
             (Some t, Some lo, Some hi) \<Rightarrow> Some \<lparr> pr_type = t, pr_min = lo, pr_max = hi \<rparr>
           | _ \<Rightarrow> None)
      | JNull \<Rightarrow> Some \<lparr> pr_type = [], pr_min = None, pr_max = None \<rparr>
      | _ \<Rightarrow> None)"

fun parse_properties :: "(str \<times> json) list \<Rightarrow> (str \<times> property_schema) list option" where
  "parse_properties [] = Some []"
| "parse_properties ((k, j) # kvs) =
     (case (parse_property j, parse_properties kvs) of
        (Some p, Some ps) \<Rightarrow> Some ((k, p) # ps)
      | _ \<Rightarrow> None)"

definition parse_schema :: "json \<Rightarrow> schema option" where
  "parse_schema j =
     (case j of
        JObj kvs \<Rightarrow>
          (case (as_bool (struct_field ''additionalproperties'' (Json j)),
                 (case struct_field ''properties'' (Json j) of
                    None \<Rightarrow> Some []
                  | Some (JObj ps) \<Rightarrow> map_option decode_map (parse_properties ps)
                  | Some _ \<Rightarrow> None)) of
             (Some b, Some ps) \<Rightarrow> Some \<lparr> sc_additional = b, sc_properties = ps \<rparr>
           | _ \<Rightarrow> None)
      | JNull \<Rightarrow> Some \<lparr> sc_additional = False, sc_properties = [] \<rparr>
      | _ \<Rightarrow> None)"

fun to_float :: "json \<Rightarrow> rat option" where
  "to_float (JNum x) = Some x"
| "to_float _ = None"

definition go_int64 :: "rat \<Rightarrow> int" where
  "go_int64 x = (if x < 0 then \<lceil>x\<rceil> else \<lfloor>x\<rfloor>)"

definition clamp :: "property_schema \<Rightarrow> rat \<Rightarrow> rat" where
  "clamp p x =
     (let y = (case pr_min p of None \<Rightarrow> x | Some lo \<Rightarrow> if x < lo then lo else x)
      in case pr_max p of None \<Rightarrow> y | Some hi \<Rightarrow> if hi < y then hi else y)"

definition clamp_value :: "property_schema \<Rightarrow> json \<Rightarrow> json" where
  "clamp_value p v =
     (case to_float v of
        None \<Rightarrow> v
      | Some x \<Rightarrow>
          let c = clamp p x in
          if c = x then v
          else if pr_type p = ''integer'' then JNum (of_int (go_int64 c)) else JNum c)"

definition apply_schema :: "json \<Rightarrow> json fields \<Rightarrow> json fields" where
  "apply_schema j flds =
     (case parse_schema j of
        None \<Rightarrow> flds
      | Some sc \<Rightarrow>
          let kept = (if sc_additional sc then flds
                      else filter (\<lambda>kv. map_of (sc_properties sc) (fst kv) \<noteq> None) flds)
          in map (\<lambda>kv. case map_of (sc_properties sc) (fst kv) of
                 None \<Rightarrow> kv
               | Some p \<Rightarrow> (fst kv, clamp_value p (snd kv))) kept)"

section \<open>The packet\<close>

definition is_zero :: "json \<Rightarrow> bool" where
  "is_zero v =
     (case v of
        JNull \<Rightarrow> True
      | JBool b \<Rightarrow> \<not> b
      | JStr s \<Rightarrow> s = []
      | JNum x \<Rightarrow> x = 0
      | _ \<Rightarrow> False)"

fun sprint :: "(json \<Rightarrow> str) \<Rightarrow> json \<Rightarrow> str" where
  "sprint show (JStr s) = s"
| "sprint show (JBool b) = (if b then ''true'' else ''false'')"
| "sprint show j = show j"

definition value_equals :: "(json \<Rightarrow> str) \<Rightarrow> json \<Rightarrow> json \<Rightarrow> bool" where
  "value_equals show got want =
     (case to_float got of
        Some x \<Rightarrow> (case to_float want of Some y \<Rightarrow> x = y | None \<Rightarrow> False)
      | None \<Rightarrow> sprint show got = sprint show want)"

definition matches_all :: "(json \<Rightarrow> str) \<Rightarrow> json fields \<Rightarrow> json fields \<Rightarrow> bool" where
  "matches_all show flds conds =
     (conds \<noteq> [] \<and>
      list_all (\<lambda>(k, want). case map_of flds k of None \<Rightarrow> False | Some got \<Rightarrow> value_equals show got want) conds)"

definition pick_speak :: "(json \<Rightarrow> str) \<Rightarrow> dispatch_spec \<Rightarrow> json fields \<Rightarrow> str" where
  "pick_speak show d flds =
     (case find (\<lambda>r. matches_all show flds (sr_when r)) (ds_speak_when d) of
        Some r \<Rightarrow> sr_speak r
      | None \<Rightarrow> ds_speak d)"

record packet =
  pk_topic :: str
  pk_fields :: "json fields"

definition set_constants :: "json fields \<Rightarrow> json fields \<Rightarrow> json fields" where
  "set_constants cs flds = fold (\<lambda>kv m. AList.update (fst kv) (snd kv) m) cs flds"

text \<open>Writing to a nil map panics.\<close>

definition dispatch_execute :: "(json \<Rightarrow> str) \<Rightarrow> tool_spec \<Rightarrow> dispatch_spec \<Rightarrow> raw \<Rightarrow> (str \<times> packet) outcome" where
  "dispatch_execute show t d params =
     (case decode_args params of
        Panic \<Rightarrow> Panic
      | Fail e \<Rightarrow> Fail (''tool '' @ ts_name t @ '': '' @ e)
      | Done None \<Rightarrow>
          if ds_payload d \<noteq> [] then Panic
          else Done (pick_speak show d [], \<lparr> pk_topic = ds_topic d, pk_fields = [] \<rparr>)
      | Done (Some args) \<Rightarrow>
          let flds = apply_schema (parameters t) args;
              speak = pick_speak show d flds;
              sent = (if ds_omit_zero d then filter (\<lambda>kv. \<not> is_zero (snd kv)) flds else flds)
          in Done (speak, \<lparr> pk_topic = ds_topic d, pk_fields = set_constants (ds_payload d) sent \<rparr>))"

section \<open>The envelope of a result\<close>

record tool_emission =
  te_topic :: str
  te_payload :: raw
  te_session :: str

record tool_result =
  tr_speak :: str
  tr_emit :: "tool_emission list"

text \<open>What a tool returns is a text: a JSON one or another.\<close>

datatype returned = Json_text json | Plain str

definition encode_emission :: "tool_emission \<Rightarrow> json" where
  "encode_emission em =
     JObj ([(''topic'', JStr (te_topic em))] @
       (case te_payload em of Json j \<Rightarrow> [(''payload'', j)] | _ \<Rightarrow> []) @
       (if te_session em = [] then [] else [(''session_id'', JStr (te_session em))]))"

definition encode_result :: "tool_result \<Rightarrow> returned" where
  "encode_result r =
     Json_text (JObj ((if tr_speak r = [] then [] else [(''speak'', JStr (tr_speak r))]) @
       (if tr_emit r = [] then [] else [(''emit'', JArr (map encode_emission (tr_emit r)))])))"

definition raw_field :: "json option \<Rightarrow> raw" where
  "raw_field v = (case v of None \<Rightarrow> Absent | Some j \<Rightarrow> Json j)"

definition decode_emission :: "json \<Rightarrow> tool_emission option" where
  "decode_emission j =
     (case j of
        JObj kvs \<Rightarrow>
          (case (as_string (struct_field ''topic'' (Json j)), as_string (struct_field ''session_id'' (Json j))) of
             (Some t, Some s) \<Rightarrow>
               Some \<lparr> te_topic = t,
                      te_payload = (case find (\<lambda>kv. to_lower (fst kv) = ''payload'') (rev kvs) of
                                      None \<Rightarrow> Absent | Some kv \<Rightarrow> Json (snd kv)),
                      te_session = s \<rparr>
           | _ \<Rightarrow> None)
      | JNull \<Rightarrow> Some \<lparr> te_topic = [], te_payload = Absent, te_session = [] \<rparr>
      | _ \<Rightarrow> None)"

fun decode_emissions :: "json list \<Rightarrow> tool_emission list option" where
  "decode_emissions [] = Some []"
| "decode_emissions (j # js) =
     (case (decode_emission j, decode_emissions js) of
        (Some e, Some es) \<Rightarrow> Some (e # es)
      | _ \<Rightarrow> None)"

definition decode_envelope :: "json \<Rightarrow> tool_result option" where
  "decode_envelope j =
     (case j of
        JObj kvs \<Rightarrow>
          if map_of kvs ''speak'' = None \<and> map_of kvs ''emit'' = None then None
          else
            (case (as_string (struct_field ''speak'' (Json j)),
                   (case struct_field ''emit'' (Json j) of
                      None \<Rightarrow> Some []
                    | Some (JArr js) \<Rightarrow> decode_emissions js
                    | Some _ \<Rightarrow> None)) of
               (Some s, Some es) \<Rightarrow>
                 if list_ex (\<lambda>e. te_topic e = []) es then None
                 else Some \<lparr> tr_speak = s, tr_emit = es \<rparr>
             | _ \<Rightarrow> None)
      | _ \<Rightarrow> None)"

definition parse_result :: "(json \<Rightarrow> str) \<Rightarrow> returned \<Rightarrow> tool_result" where
  "parse_result render r =
     (case r of
        Plain s \<Rightarrow> \<lparr> tr_speak = s, tr_emit = [] \<rparr>
      | Json_text j \<Rightarrow>
          (case decode_envelope j of Some res \<Rightarrow> res | None \<Rightarrow> \<lparr> tr_speak = render j, tr_emit = [] \<rparr>))"

section \<open>Running a tool\<close>

text \<open>The emissions of a result go out in order, except those a partial already sent; the first
  that cannot be sent fails the call. \<open>key\<close> renders a payload.\<close>

fun send_emissions :: "instant \<Rightarrow> (raw \<Rightarrow> str) \<Rightarrow> (tool_emission \<Rightarrow> bool) \<Rightarrow> (str \<Rightarrow> instant option) \<Rightarrow>
    tool_emission list \<Rightarrow> (str \<Rightarrow> instant option) \<times> tool_emission list \<times> bool" where
  "send_emissions now key ok sent [] = (sent, [], True)"
| "send_emissions now key ok sent (em # ems) =
     (case reflex_already_sent now sent (emission_key (te_topic em) (key (te_payload em))) of
        (sent1, True) \<Rightarrow> send_emissions now key ok sent1 ems
      | (sent1, False) \<Rightarrow>
          if \<not> ok em then (sent1, [], False)
          else (case send_emissions now key ok sent1 ems of (sent2, out, good) \<Rightarrow> (sent2, em # out, good)))"

definition run_tool :: "instant \<Rightarrow> (raw \<Rightarrow> str) \<Rightarrow> (json \<Rightarrow> str) \<Rightarrow> (tool_emission \<Rightarrow> bool) \<Rightarrow>
    (str \<Rightarrow> instant option) \<Rightarrow> returned outcome \<Rightarrow>
    (str \<Rightarrow> instant option) \<times> tool_emission list \<times> str outcome" where
  "run_tool now key render ok sent executed =
     (case executed of
        Panic \<Rightarrow> (sent, [], Panic)
      | Fail e \<Rightarrow> (sent, [], Fail e)
      | Done r \<Rightarrow>
          let res = parse_result render r in
          (case send_emissions now key ok sent (tr_emit res) of
             (sent', out, good) \<Rightarrow> (sent', out, if good then Done (tr_speak res) else Fail ''send'')))"

section \<open>Spoken prompts\<close>

definition is_placeholder_char :: "char \<Rightarrow> bool" where
  "is_placeholder_char c \<longleftrightarrow> is_letter c \<or> is_digit c \<or> c = CHR ''_''"

text \<open>A placeholder at the start of a text: its name and what follows.\<close>

definition placeholder :: "str \<Rightarrow> (str \<times> str) option" where
  "placeholder s =
     (case s of
        [] \<Rightarrow> None
      | c # rest \<Rightarrow>
          if c \<noteq> CHR ''{'' then None
          else let name = takeWhile is_placeholder_char rest; after = dropWhile is_placeholder_char rest in
            if name \<noteq> [] \<and> after \<noteq> [] \<and> hd after = CHR ''}'' then Some (name, tl after) else None)"

lemma placeholder_shorter: "placeholder s = Some (name, rest) \<Longrightarrow> length rest < length s"
  by (auto simp: placeholder_def Let_def split: list.splits if_splits)
    (metis length_dropWhile_le length_tl diff_le_self le_trans less_Suc_eq_le)

function fill_placeholders :: "(str \<Rightarrow> str) \<Rightarrow> str \<Rightarrow> str" where
  "fill_placeholders f [] = []"
| "fill_placeholders f (c # s) =
     (case placeholder (c # s) of
        Some (name, rest) \<Rightarrow> f name @ fill_placeholders f rest
      | None \<Rightarrow> c # fill_placeholders f s)"
  by pat_completeness auto
termination
  by (relation "measure (\<lambda>(f, s). length s)") (auto dest: placeholder_shorter)

definition render_prompt :: "(json \<Rightarrow> str) \<Rightarrow> str \<Rightarrow> raw \<Rightarrow> str" where
  "render_prompt show template params =
     (if template = [] \<or> \<not> contains_str template ''{'' then template
      else case unmarshal_fields params of
        None \<Rightarrow> template
      | Some flds \<Rightarrow>
          fill_placeholders
            (\<lambda>name. case map_of flds name of
               None \<Rightarrow> []
             | Some v \<Rightarrow> if v = JNull then [] else sprint show v) template)"


section \<open>Clamping\<close>

definition bounds_ok :: "property_schema \<Rightarrow> bool" where
  "bounds_ok p \<longleftrightarrow>
     (\<forall>lo hi. pr_min p = Some lo \<longrightarrow> pr_max p = Some hi \<longrightarrow> lo \<le> hi) \<and>
     (pr_type p = ''integer'' \<longrightarrow> (\<forall>x. pr_min p = Some x \<or> pr_max p = Some x \<longrightarrow> x \<in> \<int>))"

definition in_bounds :: "property_schema \<Rightarrow> json \<Rightarrow> bool" where
  "in_bounds p v \<longleftrightarrow>
     (\<forall>x. to_float v = Some x \<longrightarrow>
        (\<forall>lo. pr_min p = Some lo \<longrightarrow> lo \<le> x) \<and> (\<forall>hi. pr_max p = Some hi \<longrightarrow> x \<le> hi))"

lemma go_int64_int: "x \<in> \<int> \<Longrightarrow> of_int (go_int64 x) = x"
  by (auto simp: go_int64_def Ints_def)

lemma clamp_bounds:
  "bounds_ok p \<Longrightarrow> (\<forall>lo. pr_min p = Some lo \<longrightarrow> lo \<le> clamp p x) \<and> (\<forall>hi. pr_max p = Some hi \<longrightarrow> clamp p x \<le> hi)"
  by (auto simp: bounds_ok_def clamp_def Let_def split: option.splits)

lemma clamp_moved: "clamp p x \<noteq> x \<Longrightarrow> pr_min p = Some (clamp p x) \<or> pr_max p = Some (clamp p x)"
  by (auto simp: clamp_def Let_def split: option.splits if_splits)

lemma clamp_value_in_bounds: "bounds_ok p \<Longrightarrow> in_bounds p (clamp_value p v)"
proof (cases "to_float v")
  case None
  then show ?thesis by (simp add: clamp_value_def in_bounds_def)
next
  case (Some x)
  assume ok: "bounds_ok p"
  show ?thesis
  proof (cases "clamp p x = x")
    case True
    with Some clamp_bounds [OF ok, of x] show ?thesis by (simp add: clamp_value_def in_bounds_def)
  next
    case False
    with ok clamp_moved [OF False] have "pr_type p = ''integer'' \<Longrightarrow> clamp p x \<in> \<int>"
      by (auto simp: bounds_ok_def)
    then have "clamp_value p v = JNum (clamp p x)"
      using Some False go_int64_int by (auto simp: clamp_value_def Let_def)
    with clamp_bounds [OF ok, of x] show ?thesis by (simp add: in_bounds_def)
  qed
qed

lemma map_of_map_key:
  "map_of (map (\<lambda>kv. case f (fst kv) of None \<Rightarrow> kv | Some p \<Rightarrow> (fst kv, g p (snd kv))) kvs) k =
     (case map_of kvs k of None \<Rightarrow> None | Some v \<Rightarrow> Some (case f k of None \<Rightarrow> v | Some p \<Rightarrow> g p v))"
  by (induction kvs) (auto split: option.splits)

lemma map_of_filter_key: "map_of (filter (\<lambda>kv. P (fst kv)) kvs) k = (if P k then map_of kvs k else None)"
proof (induction kvs)
  case (Cons kv kvs)
  then show ?case by (cases "fst kv = k") simp_all
qed simp

lemma map_of_filter_None: "map_of kvs k = None \<Longrightarrow> map_of (filter P kvs) k = None"
  by (auto simp: map_of_eq_None_iff)

lemma map_of_filter_distinct:
  "distinct (map fst kvs) \<Longrightarrow> map_of (filter P kvs) k = Some v \<Longrightarrow> map_of kvs k = Some v"
  by (auto dest!: map_of_SomeD)

lemma map_of_apply_schema:
  assumes "parse_schema j = Some sc" and "\<not> sc_additional sc" and "map_of (apply_schema j flds) k = Some v"
  shows "\<exists>p w. map_of (sc_properties sc) k = Some p \<and> map_of flds k = Some w \<and> v = clamp_value p w"
  using assms map_of_filter_key [of "\<lambda>k. map_of (sc_properties sc) k \<noteq> None" flds k]
  by (auto simp: apply_schema_def Let_def map_of_map_key simp del: not_None_eq split: option.splits if_splits)

lemma distinct_apply_schema: "distinct (map fst flds) \<Longrightarrow> distinct (map fst (apply_schema j flds))"
proof -
  assume d: "distinct (map fst flds)"
  have "map fst (map (\<lambda>kv. case f (fst kv) of None \<Rightarrow> kv | Some p \<Rightarrow> (fst kv, g p (snd kv))) kvs) = map fst kvs"
    for f :: "str \<Rightarrow> property_schema option" and g and kvs :: "json fields"
    by (induction kvs) (auto split: option.split)
  with d show ?thesis
    by (auto simp: apply_schema_def Let_def distinct_map_filter simp del: map_map split: option.split)
qed

lemma map_of_set_constants:
  "map_of (set_constants cs flds) k = (case map_of (rev cs) k of Some v \<Rightarrow> Some v | None \<Rightarrow> map_of flds k)"
proof -
  have "map_of (fold (\<lambda>kv m. AList.update (fst kv) (snd kv) m) cs m) = map_of m ++ map_of (rev cs)" for m
    by (induction cs arbitrary: m) (auto simp: update_conv map_add_def fun_eq_iff split: option.split)
  then show ?thesis by (simp add: set_constants_def map_add_def split: option.split)
qed

lemma map_of_rev_distinct: "distinct (map fst kvs) \<Longrightarrow> map_of (rev kvs) = map_of kvs"
  by (rule map_of_inject_set [THEN iffD2]) (simp_all add: rev_map [symmetric])

section \<open>The envelope reads back\<close>

lemma decode_encode_emission:
  "te_payload em \<noteq> Malformed s \<Longrightarrow> (\<forall>s. te_payload em \<noteq> Malformed s) \<Longrightarrow> decode_emission (encode_emission em) = Some em"
  by (cases em; cases "te_payload em")
    (auto simp: decode_emission_def encode_emission_def struct_field_def to_lower_def is_upper_def)

lemma decode_encode_emissions:
  "\<forall>em \<in> set ems. \<forall>s. te_payload em \<noteq> Malformed s \<Longrightarrow> decode_emissions (map encode_emission ems) = Some ems"
  by (induction ems) (auto simp: decode_encode_emission)

text \<open>Every result of a packet tool is read back as it was: it has an emission with a topic.\<close>

lemma result_reads_back:
  assumes "tr_speak r \<noteq> [] \<or> tr_emit r \<noteq> []"
    and "\<forall>em \<in> set (tr_emit r). te_topic em \<noteq> [] \<and> (\<forall>s. te_payload em \<noteq> Malformed s)"
  shows "parse_result render (encode_result r) = r"
proof -
  have e: "decode_emissions (map encode_emission (tr_emit r)) = Some (tr_emit r)"
    using assms(2) by (intro decode_encode_emissions) blast
  have t: "\<not> list_ex (\<lambda>e. te_topic e = []) (tr_emit r)"
    using assms(2) by (auto simp: list_ex_iff)
  show ?thesis
    using assms(1) e t
    by (cases r) (auto simp: encode_result_def parse_result_def decode_envelope_def struct_field_def
        to_lower_def is_upper_def)
qed

section \<open>Arguments that are null\<close>

text \<open>The arguments \<open>null\<close> decode to a nil map, and writing the manifest's constants into it
  panics; on the path from another plugin nothing recovers.\<close>

lemma null_arguments_panic:
  "ds_payload d \<noteq> [] \<Longrightarrow> dispatch_execute show t d (Json JNull) = Panic"
  by (simp add: dispatch_execute_def decode_args_def)

section \<open>Properties\<close>


definition drive_tool :: tool_spec where
  "drive_tool = \<lparr> ts_name = ''drive'', ts_description = [],
     ts_parameters_raw = Some (JObj [(''properties'', JObj [(''speed'', JObj [(''type'', JStr ''number''),
       (''minimum'', JNum 0), (''maximum'', JNum 10)])])]),
     ts_confirm = False, ts_thinking = False, ts_requires = [], ts_internal = False, ts_confirm_prompt = [],
     ts_dispatch = None, ts_on_partial = None \<rparr>"

definition drive_packet :: dispatch_spec where
  "drive_packet = \<lparr> ds_topic = ''move'', ds_payload = [(''action'', JStr ''forward'')], ds_speak = ''Going'',
     ds_omit_zero = False, ds_speak_when = [] \<rparr>"


end
