(* ===== verification/Plugin_Host.thy ===== *)
theory Plugin_Host
  imports Plugin_Dispatch
begin

text \<open>
  The process behind a plugin (\<open>internal/plugin/external.go\<close>): the messages on its pipes and the
  matching of replies to calls.

  Many goroutines call the plugin at once, one goroutine reads what it writes. \<open>pendingMu\<close>
  guards the map from request ids to reply channels; a channel holds one reply. A step is one
  critical section or one channel operation. The reader holds the lock while it fails the
  calls left over when the process exits, so a call cannot register or leave meanwhile.
\<close>

section \<open>Messages\<close>

record rpc_request =
  rq_method :: str
  rq_params :: raw
  rq_tool :: str
  rq_session :: str

record rpc_response =
  rr_id :: int
  rr_result :: raw
  rr_error :: "str option"

fun as_int :: "json option \<Rightarrow> int option" where
  "as_int None = Some 0"
| "as_int (Some (JNum x)) = (if of_int \<lfloor>x\<rfloor> = x \<and> - (2 ^ 63) \<le> \<lfloor>x\<rfloor> \<and> \<lfloor>x\<rfloor> < 2 ^ 63 then Some \<lfloor>x\<rfloor> else None)"
| "as_int (Some _) = None"

definition decode_error :: "json option \<Rightarrow> str option option" where
  "decode_error v =
     (case v of
        None \<Rightarrow> Some None
      | Some (JObj kvs) \<Rightarrow>
          (case (as_int (struct_field ''code'' (Json (JObj kvs))), as_string (struct_field ''message'' (Json (JObj kvs)))) of
             (Some _, Some m) \<Rightarrow> Some (Some m)
           | _ \<Rightarrow> None)
      | Some _ \<Rightarrow> None)"

text \<open>What the reader makes of a line: it drops what it cannot parse, hands what carries a method
  to a goroutine of its own, and takes the rest for a reply.\<close>

datatype line = Dropped | Inbound raw | Reply_line rpc_response

definition decode_response :: "raw \<Rightarrow> line" where
  "decode_response l =
     (case (as_string (struct_field ''jsonrpc'' l), as_int (struct_field ''id'' l), decode_error (struct_field ''error'' l)) of
        (Some _, Some i, Some e) \<Rightarrow>
          Reply_line \<lparr>rr_id = i, rr_result = raw_field (struct_field ''result'' l), rr_error = e\<rparr>
      | _ \<Rightarrow> Dropped)"

definition classify :: "raw \<Rightarrow> line" where
  "classify l =
     (case l of
        Json (JObj kvs) \<Rightarrow>
          (case as_string (struct_field ''method'' l) of
             None \<Rightarrow> Dropped
           | Some m \<Rightarrow> if m \<noteq> [] then Inbound l else decode_response l)
      | Json JNull \<Rightarrow> decode_response l
      | _ \<Rightarrow> Dropped)"

text \<open>A result that is a JSON string is that string, anything else is passed on as JSON.\<close>

definition result_text :: "raw \<Rightarrow> returned" where
  "result_text r =
     (case r of
        Absent \<Rightarrow> Plain []
      | Json JNull \<Rightarrow> Plain []
      | Json (JStr s) \<Rightarrow> Plain s
      | Json j \<Rightarrow> Json_text j
      | Malformed s \<Rightarrow> Plain s)"

definition execute_request :: "bool \<Rightarrow> str \<Rightarrow> str \<Rightarrow> raw \<Rightarrow> rpc_request option" where
  "execute_request running tool session params =
     (if \<not> running then None
      else Some \<lparr>rq_method = ''execute'', rq_params = (if params = Absent then Json (JObj []) else params),
                 rq_tool = tool, rq_session = session\<rparr>)"

record plugin_event =
  pe_type :: str
  pe_session :: str
  pe_turn :: str
  pe_seq :: nat
  pe_data :: json

record outbound_event =
  oe_type :: str
  oe_turn :: str
  oe_seq :: nat
  oe_payload :: raw

definition event_request :: "bool \<Rightarrow> plugin_event \<Rightarrow> rpc_request option" where
  "event_request running ev =
     (if \<not> running then None
      else Some \<lparr>rq_method = ''event'',
        rq_params = Json (JObj [(''type'', JStr (pe_type ev)), (''session_id'', JStr (pe_session ev)),
          (''turn_id'', JStr (pe_turn ev)), (''turn_seq'', JNum (of_nat (pe_seq ev))), (''data'', pe_data ev)]),
        rq_tool = [], rq_session = pe_session ev\<rparr>)"

definition outbound_events :: "(json \<Rightarrow> str) \<Rightarrow> plugin_event \<Rightarrow> raw \<Rightarrow> outbound_event list" where
  "outbound_events render ev r =
     map (\<lambda>em. \<lparr>oe_type = te_topic em, oe_turn = pe_turn ev, oe_seq = pe_seq ev, oe_payload = te_payload em\<rparr>)
       (tr_emit (parse_result render (result_text r)))"

definition prepend_path :: "str \<Rightarrow> str \<Rightarrow> str" where
  "prepend_path existing add = (if existing = [] then add else existing @ '':'' @ add)"

section \<open>Calls and replies\<close>

datatype call_result = Got rpc_response | Timed_out | Not_sent

datatype phase = Unused | Numbered rpc_request | Entered rpc_request | Waiting | Leaving call_result | Over call_result

datatype reader = Stopped | Reading | Delivering rpc_response | Failing "int list"

record host =
  ph_running :: bool
  ph_stopping :: bool
  ph_next :: int
  ph_pending :: "int set"
  ph_chan :: "int \<Rightarrow> rpc_response option"
  ph_call :: "int \<Rightarrow> phase"
  ph_reader :: reader
  ph_sent :: "(int \<times> rpc_request) list"
  ph_replies :: "rpc_response list"

definition new_host :: host where
  "new_host = \<lparr>ph_running = False, ph_stopping = False, ph_next = 0, ph_pending = {}, ph_chan = (\<lambda>_. None),
     ph_call = (\<lambda>_. Unused), ph_reader = Stopped, ph_sent = [], ph_replies = []\<rparr>"

definition exited :: "int \<Rightarrow> rpc_response" where
  "exited i = \<lparr>rr_id = i, rr_result = Absent, rr_error = Some ''plugin exited''\<rparr>"

fun lock_free :: "reader \<Rightarrow> bool" where
  "lock_free (Failing ids) = False"
| "lock_free _ = True"

datatype host_event =
    Number rpc_request
  | Register int
  | Write int bool
  | Take int
  | Give_up int
  | Leave int
  | Reply rpc_response
  | Deliver
  | Exit "int list"
  | Fail_next
  | Close
  | Start
  | Stop

inductive host_step :: "host \<Rightarrow> host_event \<Rightarrow> host \<Rightarrow> bool" where
  number: "host_step h (Number req)
     (h\<lparr>ph_next := ph_next h + 1, ph_call := (ph_call h)(ph_next h + 1 := Numbered req)\<rparr>)"
| register: "ph_call h i = Numbered req \<Longrightarrow> lock_free (ph_reader h) \<Longrightarrow> host_step h (Register i)
     (h\<lparr>ph_pending := insert i (ph_pending h), ph_chan := (ph_chan h)(i := None), ph_call := (ph_call h)(i := Entered req)\<rparr>)"
| written: "ph_call h i = Entered req \<Longrightarrow> host_step h (Write i True)
     (h\<lparr>ph_sent := ph_sent h @ [(i, req)], ph_call := (ph_call h)(i := Waiting)\<rparr>)"
| unwritten: "ph_call h i = Entered req \<Longrightarrow> host_step h (Write i False) (h\<lparr>ph_call := (ph_call h)(i := Leaving Not_sent)\<rparr>)"
| took: "ph_call h i = Waiting \<Longrightarrow> ph_chan h i = Some r \<Longrightarrow> host_step h (Take i)
     (h\<lparr>ph_chan := (ph_chan h)(i := None), ph_call := (ph_call h)(i := Leaving (Got r))\<rparr>)"
| gave_up: "ph_call h i = Waiting \<Longrightarrow> host_step h (Give_up i) (h\<lparr>ph_call := (ph_call h)(i := Leaving Timed_out)\<rparr>)"
| left: "ph_call h i = Leaving res \<Longrightarrow> lock_free (ph_reader h) \<Longrightarrow> host_step h (Leave i)
     (h\<lparr>ph_pending := ph_pending h - {i}, ph_call := (ph_call h)(i := Over res)\<rparr>)"
| known: "ph_reader h = Reading \<Longrightarrow> rr_id r \<in> ph_pending h \<Longrightarrow> host_step h (Reply r)
     (h\<lparr>ph_reader := Delivering r, ph_replies := ph_replies h @ [r]\<rparr>)"
| unknown: "ph_reader h = Reading \<Longrightarrow> rr_id r \<notin> ph_pending h \<Longrightarrow> host_step h (Reply r)
     (h\<lparr>ph_replies := ph_replies h @ [r]\<rparr>)"
| delivered: "ph_reader h = Delivering r \<Longrightarrow> ph_chan h (rr_id r) = None \<Longrightarrow> host_step h Deliver
     (h\<lparr>ph_reader := Reading, ph_chan := (ph_chan h)(rr_id r := Some r)\<rparr>)"
| exit: "ph_reader h = Reading \<Longrightarrow> set ids = ph_pending h \<Longrightarrow> distinct ids \<Longrightarrow> host_step h (Exit ids)
     (h\<lparr>ph_running := False, ph_reader := Failing ids\<rparr>)"
| failed: "ph_reader h = Failing (i # ids) \<Longrightarrow> ph_chan h i = None \<Longrightarrow> host_step h Fail_next
     (h\<lparr>ph_reader := Failing ids, ph_chan := (ph_chan h)(i := Some (exited i))\<rparr>)"
| closed: "ph_reader h = Failing [] \<Longrightarrow> host_step h Close (h\<lparr>ph_pending := {}, ph_reader := Stopped\<rparr>)"
| started: "ph_reader h = Stopped \<Longrightarrow> host_step h Start (h\<lparr>ph_running := True, ph_stopping := False, ph_reader := Reading\<rparr>)"
| stopped: "host_step h Stop (h\<lparr>ph_stopping := True, ph_running := False\<rparr>)"

inductive host_reachable :: "host \<Rightarrow> bool" where
  initially: "host_reachable new_host"
| stepped: "host_reachable h \<Longrightarrow> host_step h e h' \<Longrightarrow> host_reachable h'"

inductive_simps deliver_enabled: "host_step h Deliver h'"
inductive_simps fail_enabled: "host_step h Fail_next h'"
inductive_simps take_enabled: "host_step h (Take i) h'"

section \<open>The invariant\<close>

text \<open>Whatever sits in a channel answers that channel's call: a reply the plugin gave, or the error of
  the exit, which never meets a call the map still knows once the lock is free.\<close>

definition in_use :: "phase \<Rightarrow> bool" where
  "in_use p \<longleftrightarrow> p = Waiting \<or> (\<exists>req. p = Entered req)"

definition answers :: "host \<Rightarrow> int \<Rightarrow> rpc_response \<Rightarrow> bool" where
  "answers h i r \<longleftrightarrow> rr_id r = i \<and> (r \<in> set (ph_replies h) \<or> r = exited i)"

definition replied :: "host \<Rightarrow> int \<Rightarrow> rpc_response \<Rightarrow> bool" where
  "replied h i r \<longleftrightarrow> rr_id r = i \<and> r \<in> set (ph_replies h)"

definition host_ok :: "host \<Rightarrow> bool" where
  "host_ok h \<longleftrightarrow>
     (\<forall>i r. ph_chan h i = Some r \<longrightarrow> answers h i r) \<and>
     (\<forall>i r. ph_call h i = Leaving (Got r) \<or> ph_call h i = Over (Got r) \<longrightarrow> answers h i r) \<and>
     (\<forall>i. ph_next h < i \<longrightarrow> ph_call h i = Unused) \<and>
     (\<forall>i. in_use (ph_call h i) \<longrightarrow> i \<in> ph_pending h \<or> ph_chan h i \<noteq> None) \<and>
     (\<forall>ids. ph_reader h = Failing ids \<longrightarrow> distinct ids \<and> (\<forall>i. in_use (ph_call h i) \<longrightarrow> i \<in> set ids \<or> ph_chan h i \<noteq> None)) \<and>
     (\<forall>r. ph_reader h = Delivering r \<longrightarrow> r \<in> set (ph_replies h))"

definition unread_ok :: "host \<Rightarrow> bool" where
  "unread_ok h \<longleftrightarrow>
     (\<forall>ids. ph_reader h = Failing ids \<longrightarrow> distinct ids) \<and>
     (\<forall>ids i r. ph_reader h = Failing ids \<and> i \<in> set ids \<and> ph_chan h i = Some r \<longrightarrow> replied h i r) \<and>
     (\<forall>i r. lock_free (ph_reader h) \<and> i \<in> ph_pending h \<and> ph_chan h i = Some r \<longrightarrow> replied h i r) \<and>
     (\<forall>r. ph_reader h = Delivering r \<longrightarrow> r \<in> set (ph_replies h) \<and>
        (distinct (map rr_id (ph_replies h)) \<longrightarrow> ph_chan h (rr_id r) = None))"

lemma lock_free_iff: "lock_free rd \<longleftrightarrow> (\<nexists>ids. rd = Failing ids)"
  by (cases rd) auto

lemma answers_exited: "answers h i (exited i)"
  by (simp add: answers_def exited_def)

lemma host_ok_step: "host_step h e h' \<Longrightarrow> host_ok h \<Longrightarrow> host_ok h'"
proof (induction rule: host_step.induct)
  case (failed h i ids)
  then show ?case by (auto simp: host_ok_def answers_def exited_def)
next
  case (exit h ids)
  then show ?case by (auto simp: host_ok_def answers_def)
next
  case (closed h)
  then show ?case by (auto simp: host_ok_def answers_def)
qed (auto simp: host_ok_def answers_def in_use_def lock_free_iff)

lemma unread_ok_step: "host_step h e h' \<Longrightarrow> unread_ok h \<Longrightarrow> unread_ok h'"
proof (induction rule: host_step.induct)
  case (known h r)
  have "ph_chan h (rr_id r) = None" if "rr_id r \<notin> rr_id ` set (ph_replies h)"
  proof (rule ccontr)
    assume "ph_chan h (rr_id r) \<noteq> None"
    then obtain a where "ph_chan h (rr_id r) = Some a" by blast
    with known have "replied h (rr_id r) a" by (auto simp: unread_ok_def)
    then have "rr_id a = rr_id r" "a \<in> set (ph_replies h)" by (simp_all add: replied_def)
    with that show False by (metis imageI)
  qed
  with known show ?case by (auto simp: unread_ok_def replied_def)
next
  case (exit h ids)
  then show ?case by (auto simp: unread_ok_def replied_def)
qed (auto simp: unread_ok_def replied_def lock_free_iff)

lemma host_reachable_ok: "host_reachable h \<Longrightarrow> host_ok h \<and> unread_ok h"
proof (induction rule: host_reachable.induct)
  case initially
  show ?case by (simp add: host_ok_def unread_ok_def new_host_def in_use_def)
qed (blast intro: host_ok_step unread_ok_step)

section \<open>Every reply to its call\<close>

text \<open>C21: However calls, replies, timeouts, exits and restarts interleave, a call returns nothing but
  what the plugin wrote in reply to that call's id, or the notice that the plugin exited, or that
  it timed out or was not sent.\<close>

theorem reply_reaches_its_call:
  assumes "host_reachable h" and "ph_call h i = Over (Got r)"
  shows "rr_id r = i \<and> (r \<in> set (ph_replies h) \<or> r = exited i)"
  using host_reachable_ok [OF assms(1)] assms(2) by (auto simp: host_ok_def answers_def)

text \<open>C22: When the reader has dealt with the exit of the process no call is left to time out: each
  that still waits has something to take, and takes it in one step.\<close>

theorem exit_answers_every_waiting_call:
  assumes "host_reachable h" and "host_step h Close h'" and "ph_call h' i = Waiting"
  shows "\<exists>r h''. host_step h' (Take i) h'' \<and> ph_call h'' i = Leaving (Got r) \<and> answers h' i r"
proof -
  have "host_reachable h'" using assms(1,2) by (rule stepped)
  then have ok: "host_ok h'" using host_reachable_ok by blast
  from assms(2) have "ph_pending h' = {}" by cases auto
  with ok assms(3) obtain r where r: "ph_chan h' i = Some r" by (fastforce simp: host_ok_def in_use_def)
  with ok have "answers h' i r" by (simp add: host_ok_def)
  moreover from took [OF assms(3) r] show ?thesis using calculation by fastforce
qed

text \<open>A plugin that answers no request twice never blocks the reader, and when such a plugin exits
  the reader can only be held up by a reply the plugin did give, to a call that has not read it.\<close>

theorem reader_is_not_blocked:
  assumes "host_reachable h" and "distinct (map rr_id (ph_replies h))"
  shows "(\<forall>r. ph_reader h = Delivering r \<longrightarrow> (\<exists>h'. host_step h Deliver h')) \<and>
    (\<forall>i ids. ph_reader h = Failing (i # ids) \<longrightarrow>
       (\<exists>h'. host_step h Fail_next h') \<or> (\<exists>r \<in> set (ph_replies h). rr_id r = i \<and> ph_chan h i = Some r))"
proof -
  have u: "unread_ok h" using host_reachable_ok [OF assms(1)] by blast
  have "\<exists>h'. host_step h Deliver h'" if "ph_reader h = Delivering r" for r
    using u that assms(2) unfolding deliver_enabled by (auto simp: unread_ok_def)
  moreover have "(\<exists>h'. host_step h Fail_next h') \<or> (\<exists>r \<in> set (ph_replies h). rr_id r = i \<and> ph_chan h i = Some r)"
    if "ph_reader h = Failing (i # ids)" for i ids
    using u that unfolding fail_enabled by (cases "ph_chan h i") (auto simp: unread_ok_def replied_def)
  ultimately show ?thesis by blast
qed

text \<open>That reply can hold it up for ever. A call that gave up although its reply had just arrived
  waits for the lock to leave, the reader holds the lock and waits for the call to read.\<close>

definition deadlocked :: "int \<Rightarrow> host \<Rightarrow> bool" where
  "deadlocked i h \<longleftrightarrow> (\<exists>ids. ph_reader h = Failing (i # ids)) \<and> ph_chan h i \<noteq> None \<and> (\<exists>res. ph_call h i = Leaving res)"

lemma deadlock_is_for_ever: "host_step h e h' \<Longrightarrow> deadlocked i h \<Longrightarrow> i \<le> ph_next h \<Longrightarrow> deadlocked i h' \<and> i \<le> ph_next h'"
  by (induction rule: host_step.induct) (auto simp: deadlocked_def)

definition sample_request :: rpc_request where
  "sample_request = \<lparr>rq_method = ''execute'', rq_params = Json (JObj []), rq_tool = ''time'', rq_session = ''s''\<rparr>"

definition sample_reply :: rpc_response where
  "sample_reply = \<lparr>rr_id = 1, rr_result = Json (JStr ''noon''), rr_error = None\<rparr>"

definition waiting_host :: host where
  "waiting_host = new_host\<lparr>ph_running := True, ph_next := 1, ph_pending := {1}, ph_call := (\<lambda>_. Unused)(1 := Waiting),
     ph_chan := (\<lambda>_. None)(1 := None), ph_reader := Reading, ph_sent := [(1, sample_request)]\<rparr>"

definition answered_host :: host where
  "answered_host = waiting_host\<lparr>ph_chan := (\<lambda>_. None)(1 := Some sample_reply), ph_replies := [sample_reply]\<rparr>"

lemma waiting_reachable: "host_reachable waiting_host"
proof -
  have "host_reachable (new_host\<lparr>ph_running := True, ph_stopping := False, ph_reader := Reading\<rparr>)"
    by (rule stepped [OF initially started]) (simp add: new_host_def)
  from stepped [OF this number [of _ sample_request]]
  have "host_reachable (new_host\<lparr>ph_running := True, ph_reader := Reading, ph_next := 1,
      ph_call := (\<lambda>_. Unused)(1 := Numbered sample_request)\<rparr>)" by (simp add: new_host_def)
  from stepped [OF this register [of _ 1 sample_request]]
  have "host_reachable (new_host\<lparr>ph_running := True, ph_reader := Reading, ph_next := 1, ph_pending := {1},
      ph_chan := (\<lambda>_. None)(1 := None), ph_call := (\<lambda>_. Unused)(1 := Entered sample_request)\<rparr>)"
    by (simp add: new_host_def)
  from stepped [OF this written [of _ 1 sample_request]]
  show ?thesis by (simp add: new_host_def waiting_host_def)
qed

definition delivering_host :: host where
  "delivering_host = waiting_host\<lparr>ph_reader := Delivering sample_reply, ph_replies := [sample_reply]\<rparr>"

lemma delivering_reachable: "host_reachable delivering_host"
  using stepped [OF waiting_reachable known [of _ sample_reply]]
  by (simp add: new_host_def sample_reply_def waiting_host_def delivering_host_def)

lemma answered_reachable: "host_reachable answered_host"
  using stepped [OF delivering_reachable delivered [of _ sample_reply]]
  by (simp add: new_host_def sample_reply_def waiting_host_def answered_host_def delivering_host_def)

lemma exit_can_deadlock:
  "\<exists>h. host_reachable h \<and> distinct (map rr_id (ph_replies h)) \<and> deadlocked 1 h \<and> 1 \<le> ph_next h"
proof -
  have "host_reachable (answered_host\<lparr>ph_call := (\<lambda>_. Unused)(1 := Leaving Timed_out)\<rparr>)"
    using stepped [OF answered_reachable gave_up [of _ 1]] by (simp add: answered_host_def waiting_host_def new_host_def)
  from stepped [OF this exit [of _ "[1]"]]
  have "host_reachable (answered_host\<lparr>ph_call := (\<lambda>_. Unused)(1 := Leaving Timed_out), ph_running := False,
      ph_reader := Failing [1]\<rparr>)" by (simp add: answered_host_def waiting_host_def new_host_def)
  then show ?thesis by (intro exI conjI) (auto simp: deadlocked_def answered_host_def waiting_host_def new_host_def)
qed

section \<open>Witnesses\<close>

theorem reply_reaches_its_call_witness:
  "\<exists>h. host_reachable h \<and> ph_call h 1 = Over (Got sample_reply) \<and> rr_id sample_reply = 1"
proof -
  from stepped [OF answered_reachable took [of _ 1 sample_reply]]
  have "host_reachable (answered_host\<lparr>ph_chan := (\<lambda>_. None)(1 := None), ph_call := (\<lambda>_. Unused)(1 := Leaving (Got sample_reply))\<rparr>)"
    by (simp add: answered_host_def waiting_host_def new_host_def)
  from stepped [OF this left [of _ 1 "Got sample_reply"]]
  have r: "host_reachable (answered_host\<lparr>ph_chan := (\<lambda>_. None)(1 := None), ph_pending := {},
      ph_call := (\<lambda>_. Unused)(1 := Over (Got sample_reply))\<rparr>)" by (simp add: answered_host_def waiting_host_def new_host_def)
  moreover have "rr_id sample_reply = 1" using reply_reaches_its_call [OF r, of 1 sample_reply] by simp
  ultimately show ?thesis by (intro exI conjI) auto
qed

theorem exit_answers_every_waiting_call_witness:
  "\<exists>h r h''. host_step h (Take 1) h'' \<and> ph_reader h = Stopped \<and> ph_call h'' 1 = Leaving (Got r)"
proof -
  have "host_reachable (waiting_host\<lparr>ph_running := False, ph_reader := Failing [1]\<rparr>)"
    using stepped [OF waiting_reachable exit [of _ "[1]"]] by (simp add: waiting_host_def)
  from stepped [OF this failed [of _ 1 "[]"]]
  have r: "host_reachable (waiting_host\<lparr>ph_running := False, ph_reader := Failing [], ph_chan := (\<lambda>_. None)(1 := Some (exited 1))\<rparr>)"
    by (simp add: waiting_host_def)
  let ?h = "waiting_host\<lparr>ph_running := False, ph_reader := Stopped, ph_chan := (\<lambda>_. None)(1 := Some (exited 1)), ph_pending := {}\<rparr>"
  have "host_step (waiting_host\<lparr>ph_running := False, ph_reader := Failing [], ph_chan := (\<lambda>_. None)(1 := Some (exited 1))\<rparr>) Close ?h"
    using closed [of "waiting_host\<lparr>ph_running := False, ph_reader := Failing [], ph_chan := (\<lambda>_. None)(1 := Some (exited 1))\<rparr>"]
    by (simp add: waiting_host_def new_host_def)
  from exit_answers_every_waiting_call [OF r this, of 1] show ?thesis
    by (intro exI [of _ ?h]) (auto simp: waiting_host_def)
qed

theorem reader_is_not_blocked_witness: "\<exists>h'. host_step delivering_host Deliver h'"
  using reader_is_not_blocked [OF delivering_reachable] by (simp add: delivering_host_def)

end
