(* ===== verification/Speech_Output.thy ===== *)
theory Speech_Output
  imports Complex_Main Barge_In
begin

text \<open>
  From synthesised bytes to RTP packets: \<open>internal/audio/rtp.go\<close>, the aligner and pump of
  \<open>internal/tts/http.go\<close>, the delivery tags of \<open>controls.go\<close>, the framing of
  \<open>synthesizeSentences\<close> in \<open>internal/pipeline/agent.go\<close>, the sender of \<open>outbound.go\<close>,
  \<open>sliceToFrames\<close> of \<open>thinking.go\<close> and the queue of \<open>realtime_audio.go\<close>.

  A speech provider is an argument: what it answers for a sentence is a stream of chunks,
  where \<open>None\<close> is a chunk with an error. The Opus encoder is an argument with a state of
  its own. A turn that is cancelled stops at a frame, so what it sends is a prefix of what
  is modelled here.
\<close>

section \<open>Samples and bytes\<close>

type_synonym byte = "8 word"
type_synonym pcm = "16 word list"

definition put_uint16 :: "16 word \<Rightarrow> byte list" where
  "put_uint16 s = [ucast s, ucast (drop_bit 8 s)]"

definition get_uint16 :: "byte \<Rightarrow> byte \<Rightarrow> 16 word" where
  "get_uint16 lo hi = or (ucast lo) (push_bit 8 (ucast hi))"

definition pcm_to_linear16 :: "pcm \<Rightarrow> byte list" where
  "pcm_to_linear16 samples = concat (map put_uint16 samples)"

fun linear16_to_pcm :: "byte list \<Rightarrow> pcm" where
  "linear16_to_pcm (lo # hi # rest) = get_uint16 lo hi # linear16_to_pcm rest"
| "linear16_to_pcm _ = []"

section \<open>Aligning provider chunks\<close>

record pcm_aligner =
  pa_carry :: byte
  pa_has_carry :: bool

definition new_aligner :: pcm_aligner where
  "new_aligner = \<lparr>pa_carry = 0, pa_has_carry = False\<rparr>"

definition take_aligned :: "pcm_aligner \<Rightarrow> byte list \<Rightarrow> pcm_aligner \<times> byte list" where
  "take_aligned a chunk =
     (if chunk = [] \<and> \<not> pa_has_carry a then (a, [])
      else let out = (if pa_has_carry a then [pa_carry a] else []) @ chunk;
               a = a\<lparr>pa_has_carry := False\<rparr>
           in if length out mod 2 = 1
              then (a\<lparr>pa_carry := last out, pa_has_carry := True\<rparr>, butlast out)
              else (a, out))"

text \<open>One read of \<open>pumpPCMStream\<close>: it passes on what is aligned, if anything.\<close>

definition pump_read :: "pcm_aligner \<Rightarrow> byte list \<Rightarrow> pcm_aligner \<times> byte list list" where
  "pump_read a buf =
     (if buf = [] then (a, [])
      else case take_aligned a buf of (a', chunk) \<Rightarrow> (a', if chunk = [] then [] else [chunk]))"

definition pump_pcm_stream :: "byte list list \<Rightarrow> byte list list" where
  "pump_pcm_stream reads = snd (run_chunks pump_read new_aligner reads)"

section \<open>Delivery tags\<close>

record voice_controls =
  vo_speed :: rat
  vo_tone :: str

definition no_controls :: voice_controls where
  "no_controls = \<lparr>vo_speed = 0, vo_tone = []\<rparr>"

definition is_zero_controls :: "voice_controls \<Rightarrow> bool" where
  "is_zero_controls vc \<longleftrightarrow> vo_speed vc = 0 \<and> vo_tone vc = []"

definition voice_tags :: "(str \<times> voice_controls) list" where
  "voice_tags =
     [(''warm'', \<lparr>vo_speed = 95 / 100, vo_tone = ''warm''\<rparr>),
      (''empathetic'', \<lparr>vo_speed = 9 / 10, vo_tone = ''empathetic''\<rparr>),
      (''calm'', \<lparr>vo_speed = 9 / 10, vo_tone = ''calm''\<rparr>),
      (''slow'', \<lparr>vo_speed = 85 / 100, vo_tone = ''slow''\<rparr>),
      (''excited'', \<lparr>vo_speed = 11 / 10, vo_tone = ''excited''\<rparr>),
      (''fast'', \<lparr>vo_speed = 11 / 10, vo_tone = ''fast''\<rparr>)]"

definition parse_voice_tag :: "str \<Rightarrow> voice_controls \<times> str" where
  "parse_voice_tag sentence =
     (let trimmed = trim_space sentence in
      if \<not> has_prefix ''['' trimmed then (no_controls, sentence)
      else case index_of '']'' trimmed of
        None \<Rightarrow> (no_controls, sentence)
      | Some e \<Rightarrow>
          if e \<le> 1 \<or> 16 < e then (no_controls, sentence)
          else case map_of voice_tags (to_lower (trim_space (drop 1 (take e trimmed)))) of
            None \<Rightarrow> (no_controls, sentence)
          | Some vc \<Rightarrow> (vc, trim_space (drop (e + 1) trimmed)))"

section \<open>Cutting speech into frames\<close>

record pcm_frame =
  pf_samples :: pcm
  pf_new_talkspurt :: bool

record framer =
  fr_leftover :: pcm
  fr_talkspurt_sent :: bool

definition new_framer :: framer where
  "new_framer = \<lparr>fr_leftover = [], fr_talkspurt_sent = False\<rparr>"

function cut_frames :: "bool \<Rightarrow> pcm \<Rightarrow> pcm_frame list \<times> framer" where
  "cut_frames sent samples =
     (if frame_size \<le> length samples
      then (case cut_frames True (drop frame_size samples) of (fs, s) \<Rightarrow>
              (\<lparr>pf_samples = take frame_size samples, pf_new_talkspurt = \<not> sent\<rparr> # fs, s))
      else ([], \<lparr>fr_leftover = samples, fr_talkspurt_sent = sent\<rparr>))"
  by pat_completeness auto

termination cut_frames
  by (relation "measure (\<lambda>(sent, samples). length samples)") (auto simp: frame_size_def)

declare cut_frames.simps [simp del]

definition speak_chunk :: "framer \<Rightarrow> byte list \<Rightarrow> framer \<times> pcm_frame list" where
  "speak_chunk s chunk =
     (case cut_frames (fr_talkspurt_sent s) (fr_leftover s @ linear16_to_pcm chunk) of
        (fs, s') \<Rightarrow> (s', fs))"

definition flush_frames :: "framer \<Rightarrow> pcm_frame list" where
  "flush_frames s =
     (if fr_leftover s = [] then []
      else [\<lparr>pf_samples = fr_leftover s @ replicate (frame_size - length (fr_leftover s)) 0,
             pf_new_talkspurt = \<not> fr_talkspurt_sent s\<rparr>])"

text \<open>A provider's answer for one sentence: an error, or chunks, the last of which may be an
  error. The flag says whether the turn goes on.\<close>

type_synonym tts_stream = "byte list option list"

fun speak_stream :: "framer \<Rightarrow> tts_stream \<Rightarrow> framer \<times> pcm_frame list \<times> bool" where
  "speak_stream s [] = (s, [], True)"
| "speak_stream s (None # chunks) = (s, [], False)"
| "speak_stream s (Some chunk # chunks) =
     (case speak_chunk s chunk of (s1, fs) \<Rightarrow>
      case speak_stream s1 chunks of (s2, gs, ok) \<Rightarrow> (s2, fs @ gs, ok))"

type_synonym tts_provider = "str \<Rightarrow> voice_controls option \<Rightarrow> tts_stream option"

definition sentence_stream :: "tts_provider \<Rightarrow> bool \<Rightarrow> str \<Rightarrow> tts_stream option" where
  "sentence_stream synth controllable sentence =
     (case parse_voice_tag sentence of (controls, clean) \<Rightarrow>
        if controllable \<and> \<not> is_zero_controls controls then synth clean (Some controls)
        else synth clean None)"

fun speak_sentences :: "tts_provider \<Rightarrow> bool \<Rightarrow> framer \<Rightarrow> str list \<Rightarrow> framer \<times> pcm_frame list \<times> bool" where
  "speak_sentences synth controllable s [] = (s, [], True)"
| "speak_sentences synth controllable s (sentence # rest) =
     (case sentence_stream synth controllable sentence of
        None \<Rightarrow> (s, [], False)
      | Some chunks \<Rightarrow>
          (case speak_stream s chunks of (s1, fs, ok) \<Rightarrow>
           if \<not> ok then (s1, fs, False)
           else case speak_sentences synth controllable s1 rest of (s2, gs, ok) \<Rightarrow> (s2, fs @ gs, ok)))"

definition synthesize_sentences :: "tts_provider \<Rightarrow> bool \<Rightarrow> str list \<Rightarrow> pcm_frame list" where
  "synthesize_sentences synth controllable sentences =
     (case speak_sentences synth controllable new_framer sentences of (s, fs, ok) \<Rightarrow>
        if ok then fs @ flush_frames s else fs)"

function slice_to_frames :: "pcm \<Rightarrow> pcm list" where
  "slice_to_frames samples =
     (if samples = [] then []
      else if frame_size \<le> length samples then take frame_size samples # slice_to_frames (drop frame_size samples)
      else [samples @ replicate (frame_size - length samples) 0])"
  by pat_completeness auto

termination slice_to_frames
  by (relation "measure length") (auto simp: frame_size_def)

declare slice_to_frames.simps [simp del]

section \<open>The sender\<close>

record 'e sender =
  sn_enc :: 'e
  sn_seq :: "16 word"
  sn_timestamp :: "32 word"
  sn_marker_next :: bool

record rtp_packet =
  rp_seq :: "16 word"
  rp_timestamp :: "32 word"
  rp_marker :: bool
  rp_payload :: "byte list"

definition rtp_timestamp_incr :: "32 word" where
  "rtp_timestamp_incr = 960"

type_synonym 'e encoder = "'e \<Rightarrow> pcm \<Rightarrow> 'e \<times> byte list option"

definition encode_and_send :: "'e encoder \<Rightarrow> bool \<Rightarrow> pcm \<Rightarrow> 'e sender \<Rightarrow> 'e sender \<times> rtp_packet option" where
  "encode_and_send enc muted samples s =
     (case enc (sn_enc s) (outgoing_samples muted samples) of
        (e, None) \<Rightarrow> (s\<lparr>sn_enc := e\<rparr>, None)
      | (e, Some payload) \<Rightarrow>
          let seq = sn_seq s + 1; ts = sn_timestamp s + rtp_timestamp_incr in
          (s\<lparr>sn_enc := e, sn_seq := seq, sn_timestamp := ts, sn_marker_next := False\<rparr>,
           Some \<lparr>rp_seq = seq, rp_timestamp = ts, rp_marker = sn_marker_next s, rp_payload = payload\<rparr>))"

definition mark_talkspurt :: "'e sender \<Rightarrow> 'e sender" where
  "mark_talkspurt s = s\<lparr>sn_marker_next := True\<rparr>"

text \<open>\<open>streamTalkspurt\<close> does this for every frame, the first one included; a frame comes with
  whether the agent was ducked when it was sent.\<close>

definition send_frame :: "'e encoder \<Rightarrow> 'e sender \<Rightarrow> bool \<times> pcm_frame \<Rightarrow> 'e sender \<times> rtp_packet list" where
  "send_frame enc s mf =
     (case mf of (muted, frame) \<Rightarrow>
      let s = (if pf_new_talkspurt frame then mark_talkspurt s else s) in
      case encode_and_send enc muted (pf_samples frame) s of
        (s', None) \<Rightarrow> (s', [])
      | (s', Some pkt) \<Rightarrow> (s', [pkt]))"

definition run_sender :: "'e encoder \<Rightarrow> 'e sender \<Rightarrow> (bool \<times> pcm_frame) list \<Rightarrow> 'e sender \<times> rtp_packet list" where
  "run_sender enc s frames = run_chunks (send_frame enc) s frames"

section \<open>The queue of realtime audio\<close>

record realtime_queue =
  rq_pending :: pcm
  rq_flush :: bool
  rq_closed :: bool

record realtime_chunk =
  rt_frame :: "pcm option"
  rt_end_of_response :: bool

definition new_realtime_queue :: realtime_queue where
  "new_realtime_queue = \<lparr>rq_pending = [], rq_flush = False, rq_closed = False\<rparr>"

definition rt_push :: "pcm \<Rightarrow> realtime_queue \<Rightarrow> realtime_queue" where
  "rt_push samples q = (if samples = [] then q else q\<lparr>rq_pending := rq_pending q @ samples\<rparr>)"

definition rt_discard :: "realtime_queue \<Rightarrow> realtime_queue" where
  "rt_discard q = q\<lparr>rq_pending := [], rq_flush := False\<rparr>"

definition rt_end_response :: "realtime_queue \<Rightarrow> realtime_queue" where
  "rt_end_response q = q\<lparr>rq_flush := True\<rparr>"

definition rt_close :: "realtime_queue \<Rightarrow> realtime_queue" where
  "rt_close q = q\<lparr>rq_closed := True\<rparr>"

text \<open>One pass of the loop in \<open>next\<close>: the queue is closed, gives a chunk, or has nothing and
  the caller waits.\<close>

datatype next_result = Closed | Chunk realtime_chunk | Wait

definition rt_next :: "realtime_queue \<Rightarrow> realtime_queue \<times> next_result" where
  "rt_next q =
     (if rq_closed q then (q, Closed)
      else if frame_size \<le> length (rq_pending q)
      then (q\<lparr>rq_pending := drop frame_size (rq_pending q)\<rparr>,
            Chunk \<lparr>rt_frame = Some (take frame_size (rq_pending q)), rt_end_of_response = False\<rparr>)
      else if rq_flush q
      then if rq_pending q = []
           then (q\<lparr>rq_flush := False\<rparr>, Chunk \<lparr>rt_frame = None, rt_end_of_response = True\<rparr>)
           else (q\<lparr>rq_flush := False, rq_pending := []\<rparr>,
                 Chunk \<lparr>rt_frame = Some (rq_pending q @ replicate (frame_size - length (rq_pending q)) 0),
                   rt_end_of_response = True\<rparr>)
      else (q, Wait))"

section \<open>Samples survive the wire format\<close>

lemma get_put_uint16 [simp]: "get_uint16 (ucast s) (ucast (drop_bit 8 s)) = s"
  by (rule bit_eqI) (auto simp: get_uint16_def bit_simps)

lemma put_get_uint16 [simp]: "put_uint16 (get_uint16 lo hi) = [lo, hi]"
proof -
  have "\<not> bit lo (8 + n)" for n using bit_imp_le_length [of lo "8 + n"] by auto
  then show ?thesis by (auto simp: put_uint16_def get_uint16_def bit_simps intro!: bit_eqI)
qed

lemma length_pcm_to_linear16: "length (pcm_to_linear16 samples) = 2 * length samples"
  by (induction samples) (auto simp: pcm_to_linear16_def put_uint16_def)

lemma linear16_of_pcm: "linear16_to_pcm (pcm_to_linear16 samples) = samples"
  by (induction samples) (auto simp: pcm_to_linear16_def put_uint16_def)

lemma pcm_of_linear16: "even (length bytes) \<Longrightarrow> pcm_to_linear16 (linear16_to_pcm bytes) = bytes"
  by (induction bytes rule: linear16_to_pcm.induct) (auto simp: pcm_to_linear16_def)

lemma linear16_append: "even (length a) \<Longrightarrow> linear16_to_pcm (a @ b) = linear16_to_pcm a @ linear16_to_pcm b"
  by (induction a rule: linear16_to_pcm.induct) auto

lemma linear16_concat: "\<forall>c \<in> set cs. even (length c) \<Longrightarrow> linear16_to_pcm (concat cs) = concat (map linear16_to_pcm cs)"
  by (induction cs) (auto simp: linear16_append)

lemma linear16_odd_tail: "even (length a) \<Longrightarrow> linear16_to_pcm (a @ [b]) = linear16_to_pcm a"
  by (simp add: linear16_append)

section \<open>The aligner and the framer re-cut their streams\<close>

definition carried :: "pcm_aligner \<Rightarrow> byte list" where
  "carried a = (if pa_has_carry a then [pa_carry a] else [])"

lemma take_aligned_conserve: "take_aligned a chunk = (a', out) \<Longrightarrow> carried a @ chunk = out @ carried a'"
  by (auto simp: take_aligned_def carried_def Let_def split: if_splits)

lemma take_aligned_even: "take_aligned a chunk = (a', out) \<Longrightarrow> even (length out)"
  by (auto simp: take_aligned_def Let_def split: if_splits) presburger

interpretation aligner: aligned_stream pump_read carried "\<lambda>buf. buf" "\<lambda>chunk. chunk" 2 "\<lambda>_. True"
proof unfold_locales
  fix a :: pcm_aligner and buf a' out
  assume p: "pump_read a buf = (a', out)"
  show "carried a @ buf = concat (map (\<lambda>chunk. chunk) out) @ carried a'"
    using p take_aligned_conserve by (auto simp: pump_read_def split: if_splits prod.splits)
  show "y \<in> set out \<Longrightarrow> 2 dvd length y" for y
    using p take_aligned_even by (auto simp: pump_read_def split: if_splits prod.splits)
qed (simp_all add: carried_def)

lemma cut_frames_conserve:
  "cut_frames sent samples = (fs, s) \<Longrightarrow>
   samples = concat (map pf_samples fs) @ fr_leftover s \<and> length (fr_leftover s) < frame_size \<and>
   (\<forall>f \<in> set fs. length (pf_samples f) = frame_size)"
proof (induction sent samples arbitrary: fs s rule: cut_frames.induct)
  case (1 sent samples)
  show ?case
  proof (cases "frame_size \<le> length samples")
    case True
    then obtain gs where gs: "cut_frames True (drop frame_size samples) = (gs, s)"
      "fs = \<lparr>pf_samples = take frame_size samples, pf_new_talkspurt = \<not> sent\<rparr> # gs"
      using "1.prems" by (subst (asm) cut_frames.simps) (auto split: prod.splits)
    with True "1.IH" [OF True gs(1)] show ?thesis by (metis (no_types, lifting) append.assoc append_take_drop_id concat.simps(2) length_take list.simps(9) min.absorb2 pcm_frame.select_convs(1) set_ConsD)
  next
    case False
    then show ?thesis using "1.prems" by (subst (asm) cut_frames.simps) auto
  qed
qed

interpretation framing: aligned_stream speak_chunk fr_leftover linear16_to_pcm pf_samples frame_size
  "\<lambda>s. length (fr_leftover s) < frame_size"
proof unfold_locales
  fix s :: framer and chunk s' fs
  assume p: "speak_chunk s chunk = (s', fs)"
  then have c: "cut_frames (fr_talkspurt_sent s) (fr_leftover s @ linear16_to_pcm chunk) = (fs, s')"
    by (auto simp: speak_chunk_def split: prod.splits)
  note cut = cut_frames_conserve [OF c]
  show "fr_leftover s @ linear16_to_pcm chunk = concat (map pf_samples fs) @ fr_leftover s'" using cut by simp
  show "length (fr_leftover s') < frame_size" using cut by simp
  show "f \<in> set fs \<Longrightarrow> frame_size dvd length (pf_samples f)" for f using cut by simp
qed (simp_all add: frame_size_def)

section \<open>A turn's frames\<close>

text \<open>The first frame of a turn opens the talkspurt, no other does.\<close>

lemma cut_frames_marks:
  "cut_frames sent samples = (fs, s) \<Longrightarrow>
   map pf_new_talkspurt fs = map (\<lambda>i. \<not> sent \<and> i = 0) [0..<length fs] \<and>
   fr_talkspurt_sent s = (sent \<or> fs \<noteq> [])"
proof (induction sent samples arbitrary: fs s rule: cut_frames.induct)
  case (1 sent samples)
  show ?case
  proof (cases "frame_size \<le> length samples")
    case True
    then obtain gs where gs: "cut_frames True (drop frame_size samples) = (gs, s)"
      "fs = \<lparr>pf_samples = take frame_size samples, pf_new_talkspurt = \<not> sent\<rparr> # gs"
      using "1.prems" by (subst (asm) cut_frames.simps) (auto split: prod.splits)
    from "1.IH" [OF True gs(1)] gs(2) show ?thesis
      by (simp add: upt_conv_Cons map_Suc_upt [symmetric] del: upt_Suc)
  next
    case False
    then show ?thesis using "1.prems" by (subst (asm) cut_frames.simps) auto
  qed
qed

lemma new_framer_simps [simp]:
  "fr_leftover new_framer = []" "\<not> fr_talkspurt_sent new_framer"
  by (simp_all add: new_framer_def)

definition frames_ok :: "framer \<Rightarrow> pcm_frame list \<Rightarrow> framer \<Rightarrow> bool" where
  "frames_ok s fs s' \<longleftrightarrow>
     (\<forall>i < length fs. length (pf_samples (fs ! i)) = frame_size \<and> (pf_new_talkspurt (fs ! i) \<longleftrightarrow> \<not> fr_talkspurt_sent s \<and> i = 0)) \<and>
     fr_talkspurt_sent s' = (fr_talkspurt_sent s \<or> fs \<noteq> []) \<and> length (fr_leftover s') < frame_size"

lemma frames_ok_append: "frames_ok s fs s1 \<Longrightarrow> frames_ok s1 gs s2 \<Longrightarrow> frames_ok s (fs @ gs) s2"
  by (auto simp: frames_ok_def nth_append)

lemma frames_ok_Nil: "length (fr_leftover s) < frame_size \<Longrightarrow> frames_ok s [] s"
  by (simp add: frames_ok_def)

lemma speak_chunk_ok: "speak_chunk s chunk = (s', fs) \<Longrightarrow> frames_ok s fs s'"
proof -
  assume "speak_chunk s chunk = (s', fs)"
  then have c: "cut_frames (fr_talkspurt_sent s) (fr_leftover s @ linear16_to_pcm chunk) = (fs, s')"
    by (auto simp: speak_chunk_def split: prod.splits)
  have "pf_new_talkspurt (fs ! i) = (\<not> fr_talkspurt_sent s \<and> i = 0)" if "i < length fs" for i
  proof -
    have "pf_new_talkspurt (fs ! i) = map pf_new_talkspurt fs ! i" using that by simp
    also have "\<dots> = (\<not> fr_talkspurt_sent s \<and> i = 0)"
      using that by (subst conjunct1 [OF cut_frames_marks [OF c]]) simp
    finally show ?thesis .
  qed
  with cut_frames_marks [OF c] cut_frames_conserve [OF c] show ?thesis by (simp add: frames_ok_def)
qed

lemma speak_stream_chunks:
  "length (fr_leftover s) < frame_size \<Longrightarrow> speak_stream s (map Some chunks) = (s', fs, ok) \<Longrightarrow>
   ok \<and> run_chunks speak_chunk s chunks = (s', fs) \<and> frames_ok s fs s'"
proof (induction chunks arbitrary: s fs)
  case (Cons c cs)
  obtain s1 gs where g: "speak_chunk s c = (s1, gs)" by fastforce
  note ok = speak_chunk_ok [OF g]
  then have "length (fr_leftover s1) < frame_size" by (simp add: frames_ok_def)
  obtain s2 hs b where h: "speak_stream s1 (map Some cs) = (s2, hs, b)" by (metis prod_cases3)
  with Cons.prems(2) g have "s' = s2" "fs = gs @ hs" "b = ok" by auto
  with Cons.IH [OF \<open>length (fr_leftover s1) < frame_size\<close>, of hs] g h ok show ?case
    by (auto intro: frames_ok_append)
qed (simp add: frames_ok_Nil)

lemma speak_sentences_chunks:
  assumes "\<And>sentence. sentence \<in> set sentences \<Longrightarrow> sentence_stream synth controllable sentence = Some (map Some (chunks sentence))"
    and "length (fr_leftover s) < frame_size"
  shows "\<exists>s' fs. speak_sentences synth controllable s sentences = (s', fs, True) \<and> frames_ok s fs s' \<and>
    run_chunks speak_chunk s (concat (map chunks sentences)) = (s', fs)"
  using assms
proof (induction sentences arbitrary: s)
  case (Cons x xs)
  obtain s1 fs ok where st: "speak_stream s (map Some (chunks x)) = (s1, fs, ok)" by (metis prod_cases3)
  note a = speak_stream_chunks [OF Cons.prems(2) st]
  then have "length (fr_leftover s1) < frame_size" by (simp add: frames_ok_def)
  from Cons.IH [OF Cons.prems(1) this] obtain s2 gs where
    b: "speak_sentences synth controllable s1 xs = (s2, gs, True)" "frames_ok s1 gs s2"
      "run_chunks speak_chunk s1 (concat (map chunks xs)) = (s2, gs)" by auto
  with a st Cons.prems(1) [of x] show ?case
    by (auto simp: run_chunks_append intro: frames_ok_append)
qed (simp add: frames_ok_Nil)

section \<open>Numbering packets\<close>

definition numbered :: "'e sender \<Rightarrow> rtp_packet list \<Rightarrow> bool" where
  "numbered s pkts \<longleftrightarrow> (\<forall>i < length pkts.
     rp_seq (pkts ! i) = sn_seq s + word_of_nat (Suc i) \<and>
     rp_timestamp (pkts ! i) = sn_timestamp s + word_of_nat (Suc i) * rtp_timestamp_incr)"

lemma send_frame_cases:
  assumes "send_frame enc s mf = (s', pkts)"
  shows "(pkts = [] \<and> sn_seq s' = sn_seq s \<and> sn_timestamp s' = sn_timestamp s \<and>
      sn_marker_next s' = (sn_marker_next s \<or> pf_new_talkspurt (snd mf))) \<or>
    (\<exists>payload. pkts = [\<lparr>rp_seq = sn_seq s + 1, rp_timestamp = sn_timestamp s + rtp_timestamp_incr,
      rp_marker = (sn_marker_next s \<or> pf_new_talkspurt (snd mf)), rp_payload = payload\<rparr>] \<and>
      sn_seq s' = sn_seq s + 1 \<and> sn_timestamp s' = sn_timestamp s + rtp_timestamp_incr \<and> \<not> sn_marker_next s')"
  using assms
  by (auto simp: send_frame_def encode_and_send_def mark_talkspurt_def Let_def split: prod.splits option.splits if_splits)

lemma run_sender_numbered:
  "run_sender enc s frames = (s', pkts) \<Longrightarrow> numbered s pkts"
  unfolding run_sender_def
proof (induction frames arbitrary: s pkts)
  case (Cons f fs)
  obtain s1 ps where f: "send_frame enc s f = (s1, ps)" by fastforce
  obtain s2 qs where r: "run_chunks (send_frame enc) s1 fs = (s2, qs)" by fastforce
  from Cons.prems f r have q: "pkts = ps @ qs" and "s' = s2" by auto
  with Cons.IH r have ih: "numbered s1 qs" by blast
  from send_frame_cases [OF f] show ?case
  proof (elim disjE exE conjE)
    assume "ps = []" "sn_seq s1 = sn_seq s" "sn_timestamp s1 = sn_timestamp s"
    with ih q show ?thesis by (simp add: numbered_def)
  next
    fix payload
    assume ps: "ps = [\<lparr>rp_seq = sn_seq s + 1, rp_timestamp = sn_timestamp s + rtp_timestamp_incr,
        rp_marker = sn_marker_next s \<or> pf_new_talkspurt (snd f), rp_payload = payload\<rparr>]"
      and s1: "sn_seq s1 = sn_seq s + 1" "sn_timestamp s1 = sn_timestamp s + rtp_timestamp_incr"
    have "rp_seq (pkts ! i) = sn_seq s + word_of_nat (Suc i) \<and>
        rp_timestamp (pkts ! i) = sn_timestamp s + word_of_nat (Suc i) * rtp_timestamp_incr" if "i < length pkts" for i
    proof (cases i)
      case 0
      then show ?thesis by (simp add: q ps)
    next
      case (Suc j)
      with that ih s1 show ?thesis by (simp add: q ps numbered_def algebra_simps)
    qed
    then show ?thesis by (simp add: numbered_def)
  qed
qed (simp add: numbered_def)

text \<open>With an encoder that always answers, every frame is a packet, and the marker is on
  exactly the packets of the frames that open a talkspurt.\<close>

lemma run_sender_total:
  assumes "\<And>e samples. snd (enc e samples) \<noteq> None" and "\<not> sn_marker_next s"
  shows "map rp_marker (snd (run_sender enc s frames)) = map (\<lambda>mf. pf_new_talkspurt (snd mf)) frames"
  using assms(2) unfolding run_sender_def
proof (induction frames arbitrary: s)
  case (Cons f fs)
  obtain s1 ps where f: "send_frame enc s f = (s1, ps)" by fastforce
  obtain muted frame where mf: "f = (muted, frame)" by fastforce
  let ?s = "if pf_new_talkspurt frame then mark_talkspurt s else s"
  obtain e payload where "enc (sn_enc ?s) (outgoing_samples muted (pf_samples frame)) = (e, Some payload)"
    using assms(1) by (metis not_None_eq surjective_pairing)
  then have "ps \<noteq> []"
    using f by (auto simp: mf send_frame_def encode_and_send_def Let_def)
  with send_frame_cases [OF f] Cons.prems obtain p where
    p: "ps = [p]" "rp_marker p = pf_new_talkspurt (snd f)" "\<not> sn_marker_next s1" by auto
  obtain s2 qs where "run_chunks (send_frame enc) s1 fs = (s2, qs)" by fastforce
  with Cons.IH [OF p(3)] p f show ?case by simp
qed simp

section \<open>Turns of any outcome\<close>

lemma speak_stream_ok:
  "length (fr_leftover s) < frame_size \<Longrightarrow> speak_stream s chunks = (s', fs, ok) \<Longrightarrow> frames_ok s fs s'"
proof (induction s chunks arbitrary: s' fs ok rule: speak_stream.induct)
  case (3 s chunk chunks)
  obtain s1 gs where g: "speak_chunk s chunk = (s1, gs)" by fastforce
  obtain s2 hs b where h: "speak_stream s1 chunks = (s2, hs, b)" by (metis prod_cases3)
  have "length (fr_leftover s1) < frame_size" using speak_chunk_ok [OF g] by (simp add: frames_ok_def)
  from "3.IH" [OF g [symmetric] this h] speak_chunk_ok [OF g] g h "3.prems"(2) show ?case
    by (auto intro: frames_ok_append)
qed (auto intro: frames_ok_Nil)

lemma speak_sentences_ok:
  "length (fr_leftover s) < frame_size \<Longrightarrow> speak_sentences synth c s sentences = (s', fs, ok) \<Longrightarrow> frames_ok s fs s'"
proof (induction sentences arbitrary: s fs)
  case (Cons x xs)
  show ?case
  proof (cases "sentence_stream synth c x")
    case None
    with Cons.prems show ?thesis by (auto intro: frames_ok_Nil)
  next
    case (Some chunks)
    obtain s1 gs b where g: "speak_stream s chunks = (s1, gs, b)" by (metis prod_cases3)
    note ok1 = speak_stream_ok [OF Cons.prems(1) g]
    then have lt: "length (fr_leftover s1) < frame_size" by (simp add: frames_ok_def)
    obtain s2 hs b' where h: "speak_sentences synth c s1 xs = (s2, hs, b')" by (metis prod_cases3)
    from Cons.prems(2) Some g h ok1 Cons.IH [OF lt] show ?thesis
      by (cases b) (auto intro: frames_ok_append)
  qed
qed (auto intro: frames_ok_Nil)

lemma synthesize_sentences_ok:
  assumes "i < length (synthesize_sentences synth c sentences)"
  shows "length (pf_samples (synthesize_sentences synth c sentences ! i)) = frame_size"
    and "pf_new_talkspurt (synthesize_sentences synth c sentences ! i) \<longleftrightarrow> i = 0"
proof -
  obtain s fs ok where r: "speak_sentences synth c new_framer sentences = (s, fs, ok)" by (metis prod_cases3)
  have "frames_ok new_framer fs s"
    by (rule speak_sentences_ok [OF _ r]) (simp add: new_framer_def frame_size_def)
  moreover have "length (fr_leftover s @ replicate (frame_size - length (fr_leftover s)) 0) = frame_size"
    using calculation by (simp add: frames_ok_def)
  ultimately show "length (pf_samples (synthesize_sentences synth c sentences ! i)) = frame_size"
    and "pf_new_talkspurt (synthesize_sentences synth c sentences ! i) \<longleftrightarrow> i = 0"
    using assms
    by (auto simp: synthesize_sentences_def r frames_ok_def flush_frames_def nth_append less_Suc_eq split: if_splits)
qed

section \<open>Properties\<close>

lemma pumped_samples: "concat (map linear16_to_pcm (pump_pcm_stream reads)) = linear16_to_pcm (concat reads)"
proof -
  obtain a out where r: "run_chunks pump_read new_aligner reads = (a, out)" by fastforce
  have "concat reads = concat out @ carried a" and ev: "\<forall>c \<in> set out. even (length c)"
    using aligner.run_conserve [OF r] aligner.run_blocks [OF _ r] by (simp_all add: carried_def new_aligner_def)
  moreover have "even (length (concat out))" using ev by (induction out) auto
  ultimately show ?thesis
    by (auto simp: pump_pcm_stream_def r linear16_concat [OF ev, symmetric] carried_def linear16_odd_tail)
qed

text \<open>C17: However the provider's bytes were cut by the network, a turn's frames carry exactly the
  samples of its sentences in order, followed by less than one frame of silence, and that only
  at the end of the turn; every frame is 20 ms long. Each sentence's bytes come through the
  pump, whose aligner re-joins samples split between reads.\<close>

theorem speech_frames_carry_every_sample:
  fixes reads :: "str \<Rightarrow> byte list list"
  assumes "\<And>sentence. sentence \<in> set sentences \<Longrightarrow>
      sentence_stream synth controllable sentence = Some (map Some (pump_pcm_stream (reads sentence)))"
  shows "(\<exists>pad < frame_size. concat (map pf_samples (synthesize_sentences synth controllable sentences)) =
      concat (map (\<lambda>sentence. linear16_to_pcm (concat (reads sentence))) sentences) @ replicate pad 0) \<and>
    (\<forall>frame \<in> set (synthesize_sentences synth controllable sentences). length (pf_samples frame) = frame_size)"
proof -
  let ?chunks = "\<lambda>sentence. pump_pcm_stream (reads sentence)"
  have len: "length (fr_leftover new_framer) < frame_size" by (simp add: new_framer_def frame_size_def)
  obtain s fs where s: "speak_sentences synth controllable new_framer sentences = (s, fs, True)"
    "frames_ok new_framer fs s" and r: "run_chunks speak_chunk new_framer (concat (map ?chunks sentences)) = (s, fs)"
    using speak_sentences_chunks [of sentences synth controllable ?chunks, OF assms len] by auto
  have "concat (map linear16_to_pcm (concat (map ?chunks sentences))) =
      concat (map (\<lambda>sentence. linear16_to_pcm (concat (reads sentence))) sentences)"
    by (induction sentences) (simp_all add: pumped_samples)
  with framing.run_conserve [OF r] have
    "concat (map (\<lambda>sentence. linear16_to_pcm (concat (reads sentence))) sentences) = concat (map pf_samples fs) @ fr_leftover s"
    by (simp add: new_framer_def)
  moreover have "length (fr_leftover s) < frame_size" using s(2) by (simp add: frames_ok_def)
  ultimately have "\<exists>pad < frame_size. concat (map pf_samples (synthesize_sentences synth controllable sentences)) =
      concat (map (\<lambda>sentence. linear16_to_pcm (concat (reads sentence))) sentences) @ replicate pad 0"
    using s(1) by (cases "fr_leftover s = []")
      (auto simp: synthesize_sentences_def flush_frames_def frame_size_def intro: exI [of _ 0] exI [of _ "frame_size - length (fr_leftover s)"])
  then show ?thesis using synthesize_sentences_ok(1) by (metis in_set_conv_nth)
qed

text \<open>Whatever the providers answer, what a turn puts on the wire is one talkspurt: one packet
  per frame, sequence numbers and timestamps counting up by one and by 20 ms of the 48 kHz
  clock modulo their widths, the marker bit on the first packet alone.\<close>

theorem turn_is_one_talkspurt:
  fixes synth :: tts_provider and controllable :: bool and sentences :: "str list"
    and enc :: "'e encoder" and s :: "'e sender" and muted :: "bool list"
  defines "frames \<equiv> synthesize_sentences synth controllable sentences"
  defines "pkts \<equiv> snd (run_sender enc s (zip muted frames))"
  assumes "\<And>e samples. snd (enc e samples) \<noteq> None" and "\<not> sn_marker_next s" and "length muted = length frames"
  shows "length pkts = length frames \<and>
    (\<forall>i < length pkts. rp_seq (pkts ! i) = sn_seq s + word_of_nat (Suc i) \<and>
      rp_timestamp (pkts ! i) = sn_timestamp s + word_of_nat (Suc i) * 960 \<and>
      (rp_marker (pkts ! i) \<longleftrightarrow> i = 0))"
proof -
  have m: "map rp_marker pkts = map pf_new_talkspurt frames"
  proof -
    have "map rp_marker pkts = map pf_new_talkspurt (map snd (zip muted frames))"
      unfolding pkts_def run_sender_total [OF assms(3,4)] by simp
    then show ?thesis by (simp only: map_snd_zip [OF assms(5)])
  qed
  then have len: "length pkts = length frames" by (metis length_map)
  have "rp_marker (pkts ! i) \<longleftrightarrow> i = 0" if "i < length pkts" for i
    using m that len synthesize_sentences_ok(2) [of i synth controllable sentences]
    unfolding frames_def by (metis nth_map)
  moreover have "numbered s pkts"
    unfolding pkts_def by (rule run_sender_numbered [of enc s "zip muted frames" "fst (run_sender enc s (zip muted frames))"]) simp
  ultimately show ?thesis using len by (simp add: numbered_def rtp_timestamp_incr_def)
qed

section \<open>A realtime response\<close>

datatype rt_event = Push pcm | Pull | End_Response | Discard

definition rt_pull :: "realtime_queue \<Rightarrow> realtime_queue \<times> realtime_chunk list" where
  "rt_pull q = (case rt_next q of (q', Chunk c) \<Rightarrow> (q', [c]) | (q', _) \<Rightarrow> (q', []))"

fun rt_feed :: "realtime_queue \<Rightarrow> rt_event \<Rightarrow> realtime_queue \<times> realtime_chunk list" where
  "rt_feed q (Push samples) = (rt_push samples q, [])"
| "rt_feed q Pull = rt_pull q"
| "rt_feed q End_Response = (rt_end_response q, [])"
| "rt_feed q Discard = (rt_discard q, [])"

definition rt_samples :: "realtime_chunk \<Rightarrow> pcm" where
  "rt_samples c = (case rt_frame c of None \<Rightarrow> [] | Some frame \<Rightarrow> frame)"

fun pushed :: "rt_event \<Rightarrow> pcm" where
  "pushed (Push samples) = samples"
| "pushed _ = []"

definition rt_open :: "realtime_queue \<Rightarrow> bool" where
  "rt_open q \<longleftrightarrow> \<not> rq_closed q \<and> \<not> rq_flush q"

lemma rt_feed_open:
  assumes "rt_open q" and "e \<noteq> End_Response" and "e \<noteq> Discard" and "rt_feed q e = (q', cs)"
  shows "rt_open q' \<and> rq_pending q @ pushed e = concat (map rt_samples cs) @ rq_pending q' \<and>
    (\<forall>c \<in> set cs. \<not> rt_end_of_response c \<and> (\<exists>frame. rt_frame c = Some frame \<and> length frame = frame_size))"
  using assms
  by (cases e) (auto simp: rt_open_def rt_push_def rt_pull_def rt_next_def rt_samples_def split: if_splits)

lemma rt_run_open:
  "rt_open q \<Longrightarrow> \<forall>e \<in> set es. e \<noteq> End_Response \<and> e \<noteq> Discard \<Longrightarrow> run_chunks rt_feed q es = (q', cs) \<Longrightarrow>
   rt_open q' \<and> rq_pending q @ concat (map pushed es) = concat (map rt_samples cs) @ rq_pending q' \<and>
   (\<forall>c \<in> set cs. \<not> rt_end_of_response c \<and> (\<exists>frame. rt_frame c = Some frame \<and> length frame = frame_size))"
proof (induction es arbitrary: q cs)
  case (Cons e es)
  obtain q1 ds where f: "rt_feed q e = (q1, ds)" by fastforce
  obtain q2 ds' where r: "run_chunks rt_feed q1 es = (q2, ds')" by fastforce
  have n: "e \<noteq> End_Response" "e \<noteq> Discard" using Cons.prems(2) by auto
  note a = rt_feed_open [OF Cons.prems(1) n f]
  then have "rt_open q1" by simp
  have "q2 = q'" using Cons.prems(3) f r by simp
  from Cons.IH [OF \<open>rt_open q1\<close> _ r [unfolded this]] Cons.prems(2) this have b: "rt_open q2" "rq_pending q1 @ concat (map pushed es) = concat (map rt_samples ds') @ rq_pending q2"
    "\<forall>c \<in> set ds'. \<not> rt_end_of_response c \<and> (\<exists>frame. rt_frame c = Some frame \<and> length frame = frame_size)" by auto
  have "rq_pending q @ pushed e @ concat (map pushed es) = concat (map rt_samples ds) @ rq_pending q1 @ concat (map pushed es)"
    using a by (metis append.assoc)
  with a b Cons.prems(3) f r show ?case by auto
qed simp

text \<open>Once the response has ended, so many pulls empty the queue.\<close>

lemma rt_pulls_drain:
  "\<not> rq_closed q \<Longrightarrow> rq_flush q \<Longrightarrow> n = length (rq_pending q) div frame_size \<Longrightarrow>
   \<exists>q' cs pad. run_chunks rt_feed q (replicate (Suc n) Pull) = (q', cs) \<and> rt_open q' \<and> rq_pending q' = [] \<and>
     pad < frame_size \<and> concat (map rt_samples cs) = rq_pending q @ replicate pad 0 \<and>
     map rt_end_of_response cs = replicate n False @ [True] \<and>
     (\<forall>c \<in> set cs. \<forall>frame. rt_frame c = Some frame \<longrightarrow> length frame = frame_size)"
proof (induction n arbitrary: q)
  case 0
  then have lt: "length (rq_pending q) < frame_size" by (simp add: frame_size_def div_eq_0_iff)
  show ?case
  proof (cases "rq_pending q = []")
    case True
    with 0 show ?thesis by (auto simp: rt_pull_def rt_next_def rt_samples_def rt_open_def frame_size_def intro!: exI [of _ 0])
  next
    case False
    with 0 lt show ?thesis
      by (auto simp: rt_pull_def rt_next_def rt_samples_def rt_open_def intro!: exI [of _ "frame_size - length (rq_pending q)"])
  qed
next
  case (Suc n)
  let ?p = "rq_pending q"
  have ge: "frame_size \<le> length ?p" using Suc.prems(3) by (metis div_less not_le_imp_less nat.distinct(1))
  have n: "n = length (drop frame_size ?p) div frame_size"
    using Suc.prems(3) ge by (simp add: frame_size_def)
  let ?q = "q\<lparr>rq_pending := drop frame_size ?p\<rparr>"
  from Suc.IH [of ?q] Suc.prems n obtain q' cs pad where
    r: "run_chunks rt_feed ?q (replicate (Suc n) Pull) = (q', cs)" "rt_open q'" "rq_pending q' = []" "pad < frame_size"
      "concat (map rt_samples cs) = drop frame_size ?p @ replicate pad 0"
      "map rt_end_of_response cs = replicate n False @ [True]"
      "\<forall>c \<in> set cs. \<forall>frame. rt_frame c = Some frame \<longrightarrow> length frame = frame_size" by auto
  let ?c = "\<lparr>rt_frame = Some (take frame_size ?p), rt_end_of_response = False\<rparr>"
  have "rt_feed q Pull = (?q, [?c])" using Suc.prems ge by (simp add: rt_pull_def rt_next_def)
  then have "run_chunks rt_feed q (replicate (Suc (Suc n)) Pull) = (q', ?c # cs)"
    using r(1) by (subst replicate_Suc) (simp del: replicate.simps)
  moreover have "concat (map rt_samples (?c # cs)) = ?p @ replicate pad 0"
    using r(5) by (simp add: rt_samples_def)
  ultimately show ?case
    using r(2-4,6,7) ge by (intro exI [of _ q'] exI [of _ "?c # cs"] exI [of _ pad]) simp
qed

text \<open>A realtime response plays in full: however the provider's pushes and the pump's pulls
  interleave, once the response has ended finitely many pulls give every sample in order, in
  whole frames with less than a frame of silence at the end, then report the end of the
  response, exactly once, and leave the queue empty.\<close>

theorem realtime_response_plays_in_full:
  assumes "\<forall>e \<in> set es. e \<noteq> End_Response \<and> e \<noteq> Discard"
  shows "\<exists>k q cs pad n. run_chunks rt_feed new_realtime_queue (es @ End_Response # replicate k Pull) = (q, cs) \<and>
    q = new_realtime_queue \<and> pad < frame_size \<and>
    concat (map rt_samples cs) = concat (map pushed es) @ replicate pad 0 \<and>
    map rt_end_of_response cs = replicate n False @ [True] \<and>
    (\<forall>c \<in> set cs. \<forall>frame. rt_frame c = Some frame \<longrightarrow> length frame = frame_size)"
proof -
  have "rt_open new_realtime_queue" by (simp add: rt_open_def new_realtime_queue_def)
  obtain q1 cs where r: "run_chunks rt_feed new_realtime_queue es = (q1, cs)" by fastforce
  note a = rt_run_open [OF \<open>rt_open new_realtime_queue\<close> assms r]
  let ?q = "rt_end_response q1" and ?k = "length (rq_pending q1) div frame_size"
  have "\<not> rq_closed ?q" "rq_flush ?q" "?k = length (rq_pending ?q) div frame_size"
    using a by (simp_all add: rt_open_def rt_end_response_def)
  from rt_pulls_drain [OF this] obtain q' ds pad where
    d: "run_chunks rt_feed ?q (replicate (Suc ?k) Pull) = (q', ds)" "rt_open q'" "rq_pending q' = []" "pad < frame_size"
      "concat (map rt_samples ds) = rq_pending q1 @ replicate pad 0"
      "map rt_end_of_response ds = replicate ?k False @ [True]"
      "\<forall>c \<in> set ds. \<forall>frame. rt_frame c = Some frame \<longrightarrow> length frame = frame_size"
    by (auto simp: rt_end_response_def)
  have "run_chunks rt_feed new_realtime_queue (es @ End_Response # replicate (Suc ?k) Pull) = (q', cs @ ds)"
    using r d(1) by (simp add: run_chunks_append del: replicate.simps)
  moreover have "map rt_end_of_response cs = replicate (length cs) False"
    using a by (auto simp: list_eq_iff_nth_eq)
  then have "map rt_end_of_response (cs @ ds) = replicate (length cs + ?k) False @ [True]"
    using d(6) by (simp add: replicate_add)
  moreover have "q' = new_realtime_queue" using d(2,3) by (simp add: rt_open_def new_realtime_queue_def)
  moreover have "concat (map rt_samples (cs @ ds)) = concat (map pushed es) @ replicate pad 0"
    using a d(5) by (simp add: new_realtime_queue_def)
  moreover have "\<forall>c \<in> set (cs @ ds). \<forall>frame. rt_frame c = Some frame \<longrightarrow> length frame = frame_size"
    using a d(7) by fastforce
  ultimately show ?thesis using d(4) by blast
qed

text \<open>The end of a response is a flag, not a place in the queue: audio of the next response that
  arrives before the pump has caught up is joined to the tail of the last one, and the padding
  and the end marker land inside it.\<close>

lemma end_of_response_is_not_positional:
  "snd (run_chunks rt_feed new_realtime_queue
     [Push (replicate 100 1), End_Response, Push (replicate 300 2), Pull, Pull, Push (replicate 240 2)]) =
   [\<lparr>rt_frame = Some (replicate 100 1 @ replicate 220 2), rt_end_of_response = False\<rparr>,
    \<lparr>rt_frame = Some (replicate 80 2 @ replicate 240 0), rt_end_of_response = True\<rparr>]"
  by (simp add: new_realtime_queue_def rt_push_def rt_pull_def rt_next_def rt_end_response_def frame_size_def)

section \<open>Witnesses\<close>

definition sample_reads :: "byte list list" where
  "sample_reads = [[1], [2, 3]]"

definition sample_provider :: tts_provider where
  "sample_provider sentence controls = Some (map Some (pump_pcm_stream sample_reads))"

lemma sample_stream: "sentence_stream sample_provider False sentence = Some (map Some (pump_pcm_stream sample_reads))"
  by (simp add: sentence_stream_def sample_provider_def split: prod.split)

lemma sample_pumped: "pump_pcm_stream sample_reads = [[1, 2]]"
  by (simp add: pump_pcm_stream_def sample_reads_def pump_read_def take_aligned_def new_aligner_def Let_def)

theorem speech_frames_carry_every_sample_witness:
  "\<exists>pad < frame_size. concat (map pf_samples (synthesize_sentences sample_provider False [''Hello.''])) = [0x201] @ replicate pad 0"
proof -
  have "linear16_to_pcm (concat sample_reads) = [0x201]"
    by (simp add: sample_reads_def get_uint16_def)
  then show ?thesis
    using speech_frames_carry_every_sample [of "[''Hello.'']" sample_provider False "\<lambda>_. sample_reads"] sample_stream by simp
qed

theorem turn_is_one_talkspurt_witness:
  "map rp_marker (snd (run_sender (\<lambda>e samples. (e, Some [1])) \<lparr>sn_enc = (), sn_seq = - 1, sn_timestamp = 0, sn_marker_next = False\<rparr>
     (zip [False] (synthesize_sentences sample_provider False [''Hello.''])))) = [True]"
proof -
  let ?frames = "synthesize_sentences sample_provider False [''Hello.'']"
  let ?s = "\<lparr>sn_enc = (), sn_seq = - 1, sn_timestamp = 0, sn_marker_next = False\<rparr>"
  define pkts where "pkts = snd (run_sender (\<lambda>e samples. (e, Some [1])) ?s (zip [False] ?frames))"
  have len: "length ?frames = 1"
    by (simp add: synthesize_sentences_def sample_stream sample_pumped speak_chunk_def cut_frames.simps [of _ "[_]"]
        frame_size_def flush_frames_def)
  have "length pkts = length ?frames \<and> (\<forall>i < length pkts. rp_marker (pkts ! i) \<longleftrightarrow> i = 0)"
    unfolding pkts_def
    using turn_is_one_talkspurt [where synth = sample_provider and controllable = False and sentences = "[''Hello.'']"
        and enc = "\<lambda>e samples. (e, Some [1])" and s = ?s and muted = "[False]"] len by simp
  with len have "map rp_marker pkts = [True]" by (cases pkts) auto
  then show ?thesis unfolding pkts_def .
qed

theorem realtime_response_plays_in_full_witness:
  "\<exists>k. map rt_end_of_response (snd (run_chunks rt_feed new_realtime_queue ([Push [1, 2], Pull] @ End_Response # replicate k Pull))) \<noteq> []"
proof -
  have "\<forall>e \<in> set [Push [1, 2], Pull]. e \<noteq> End_Response \<and> e \<noteq> Discard" by simp
  from realtime_response_plays_in_full [OF this] obtain k q cs n where
    "run_chunks rt_feed new_realtime_queue ([Push [1, 2], Pull] @ End_Response # replicate k Pull) = (q, cs)"
    "map rt_end_of_response cs = replicate n False @ [True]" by blast
  then show ?thesis by (intro exI [of _ k]) (metis append_is_Nil_conv not_Cons_self2 snd_conv list.distinct(1))
qed

end
