(* ===== verification/Go_Wire.thy ===== *)
theory Go_Wire
  imports Plugin_Dispatch Speech_Output
begin

text \<open>
  What the clients of the speech services put on the wire: query strings (\<open>url.QueryEscape\<close>,
  \<open>url.Values\<close>), fixed-width integers (\<open>encoding/binary\<close>) and JSON documents. Marshalled JSON is
  identified with its value. \<open>query_unescape\<close> and \<open>parse_query\<close> are the receiver's side, for the
  round trips.
\<close>

unbundle bit_operations_syntax

section \<open>Query strings\<close>

definition unreserved :: "char \<Rightarrow> bool" where
  "unreserved c \<longleftrightarrow> is_letter c \<or> is_digit c \<or> c \<in> {CHR ''-'', CHR ''_'', CHR ''.'', CHR ''~''}"

definition hex_digit :: "nat \<Rightarrow> char" where
  "hex_digit n = ''0123456789ABCDEF'' ! n"

definition escape_char :: "char \<Rightarrow> str" where
  "escape_char c =
     (if c = CHR '' '' then ''+''
      else if unreserved c then [c]
      else [CHR ''%'', hex_digit (of_char c div 16), hex_digit (of_char c mod 16)])"

definition query_escape :: "str \<Rightarrow> str" where
  "query_escape s = concat (map escape_char s)"

text \<open>\<open>url.Values\<close> maps a key to its values; encoding goes through the keys in order.\<close>

type_synonym url_values = "str list fields"

definition values_set :: "str \<Rightarrow> str \<Rightarrow> url_values \<Rightarrow> url_values" where
  "values_set k v vs = AList.update k [v] vs"

definition values_add :: "str \<Rightarrow> str \<Rightarrow> url_values \<Rightarrow> url_values" where
  "values_add k v vs = AList.update k ((case map_of vs k of None \<Rightarrow> [] | Some xs \<Rightarrow> xs) @ [v]) vs"

definition value_pairs :: "url_values \<Rightarrow> (str \<times> str) list" where
  "value_pairs vs = concat (map (\<lambda>kv. map (Pair (fst kv)) (snd kv)) (sort_key fst vs))"

definition encode_pair :: "str \<times> str \<Rightarrow> str" where
  "encode_pair kv = query_escape (fst kv) @ ''='' @ query_escape (snd kv)"

definition query_encode :: "url_values \<Rightarrow> str" where
  "query_encode vs = join ''&'' (map encode_pair (value_pairs vs))"

section \<open>The receiver's side\<close>

fun hex_value :: "char \<Rightarrow> nat option" where
  "hex_value c =
     (if is_digit c then Some (of_char c - 48)
      else if is_upper c \<and> of_char c < (71::nat) then Some (of_char c - 55)
      else None)"

fun query_unescape :: "str \<Rightarrow> str option" where
  "query_unescape [] = Some []"
| "query_unescape (c # s) =
     (if c = CHR ''%'' then
        (case s of
           a # b # s' \<Rightarrow>
             (case (hex_value a, hex_value b, query_unescape s') of
                (Some x, Some y, Some t) \<Rightarrow> Some (char_of (16 * x + y) # t)
              | _ \<Rightarrow> None)
         | _ \<Rightarrow> None)
      else map_option ((#) (if c = CHR ''+'' then CHR '' '' else c)) (query_unescape s))"

definition parse_pair :: "str \<Rightarrow> (str \<times> str) option" where
  "parse_pair s =
     (case (query_unescape (takeWhile (\<lambda>c. c \<noteq> CHR ''='') s), query_unescape (drop 1 (dropWhile (\<lambda>c. c \<noteq> CHR ''='') s))) of
        (Some k, Some v) \<Rightarrow> Some (k, v)
      | _ \<Rightarrow> None)"

definition parse_query :: "str \<Rightarrow> (str \<times> str) option list" where
  "parse_query s = map parse_pair (split_on (CHR ''&'') s)"

lemma hex_digit_value:
  assumes "n < 16" shows "hex_value (hex_digit n) = Some n"
proof -
  have "list_all (\<lambda>n. hex_value (hex_digit n) = Some n) [0, 1, 2, 3, 4, 5, 6, 7, 8, 9, 10, 11, 12, 13, 14, 15]"
    by code_simp
  moreover have "n \<in> set [0, 1, 2, 3, 4, 5, 6, 7, 8, 9, 10, 11, 12, 13, 14, 15]"
    using assms by (simp; presburger)
  ultimately show ?thesis by (simp only: list_all_iff)
qed

lemma unescape_char: "query_unescape (escape_char c @ s) = map_option ((#) c) (query_unescape s)"
proof -
  have lt: "(of_char c :: nat) < 256" using nat_of_char_less_256 by simp
  have hv: "hex_value (hex_digit (of_char c div 16)) = Some (of_char c div 16)"
    "hex_value (hex_digit (of_char c mod 16)) = Some (of_char c mod 16)"
    using lt by (auto intro!: hex_digit_value simp: div_less_iff_less_mult simp del: hex_value.simps)
  have u: "c \<noteq> CHR ''%'' \<and> c \<noteq> CHR ''+''" if "unreserved c"
    using that by (auto simp: unreserved_def is_letter_def is_upper_def is_lower_def is_digit_def)
  have "(16 * (of_char c div 16) + of_char c mod 16 :: nat) = of_char c" by simp
  then have "char_of (16 * (of_char c div 16) + of_char c mod 16 :: nat) = c" by simp
  with hv u show ?thesis
    by (auto simp: escape_char_def simp del: hex_value.simps split: option.split)
qed

lemma query_unescape_escape: "query_unescape (query_escape s) = Some s"
  by (induction s) (simp_all add: query_escape_def unescape_char)

lemma escape_char_plain:
  assumes "d \<in> {CHR ''&'', CHR ''='', CHR ''#'', CHR ''?''}" shows "d \<notin> set (escape_char c)"
proof -
  have "list_all (\<lambda>n. hex_digit n \<noteq> CHR ''&'' \<and> hex_digit n \<noteq> CHR ''='' \<and> hex_digit n \<noteq> CHR ''#'' \<and> hex_digit n \<noteq> CHR ''?'') [0, 1, 2, 3, 4, 5, 6, 7, 8, 9, 10, 11, 12, 13, 14, 15]"
    by code_simp
  moreover have "n \<in> set [0, 1, 2, 3, 4, 5, 6, 7, 8, 9, 10, 11, 12, 13, 14, 15]" if "n < 16" for n :: nat
    using that by (simp; presburger)
  ultimately have h: "hex_digit n \<noteq> d" if "n < 16" for n using assms that unfolding list_all_iff by blast
  have "(of_char c :: nat) < 256" using nat_of_char_less_256 by simp
  then have "hex_digit (of_char c div 16) \<noteq> d" "hex_digit (of_char c mod 16) \<noteq> d"
    by (auto intro!: h simp: div_less_iff_less_mult)
  moreover have "c \<noteq> d" if "unreserved c"
    using that assms by (auto simp: unreserved_def is_letter_def is_upper_def is_lower_def is_digit_def)
  ultimately show ?thesis using assms by (auto simp: escape_char_def)
qed

lemma query_escape_plain: "d \<in> {CHR ''&'', CHR ''='', CHR ''#'', CHR ''?''} \<Longrightarrow> d \<notin> set (query_escape s)"
  using escape_char_plain by (auto simp: query_escape_def)

lemma parse_encode_pair: "parse_pair (encode_pair kv) = Some kv"
proof -
  have "\<forall>c\<in>set (query_escape (fst kv)). c \<noteq> CHR ''=''" using query_escape_plain by fastforce
  then have "takeWhile (\<lambda>c. c \<noteq> CHR ''='') (encode_pair kv) = query_escape (fst kv)"
    "dropWhile (\<lambda>c. c \<noteq> CHR ''='') (encode_pair kv) = ''='' @ query_escape (snd kv)"
    by (simp_all add: encode_pair_def takeWhile_append2 dropWhile_append2)
  then show ?thesis by (simp add: parse_pair_def query_unescape_escape)
qed

lemma split_aux_word: "d \<notin> set w \<Longrightarrow> split_aux d acc (w @ s) = split_aux d (rev w @ acc) s"
  by (induction w arbitrary: acc) auto

lemma split_on_join:
  "ws \<noteq> [] \<Longrightarrow> list_all (\<lambda>w. d \<notin> set w) ws \<Longrightarrow> split_on d (join [d] ws) = ws"
proof (induction ws rule: induct_list012)
  case (2 w)
  then show ?case using split_aux_word [of d w "[]" "[]"] by (simp add: split_on_def)
next
  case (3 w v ws)
  then show ?case using split_aux_word [of d w "[]"] by (simp add: split_on_def)
qed simp

text \<open>What is encoded is read back: no value can add a parameter of its own.\<close>

lemma parse_query_encode:
  assumes "value_pairs vs \<noteq> []" shows "parse_query (query_encode vs) = map Some (value_pairs vs)"
proof -
  have "list_all (\<lambda>w. CHR ''&'' \<notin> set w) (map encode_pair (value_pairs vs))"
    using query_escape_plain [of "CHR ''&''"] by (auto simp: list_all_iff encode_pair_def)
  then have "split_on (CHR ''&'') (query_encode vs) = map encode_pair (value_pairs vs)"
    unfolding query_encode_def using assms by (intro split_on_join) simp_all
  then show ?thesis by (simp add: parse_query_def parse_encode_pair comp_def)
qed

section \<open>Fixed-width integers\<close>

definition put_be32 :: "32 word \<Rightarrow> byte list" where
  "put_be32 w = [ucast (drop_bit 24 w), ucast (drop_bit 16 w), ucast (drop_bit 8 w), ucast w]"

fun get_be32 :: "byte list \<Rightarrow> 32 word" where
  "get_be32 (a # b # c # d # rest) =
     push_bit 24 (ucast a) OR push_bit 16 (ucast b) OR push_bit 8 (ucast c) OR ucast d"
| "get_be32 _ = 0"

definition put_le32 :: "32 word \<Rightarrow> byte list" where
  "put_le32 w = rev (put_be32 w)"

definition get_le32 :: "byte list \<Rightarrow> 32 word" where
  "get_le32 bs = get_be32 (rev (take 4 bs))"

lemma get_put_be32 [simp]: "get_be32 (put_be32 w @ rest) = w"
proof (rule bit_word_eqI)
  fix n assume n: "n < LENGTH(32)"
  consider "n < 8" | "8 \<le> n" "n < 16" | "16 \<le> n" "n < 24" | "24 \<le> n" by linarith
  then show "bit (get_be32 (put_be32 w @ rest)) n = bit w n"
    using n by cases (auto simp: put_be32_def bit_simps)
qed

lemma length_put_be32 [simp]: "length (put_be32 w) = 4"
  by (simp add: put_be32_def)

lemma length_put_le32 [simp]: "length (put_le32 w) = 4"
  by (simp add: put_le32_def)

lemma get_put_le32 [simp]: "get_le32 (put_le32 w @ rest) = w"
  using get_put_be32 [of w "[]"] by (simp add: get_le32_def put_le32_def)

definition to_bytes :: "str \<Rightarrow> byte list" where
  "to_bytes s = map (\<lambda>c. of_nat (of_char c)) s"

definition of_bytes :: "byte list \<Rightarrow> str" where
  "of_bytes bs = map (\<lambda>b. char_of (unat b)) bs"

lemma of_bytes_to_bytes [simp]: "of_bytes (to_bytes s) = s"
proof -
  have "(of_char c :: nat) < 256" for c using nat_of_char_less_256 by simp
  then have "unat (of_nat (of_char c) :: byte) = of_char c" for c by (simp add: unat_of_nat)
  then show ?thesis by (simp add: of_bytes_def to_bytes_def comp_def)
qed

section \<open>Decoding JSON\<close>

text \<open>\<open>json.Unmarshal\<close> into a struct accepts an object or \<open>null\<close>; a nested struct is reached by a path of
  names. A value of the wrong kind anywhere on the path is an error.\<close>

fun into_struct :: "raw \<Rightarrow> bool" where
  "into_struct (Json (JObj kvs)) \<longleftrightarrow> True"
| "into_struct (Json JNull) \<longleftrightarrow> True"
| "into_struct _ \<longleftrightarrow> False"

definition sub_struct :: "str \<Rightarrow> raw \<Rightarrow> raw option" where
  "sub_struct name r =
     (case struct_field name r of
        None \<Rightarrow> Some (Json JNull)
      | Some (JObj kvs) \<Rightarrow> Some (Json (JObj kvs))
      | Some _ \<Rightarrow> None)"

definition sub_list :: "str \<Rightarrow> raw \<Rightarrow> json list option" where
  "sub_list name r =
     (case struct_field name r of
        None \<Rightarrow> Some []
      | Some (JArr js) \<Rightarrow> Some js
      | Some _ \<Rightarrow> None)"

fun all_some :: "'a option list \<Rightarrow> 'a list option" where
  "all_some [] = Some []"
| "all_some (None # xs) = None"
| "all_some (Some x # xs) = map_option ((#) x) (all_some xs)"

section \<open>Lines\<close>

text \<open>\<open>bufio.Scanner\<close>: the lines of a text, a last one without a newline included, and the end of line
  that is dropped from each.\<close>

definition scan_lines :: "str \<Rightarrow> str list" where
  "scan_lines body = (let ls = split_on (CHR 0x0A) body in if last ls = [] then butlast ls else ls)"

definition drop_cr :: "str \<Rightarrow> str" where
  "drop_cr line = (if line \<noteq> [] \<and> last line = CHR 0x0D then butlast line else line)"

lemma split_aux_step: "d \<notin> set p \<Longrightarrow> split_aux d acc (p @ d # s) = (rev acc @ p) # split_aux d [] s"
  by (induction p arbitrary: acc) auto

lemma split_aux_end: "d \<notin> set p \<Longrightarrow> split_aux d acc p = [rev acc @ p]"
  by (induction p arbitrary: acc) auto

end
