(* ===== verification/Plugin_Loading.thy ===== *)
theory Plugin_Loading
  imports Plugin_Registry Plugin_Host Go_Wire "HOL-Library.Multiset"
begin

text \<open>
  How plugins and skills come and go (\<open>internal/plugin/manager.go\<close>, \<open>external.go\<close>): the two
  directories read at the start, the skills and the prompt made of them, the start and the
  end of a plugin's process, and the delivery of an event. A directory is the list of its entries,
  a file is there or not and can be read or not; the YAML parser, what starting a process leads
  to and how long it takes to exit are arguments.
\<close>

section \<open>Skills\<close>

record skill =
  sk_name :: str
  sk_description :: str
  sk_version :: int
  sk_triggers :: "str list"
  sk_plugins :: "str list"
  sk_content :: str

definition fence :: str where "fence = ''---''"

text \<open>The lines of a skill file: whether the front matter is open, whether it is over, and what has been
  collected of it and of the body.\<close>

fun read_skill :: "bool \<Rightarrow> bool \<Rightarrow> str \<Rightarrow> str \<Rightarrow> str list \<Rightarrow> str \<times> str" where
  "read_skill inside over front body [] = (front, body)"
| "read_skill inside over front body (line # ls) =
     (if \<not> over \<and> trim_space line = fence
      then (if \<not> inside then read_skill True over front body ls else read_skill False True front body ls)
      else if inside then read_skill inside over (front @ line @ [CHR 0x0A]) body ls
      else if over then read_skill inside over front (body @ line @ [CHR 0x0A]) ls
      else read_skill inside over front body ls)"

text \<open>The scanner's own limit; what it says when it stops at a longer line is not asked.\<close>

definition max_skill_line :: int where "max_skill_line = 64 * 1024"

definition skill_lines :: "str \<Rightarrow> str list" where
  "skill_lines content = map drop_cr (takeWhile (\<lambda>l. int (length l) < max_skill_line) (scan_lines content))"

datatype skill_error = No_frontmatter | Bad_frontmatter | Nameless_skill

definition parse_skill :: "(str \<Rightarrow> skill option) \<Rightarrow> str \<Rightarrow> skill_error + skill" where
  "parse_skill yaml content =
     (case read_skill False False [] [] (skill_lines content) of
        (front, body) \<Rightarrow>
          if front = [] then Inl No_frontmatter
          else case yaml front of
            None \<Rightarrow> Inl Bad_frontmatter
          | Some s \<Rightarrow>
              let s = s\<lparr>sk_content := trim_space body\<rparr> in if sk_name s = [] then Inl Nameless_skill else Inr s)"

definition skill_section :: "skill \<Rightarrow> str" where
  "skill_section s =
     [CHR 0x0A] @ ''## Skill: '' @ sk_name s @ [CHR 0x0A] @
     (if sk_description s \<noteq> [] then ''Description: '' @ sk_description s @ [CHR 0x0A] else []) @
     (if sk_triggers s \<noteq> [] then ''Triggers: '' @ join '', '' (sk_triggers s) @ [CHR 0x0A] else []) @
     sk_content s @ [CHR 0x0A]"

definition skills_prompt :: "skill list \<Rightarrow> str" where
  "skills_prompt skills =
     (if skills = [] then []
      else [CHR 0x0A, CHR 0x0A] @ ''--- Skills ---'' @ [CHR 0x0A] @ concat (map skill_section skills))"

section \<open>The directories\<close>

datatype 'a disk_file = Missing | Unreadable | Readable 'a

record dir_entry =
  en_name :: str
  en_is_dir :: bool
  en_file :: "str disk_file"

fun load_skills :: "(str \<Rightarrow> skill option) \<Rightarrow> dir_entry list \<Rightarrow> skill list \<Rightarrow> str option \<times> skill list" where
  "load_skills yaml [] skills = (None, skills)"
| "load_skills yaml (e # es) skills =
     (if \<not> en_is_dir e then load_skills yaml es skills
      else case en_file e of
        Missing \<Rightarrow> load_skills yaml es skills
      | Unreadable \<Rightarrow> (Some (en_name e), skills)
      | Readable content \<Rightarrow>
          (case parse_skill yaml content of
             Inl _ \<Rightarrow> load_skills yaml es skills
           | Inr s \<Rightarrow> load_skills yaml es (skills @ [s])))"

text \<open>\<open>settings\<close> are the tables of the operator's configuration; \<open>started\<close> is what starting the process
  of a manifest led to.\<close>

fun load_plugins :: "(str \<Rightarrow> manifest option) \<Rightarrow> (str \<Rightarrow> raw) \<Rightarrow> (manifest \<Rightarrow> tool_spec list option) \<Rightarrow> dir_entry list \<Rightarrow>
    manager_state \<Rightarrow> str option \<times> manager_state" where
  "load_plugins yaml settings started [] s = (None, s)"
| "load_plugins yaml settings started (e # es) s =
     (if \<not> en_is_dir e then load_plugins yaml settings started es s
      else case en_file e of
        Missing \<Rightarrow> load_plugins yaml settings started es s
      | Unreadable \<Rightarrow> (Some (en_name e), s)
      | Readable content \<Rightarrow>
          (case yaml content of
             None \<Rightarrow> load_plugins yaml settings started es s
           | Some m0 \<Rightarrow>
               let m = normalize m0 in
               load_plugins yaml settings started es (snd (load (settings (mf_name m)) (started m) m s))))"

record plugin_manager =
  mg_state :: manager_state
  mg_skills :: "skill list"
  mg_closed :: bool

definition empty_manager :: plugin_manager where
  "empty_manager = \<lparr>mg_state = new_plugin_manager, mg_skills = [], mg_closed = False\<rparr>"

datatype load_failure = No_directory | Plugins_failed str | Skills_failed str

text \<open>A directory that does not exist has no entries; \<open>None\<close> is one that cannot be read.\<close>

record plugin_files =
  pf_configured :: bool
  pf_usable :: bool
  pf_plugins :: "dir_entry list option"
  pf_skills :: "dir_entry list option"

definition load_all :: "(str \<Rightarrow> manifest option) \<Rightarrow> (str \<Rightarrow> skill option) \<Rightarrow> (str \<Rightarrow> raw) \<Rightarrow> (manifest \<Rightarrow> tool_spec list option) \<Rightarrow>
    (nat \<Rightarrow> str list \<Rightarrow> tool_spec list option) \<Rightarrow> plugin_files \<Rightarrow> plugin_manager \<Rightarrow> load_failure option \<times> plugin_manager" where
  "load_all yaml_m yaml_s settings started ready files m =
     (if \<not> pf_configured files then (None, m)
      else if \<not> pf_usable files then (Some No_directory, m)
      else case pf_plugins files of
        None \<Rightarrow> (Some (Plugins_failed []), m)
      | Some es \<Rightarrow>
          (case load_plugins yaml_m settings started es (mg_state m) of
             (Some e, s) \<Rightarrow> (Some (Plugins_failed e), m\<lparr>mg_state := s\<rparr>)
           | (None, s) \<Rightarrow>
               let m = m\<lparr>mg_state := s\<rparr> in
               (case pf_skills files of
                  None \<Rightarrow> (Some (Skills_failed []), m)
                | Some es \<Rightarrow>
                    (case load_skills yaml_s es (mg_skills m) of
                       (Some e, sk) \<Rightarrow> (Some (Skills_failed e), m\<lparr>mg_skills := sk\<rparr>)
                     | (None, sk) \<Rightarrow> (None, m\<lparr>mg_skills := sk, mg_state := announce_ready ready (mg_state m)\<rparr>)))))"

section \<open>Events\<close>

text \<open>The handlers with the events they asked for, in the order the map is visited in, which Go leaves
  open; each takes the event or fails.\<close>

definition subscribers :: "(str \<times> str list) list \<Rightarrow> str \<Rightarrow> str list" where
  "subscribers handlers event = map fst (filter (\<lambda>h. event \<in> set (snd h)) handlers)"

fun deliver_event :: "(str \<Rightarrow> plugin_event \<Rightarrow> str + outbound_event list) \<Rightarrow> str list \<Rightarrow> plugin_event \<Rightarrow> outbound_event list \<times> str list" where
  "deliver_event handle [] ev = ([], [])"
| "deliver_event handle (h # hs) ev =
     (case deliver_event handle hs ev of
        (outputs, errs) \<Rightarrow> (case handle h ev of Inl e \<Rightarrow> (outputs, e # errs) | Inr out \<Rightarrow> (out @ outputs, errs)))"

definition dispatch_event :: "(str \<times> str list) list \<Rightarrow> (str \<Rightarrow> plugin_event \<Rightarrow> str + outbound_event list) \<Rightarrow> plugin_event \<Rightarrow> outbound_event list \<times> str list" where
  "dispatch_event handlers handle ev = deliver_event handle (subscribers handlers (pe_type ev)) ev"

section \<open>A plugin's process\<close>

definition protocol_version :: rat where "protocol_version = 2"

definition initialize_request :: "manifest \<Rightarrow> rpc_request" where
  "initialize_request m =
     \<lparr>rq_method = ''initialize'',
      rq_params = Json (JObj ([(''plugin'', JStr (mf_name m)), (''protocol'', JNum protocol_version)] @
        (case mf_config m of Json j \<Rightarrow> [(''config'', j)] | _ \<Rightarrow> []))),
      rq_tool = [], rq_session = []\<rparr>"

definition ready_request :: "str list \<Rightarrow> rpc_request" where
  "ready_request available =
     \<lparr>rq_method = ''ready'', rq_params = Json (JObj [(''tools'', JArr (map JStr available))]), rq_tool = [], rq_session = []\<rparr>"

text \<open>The tools a reply declares replace those of the manifest, if there are any; \<open>specs_of\<close> decodes them.\<close>

definition declared_tools :: "(raw \<Rightarrow> tool_spec list option) \<Rightarrow> raw \<Rightarrow> tool_spec list option" where
  "declared_tools specs_of result = (case specs_of result of None \<Rightarrow> None | Some ts \<Rightarrow> if ts = [] then None else Some ts)"

definition plugin_environment :: "str \<Rightarrow> (str \<Rightarrow> str) \<Rightarrow> str list \<Rightarrow> str list" where
  "plugin_environment sdk getenv env =
     (if sdk = [] then env
      else env @ [''PYTHONPATH='' @ prepend_path (getenv ''PYTHONPATH'') (sdk @ ''/python''),
        ''NODE_PATH='' @ prepend_path (getenv ''NODE_PATH'') (sdk @ ''/typescript/dist'')])"

text \<open>What starting leads to: an error before there is a process, a process whose handshake failed and
  which is stopped again, or a running plugin with the tools it advertises.\<close>

datatype start_error = Build_failed | No_command | No_environment | Not_started

datatype started_plugin = Not_up start_error | Stopped_again str | Up "tool_spec list"

record start_conditions =
  sc_build_ok :: bool
  sc_env_ok :: bool
  sc_spawns :: bool
  sc_handshake :: "str + raw"

definition start_process :: "(raw \<Rightarrow> tool_spec list option) \<Rightarrow> start_conditions \<Rightarrow> bool \<Rightarrow> manifest \<Rightarrow> tool_spec list \<Rightarrow> started_plugin" where
  "start_process specs_of c builds m described =
     (if builds \<and> \<not> (sc_env_ok c \<and> sc_build_ok c) then Not_up Build_failed
      else if mf_exec m = [] then Not_up No_command
      else if \<not> sc_env_ok c then Not_up No_environment
      else if \<not> sc_spawns c then Not_up Not_started
      else case sc_handshake c of
        Inl e \<Rightarrow> Stopped_again e
      | Inr result \<Rightarrow> Up (case declared_tools specs_of result of None \<Rightarrow> described | Some ts \<Rightarrow> ts))"

subsection \<open>Stopping it\<close>

definition stop_grace :: duration where "stop_grace = 2 * second"

datatype stop_signal = Close_stdin | Terminate | Kill

text \<open>\<open>exits s\<close>: how long after \<open>s\<close> the process exits, should it not be given another reason to. The
  signals given, the time it takes and whether the process is known to be gone.\<close>

definition exits_within :: "(stop_signal \<Rightarrow> duration option) \<Rightarrow> stop_signal \<Rightarrow> duration \<Rightarrow> duration option" where
  "exits_within exits s limit = (case exits s of Some t \<Rightarrow> if t \<le> limit then Some t else None | None \<Rightarrow> None)"

definition teardown :: "(stop_signal \<Rightarrow> duration option) \<Rightarrow> stop_signal list \<times> duration \<times> bool" where
  "teardown exits =
     (case exits_within exits Close_stdin stop_grace of
        Some t \<Rightarrow> ([Close_stdin], t, True)
      | None \<Rightarrow>
          (case exits_within exits Terminate stop_grace of
             Some t \<Rightarrow> ([Close_stdin, Terminate], stop_grace + t, True)
           | None \<Rightarrow>
               (case exits_within exits Kill (2 * stop_grace) of
                  Some t \<Rightarrow> ([Close_stdin, Terminate, Kill], stop_grace + stop_grace + t, True)
                | None \<Rightarrow> ([Close_stdin, Terminate, Kill], stop_grace + stop_grace + 2 * stop_grace, False))))"

text \<open>One process is torn down once, however often \<open>Stop\<close> is called; \<open>Close\<close> stops all hosts at the same
  time and waits for the last.\<close>

record process =
  pr_exists :: bool
  pr_stopping :: bool
  pr_torn_down :: bool

definition stop_process :: "(stop_signal \<Rightarrow> duration option) \<Rightarrow> process \<Rightarrow> process \<times> stop_signal list \<times> duration" where
  "stop_process exits p =
     (let p = p\<lparr>pr_stopping := True\<rparr> in
      if \<not> pr_exists p \<or> pr_torn_down p then (p, [], 0)
      else case teardown exits of (signals, t, _) \<Rightarrow> (p\<lparr>pr_torn_down := True\<rparr>, signals, t))"

definition close_hosts :: "(nat \<Rightarrow> stop_signal \<Rightarrow> duration option) \<Rightarrow> (nat \<Rightarrow> process) \<Rightarrow> nat list \<Rightarrow> duration" where
  "close_hosts exits procs hosts = fold max (map (\<lambda>h. snd (snd (stop_process (exits h) (procs h)))) hosts) 0"

definition close_manager :: "(nat \<Rightarrow> stop_signal \<Rightarrow> duration option) \<Rightarrow> (nat \<Rightarrow> process) \<Rightarrow> plugin_manager \<Rightarrow> plugin_manager \<times> duration" where
  "close_manager exits procs m =
     (if mg_closed m then (m, 0) else (m\<lparr>mg_closed := True\<rparr>, close_hosts exits procs (pm_hosts (mg_state m))))"

section \<open>Lines of a file\<close>

definition unlines :: "str list \<Rightarrow> str" where
  "unlines ls = concat (map (\<lambda>l. l @ [CHR 0x0A]) ls)"

lemma unlines_simps [simp]: "unlines [] = []" "unlines (l # ls) = l @ [CHR 0x0A] @ unlines ls" "unlines (ks @ ls) = unlines ks @ unlines ls"
  by (simp_all add: unlines_def)

definition clean_line :: "str \<Rightarrow> bool" where
  "clean_line l \<longleftrightarrow> CHR 0x0A \<notin> set l \<and> (l = [] \<or> last l \<noteq> CHR 0x0D)"

lemma scan_unlines: "list_all clean_line ls \<Longrightarrow> scan_lines (unlines ls) = ls"
proof -
  assume c: "list_all clean_line ls"
  then have "split_on (CHR 0x0A) (unlines ls) = ls @ [[]]"
    by (induction ls) (simp_all add: split_on_def clean_line_def split_aux_step)
  then show ?thesis by (simp add: scan_lines_def)
qed

lemma clean_drop_cr: "clean_line l \<Longrightarrow> drop_cr l = l"
  by (auto simp: clean_line_def drop_cr_def)

definition short_line :: "str \<Rightarrow> bool" where
  "short_line l \<longleftrightarrow> clean_line l \<and> int (length l) < max_skill_line"

lemma clean_drop_cr_all: "list_all clean_line ls \<Longrightarrow> map drop_cr ls = ls"
  by (induction ls) (simp_all add: clean_drop_cr)

lemma takeWhile_short: "list_all short_line ls \<Longrightarrow> takeWhile (\<lambda>l. int (length l) < max_skill_line) (ls @ ks) = ls @ takeWhile (\<lambda>l. int (length l) < max_skill_line) ks"
  by (induction ls) (simp_all add: short_line_def)

lemma read_front:
  "list_all (\<lambda>l. trim_space l \<noteq> fence) front \<Longrightarrow>
   read_skill True False f [] (front @ fence # ls) = read_skill False True (f @ unlines front) [] ls"
  by (induction front arbitrary: f) (simp_all add: fence_def trim_space_def trim_def trim_right_def is_space_def)

lemma read_body: "read_skill False True f b ls = (f, b @ unlines ls)"
  by (induction ls arbitrary: b) simp_all

lemma read_skill_file:
  assumes "list_all (\<lambda>l. trim_space l \<noteq> fence) front"
  shows "read_skill False False [] [] (fence # front @ fence # body) = (unlines front, unlines body)"
  using assms by (simp add: read_front read_body) (simp add: fence_def trim_space_def trim_def trim_right_def is_space_def)

text \<open>What comes after the first line that is too long for the scanner is not read.\<close>

lemma skill_lines_cut:
  assumes "list_all short_line ls" and "list_all clean_line ks"
  shows "skill_lines (unlines (ls @ ks)) = ls @ takeWhile (\<lambda>l. int (length l) < max_skill_line) ks"
proof -
  have l: "list_all clean_line ls" using assms(1) by (auto simp: list_all_iff short_line_def)
  have "list_all clean_line (takeWhile (\<lambda>l. int (length l) < max_skill_line) ks)"
    using assms(2) by (auto simp: list_all_iff dest: set_takeWhileD)
  then show ?thesis
    using assms l by (simp add: skill_lines_def scan_unlines takeWhile_short clean_drop_cr_all del: unlines_simps)
qed

section \<open>The manager's invariant\<close>

text \<open>A tool of a process is a tool of a process the manager keeps, and so is a handler of events.\<close>

definition manager_ok :: "manager_state \<Rightarrow> bool" where
  "manager_ok s \<longleftrightarrow> registry_ok (pm_plugins s) \<and> distinct (pm_hosts s) \<and> list_all (\<lambda>h. h < pm_next s) (pm_hosts s) \<and>
     (\<forall>k h t. map_of (pm_plugins s) k = Some (Hosted h t) \<longrightarrow> h \<in> set (pm_hosts s)) \<and>
     (\<forall>n h. map_of (pm_handlers s) n = Some h \<longrightarrow> h \<in> set (pm_hosts s))"

definition hosts_in :: "nat set \<Rightarrow> registry \<Rightarrow> bool" where
  "hosts_in hs reg \<longleftrightarrow> (\<forall>k h t. map_of reg k = Some (Hosted h t) \<longrightarrow> h \<in> hs)"

lemma hosts_in_register: "hosts_in hs reg \<Longrightarrow> (\<And>h t. r = Hosted h t \<Longrightarrow> h \<in> hs) \<Longrightarrow> hosts_in hs (register r reg)"
  by (auto simp: hosts_in_def register_def update_conv split: if_splits)

lemma hosts_in_fold: "hosts_in hs reg \<Longrightarrow> (\<forall>h t. Hosted h t \<in> set rs \<longrightarrow> h \<in> hs) \<Longrightarrow> hosts_in hs (fold register rs reg)"
proof (induction rs arbitrary: reg)
  case (Cons r rs)
  have "hosts_in hs (register r reg)" using Cons.prems by (intro hosts_in_register) auto
  moreover have "\<forall>h t. Hosted h t \<in> set rs \<longrightarrow> h \<in> hs" using Cons.prems(2) by simp
  ultimately show ?case using Cons.IH by simp
qed simp

lemma hosts_in_filter: "registry_ok reg \<Longrightarrow> hosts_in hs reg \<Longrightarrow> hosts_in hs (filter P reg)"
  by (auto simp: hosts_in_def registry_ok_def lookup_filter split: option.splits if_splits)

lemma hosts_in_mono: "hosts_in hs reg \<Longrightarrow> hs \<subseteq> hs' \<Longrightarrow> hosts_in hs' reg"
  by (auto simp: hosts_in_def)

lemma host_tools_hosted: "host_tools h specs = Inr rs \<Longrightarrow> Hosted h' t \<in> set rs \<Longrightarrow> h' = h"
proof (induction specs arbitrary: rs)
  case (Cons x xs)
  then show ?case by (auto split: sum.splits if_splits dest: new_dispatch_tool_ok)
qed simp

lemma register_host_tools_hosts:
  assumes "register_host_tools h specs reg = Inr reg'" and "registry_ok reg" and "hosts_in hs reg" and "h \<in> hs"
  shows "hosts_in hs reg'"
proof -
  obtain rs where rs: "host_tools h specs = Inr rs" "reg' = fold register rs (filter (\<lambda>kr. \<not> owned_by h (snd kr)) reg)"
    using assms(1) by (auto simp: register_host_tools_def split: sum.splits)
  show ?thesis unfolding rs(2)
    using host_tools_hosted [OF rs(1)] assms(4) by (intro hosts_in_fold hosts_in_filter [OF assms(2,3)]) auto
qed

lemma register_packets_hosts: "register_packets ts reg = (e, reg') \<Longrightarrow> hosts_in hs reg \<Longrightarrow> hosts_in hs reg'"
proof (induction ts arbitrary: reg)
  case (Cons t ts)
  show ?case
  proof (cases "new_dispatch_tool t")
    case (Inl x)
    with Cons.prems show ?thesis by simp
  next
    case (Inr r)
    then have "hosts_in hs (register r reg)"
      using Cons.prems(2) by (intro hosts_in_register) (auto dest: new_dispatch_tool_ok)
    with Cons Inr show ?thesis by simp
  qed
qed simp

lemma manager_okI:
  assumes "registry_ok reg" and "hosts_in (set (pm_hosts s')) reg" and "pm_plugins s' = reg"
    and "distinct (pm_hosts s')" and "list_all (\<lambda>h. h < pm_next s') (pm_hosts s')"
    and "\<And>n h. map_of (pm_handlers s') n = Some h \<Longrightarrow> h \<in> set (pm_hosts s')"
  shows "manager_ok s'"
  using assms by (auto simp: manager_ok_def hosts_in_def)

lemma manager_ok_hosts: "manager_ok s \<Longrightarrow> hosts_in (set (pm_hosts s)) (pm_plugins s)"
  by (simp add: manager_ok_def hosts_in_def)

lemma load_cases:
  assumes "load config started m s = (e, s')"
  obtains (same) "s' = s"
  | (packets) reg e' where "register_packets (mf_tools m) (pm_plugins s) = (e', reg)" "s' = s\<lparr>pm_plugins := reg\<rparr>"
  | (failed) "s' = s\<lparr>pm_next := Suc (pm_next s)\<rparr>"
  | (hosted) specs reg where "register_host_tools (pm_next s) specs (pm_plugins s) = Inr reg"
      "s' = s\<lparr>pm_next := Suc (pm_next s), pm_plugins := reg, pm_hosts := pm_hosts s @ [pm_next s],
         pm_handlers := (if mf_events m \<noteq> [] then AList.update (mf_name m) (pm_next s) (pm_handlers s) else pm_handlers s)\<rparr>"
proof -
  let ?m = "m\<lparr>mf_config := config\<rparr>"
  consider (idle) "validate m \<noteq> None \<or> \<not> is_enabled ?m \<or> needs_process ?m \<and> started = None"
    | (plain) "validate m = None" "is_enabled ?m" "\<not> needs_process ?m"
    | (process) specs where "validate m = None" "is_enabled ?m" "needs_process ?m" "started = Some specs"
    by (cases started) blast+
  then show thesis
  proof cases
    case idle
    then have "s' = s" using assms by (auto simp: load_def Let_def split: option.splits if_splits)
    then show thesis by (rule same)
  next
    case plain
    obtain e' reg where "register_packets (mf_tools m) (pm_plugins s) = (e', reg)" by fastforce
    then show thesis using assms plain by (intro packets) (auto simp: load_def)
  next
    case (process specs)
    show thesis
    proof (cases "register_host_tools (pm_next s) specs (pm_plugins s)")
      case (Inl x)
      then show thesis using assms process by (intro failed) (simp add: load_def)
    next
      case (Inr reg)
      then show thesis using assms process by (intro hosted) (auto simp: load_def Let_def)
    qed
  qed
qed

lemma load_manager_ok:
  assumes "manager_ok s" and "load config started m s = (e, s')"
  shows "manager_ok s'"
  using assms(2)
proof (cases rule: load_cases)
  case same
  with assms(1) show ?thesis by simp
next
  case (packets reg e')
  have "registry_ok reg" using register_packets_ok [OF _ packets(1)] assms(1) by (simp add: manager_ok_def)
  then show ?thesis
    using register_packets_hosts [OF packets(1) manager_ok_hosts [OF assms(1)]] assms(1) packets(2)
    by (intro manager_okI [of reg]) (auto simp: manager_ok_def)
next
  case failed
  with assms(1) show ?thesis by (auto simp: manager_ok_def list_all_iff less_Suc_eq)
next
  case (hosted specs reg)
  let ?hs = "insert (pm_next s) (set (pm_hosts s))"
  have ok: "registry_ok (pm_plugins s)" using assms(1) by (simp add: manager_ok_def)
  have "hosts_in ?hs (pm_plugins s)" using manager_ok_hosts [OF assms(1)] by (rule hosts_in_mono) auto
  then have "hosts_in ?hs reg" using register_host_tools_hosts [OF hosted(1) ok] by simp
  then show ?thesis
    using register_host_tools_ok [OF ok hosted(1)] assms(1) hosted(2)
    by (intro manager_okI [of reg]) (auto simp: manager_ok_def list_all_iff less_Suc_eq update_conv split: if_splits)
qed

lemma load_plugins_ok: "manager_ok s \<Longrightarrow> load_plugins yaml settings started es s = (e, s') \<Longrightarrow> manager_ok s'"
proof (induction es arbitrary: s)
  case (Cons x xs)
  have "manager_ok (snd (load c st m s))" for c st m
    using load_manager_ok [OF Cons.prems(1)] by (cases "load c st m s") simp
  with Cons show ?case by (auto simp: Let_def split: if_splits disk_file.splits option.splits)
qed simp

lemma announce_ready_manager_ok:
  assumes "manager_ok s"
  shows "manager_ok (announce_ready ready s)"
proof -
  let ?step = "\<lambda>available h s. case ready h available of None \<Rightarrow> s
    | Some specs \<Rightarrow> (case register_host_tools h specs (pm_plugins s) of Inl e \<Rightarrow> s | Inr reg \<Rightarrow> s\<lparr>pm_plugins := reg\<rparr>)"
  have "manager_ok (fold (?step available) hs s') \<and> pm_hosts (fold (?step available) hs s') = pm_hosts s'"
    if "set hs \<subseteq> set (pm_hosts s')" "manager_ok s'" for available hs s'
    using that
  proof (induction hs arbitrary: s')
    case (Cons h hs)
    have ok: "registry_ok (pm_plugins s')" using Cons.prems(2) by (simp add: manager_ok_def)
    have "manager_ok (?step available h s') \<and> pm_hosts (?step available h s') = pm_hosts s'"
    proof (cases "\<exists>specs reg. ready h available = Some specs \<and> register_host_tools h specs (pm_plugins s') = Inr reg")
      case True
      then obtain specs reg where r: "ready h available = Some specs" "register_host_tools h specs (pm_plugins s') = Inr reg" by blast
      have "manager_ok (s'\<lparr>pm_plugins := reg\<rparr>)"
        using register_host_tools_ok [OF ok r(2)] register_host_tools_hosts [OF r(2) ok manager_ok_hosts [OF Cons.prems(2)]] Cons.prems
        by (intro manager_okI [of reg]) (auto simp: manager_ok_def)
      with r show ?thesis by simp
    qed (use Cons.prems in \<open>auto split: option.split sum.split\<close>)
    with Cons.IH [of "?step available h s'"] Cons.prems(1) show ?case by simp
  qed simp
  from this [of "pm_hosts s" s] assms show ?thesis by (simp add: announce_ready_def Let_def)
qed

section \<open>Properties\<close>

text \<open>Whatever lies in the plugin directories and however the processes behave, after the start every
  tool that runs in a process runs in one the manager keeps and will stop, every handler of events
  too, and every tool is registered under its own name, a packet with a topic.\<close>

theorem every_hosted_tool_has_its_process:
  "manager_ok (mg_state (snd (load_all yaml_m yaml_s settings started ready files empty_manager)))"
proof -
  have new: "manager_ok (mg_state empty_manager)"
    by (simp add: manager_ok_def empty_manager_def new_plugin_manager_def registry_ok_def)
  have "manager_ok (snd (load_plugins yaml_m settings started es (mg_state empty_manager)))" for es
    using load_plugins_ok [OF new] by (cases "load_plugins yaml_m settings started es (mg_state empty_manager)") simp
  moreover have "manager_ok (announce_ready ready (snd (load_plugins yaml_m settings started es (mg_state empty_manager))))" for es
    using calculation by (rule announce_ready_manager_ok)
  ultimately show ?thesis
    using new by (auto simp: load_all_def Let_def split: option.splits prod.splits) (metis snd_conv)+
qed

text \<open>A skill file gives back what was written in it: the front matter between its fences goes to the
  YAML parser, and all that follows, trimmed, is the text of the skill.\<close>

theorem skill_file_is_read_back:
  assumes "list_all short_line (front @ body)" and "list_all (\<lambda>l. trim_space l \<noteq> fence) front" and "front \<noteq> []"
    and "yaml (unlines front) = Some s" and "sk_name s \<noteq> []"
  shows "parse_skill yaml (unlines (fence # front @ fence # body)) = Inr (s\<lparr>sk_content := trim_space (unlines body)\<rparr>)"
proof -
  have "short_line fence" by (simp add: short_line_def clean_line_def fence_def max_skill_line_def)
  with assms(1) have "skill_lines (unlines ((fence # front @ fence # body) @ [])) = (fence # front @ fence # body) @ takeWhile (\<lambda>l. int (length l) < max_skill_line) []"
    by (intro skill_lines_cut) simp_all
  then have "skill_lines (unlines (fence # front @ fence # body)) = fence # front @ fence # body" by simp
  then show ?thesis
    using read_skill_file [OF assms(2), of body] assms(3-5) by (cases front) (simp_all add: parse_skill_def del: unlines_simps(3))
qed

text \<open>Stopping is bounded and done once: closing the manager takes at most eight seconds, whatever the
  processes do and however many there are; closing it again, or stopping a stopped process, does
  nothing.\<close>

theorem closing_is_bounded:
  "snd (close_manager exits procs m) \<le> 8 * second \<and>
   close_manager exits' procs' (fst (close_manager exits procs m)) = (fst (close_manager exits procs m), 0) \<and>
   snd (stop_process e' (fst (stop_process e p))) = ([], 0)"
proof -
  have "snd (snd (stop_process e p)) \<le> 8 * second" for e p
    by (auto simp: stop_process_def teardown_def exits_within_def stop_grace_def Let_def split: option.split if_splits)
  then have "close_hosts exits procs hs \<le> 8 * second" for hs
  proof -
    have "fold max ts x \<le> 8 * second" if "list_all (\<lambda>t. t \<le> 8 * second) ts" "x \<le> 8 * second" for ts and x :: duration
      using that by (induction ts arbitrary: x) auto
    with \<open>\<And>p e. snd (snd (stop_process e p)) \<le> 8 * second\<close> show ?thesis by (simp add: close_hosts_def list_all_iff)
  qed
  then show ?thesis
    by (auto simp: close_manager_def stop_process_def Let_def split: prod.split)
qed

lemma deliver_event_outputs:
  "deliver_event handle hs ev = (concat (map (\<lambda>h. case handle h ev of Inl e \<Rightarrow> [] | Inr out \<Rightarrow> out) hs),
     concat (map (\<lambda>h. case handle h ev of Inl e \<Rightarrow> [e] | Inr out \<Rightarrow> []) hs))"
  by (induction hs) (simp_all split: sum.split)

lemma concat_permuted:
  assumes "mset xs = mset ys"
  shows "mset (concat (map f xs)) = mset (concat (map f ys))"
proof -
  have "mset (concat (map f zs)) = sum_mset (image_mset (\<lambda>x. mset (f x)) (mset zs))" for zs by (induction zs) simp_all
  with assms show ?thesis by simp
qed

text \<open>An event reaches every plugin that asked for it, a plugin that fails included, and in whatever
  order the handlers are visited the same outputs and the same errors come back.\<close>

theorem event_reaches_every_subscriber:
  assumes "mset handlers = mset handlers'"
  shows "mset (fst (dispatch_event handlers handle ev)) = mset (fst (dispatch_event handlers' handle ev)) \<and>
    mset (snd (dispatch_event handlers handle ev)) = mset (snd (dispatch_event handlers' handle ev)) \<and>
    (h \<in> set (subscribers handlers (pe_type ev)) \<longrightarrow>
       (case handle h ev of Inl e \<Rightarrow> e \<in> set (snd (dispatch_event handlers handle ev))
        | Inr out \<Rightarrow> set out \<subseteq> set (fst (dispatch_event handlers handle ev))))"
proof -
  have subs: "mset (subscribers handlers (pe_type ev)) = mset (subscribers handlers' (pe_type ev))"
    using assms by (simp add: subscribers_def)
  have "e \<in> set (snd (dispatch_event handlers handle ev))"
    if "h \<in> set (subscribers handlers (pe_type ev))" "handle h ev = Inl e" for e
    using that by (force simp: dispatch_event_def deliver_event_outputs)
  moreover have "set out \<subseteq> set (fst (dispatch_event handlers handle ev))"
    if "h \<in> set (subscribers handlers (pe_type ev))" "handle h ev = Inr out" for out
    using that by (force simp: dispatch_event_def deliver_event_outputs)
  moreover have "mset (fst (dispatch_event handlers handle ev)) = mset (fst (dispatch_event handlers' handle ev))"
    "mset (snd (dispatch_event handlers handle ev)) = mset (snd (dispatch_event handlers' handle ev))"
    unfolding dispatch_event_def deliver_event_outputs fst_conv snd_conv by (rule concat_permuted [OF subs])+
  ultimately show ?thesis by (simp split: sum.split)
qed

section \<open>Witnesses\<close>

definition greeting_skill :: skill where
  "greeting_skill = \<lparr>sk_name = ''greeting'', sk_description = [], sk_version = 1, sk_triggers = [], sk_plugins = [], sk_content = []\<rparr>"

theorem skill_file_is_read_back_witness:
  "parse_skill (\<lambda>_. Some greeting_skill) (unlines [fence, ''name: greeting'', fence, ''Say hello.'']) =
     Inr (greeting_skill\<lparr>sk_content := ''Say hello.''\<rparr>)"
  using skill_file_is_read_back [of "[''name: greeting'']" "[''Say hello.'']" "\<lambda>_. Some greeting_skill" greeting_skill]
  by (simp add: short_line_def clean_line_def max_skill_line_def fence_def greeting_skill_def trim_space_def trim_def trim_right_def is_space_def)

definition log_handlers :: "(str \<times> str list) list" where
  "log_handlers = [(''log'', [''turn'']), (''broken'', [''turn'']), (''other'', [''call''])]"

definition log_handle :: "str \<Rightarrow> plugin_event \<Rightarrow> str + outbound_event list" where
  "log_handle h ev = (if h = ''log'' then Inr [\<lparr>oe_type = ''shown'', oe_turn = [], oe_seq = 1, oe_payload = Absent\<rparr>] else Inl ''down'')"

definition turn_event :: plugin_event where
  "turn_event = \<lparr>pe_type = ''turn'', pe_session = ''s'', pe_turn = [], pe_seq = 1, pe_data = JNull\<rparr>"

theorem event_reaches_every_subscriber_witness:
  "mset (fst (dispatch_event log_handlers log_handle turn_event)) = mset (fst (dispatch_event (rev log_handlers) log_handle turn_event)) \<and>
   length (fst (dispatch_event log_handlers log_handle turn_event)) = 1"
  using event_reaches_every_subscriber [of log_handlers "rev log_handlers" log_handle turn_event "''log''"]
  by (simp add: dispatch_event_def deliver_event_outputs subscribers_def log_handlers_def log_handle_def turn_event_def)

section \<open>Observations\<close>

text \<open>The rest of a skill after a line of 64 kB is dropped without a word.\<close>

lemma long_line_cuts_skill:
  assumes "list_all short_line (front @ body)" and "list_all (\<lambda>l. trim_space l \<noteq> fence) front" and "front \<noteq> []"
    and "yaml (unlines front) = Some s" and "sk_name s \<noteq> []"
    and "list_all clean_line (l # rest)" and "max_skill_line \<le> int (length l)"
  shows "parse_skill yaml (unlines ((fence # front @ fence # body) @ l # rest)) = Inr (s\<lparr>sk_content := trim_space (unlines body)\<rparr>)"
proof -
  have "short_line fence" by (simp add: short_line_def clean_line_def fence_def max_skill_line_def)
  with assms(1) have "skill_lines (unlines ((fence # front @ fence # body) @ l # rest)) = fence # front @ fence # body"
    using skill_lines_cut [of "fence # front @ fence # body" "l # rest"] assms(6,7) by simp
  then show ?thesis
    using read_skill_file [OF assms(2), of body] assms(3-5) by (cases front) (simp_all add: parse_skill_def del: unlines_simps(3))
qed

end
