(* ===== verification/Config_Types.thy ===== *)
theory Config_Types
  imports Complex_Main Go_Json
begin

text \<open>
  The sections of \<open>internal/config/config.go\<close>, one record per struct, a field per field
  with the name of its TOML key, and the zero value each has before the file is read. A
  pointer is an \<open>option\<close>, \<open>float64\<close> is \<open>rat\<close>; a plugin's own settings are JSON values.
\<close>

section \<open>Sections\<close>

record debug_config =
  dbg_bind :: str
  dbg_allow_public :: bool
  dbg_block_profile_rate :: int
  dbg_mutex_profile_fraction :: int

record plugins_config =
  plg_directory :: str
  plg_config :: "(str \<times> (str \<times> json) list) list"

record displayprojector_config =
  dpj_timeout_ms :: int
  dpj_fast_path_max_chars :: int

record display_config =
  dsp_enabled :: bool
  dsp_plugin :: str
  dsp_projector :: displayprojector_config

record github_config =
  ghb_enabled :: bool
  ghb_app_id :: str
  ghb_installation_id :: str
  ghb_private_key_path :: str
  ghb_repositories :: "str list"
  ghb_api_base_url :: str

record codex_config =
  cdx_enabled :: bool
  cdx_binary :: str
  cdx_model_provider :: str
  cdx_model :: str
  cdx_workspace_root :: str
  cdx_turn_timeout_ms :: int
  cdx_network_access :: bool
  cdx_config :: "str list"

record pipeline_config =
  ppl_barge_in :: "bool option"
  ppl_greeting :: str
  ppl_greeting_outgoing :: str
  ppl_debug :: bool
  ppl_user_speech_quiet_ms :: int
  ppl_turn_merge_ms :: int
  ppl_readback_bargein_guard_enabled :: bool
  ppl_echo_guard :: str
  ppl_echo_guard_gain :: rat
  ppl_echo_guard_margin :: rat
  ppl_echo_guard_window_ms :: int
  ppl_rag_prefetch :: bool

record server_config =
  srv_port :: str
  srv_public_ip :: str
  srv_turn_secret :: str
  srv_jwt_secret :: str
  srv_api_key :: str
  srv_max_sessions :: int
  srv_session_grace_ms :: int

record realtime_config =
  rtm_provider :: str

record grok_config =
  grk_api_key :: str
  grk_model :: str
  grk_voice :: str
  grk_system_prompt :: str
  grk_reasoning_effort :: str
  grk_vad_threshold :: rat
  grk_silence_duration_ms :: int
  grk_prefix_padding_ms :: int
  grk_idle_timeout_ms :: int
  grk_transcription :: "bool option"
  grk_language_hint :: str
  grk_keyterms :: "str list"
  grk_web_search :: bool
  grk_x_search :: bool

record stt_config =
  stt_provider :: str

record llm_config =
  llm_provider :: str

record tts_config =
  tts_provider :: str

record deepgram_config =
  dgr_api_key :: str
  dgr_model :: str
  dgr_language :: str
  dgr_endpointing :: str
  dgr_utterance_end_ms :: str
  dgr_keyterms :: "str list"
  dgr_tts_model :: str

record assemblyai_config =
  aai_api_key :: str
  aai_model :: str
  aai_language :: str
  aai_format_turns :: "bool option"
  aai_end_of_turn_silence_ms :: int
  aai_keyterms :: "str list"

record openai_config =
  oai_api_key :: str
  oai_model :: str
  oai_stt_model :: str
  oai_system_prompt :: str
  oai_base_url :: str

record ollama_config =
  olm_base_url :: str
  olm_model :: str
  olm_system_prompt :: str

record agent_config =
  agt_url :: str
  agt_api_key :: str
  agt_timeout_ms :: int

record cartesia_config =
  cts_api_key :: str
  cts_voice_id :: str
  cts_ws_url :: str
  cts_max_concurrency :: int

record elevenlabs_config =
  elv_api_key :: str
  elv_voice_id :: str
  elv_model :: str

record speechify_config =
  spf_api_key :: str
  spf_voice_id :: str
  spf_model :: str

record telnyx_config =
  tlx_api_key :: str
  tlx_voice :: str
  tlx_voice_speed :: rat
  tlx_transcription_engine :: str

record mimo_config =
  mim_api_key :: str
  mim_voice :: str
  mim_model :: str
  mim_base_url :: str

record minimax_config =
  mmx_api_key :: str
  mmx_voice_id :: str
  mmx_model :: str
  mmx_base_url :: str

record rag_config =
  ragc_provider :: str
  ragc_top_k :: int
  ragc_embedding_model :: str

record pgvector_config =
  pgv_connection_string :: str
  pgv_table :: str

record supabase_config =
  spb_url :: str
  spb_api_key :: str
  spb_function :: str
  spb_table :: str

record vibevoice_config =
  vbv_asr_url :: str
  vbv_tts_url :: str
  vbv_voice :: str

record moonshine_config =
  mns_stt_url :: str
  mns_tts_url :: str
  mns_voice :: str

record aliyun_config =
  aly_api_key :: str
  aly_model :: str
  aly_language :: str
  aly_vocabulary_id :: str
  aly_url :: str
  aly_tts_model :: str
  aly_voice :: str

record volcengine_config =
  vlc_api_key :: str
  vlc_resource_id :: str
  vlc_model :: str
  vlc_url :: str
  vlc_end_window_ms :: int
  vlc_tts_resource_id :: str
  vlc_speaker :: str
  vlc_tts_url :: str

record config =
  cf_server :: server_config
  cf_debug :: debug_config
  cf_plugins :: plugins_config
  cf_display :: display_config
  cf_github :: github_config
  cf_codex :: codex_config
  cf_pipeline :: pipeline_config
  cf_realtime :: realtime_config
  cf_grok :: grok_config
  cf_stt :: stt_config
  cf_llm :: llm_config
  cf_tts :: tts_config
  cf_rag :: rag_config
  cf_deepgram :: deepgram_config
  cf_assemblyai :: assemblyai_config
  cf_openai :: openai_config
  cf_ollama :: ollama_config
  cf_agent :: agent_config
  cf_vibevoice :: vibevoice_config
  cf_moonshine :: moonshine_config
  cf_volcengine :: volcengine_config
  cf_aliyun :: aliyun_config
  cf_cartesia :: cartesia_config
  cf_elevenlabs :: elevenlabs_config
  cf_speechify :: speechify_config
  cf_telnyx :: telnyx_config
  cf_minimax :: minimax_config
  cf_mimo :: mimo_config
  cf_pgvector :: pgvector_config
  cf_supabase :: supabase_config

section \<open>Zero values\<close>

definition no_debug_config :: debug_config where
  "no_debug_config = \<lparr>dbg_bind = [],
     dbg_allow_public = False,
     dbg_block_profile_rate = 0,
     dbg_mutex_profile_fraction = 0\<rparr>"

definition no_plugins_config :: plugins_config where
  "no_plugins_config = \<lparr>plg_directory = [],
     plg_config = []\<rparr>"

definition no_displayprojector_config :: displayprojector_config where
  "no_displayprojector_config = \<lparr>dpj_timeout_ms = 0,
     dpj_fast_path_max_chars = 0\<rparr>"

definition no_display_config :: display_config where
  "no_display_config = \<lparr>dsp_enabled = False,
     dsp_plugin = [],
     dsp_projector = no_displayprojector_config\<rparr>"

definition no_github_config :: github_config where
  "no_github_config = \<lparr>ghb_enabled = False,
     ghb_app_id = [],
     ghb_installation_id = [],
     ghb_private_key_path = [],
     ghb_repositories = [],
     ghb_api_base_url = []\<rparr>"

definition no_codex_config :: codex_config where
  "no_codex_config = \<lparr>cdx_enabled = False,
     cdx_binary = [],
     cdx_model_provider = [],
     cdx_model = [],
     cdx_workspace_root = [],
     cdx_turn_timeout_ms = 0,
     cdx_network_access = False,
     cdx_config = []\<rparr>"

definition no_pipeline_config :: pipeline_config where
  "no_pipeline_config = \<lparr>ppl_barge_in = None,
     ppl_greeting = [],
     ppl_greeting_outgoing = [],
     ppl_debug = False,
     ppl_user_speech_quiet_ms = 0,
     ppl_turn_merge_ms = 0,
     ppl_readback_bargein_guard_enabled = False,
     ppl_echo_guard = [],
     ppl_echo_guard_gain = 0,
     ppl_echo_guard_margin = 0,
     ppl_echo_guard_window_ms = 0,
     ppl_rag_prefetch = False\<rparr>"

definition no_server_config :: server_config where
  "no_server_config = \<lparr>srv_port = [],
     srv_public_ip = [],
     srv_turn_secret = [],
     srv_jwt_secret = [],
     srv_api_key = [],
     srv_max_sessions = 0,
     srv_session_grace_ms = 0\<rparr>"

definition no_realtime_config :: realtime_config where
  "no_realtime_config = \<lparr>rtm_provider = []\<rparr>"

definition no_grok_config :: grok_config where
  "no_grok_config = \<lparr>grk_api_key = [],
     grk_model = [],
     grk_voice = [],
     grk_system_prompt = [],
     grk_reasoning_effort = [],
     grk_vad_threshold = 0,
     grk_silence_duration_ms = 0,
     grk_prefix_padding_ms = 0,
     grk_idle_timeout_ms = 0,
     grk_transcription = None,
     grk_language_hint = [],
     grk_keyterms = [],
     grk_web_search = False,
     grk_x_search = False\<rparr>"

definition no_stt_config :: stt_config where
  "no_stt_config = \<lparr>stt_provider = []\<rparr>"

definition no_llm_config :: llm_config where
  "no_llm_config = \<lparr>llm_provider = []\<rparr>"

definition no_tts_config :: tts_config where
  "no_tts_config = \<lparr>tts_provider = []\<rparr>"

definition no_deepgram_config :: deepgram_config where
  "no_deepgram_config = \<lparr>dgr_api_key = [],
     dgr_model = [],
     dgr_language = [],
     dgr_endpointing = [],
     dgr_utterance_end_ms = [],
     dgr_keyterms = [],
     dgr_tts_model = []\<rparr>"

definition no_assemblyai_config :: assemblyai_config where
  "no_assemblyai_config = \<lparr>aai_api_key = [],
     aai_model = [],
     aai_language = [],
     aai_format_turns = None,
     aai_end_of_turn_silence_ms = 0,
     aai_keyterms = []\<rparr>"

definition no_openai_config :: openai_config where
  "no_openai_config = \<lparr>oai_api_key = [],
     oai_model = [],
     oai_stt_model = [],
     oai_system_prompt = [],
     oai_base_url = []\<rparr>"

definition no_ollama_config :: ollama_config where
  "no_ollama_config = \<lparr>olm_base_url = [],
     olm_model = [],
     olm_system_prompt = []\<rparr>"

definition no_agent_config :: agent_config where
  "no_agent_config = \<lparr>agt_url = [],
     agt_api_key = [],
     agt_timeout_ms = 0\<rparr>"

definition no_cartesia_config :: cartesia_config where
  "no_cartesia_config = \<lparr>cts_api_key = [],
     cts_voice_id = [],
     cts_ws_url = [],
     cts_max_concurrency = 0\<rparr>"

definition no_elevenlabs_config :: elevenlabs_config where
  "no_elevenlabs_config = \<lparr>elv_api_key = [],
     elv_voice_id = [],
     elv_model = []\<rparr>"

definition no_speechify_config :: speechify_config where
  "no_speechify_config = \<lparr>spf_api_key = [],
     spf_voice_id = [],
     spf_model = []\<rparr>"

definition no_telnyx_config :: telnyx_config where
  "no_telnyx_config = \<lparr>tlx_api_key = [],
     tlx_voice = [],
     tlx_voice_speed = 0,
     tlx_transcription_engine = []\<rparr>"

definition no_mimo_config :: mimo_config where
  "no_mimo_config = \<lparr>mim_api_key = [],
     mim_voice = [],
     mim_model = [],
     mim_base_url = []\<rparr>"

definition no_minimax_config :: minimax_config where
  "no_minimax_config = \<lparr>mmx_api_key = [],
     mmx_voice_id = [],
     mmx_model = [],
     mmx_base_url = []\<rparr>"

definition no_rag_config :: rag_config where
  "no_rag_config = \<lparr>ragc_provider = [],
     ragc_top_k = 0,
     ragc_embedding_model = []\<rparr>"

definition no_pgvector_config :: pgvector_config where
  "no_pgvector_config = \<lparr>pgv_connection_string = [],
     pgv_table = []\<rparr>"

definition no_supabase_config :: supabase_config where
  "no_supabase_config = \<lparr>spb_url = [],
     spb_api_key = [],
     spb_function = [],
     spb_table = []\<rparr>"

definition no_vibevoice_config :: vibevoice_config where
  "no_vibevoice_config = \<lparr>vbv_asr_url = [],
     vbv_tts_url = [],
     vbv_voice = []\<rparr>"

definition no_moonshine_config :: moonshine_config where
  "no_moonshine_config = \<lparr>mns_stt_url = [],
     mns_tts_url = [],
     mns_voice = []\<rparr>"

definition no_aliyun_config :: aliyun_config where
  "no_aliyun_config = \<lparr>aly_api_key = [],
     aly_model = [],
     aly_language = [],
     aly_vocabulary_id = [],
     aly_url = [],
     aly_tts_model = [],
     aly_voice = []\<rparr>"

definition no_volcengine_config :: volcengine_config where
  "no_volcengine_config = \<lparr>vlc_api_key = [],
     vlc_resource_id = [],
     vlc_model = [],
     vlc_url = [],
     vlc_end_window_ms = 0,
     vlc_tts_resource_id = [],
     vlc_speaker = [],
     vlc_tts_url = []\<rparr>"

definition no_config :: config where
  "no_config = \<lparr>cf_server = no_server_config,
     cf_debug = no_debug_config,
     cf_plugins = no_plugins_config,
     cf_display = no_display_config,
     cf_github = no_github_config,
     cf_codex = no_codex_config,
     cf_pipeline = no_pipeline_config,
     cf_realtime = no_realtime_config,
     cf_grok = no_grok_config,
     cf_stt = no_stt_config,
     cf_llm = no_llm_config,
     cf_tts = no_tts_config,
     cf_rag = no_rag_config,
     cf_deepgram = no_deepgram_config,
     cf_assemblyai = no_assemblyai_config,
     cf_openai = no_openai_config,
     cf_ollama = no_ollama_config,
     cf_agent = no_agent_config,
     cf_vibevoice = no_vibevoice_config,
     cf_moonshine = no_moonshine_config,
     cf_volcengine = no_volcengine_config,
     cf_aliyun = no_aliyun_config,
     cf_cartesia = no_cartesia_config,
     cf_elevenlabs = no_elevenlabs_config,
     cf_speechify = no_speechify_config,
     cf_telnyx = no_telnyx_config,
     cf_minimax = no_minimax_config,
     cf_mimo = no_mimo_config,
     cf_pgvector = no_pgvector_config,
     cf_supabase = no_supabase_config\<rparr>"

end
