(* ===== verification/Configuration.thy ===== *)
theory Configuration
  imports Config_Types
begin

text \<open>
  \<open>Load\<close> of \<open>internal/config/config.go\<close>: overrides from the environment, defaults and the
  checks at start-up, and the two decisions derived from a configuration. What the TOML
  library made of the file is an argument, and so is the environment.
\<close>

datatype config_error =
    Parse_error str
  | Projector_negative
  | Github_app_id | Github_installation_id | Github_private_key | Github_no_repositories | Github_repository str
  | Codex_workspace_root | Codex_turn_timeout
  | Echo_guard_mode str
  | Realtime_api_key str | Realtime_provider str
  | Grok_reasoning_effort str | Grok_vad_threshold rat | Grok_silence_duration int | Grok_prefix_padding int | Grok_keyterms nat

datatype config_file = No_file | Bad_file str | Decoded config

type_synonym environment = "str \<Rightarrow> str"

section \<open>Overrides from the environment\<close>

definition env_overrides :: "(str \<times> (str \<Rightarrow> config \<Rightarrow> config)) list" where
  "env_overrides =
    [(''STREAMCORE_TURN_SECRET'', \<lambda>v c. c\<lparr>cf_server := (cf_server c)\<lparr>srv_turn_secret := v\<rparr>\<rparr>),
     (''STREAMCORE_JWT_SECRET'', \<lambda>v c. c\<lparr>cf_server := (cf_server c)\<lparr>srv_jwt_secret := v\<rparr>\<rparr>),
     (''STREAMCORE_API_KEY'', \<lambda>v c. c\<lparr>cf_server := (cf_server c)\<lparr>srv_api_key := v\<rparr>\<rparr>),
     (''STREAMCORE_AGENT_API_KEY'', \<lambda>v c. c\<lparr>cf_agent := (cf_agent c)\<lparr>agt_api_key := v\<rparr>\<rparr>),
     (''DEEPGRAM_API_KEY'', \<lambda>v c. c\<lparr>cf_deepgram := (cf_deepgram c)\<lparr>dgr_api_key := v\<rparr>\<rparr>),
     (''ASSEMBLYAI_API_KEY'', \<lambda>v c. c\<lparr>cf_assemblyai := (cf_assemblyai c)\<lparr>aai_api_key := v\<rparr>\<rparr>),
     (''ALIYUN_API_KEY'', \<lambda>v c. c\<lparr>cf_aliyun := (cf_aliyun c)\<lparr>aly_api_key := v\<rparr>\<rparr>),
     (''VOLCENGINE_API_KEY'', \<lambda>v c. c\<lparr>cf_volcengine := (cf_volcengine c)\<lparr>vlc_api_key := v\<rparr>\<rparr>),
     (''OPENAI_API_KEY'', \<lambda>v c. c\<lparr>cf_openai := (cf_openai c)\<lparr>oai_api_key := v\<rparr>\<rparr>),
     (''XAI_API_KEY'', \<lambda>v c. c\<lparr>cf_grok := (cf_grok c)\<lparr>grk_api_key := v\<rparr>\<rparr>),
     (''CARTESIA_API_KEY'', \<lambda>v c. c\<lparr>cf_cartesia := (cf_cartesia c)\<lparr>cts_api_key := v\<rparr>\<rparr>),
     (''ELEVENLABS_API_KEY'', \<lambda>v c. c\<lparr>cf_elevenlabs := (cf_elevenlabs c)\<lparr>elv_api_key := v\<rparr>\<rparr>),
     (''SPEECHIFY_API_KEY'', \<lambda>v c. c\<lparr>cf_speechify := (cf_speechify c)\<lparr>spf_api_key := v\<rparr>\<rparr>),
     (''TELNYX_API_KEY'', \<lambda>v c. c\<lparr>cf_telnyx := (cf_telnyx c)\<lparr>tlx_api_key := v\<rparr>\<rparr>),
     (''MINIMAX_API_KEY'', \<lambda>v c. c\<lparr>cf_minimax := (cf_minimax c)\<lparr>mmx_api_key := v\<rparr>\<rparr>),
     (''MIMO_API_KEY'', \<lambda>v c. c\<lparr>cf_mimo := (cf_mimo c)\<lparr>mim_api_key := v\<rparr>\<rparr>),
     (''SUPABASE_API_KEY'', \<lambda>v c. c\<lparr>cf_supabase := (cf_supabase c)\<lparr>spb_api_key := v\<rparr>\<rparr>),
     (''PGVECTOR_CONNECTION_STRING'', \<lambda>v c. c\<lparr>cf_pgvector := (cf_pgvector c)\<lparr>pgv_connection_string := v\<rparr>\<rparr>)]"

definition apply_env_overrides :: "environment \<Rightarrow> config \<Rightarrow> config" where
  "apply_env_overrides env c = fold (\<lambda>(name, set_field) c. if env name \<noteq> [] then set_field (env name) c else c) env_overrides c"

section \<open>Defaults\<close>

definition or_default :: "str \<Rightarrow> str \<Rightarrow> str" where
  "or_default s fallback = (if s = [] then fallback else s)"

definition or_number :: "'n :: zero \<Rightarrow> 'n \<Rightarrow> 'n" where
  "or_number n fallback = (if n = 0 then fallback else n)"

definition or_true :: "bool option \<Rightarrow> bool option" where
  "or_true b = (case b of None \<Rightarrow> Some True | Some v \<Rightarrow> Some v)"

definition default_system_prompt :: str where
  "default_system_prompt = ''You are a helpful AI voice assistant having a natural phone conversation. Keep responses to 1-2 sentences unless asked for detail. When interrupted (indicated by bracketed context), respond the way a patient human would: if they say 'no', address the disagreement; if they redirect, follow their lead. Never repeat what you already said, never ask 'would you like me to continue', and never mention that you were interrupted.''"

definition default_grok_prompt :: str where
  "default_grok_prompt = ''You are a helpful AI voice assistant on a phone call. Keep responses short and conversational.''"

definition server_defaults :: "server_config \<Rightarrow> server_config" where
  "server_defaults s = s\<lparr>srv_port := or_default (srv_port s) ''8080'', srv_session_grace_ms := or_number (srv_session_grace_ms s) 30000\<rparr>"

definition deepgram_defaults :: "deepgram_config \<Rightarrow> deepgram_config" where
  "deepgram_defaults s = s\<lparr>dgr_model := or_default (dgr_model s) ''nova-3'',
     dgr_endpointing := or_default (dgr_endpointing s) ''300'',
     dgr_utterance_end_ms := or_default (dgr_utterance_end_ms s) ''1000'',
     dgr_tts_model := or_default (dgr_tts_model s) ''aura-2-thalia-en''\<rparr>"

definition telnyx_defaults :: "telnyx_config \<Rightarrow> telnyx_config" where
  "telnyx_defaults s = s\<lparr>tlx_voice_speed := or_number (tlx_voice_speed s) 1,
     tlx_transcription_engine := or_default (tlx_transcription_engine s) ''Deepgram''\<rparr>"

definition openai_defaults :: "openai_config \<Rightarrow> openai_config" where
  "openai_defaults s = s\<lparr>oai_model := or_default (oai_model s) ''gpt-4o-mini'',
     oai_stt_model := or_default (oai_stt_model s) ''whisper-1'',
     oai_system_prompt := or_default (oai_system_prompt s) default_system_prompt\<rparr>"

definition ollama_defaults :: "ollama_config \<Rightarrow> ollama_config" where
  "ollama_defaults s = s\<lparr>olm_base_url := or_default (olm_base_url s) ''http://localhost:11434'',
     olm_model := or_default (olm_model s) ''llama3.2'',
     olm_system_prompt := or_default (olm_system_prompt s) default_system_prompt\<rparr>"

definition vibevoice_defaults :: "vibevoice_config \<Rightarrow> vibevoice_config" where
  "vibevoice_defaults s = s\<lparr>vbv_asr_url := or_default (vbv_asr_url s) ''ws://127.0.0.1:8200'',
     vbv_tts_url := or_default (vbv_tts_url s) ''http://127.0.0.1:8300'',
     vbv_voice := or_default (vbv_voice s) ''en-Emma_woman''\<rparr>"

definition moonshine_defaults :: "moonshine_config \<Rightarrow> moonshine_config" where
  "moonshine_defaults s = s\<lparr>mns_stt_url := or_default (mns_stt_url s) ''ws://127.0.0.1:8210'',
     mns_tts_url := or_default (mns_tts_url s) ''http://127.0.0.1:8310'',
     mns_voice := or_default (mns_voice s) ''kokoro_af_heart''\<rparr>"

definition display_defaults :: "display_config \<Rightarrow> display_config" where
  "display_defaults s = (let p = dsp_projector s in
     s\<lparr>dsp_plugin := or_default (dsp_plugin s) ''display-projector'',
       dsp_projector := p\<lparr>dpj_timeout_ms := or_number (dpj_timeout_ms p) 3000,
         dpj_fast_path_max_chars := or_number (dpj_fast_path_max_chars p) 80\<rparr>\<rparr>)"

definition codex_defaults :: "codex_config \<Rightarrow> codex_config" where
  "codex_defaults s = s\<lparr>cdx_binary := or_default (cdx_binary s) ''codex'',
     cdx_model_provider := or_default (cdx_model_provider s) ''openai'',
     cdx_model := or_default (cdx_model s) ''gpt-5.6-terra'',
     cdx_turn_timeout_ms := or_number (cdx_turn_timeout_ms s) 600000\<rparr>"

definition echo_guard_auto :: str where "echo_guard_auto = ''auto''"
definition echo_guard_always :: str where "echo_guard_always = ''always''"
definition echo_guard_off :: str where "echo_guard_off = ''off''"

definition pipeline_defaults :: "pipeline_config \<Rightarrow> pipeline_config" where
  "pipeline_defaults s = s\<lparr>ppl_user_speech_quiet_ms := or_number (ppl_user_speech_quiet_ms s) 600,
     ppl_turn_merge_ms := or_number (ppl_turn_merge_ms s) 350,
     ppl_echo_guard := or_default (ppl_echo_guard s) echo_guard_auto,
     ppl_echo_guard_gain := or_number (ppl_echo_guard_gain s) (6 / 10),
     ppl_echo_guard_margin := or_number (ppl_echo_guard_margin s) (18 / 10),
     ppl_echo_guard_window_ms := or_number (ppl_echo_guard_window_ms s) 400,
     ppl_barge_in := or_true (ppl_barge_in s)\<rparr>"

definition grok_defaults :: "grok_config \<Rightarrow> grok_config" where
  "grok_defaults s = s\<lparr>grk_model := or_default (grk_model s) ''grok-voice-latest'',
     grk_voice := or_default (grk_voice s) ''eve'',
     grk_reasoning_effort := or_default (grk_reasoning_effort s) ''high'',
     grk_system_prompt := or_default (grk_system_prompt s) default_grok_prompt,
     grk_transcription := or_true (grk_transcription s)\<rparr>"

definition apply_defaults :: "config \<Rightarrow> config" where
  "apply_defaults c = c\<lparr>
     cf_server := server_defaults (cf_server c),
     cf_stt := (cf_stt c)\<lparr>stt_provider := or_default (stt_provider (cf_stt c)) ''deepgram''\<rparr>,
     cf_deepgram := deepgram_defaults (cf_deepgram c),
     cf_assemblyai := (cf_assemblyai c)\<lparr>aai_model := or_default (aai_model (cf_assemblyai c)) ''u3-rt-pro''\<rparr>,
     cf_cartesia := (cf_cartesia c)\<lparr>cts_max_concurrency := or_number (cts_max_concurrency (cf_cartesia c)) 3\<rparr>,
     cf_telnyx := telnyx_defaults (cf_telnyx c),
     cf_llm := (cf_llm c)\<lparr>llm_provider := or_default (llm_provider (cf_llm c)) ''openai''\<rparr>,
     cf_tts := (cf_tts c)\<lparr>tts_provider := or_default (tts_provider (cf_tts c)) ''cartesia''\<rparr>,
     cf_openai := openai_defaults (cf_openai c),
     cf_ollama := ollama_defaults (cf_ollama c),
     cf_vibevoice := vibevoice_defaults (cf_vibevoice c),
     cf_moonshine := moonshine_defaults (cf_moonshine c),
     cf_display := display_defaults (cf_display c),
     cf_codex := codex_defaults (cf_codex c),
     cf_pipeline := pipeline_defaults (cf_pipeline c),
     cf_grok := grok_defaults (cf_grok c)\<rparr>"

section \<open>Checks\<close>

definition blank :: "str \<Rightarrow> bool" where
  "blank s \<longleftrightarrow> trim_space s = []"

definition owner_slash_name :: "str \<Rightarrow> bool" where
  "owner_slash_name repo \<longleftrightarrow>
     \<not> (length (filter (\<lambda>c. c = CHR ''/'') repo) \<noteq> 1 \<or> has_prefix ''/'' repo \<or> has_suffix ''/'' repo)"

definition validate_github :: "github_config \<Rightarrow> config_error option" where
  "validate_github g =
     (if \<not> ghb_enabled g then None
      else if blank (ghb_app_id g) then Some Github_app_id
      else if blank (ghb_installation_id g) then Some Github_installation_id
      else if blank (ghb_private_key_path g) then Some Github_private_key
      else if ghb_repositories g = [] then Some Github_no_repositories
      else case filter (\<lambda>repo. \<not> owner_slash_name repo) (ghb_repositories g) of
        [] \<Rightarrow> None
      | repo # _ \<Rightarrow> Some (Github_repository repo))"

definition validate_codex :: "codex_config \<Rightarrow> config_error option" where
  "validate_codex x =
     (if \<not> cdx_enabled x then None
      else if blank (cdx_workspace_root x) then Some Codex_workspace_root
      else if cdx_turn_timeout_ms x < 0 then Some Codex_turn_timeout
      else None)"

definition validate_developer_tools :: "config \<Rightarrow> config_error option" where
  "validate_developer_tools c =
     (case validate_github (cf_github c) of Some e \<Rightarrow> Some e | None \<Rightarrow> validate_codex (cf_codex c))"

definition validate_projector :: "config \<Rightarrow> config_error option" where
  "validate_projector c =
     (let p = dsp_projector (cf_display c) in
      if dpj_timeout_ms p < 0 \<or> dpj_fast_path_max_chars p < 0 then Some Projector_negative else None)"

definition validate_echo_guard :: "config \<Rightarrow> config_error option" where
  "validate_echo_guard c =
     (let m = ppl_echo_guard (cf_pipeline c) in
      if m = echo_guard_auto \<or> m = echo_guard_always \<or> m = echo_guard_off then None else Some (Echo_guard_mode m))"

definition realtime_enabled :: "config \<Rightarrow> bool" where
  "realtime_enabled c \<longleftrightarrow> rtm_provider (cf_realtime c) \<noteq> [] \<and> rtm_provider (cf_realtime c) \<noteq> ''none''"

definition validate_realtime :: "config \<Rightarrow> config_error option" where
  "validate_realtime c =
     (if \<not> realtime_enabled c then None
      else let p = rtm_provider (cf_realtime c); g = cf_grok c in
        if p \<noteq> ''grok'' then Some (Realtime_provider p)
        else if grk_api_key g = [] then Some (Realtime_api_key p)
        else if grk_reasoning_effort g \<noteq> ''high'' \<and> grk_reasoning_effort g \<noteq> ''none'' then Some (Grok_reasoning_effort (grk_reasoning_effort g))
        else if grk_vad_threshold g \<noteq> 0 \<and> (grk_vad_threshold g < 1 / 10 \<or> 9 / 10 < grk_vad_threshold g) then Some (Grok_vad_threshold (grk_vad_threshold g))
        else if grk_silence_duration_ms g < 0 \<or> 10000 < grk_silence_duration_ms g then Some (Grok_silence_duration (grk_silence_duration_ms g))
        else if grk_prefix_padding_ms g < 0 \<or> 10000 < grk_prefix_padding_ms g then Some (Grok_prefix_padding (grk_prefix_padding_ms g))
        else if 100 < length (grk_keyterms g) then Some (Grok_keyterms (length (grk_keyterms g)))
        else None)"

section \<open>Loading\<close>

text \<open>\<open>Load\<close> applies some defaults after a check; the checks do not look at those, so the model
  has all the defaults first.\<close>

definition load_config :: "environment \<Rightarrow> config_file \<Rightarrow> config_error + config" where
  "load_config env file =
     (case file of
        Bad_file e \<Rightarrow> Inl (Parse_error e)
      | _ \<Rightarrow>
          let c = (case file of Decoded c \<Rightarrow> c | _ \<Rightarrow> no_config);
              c = apply_defaults (apply_env_overrides env c)
          in case validate_projector c of Some e \<Rightarrow> Inl e | None \<Rightarrow>
             (case validate_developer_tools c of Some e \<Rightarrow> Inl e | None \<Rightarrow>
             (case validate_echo_guard c of Some e \<Rightarrow> Inl e | None \<Rightarrow>
             (case validate_realtime c of Some e \<Rightarrow> Inl e | None \<Rightarrow> Inr c))))"

definition echo_guard_for :: "config \<Rightarrow> bool \<Rightarrow> bool" where
  "echo_guard_for c aec_absent =
     (if ppl_echo_guard (cf_pipeline c) = echo_guard_always then True
      else if ppl_echo_guard (cf_pipeline c) = echo_guard_auto then aec_absent
      else False)"

section \<open>Defaults do not change what they set\<close>

lemma or_simps [simp]:
  "or_default (or_default s f) f = or_default s f" "or_number (or_number n m) m = or_number n m" "or_true (or_true b) = or_true b"
  "f \<noteq> [] \<Longrightarrow> or_default s f \<noteq> []" "m \<noteq> 0 \<Longrightarrow> or_number n m \<noteq> 0" "or_true b \<noteq> None"
  by (auto simp: or_default_def or_number_def or_true_def split: option.split)

lemma section_defaults_idem:
  "server_defaults (server_defaults a) = server_defaults a" "deepgram_defaults (deepgram_defaults b) = deepgram_defaults b"
  "telnyx_defaults (telnyx_defaults t) = telnyx_defaults t" "openai_defaults (openai_defaults oa) = openai_defaults oa"
  "ollama_defaults (ollama_defaults ol) = ollama_defaults ol" "vibevoice_defaults (vibevoice_defaults v) = vibevoice_defaults v"
  "moonshine_defaults (moonshine_defaults m) = moonshine_defaults m" "display_defaults (display_defaults d) = display_defaults d"
  "codex_defaults (codex_defaults x) = codex_defaults x" "pipeline_defaults (pipeline_defaults pl) = pipeline_defaults pl"
  "grok_defaults (grok_defaults g) = grok_defaults g"
  by (simp_all add: server_defaults_def deepgram_defaults_def telnyx_defaults_def openai_defaults_def ollama_defaults_def
      vibevoice_defaults_def moonshine_defaults_def display_defaults_def codex_defaults_def pipeline_defaults_def grok_defaults_def Let_def)

lemma apply_defaults_idem: "apply_defaults (apply_defaults c) = apply_defaults c"
  by (simp add: apply_defaults_def section_defaults_idem)

lemma no_overrides: "apply_env_overrides (\<lambda>_. []) c = c"
  by (simp add: apply_env_overrides_def case_prod_unfold fold_invariant [where Q = "\<lambda>_. True" and P = "\<lambda>x. x = c"])

lemma load_config_Inr:
  "load_config env file = Inr c \<Longrightarrow>
   (\<exists>c0. c = apply_defaults c0) \<and> validate_projector c = None \<and> validate_developer_tools c = None \<and>
   validate_echo_guard c = None \<and> validate_realtime c = None"
  by (auto simp: load_config_def Let_def split: config_file.splits option.splits)

section \<open>A well-formed configuration\<close>

definition owner_and_name :: "str \<Rightarrow> bool" where
  "owner_and_name repo \<longleftrightarrow>
     (\<exists>owner name. repo = owner @ ''/'' @ name \<and> owner \<noteq> [] \<and> name \<noteq> [] \<and> CHR ''/'' \<notin> set owner \<and> CHR ''/'' \<notin> set name)"

definition github_ok :: "github_config \<Rightarrow> bool" where
  "github_ok g \<longleftrightarrow> (ghb_enabled g \<longrightarrow>
     \<not> blank (ghb_app_id g) \<and> \<not> blank (ghb_installation_id g) \<and> \<not> blank (ghb_private_key_path g) \<and>
     ghb_repositories g \<noteq> [] \<and> (\<forall>repo \<in> set (ghb_repositories g). owner_and_name repo))"

definition grok_ok :: "grok_config \<Rightarrow> bool" where
  "grok_ok g \<longleftrightarrow> grk_api_key g \<noteq> [] \<and> grk_reasoning_effort g \<in> {''high'', ''none''} \<and>
     (grk_vad_threshold g = 0 \<or> 1 / 10 \<le> grk_vad_threshold g \<and> grk_vad_threshold g \<le> 9 / 10) \<and>
     0 \<le> grk_silence_duration_ms g \<and> grk_silence_duration_ms g \<le> 10000 \<and>
     0 \<le> grk_prefix_padding_ms g \<and> grk_prefix_padding_ms g \<le> 10000 \<and> length (grk_keyterms g) \<le> 100"

definition complete_settings :: "config \<Rightarrow> bool" where
  "complete_settings c \<longleftrightarrow>
     srv_port (cf_server c) \<noteq> [] \<and> srv_session_grace_ms (cf_server c) \<noteq> 0 \<and>
     stt_provider (cf_stt c) \<noteq> [] \<and> llm_provider (cf_llm c) \<noteq> [] \<and> tts_provider (cf_tts c) \<noteq> [] \<and>
     dgr_model (cf_deepgram c) \<noteq> [] \<and> oai_model (cf_openai c) \<noteq> [] \<and> oai_system_prompt (cf_openai c) \<noteq> [] \<and>
     olm_base_url (cf_ollama c) \<noteq> [] \<and> olm_model (cf_ollama c) \<noteq> [] \<and>
     cts_max_concurrency (cf_cartesia c) \<noteq> 0 \<and> tlx_voice_speed (cf_telnyx c) \<noteq> 0 \<and>
     ppl_barge_in (cf_pipeline c) \<noteq> None \<and> ppl_turn_merge_ms (cf_pipeline c) \<noteq> 0 \<and>
     ppl_echo_guard_gain (cf_pipeline c) \<noteq> 0 \<and> ppl_echo_guard_window_ms (cf_pipeline c) \<noteq> 0 \<and>
     grk_transcription (cf_grok c) \<noteq> None"

definition config_ok :: "config \<Rightarrow> bool" where
  "config_ok c \<longleftrightarrow>
     complete_settings c \<and> github_ok (cf_github c) \<and>
     (cdx_enabled (cf_codex c) \<longrightarrow> \<not> blank (cdx_workspace_root (cf_codex c)) \<and> 0 < cdx_turn_timeout_ms (cf_codex c)) \<and>
     0 < dpj_timeout_ms (dsp_projector (cf_display c)) \<and> 0 < dpj_fast_path_max_chars (dsp_projector (cf_display c)) \<and>
     ppl_echo_guard (cf_pipeline c) \<in> {echo_guard_auto, echo_guard_always, echo_guard_off} \<and>
     (realtime_enabled c \<longrightarrow> rtm_provider (cf_realtime c) = ''grok'' \<and> grok_ok (cf_grok c))"

lemma defaults_complete: "complete_settings (apply_defaults c)"
  by (simp add: complete_settings_def apply_defaults_def server_defaults_def deepgram_defaults_def telnyx_defaults_def
      openai_defaults_def ollama_defaults_def pipeline_defaults_def grok_defaults_def default_system_prompt_def)

lemma owner_slash_name_iff: "owner_slash_name repo \<longleftrightarrow> owner_and_name repo"
proof
  assume r: "owner_slash_name repo"
  then have "length (filter (\<lambda>c. c = CHR ''/'') repo) = 1" by (simp add: owner_slash_name_def)
  have "CHR ''/'' \<in> set repo"
  proof (rule ccontr)
    assume "CHR ''/'' \<notin> set repo"
    then have "filter (\<lambda>c. c = CHR ''/'') repo = []" by (auto simp: filter_empty_conv)
    with \<open>length (filter (\<lambda>c. c = CHR ''/'') repo) = 1\<close> show False by simp
  qed
  then obtain owner name where split: "repo = owner @ CHR ''/'' # name" "CHR ''/'' \<notin> set owner" by (meson split_list_first)
  then have "CHR ''/'' \<notin> set name"
    using \<open>length (filter (\<lambda>c. c = CHR ''/'') repo) = 1\<close> by (auto simp: filter_empty_conv)
  moreover have "owner \<noteq> []" "name \<noteq> []" using r split by (auto simp: owner_slash_name_def has_prefix_def has_suffix_def)
  ultimately show "owner_and_name repo" using split by (auto simp: owner_and_name_def)
next
  assume "owner_and_name repo"
  then obtain owner name where r: "repo = owner @ ''/'' @ name" "owner \<noteq> []" "name \<noteq> []" "CHR ''/'' \<notin> set owner" "CHR ''/'' \<notin> set name"
    by (auto simp: owner_and_name_def)
  have "filter (\<lambda>c. c = CHR ''/'') owner = []" "filter (\<lambda>c. c = CHR ''/'') name = []"
    using r(4,5) by (auto simp: filter_empty_conv)
  moreover have "\<not> has_prefix ''/'' repo" using r(2,4) by (cases owner) (auto simp: r(1) has_prefix_def)
  moreover have "\<not> has_suffix ''/'' repo" using r(3,5) by (cases name rule: rev_cases) (auto simp: r(1) has_suffix_def)
  ultimately show "owner_slash_name repo" by (simp add: owner_slash_name_def r(1))
qed

lemma first_bad_None: "(case filter P xs of [] \<Rightarrow> None | x # _ \<Rightarrow> Some (f x)) = None \<longleftrightarrow> (\<forall>x \<in> set xs. \<not> P x)"
  by (cases "filter P xs") (auto simp: filter_empty_conv filter_eq_Cons_iff)

lemma validate_github_ok: "validate_github g = None \<longleftrightarrow> github_ok g"
  by (simp add: validate_github_def github_ok_def owner_slash_name_iff first_bad_None)

section \<open>Properties\<close>


text \<open>Loading is stable: a configuration that was loaded, defaults and overrides included, loads
  again from a file to itself.\<close>

theorem loading_is_stable:
  assumes "load_config env file = Inr c"
  shows "load_config (\<lambda>_. []) (Decoded c) = Inr c"
proof -
  from load_config_Inr [OF assms] obtain c0 where c: "c = apply_defaults c0" and v: "validate_projector c = None"
    "validate_developer_tools c = None" "validate_echo_guard c = None" "validate_realtime c = None" by blast
  have "apply_defaults c = c" unfolding c by (rule apply_defaults_idem)
  with v show ?thesis by (simp add: load_config_def no_overrides)
qed

section \<open>Witnesses\<close>

lemma empty_config_loads: "load_config (\<lambda>_. []) No_file = Inr (apply_defaults no_config)"
proof -
  have "validate_projector (apply_defaults no_config) = None" "validate_developer_tools (apply_defaults no_config) = None"
    "validate_echo_guard (apply_defaults no_config) = None" "validate_realtime (apply_defaults no_config) = None"
    by (simp_all add: validate_projector_def validate_developer_tools_def validate_github_def validate_codex_def
        validate_echo_guard_def validate_realtime_def realtime_enabled_def apply_defaults_def display_defaults_def
        codex_defaults_def pipeline_defaults_def or_default_def or_number_def no_config_def no_display_config_def
        no_displayprojector_config_def no_github_config_def no_codex_config_def no_pipeline_config_def no_realtime_config_def Let_def)
  then show ?thesis by (simp add: load_config_def no_overrides)
qed


theorem loading_is_stable_witness:
  "load_config (\<lambda>_. []) (Decoded (apply_defaults no_config)) = Inr (apply_defaults no_config)"
  using loading_is_stable [OF empty_config_loads] .

section \<open>Observations\<close>

text \<open>A path that does not exist is not an error and does not lead to another file: the server starts
  with the defaults.\<close>

lemma missing_file_is_all_defaults: "load_config env No_file = load_config env (Decoded no_config)"
  by (simp add: load_config_def)

end
