(* ===== verification/Server_Startup.thy ===== *)
theory Server_Startup
  imports Signaling Plugin_Loading Configuration
begin

text \<open>
  The server around its endpoint (\<open>main.go\<close>): the public routes with the CORS headers, the tokens
  and the check of them, the debug server, the settings handed to plugins, the order of the
  shutdown; the embedded TURN server's access check (\<open>internal/turn/server.go\<close>) and the sampled
  CPU load (\<open>internal/procstat\<close>). The JWT library is two arguments: \<open>sign\<close> and \<open>parse\<close>, which
  is given the function that chooses the key, as \<open>jwt.Parse\<close> is. The listener and the operating
  system's clock are arguments too.
\<close>

section \<open>Tokens\<close>

record claims =
  cl_issued :: int
  cl_expires :: int
  cl_subject :: str

type_synonym signer = "str \<Rightarrow> claims \<Rightarrow> str option"

text \<open>The key function learns whether the token's method is an HMAC.\<close>

type_synonym key_function = "bool \<Rightarrow> str option"
type_synonym token_parser = "key_function \<Rightarrow> instant \<Rightarrow> str \<Rightarrow> claims option"

definition bearer :: str where "bearer = ''Bearer ''"

definition unix_seconds :: "instant \<Rightarrow> int" where
  "unix_seconds now = now div second"

definition token_body :: "str \<Rightarrow> str" where
  "token_body jwt = [CHR ''{'', CHR 0x22] @ ''token'' @ [CHR 0x22, CHR '':'', CHR 0x22] @ jwt @ [CHR 0x22, CHR ''}'', CHR 0x0A]"

definition method_not_allowed :: response where
  "method_not_allowed = http_error 405 ''method not allowed'' no_headers"

definition unauthorized :: "str \<Rightarrow> response" where
  "unauthorized msg = http_error 401 msg no_headers"

definition token_claims :: "instant \<Rightarrow> str \<Rightarrow> claims" where
  "token_claims now resource_id =
     \<lparr>cl_issued = unix_seconds now, cl_expires = unix_seconds (now + 3600 * second), cl_subject = trim_space resource_id\<rparr>"

text \<open>A body that is missing or cannot be parsed asks for an anonymous token.\<close>

definition requested_resource :: "(str \<Rightarrow> raw) \<Rightarrow> request \<Rightarrow> str" where
  "requested_resource json_of r =
     (case rq_body r of
        None \<Rightarrow> []
      | Some b \<Rightarrow> (case as_string (struct_field ''resource_id'' (json_of (take 4096 b))) of None \<Rightarrow> [] | Some s \<Rightarrow> s))"

definition token_handler :: "signer \<Rightarrow> (str \<Rightarrow> raw) \<Rightarrow> str \<Rightarrow> str \<Rightarrow> instant \<Rightarrow> request \<Rightarrow> response" where
  "token_handler sign json_of secret api_key now r =
     (if request.rq_method r \<noteq> POST then method_not_allowed
      else
        let auth = rq_header r ''Authorization'' in
        if api_key \<noteq> [] \<and> (auth = [] \<or> \<not> has_prefix bearer auth \<or> trim_prefix bearer auth \<noteq> api_key)
        then unauthorized ''invalid api key''
        else case sign secret (token_claims now (requested_resource json_of r)) of
          None \<Rightarrow> http_error 500 ''failed to sign token'' no_headers
        | Some jwt \<Rightarrow> \<lparr>rs_status = 200, rs_header = no_headers(''Content-Type'' := ''application/json''), rs_body = token_body jwt\<rparr>)"

definition hmac_only :: "str \<Rightarrow> key_function" where
  "hmac_only secret is_hmac = (if is_hmac then Some secret else None)"

definition jwt_middleware :: "token_parser \<Rightarrow> str \<Rightarrow> instant \<Rightarrow> (request \<Rightarrow> 's \<Rightarrow> 's \<times> response) \<Rightarrow> request \<Rightarrow> 's \<Rightarrow> 's \<times> response" where
  "jwt_middleware parse secret now next_handler r s =
     (if request.rq_method r = OPTIONS then next_handler r s
      else
        let auth = rq_header r ''Authorization'' in
        if auth = [] \<or> \<not> has_prefix bearer auth then (s, unauthorized ''missing or malformed Authorization header'')
        else case parse (hmac_only secret) now (trim_prefix bearer auth) of
          None \<Rightarrow> (s, unauthorized ''invalid token'')
        | Some c \<Rightarrow> next_handler (with_resource_id (cl_subject c) r) s)"

section \<open>The public routes\<close>

definition cors_headers :: "str \<Rightarrow> str" where
  "cors_headers = no_headers(''Access-Control-Allow-Origin'' := ''*'',
     ''Access-Control-Allow-Methods'' := ''GET, POST, PATCH, DELETE, OPTIONS'',
     ''Access-Control-Allow-Headers'' := ''Content-Type, Authorization, If-Match'',
     ''Access-Control-Expose-Headers'' := ''Location, ETag, Accept-Patch, X-Resume-Token, X-Resume-Status'')"

definition cors_middleware :: "(request \<Rightarrow> 's \<Rightarrow> 's \<times> response) \<Rightarrow> request \<Rightarrow> 's \<Rightarrow> 's \<times> response" where
  "cors_middleware next_handler r s =
     (if request.rq_method r = OPTIONS then (s, \<lparr>rs_status = 204, rs_header = cors_headers, rs_body = []\<rparr>)
      else case next_handler r s of
        (s', resp) \<Rightarrow> (s', resp\<lparr>rs_header := (\<lambda>h. if rs_header resp h = [] then cors_headers h else rs_header resp h)\<rparr>))"

datatype route = Whip | Health | Token | Not_found

text \<open>\<open>ServeMux\<close>, on a clean path; any other is redirected to its clean form.\<close>

definition public_route :: "bool \<Rightarrow> str \<Rightarrow> route" where
  "public_route issues path =
     (if path = ''/whip'' \<or> has_prefix ''/whip/'' path then Whip
      else if path = ''/health'' then Health
      else if issues \<and> path = ''/token'' then Token
      else Not_found)"

definition public_mux :: "(request \<Rightarrow> 's \<Rightarrow> 's \<times> response) \<Rightarrow> (request \<Rightarrow> response) option \<Rightarrow> request \<Rightarrow> 's \<Rightarrow> 's \<times> response" where
  "public_mux whip issue r s =
     (case public_route (issue \<noteq> None) (rq_path r) of
        Whip \<Rightarrow> whip r s
      | Health \<Rightarrow> (s, \<lparr>rs_status = 200, rs_header = no_headers, rs_body = ''ok''\<rparr>)
      | Token \<Rightarrow> (s, (the issue) r)
      | Not_found \<Rightarrow> (s, http_error 404 ''404 page not found'' no_headers))"

record auth_library =
  al_sign :: signer
  al_parse :: token_parser
  al_json :: "str \<Rightarrow> raw"

definition public_handler :: "auth_library \<Rightarrow> server_config \<Rightarrow> env \<Rightarrow> request \<Rightarrow> server \<Rightarrow> server \<times> response" where
  "public_handler lib cfg e =
     (let secret = srv_jwt_secret cfg;
          whip = (if secret \<noteq> [] then jwt_middleware (al_parse lib) secret (en_now e) (whip_handler e) else whip_handler e);
          issue = (if secret \<noteq> [] then Some (token_handler (al_sign lib) (al_json lib) secret (srv_api_key cfg) (en_now e)) else None)
      in cors_middleware (public_mux whip issue))"

section \<open>The debug server\<close>

datatype debug_refusal = Negative_block_rate | Negative_mutex_fraction | Cannot_listen str | Not_loopback str

text \<open>\<open>listen\<close> says whether the address a listener got is a TCP address of the loopback.\<close>

definition start_debug_server :: "(str \<Rightarrow> bool option) \<Rightarrow> debug_config \<Rightarrow> debug_refusal + str option" where
  "start_debug_server listen cfg =
     (if dbg_bind cfg = [] then Inr None
      else if dbg_block_profile_rate cfg < 0 then Inl Negative_block_rate
      else if dbg_mutex_profile_fraction cfg < 0 then Inl Negative_mutex_fraction
      else case listen (dbg_bind cfg) of
        None \<Rightarrow> Inl (Cannot_listen (dbg_bind cfg))
      | Some loopback \<Rightarrow>
          if \<not> dbg_allow_public cfg \<and> \<not> loopback then Inl (Not_loopback (dbg_bind cfg)) else Inr (Some (dbg_bind cfg)))"

section \<open>Settings for the plugins\<close>

type_synonym settings = "(str \<times> (str \<times> json) list) list"

definition legacy_display :: "display_config \<Rightarrow> settings \<Rightarrow> settings" where
  "legacy_display d s =
     (let name = (if dsp_plugin d = [] then ''display-projector'' else dsp_plugin d) in
      if map_of s name \<noteq> None then s
      else AList.update name
        ([(''enabled'', JBool (dsp_enabled d))] @
         (if 0 < dpj_timeout_ms (dsp_projector d) then [(''timeout_ms'', JNum (of_int (dpj_timeout_ms (dsp_projector d))))] else []) @
         (if 0 < dpj_fast_path_max_chars (dsp_projector d)
          then [(''fast_path_max_chars'', JNum (of_int (dpj_fast_path_max_chars (dsp_projector d))))] else [])) s)"

definition legacy_github :: "github_config \<Rightarrow> settings \<Rightarrow> settings" where
  "legacy_github g s =
     (if map_of s ''github'' = None \<and> ghb_enabled g
      then AList.update ''github''
        [(''enabled'', JBool True), (''app_id'', JStr (ghb_app_id g)), (''installation_id'', JStr (ghb_installation_id g)),
         (''private_key_path'', JStr (ghb_private_key_path g)), (''repositories'', JArr (map JStr (ghb_repositories g))),
         (''api_base_url'', JStr (ghb_api_base_url g))] s
      else s)"

definition legacy_codex :: "codex_config \<Rightarrow> settings \<Rightarrow> settings" where
  "legacy_codex c s =
     (if map_of s ''codex'' = None \<and> cdx_enabled c
      then AList.update ''codex''
        [(''enabled'', JBool True), (''binary'', JStr (cdx_binary c)), (''model_provider'', JStr (cdx_model_provider c)),
         (''model'', JStr (cdx_model c)), (''workspace_root'', JStr (cdx_workspace_root c)),
         (''turn_timeout_ms'', JNum (of_int (cdx_turn_timeout_ms c))), (''network_access'', JBool (cdx_network_access c)),
         (''config'', JArr (map JStr (cdx_config c)))] s
      else s)"

definition plugin_settings :: "config \<Rightarrow> settings" where
  "plugin_settings c =
     legacy_codex (cf_codex c) (legacy_github (cf_github c) (legacy_display (cf_display c) (plg_config (cf_plugins c))))"

section \<open>Shutting down\<close>

datatype shutdown_step = Close_plugins | Close_sessions | Shutdown_http | Shutdown_debug

definition shutdown_net :: duration where "shutdown_net = 5 * second"

text \<open>The steps that begin before the safety net ends the process; \<open>takes\<close> is how long each lasts.\<close>

fun steps_begun :: "(shutdown_step \<Rightarrow> duration) \<Rightarrow> duration \<Rightarrow> shutdown_step list \<Rightarrow> shutdown_step list" where
  "steps_begun takes t [] = []"
| "steps_begun takes t (x # xs) = (if shutdown_net \<le> t then [] else x # steps_begun takes (t + takes x) xs)"

definition shutdown :: "bool \<Rightarrow> (shutdown_step \<Rightarrow> duration) \<Rightarrow> shutdown_step list" where
  "shutdown debugging takes =
     steps_begun takes 0 ([Close_plugins, Close_sessions, Shutdown_http] @ (if debugging then [Shutdown_debug] else []))"

section \<open>The TURN server and the load\<close>

definition turn_auth :: "(str \<Rightarrow> str \<Rightarrow> str \<Rightarrow> 'k) \<Rightarrow> str \<Rightarrow> str \<Rightarrow> str \<Rightarrow> (str \<times> 'k) option" where
  "turn_auth auth_key secret user realm =
     (if user = ''voiceagent'' then Some (user, auth_key user realm secret) else None)"

record sampler =
  sp_cores :: int
  sp_last :: "duration option"
  sp_last_at :: instant
  sp_percent :: rat

definition new_sampler :: "int \<Rightarrow> duration option \<Rightarrow> instant \<Rightarrow> sampler" where
  "new_sampler cpus cpu now = \<lparr>sp_cores = max 1 cpus, sp_last = cpu, sp_last_at = now, sp_percent = 0\<rparr>"

definition sample_tick :: "sampler \<Rightarrow> instant \<times> duration option \<Rightarrow> sampler" where
  "sample_tick s x =
     (case x of (now, cur) \<Rightarrow>
        let s' = (case (sp_last s, cur) of
              (Some lst, Some c) \<Rightarrow>
                (let elapsed = now - sp_last_at s; diff = c - lst in
                 if 0 < elapsed \<and> 0 \<le> diff
                 then let pct = rat_of_int diff / rat_of_int elapsed * 100 / rat_of_int (sp_cores s)
                      in s\<lparr>sp_percent := (if pct < 0 then 0 else pct)\<rparr>
                 else s)
            | _ \<Rightarrow> s)
        in s'\<lparr>sp_last := cur, sp_last_at := now\<rparr>)"

section \<open>Properties\<close>

text \<open>C4: With a JWT secret set, nothing but a request that carries a token the library accepts for that
  secret, with an HMAC method, and that is not a preflight can change the server: no call is
  created, restarted or ended without one.\<close>

theorem only_authenticated_requests_change_the_server:
  assumes "srv_jwt_secret cfg \<noteq> []" and "public_handler lib cfg e r s = (s', resp)" and "s' \<noteq> s"
  shows "request.rq_method r \<noteq> OPTIONS \<and>
    (\<exists>jwt c. rq_header r ''Authorization'' = bearer @ jwt \<and>
       al_parse lib (hmac_only (srv_jwt_secret cfg)) (en_now e) jwt = Some c \<and>
       s' = fst (whip_handler e (with_resource_id (cl_subject c) r) s))"
proof -
  have opt: "request.rq_method r \<noteq> OPTIONS" using assms by (auto simp: public_handler_def cors_middleware_def Let_def)
  let ?whip = "jwt_middleware (al_parse lib) (srv_jwt_secret cfg) (en_now e) (whip_handler e)"
  have m: "fst (?whip r s) = s'"
    using assms opt
    by (auto simp: public_handler_def cors_middleware_def public_mux_def Let_def split: prod.splits route.splits)
  then obtain c where c: "al_parse lib (hmac_only (srv_jwt_secret cfg)) (en_now e) (trim_prefix bearer (rq_header r ''Authorization'')) = Some c"
    "has_prefix bearer (rq_header r ''Authorization'')" "?whip r s = whip_handler e (with_resource_id (cl_subject c) r) s"
    using assms(3) opt by (auto simp: jwt_middleware_def Let_def split: option.splits if_splits)
  then have "rq_header r ''Authorization'' = bearer @ trim_prefix bearer (rq_header r ''Authorization'')"
    by (auto simp: has_prefix_iff)
  with c m opt show ?thesis by metis
qed

text \<open>C30: A token that \<open>/token\<close> issues to a caller admits requests to \<open>/whip\<close> for an hour, as that
  caller: the endpoint sees the resource the token was asked for, whatever the request says of
  itself.\<close>

theorem issued_token_admits_its_caller:
  assumes "\<And>c jwt now. al_sign lib (srv_jwt_secret cfg) c = Some jwt \<Longrightarrow> unix_seconds now < cl_expires c \<Longrightarrow>
      al_parse lib (hmac_only (srv_jwt_secret cfg)) now jwt = Some c"
    and "srv_jwt_secret cfg \<noteq> []"
    and "public_handler lib cfg e0 r0 s0 = (s1, resp)" and "rq_path r0 = ''/token''" and "rs_status resp = 200"
    and "rs_body resp = token_body jwt" and "en_now e < en_now e0 + 3599 * second"
    and "rq_path r = ''/whip''" and "request.rq_method r \<noteq> OPTIONS" and "rq_header r ''Authorization'' = bearer @ jwt"
  shows "fst (public_handler lib cfg e r s) =
    fst (whip_handler e (with_resource_id (trim_space (requested_resource (al_json lib) r0)) r) s)"
proof -
  have post: "request.rq_method r0 = POST"
    using assms(2-5) by (auto simp: public_handler_def cors_middleware_def public_mux_def public_route_def token_handler_def method_not_allowed_def
        http_error_def Let_def split: if_splits)
  then obtain jwt' where sign: "al_sign lib (srv_jwt_secret cfg) (token_claims (en_now e0) (requested_resource (al_json lib) r0)) = Some jwt'"
    "rs_body resp = token_body jwt'"
    using assms(2-5) by (auto simp: public_handler_def cors_middleware_def public_mux_def public_route_def token_handler_def unauthorized_def
        http_error_def Let_def split: if_splits option.splits)
  with assms(6) have jwt: "jwt' = jwt" by (simp add: token_body_def)
  have "unix_seconds (en_now e) < unix_seconds (en_now e0 + 3600 * second)"
    using assms(7) by (simp add: unix_seconds_def)
  with assms(1) [OF sign(1)] have "al_parse lib (hmac_only (srv_jwt_secret cfg)) (en_now e) jwt =
      Some (token_claims (en_now e0) (requested_resource (al_json lib) r0))" by (simp add: token_claims_def jwt)
  then show ?thesis
    using assms(2,8-10)
    by (simp add: public_handler_def cors_middleware_def public_mux_def public_route_def jwt_middleware_def token_claims_def
        Let_def case_prod_unfold) (simp add: bearer_def)
qed

text \<open>The profiler is not reachable from outside unless the operator says so: a debug server that starts
  listens on the loopback or public exposure was allowed, and its rates are not negative.\<close>

theorem debug_server_stays_local:
  assumes "start_debug_server listen cfg = Inr (Some addr)"
  shows "addr = dbg_bind cfg \<and> addr \<noteq> [] \<and> (listen addr = Some True \<or> dbg_allow_public cfg \<and> listen addr \<noteq> None) \<and>
    0 \<le> dbg_block_profile_rate cfg \<and> 0 \<le> dbg_mutex_profile_fraction cfg"
  using assms by (auto simp: start_debug_server_def split: if_splits option.splits)

lemma legacy_keeps:
  "map_of (legacy_display d s) n = map_of s n \<or> map_of s n = None \<and> n = (if dsp_plugin d = [] then ''display-projector'' else dsp_plugin d)"
  "map_of (legacy_github g s) n = map_of s n \<or> map_of s n = None \<and> n = ''github''"
  "map_of (legacy_codex cx s) n = map_of s n \<or> map_of s n = None \<and> n = ''codex''"
  by (auto simp: legacy_display_def legacy_github_def legacy_codex_def Let_def update_conv)

text \<open>The tables an operator writes for plugins are handed over as written; the old sections only fill in
  for plugins that have none.\<close>

theorem explicit_settings_win:
  "(case map_of (plg_config (cf_plugins c)) name of
      Some table \<Rightarrow> map_of (plugin_settings c) name = Some table
    | None \<Rightarrow> map_of (plugin_settings c) name = None \<or>
        name \<in> {''github'', ''codex'', if dsp_plugin (cf_display c) = [] then ''display-projector'' else dsp_plugin (cf_display c)})"
proof -
  let ?s0 = "plg_config (cf_plugins c)"
  let ?s1 = "legacy_display (cf_display c) ?s0"
  let ?s2 = "legacy_github (cf_github c) ?s1"
  have *: "map_of ?s1 name = map_of ?s0 name \<or>
      map_of ?s0 name = None \<and> name = (if dsp_plugin (cf_display c) = [] then ''display-projector'' else dsp_plugin (cf_display c))"
    "map_of ?s2 name = map_of ?s1 name \<or> map_of ?s1 name = None \<and> name = ''github''"
    "map_of (plugin_settings c) name = map_of ?s2 name \<or> map_of ?s2 name = None \<and> name = ''codex''"
    unfolding plugin_settings_def by (rule legacy_keeps)+
  then show ?thesis by (cases "map_of ?s0 name") auto
qed

text \<open>The load is never negative, and at most 100 when the process used no more time than its cores had.\<close>

lemma sampled_load_in_range:
  assumes "0 \<le> sp_percent s \<and> sp_percent s \<le> 100" and "0 < sp_cores s"
    and "\<And>lst. sp_last s = Some lst \<Longrightarrow> cur - lst \<le> (now - sp_last_at s) * sp_cores s"
  shows "0 \<le> sp_percent (sample_tick s (now, Some cur)) \<and> sp_percent (sample_tick s (now, Some cur)) \<le> 100"
proof (cases "sp_last s")
  case None
  with assms(1) show ?thesis by (simp add: sample_tick_def)
next
  case (Some lst)
  have "rat_of_int (cur - lst) / rat_of_int (now - sp_last_at s) * 100 / rat_of_int (sp_cores s) \<le> 100" if "0 < now - sp_last_at s"
  proof -
    have "rat_of_int (cur - lst) \<le> rat_of_int (now - sp_last_at s) * rat_of_int (sp_cores s)"
      using assms(3) [OF Some] by (metis of_int_le_iff of_int_mult)
    then show ?thesis using that assms(2) by (simp add: field_simps)
  qed
  with Some assms(1,2) show ?thesis by (simp add: sample_tick_def Let_def)
qed

section \<open>Witnesses\<close>

text \<open>A library that signs the claims of one caller.\<close>

definition caller_claims :: claims where
  "caller_claims = token_claims 5 '' caller-7 ''"

definition sample_library :: auth_library where
  "sample_library = \<lparr>al_sign = (\<lambda>secret c. if c = caller_claims then Some ''h.p.s'' else None),
     al_parse = (\<lambda>key now jwt. if jwt = ''h.p.s'' \<and> key True = Some ''s3cret'' \<and> unix_seconds now < cl_expires caller_claims
       then Some caller_claims else None),
     al_json = (\<lambda>body. Json (JObj [(''resource_id'', JStr '' caller-7 '')]))\<rparr>"

definition guarded :: server_config where
  "guarded = no_server_config\<lparr>srv_jwt_secret := ''s3cret'', srv_api_key := ''k''\<rparr>"

definition token_request :: request where
  "token_request = (Signaling.sample_request POST ''/token'' ''{}'')\<lparr>rq_header := no_headers(''Authorization'' := ''Bearer k'')\<rparr>"

definition call_request :: request where
  "call_request = (Signaling.sample_request POST ''/whip'' ''v=0'')\<lparr>rq_header := no_headers(''Authorization'' := ''Bearer h.p.s'')\<rparr>"

theorem only_authenticated_requests_change_the_server_witness:
  "al_parse sample_library (hmac_only ''s3cret'') 5 ''h.p.s'' = Some caller_claims \<and>
   length (mg_sessions (sv_mgr (fst (public_handler sample_library guarded sample_env call_request (new_server 1 0 False))))) = 1"
proof -
  obtain s' resp where h: "public_handler sample_library guarded sample_env call_request (new_server 1 0 False) = (s', resp)" by fastforce
  have n: "length (mg_sessions (sv_mgr (fst (public_handler sample_library guarded sample_env call_request (new_server 1 0 False))))) = 1"
    by code_simp
  moreover have "length (mg_sessions (sv_mgr (new_server 1 0 False))) = 0" by code_simp
  ultimately have "s' \<noteq> new_server 1 0 False" using h by auto
  from only_authenticated_requests_change_the_server [OF _ h this] obtain jwt c where
    "rq_header call_request ''Authorization'' = bearer @ jwt"
    "al_parse sample_library (hmac_only ''s3cret'') (en_now sample_env) jwt = Some c"
    by (auto simp: guarded_def)
  then show ?thesis using n by (auto simp: call_request_def bearer_def sample_env_def sample_library_def split: if_splits)
qed

theorem issued_token_admits_its_caller_witness:
  "fst (public_handler sample_library guarded sample_env call_request (new_server 1 0 False)) =
   fst (whip_handler sample_env (with_resource_id ''caller-7'' call_request) (new_server 1 0 False))"
proof -
  have law: "al_parse sample_library (hmac_only (srv_jwt_secret guarded)) now jwt = Some c"
    if "al_sign sample_library (srv_jwt_secret guarded) c = Some jwt" "unix_seconds now < cl_expires c" for c jwt now
    using that by (simp add: sample_library_def guarded_def hmac_only_def split: if_splits)
  obtain s1 resp where h: "public_handler sample_library guarded sample_env token_request (new_server 1 0 False) = (s1, resp)" by fastforce
  have "rs_status (snd (public_handler sample_library guarded sample_env token_request (new_server 1 0 False))) = 200"
    "rs_body (snd (public_handler sample_library guarded sample_env token_request (new_server 1 0 False))) = token_body ''h.p.s''"
    by code_simp+
  moreover have "trim_space (requested_resource (al_json sample_library) token_request) = ''caller-7''" by code_simp
  moreover have "rq_path call_request = ''/whip''" "rq_header call_request ''Authorization'' = bearer @ ''h.p.s''"
    "rq_path token_request = ''/token''" "request.rq_method call_request \<noteq> OPTIONS" "srv_jwt_secret guarded \<noteq> []"
    by (simp_all add: call_request_def token_request_def Signaling.sample_request_def bearer_def guarded_def)
  ultimately show ?thesis
    using issued_token_admits_its_caller [OF law _ h, of "''h.p.s''" sample_env call_request "new_server 1 0 False"] h by simp
qed

theorem debug_server_stays_local_witness:
  "dbg_bind (no_debug_config\<lparr>dbg_bind := ''127.0.0.1:6060''\<rparr>) = ''127.0.0.1:6060''"
  using debug_server_stays_local [of "\<lambda>_. Some True" "no_debug_config\<lparr>dbg_bind := ''127.0.0.1:6060''\<rparr>" "''127.0.0.1:6060''"]
  by (simp add: start_debug_server_def no_debug_config_def)

section \<open>Observations\<close>

text \<open>Plugins are closed before calls, in up to eight seconds, and the process is ended after five: a
  plugin that survives its signals takes the orderly end of every call with it.\<close>

lemma stuck_plugin_cuts_off_calls:
  "snd (close_manager (\<lambda>_ _. None) (\<lambda>_. \<lparr>pr_exists = True, pr_stopping = False, pr_torn_down = False\<rparr>)
      (empty_manager\<lparr>mg_state := new_plugin_manager\<lparr>pm_hosts := [0]\<rparr>\<rparr>)) = 8 * second \<and>
   (shutdown_net \<le> takes Close_plugins \<longrightarrow> shutdown debugging takes = [Close_plugins])"
proof
  show "snd (close_manager (\<lambda>_ _. None) (\<lambda>_. \<lparr>pr_exists = True, pr_stopping = False, pr_torn_down = False\<rparr>)
      (empty_manager\<lparr>mg_state := new_plugin_manager\<lparr>pm_hosts := [0]\<rparr>\<rparr>)) = 8 * second"
    by (simp add: close_manager_def close_hosts_def stop_process_def teardown_def exits_within_def stop_grace_def empty_manager_def)
  show "shutdown_net \<le> takes Close_plugins \<longrightarrow> shutdown debugging takes = [Close_plugins]"
    by (simp add: shutdown_def shutdown_net_def)
qed

text \<open>Without an API key anyone can have a token for any caller.\<close>

lemma open_endpoint_signs_for_anyone:
  "request.rq_method r = POST \<Longrightarrow> sign secret (token_claims now (requested_resource json_of r)) = Some jwt \<Longrightarrow>
   rs_body (token_handler sign json_of secret [] now r) = token_body jwt"
  by (simp add: token_handler_def)

end
