(* ===== verification/Language_Model.thy ===== *)
theory Language_Model
  imports Go_Prelude "HOL-Library.AList"
begin

text \<open>
  \<open>internal/llm/openai.go\<close>: the message history of a call, the stream of one completion, the
  loop that runs tools, and the pruning of \<open>ollama.go\<close> where it differs.

  The model behind the API and the tools are arguments: functions of a state of their own.
  The order in which Go visits the map of tool calls is the argument \<open>shuffle\<close>. A chat keeps
  a log of the requests it sent, the sentences it passed on and the tools it ran, with
  whether they succeeded.
\<close>

section \<open>Messages\<close>

datatype role = System | User | Assistant | Tool

record tool_call =
  tc_id :: str
  tc_name :: str
  tc_arguments :: str

record message =
  ms_role :: role
  ms_content :: str
  ms_calls :: "tool_call list"
  ms_call_id :: str

definition plain_message :: "role \<Rightarrow> str \<Rightarrow> message" where
  "plain_message r content = \<lparr>ms_role = r, ms_content = content, ms_calls = [], ms_call_id = []\<rparr>"

definition call_message :: "tool_call list \<Rightarrow> message" where
  "call_message calls = \<lparr>ms_role = Assistant, ms_content = [], ms_calls = calls, ms_call_id = []\<rparr>"

definition result_message :: "str \<Rightarrow> str \<Rightarrow> message" where
  "result_message cid output = \<lparr>ms_role = Tool, ms_content = output, ms_calls = [], ms_call_id = cid\<rparr>"

section \<open>Keeping the history short\<close>

definition history_window :: nat where
  "history_window = 30"

definition prune_history :: "message list \<Rightarrow> message list" where
  "prune_history h =
     (if length h \<le> history_window + 1 then h
      else let tail = dropWhile (\<lambda>m. ms_role m = Tool) (drop (length h - history_window) h)
           in (if h \<noteq> [] \<and> ms_role (hd h) = System then [hd h] else []) @ tail)"

definition ollama_prune :: "message list \<Rightarrow> message list" where
  "ollama_prune h = (if 31 < length h then hd h # drop (length h - 30) h else h)"

section \<open>Repairing the history\<close>

definition pending_calls :: "message list \<Rightarrow> (nat \<times> str) list" where
  "pending_calls h =
     concat (map (\<lambda>i. if ms_role (h ! i) = Assistant then map (\<lambda>tc. (i, tc_id tc)) (ms_calls (h ! i)) else [])
       [0..<length h])"

definition answered_ids :: "message list \<Rightarrow> str list" where
  "answered_ids h = map ms_call_id (filter (\<lambda>m. ms_role m = Tool) h)"

fun dangling :: "str list \<Rightarrow> (nat \<times> str) list \<Rightarrow> (nat \<times> str) list" where
  "dangling answered [] = []"
| "dangling answered ((i, cid) # rest) =
     (if cid \<in> set answered then dangling answered rest
      else (i, cid) # dangling (cid # answered) rest)"

definition cancelled_result :: "str \<Rightarrow> message" where
  "cancelled_result cid = result_message cid ''Tool execution was cancelled.''"

definition splice :: "nat \<times> str \<Rightarrow> message list \<Rightarrow> message list" where
  "splice p h = take (fst p + 1) h @ cancelled_result (snd p) # drop (fst p + 1) h"

definition reconcile_history :: "message list \<Rightarrow> message list" where
  "reconcile_history h = fold splice (rev (dangling (answered_ids h) (pending_calls h))) h"

section \<open>One completion\<close>

definition is_alnum_byte :: "char \<Rightarrow> bool" where
  "is_alnum_byte c \<longleftrightarrow> is_letter c \<or> is_digit c"

text \<open>The scan from the end: \<open>i\<close> is one more than the index looked at.\<close>

fun sentence_end_from :: "str \<Rightarrow> nat \<Rightarrow> nat option" where
  "sentence_end_from s 0 = None"
| "sentence_end_from s (Suc i) =
     (if s ! i = CHR ''!'' \<or> s ! i = CHR ''?'' then Some i
      else if s ! i = CHR ''.'' \<and> i + 1 < length s \<and> \<not> is_alnum_byte (s ! (i + 1)) then Some i
      else sentence_end_from s i)"

definition find_sentence_end :: "str \<Rightarrow> nat option" where
  "find_sentence_end s = sentence_end_from s (length s)"

definition split_chunk :: "str \<Rightarrow> str \<Rightarrow> str \<times> str list" where
  "split_chunk buf chunk =
     (let s = buf @ chunk in
      case find_sentence_end s of
        None \<Rightarrow> (s, [])
      | Some i \<Rightarrow>
          let sentence = trim_space (take (i + 1) s)
          in (drop (i + 1) s, if sentence = [] then [] else [sentence]))"

definition flush_sentence :: "str \<Rightarrow> str list" where
  "flush_sentence buf = (let r = trim_space buf in if r = [] then [] else [r])"

record tool_delta =
  td_index :: "int option"
  td_id :: str
  td_name :: str
  td_arguments :: str

definition tool_call_delta_index :: "tool_delta \<Rightarrow> int" where
  "tool_call_delta_index td = (case td_index td of None \<Rightarrow> 0 | Some i \<Rightarrow> i)"

definition add_delta :: "tool_delta \<Rightarrow> (int \<times> tool_call) list \<Rightarrow> (int \<times> tool_call) list" where
  "add_delta td acc =
     (let idx = tool_call_delta_index td;
          tc = (case map_of acc idx of None \<Rightarrow> \<lparr>tc_id = [], tc_name = [], tc_arguments = []\<rparr> | Some tc \<Rightarrow> tc);
          tc = (if td_id td = [] then tc else tc\<lparr>tc_id := td_id td\<rparr>);
          tc = (if td_name td = [] then tc else tc\<lparr>tc_name := td_name td\<rparr>)
      in AList.update idx (tc\<lparr>tc_arguments := tc_arguments tc @ td_arguments td\<rparr>) acc)"

record delta =
  de_content :: str
  de_calls :: "tool_delta list"

text \<open>An answer of the API: the request is refused, or a stream that ends or breaks.\<close>

datatype stream = Refused str | Stream "delta list" "str option"

type_synonym 'w completions = "'w \<Rightarrow> message list \<Rightarrow> 'w \<times> stream"
type_synonym 'w tool_handler = "'w \<Rightarrow> tool_call \<Rightarrow> 'w \<times> (str + str)"

record 'w chat =
  ch_world :: 'w
  ch_history :: "message list"
  ch_requests :: "message list list"
  ch_spoken :: "str list"
  ch_ran :: "(tool_call \<times> bool) list"

definition chunks_of :: "delta list \<Rightarrow> str list" where
  "chunks_of ds = filter (\<lambda>c. c \<noteq> []) (map de_content ds)"

definition calls_of :: "delta list \<Rightarrow> tool_call list" where
  "calls_of ds = map snd (fold add_delta (concat (map de_calls ds)) [])"

definition original_name :: "(str \<times> str) list \<Rightarrow> tool_call \<Rightarrow> tool_call" where
  "original_name names tc = (case map_of names (tc_name tc) of None \<Rightarrow> tc | Some n \<Rightarrow> tc\<lparr>tc_name := n\<rparr>)"

record 'w llm_setup =
  se_complete :: "'w completions"
  se_handler :: "'w tool_handler option"
  se_names :: "(str \<times> str) list"
  se_shuffle :: "tool_call list \<Rightarrow> tool_call list"

definition stream_completion :: "'w llm_setup \<Rightarrow> 'w chat \<Rightarrow> 'w chat \<times> (str + str \<times> tool_call list)" where
  "stream_completion u c =
     (let req = ch_history c;
          c = c\<lparr>ch_requests := ch_requests c @ [req]\<rparr> in
      case se_complete u (ch_world c) req of
        (w, Refused e) \<Rightarrow> (c\<lparr>ch_world := w\<rparr>, Inl e)
      | (w, Stream ds broken) \<Rightarrow>
          (case run_chunks split_chunk [] (chunks_of ds) of
             (buf, sentences) \<Rightarrow>
               let c = c\<lparr>ch_world := w, ch_spoken := ch_spoken c @ sentences\<rparr> in
               (case broken of
                  Some e \<Rightarrow> (c, Inl e)
                | None \<Rightarrow>
                    let c = c\<lparr>ch_spoken := ch_spoken c @ flush_sentence buf\<rparr>;
                        calls = se_shuffle u (calls_of ds);
                        response = concat (chunks_of ds);
                        msg = (if calls \<noteq> [] then call_message calls else plain_message Assistant response)
                    in (c\<lparr>ch_history := prune_history (ch_history c @ [msg])\<rparr>,
                        Inr (response, map (original_name (se_names u)) calls)))))"

section \<open>A turn\<close>

definition max_tool_rounds :: nat where
  "max_tool_rounds = 4"

definition call_signature :: "tool_call \<Rightarrow> str" where
  "call_signature tc = tc_name tc @ ''|'' @ tc_arguments tc"

definition duplicate_note :: "str \<Rightarrow> str" where
  "duplicate_note name = ''The tool '' @ name @
     '' was already called with these arguments in this turn and returned the same result. Do not call it again; answer the user directly.''"

text \<open>The tool calls of one round: the calls seen so far, and whether all were repeats.\<close>

fun run_calls :: "'w tool_handler \<Rightarrow> tool_call list \<Rightarrow> str list \<Rightarrow> 'w chat \<Rightarrow> str list \<times> 'w chat \<times> bool" where
  "run_calls handler [] seen c = (seen, c, True)"
| "run_calls handler (tc # tcs) seen c =
     (if call_signature tc \<in> set seen
      then run_calls handler tcs seen (c\<lparr>ch_history := ch_history c @ [result_message (tc_id tc) (duplicate_note (tc_name tc))]\<rparr>)
      else case handler (ch_world c) tc of (w, answer) \<Rightarrow>
        let c = c\<lparr>ch_world := w, ch_ran := ch_ran c @ [(tc, \<not> isl answer)]\<rparr>;
            output = (case answer of Inl e \<Rightarrow> ''Error: '' @ e | Inr out \<Rightarrow> out);
            seen = (case answer of Inl e \<Rightarrow> seen | Inr out \<Rightarrow> call_signature tc # seen)
        in (case run_calls handler tcs seen (c\<lparr>ch_history := ch_history c @ [result_message (tc_id tc) output]\<rparr>) of
              (seen, c, repeated) \<Rightarrow> (seen, c, False)))"

definition budget_instruction :: str where
  "budget_instruction = ''You've used your tool-call budget for this turn. Reply to the user in plain text now without calling any more tools.''"

definition repeat_instruction :: str where
  "repeat_instruction = ''Stop calling tools. Reply to the user in plain text explaining what you can and cannot help with based on the tools available in this session.''"

definition force_text_response :: "'w llm_setup \<Rightarrow> str \<Rightarrow> 'w chat \<Rightarrow> 'w chat \<times> (str + str)" where
  "force_text_response u instruction c =
     (case stream_completion u (c\<lparr>ch_history := ch_history c @ [plain_message System instruction]\<rparr>) of
        (c, Inl e) \<Rightarrow> (c, Inl e)
      | (c, Inr (response, calls)) \<Rightarrow> (c, Inr response))"

function chat_rounds :: "'w llm_setup \<Rightarrow> nat \<Rightarrow> str list \<Rightarrow> 'w chat \<Rightarrow> 'w chat \<times> (str + str)" where
  "chat_rounds u round seen c =
     (case stream_completion u c of
        (c, Inl e) \<Rightarrow> (c, Inl e)
      | (c, Inr (response, calls)) \<Rightarrow>
          if calls = [] then (c, Inr response)
          else if max_tool_rounds \<le> round then force_text_response u budget_instruction c
          else case se_handler u of
            None \<Rightarrow> (c, Inr response)
          | Some handler \<Rightarrow>
              (case run_calls handler calls seen c of
                 (seen, c, repeated_all) \<Rightarrow>
                   if repeated_all then force_text_response u repeat_instruction c
                   else chat_rounds u (round + 1) seen c))"
  by pat_completeness auto

termination chat_rounds
  by (relation "measure (\<lambda>(u, round, seen, c). max_tool_rounds - round)") auto

declare chat_rounds.simps [simp del]

text \<open>The same loop without a bound on its rounds, as it is written; a run that does not return is
  \<open>None\<close>.\<close>

partial_function (option) chat_loop :: "'w llm_setup \<Rightarrow> nat \<Rightarrow> str list \<Rightarrow> 'w chat \<Rightarrow> ('w chat \<times> (str + str)) option" where
  "chat_loop u round seen c =
     (case stream_completion u c of
        (c, Inl e) \<Rightarrow> Some (c, Inl e)
      | (c, Inr (response, calls)) \<Rightarrow>
          if calls = [] then Some (c, Inr response)
          else if max_tool_rounds \<le> round then Some (force_text_response u budget_instruction c)
          else case se_handler u of
            None \<Rightarrow> Some (c, Inr response)
          | Some handler \<Rightarrow>
              (case run_calls handler calls seen c of
                 (seen, c, repeated_all) \<Rightarrow>
                   if repeated_all then Some (force_text_response u repeat_instruction c)
                   else chat_loop u (round + 1) seen c))"

definition chat :: "'w llm_setup \<Rightarrow> str \<Rightarrow> 'w chat \<Rightarrow> 'w chat \<times> (str + str)" where
  "chat u prompt c =
     chat_rounds u 0 [] (c\<lparr>ch_history := reconcile_history (ch_history c) @ [plain_message User prompt]\<rparr>)"

section \<open>The system prompt and the tool names\<close>

record llm_client =
  ll_system_prompt :: str
  ll_history :: "message list"

definition new_client :: "str \<Rightarrow> llm_client" where
  "new_client system = \<lparr>ll_system_prompt = system, ll_history = [plain_message System system]\<rparr>"

definition append_system_prompt :: "str \<Rightarrow> llm_client \<Rightarrow> llm_client" where
  "append_system_prompt s c =
     (if s = [] then c
      else case ll_history c of
        m # rest \<Rightarrow> if ms_role m = System then c\<lparr>ll_history := m\<lparr>ms_content := ll_system_prompt c @ s\<rparr> # rest\<rparr> else c
      | [] \<Rightarrow> c)"

definition reset_client :: "llm_client \<Rightarrow> llm_client" where
  "reset_client c = c\<lparr>ll_history := [plain_message System (ll_system_prompt c)]\<rparr>"

definition sanitize_tool_name :: "str \<Rightarrow> str" where
  "sanitize_tool_name name = map (\<lambda>c. if is_alnum_byte c \<or> c = CHR ''_'' \<or> c = CHR ''-'' then c else CHR ''_'') name"

definition tool_name_map :: "str list \<Rightarrow> (str \<times> str) list" where
  "tool_name_map names = fold (\<lambda>n m. AList.update (sanitize_tool_name n) n m) names []"

definition resolve_base_url :: "str \<Rightarrow> str" where
  "resolve_base_url url = trim_right (\<lambda>c. c = CHR ''/'') (trim_space url)"

definition truncate_text :: "str \<Rightarrow> nat \<Rightarrow> str" where
  "truncate_text s n = (if length s \<le> n then s else take n s @ ''...'')"

section \<open>What the API accepts\<close>

text \<open>
  The API wants every result to answer a call of the message its group of results follows,
  and, before anything else is said, a result for every call. \<open>pair_scan\<close> keeps the calls
  that still want a result. A history in which a turn was cut off is only \<open>well_paired\<close>: no
  result is out of place, but some may be missing.
\<close>

definition opens_calls :: "message \<Rightarrow> str list" where
  "opens_calls m = (if ms_role m = Assistant then map tc_id (ms_calls m) else [])"

fun pair_scan :: "str list \<Rightarrow> message list \<Rightarrow> str list option" where
  "pair_scan ids [] = Some ids"
| "pair_scan ids (m # ms) =
     (if ms_role m = Tool
      then (if ms_call_id m \<in> set ids then pair_scan (remove1 (ms_call_id m) ids) ms else None)
      else if ids \<noteq> [] then None else pair_scan (opens_calls m) ms)"

definition acceptable :: "message list \<Rightarrow> bool" where
  "acceptable h \<longleftrightarrow> pair_scan [] h = Some []"

fun well_paired :: "str list \<Rightarrow> message list \<Rightarrow> bool" where
  "well_paired ids [] = True"
| "well_paired ids (m # ms) =
     (if ms_role m = Tool then ms_call_id m \<in> set ids \<and> well_paired (remove1 (ms_call_id m) ids) ms
      else well_paired (opens_calls m) ms)"

definition all_calls :: "message list \<Rightarrow> str list" where
  "all_calls h = concat (map opens_calls h)"

lemma pair_scan_append: "pair_scan ids (a @ b) = Option.bind (pair_scan ids a) (\<lambda>i. pair_scan i b)"
  by (induction ids a rule: pair_scan.induct) auto

lemma pair_scan_well_paired: "pair_scan ids h \<noteq> None \<Longrightarrow> well_paired ids h"
  by (induction ids h rule: pair_scan.induct) (auto split: if_splits)

section \<open>Repair\<close>

text \<open>The spliced history, written from the front.\<close>

definition repaired :: "str list \<Rightarrow> message list \<Rightarrow> message list" where
  "repaired answered h =
     concat (map (\<lambda>m. m # map cancelled_result (filter (\<lambda>cid. cid \<notin> set answered) (opens_calls m))) h)"

lemma pending_calls_Cons:
  "pending_calls (m # h) = map (\<lambda>cid. (0, cid)) (opens_calls m) @ map (\<lambda>p. (Suc (fst p), snd p)) (pending_calls h)"
  by (simp add: pending_calls_def opens_calls_def upt_conv_Cons map_concat comp_def map_Suc_upt [symmetric] del: upt_Suc)
    (simp add: if_distrib comp_def cong: if_cong)

lemma snd_pending_calls: "map snd (pending_calls h) = all_calls h"
proof (induction h)
  case Nil
  then show ?case by (simp add: pending_calls_def all_calls_def)
next
  case (Cons m h)
  then show ?case by (simp add: pending_calls_Cons all_calls_def comp_def)
qed

lemma dangling_distinct:
  "distinct (map snd ps) \<Longrightarrow> dangling answered ps = filter (\<lambda>p. snd p \<notin> set answered) ps"
proof (induction answered ps rule: dangling.induct)
  case (2 answered i cid rest)
  then have "filter (\<lambda>p. snd p \<noteq> cid \<and> snd p \<notin> set answered) rest = filter (\<lambda>p. snd p \<notin> set answered) rest"
    by (intro filter_cong) auto
  with 2 show ?case by auto
qed simp

lemma splice_Suc: "splice (Suc (fst p), snd p) (m # h) = m # splice p h"
  by (simp add: splice_def)

lemma foldr_splice_Suc: "foldr splice (map (\<lambda>p. (Suc (fst p), snd p)) ps) (m # h) = m # foldr splice ps h"
  by (induction ps) (simp_all add: splice_Suc)

lemma foldr_splice_0: "foldr splice (map (\<lambda>cid. (0, cid)) cids) (m # h) = m # map cancelled_result cids @ h"
  by (induction cids) (simp_all add: splice_def)

lemma reconcile_repaired:
  assumes "distinct (all_calls h)"
  shows "reconcile_history h = repaired (answered_ids h) h"
proof -
  have "foldr splice (filter (\<lambda>p. snd p \<notin> set answered) (pending_calls h)) h = repaired answered h" for answered
  proof (induction h)
    case Nil
    then show ?case by (simp add: pending_calls_def repaired_def)
  next
    case (Cons m h)
    then show ?case
      by (simp add: pending_calls_Cons filter_map comp_def foldr_splice_Suc foldr_splice_0 repaired_def del: foldr_map)
  qed
  then show ?thesis
    using dangling_distinct [of "pending_calls h" "answered_ids h"] assms
    by (simp add: reconcile_history_def snd_pending_calls foldr_conv_fold)
qed

lemma answered_in_calls: "well_paired ids h \<Longrightarrow> set (answered_ids h) \<subseteq> set ids \<union> set (all_calls h)"
proof (induction ids h rule: well_paired.induct)
  case (2 ids m ms)
  then show ?case
    by (cases "ms_role m = Tool")
      (auto simp: answered_ids_def all_calls_def opens_calls_def dest!: notin_set_remove1 [THEN contrapos_pp, rotated] set_remove1_subset [THEN subsetD])
qed (simp add: answered_ids_def)

lemma cancelled_result_simps [simp]:
  "ms_role (cancelled_result cid) = Tool" "ms_call_id (cancelled_result cid) = cid" "opens_calls (cancelled_result cid) = []"
  by (simp_all add: cancelled_result_def result_message_def opens_calls_def)

lemma pair_scan_cancelled:
  "distinct (k @ c) \<Longrightarrow>
   pair_scan (k @ c) (map cancelled_result (filter (\<lambda>x. x \<notin> A) c)) = Some (k @ filter (\<lambda>x. x \<in> A) c)"
proof (induction c arbitrary: k)
  case (Cons x c)
  show ?case
  proof (cases "x \<in> A")
    case True
    with Cons.IH [of "k @ [x]"] Cons.prems show ?thesis by simp
  next
    case False
    with Cons.prems have "remove1 x (k @ x # c) = k @ c" by (simp add: remove1_append)
    with False Cons show ?thesis by simp
  qed
qed simp

text \<open>The heart of the repair: scanning the repaired history, what still wants a result is what
  is answered further on.\<close>

lemma repaired_scan:
  assumes "well_paired ids h" and "distinct (ids @ all_calls h)"
    and "\<And>y. y \<in> set ids \<union> set (all_calls h) \<Longrightarrow> y \<in> set A \<longleftrightarrow> y \<in> set (answered_ids h)"
  shows "pair_scan (filter (\<lambda>x. x \<in> set A) ids) (repaired A h) = Some []"
  using assms
proof (induction ids h rule: well_paired.induct)
  case (1 ids)
  then show ?case by (auto simp: repaired_def answered_ids_def filter_empty_conv)
next
  case (2 ids m ms)
  show ?case
  proof (cases "ms_role m = Tool")
    case True
    let ?x = "ms_call_id m"
    have o: "opens_calls m = []" using True by (simp add: opens_calls_def)
    have x: "?x \<in> set ids" "well_paired (remove1 ?x ids) ms" using True "2.prems"(1) by auto
    have d: "distinct (remove1 ?x ids @ all_calls ms)" and nx: "?x \<notin> set (remove1 ?x ids) \<union> set (all_calls ms)"
      using "2.prems"(2) x(1) o by (auto simp: all_calls_def set_remove1_eq)
    have "y \<in> set A \<longleftrightarrow> y \<in> set (answered_ids ms)" if "y \<in> set (remove1 ?x ids) \<union> set (all_calls ms)" for y
    proof -
      from that nx have "y \<noteq> ?x" by auto
      moreover have "y \<in> set ids \<union> set (all_calls (m # ms))"
        using that o set_remove1_subset [of ?x ids] by (auto simp: all_calls_def)
      ultimately show ?thesis using "2.prems"(3) [of y] True by (simp add: answered_ids_def)
    qed
    from "2.IH"(1) [OF True x(2) d this] have
      "pair_scan (filter (\<lambda>x. x \<in> set A) (remove1 ?x ids)) (repaired A ms) = Some []" .
    moreover have "?x \<in> set A" using "2.prems"(3) [of ?x] x(1) True by (simp add: answered_ids_def)
    moreover have "remove1 ?x (filter (\<lambda>x. x \<in> set A) ids) = filter (\<lambda>x. x \<in> set A) (remove1 ?x ids)"
      by (simp add: filter_remove1)
    ultimately show ?thesis using True o x(1) by (simp add: repaired_def)
  next
    case False
    let ?c = "opens_calls m"
    have w: "well_paired ?c ms" using False "2.prems"(1) by simp
    have d: "distinct (?c @ all_calls ms)" using "2.prems"(2) by (simp add: all_calls_def)
    have ans: "answered_ids (m # ms) = answered_ids ms" using False by (simp add: answered_ids_def)
    have "y \<notin> set A" if "y \<in> set ids" for y
    proof
      assume "y \<in> set A"
      then have "y \<in> set (answered_ids ms)" using "2.prems"(3) [of y] that ans by simp
      then have "y \<in> set ?c \<union> set (all_calls ms)" using answered_in_calls [OF w] by auto
      with that "2.prems"(2) show False by (auto simp: all_calls_def)
    qed
    then have e: "filter (\<lambda>x. x \<in> set A) ids = []" by (simp add: filter_empty_conv)
    have "y \<in> set A \<longleftrightarrow> y \<in> set (answered_ids ms)" if "y \<in> set ?c \<union> set (all_calls ms)" for y
      using "2.prems"(3) [of y] that ans by (auto simp: all_calls_def)
    from "2.IH"(2) [OF False w d this] have
      "pair_scan (filter (\<lambda>x. x \<in> set A) ?c) (repaired A ms) = Some []" .
    moreover have "pair_scan ?c (map cancelled_result (filter (\<lambda>x. x \<notin> set A) ?c)) = Some (filter (\<lambda>x. x \<in> set A) ?c)"
      using pair_scan_cancelled [of "[]" ?c "set A"] d by simp
    ultimately show ?thesis using False e by (simp add: repaired_def pair_scan_append)
  qed
qed

lemma reconcile_acceptable:
  assumes "well_paired [] h" and "distinct (all_calls h)"
  shows "acceptable (reconcile_history h)"
  using repaired_scan [of "[]" h "answered_ids h"] assms by (simp add: acceptable_def reconcile_repaired)

section \<open>Pruning\<close>

lemma pair_scan_dropWhile:
  "pair_scan i d = Some ids \<Longrightarrow> d \<noteq> [] \<Longrightarrow> ms_role (last d) \<noteq> Tool \<Longrightarrow>
   pair_scan [] (dropWhile (\<lambda>m. ms_role m = Tool) d) = Some ids"
proof (induction i d rule: pair_scan.induct)
  case (2 i m ms)
  then show ?case by (cases "ms = []") (auto split: if_splits)
qed simp

lemma well_paired_dropWhile: "well_paired i d \<Longrightarrow> well_paired [] (dropWhile (\<lambda>m. ms_role m = Tool) d)"
  by (induction i d rule: well_paired.induct) auto

lemma well_paired_append: "well_paired ids (a @ b) \<Longrightarrow> well_paired ids a \<and> (\<exists>i. well_paired i b)"
  by (induction ids a rule: well_paired.induct) auto

lemma well_paired_snoc: "ms_role m \<noteq> Tool \<Longrightarrow> well_paired ids h \<Longrightarrow> well_paired ids (h @ [m])"
  by (induction ids h rule: well_paired.induct) auto

lemma system_opens: "ms_role m = System \<Longrightarrow> opens_calls m = []"
  by (simp add: opens_calls_def)

lemma prune_pair_scan:
  assumes "pair_scan [] h = Some ids" and "h \<noteq> []" and "ms_role (last h) \<noteq> Tool"
  shows "pair_scan [] (prune_history h) = Some ids"
proof (cases "length h \<le> history_window + 1")
  case False
  let ?n = "length h - history_window" and ?d = "drop (length h - history_window) h"
  have "Option.bind (pair_scan [] (take ?n h)) (\<lambda>i. pair_scan i ?d) = Some ids"
    using assms(1) by (simp flip: pair_scan_append)
  then obtain i where "pair_scan i ?d = Some ids" by (auto simp: bind_eq_Some_conv)
  moreover have "?d \<noteq> []" "last ?d = last h" using False by (auto simp: history_window_def)
  ultimately have "pair_scan [] (dropWhile (\<lambda>m. ms_role m = Tool) ?d) = Some ids"
    using pair_scan_dropWhile assms(3) by simp
  with False show ?thesis by (simp add: prune_history_def Let_def system_opens)
qed (simp add: prune_history_def assms(1))

lemma prune_well_paired: "well_paired [] h \<Longrightarrow> well_paired [] (prune_history h)"
proof -
  assume "well_paired [] h"
  then obtain i where "well_paired i (drop (length h - history_window) h)"
    using well_paired_append [of "[]" "take (length h - history_window) h" "drop (length h - history_window) h"] by auto
  from well_paired_dropWhile [OF this] \<open>well_paired [] h\<close> show ?thesis
    by (auto simp: prune_history_def Let_def system_opens)
qed

lemma prune_length: "length (prune_history h) \<le> history_window + 1"
proof -
  have "length (dropWhile (\<lambda>m. ms_role m = Tool) (drop (length h - history_window) h)) \<le> history_window"
    by (rule order.trans [OF length_dropWhile_le]) simp
  then show ?thesis by (simp add: prune_history_def Let_def)
qed

section \<open>A turn's requests\<close>

lemma message_roles [simp]:
  "ms_role (plain_message r s) = r" "opens_calls (plain_message r s) = []" "ms_role (call_message calls) = Assistant"
  "opens_calls (call_message calls) = map tc_id calls" "ms_role (result_message i s) = Tool" "ms_call_id (result_message i s) = i"
  by (simp_all add: plain_message_def call_message_def result_message_def opens_calls_def)

lemma tc_id_original_name [simp]: "tc_id (original_name names tc) = tc_id tc"
  by (simp add: original_name_def split: option.split)

lemma stream_completion_cases:
  assumes "stream_completion u c = (c', r)"
  shows "ch_requests c' = ch_requests c @ [ch_history c] \<and> ch_ran c' = ch_ran c \<and>
    (case r of Inl e \<Rightarrow> ch_history c' = ch_history c
     | Inr (response, calls) \<Rightarrow> \<exists>m. ch_history c' = prune_history (ch_history c @ [m]) \<and> ms_role m = Assistant \<and> opens_calls m = map tc_id calls)"
  using assms by (auto simp: stream_completion_def Let_def comp_def split: prod.splits stream.splits option.splits if_splits)
    (rule exI, rule conjI, rule refl, simp)+

lemma run_calls_pairing:
  "run_calls handler calls seen c = (seen', c', repeated) \<Longrightarrow> pair_scan [] (ch_history c) = Some (map tc_id calls) \<Longrightarrow>
   acceptable (ch_history c') \<and> ch_requests c' = ch_requests c"
proof (induction handler calls seen c arbitrary: seen' c' repeated rule: run_calls.induct)
  case (2 handler tc tcs seen c)
  let ?c = "\<lambda>c out. c\<lparr>ch_history := ch_history c @ [result_message (tc_id tc) out]\<rparr>"
  have p: "pair_scan [] (ch_history c @ [result_message (tc_id tc) out]) = Some (map tc_id tcs)" for out
    using "2.prems"(2) by (simp add: pair_scan_append)
  show ?case
  proof (cases "call_signature tc \<in> set seen")
    case True
    with "2.IH"(1) [OF True, of seen' c' repeated] "2.prems"(1) p show ?thesis by simp
  next
    case False
    obtain w answer where h: "handler (ch_world c) tc = (w, answer)" by fastforce
    from "2.IH"(2) [OF False h [symmetric] refl refl refl] "2.prems"(1) False h p show ?thesis
      by (auto simp: Let_def split: prod.splits)
  qed
qed (simp add: acceptable_def)

text \<open>What one completion leaves behind when the request was acceptable.\<close>

lemma completion_pairing:
  assumes "acceptable (ch_history c)" and "stream_completion u c = (c', Inr (response, calls))"
  shows "pair_scan [] (ch_history c') = Some (map tc_id calls)"
proof -
  from stream_completion_cases [OF assms(2)] obtain m where
    m: "ch_history c' = prune_history (ch_history c @ [m])" "ms_role m = Assistant" "opens_calls m = map tc_id calls" by auto
  then have "pair_scan [] (ch_history c @ [m]) = Some (map tc_id calls)"
    using assms(1) by (simp add: acceptable_def pair_scan_append)
  with m show ?thesis by (simp add: prune_pair_scan)
qed

lemma completion_well_paired:
  assumes "well_paired [] (ch_history c)" and "stream_completion u c = (c', r)"
  shows "well_paired [] (ch_history c')"
  using stream_completion_cases [OF assms(2)] assms(1)
  by (cases r) (auto intro!: prune_well_paired well_paired_snoc)

lemma acceptable_well_paired: "acceptable h \<Longrightarrow> well_paired [] h"
  by (simp add: acceptable_def pair_scan_well_paired)

definition sends :: "'w chat \<Rightarrow> 'w chat \<Rightarrow> message list list \<Rightarrow> bool" where
  "sends c c' reqs \<longleftrightarrow> ch_requests c' = ch_requests c @ reqs \<and> well_paired [] (ch_history c')"

lemma force_text_sends:
  assumes "force_text_response u instruction c = (c', r)" and "well_paired [] (ch_history c)"
  shows "sends c c' [ch_history c @ [plain_message System instruction]]"
proof -
  let ?c = "c\<lparr>ch_history := ch_history c @ [plain_message System instruction]\<rparr>"
  obtain res where "stream_completion u ?c = (c', res)"
    using assms(1) by (auto simp: force_text_response_def split: prod.splits sum.splits)
  moreover have "well_paired [] (ch_history ?c)" using assms(2) by (simp add: well_paired_snoc)
  ultimately show ?thesis
    using stream_completion_cases [of u ?c] completion_well_paired [of ?c] by (fastforce simp: sends_def)
qed

definition rounds_ok :: "nat \<Rightarrow> message list list \<Rightarrow> bool" where
  "rounds_ok n reqs \<longleftrightarrow> length reqs \<le> Suc n \<and> (\<forall>i < length reqs. acceptable (reqs ! i) \<longleftrightarrow> i < n)"

lemma rounds_ok_Cons: "acceptable h \<Longrightarrow> rounds_ok n reqs \<Longrightarrow> rounds_ok (Suc n) (h # reqs)"
  by (auto simp: rounds_ok_def nth_Cons split: nat.splits)

lemma rounds_ok_one: "acceptable h \<Longrightarrow> rounds_ok (Suc n) [h]"
  by (simp add: rounds_ok_def)

lemma acceptable_snoc: "acceptable h \<Longrightarrow> ms_role m \<noteq> Tool \<Longrightarrow> opens_calls m = [] \<Longrightarrow> acceptable (h @ [m])"
  by (simp add: acceptable_def pair_scan_append)

text \<open>Telling the model to stop while its calls are still unanswered is what the API refuses.\<close>

lemma budget_request_unacceptable:
  "pair_scan [] h = Some ids \<Longrightarrow> ids \<noteq> [] \<Longrightarrow> \<not> acceptable (h @ [plain_message System s])"
  by (simp add: acceptable_def pair_scan_append)

lemma sends_trans: "sends c c1 [h] \<Longrightarrow> ch_requests c2 = ch_requests c1 \<Longrightarrow> sends c2 c' reqs \<Longrightarrow> sends c c' (h # reqs)"
  by (simp add: sends_def)

lemma chat_rounds_step:
  assumes "stream_completion u c = (c1, Inr (response, calls))"
  shows "chat_rounds u round seen c =
    (if calls = [] then (c1, Inr response)
     else if max_tool_rounds \<le> round then force_text_response u budget_instruction c1
     else case se_handler u of None \<Rightarrow> (c1, Inr response)
     | Some handler \<Rightarrow> (case run_calls handler calls seen c1 of (seen, c, repeated_all) \<Rightarrow>
         if repeated_all then force_text_response u repeat_instruction c else chat_rounds u (round + 1) seen c))"
  using assms by (subst chat_rounds.simps) simp

lemma chat_rounds_send:
  assumes "acceptable (ch_history c)" and "round \<le> max_tool_rounds" and "chat_rounds u round seen c = (c', r)"
  shows "\<exists>reqs. sends c c' reqs \<and> rounds_ok (Suc (max_tool_rounds - round)) reqs"
  using assms
proof (induction "max_tool_rounds - round" arbitrary: round seen c rule: less_induct)
  case less
  let ?h = "ch_history c"
  obtain c1 res where s: "stream_completion u c = (c1, res)" by fastforce
  have one: "sends c c1 [?h]"
    using stream_completion_cases [OF s] completion_well_paired [OF acceptable_well_paired [OF less.prems(1)] s] by (simp add: sends_def)
  note single = rounds_ok_one [OF less.prems(1)]
  show ?case
  proof (cases res)
    case (Inl e)
    then have "c' = c1" using less.prems(3) s by (subst (asm) chat_rounds.simps) simp
    with one single show ?thesis by blast
  next
    case (Inr p)
    then obtain response calls where res: "res = Inr (response, calls)" by (cases p) auto
    note ids = completion_pairing [OF less.prems(1) s [unfolded res]]
    note step = chat_rounds_step [OF s [unfolded res], of round seen]
    consider "calls = []" | "calls \<noteq> []" "max_tool_rounds \<le> round"
      | "calls \<noteq> []" "\<not> max_tool_rounds \<le> round" "se_handler u = None"
      | handler where "calls \<noteq> []" "\<not> max_tool_rounds \<le> round" "se_handler u = Some handler"
      by (cases "se_handler u") auto
    then show ?thesis
    proof cases
      case 2
      then have "force_text_response u budget_instruction c1 = (c', r)" using step less.prems(3) by simp
      from force_text_sends [OF this] one have "sends c1 c' [ch_history c1 @ [plain_message System budget_instruction]]"
        by (simp add: sends_def)
      with one have "sends c c' [?h, ch_history c1 @ [plain_message System budget_instruction]]" by (simp add: sends_def)
      moreover have "\<not> acceptable (ch_history c1 @ [plain_message System budget_instruction])"
        using budget_request_unacceptable [OF ids] 2 by simp
      ultimately show ?thesis using 2 less.prems(1,2) by (fastforce simp: rounds_ok_def less_Suc_eq)
    next
      case (4 handler)
      obtain seen2 c2 rep where rc: "run_calls handler calls seen c1 = (seen2, c2, rep)" by (metis prod_cases3)
      note acc = run_calls_pairing [OF rc ids]
      show ?thesis
      proof (cases rep)
        case True
        then have "force_text_response u repeat_instruction c2 = (c', r)" using step less.prems(3) rc 4 by simp
        note force_text_sends [OF this acceptable_well_paired [OF conjunct1 [OF acc]]]
        from sends_trans [OF one conjunct2 [OF acc] this] show ?thesis
          using less.prems(1) acceptable_snoc [OF conjunct1 [OF acc]] 4 by (intro exI conjI) (auto simp: rounds_ok_def less_Suc_eq)
      next
        case False
        then have "chat_rounds u (round + 1) seen2 c2 = (c', r)" using step less.prems(3) rc 4 by simp
        moreover have "max_tool_rounds - (round + 1) < max_tool_rounds - round" "round + 1 \<le> max_tool_rounds"
          using 4 by simp_all
        ultimately obtain reqs where
          "sends c2 c' reqs" "rounds_ok (Suc (max_tool_rounds - (round + 1))) reqs"
          using less.hyps [OF _ conjunct1 [OF acc]] by blast
        moreover have "Suc (max_tool_rounds - (round + 1)) = max_tool_rounds - round" using 4 by simp
        ultimately show ?thesis
          using sends_trans [OF one conjunct2 [OF acc]] rounds_ok_Cons [OF less.prems(1)] by metis
      qed
    qed (use step less.prems(3) one single in auto)
  qed
qed

section \<open>Tools run once\<close>

text \<open>A call that succeeded is not run again in the same turn.\<close>

definition runs_ok :: "str list \<Rightarrow> (tool_call \<times> bool) list \<Rightarrow> bool" where
  "runs_ok seen runs \<longleftrightarrow>
     (\<forall>p \<in> set runs. call_signature (fst p) \<notin> set seen) \<and>
     sorted_wrt (\<lambda>a b. snd a \<longrightarrow> call_signature (fst a) \<noteq> call_signature (fst b)) runs"

lemma run_calls_runs:
  "run_calls handler calls seen c = (seen', c', repeated) \<Longrightarrow>
   \<exists>runs. ch_ran c' = ch_ran c @ runs \<and> runs_ok seen runs \<and>
     set seen' = set seen \<union> {call_signature (fst p) | p. p \<in> set runs \<and> snd p}"
proof (induction handler calls seen c arbitrary: seen' c' repeated rule: run_calls.induct)
  case (1 handler seen c)
  then show ?case by (auto simp: runs_ok_def)
next
  case (2 handler tc tcs seen c)
  show ?case
  proof (cases "call_signature tc \<in> set seen")
    case True
    with "2.IH"(1) [OF True] "2.prems" show ?thesis by fastforce
  next
    case False
    obtain w answer where h: "handler (ch_world c) tc = (w, answer)" by fastforce
    let ?seen = "case answer of Inl e \<Rightarrow> seen | Inr out \<Rightarrow> call_signature tc # seen"
    from "2.IH"(2) [OF False h [symmetric] refl refl refl] "2.prems" False h obtain runs where
      runs: "ch_ran c' = (ch_ran c @ [(tc, \<not> isl answer)]) @ runs" "runs_ok ?seen runs"
        "set seen' = set ?seen \<union> {call_signature (fst p) | p. p \<in> set runs \<and> snd p}"
      by (fastforce simp: Let_def split: prod.splits)
    have "runs_ok seen ((tc, \<not> isl answer) # runs)"
      using runs(2) False by (cases answer) (auto simp: runs_ok_def)
    moreover have "set seen' = set seen \<union> {call_signature (fst p) | p. p \<in> set ((tc, \<not> isl answer) # runs) \<and> snd p}"
      unfolding runs(3) by (cases answer) auto
    ultimately show ?thesis using runs(1) by (intro exI [of _ "(tc, \<not> isl answer) # runs"]) simp
  qed
qed

lemma runs_ok_append:
  "runs_ok seen a \<Longrightarrow> set seen' = set seen \<union> {call_signature (fst p) | p. p \<in> set a \<and> snd p} \<Longrightarrow> runs_ok seen' b \<Longrightarrow>
   runs_ok seen (a @ b)"
proof -
  assume a: "runs_ok seen a" and seen: "set seen' = set seen \<union> {call_signature (fst p) | p. p \<in> set a \<and> snd p}"
    and b: "runs_ok seen' b"
  have "call_signature (fst p) \<noteq> call_signature (fst q)" if "p \<in> set a" "q \<in> set b" "snd p" for p q
    using that b seen unfolding runs_ok_def by (metis (mono_tags, lifting) UnI2 mem_Collect_eq)
  moreover have "call_signature (fst q) \<notin> set seen" if "q \<in> set b" for q
    using that b seen by (simp add: runs_ok_def)
  ultimately show ?thesis using a b by (auto simp: runs_ok_def sorted_wrt_append)
qed

lemma force_text_ran: "force_text_response u instruction c = (c', r) \<Longrightarrow> ch_ran c' = ch_ran c"
proof -
  let ?c = "c\<lparr>ch_history := ch_history c @ [plain_message System instruction]\<rparr>"
  assume "force_text_response u instruction c = (c', r)"
  then obtain res where "stream_completion u ?c = (c', res)"
    by (auto simp: force_text_response_def split: prod.splits sum.splits)
  from stream_completion_cases [OF this] show ?thesis by simp
qed

lemma chat_rounds_runs:
  "chat_rounds u round seen c = (c', r) \<Longrightarrow> \<exists>runs. ch_ran c' = ch_ran c @ runs \<and> runs_ok seen runs"
proof (induction "max_tool_rounds - round" arbitrary: round seen c rule: less_induct)
  case less
  have none: "runs_ok seen []" by (simp add: runs_ok_def)
  obtain c1 res where s: "stream_completion u c = (c1, res)" by fastforce
  then have ran: "ch_ran c1 = ch_ran c" using stream_completion_cases by blast
  show ?case
  proof (cases res)
    case (Inl e)
    with less.prems s ran none show ?thesis by (subst (asm) chat_rounds.simps) auto
  next
    case (Inr p)
    then obtain response calls where res: "res = Inr (response, calls)" by (cases p) auto
    note step = chat_rounds_step [OF s [unfolded res], of round seen]
    show ?thesis
    proof (cases "calls = [] \<or> max_tool_rounds \<le> round \<or> se_handler u = None")
      case True
      then have "c' = c1 \<or> force_text_response u budget_instruction c1 = (c', r)"
        using step less.prems by (auto split: if_splits)
      then have "ch_ran c' = ch_ran c" using ran force_text_ran by metis
      with none show ?thesis by (intro exI [of _ "[]"]) simp
    next
      case False
      then obtain handler where h: "se_handler u = Some handler" by auto
      obtain seen2 c2 rep where rc: "run_calls handler calls seen c1 = (seen2, c2, rep)" by (metis prod_cases3)
      from run_calls_runs [OF rc] ran obtain runs where runs: "ch_ran c2 = ch_ran c @ runs" "runs_ok seen runs"
        "set seen2 = set seen \<union> {call_signature (fst p) | p. p \<in> set runs \<and> snd p}" by auto
      show ?thesis
      proof (cases rep)
        case True
        with step less.prems rc h False have "force_text_response u repeat_instruction c2 = (c', r)" by simp
        from force_text_ran [OF this] runs show ?thesis by auto
      next
        case norep: False
        with step less.prems rc h False have "chat_rounds u (round + 1) seen2 c2 = (c', r)" by simp
        moreover have "max_tool_rounds - (round + 1) < max_tool_rounds - round" using False by linarith
        ultimately obtain later where "ch_ran c' = ch_ran c2 @ later" "runs_ok seen2 later" using less.hyps by blast
        with runs(1) runs_ok_append [OF runs(2,3)] show ?thesis by auto
      qed
    qed
  qed
qed

section \<open>Sentences\<close>

definition boundary :: "str \<Rightarrow> nat \<Rightarrow> bool" where
  "boundary s i \<longleftrightarrow> i < length s \<and>
     (s ! i = CHR ''!'' \<or> s ! i = CHR ''?'' \<or>
      s ! i = CHR ''.'' \<and> i + 1 < length s \<and> \<not> is_alnum_byte (s ! (i + 1)))"

lemma sentence_end_from_spec:
  "n \<le> length s \<Longrightarrow>
   (case sentence_end_from s n of
      None \<Rightarrow> \<forall>i < n. \<not> boundary s i
    | Some i \<Rightarrow> i < n \<and> boundary s i \<and> (\<forall>j < n. i < j \<longrightarrow> \<not> boundary s j))"
  by (induction n) (auto simp: boundary_def less_Suc_eq split: option.splits)

lemma find_sentence_end_boundary: "find_sentence_end s = Some i \<Longrightarrow> boundary s i"
  using sentence_end_from_spec [of "length s" s] by (simp add: find_sentence_end_def)

abbreviation spoken_chars :: "str \<Rightarrow> str" where
  "spoken_chars s \<equiv> filter (\<lambda>c. \<not> is_space c) s"

lemma spoken_dropWhile: "spoken_chars (dropWhile is_space s) = spoken_chars s"
  by (induction s) auto

lemma spoken_trim [simp]: "spoken_chars (trim_space s) = spoken_chars s"
proof -
  have "spoken_chars (rev (dropWhile is_space (rev t))) = spoken_chars t" for t
    using spoken_dropWhile [of "rev t"] by (simp flip: rev_filter)
  then show ?thesis by (simp add: trim_space_def trim_def trim_right_def spoken_dropWhile)
qed

lemma concat_spoken: "concat (map spoken_chars cs) = spoken_chars (concat cs)"
  by (induction cs) auto

lemma spoken_if_trimmed: "spoken_chars (concat (if trim_space s = [] then [] else [trim_space s])) = spoken_chars s"
proof (cases "trim_space s = []")
  case True
  then have "spoken_chars s = []" using spoken_trim [of s] by (simp only: filter.simps)
  with True show ?thesis by simp
qed simp

interpretation sentences: lossless_stream split_chunk spoken_chars spoken_chars spoken_chars
proof unfold_locales
  fix buf chunk buf' out
  assume sp: "split_chunk buf chunk = (buf', out)"
  show "spoken_chars buf @ spoken_chars chunk = concat (map spoken_chars out) @ spoken_chars buf'"
  proof (cases "find_sentence_end (buf @ chunk)")
    case None
    with sp show ?thesis by (auto simp: split_chunk_def)
  next
    case (Some i)
    have "spoken_chars (buf @ chunk) = spoken_chars (take (i + 1) (buf @ chunk)) @ spoken_chars (drop (i + 1) (buf @ chunk))"
      by (metis append_take_drop_id filter_append)
    moreover have "out = (let t = trim_space (take (i + 1) (buf @ chunk)) in if t = [] then [] else [t])" "buf' = drop (i + 1) (buf @ chunk)"
      using sp Some by (simp_all add: split_chunk_def Let_def)
    ultimately show ?thesis
      using spoken_if_trimmed [of "take (i + 1) (buf @ chunk)"]
      by (simp only: concat_spoken Let_def filter_append [symmetric])
  qed
qed

lemma concat_chunks_of: "concat (chunks_of ds) = concat (map de_content ds)"
  by (induction ds) (auto simp: chunks_of_def)

section \<open>Properties\<close>

text \<open>C16: A history left behind by an interrupted turn, with results missing but none out of place
  and every call id used once, is made acceptable again: every unanswered call gets one
  cancellation result, and every message stays, in its order.\<close>

theorem reconcile_repairs_interrupted_history:
  assumes "well_paired [] h" and "distinct (all_calls h)"
  shows "acceptable (reconcile_history h) \<and> subseq h (reconcile_history h) \<and>
    length (reconcile_history h) = length h + length (filter (\<lambda>cid. cid \<notin> set (answered_ids h)) (all_calls h))"
proof -
  have "subseq h (repaired A h) \<and> length (repaired A h) = length h + length (filter (\<lambda>cid. cid \<notin> set A) (all_calls h))" for A
    by (induction h) (auto simp: repaired_def all_calls_def)
  with reconcile_acceptable [OF assms] reconcile_repaired [OF assms(2)] show ?thesis by simp
qed

text \<open>C28: The tool loop of a turn has no bound of its own, yet it returns whatever the model and the
  tools answer, and what it returns is what the bounded rounds compute.\<close>

theorem tool_loop_returns: "chat_loop u 0 seen c = Some (chat_rounds u 0 seen c)"
proof -
  have "chat_loop u round seen c = Some (chat_rounds u round seen c)" for round
  proof (induction "max_tool_rounds - round" arbitrary: round seen c rule: less_induct)
    case less
    show ?case
      using less [of "round + 1"]
      by (subst chat_loop.simps, subst chat_rounds.simps)
        (auto split: prod.split sum.split option.split)
  qed
  then show ?thesis by blast
qed

text \<open>C10: In a turn that starts from such a history at most six requests go to the API, and the
  first five are acceptable, whatever the model and the tools answer. The sixth, which asks for
  a text reply because the tool budget is used up, never is: the calls of the last round have
  no results.\<close>

theorem requests_are_acceptable_until_the_budget:
  assumes "well_paired [] (ch_history c)" and "distinct (all_calls (ch_history c))"
    and "chat u prompt c = (c', r)"
  shows "\<exists>reqs. ch_requests c' = ch_requests c @ reqs \<and> length reqs \<le> 6 \<and>
    (\<forall>i < length reqs. acceptable (reqs ! i) \<longleftrightarrow> i < 5) \<and> well_paired [] (ch_history c')"
proof -
  let ?c = "c\<lparr>ch_history := reconcile_history (ch_history c) @ [plain_message User prompt]\<rparr>"
  have "acceptable (ch_history ?c)"
    using reconcile_acceptable [OF assms(1,2)] by (simp add: acceptable_snoc)
  from chat_rounds_send [OF this, of 0 u "[]" c' r] assms(3) obtain reqs where
    "sends ?c c' reqs" "rounds_ok (Suc max_tool_rounds) reqs" by (auto simp: chat_def)
  then show ?thesis by (auto simp: sends_def rounds_ok_def max_tool_rounds_def)
qed

text \<open>Within a turn a tool that succeeded with some arguments is not run again with them, however
  often the model asks for it.\<close>

theorem successful_call_runs_once:
  assumes "chat u prompt c = (c', r)"
  shows "\<exists>runs. ch_ran c' = ch_ran c @ runs \<and>
    (\<forall>j < length runs. \<forall>i < j. snd (runs ! i) \<longrightarrow> call_signature (fst (runs ! i)) \<noteq> call_signature (fst (runs ! j)))"
proof -
  from assms chat_rounds_runs [of u 0 "[]"] obtain runs where "ch_ran c' = ch_ran c @ runs" "runs_ok [] runs"
    by (fastforce simp: chat_def)
  then show ?thesis by (auto simp: runs_ok_def sorted_wrt_iff_nth_less)
qed

text \<open>What is spoken is what the model wrote: the sentences passed on during a completion
  contain all its characters but white space, in order and once, however the stream was cut.\<close>

theorem sentences_carry_the_response:
  assumes "se_complete u (ch_world c) (ch_history c) = (w, Stream ds None)"
    and "stream_completion u c = (c', r)"
  shows "\<exists>sentences. ch_spoken c' = ch_spoken c @ sentences \<and>
    spoken_chars (concat sentences) = spoken_chars (concat (map de_content ds)) \<and>
    (\<exists>calls. r = Inr (concat (map de_content ds), calls))"
proof -
  obtain buf out where run: "run_chunks split_chunk [] (chunks_of ds) = (buf, out)" by fastforce
  have flush: "spoken_chars (concat (flush_sentence buf)) = spoken_chars buf"
    using spoken_if_trimmed [of buf] by (simp add: flush_sentence_def Let_def)
  have "ch_spoken c' = ch_spoken c @ out @ flush_sentence buf" "\<exists>calls. r = Inr (concat (chunks_of ds), calls)"
    using assms run by (auto simp: stream_completion_def Let_def)
  then show ?thesis
    using sentences.run_conserve [OF run] flush
    by (intro exI [of _ "out @ flush_sentence buf"]) (simp add: concat_spoken concat_chunks_of)
qed

section \<open>Witnesses\<close>

definition sample_call :: tool_call where
  "sample_call = \<lparr>tc_id = ''c1'', tc_name = ''time'', tc_arguments = ''{}''\<rparr>"

definition interrupted_history :: "message list" where
  "interrupted_history =
     [plain_message System ''Be brief.'', plain_message User ''What time is it?'', call_message [sample_call]]"

text \<open>A model that asks for the same tool in every round, a tool that always fails.\<close>

definition stubborn :: "unit llm_setup" where
  "stubborn =
     \<lparr>se_complete = (\<lambda>w h. (w, Stream [\<lparr>de_content = ''Wait.'', de_calls =
         [\<lparr>td_index = Some 0, td_id = ''c2'', td_name = ''time'', td_arguments = ''{}''\<rparr>]\<rparr>] None)),
      se_handler = Some (\<lambda>w tc. (w, Inl ''down'')), se_names = [(''time'', ''time'')], se_shuffle = (\<lambda>cs. cs)\<rparr>"

definition sample_chat :: "unit chat" where
  "sample_chat = \<lparr>ch_world = (), ch_history = interrupted_history, ch_requests = [], ch_spoken = [], ch_ran = []\<rparr>"

lemma interrupted_ok: "well_paired [] interrupted_history" "distinct (all_calls interrupted_history)"
  by code_simp+

theorem reconcile_repairs_interrupted_history_witness:
  "acceptable (reconcile_history interrupted_history) \<and> \<not> acceptable interrupted_history"
  using reconcile_repairs_interrupted_history [OF interrupted_ok]
  by (simp add: acceptable_def interrupted_history_def sample_call_def)

lemma stubborn_requests: "length (ch_requests (fst (chat stubborn ''Well?'' sample_chat))) = 6"
  by code_simp

theorem requests_are_acceptable_until_the_budget_witness:
  "map acceptable (ch_requests (fst (chat stubborn ''Well?'' sample_chat))) = [True, True, True, True, True, False]"
proof -
  have "well_paired [] (ch_history sample_chat)" "distinct (all_calls (ch_history sample_chat))"
    using interrupted_ok by (simp_all add: sample_chat_def)
  from requests_are_acceptable_until_the_budget [OF this surjective_pairing, of stubborn "''Well?''"] obtain reqs where
    r: "ch_requests (fst (chat stubborn ''Well?'' sample_chat)) = reqs" "\<forall>i < length reqs. acceptable (reqs ! i) \<longleftrightarrow> i < 5"
    by (auto simp: sample_chat_def)
  with stubborn_requests have "length reqs = 6" by simp
  with r(2) have "map acceptable reqs = map (\<lambda>i. i < 5) [0..<6]" by (intro nth_equalityI) auto
  with r(1) show ?thesis by (simp add: upt_rec)
qed

theorem successful_call_runs_once_witness:
  "map (\<lambda>p. tc_name (fst p)) (ch_ran (fst (chat (stubborn\<lparr>se_handler := Some (\<lambda>w tc. (w, Inr ''12:00''))\<rparr>) ''Well?'' sample_chat))) = [''time'']"
proof -
  let ?c = "fst (chat (stubborn\<lparr>se_handler := Some (\<lambda>w tc. (w, Inr ''12:00''))\<rparr>) ''Well?'' sample_chat)"
  have "ch_ran ?c = [(\<lparr>tc_id = ''c2'', tc_name = ''time'', tc_arguments = ''{}''\<rparr>, True)]" by code_simp
  moreover have "\<exists>runs. ch_ran ?c = ch_ran sample_chat @ runs"
    using successful_call_runs_once [OF surjective_pairing] by blast
  ultimately show ?thesis by simp
qed

theorem sentences_carry_the_response_witness:
  "\<exists>sentences. ch_spoken (fst (stream_completion stubborn sample_chat)) = sentences \<and> spoken_chars (concat sentences) = ''Wait.''"
proof -
  obtain c' r where sc: "stream_completion stubborn sample_chat = (c', r)" by fastforce
  have "se_complete stubborn (ch_world sample_chat) (ch_history sample_chat) =
      ((), Stream [\<lparr>de_content = ''Wait.'', de_calls =
         [\<lparr>td_index = Some 0, td_id = ''c2'', td_name = ''time'', td_arguments = ''{}''\<rparr>]\<rparr>] None)"
    by (simp add: stubborn_def)
  from sentences_carry_the_response [OF this sc] sc show ?thesis
    by (auto simp: sample_chat_def is_space_def)
qed

section \<open>Observations\<close>

text \<open>A cancelled tool that returns after the next turn has repaired the history appends its result
  behind that turn's message. The API refuses such a history, and no later repair removes it.\<close>

lemma late_result_breaks_history:
  "let h = reconcile_history interrupted_history @ [plain_message User ''Never mind.''] @ [result_message ''c1'' ''Error: context canceled'']
   in \<not> well_paired [] h \<and> reconcile_history h = h \<and> \<not> acceptable h"
  by code_simp

text \<open>Text appended to the system prompt replaces what was appended before, and a reset drops it.\<close>

lemma append_system_prompt_overwrites:
  "t \<noteq> [] \<Longrightarrow> append_system_prompt t (append_system_prompt s (new_client p)) = append_system_prompt t (new_client p)"
  by (simp add: append_system_prompt_def new_client_def plain_message_def)

lemma reset_drops_appended: "reset_client (append_system_prompt s (new_client p)) = new_client p"
  by (simp add: append_system_prompt_def new_client_def plain_message_def reset_client_def)

text \<open>Two tools whose names differ in a forbidden character are offered under one name, which runs
  the later of them.\<close>

lemma colliding_tool_names: "map_of (tool_name_map [''notes.add'', ''notes_add'']) ''notes_add'' = Some ''notes_add''"
  by code_simp

text \<open>The Ollama history is cut without looking at roles: it can start with a tool's result.\<close>

lemma ollama_prune_orphans_results:
  "let h = plain_message System ''s'' # call_message [sample_call] # result_message ''c1'' ''noon'' # replicate 29 (plain_message User ''u'')
   in well_paired [] h \<and> \<not> well_paired [] (ollama_prune h)"
  by code_simp

end
