(* ===== verification/Ollama_Backend.thy ===== *)
theory Ollama_Backend
  imports Language_Model Configuration
begin

text \<open>
  The client of a local Ollama server (\<open>internal/llm/ollama.go\<close>), the calls outside the conversation
  (\<open>OneShot\<close>), and the choice of a client for a configuration (\<open>llm.go\<close>). It shares the data, the
  splitting into sentences and the names of tools with \<open>Language_Model\<close>; its rounds, its history
  and its requests are its own. The server is an argument: it answers a history with responses
  and an error or none (\<open>io.EOF\<close>, which the client takes for an end, is none).
\<close>

section \<open>The client\<close>

definition default_ollama_url :: str where
  "default_ollama_url = ''http://localhost:11434''"

text \<open>\<open>url_ok\<close> and \<open>env_ok\<close>: what \<open>url.Parse\<close> and the library's own settings say.\<close>

record ollama_client =
  oc_url :: "str option"
  oc_model :: str
  oc_client :: llm_client

definition new_ollama :: "(str \<Rightarrow> bool) \<Rightarrow> bool \<Rightarrow> ollama_config \<Rightarrow> ollama_client option" where
  "new_ollama url_ok env_ok cfg =
     (let url = (if olm_base_url cfg = [] then default_ollama_url else olm_base_url cfg);
          model = (if olm_model cfg = [] then ''llama3.2'' else olm_model cfg);
          remote = (if url \<noteq> default_ollama_url then Some url else None)
      in if (case remote of Some u \<Rightarrow> url_ok u | None \<Rightarrow> env_ok)
         then Some \<lparr>oc_url = remote, oc_model = model, oc_client = new_client (olm_system_prompt cfg)\<rparr> else None)"

section \<open>One request\<close>

record ollama_response =
  or_content :: str
  or_calls :: "(str \<times> str) list"

type_synonym 'w ollama = "'w \<Rightarrow> message list \<Rightarrow> 'w \<times> ollama_response list \<times> str option"

record 'w ollama_setup =
  os_server :: "'w ollama"
  os_handler :: "'w tool_handler option"
  os_names :: "(str \<times> str) list"

text \<open>With tools on offer the reply is not streamed.\<close>

definition ollama_streams :: "'t list \<Rightarrow> bool" where
  "ollama_streams ts \<longleftrightarrow> ts = []"

definition ollama_chunks :: "ollama_response list \<Rightarrow> str list" where
  "ollama_chunks rs = filter (\<lambda>c. c \<noteq> []) (map or_content (filter (\<lambda>r. or_calls r = []) rs))"

definition ollama_calls :: "(str \<times> str) list \<Rightarrow> ollama_response list \<Rightarrow> tool_call list" where
  "ollama_calls names rs =
     map (\<lambda>(i, name, args). original_name names \<lparr>tc_id = ''call_'' @ digits_of i, tc_name = name, tc_arguments = args\<rparr>)
       (enumerate 0 (concat (map or_calls rs)))"

text \<open>A message to Ollama has no call ids.\<close>

definition ollama_call_message :: "tool_call list \<Rightarrow> message" where
  "ollama_call_message calls = call_message (map (\<lambda>tc. tc\<lparr>tc_id := []\<rparr>) calls)"

definition ollama_completion :: "'w ollama_setup \<Rightarrow> 'w chat \<Rightarrow> 'w chat \<times> (str + str \<times> tool_call list)" where
  "ollama_completion u c =
     (let req = ch_history c;
          c = c\<lparr>ch_requests := ch_requests c @ [req]\<rparr> in
      case os_server u (ch_world c) req of
        (w, rs, broken) \<Rightarrow>
          (case run_chunks split_chunk [] (ollama_chunks rs) of
             (buf, sentences) \<Rightarrow>
               let c = c\<lparr>ch_world := w, ch_spoken := ch_spoken c @ sentences\<rparr> in
               (case broken of
                  Some e \<Rightarrow> (c, Inl (''ollama chat: '' @ e))
                | None \<Rightarrow>
                    let c = c\<lparr>ch_spoken := ch_spoken c @ flush_sentence buf\<rparr>;
                        calls = ollama_calls (os_names u) rs;
                        response = concat (ollama_chunks rs)
                    in (if calls \<noteq> [] then c\<lparr>ch_history := ch_history c @ [ollama_call_message calls]\<rparr>
                        else c\<lparr>ch_history := ollama_prune (ch_history c @ [plain_message Assistant response])\<rparr>,
                        Inr (response, calls)))))"

section \<open>A turn\<close>

definition ollama_tool_rounds :: nat where
  "ollama_tool_rounds = 10"

fun run_ollama_calls :: "'w tool_handler \<Rightarrow> tool_call list \<Rightarrow> 'w chat \<Rightarrow> 'w chat" where
  "run_ollama_calls handler [] c = c"
| "run_ollama_calls handler (tc # tcs) c =
     (case handler (ch_world c) tc of (w, answer) \<Rightarrow>
        run_ollama_calls handler tcs
          (c\<lparr>ch_world := w, ch_ran := ch_ran c @ [(tc, \<not> isl answer)],
             ch_history := ch_history c @ [result_message [] (case answer of Inl e \<Rightarrow> ''Error: '' @ e | Inr out \<Rightarrow> out)]\<rparr>))"

text \<open>The loop as it is written; a run that does not return is \<open>None\<close>.\<close>

partial_function (option) ollama_loop :: "'w ollama_setup \<Rightarrow> nat \<Rightarrow> 'w chat \<Rightarrow> ('w chat \<times> (str + str)) option" where
  "ollama_loop u rnd c =
     (case ollama_completion u c of
        (c, Inl e) \<Rightarrow> Some (c, Inl e)
      | (c, Inr (response, calls)) \<Rightarrow>
          if calls = [] then Some (c, Inr response)
          else if ollama_tool_rounds \<le> rnd then Some (c, Inr response)
          else case os_handler u of
            None \<Rightarrow> Some (c, Inr response)
          | Some handler \<Rightarrow> ollama_loop u (rnd + 1) (run_ollama_calls handler calls c))"

definition ollama_chat :: "'w ollama_setup \<Rightarrow> str \<Rightarrow> 'w chat \<Rightarrow> ('w chat \<times> (str + str)) option" where
  "ollama_chat u prompt c = ollama_loop u 0 (c\<lparr>ch_history := ch_history c @ [plain_message User prompt]\<rparr>)"

section \<open>Calls outside the conversation\<close>

definition one_shot_messages :: "str \<Rightarrow> str \<Rightarrow> message list" where
  "one_shot_messages system user = [plain_message System system, plain_message User user]"

text \<open>OpenAI's first choice, or none; Ollama's whole answer, without reasoning.\<close>

definition openai_one_shot :: "(message list \<Rightarrow> str + str list) \<Rightarrow> str \<Rightarrow> str \<Rightarrow> str + str" where
  "openai_one_shot api system user =
     (case api (one_shot_messages system user) of
        Inl e \<Rightarrow> Inl (''oneshot completion: '' @ e)
      | Inr [] \<Rightarrow> Inr []
      | Inr (choice # _) \<Rightarrow> Inr (trim_space choice))"

definition ollama_one_shot :: "'w ollama \<Rightarrow> 'w \<Rightarrow> str \<Rightarrow> str \<Rightarrow> str + str" where
  "ollama_one_shot server w system user =
     (case server w (one_shot_messages system user) of
        (_, _, Some e) \<Rightarrow> Inl (''oneshot completion: '' @ e)
      | (_, rs, None) \<Rightarrow> Inr (trim_space (concat (map or_content rs))))"

section \<open>The client of a configuration\<close>

datatype llm_backend =
    Openai_backend str str str str
  | Ollama_backend ollama_client
  | Agent_backend str str int str

datatype llm_refusal = Llm_setting_missing str | Llm_unusable | Llm_unknown str

definition new_llm_client :: "(str \<Rightarrow> bool) \<Rightarrow> bool \<Rightarrow> config \<Rightarrow> str \<Rightarrow> llm_refusal + llm_backend" where
  "new_llm_client url_ok env_ok c rid =
     (let p = llm_provider (cf_llm c) in
      if p = ''openai'' then
        (if oai_api_key (cf_openai c) = [] then Inl (Llm_setting_missing p)
         else Inr (Openai_backend (oai_api_key (cf_openai c)) (oai_model (cf_openai c)) (oai_system_prompt (cf_openai c)) (oai_base_url (cf_openai c))))
      else if p = ''ollama'' then
        (case new_ollama url_ok env_ok (cf_ollama c) of None \<Rightarrow> Inl Llm_unusable | Some oc \<Rightarrow> Inr (Ollama_backend oc))
      else if p = ''agent'' then
        (if agt_url (cf_agent c) = [] then Inl (Llm_setting_missing p)
         else Inr (Agent_backend (agt_url (cf_agent c)) (agt_api_key (cf_agent c)) (agt_timeout_ms (cf_agent c)) rid))
      else Inl (Llm_unknown p))"

section \<open>The rounds\<close>

lemma ollama_prune_hd: "h \<noteq> [] \<Longrightarrow> hd (ollama_prune h) = hd h"
  by (simp add: ollama_prune_def)

lemma ollama_prune_length: "length (ollama_prune h) \<le> 31"
  by (simp add: ollama_prune_def)

lemma run_ollama_calls_log:
  "ch_requests (run_ollama_calls handler tcs c) = ch_requests c \<and>
   (\<exists>rs. ch_history (run_ollama_calls handler tcs c) = ch_history c @ rs \<and> length rs = length tcs \<and> list_all (\<lambda>m. ms_role m = Tool) rs)"
proof (induction tcs arbitrary: c)
  case (Cons tc tcs)
  obtain w answer where h: "handler (ch_world c) tc = (w, answer)" by fastforce
  show ?case
    using Cons [of "c\<lparr>ch_world := w, ch_ran := ch_ran c @ [(tc, \<not> isl answer)],
      ch_history := ch_history c @ [result_message [] (case answer of Inl e \<Rightarrow> ''Error: '' @ e | Inr out \<Rightarrow> out)]\<rparr>"] h
    by (auto simp: result_message_def intro: exI [of _ "_ # _"])
qed simp

lemma ollama_completion_cases:
  assumes "ollama_completion u c = (c', r)"
  shows "ch_requests c' = ch_requests c @ [ch_history c] \<and>
    (case r of
       Inl e \<Rightarrow> ch_history c' = ch_history c
     | Inr (response, calls) \<Rightarrow>
         if calls = [] then ch_history c' = ollama_prune (ch_history c @ [plain_message Assistant response])
         else ch_history c' = ch_history c @ [ollama_call_message calls])"
  using assms by (auto simp: ollama_completion_def Let_def split: prod.splits option.splits if_splits)

definition extending :: "message list list \<Rightarrow> bool" where
  "extending reqs \<longleftrightarrow> sorted_wrt strict_prefix reqs"

lemma extending_Cons: "extending (h # reqs) \<longleftrightarrow> extending reqs \<and> (\<forall>r \<in> set reqs. strict_prefix h r)"
  by (auto simp: extending_def)

lemma strict_prefix_appendI: "xs \<noteq> [] \<Longrightarrow> strict_prefix h (h @ xs)"
  by (simp add: strict_prefix_def)

lemma extending_step:
  assumes "extending reqs" and "strict_prefix h (hd reqs)" and "reqs \<noteq> []"
  shows "extending (h # reqs)"
proof -
  have "strict_prefix h r" if "r \<in> set reqs" for r
    using that assms by (cases reqs) (auto simp: extending_Cons dest: prefix_order.less_trans)
  with assms show ?thesis by (simp add: extending_Cons)
qed

definition ollama_run_ok :: "nat \<Rightarrow> 'w chat \<Rightarrow> 'w chat \<Rightarrow> message list list \<Rightarrow> bool" where
  "ollama_run_ok n c c' reqs \<longleftrightarrow>
     ch_requests c' = ch_requests c @ reqs \<and> reqs \<noteq> [] \<and> hd reqs = ch_history c \<and> length reqs \<le> n \<and>
     extending reqs \<and> (ch_history c = [] \<or> ch_history c' \<noteq> [] \<and> hd (ch_history c') = hd (ch_history c))"

lemma ollama_run_once:
  assumes "ollama_completion u c = (c', r)"
  shows "ollama_run_ok (Suc n) c c' [ch_history c]"
  using ollama_completion_cases [OF assms]
  by (cases "ch_history c = []") (auto simp: ollama_run_ok_def extending_def ollama_prune_def split: sum.splits prod.splits if_splits)

lemma ollama_run_step:
  assumes "ollama_completion u c = (c1, Inr (response, calls))" and "calls \<noteq> []"
    and "ollama_run_ok n (run_ollama_calls handler calls c1) c' reqs"
  shows "ollama_run_ok (Suc n) c c' (ch_history c # reqs)"
proof -
  let ?c2 = "run_ollama_calls handler calls c1"
  have c1: "ch_requests c1 = ch_requests c @ [ch_history c]" "ch_history c1 = ch_history c @ [ollama_call_message calls]"
    using ollama_completion_cases [OF assms(1)] assms(2) by simp_all
  obtain rs where rs: "ch_requests ?c2 = ch_requests c1" "ch_history ?c2 = ch_history c1 @ rs"
    using run_ollama_calls_log [of handler calls c1] by metis
  have run: "ch_requests c' = ch_requests ?c2 @ reqs" "reqs \<noteq> []" "hd reqs = ch_history ?c2" "length reqs \<le> n" "extending reqs"
    "ch_history ?c2 = [] \<or> ch_history c' \<noteq> [] \<and> hd (ch_history c') = hd (ch_history ?c2)"
    using assms(3) unfolding ollama_run_ok_def by blast+
  have "strict_prefix (ch_history c) (hd reqs)"
    unfolding run(3) rs(2) c1(2) append.assoc by (rule strict_prefix_appendI) simp
  then have "extending (ch_history c # reqs)" using run(2,5) by (auto intro: extending_step [of reqs])
  moreover have "ch_history c = [] \<or> ch_history c' \<noteq> [] \<and> hd (ch_history c') = hd (ch_history c)"
    using run(6) unfolding rs(2) c1(2) by (cases "ch_history c") auto
  moreover have "ch_requests c' = ch_requests c @ (ch_history c # reqs)" unfolding run(1) rs(1) c1(1) by simp
  ultimately show ?thesis using run(4) unfolding ollama_run_ok_def by simp
qed

lemma ollama_loop_runs:
  "rnd \<le> ollama_tool_rounds \<Longrightarrow>
   \<exists>c' r reqs. ollama_loop u rnd c = Some (c', r) \<and> ollama_run_ok (Suc (ollama_tool_rounds - rnd)) c c' reqs"
proof (induction "ollama_tool_rounds - rnd" arbitrary: rnd c)
  case 0
  obtain c1 r where s: "ollama_completion u c = (c1, r)" by fastforce
  then have "\<exists>r. ollama_loop u rnd c = Some (c1, r)"
    using 0 by (subst ollama_loop.simps) (auto split: sum.split)
  then show ?case using ollama_run_once [OF s] by blast
next
  case (Suc n)
  obtain c1 r where s: "ollama_completion u c = (c1, r)" by fastforce
  show ?case
  proof (cases "\<exists>response calls handler. r = Inr (response, calls) \<and> calls \<noteq> [] \<and> os_handler u = Some handler")
    case True
    then obtain response calls handler where r: "r = Inr (response, calls)" "calls \<noteq> []" "os_handler u = Some handler" by blast
    have n: "n = ollama_tool_rounds - (rnd + 1)" "rnd + 1 \<le> ollama_tool_rounds" using Suc.hyps(2) by simp_all
    from Suc.hyps(1) [OF n] obtain c' r' reqs where IH:
      "ollama_loop u (rnd + 1) (run_ollama_calls handler calls c1) = Some (c', r')"
      "ollama_run_ok (Suc n) (run_ollama_calls handler calls c1) c' reqs" using n by blast
    have "ollama_loop u rnd c = Some (c', r')"
      using s r IH(1) n by (subst ollama_loop.simps) simp
    moreover have "ollama_run_ok (Suc (ollama_tool_rounds - rnd)) c c' (ch_history c # reqs)"
      using ollama_run_step [OF _ r(2) IH(2)] s r Suc.hyps(2) by simp
    ultimately show ?thesis by blast
  next
    case False
    then have "\<exists>r. ollama_loop u rnd c = Some (c1, r)"
      using s by (subst ollama_loop.simps) (auto split: sum.split option.split)
    then show ?thesis using ollama_run_once [OF s] by blast
  qed
qed

section \<open>Properties\<close>

text \<open>A turn with Ollama returns, whatever the server and the tools answer. It makes at least one and
  at most eleven requests; the first is the history with the user's words, and each later one
  extends the one before it. The system prompt stays first.\<close>

theorem ollama_turn_returns:
  "\<exists>c' r reqs. ollama_chat u prompt c = Some (c', r) \<and> ch_requests c' = ch_requests c @ reqs \<and>
     1 \<le> length reqs \<and> length reqs \<le> 11 \<and> hd reqs = ch_history c @ [plain_message User prompt] \<and>
     sorted_wrt strict_prefix reqs \<and> hd (ch_history c') = hd (ch_history c @ [plain_message User prompt])"
  using ollama_loop_runs [of 0 u "c\<lparr>ch_history := ch_history c @ [plain_message User prompt]\<rparr>"]
  by (auto simp: ollama_chat_def ollama_run_ok_def extending_def ollama_tool_rounds_def Suc_le_eq)

text \<open>What Ollama says is spoken: the sentences of a completion contain every character of its
  response but white space, in order and once; text that comes with tool calls is not part of it.\<close>

theorem ollama_speaks_its_response:
  assumes "ollama_completion u c = (c', Inr (response, calls))"
  shows "\<exists>out. ch_spoken c' = ch_spoken c @ out \<and> spoken_chars (concat out) = spoken_chars response"
proof -
  obtain w rs broken where s: "os_server u (ch_world c) (ch_history c) = (w, rs, broken)" by (metis prod_cases3)
  obtain buf out where run: "run_chunks split_chunk [] (ollama_chunks rs) = (buf, out)" by fastforce
  have "ch_spoken c' = ch_spoken c @ out @ flush_sentence buf" "response = concat (ollama_chunks rs)"
    using assms s run by (auto simp: ollama_completion_def Let_def split: option.splits if_splits)
  moreover have "spoken_chars (concat (flush_sentence buf)) = spoken_chars buf"
    using spoken_if_trimmed [of buf] by (simp add: flush_sentence_def Let_def)
  ultimately show ?thesis
    using sentences.run_conserve [OF run] by (intro exI [of _ "out @ flush_sentence buf"]) (simp add: concat_spoken)
qed

text \<open>A client is made exactly when the provider is known and what it needs is set, and it is the
  client of that provider; only an agent learns who is on the call.\<close>

theorem llm_client_is_the_configured_one:
  "(case new_llm_client url_ok env_ok c rid of
      Inl e \<Rightarrow> (llm_provider (cf_llm c) = ''openai'' \<longrightarrow> oai_api_key (cf_openai c) = []) \<and>
        (llm_provider (cf_llm c) = ''agent'' \<longrightarrow> agt_url (cf_agent c) = []) \<and>
        (llm_provider (cf_llm c) \<notin> {''openai'', ''ollama'', ''agent''} \<longleftrightarrow> e = Llm_unknown (llm_provider (cf_llm c)))
    | Inr (Openai_backend key _ _ _) \<Rightarrow> llm_provider (cf_llm c) = ''openai'' \<and> key = oai_api_key (cf_openai c) \<and> key \<noteq> []
    | Inr (Ollama_backend oc) \<Rightarrow> llm_provider (cf_llm c) = ''ollama'' \<and> oc_model oc \<noteq> []
    | Inr (Agent_backend url _ _ who) \<Rightarrow> llm_provider (cf_llm c) = ''agent'' \<and> url = agt_url (cf_agent c) \<and> url \<noteq> [] \<and> who = rid)"
  by (auto simp: new_llm_client_def new_ollama_def Let_def split: option.splits)

section \<open>Witnesses\<close>

text \<open>A server that asks for a tool until it has its result, then answers.\<close>

definition clock_server :: "unit ollama" where
  "clock_server w h = ((), if ms_role (last h) = Tool then [\<lparr>or_content = ''It is noon.'', or_calls = []\<rparr>]
     else [\<lparr>or_content = ''Let me look.'', or_calls = [(''clock_now'', ''{}'')]\<rparr>], None)"

definition clock_setup :: "unit ollama_setup" where
  "clock_setup = \<lparr>os_server = clock_server, os_handler = Some (\<lambda>w tc. (w, Inr ''noon'')), os_names = [(''clock_now'', ''clock.now'')]\<rparr>"

definition clock_chat :: "unit chat" where
  "clock_chat = \<lparr>ch_world = (), ch_history = [plain_message System ''s'', plain_message User ''Time?'', result_message [] ''noon''],
     ch_requests = [], ch_spoken = [], ch_ran = []\<rparr>"

theorem ollama_speaks_its_response_witness:
  "\<exists>out. ch_spoken (fst (ollama_completion clock_setup clock_chat)) = out \<and> spoken_chars (concat out) = ''Itisnoon.''"
proof -
  have "snd (ollama_completion clock_setup clock_chat) = Inr (''It is noon.'', [])" by code_simp
  then obtain c' where "ollama_completion clock_setup clock_chat = (c', Inr (''It is noon.'', []))" by (metis prod.collapse)
  from ollama_speaks_its_response [OF this] this show ?thesis
    by (auto simp: clock_chat_def is_space_def)
qed

section \<open>Observations\<close>

text \<open>The tool is offered under its sanitized name, but the history calls it by its own.\<close>

lemma history_uses_another_name:
  "map tc_name (concat (map ms_calls (ch_history (fst (ollama_completion clock_setup
     (clock_chat\<lparr>ch_history := [plain_message User ''Time?'']\<rparr>)))))) = [''clock.now''] \<and>
   sanitize_tool_name ''clock.now'' = ''clock_now''"
  by code_simp

text \<open>What the model says along with a tool call is neither spoken nor kept.\<close>

lemma text_beside_a_call_is_lost:
  "ch_spoken (fst (ollama_completion clock_setup (clock_chat\<lparr>ch_history := [plain_message User ''Time?'']\<rparr>))) = []"
  by code_simp

end
