(* ===== verification/Turn_Quality.thy ===== *)
theory Turn_Quality
  imports Complex_Main Turn_Buffer
begin

text \<open>
  What a turn carries into the language model besides the caller's words: the transcript
  (\<open>internal/pipeline/transcript.go\<close>), the escalation after garbled turns
  (\<open>misunderstanding.go\<close>, \<open>turnquality.go\<close>), the rolling summary
  (\<open>rolling_summary.go\<close>) and the assembly of the prompt in \<open>respond\<close> (\<open>agent.go\<close>), and
  the completion event emitted afterwards (\<open>lifecycle.go\<close>). Confidences are rationals; the
  texts of the three system notes are represented by their level.
\<close>

section \<open>The transcript log\<close>

record transcript_entry =
  tr_role :: str
  tr_text :: str
  tr_at :: instant

definition log_add :: "instant \<Rightarrow> str \<Rightarrow> str \<Rightarrow> transcript_entry list \<Rightarrow> transcript_entry list" where
  "log_add now role txt entries = entries @ [\<lparr> tr_role = role, tr_text = txt, tr_at = now \<rparr>]"

section \<open>Answers to a question for a value\<close>

definition collection_prompt_cues :: "str list" where
  "collection_prompt_cues =
    [''what is your'', ''whats your'', ''can i get your'', ''could i get your'',
     ''may i have your'', ''can i have your'', ''what name'', ''your name'',
     ''your number'', ''phone number'', ''your email'', ''email address'',
     ''what date'', ''what time'', ''how many'']"

definition is_collection_prompt :: "str \<Rightarrow> bool" where
  "is_collection_prompt txt =
     (let t = normalized_transcript_text txt in
      if t = [] \<or> \<not> contains_str txt ''?'' then False
      else if contains_str t ''is that all correct'' \<or> contains_str t ''anything youd like to change'' then False
      else list_ex (\<lambda>cue. contains_str t cue) collection_prompt_cues)"

definition previous_agent_was_collecting_field :: "transcript_entry list \<Rightarrow> bool" where
  "previous_agent_was_collecting_field entries =
     (case find (\<lambda>e. tr_role e = ''agent'') (rev entries) of
        None \<Rightarrow> False
      | Some e \<Rightarrow> is_collection_prompt (tr_text e))"

definition looks_like_collected_field_answer :: "str \<Rightarrow> bool" where
  "looks_like_collected_field_answer txt =
     (let t = normalized_transcript_text txt in
      if t = [] \<or> contains_str txt ''?'' then False
      else let ws = str_fields t in
        if ws = [] \<or> 8 < length ws then False
        else list_ex (\<lambda>w. w \<notin> set filler_words) ws)"

section \<open>The escalation ladder\<close>

definition low_confidence_reprompt_floor :: rat where
  "low_confidence_reprompt_floor = 55 / 100"

definition is_low_confidence_turn :: "rat \<Rightarrow> bool \<Rightarrow> bool" where
  "is_low_confidence_turn confidence ends_incomplete_flag =
     (if confidence \<le> 0 \<or> low_confidence_reprompt_floor \<le> confidence then False
      else \<not> ends_incomplete_flag)"

datatype directive = Clarify | Narrow | Handoff

definition misunderstanding_level_directive :: "int \<Rightarrow> directive" where
  "misunderstanding_level_directive streak =
     (if streak \<le> 1 then Clarify else if streak = 2 then Narrow else Handoff)"

text \<open>The streak and the note of a turn, given its confidence, the transcript so far and its text.\<close>

definition misunderstanding_note :: "rat \<Rightarrow> transcript_entry list \<Rightarrow> str \<Rightarrow> int \<Rightarrow> int \<times> directive option" where
  "misunderstanding_note conf entries user_text streak =
     (if previous_agent_was_collecting_field entries \<and> looks_like_collected_field_answer user_text
      then (0, None)
      else if \<not> is_low_confidence_turn conf (ends_incomplete user_text)
      then (if conf \<le> 0 \<or> low_confidence_reprompt_floor \<le> conf then 0 else streak, None)
      else (streak + 1, Some (misunderstanding_level_directive (streak + 1))))"

text \<open>A turn as the ladder sees it, and the three things it can be.\<close>

record heard_turn =
  ht_conf :: rat
  ht_log :: "transcript_entry list"
  ht_text :: str

definition collected :: "heard_turn \<Rightarrow> bool" where
  "collected h \<longleftrightarrow> previous_agent_was_collecting_field (ht_log h) \<and> looks_like_collected_field_answer (ht_text h)"

definition garbled :: "heard_turn \<Rightarrow> bool" where
  "garbled h \<longleftrightarrow> \<not> collected h \<and> 0 < ht_conf h \<and> ht_conf h < low_confidence_reprompt_floor \<and>
     \<not> ends_incomplete (ht_text h)"

definition clear_turn :: "heard_turn \<Rightarrow> bool" where
  "clear_turn h \<longleftrightarrow> collected h \<or> ht_conf h \<le> 0 \<or> low_confidence_reprompt_floor \<le> ht_conf h"

definition note_turn :: "heard_turn \<Rightarrow> int \<Rightarrow> int \<times> directive option" where
  "note_turn h streak = misunderstanding_note (ht_conf h) (ht_log h) (ht_text h) streak"

lemma note_turn_cases:
  "note_turn h streak =
     (if garbled h then (streak + 1, Some (misunderstanding_level_directive (streak + 1)))
      else (if clear_turn h then 0 else streak, None))"
  by (auto simp: note_turn_def misunderstanding_note_def garbled_def clear_turn_def collected_def
      is_low_confidence_turn_def)

definition streak_after :: "heard_turn list \<Rightarrow> int" where
  "streak_after hs = fold (\<lambda>h s. fst (note_turn h s)) hs 0"

text \<open>The garbled turns since the last clear one.\<close>

definition recent_garbled :: "heard_turn list \<Rightarrow> nat" where
  "recent_garbled hs = length (filter garbled (takeWhile (\<lambda>h. \<not> clear_turn h) (rev hs)))"

lemma garbled_not_clear: "garbled h \<Longrightarrow> \<not> clear_turn h"
  by (auto simp: garbled_def clear_turn_def)

lemma streak_counts: "streak_after hs = int (recent_garbled hs)"
proof (induction hs rule: rev_induct)
  case Nil
  show ?case by (simp add: streak_after_def recent_garbled_def)
next
  case (snoc h hs)
  have "streak_after (hs @ [h]) = fst (note_turn h (streak_after hs))" by (simp add: streak_after_def)
  with snoc garbled_not_clear [of h] show ?case
    by (auto simp: note_turn_cases recent_garbled_def)
qed

section \<open>The rolling summary\<close>

definition summary_activate_entries :: int where "summary_activate_entries = 24"
definition summary_refresh_entries :: int where "summary_refresh_entries = 12"
definition summary_max_chars :: nat where "summary_max_chars = 8000"

definition should_refresh_summary :: "int \<Rightarrow> int \<Rightarrow> bool \<Rightarrow> bool \<Rightarrow> bool" where
  "should_refresh_summary entries last_at generating have_summary =
     (if generating then False
      else if entries < summary_activate_entries then False
      else if \<not> have_summary then True
      else summary_refresh_entries \<le> entries - last_at)"

definition summary_line :: "transcript_entry \<Rightarrow> str" where
  "summary_line e =
     (let txt = trim_space (tr_text e) in
      if txt = [] then []
      else (if tr_role e = ''user'' then ''Caller'' else ''Agent'') @ '': '' @ txt @ [CHR 0x0A])"

definition format_transcript_for_summary :: "transcript_entry list \<Rightarrow> str" where
  "format_transcript_for_summary entries =
     (let s = concat (map summary_line entries) in
      if summary_max_chars < length s then drop (length s - summary_max_chars) s else s)"

definition summary_context_block :: "str \<Rightarrow> str" where
  "summary_context_block summary =
     (let s = trim_space summary in
      if s = [] then []
      else ''[Conversation so far (durable facts '' @ [CHR 0xE2, CHR 0x80, CHR 0x94] @
        '' do not re-ask what's already known):'' @ [CHR 0x0A] @ s @ '']'')"

lemma format_bounded:
  "length (format_transcript_for_summary es) \<le> summary_max_chars \<and>
   suffix (format_transcript_for_summary es) (concat (map summary_line es))"
  by (auto simp: format_transcript_for_summary_def Let_def suffix_drop)

record summary_state =
  ss_log :: "transcript_entry list"
  ss_summary :: str
  ss_last_at :: int
  ss_generating :: bool
  ss_running :: "int option"

datatype summary_event =
    Said transcript_entry
  | Refresh
  | Summarised "str option"

text \<open>\<open>maybeRefreshRollingSummary\<close> up to the start of the background call, and the call's end.\<close>

definition maybe_refresh_rolling_summary :: "summary_state \<Rightarrow> summary_state" where
  "maybe_refresh_rolling_summary s =
     (let entries = int (length (ss_log s)) in
      if \<not> should_refresh_summary entries (ss_last_at s) (ss_generating s) (ss_summary s \<noteq> []) then s
      else if trim_space (format_transcript_for_summary (ss_log s)) = [] then s\<lparr>ss_generating := False\<rparr>
      else s\<lparr>ss_generating := True, ss_running := Some entries\<rparr>)"

definition finish_summary :: "str option \<Rightarrow> summary_state \<Rightarrow> summary_state" where
  "finish_summary answer s =
     (case ss_running s of
        None \<Rightarrow> s
      | Some at_entries \<Rightarrow>
          let s1 = s\<lparr>ss_generating := False, ss_running := None\<rparr> in
          case answer of
            None \<Rightarrow> s1
          | Some txt \<Rightarrow>
              if trim_space txt = [] then s1
              else s1\<lparr>ss_summary := trim_space txt, ss_last_at := at_entries\<rparr>)"

fun summary_step :: "summary_state \<Rightarrow> summary_event \<Rightarrow> summary_state" where
  "summary_step s (Said e) = s\<lparr>ss_log := ss_log s @ [e]\<rparr>"
| "summary_step s Refresh = maybe_refresh_rolling_summary s"
| "summary_step s (Summarised answer) = finish_summary answer s"

definition new_summary_state :: summary_state where
  "new_summary_state = \<lparr> ss_log = [], ss_summary = [], ss_last_at = 0, ss_generating = False, ss_running = None \<rparr>"

definition summary_ok :: "summary_state \<Rightarrow> bool" where
  "summary_ok s \<longleftrightarrow>
     (ss_generating s \<longleftrightarrow> ss_running s \<noteq> None) \<and>
     0 \<le> ss_last_at s \<and> ss_last_at s \<le> int (length (ss_log s)) \<and>
     (ss_summary s \<noteq> [] \<longrightarrow> summary_activate_entries \<le> ss_last_at s) \<and>
     (\<forall>n. ss_running s = Some n \<longrightarrow> n \<le> int (length (ss_log s)) \<and> summary_activate_entries \<le> n \<and>
        (ss_summary s \<noteq> [] \<longrightarrow> ss_last_at s + summary_refresh_entries \<le> n))"

lemma summary_step_ok: "summary_ok s \<Longrightarrow> summary_ok (summary_step s e)"
  by (cases e)
    (auto simp: summary_ok_def maybe_refresh_rolling_summary_def should_refresh_summary_def
      finish_summary_def summary_activate_entries_def summary_refresh_entries_def Let_def
      split: option.splits if_splits)

interpretation summary: guarded_machine summary_step summary_ok
  by unfold_locales (rule summary_step_ok)


section \<open>The prompt of a turn\<close>

record llm_turn =
  lt_text :: str
  lt_prompt :: str
  lt_context :: "str list"
  lt_summary :: str
  lt_note :: str
  lt_interrupted :: str

definition quoted :: "str \<Rightarrow> str" where
  "quoted s = [CHR 0x27] @ s @ [CHR 0x27]"

definition newline :: char where "newline = CHR 0x0A"

definition em_dash :: str where "em_dash = [CHR 0xE2, CHR 0x80, CHR 0x94]"

text \<open>The prompt and the interrupted text of a turn after \<open>interruptedText\<close> has been taken.\<close>

definition interruption_context :: "str \<Rightarrow> str \<Rightarrow> str \<times> str" where
  "interruption_context user_text interrupted =
     (if interrupted = [] then (user_text, [])
      else if length (str_fields (trim_space (to_lower user_text))) \<le> 2 then
        (''[You were interrupted mid-response. The user said: '' @ quoted user_text @
           ''. Respond to what they said '' @ em_dash @ '' do not continue or repeat your previous answer.]'',
         interrupted)
      else
        let t = (if 150 < length interrupted then ''...'' @ drop (length interrupted - 150) interrupted
                 else interrupted)
        in (''[You were interrupted while saying: '' @ quoted t @ ''. The user said: '' @ quoted user_text @
              ''. Address what the user said.]'', t))"

definition context_prompt :: "str list \<Rightarrow> str \<Rightarrow> str" where
  "context_prompt chunks prompt =
     (if chunks = [] then prompt
      else ''[Context:'' @ [newline] @ join ([newline] @ ''---'' @ [newline]) chunks @
        '']'' @ [newline, newline] @ ''User: '' @ prompt)"

definition build_turn :: "str \<Rightarrow> str \<Rightarrow> str list \<Rightarrow> str \<Rightarrow> str \<Rightarrow> llm_turn" where
  "build_turn user_text interrupted chunks summary note =
     (case interruption_context user_text interrupted of (prompt, said) \<Rightarrow>
        \<lparr> lt_text = user_text,
          lt_prompt = (if summary = [] then [] else summary_context_block summary) @
            context_prompt chunks prompt @ note,
          lt_context = chunks, lt_summary = summary, lt_note = note, lt_interrupted = said \<rparr>)"

text \<open>The retrieval of a turn: skipped, answered by the prefetch, or asked for now. \<open>search\<close> is
  the corpus; a failed search leaves the turn without context.\<close>

definition retrieve :: "bool \<Rightarrow> (str \<Rightarrow> str list option) \<Rightarrow> str option \<Rightarrow> str \<Rightarrow> str option \<times> str list" where
  "retrieve enabled search slot user_text =
     (if \<not> enabled then (slot, [])
      else if should_skip_rag user_text then (slot, [])
      else
        let query = rag_search_query user_text in
        case take_rag_prefetch query slot of (slot', hit) \<Rightarrow>
          (slot', case search (case hit of None \<Rightarrow> query | Some q \<Rightarrow> q) of None \<Rightarrow> [] | Some cs \<Rightarrow> cs))"

lemma retrieve_answers_the_turn:
  "retrieve enabled search slot txt = (slot', chunks) \<Longrightarrow>
   chunks = [] \<or> search (rag_search_query txt) = Some chunks"
  by (auto simp: retrieve_def take_rag_prefetch_def Let_def split: if_splits option.splits)

lemma context_prompt_suffix: "suffix prompt (context_prompt chunks prompt)"
  by (auto simp: context_prompt_def suffix_def)

lemma sublist_quoted: "sublist s (u @ quoted s @ v)"
  unfolding quoted_def sublist_def by (metis append.assoc)

lemma sublist_quoted_later: "sublist s (u @ quoted t @ w @ quoted s @ v)"
  using sublist_quoted [of s "u @ quoted t @ w" v] by simp

lemma interruption_carries_text: "sublist user (fst (interruption_context user interrupted))"
proof -
  consider "interrupted = []" | "interrupted \<noteq> []" "length (str_fields (trim_space (to_lower user))) \<le> 2"
    | "interrupted \<noteq> []" "\<not> length (str_fields (trim_space (to_lower user))) \<le> 2" by blast
  then show ?thesis
  proof cases
    case 1
    then show ?thesis by (simp add: interruption_context_def)
  next
    case 2
    show ?thesis
      unfolding interruption_context_def if_not_P [OF 2(1)] if_P [OF 2(2)] fst_conv
      by (rule sublist_quoted)
  next
    case 3
    show ?thesis
      unfolding interruption_context_def if_not_P [OF 3(1)] if_not_P [OF 3(2)] Let_def fst_conv
      by (rule sublist_quoted_later)
  qed
qed

section \<open>The completion event\<close>

text \<open>
  \<open>emitAssistantResponseCompleted\<close> one atomic operation at a time: the claim, the check that
  the response is still current, the allocation of the turn number, the store of the latest
  turn, and the filter on what a plugin answers. A response is known by its generation.
\<close>

record lifecycle =
  lc_gen :: nat
  lc_emitted :: nat
  lc_claimed :: "nat list"
  lc_checked :: "nat list"
  lc_seq :: nat
  lc_latest :: nat
  lc_events :: "(nat \<times> nat) list"
  lc_sent :: "(nat \<times> nat) list"

datatype lifecycle_event =
    Superseded
  | Claim nat
  | Check nat str
  | Next_turn nat
  | Store_latest nat nat
  | Output nat nat nat

definition new_lifecycle :: lifecycle where
  "new_lifecycle = \<lparr> lc_gen = 0, lc_emitted = 0, lc_claimed = [], lc_checked = [], lc_seq = 0,
     lc_latest = 0, lc_events = [], lc_sent = [] \<rparr>"

definition claim_lifecycle_event :: "nat \<Rightarrow> lifecycle \<Rightarrow> lifecycle \<times> bool" where
  "claim_lifecycle_event gen s =
     (if gen \<le> lc_emitted s then (s, False) else (s\<lparr>lc_emitted := gen\<rparr>, True))"

definition send_output :: "nat \<Rightarrow> nat \<Rightarrow> nat \<Rightarrow> lifecycle \<Rightarrow> lifecycle" where
  "send_output gen seq out_seq s =
     (let turn_seq = (if out_seq = 0 then seq else out_seq) in
      if turn_seq < lc_latest s \<or> lc_gen s \<noteq> gen then s
      else s\<lparr>lc_sent := lc_sent s @ [(gen, turn_seq)]\<rparr>)"

fun lifecycle_step :: "lifecycle \<Rightarrow> lifecycle_event \<Rightarrow> lifecycle" where
  "lifecycle_step s Superseded = s\<lparr>lc_gen := lc_gen s + 1\<rparr>"
| "lifecycle_step s (Claim gen) =
     (if gen = 0 then s
      else case claim_lifecycle_event gen s of
        (s', True) \<Rightarrow> s'\<lparr>lc_claimed := gen # lc_claimed s'\<rparr>
      | (s', False) \<Rightarrow> s')"
| "lifecycle_step s (Check gen response) =
     (if gen \<notin> set (lc_claimed s) then s
      else let s' = s\<lparr>lc_claimed := remove1 gen (lc_claimed s)\<rparr> in
        if lc_gen s \<noteq> gen \<or> trim_space response = [] then s'
        else s'\<lparr>lc_checked := gen # lc_checked s'\<rparr>)"
| "lifecycle_step s (Next_turn gen) =
     (if gen \<notin> set (lc_checked s) then s
      else s\<lparr>lc_checked := remove1 gen (lc_checked s), lc_seq := lc_seq s + 1,
             lc_events := lc_events s @ [(gen, lc_seq s + 1)]\<rparr>)"
| "lifecycle_step s (Store_latest gen seq) =
     (if (gen, seq) \<in> set (lc_events s) then s\<lparr>lc_latest := seq\<rparr> else s)"
| "lifecycle_step s (Output gen seq out_seq) =
     (if (gen, seq) \<in> set (lc_events s) then send_output gen seq out_seq s else s)"

definition lifecycle_ok :: "lifecycle \<Rightarrow> bool" where
  "lifecycle_ok s \<longleftrightarrow>
     distinct (lc_claimed s @ lc_checked s @ map fst (lc_events s)) \<and>
     (\<forall>g \<in> set (lc_claimed s @ lc_checked s @ map fst (lc_events s)). g \<le> lc_emitted s) \<and>
     map snd (lc_events s) = [1 ..< Suc (lc_seq s)] \<and> lc_latest s \<le> lc_seq s"

lemma lifecycle_okI:
  assumes "distinct (lc_claimed s @ lc_checked s @ map fst (lc_events s))"
    and "\<And>g. g \<in> set (lc_claimed s) \<or> g \<in> set (lc_checked s) \<or> g \<in> fst ` set (lc_events s) \<Longrightarrow> g \<le> lc_emitted s"
    and "map snd (lc_events s) = [1 ..< Suc (lc_seq s)]" and "lc_latest s \<le> lc_seq s"
  shows "lifecycle_ok s"
  unfolding lifecycle_ok_def using assms by (auto simp del: upt_Suc)

lemma lifecycle_okD:
  assumes "lifecycle_ok s"
  shows "distinct (lc_claimed s @ lc_checked s @ map fst (lc_events s))"
    and "g \<in> set (lc_claimed s) \<or> g \<in> set (lc_checked s) \<or> g \<in> fst ` set (lc_events s) \<Longrightarrow> g \<le> lc_emitted s"
    and "map snd (lc_events s) = [1 ..< Suc (lc_seq s)]" and "lc_latest s \<le> lc_seq s"
  using assms unfolding lifecycle_ok_def by (auto simp del: upt_Suc)

lemma event_seq_le: "lifecycle_ok s \<Longrightarrow> (g, q) \<in> set (lc_events s) \<Longrightarrow> q \<le> lc_seq s"
proof -
  assume ok: "lifecycle_ok s" and "(g, q) \<in> set (lc_events s)"
  then have "q \<in> set (map snd (lc_events s))" by force
  with lifecycle_okD(3) [OF ok] show ?thesis by (auto simp del: upt_Suc)
qed

lemma remove1_subset: "x \<in> set (remove1 a xs) \<Longrightarrow> x \<in> set xs"
  by (metis notin_set_remove1)

lemma remove1_distinct_append: "distinct (xs @ ys) \<Longrightarrow> distinct (remove1 a xs @ ys)"
  by (auto simp: distinct_remove1 dest: remove1_subset)

lemma lifecycle_step_ok:
  assumes ok: "lifecycle_ok s"
  shows "lifecycle_ok (lifecycle_step s e)"
proof (cases e)
  case Superseded
  show ?thesis by (rule lifecycle_okI) (use lifecycle_okD [OF ok] Superseded in \<open>auto simp del: upt_Suc\<close>)
next
  case (Claim g)
  have fresh: "x < g" if "lc_emitted s < g" "x \<in> set (lc_claimed s) \<or> x \<in> set (lc_checked s) \<or> x \<in> fst ` set (lc_events s)" for x
    using lifecycle_okD(2) [OF ok that(2)] that(1) by simp
  have keep: "x \<le> g" if "lc_emitted s < g" "x \<in> set (lc_claimed s) \<or> x \<in> set (lc_checked s) \<or> x \<in> fst ` set (lc_events s)" for x
    using fresh [OF that] by simp
  show ?thesis
  proof (cases "g \<le> lc_emitted s \<or> g = 0")
    case True
    with ok Claim show ?thesis by (auto simp: claim_lifecycle_event_def)
  next
    case False
    then have less: "lc_emitted s < g" by simp
    let ?s = "s\<lparr>lc_emitted := g, lc_claimed := g # lc_claimed s\<rparr>"
    have "lifecycle_ok ?s"
    proof (rule lifecycle_okI)
      show "distinct (lc_claimed ?s @ lc_checked ?s @ map fst (lc_events ?s))"
        using lifecycle_okD(1) [OF ok] fresh [OF less, of g] by (auto simp del: upt_Suc)
      show "x \<le> lc_emitted ?s"
        if "x \<in> set (lc_claimed ?s) \<or> x \<in> set (lc_checked ?s) \<or> x \<in> fst ` set (lc_events ?s)" for x
        using that keep [OF less, of x] by auto
    qed (use lifecycle_okD(3,4) [OF ok] in \<open>simp_all del: upt_Suc\<close>)
    with False Claim show ?thesis by (simp add: claim_lifecycle_event_def)
  qed
next
  case (Check g r)
  show ?thesis
  proof (cases "g \<in> set (lc_claimed s)")
    case True
    let ?s = "s\<lparr>lc_claimed := remove1 g (lc_claimed s)\<rparr>"
    have d: "distinct (remove1 g (lc_claimed s) @ (g # lc_checked s) @ map fst (lc_events s))"
      using lifecycle_okD(1) [OF ok] True by (auto dest: remove1_subset)
    have "lifecycle_ok ?s" "lifecycle_ok (?s\<lparr>lc_checked := g # lc_checked ?s\<rparr>)"
      by (rule lifecycle_okI; use d lifecycle_okD(2-4) [OF ok] True in
          \<open>auto simp del: upt_Suc dest: remove1_subset\<close>)+
    with True Check show ?thesis by (simp add: Let_def)
  qed (use ok Check in simp)
next
  case (Next_turn g)
  show ?thesis
  proof (cases "g \<in> set (lc_checked s)")
    case True
    let ?s = "s\<lparr>lc_checked := remove1 g (lc_checked s), lc_seq := lc_seq s + 1,
        lc_events := lc_events s @ [(g, lc_seq s + 1)]\<rparr>"
    have "lifecycle_ok ?s"
    proof (rule lifecycle_okI)
      show "distinct (lc_claimed ?s @ lc_checked ?s @ map fst (lc_events ?s))"
        using lifecycle_okD(1) [OF ok] True by (auto dest: remove1_subset)
      show "x \<le> lc_emitted ?s"
        if "x \<in> set (lc_claimed ?s) \<or> x \<in> set (lc_checked ?s) \<or> x \<in> fst ` set (lc_events ?s)" for x
        using that lifecycle_okD(2) [OF ok] True by (auto dest: remove1_subset)
      show "map snd (lc_events ?s) = [1 ..< Suc (lc_seq ?s)]"
        using lifecycle_okD(3) [OF ok] by (simp add: upt_Suc_append)
    qed (use lifecycle_okD(4) [OF ok] in simp)
    with True Next_turn show ?thesis by simp
  qed (use ok Next_turn in simp)
next
  case (Store_latest g q)
  show ?thesis
  proof (cases "(g, q) \<in> set (lc_events s)")
    case True
    with event_seq_le [OF ok True] have "lifecycle_ok (s\<lparr>lc_latest := q\<rparr>)"
      by (intro lifecycle_okI) (use lifecycle_okD(1-3) [OF ok] in \<open>simp_all del: upt_Suc\<close>)
    with True Store_latest show ?thesis by simp
  qed (use ok Store_latest in simp)
next
  case (Output g q out)
  have "lifecycle_ok (s\<lparr>lc_sent := x\<rparr>)" for x
    by (rule lifecycle_okI) (use lifecycle_okD [OF ok] in \<open>auto simp del: upt_Suc\<close>)
  with ok Output show ?thesis by (simp add: send_output_def Let_def)
qed

interpretation completion: guarded_machine lifecycle_step lifecycle_ok
  by unfold_locales (rule lifecycle_step_ok)

lemma lifecycle_ok_new: "lifecycle_ok new_lifecycle"
  by (simp add: lifecycle_ok_def new_lifecycle_def)

section \<open>Properties\<close>

text \<open>The escalation follows exactly the number of garbled turns since the last clear one:
  the first is asked about, the second narrowed down, from the third on a person is offered;
  a clear turn, one of unknown confidence or the answer to a question for a value starts over,
  and a garbled turn that trails off neither counts nor starts over.\<close>

theorem escalation_counts_garbled_turns:
  "streak_after hs = int (recent_garbled hs) \<and>
   snd (note_turn h (streak_after hs)) =
     (if \<not> garbled h then None
      else Some (if recent_garbled hs = 0 then Clarify
        else if recent_garbled hs = 1 then Narrow else Handoff))"
  by (simp add: streak_counts note_turn_cases misunderstanding_level_directive_def)

text \<open>Whatever the interleaving of responses and barge-ins, a completed response is announced
  to the plugins at most once, and the announcements carry the turn numbers 1, 2, 3, \<dots> in
  the order in which they were made.\<close>

theorem completion_is_announced_once:
  "distinct (map fst (lc_events (fold (\<lambda>e s. lifecycle_step s e) es new_lifecycle))) \<and>
   map snd (lc_events (fold (\<lambda>e s. lifecycle_step s e) es new_lifecycle)) =
     [1 ..< Suc (length (lc_events (fold (\<lambda>e s. lifecycle_step s e) es new_lifecycle)))]"
proof -
  let ?s = "fold (\<lambda>e s. lifecycle_step s e) es new_lifecycle"
  have ok: "lifecycle_ok ?s" by (rule completion.run_invar [OF lifecycle_ok_new])
  then have "map snd (lc_events ?s) = [1 ..< Suc (lc_seq ?s)]" by (simp add: lifecycle_ok_def)
  then have "length (lc_events ?s) = lc_seq ?s" by (metis diff_Suc_1 length_map length_upt)
  with ok show ?thesis by (simp add: lifecycle_ok_def)
qed

text \<open>The model always gets the caller's words: they are the turn's text and stand verbatim
  in the prompt, whatever context, summary, note and interruption are put around them; what
  is retrieved for a turn answers that turn's own query, never the query of a prefetch made
  before the turn was extended.\<close>

theorem prompt_carries_the_callers_words:
  assumes "retrieve enabled search slot user_text = (slot', chunks)"
    and "t = build_turn user_text interrupted chunks summary note"
  shows "lt_text t = user_text \<and> sublist user_text (lt_prompt t) \<and>
    (lt_context t = [] \<or> search (rag_search_query user_text) = Some (lt_context t)) \<and>
    (interrupted = [] \<longrightarrow> lt_interrupted t = [])"
proof -
  obtain prompt said where i: "interruption_context user_text interrupted = (prompt, said)" by fastforce
  from interruption_carries_text [of user_text interrupted] i have "sublist user_text prompt" by simp
  moreover have "sublist prompt (context_prompt chunks prompt)"
    using context_prompt_suffix by blast
  ultimately have "sublist user_text (context_prompt chunks prompt)"
    using sublist_order.order_trans by blast
  then have "sublist user_text (u @ context_prompt chunks prompt @ v)" for u v
    by (metis sublist_append_leftI sublist_append_rightI sublist_order.order_trans)
  with assms(2) i have "sublist user_text (lt_prompt t)" by (simp add: build_turn_def)
  with assms(2) i retrieve_answers_the_turn [OF assms(1)] show ?thesis
    by (auto simp: build_turn_def interruption_context_def)
qed

theorem prompt_carries_the_callers_words_witness:
  "lt_text (build_turn ''what are your opening hours'' ''We have'' [''9 to 5''] [] []) =
     ''what are your opening hours'' \<and>
   sublist ''what are your opening hours''
     (lt_prompt (build_turn ''what are your opening hours'' ''We have'' [''9 to 5''] [] []))"
proof -
  have "retrieve True (\<lambda>q. if q = ''what are your opening hours'' then Some [''9 to 5''] else None)
      (Some ''what are'') ''what are your opening hours'' = (None, [''9 to 5''])"
    by code_simp
  from prompt_carries_the_callers_words [OF this refl] show ?thesis by blast
qed

end
