(* ===== verification/Agent_Backend.thy ===== *)
theory Agent_Backend
  imports Language_Model Plugin_Host Go_Wire Configuration Turn_Quality
begin

text \<open>
  The external agent behind a call (\<open>internal/llm/agent.go\<close>): the conversation it is addressed
  with, the request of a turn, and the three forms its reply can have. A request's answer is an
  \<open>agent_answer\<close>: the service cannot be reached, or it sends a status, a content type and a body,
  cut into reads as the network cuts it, which ends or breaks. Strings are bytes, as in Go. The
  random bytes of a session id and the JSON parser are parameters.
\<close>

section \<open>The conversation\<close>

record agent_client =
  ag_url :: str
  ag_api_key :: str
  ag_timeout_ms :: int
  ag_resource_id :: str
  ag_session_id :: str
  ag_system :: str

definition hex_lower :: "byte \<Rightarrow> str" where
  "hex_lower b = [''0123456789abcdef'' ! (unat b div 16), ''0123456789abcdef'' ! (unat b mod 16)]"

definition agent_session_id :: "byte list \<Rightarrow> str" where
  "agent_session_id random = concat (map hex_lower random)"

definition new_agent :: "str \<Rightarrow> str \<Rightarrow> int \<Rightarrow> str \<Rightarrow> byte list \<Rightarrow> agent_client" where
  "new_agent url key timeout_ms rid random =
     \<lparr>ag_url = url, ag_api_key = key, ag_timeout_ms = (if timeout_ms \<le> 0 then 60000 else timeout_ms),
      ag_resource_id = rid, ag_session_id = agent_session_id random, ag_system = []\<rparr>"

definition agent_append_prompt :: "str \<Rightarrow> agent_client \<Rightarrow> agent_client" where
  "agent_append_prompt s c = c\<lparr>ag_system := ag_system c @ s\<rparr>"

definition agent_reset :: "byte list \<Rightarrow> agent_client \<Rightarrow> agent_client" where
  "agent_reset random c = c\<lparr>ag_session_id := agent_session_id random\<rparr>"

section \<open>The request\<close>

record agent_request =
  aq_session_id :: str
  aq_resource_id :: str
  aq_type :: str
  aq_text :: str
  aq_system :: str
  aq_interrupted :: str
  aq_context :: "str list"
  aq_summary :: str

definition agent_chat_request :: "agent_client \<Rightarrow> llm_turn \<Rightarrow> agent_request" where
  "agent_chat_request c t =
     \<lparr>aq_session_id = ag_session_id c, aq_resource_id = ag_resource_id c, aq_type = ''chat'',
      aq_text = lt_text t, aq_system = ag_system c @ lt_note t, aq_interrupted = lt_interrupted t,
      aq_context = lt_context t, aq_summary = lt_summary t\<rparr>"

definition agent_oneshot_request :: "agent_client \<Rightarrow> str \<Rightarrow> str \<Rightarrow> agent_request" where
  "agent_oneshot_request c system user =
     \<lparr>aq_session_id = ag_session_id c, aq_resource_id = ag_resource_id c, aq_type = ''oneshot'',
      aq_text = user, aq_system = system, aq_interrupted = [], aq_context = [], aq_summary = []\<rparr>"

text \<open>\<open>omitempty\<close> leaves a field out when it is empty.\<close>

definition omit_empty :: "str \<Rightarrow> str \<Rightarrow> (str \<times> json) list" where
  "omit_empty name v = (if v = [] then [] else [(name, JStr v)])"

definition agent_payload :: "agent_request \<Rightarrow> json" where
  "agent_payload r =
     JObj ([(''session_id'', JStr (aq_session_id r))] @ omit_empty ''resource_id'' (aq_resource_id r) @
       [(''type'', JStr (aq_type r)), (''text'', JStr (aq_text r))] @ omit_empty ''system'' (aq_system r) @
       omit_empty ''interrupted_text'' (aq_interrupted r) @
       (if aq_context r = [] then [] else [(''context'', JArr (map JStr (aq_context r)))]) @
       omit_empty ''summary'' (aq_summary r))"

definition agent_headers :: "agent_client \<Rightarrow> (str \<times> str) list" where
  "agent_headers c =
     [(''Content-Type'', ''application/json''), (''Accept'', ''text/event-stream, text/plain, application/json'')] @
     (if ag_api_key c \<noteq> [] then [(''Authorization'', ''Bearer '' @ ag_api_key c)] else [])"

section \<open>Whole characters\<close>

text \<open>\<open>utf8.Valid\<close>: the length of the character a string begins with, 0 when it begins with none.\<close>

definition trail :: "nat \<Rightarrow> nat \<Rightarrow> nat \<Rightarrow> str \<Rightarrow> bool" where
  "trail lo hi n s \<longleftrightarrow>
     n \<le> length s \<and> lo \<le> of_char (s ! 0) \<and> of_char (s ! 0) \<le> hi \<and>
     list_all (\<lambda>c. 128 \<le> (of_char c :: nat) \<and> of_char c < (192 :: nat)) (take n s)"

fun rune_len :: "str \<Rightarrow> nat" where
  "rune_len [] = 0"
| "rune_len (c # s) =
     (let b = (of_char c :: nat) in
      if b < 128 then 1
      else if b < 194 then 0
      else if b < 224 then (if trail 128 191 1 s then 2 else 0)
      else if b < 240 then (if trail (if b = 224 then 160 else 128) (if b = 237 then 159 else 191) 2 s then 3 else 0)
      else if b < 245 then (if trail (if b = 240 then 144 else 128) (if b = 244 then 143 else 191) 3 s then 4 else 0)
      else 0)"

function utf8_valid :: "str \<Rightarrow> bool" where
  "utf8_valid s \<longleftrightarrow> (if s = [] then True else if rune_len s = 0 then False else utf8_valid (drop (rune_len s) s))"
  by pat_completeness auto

termination utf8_valid
  by (relation "measure length") auto

declare utf8_valid.simps [simp del]

text \<open>The loop that drops bytes from the end until the rest is valid.\<close>

fun valid_length :: "str \<Rightarrow> nat \<Rightarrow> nat" where
  "valid_length s 0 = 0"
| "valid_length s (Suc n) = (if utf8_valid (take (Suc n) s) then Suc n else valid_length s n)"

section \<open>The reply\<close>

datatype agent_answer = No_request str | No_agent str | Agent_answer int str "str list" "str option"

text \<open>\<open>emit\<close> passes on what is not empty.\<close>

abbreviation emit :: "str \<Rightarrow> str list" where
  "emit chunk \<equiv> (if chunk = [] then [] else [chunk])"

definition text_read :: "str \<Rightarrow> str \<Rightarrow> str \<times> str list" where
  "text_read pending buf =
     (if buf = [] then (pending, [])
      else let p = pending @ buf; n = valid_length p (length p) in (drop n p, emit (take n p)))"

definition read_text_stream :: "str list \<Rightarrow> str option \<Rightarrow> str list \<times> str option" where
  "read_text_stream reads broken =
     (case run_chunks text_read [] reads of
        (pending, chunks) \<Rightarrow> (case broken of None \<Rightarrow> (chunks @ emit pending, None) | Some e \<Rightarrow> (chunks, Some e)))"

text \<open>A line that does not fit the scanner's buffer of a megabyte ends the scan.\<close>

definition max_line :: int where "max_line = 1024 * 1024"

definition sse_data :: "str \<Rightarrow> str option" where
  "sse_data line =
     (if has_prefix ''data:'' line then Some (trim_prefix '' '' (trim_prefix ''data:'' line)) else None)"

definition sse_delta :: "(str \<Rightarrow> raw) \<Rightarrow> str \<Rightarrow> str" where
  "sse_delta json_of data =
     (if has_prefix ''{'' data
      then (case (if into_struct (json_of data) then as_string (struct_field ''delta'' (json_of data)) else None) of
              Some d \<Rightarrow> d
            | None \<Rightarrow> data)
      else data)"

fun read_sse :: "(str \<Rightarrow> raw) \<Rightarrow> str option \<Rightarrow> str list \<Rightarrow> str list \<times> str option" where
  "read_sse json_of broken [] = ([], broken)"
| "read_sse json_of broken (line # ls) =
     (if max_line \<le> int (length line) then ([], Some ''bufio.Scanner: token too long'')
      else case sse_data (drop_cr line) of
        None \<Rightarrow> read_sse json_of broken ls
      | Some data \<Rightarrow>
          if data = ''[DONE]'' then ([], None)
          else (case read_sse json_of broken ls of (chunks, e) \<Rightarrow> (emit (sse_delta json_of data) @ chunks, e)))"

definition read_json_reply :: "(str \<Rightarrow> raw) \<Rightarrow> str list \<Rightarrow> str option \<Rightarrow> str list \<times> str option" where
  "read_json_reply json_of reads broken =
     (let body = concat reads in
      case (if length body < 2 ^ 20 then broken else None) of
        Some e \<Rightarrow> ([], Some e)
      | None \<Rightarrow>
          let m = json_of (take (2 ^ 20) body) in
          (case (if into_struct m then as_string (struct_field ''text'' m) else None, as_string (struct_field ''response'' m)) of
             (Some t, Some r) \<Rightarrow> (emit (if t \<noteq> [] then t else r), None)
           | _ \<Rightarrow> ([], Some ''parse json reply'')))"

record agent_reply =
  ar_chunks :: "str list"
  ar_sentences :: "str list"
  ar_text :: str
  ar_error :: "str option"

definition failed_reply :: "str \<Rightarrow> agent_reply" where
  "failed_reply e = \<lparr>ar_chunks = [], ar_sentences = [], ar_text = [], ar_error = Some e\<rparr>"

definition agent_body :: "(str \<Rightarrow> raw) \<Rightarrow> str \<Rightarrow> str list \<Rightarrow> str option \<Rightarrow> str list \<times> str option" where
  "agent_body json_of content_type reads broken =
     (if has_prefix ''text/event-stream'' content_type then read_sse json_of broken (scan_lines (concat reads))
      else if has_prefix ''application/json'' content_type then read_json_reply json_of reads broken
      else read_text_stream reads broken)"

definition agent_do :: "(str \<Rightarrow> raw) \<Rightarrow> agent_answer \<Rightarrow> agent_reply" where
  "agent_do json_of answer =
     (case answer of
        No_request e \<Rightarrow> failed_reply (''agent request: '' @ e)
      | No_agent e \<Rightarrow> failed_reply (''agent endpoint: '' @ e)
      | Agent_answer status content_type reads broken \<Rightarrow>
          if status < 200 \<or> 299 < status
          then failed_reply (''agent endpoint returned '' @ itoa status @ '': '' @ truncate_text (take 512 (concat reads)) 200)
          else case agent_body json_of content_type reads broken of
            (chunks, e) \<Rightarrow>
              (case run_chunks split_chunk [] chunks of
                 (buf, sentences) \<Rightarrow>
                   \<lparr>ar_chunks = chunks, ar_sentences = sentences @ (if e = None then flush_sentence buf else []),
                    ar_text = concat chunks, ar_error = map_option (\<lambda>e. ''agent reply: '' @ e) e\<rparr>))"

text \<open>A turn streams its reply; a one-shot call, without callbacks, returns it trimmed or fails.\<close>

type_synonym agent_service = "(str \<times> str) list \<Rightarrow> json \<Rightarrow> agent_answer"

definition agent_chat :: "(str \<Rightarrow> raw) \<Rightarrow> agent_service \<Rightarrow> agent_client \<Rightarrow> llm_turn \<Rightarrow> agent_reply" where
  "agent_chat json_of service c t =
     agent_do json_of (service (agent_headers c) (agent_payload (agent_chat_request c t)))"

definition agent_oneshot :: "(str \<Rightarrow> raw) \<Rightarrow> agent_service \<Rightarrow> agent_client \<Rightarrow> str \<Rightarrow> str \<Rightarrow> str + str" where
  "agent_oneshot json_of service c system user =
     (let r = agent_do json_of (service (agent_headers c) (agent_payload (agent_oneshot_request c system user)))
      in case ar_error r of Some e \<Rightarrow> Inl e | None \<Rightarrow> Inr (trim_space (ar_text r)))"

section \<open>Whole characters, in proofs\<close>

lemma trail_append: "trail lo hi n s \<Longrightarrow> 0 < n \<Longrightarrow> trail lo hi n (s @ t)"
  by (auto simp: trail_def nth_append)

lemma trail_take: "trail lo hi n s \<Longrightarrow> 0 < n \<Longrightarrow> trail lo hi n (take n s)"
  by (auto simp: trail_def)

lemma trail_len: "trail lo hi n s \<Longrightarrow> n \<le> length s"
  by (simp add: trail_def)

lemma rune_len_le: "rune_len s \<le> length s"
  by (cases s) (auto simp: Let_def dest: trail_len)

lemma rune_len_4: "rune_len s \<le> 4"
  by (cases s) (auto simp: Let_def)

lemma rune_len_append: "rune_len s \<noteq> 0 \<Longrightarrow> rune_len (s @ t) = rune_len s"
  by (cases s) (auto simp: Let_def trail_append split: if_splits)

lemma rune_len_take: "rune_len (take (rune_len s) s) = rune_len s"
  by (cases s) (auto simp: Let_def trail_take split: if_splits)

lemma utf8_valid_Nil [simp]: "utf8_valid []"
  by (subst utf8_valid.simps) simp

lemma utf8_valid_step: "rune_len s \<noteq> 0 \<Longrightarrow> utf8_valid s \<longleftrightarrow> utf8_valid (drop (rune_len s) s)"
  by (subst utf8_valid.simps) auto

lemma utf8_valid_rune: "utf8_valid s \<Longrightarrow> s \<noteq> [] \<Longrightarrow> rune_len s \<noteq> 0"
  by (subst (asm) utf8_valid.simps) (auto split: if_splits)

lemma utf8_valid_append: "utf8_valid a \<Longrightarrow> utf8_valid (a @ b) \<longleftrightarrow> utf8_valid b"
proof (induction a rule: utf8_valid.induct)
  case (1 a)
  show ?case
  proof (cases "a = []")
    case False
    have r: "rune_len a \<noteq> 0" using utf8_valid_rune [OF 1(2) False] .
    then have "utf8_valid (a @ b) \<longleftrightarrow> utf8_valid (drop (rune_len a) a @ b)"
      using utf8_valid_step [of "a @ b"] rune_len_le [of a] by (simp add: rune_len_append)
    with 1(1) [OF False r] 1(2) r show ?thesis by (simp add: utf8_valid_step)
  qed simp
qed

lemma utf8_valid_concat: "list_all utf8_valid cs \<Longrightarrow> utf8_valid (concat cs)"
  by (induction cs) (simp_all add: utf8_valid_append)

text \<open>A beginning of valid text has at most three bytes too many.\<close>

lemma valid_beginning: "utf8_valid (p @ t) \<Longrightarrow> \<exists>n \<le> length p. utf8_valid (take n p) \<and> length p < n + 4"
proof (induction p rule: utf8_valid.induct)
  case (1 p)
  let ?r = "rune_len (p @ t)"
  show ?case
  proof (cases "p = [] \<or> length p < ?r")
    case True
    then show ?thesis using rune_len_4 [of "p @ t"] by (intro exI [of _ 0]) auto
  next
    case False
    then have r: "?r \<noteq> 0" using utf8_valid_rune [OF 1(2)] by simp
    have "take ?r p = take ?r (p @ t)" using False by simp
    then have rt: "rune_len (take ?r p) = ?r" using rune_len_take [of "p @ t"] by (simp only:)
    have rp: "rune_len p = ?r"
      using rune_len_append [of "take ?r p" "drop ?r p"] rt r by simp
    have "utf8_valid (drop ?r p @ t)" using 1(2) r False by (simp add: utf8_valid_step)
    then obtain n where n: "n \<le> length (drop ?r p)" "utf8_valid (take n (drop ?r p))" "length (drop ?r p) < n + 4"
      using 1(1) False r rp by (metis (no_types, lifting))
    have "utf8_valid (take ?r p)"
      using rt r by (subst utf8_valid.simps) simp
    then have "utf8_valid (take (?r + n) p)" using n(2) by (simp add: take_add utf8_valid_append)
    with n False show ?thesis by (intro exI [of _ "?r + n"]) auto
  qed
qed

lemma valid_length_le: "valid_length s n \<le> n"
  by (induction n) auto

lemma valid_length_valid: "utf8_valid (take (valid_length s n) s)"
  by (induction n) auto

lemma valid_length_max: "m \<le> n \<Longrightarrow> utf8_valid (take m s) \<Longrightarrow> m \<le> valid_length s n"
  by (induction n) (auto simp: le_Suc_eq)

section \<open>The pieces of a reply\<close>

lemma text_read_parts:
  assumes "text_read pending buf = (pending', out)"
  shows "pending @ buf = concat out @ pending' \<and> list_all utf8_valid out \<and> list_all (\<lambda>c. c \<noteq> []) out"
proof (cases "buf = []")
  case True
  with assms show ?thesis by (simp add: text_read_def)
next
  case False
  define p where "p = pending @ buf"
  have "pending' = drop (valid_length p (length p)) p" "out = emit (take (valid_length p (length p)) p)"
    using assms False by (auto simp: text_read_def Let_def p_def simp del: take_append drop_append length_append)
  then show ?thesis using valid_length_valid [of p "length p"] by (auto simp flip: p_def)
qed

interpretation reply_text: lossless_stream text_read "\<lambda>pending. pending" "\<lambda>buf. buf" "\<lambda>chunk. chunk"
  by unfold_locales (simp add: text_read_parts)

lemma text_run_valid:
  "run_chunks text_read pending reads = (pending', out) \<Longrightarrow> list_all utf8_valid out \<and> list_all (\<lambda>c. c \<noteq> []) out"
  by (induction reads arbitrary: pending pending' out) (auto split: prod.splits dest!: text_read_parts)

lemma text_run_short:
  assumes "run_chunks text_read [] reads = (pending, out)" and "utf8_valid (concat reads @ t)"
  shows "length pending < 4"
proof (cases "concat reads = []")
  case True
  with reply_text.run_conserve [OF assms(1)] show ?thesis by simp
next
  case False
  then show ?thesis using assms
  proof (induction reads arbitrary: pending out t rule: rev_induct)
    case (snoc buf reads)
    obtain p1 o1 where r1: "run_chunks text_read [] reads = (p1, o1)" by fastforce
    then obtain o2 where r2: "text_read p1 buf = (pending, o2)"
      using snoc.prems(2) by (auto simp: run_chunks_append split: prod.splits)
    have v: "utf8_valid (concat o1)" using text_run_valid [OF r1] by (simp add: utf8_valid_concat)
    have c: "concat reads = concat o1 @ p1" using reply_text.run_conserve [OF r1] by simp
    show ?case
    proof (cases "buf = []")
      case True
      with r2 have "pending = p1" by (simp add: text_read_def)
      with snoc.IH [OF _ r1, of t] snoc.prems(1,3) True show ?thesis by simp
    next
      case False
      have "utf8_valid ((p1 @ buf) @ t)" using snoc.prems(3) c v by (simp add: utf8_valid_append)
      from valid_beginning [OF this] obtain n where "n \<le> length (p1 @ buf)" "utf8_valid (take n (p1 @ buf))" "length (p1 @ buf) < n + 4"
        by blast
      with valid_length_max [of n "length (p1 @ buf)" "p1 @ buf"] r2 False show ?thesis
        by (auto simp: text_read_def Let_def)
    qed
  qed simp
qed

lemma read_sse_chunks: "read_sse json_of broken ls = (chunks, e) \<Longrightarrow> list_all (\<lambda>c. c \<noteq> []) chunks"
  by (induction ls arbitrary: chunks) (auto split: if_splits option.splits prod.splits)

section \<open>Properties\<close>

text \<open>A plain-text reply is passed on as it arrived: the chunks are not empty and together are the
  body, each but the last consists of whole characters, and when the body is valid UTF-8 all of
  them do and never more than three bytes are held back.\<close>

theorem text_reply_is_whole_characters:
  assumes "read_text_stream reads None = (chunks, e)"
  shows "concat chunks = concat reads \<and> e = None \<and> [] \<notin> set chunks \<and> list_all utf8_valid (butlast chunks) \<and>
    (\<not> utf8_valid (concat reads) \<or> list_all utf8_valid chunks \<and>
      (\<forall>k. length (fst (run_chunks text_read [] (take k reads))) < 4))"
proof -
  obtain pending out where run: "run_chunks text_read [] reads = (pending, out)" by fastforce
  have c: "concat reads = concat out @ pending" using reply_text.run_conserve [OF run] by simp
  have v: "list_all utf8_valid out" "[] \<notin> set out" using text_run_valid [OF run] by (auto simp: list_all_iff)
  have ch: "chunks = out @ emit pending" "e = None" using assms run by (auto simp: read_text_stream_def)
  have "utf8_valid pending" if "utf8_valid (concat reads)"
    using that c v by (simp add: utf8_valid_append utf8_valid_concat)
  moreover have "length (fst (run_chunks text_read [] (take k reads))) < 4" if "utf8_valid (concat reads)" for k
  proof (cases "run_chunks text_read [] (take k reads)")
    case (Pair p out')
    have "utf8_valid (concat (take k reads) @ concat (drop k reads))"
      using that by (simp flip: concat_append)
    from text_run_short [OF Pair this] Pair show ?thesis by simp
  qed
  moreover have "list_all utf8_valid (butlast chunks)" using v ch by (auto simp: list_all_iff dest: in_set_butlastD)
  ultimately show ?thesis using c v ch by (auto simp: list_all_iff)
qed

text \<open>What the agent answers is what is spoken: a turn that succeeds returns the text of its chunks,
  and its sentences contain every character of it but white space, in order and once, whatever
  the content type and however the body was cut.\<close>

theorem agent_reply_is_spoken:
  assumes "agent_chat json_of service c t = r" and "ar_error r = None"
  shows "ar_text r = concat (ar_chunks r) \<and> spoken_chars (concat (ar_sentences r)) = spoken_chars (ar_text r)"
proof -
  obtain status ctype reads broken where a: "service (agent_headers c) (agent_payload (agent_chat_request c t)) = Agent_answer status ctype reads broken"
    "\<not> (status < 200 \<or> 299 < status)"
    using assms by (auto simp: agent_chat_def agent_do_def failed_reply_def split: agent_answer.splits if_splits)
  obtain chunks e where b: "agent_body json_of ctype reads broken = (chunks, e)" by fastforce
  obtain buf out where run: "run_chunks split_chunk [] chunks = (buf, out)" by fastforce
  have "r = \<lparr>ar_chunks = chunks, ar_sentences = out @ flush_sentence buf, ar_text = concat chunks, ar_error = None\<rparr>"
    using assms a b run by (auto simp: agent_chat_def agent_do_def split: if_splits)
  moreover have "spoken_chars (concat (flush_sentence buf)) = spoken_chars buf"
    using spoken_if_trimmed [of buf] by (simp add: flush_sentence_def Let_def)
  ultimately show ?thesis using sentences.run_conserve [OF run] by (simp add: concat_spoken)
qed

text \<open>What is done with a client between two turns.\<close>

datatype agent_use = Append_prompt str | Start_over "byte list"

definition use_agent :: "agent_use \<Rightarrow> agent_client \<Rightarrow> agent_client" where
  "use_agent u c = (case u of Append_prompt s \<Rightarrow> agent_append_prompt s c | Start_over random \<Rightarrow> agent_reset random c)"

definition appended :: "agent_use list \<Rightarrow> str list" where
  "appended us = concat (map (\<lambda>u. case u of Append_prompt s \<Rightarrow> [s] | Start_over _ \<Rightarrow> []) us)"

definition restarts :: "agent_use list \<Rightarrow> byte list list" where
  "restarts us = concat (map (\<lambda>u. case u of Append_prompt s \<Rightarrow> [] | Start_over random \<Rightarrow> [random]) us)"

lemma used_agent:
  "fold use_agent us c = c\<lparr>ag_system := ag_system c @ concat (appended us),
     ag_session_id := last (ag_session_id c # map agent_session_id (restarts us))\<rparr>"
  by (induction us arbitrary: c)
    (auto simp: use_agent_def appended_def restarts_def agent_append_prompt_def agent_reset_def split: agent_use.split)

text \<open>The request of a turn names the conversation since the last reset and the caller, who stays the
  same; it carries the caller's words undecorated, and everything appended to the prompt, resets
  or not, before the turn's own instruction.\<close>

theorem agent_turn_is_addressed:
  "agent_chat_request (fold use_agent us (new_agent url key ms rid random)) t =
     \<lparr>aq_session_id = agent_session_id (last (random # restarts us)), aq_resource_id = rid, aq_type = ''chat'',
      aq_text = lt_text t, aq_system = concat (appended us) @ lt_note t, aq_interrupted = lt_interrupted t,
      aq_context = lt_context t, aq_summary = lt_summary t\<rparr>"
  by (simp add: agent_chat_request_def used_agent new_agent_def last_map)

text \<open>The agent's side: a field that is missing is empty.\<close>

definition read_field :: "str \<Rightarrow> raw \<Rightarrow> str" where
  "read_field name m = (case as_string (struct_field name m) of Some s \<Rightarrow> s | None \<Rightarrow> [])"

definition read_agent_request :: "raw \<Rightarrow> agent_request" where
  "read_agent_request m =
     \<lparr>aq_session_id = read_field ''session_id'' m, aq_resource_id = read_field ''resource_id'' m,
      aq_type = read_field ''type'' m, aq_text = read_field ''text'' m, aq_system = read_field ''system'' m,
      aq_interrupted = read_field ''interrupted_text'' m,
      aq_context = (case sub_list ''context'' m of Some js \<Rightarrow> map (\<lambda>j. the (as_string (Some j))) js | None \<Rightarrow> []),
      aq_summary = read_field ''summary'' m\<rparr>"

text \<open>Leaving empty fields out loses nothing: the agent reads back the request that was sent.\<close>

theorem agent_request_round_trip: "read_agent_request (Json (agent_payload r)) = r"
  by (cases r) (auto simp: read_agent_request_def agent_payload_def omit_empty_def read_field_def struct_field_def
      sub_list_def to_lower_def is_upper_def comp_def)

section \<open>Witnesses\<close>

definition cut_reads :: "str list" where
  "cut_reads = [[CHR ''H'', CHR ''i'', CHR 0xC3], [CHR 0xA9, CHR ''.'']]"

lemma cut_reads_valid: "utf8_valid (concat cut_reads)"
  by code_simp

theorem text_reply_is_whole_characters_witness:
  "list_all utf8_valid (fst (read_text_stream cut_reads None)) \<and> length (fst (run_chunks text_read [] (take 1 cut_reads))) < 4 \<and>
   fst (read_text_stream cut_reads None) = [''Hi'', [CHR 0xC3, CHR 0xA9, CHR ''.'']]"
proof -
  obtain chunks e where "read_text_stream cut_reads None = (chunks, e)" by fastforce
  moreover have "fst (read_text_stream cut_reads None) = [''Hi'', [CHR 0xC3, CHR 0xA9, CHR ''.'']]" by code_simp
  ultimately show ?thesis using text_reply_is_whole_characters [of cut_reads chunks e] cut_reads_valid by auto
qed

definition sample_agent :: agent_client where
  "sample_agent = new_agent ''https://agent.example'' ''k'' 0 ''caller-7'' (replicate 16 255)"

definition sample_service :: agent_service where
  "sample_service headers body = Agent_answer 200 ''text/event-stream'' [''data: Hello there. Ho'', [CHR 0x0A], ''data: w are you?'', [CHR 0x0A]] None"

definition sample_turn :: llm_turn where
  "sample_turn = \<lparr>lt_text = ''Hi'', lt_prompt = ''Hi'', lt_context = [], lt_summary = [], lt_note = [], lt_interrupted = []\<rparr>"

theorem agent_reply_is_spoken_witness:
  "ar_sentences (agent_chat (\<lambda>_. Absent) sample_service sample_agent sample_turn) = [''Hello there.'', ''How are you?''] \<and>
   spoken_chars (concat [''Hello there.'', ''How are you?'']) =
     spoken_chars (ar_text (agent_chat (\<lambda>_. Absent) sample_service sample_agent sample_turn))"
proof -
  have "ar_error (agent_chat (\<lambda>_. Absent) sample_service sample_agent sample_turn) = None" by code_simp
  moreover have "ar_sentences (agent_chat (\<lambda>_. Absent) sample_service sample_agent sample_turn) = [''Hello there.'', ''How are you?'']"
    by code_simp
  ultimately show ?thesis using agent_reply_is_spoken [OF refl] by metis
qed

section \<open>Observations\<close>

text \<open>One byte that is not UTF-8 holds back all text after it until the reply ends.\<close>

lemma bad_byte_silences_the_stream:
  "run_chunks text_read [] [[CHR 0xFF], ''All of this.'', ''And this.''] = ([CHR 0xFF] @ ''All of this.And this.'', [])"
  by code_simp

end
