(* ===== verification/Resampler.thy ===== *)
theory Resampler
  imports Speech_Output
begin

text \<open>
  The 24 kHz to 16 kHz conversion: \<open>resample24kTo16k\<close> and its kernel in
  \<open>internal/tts/speechify.go\<close>, and the streaming version of \<open>resample_stream.go\<close>, which
  keeps the input a later output still needs. \<open>float64\<close> is \<open>real\<close>. Both versions add the
  same products in the same order. Counts and positions are natural numbers; where the code
  clamps a negative position to 0, the difference of natural numbers is 0 already.
\<close>

section \<open>The kernel\<close>

function bessel_loop :: "real \<Rightarrow> nat \<Rightarrow> real \<Rightarrow> real \<Rightarrow> real" where
  "bessel_loop x k acc term =
     (if k < 64
      then let q = x / (2 * real k);
               term = term * (q * q);
               acc = acc + term
           in if term < 1 / 10 ^ 16 * acc then acc else bessel_loop x (k + 1) acc term
      else acc)"
  by pat_completeness auto

termination bessel_loop
  by (relation "measure (\<lambda>(x, k, acc, term). 64 - k)") auto

declare bessel_loop.simps [simp del]

definition bessel_i0 :: "real \<Rightarrow> real" where
  "bessel_i0 x = bessel_loop x 1 1 1"

definition resample_taps :: nat where "resample_taps = 193"
definition resample_cutoff :: real where "resample_cutoff = 7200"
definition resample_beta :: real where "resample_beta = 8"
definition resample_source_rate :: real where "resample_source_rate = 24000"

definition windowed_sinc :: "nat \<Rightarrow> real" where
  "windowed_sinc i =
     (let mid = real (resample_taps - 1) / 2;
          fc = resample_cutoff / (resample_source_rate * 2);
          t = real i - mid;
          sinc = (if t \<noteq> 0 then sin (2 * pi * fc * t) / (pi * t) else 2 * fc);
          r = 2 * real i / real (resample_taps - 1) - 1;
          window = bessel_i0 (resample_beta * sqrt (max 0 (1 - r * r))) / bessel_i0 resample_beta
      in sinc * window)"

definition resample_kernel :: "real list" where
  "resample_kernel =
     (let h = map windowed_sinc [0..<resample_taps]
      in map (\<lambda>v. v * (2 / sum_list h)) h)"

section \<open>One output sample\<close>

definition resample_up :: nat where "resample_up = 2"
definition resample_down :: nat where "resample_down = 3"

definition go_round :: "real \<Rightarrow> int" where
  "go_round x = (if x < 0 then - \<lfloor>1 / 2 - x\<rfloor> else \<lfloor>x + 1 / 2\<rfloor>)"

definition quantise :: "real \<Rightarrow> 16 word" where
  "quantise acc =
     (let v = go_round acc;
          v = (if v > 32767 then 32767 else if v < -32768 then -32768 else v)
      in word_of_int v)"

definition filter_sum :: "real list \<Rightarrow> (nat \<Rightarrow> real) \<Rightarrow> nat \<Rightarrow> nat \<Rightarrow> nat \<Rightarrow> real" where
  "filter_sum h x center lo hi =
     fold (\<lambda>i acc. if i * resample_up \<le> center \<and> center - i * resample_up < length h
                   then acc + x i * h ! (center - i * resample_up) else acc) [lo..<Suc hi] 0"

definition out_count :: "nat \<Rightarrow> nat" where
  "out_count n = (n * resample_up + resample_down - 1) div resample_down"

definition center_of :: "real list \<Rightarrow> nat \<Rightarrow> nat" where
  "center_of h m = m * resample_down + (length h - 1) div 2"

definition window_lo :: "real list \<Rightarrow> nat \<Rightarrow> nat" where
  "window_lo h center = (center + 1 - length h) div resample_up"

definition sample_values :: "byte list \<Rightarrow> real list" where
  "sample_values bytes = map (\<lambda>s. real_of_int (sint s)) (linear16_to_pcm bytes)"

text \<open>The whole utterance at once.\<close>

definition resample_24k_to_16k :: "real list \<Rightarrow> byte list \<Rightarrow> byte list" where
  "resample_24k_to_16k h bytes =
     (let n = length bytes div 2; x = sample_values bytes in
      if n = 0 then []
      else concat (map (\<lambda>m. let center = center_of h m;
                                 lo = window_lo h center;
                                 hi = center div resample_up;
                                 hi = (if hi > n - 1 then n - 1 else hi)
                             in put_uint16 (quantise (filter_sum h (\<lambda>i. x ! i) center lo hi)))
             [0..<out_count n]))"

section \<open>The stream\<close>

record resampler =
  rs_hist :: "real list"
  rs_base :: nat
  rs_m :: nat
  rs_n :: nat
  rs_carry :: byte
  rs_has_carry :: bool

definition new_resampler :: resampler where
  "new_resampler = \<lparr>rs_hist = [], rs_base = 0, rs_m = 0, rs_n = 0, rs_carry = 0, rs_has_carry = False\<rparr>"

definition trim_history :: "real list \<Rightarrow> resampler \<Rightarrow> resampler" where
  "trim_history h r =
     (let keep_from = window_lo h (center_of h (rs_m r)) in
      if keep_from \<le> rs_base r then r
      else let dr = keep_from - rs_base r in
           if dr < length (rs_hist r) then r\<lparr>rs_hist := List.drop dr (rs_hist r), rs_base := keep_from\<rparr> else r)"

function emit_loop :: "real list \<Rightarrow> resampler \<Rightarrow> bool \<Rightarrow> nat \<Rightarrow> nat \<times> byte list" where
  "emit_loop h r final m =
     (let last = rs_base r + length (rs_hist r) - 1 in
      if final \<and> out_count (rs_n r) \<le> m then (m, [])
      else let center = center_of h m; hi = center div resample_up in
           if hi > last \<and> \<not> final then (m, [])
           else let hi = (if hi > last then last else hi);
                    lo = window_lo h center;
                    lo = (if lo < rs_base r then rs_base r else lo);
                    s = quantise (filter_sum h (\<lambda>i. rs_hist r ! (i - rs_base r)) center lo hi)
                in (case emit_loop h r final (m + 1) of (m', out) \<Rightarrow> (m', put_uint16 s @ out)))"
  by pat_completeness auto

termination emit_loop
proof (relation "measure (\<lambda>(h, r, final, m).
    if final then out_count (rs_n r) - m else Suc (rs_base r + length (rs_hist r)) - center_of h m div resample_up)", goal_cases)
  case 1
  then show ?case by simp
next
  case (2 h r final m last center hi hi' lo lo' s)
  have "center_of h m div resample_up < center_of h (m + 1) div resample_up"
    by (simp add: center_of_def resample_up_def resample_down_def)
  with 2 show ?case by (cases final) (auto simp: not_le)
qed

declare emit_loop.simps [simp del]

definition emit :: "real list \<Rightarrow> bool \<Rightarrow> resampler \<Rightarrow> resampler \<times> byte list" where
  "emit h final r =
     (if rs_hist r = [] then (r, [])
      else case emit_loop h r final (rs_m r) of (m, out) \<Rightarrow> (trim_history h (r\<lparr>rs_m := m\<rparr>), out))"

definition add_samples :: "real list \<Rightarrow> resampler \<Rightarrow> resampler" where
  "add_samples xs r = r\<lparr>rs_hist := rs_hist r @ xs, rs_n := rs_n r + length xs\<rparr>"

definition rs_write :: "real list \<Rightarrow> resampler \<Rightarrow> byte list \<Rightarrow> resampler \<times> byte list" where
  "rs_write h r bytes =
     (let (r, rest) = (if rs_has_carry r \<and> bytes \<noteq> []
                       then ((add_samples (sample_values [rs_carry r, hd bytes]) r)\<lparr>rs_has_carry := False\<rparr>, tl bytes)
                       else (r, bytes));
          r = add_samples (sample_values rest) r;
          r = (if length rest mod 2 = 1 then r\<lparr>rs_carry := last rest, rs_has_carry := True\<rparr> else r)
      in emit h False r)"

definition rs_flush :: "real list \<Rightarrow> resampler \<Rightarrow> resampler \<times> byte list" where
  "rs_flush h r = (case emit h True r of (r, out) \<Rightarrow>
     (r\<lparr>rs_hist := [], rs_base := 0, rs_m := 0, rs_n := 0, rs_carry := 0, rs_has_carry := False\<rparr>, out))"

text \<open>An utterance as the MiMo client plays it: every chunk written, the tail flushed.\<close>

fun write_all :: "real list \<Rightarrow> resampler \<Rightarrow> byte list list \<Rightarrow> resampler \<times> byte list" where
  "write_all h r [] = (r, [])"
| "write_all h r (c # cs) =
     (case rs_write h r c of (r1, out) \<Rightarrow> case write_all h r1 cs of (r2, out') \<Rightarrow> (r2, out @ out'))"

definition resample_stream :: "real list \<Rightarrow> byte list list \<Rightarrow> byte list" where
  "resample_stream h chunks =
     (case write_all h new_resampler chunks of (r, out) \<Rightarrow> out @ snd (rs_flush h r))"

section \<open>What the stream still needs\<close>

text \<open>Output \<open>m\<close> of the utterance \<open>x\<close>, as the one-shot version computes it.\<close>

definition ideal :: "real list \<Rightarrow> real list \<Rightarrow> nat \<Rightarrow> 16 word" where
  "ideal h x m =
     (let center = center_of h m
      in quantise (filter_sum h (\<lambda>i. x ! i) center (window_lo h center) (min (center div resample_up) (length x - 1))))"

definition outputs :: "real list \<Rightarrow> real list \<Rightarrow> nat \<Rightarrow> nat \<Rightarrow> byte list" where
  "outputs h x m k = concat (map (\<lambda>i. put_uint16 (ideal h x i)) [m..<k])"

lemma outputs_Cons: "m < k \<Longrightarrow> outputs h x m k = put_uint16 (ideal h x m) @ outputs h x (Suc m) k"
  by (simp add: outputs_def upt_conv_Cons)

lemma outputs_same [simp]: "outputs h x m m = []"
  by (simp add: outputs_def)

lemma outputs_join: "m \<le> k \<Longrightarrow> k \<le> l \<Longrightarrow> outputs h x m k @ outputs h x k l = outputs h x m l"
proof -
  assume "m \<le> k" "k \<le> l"
  then have "[m..<k] @ [k..<l] = [m..<l]" by (metis le_add_diff_inverse upt_add_eq_append)
  then show ?thesis unfolding outputs_def by (metis concat_append map_append)
qed

lemma min_if: "min (a :: nat) b = (if a > b then b else a)"
  by auto

lemma resample_outputs:
  "resample_24k_to_16k h bytes =
     (if length bytes div 2 = 0 then [] else outputs h (sample_values bytes) 0 (out_count (length bytes div 2)))"
proof -
  have "length (linear16_to_pcm bytes) = length bytes div 2"
    by (induction bytes rule: linear16_to_pcm.induct) auto
  then show ?thesis
    by (simp add: resample_24k_to_16k_def outputs_def ideal_def Let_def sample_values_def min_if del: One_nat_def)
qed

lemma filter_sum_cong:
  "(\<And>i. lo \<le> i \<Longrightarrow> i \<le> hi \<Longrightarrow> x i = y i) \<Longrightarrow> filter_sum h x center lo hi = filter_sum h y center lo hi"
  unfolding filter_sum_def by (rule fold_cong) (auto simp del: upt_Suc)

definition ready :: "real list \<Rightarrow> nat \<Rightarrow> nat \<Rightarrow> bool" where
  "ready h n m \<longleftrightarrow> center_of h m div resample_up < n"

lemma ready_count: "ready h n m \<Longrightarrow> m < out_count n"
  unfolding ready_def center_of_def out_count_def resample_up_def resample_down_def by linarith

lemma ideal_append:
  assumes "ready h (length x) m"
  shows "ideal h (x @ y) m = ideal h x m"
  using assms by (auto simp: ideal_def ready_def Let_def nth_append min_def intro!: arg_cong [of _ _ quantise] filter_sum_cong)

definition follows :: "real list \<Rightarrow> real list \<Rightarrow> resampler \<Rightarrow> bool" where
  "follows h x r \<longleftrightarrow>
     rs_n r = length x \<and> rs_base r \<le> length x \<and> rs_hist r = drop (rs_base r) x \<and> (x \<noteq> [] \<longrightarrow> rs_base r < length x) \<and>
     rs_base r \<le> window_lo h (center_of h (rs_m r)) \<and> (\<forall>m < rs_m r. ready h (length x) m)"

lemma window_lo_mono: "m \<le> k \<Longrightarrow> window_lo h (center_of h m) \<le> window_lo h (center_of h k)"
  by (simp add: window_lo_def center_of_def resample_down_def div_le_mono diff_le_mono)

lemma ready_mono: "ready h n k \<Longrightarrow> m \<le> k \<Longrightarrow> ready h n m"
proof -
  assume "ready h n k" "m \<le> k"
  then have "center_of h m div resample_up \<le> center_of h k div resample_up"
    by (simp add: center_of_def resample_down_def div_le_mono)
  with \<open>ready h n k\<close> show ?thesis by (simp add: ready_def)
qed

text \<open>One pass of the loop computes the ideal output from the history.\<close>

lemma emit_loop_spec:
  "rs_n r = length x \<Longrightarrow> rs_base r < length x \<Longrightarrow> rs_hist r = drop (rs_base r) x \<Longrightarrow>
   rs_base r \<le> window_lo h (center_of h m) \<Longrightarrow> emit_loop h r final m = (m', out) \<Longrightarrow>
   m \<le> m' \<and> out = outputs h x m m' \<and>
   (if final then m' = max m (out_count (length x)) else \<forall>k. m \<le> k \<longrightarrow> k < m' \<longrightarrow> ready h (length x) k)"
proof (induction h r final m arbitrary: m' out rule: emit_loop.induct)
  case (1 h r final m)
  let ?c = "center_of h m"
  let ?last = "rs_base r + length (rs_hist r) - 1"
  let ?hi = "if ?c div resample_up > ?last then ?last else ?c div resample_up"
  have last: "?last = length x - 1" using "1.prems"(1-3) by simp
  let ?stop = "(final \<and> out_count (rs_n r) \<le> m) \<or> (?c div resample_up > ?last \<and> \<not> final)"
  show ?case
  proof (cases ?stop)
    case True
    then have "emit_loop h r final m = (m, [])" by (subst emit_loop.simps) (auto simp: Let_def)
    with True "1.prems" show ?thesis by (auto simp: max_def)
  next
    case False
    let ?s = "quantise (filter_sum h (\<lambda>i. rs_hist r ! (i - rs_base r)) ?c (window_lo h ?c) ?hi)"
    obtain m1 out1 where e: "emit_loop h r final (m + 1) = (m1, out1)" by fastforce
    have "emit_loop h r final m = (m1, put_uint16 ?s @ out1)"
      using False "1.prems"(4) e by (subst emit_loop.simps) (auto simp: Let_def not_less)
    with "1.prems"(5) have m': "m' = m1" "out = put_uint16 ?s @ out1" by auto
    have "rs_base r \<le> window_lo h (center_of h (m + 1))"
      using "1.prems"(4) window_lo_mono [of m "m + 1" h] by simp
    with "1.IH" [OF refl _ refl refl _ refl refl refl refl "1.prems"(1-3), of m1 out1] e False have ih:
      "m + 1 \<le> m1 \<and> out1 = outputs h x (m + 1) m1 \<and>
       (if final then m1 = max (m + 1) (out_count (length x)) else \<forall>k. m + 1 \<le> k \<longrightarrow> k < m1 \<longrightarrow> ready h (length x) k)"
      by simp
    have "?s = ideal h x m"
      using "1.prems"(2-4) by (auto simp: ideal_def Let_def min_def intro!: arg_cong [of _ _ quantise] filter_sum_cong)
    with ih m' have "out = outputs h x m m'" by (simp add: outputs_Cons)
    moreover have "\<not> final \<Longrightarrow> ready h (length x) m"
      using False last "1.prems"(2) by (auto simp: ready_def)
    moreover have "\<not> final \<Longrightarrow> \<forall>k. m \<le> k \<longrightarrow> k < m1 \<longrightarrow> ready h (length x) k"
      using calculation(2) ih by (metis Suc_eq_plus1 le_less Suc_leI)
    ultimately show ?thesis using ih m' False "1.prems"(1) by auto
  qed
qed

lemma emit_follows:
  assumes "follows h x r" and "\<not> final" and "emit h final r = (r', out)"
  shows "follows h x r' \<and> rs_m r \<le> rs_m r' \<and> out = outputs h x (rs_m r) (rs_m r') \<and>
    rs_carry r' = rs_carry r \<and> rs_has_carry r' = rs_has_carry r"
proof (cases "rs_hist r = []")
  case True
  with assms show ?thesis by (auto simp: emit_def)
next
  case False
  obtain m where e: "emit_loop h r final (rs_m r) = (m, out)" and r': "r' = trim_history h (r\<lparr>rs_m := m\<rparr>)"
    using assms(3) False by (auto simp: emit_def split: prod.splits)
  have f: "rs_n r = length x" "rs_base r < length x" "rs_hist r = drop (rs_base r) x"
    "rs_base r \<le> window_lo h (center_of h (rs_m r))" "\<And>k. k < rs_m r \<Longrightarrow> ready h (length x) k"
    using assms(1) False by (auto simp: follows_def)
  from emit_loop_spec [OF f(1-4) e] assms(2) have m: "rs_m r \<le> m" "out = outputs h x (rs_m r) m"
    "\<And>k. rs_m r \<le> k \<Longrightarrow> k < m \<Longrightarrow> ready h (length x) k" by auto
  have "rs_base r \<le> window_lo h (center_of h m)"
    using f(4) window_lo_mono [OF m(1)] by (rule order.trans)
  moreover have "ready h (length x) k" if "k < m" for k
    using that f(5) m(3) by (cases "k < rs_m r") auto
  ultimately show ?thesis
    using f m(1,2) by (auto simp: r' trim_history_def Let_def follows_def)
qed

lemma add_samples_follows: "follows h x r \<Longrightarrow> follows h (x @ y) (add_samples y r) \<and> rs_m (add_samples y r) = rs_m r"
  by (auto simp: follows_def add_samples_def ready_def)

lemma outputs_append:
  "(\<And>m. m < k \<Longrightarrow> ready h (length x) m) \<Longrightarrow> outputs h (x @ y) l k = outputs h x l k"
  by (auto simp: outputs_def ideal_append intro!: arg_cong [of _ _ concat])

section \<open>The stream produces the whole utterance\<close>

text \<open>After some chunks: the bytes so far are the samples the stream follows and the carried
  byte, and what it has put out are the ideal outputs up to its position.\<close>

lemma follows_carry [simp]:
  "follows h x (r\<lparr>rs_has_carry := b\<rparr>) = follows h x r" "follows h x (r\<lparr>rs_carry := c\<rparr>) = follows h x r"
  by (simp_all add: follows_def)

definition carry_bytes :: "resampler \<Rightarrow> byte list" where
  "carry_bytes r = (if rs_has_carry r then [rs_carry r] else [])"

lemma sample_values_append: "even (length a) \<Longrightarrow> sample_values (a @ b) = sample_values a @ sample_values b"
  by (simp add: sample_values_def linear16_append)

lemma sample_values_odd: "even (length a) \<Longrightarrow> sample_values (a @ [b]) = sample_values a"
  by (simp add: sample_values_def linear16_odd_tail)

lemma rs_write_follows:
  assumes "follows h (sample_values a) r" and "even (length a)" and "rs_write h r bytes = (r', out)"
  shows "\<exists>d. follows h (sample_values (a @ d)) r' \<and> even (length d) \<and> carry_bytes r @ bytes = d @ carry_bytes r' \<and>
    rs_m r \<le> rs_m r' \<and> out = outputs h (sample_values (a @ d)) (rs_m r) (rs_m r')"
proof -
  define pre where "pre = (if rs_has_carry r \<and> bytes \<noteq> [] then [rs_carry r, hd bytes] else [])"
  define rest where "rest = (if rs_has_carry r \<and> bytes \<noteq> [] then tl bytes else bytes)"
  define body where "body = (if odd (length rest) then butlast rest else rest)"
  define r0 where "r0 = (if rs_has_carry r \<and> bytes \<noteq> [] then (add_samples (sample_values pre) r)\<lparr>rs_has_carry := False\<rparr> else r)"
  define r1 where "r1 = add_samples (sample_values rest) r0"
  define r2 where "r2 = (if odd (length rest) then r1\<lparr>rs_carry := last rest, rs_has_carry := True\<rparr> else r1)"
  have "emit h False r2 = (r', out)"
    using assms(3) by (auto simp: rs_write_def r2_def r1_def r0_def rest_def pre_def odd_iff_mod_2_eq_one Let_def)
  let ?b = "a @ pre @ body"
  have ev: "even (length pre)" "even (length body)" by (auto simp: pre_def body_def)
  have body: "rest = body @ (if odd (length rest) then [last rest] else [])"
    unfolding body_def by (cases "rest = []") simp_all
  have rest: "sample_values rest = sample_values body"
    by (subst body) (simp add: sample_values_odd [OF ev(2)])
  have "follows h (sample_values (a @ pre)) r0 \<and> rs_m r0 = rs_m r"
  proof (cases "rs_has_carry r \<and> bytes \<noteq> []")
    case True
    then have "r0 = (add_samples (sample_values pre) r)\<lparr>rs_has_carry := False\<rparr>" by (simp add: r0_def)
    then show ?thesis
      using add_samples_follows [OF assms(1), of "sample_values pre"] by (simp add: sample_values_append [OF assms(2)])
  next
    case False
    then have "pre = []" "r0 = r" by (auto simp: pre_def r0_def)
    then show ?thesis using assms(1) by simp
  qed
  then have "follows h (sample_values ?b) r1 \<and> rs_m r1 = rs_m r"
    using add_samples_follows [of h "sample_values (a @ pre)" r0 "sample_values body"] assms(2) ev
    by (simp add: r1_def rest sample_values_append flip: append_assoc)
  then have r2: "follows h (sample_values ?b) r2" "rs_m r2 = rs_m r"
    by (simp_all add: r2_def)
  from emit_follows [OF r2(1) _ \<open>emit h False r2 = (r', out)\<close>] r2(2) have
    f: "follows h (sample_values ?b) r'" "rs_m r \<le> rs_m r'" "out = outputs h (sample_values ?b) (rs_m r) (rs_m r')"
      "carry_bytes r' = carry_bytes r2"
    by (simp_all add: carry_bytes_def)
  have "carry_bytes r @ bytes = pre @ rest @ (if bytes = [] then carry_bytes r else [])"
    by (cases bytes) (auto simp: carry_bytes_def pre_def rest_def)
  moreover have "carry_bytes r2 = (if odd (length rest) then [last rest] else if bytes = [] then carry_bytes r else [])"
    by (auto simp: carry_bytes_def r2_def r1_def r0_def add_samples_def)
  moreover have "odd (length rest) \<Longrightarrow> bytes \<noteq> []" by (auto simp: rest_def split: if_splits)
  ultimately have "carry_bytes r @ bytes = (pre @ body) @ carry_bytes r2"
    by (subst (asm) body) (simp split: if_splits)
  with f ev show ?thesis by (intro exI [of _ "pre @ body"]) simp
qed

lemma write_all_follows:
  "follows h (sample_values a) r \<Longrightarrow> even (length a) \<Longrightarrow> write_all h r cs = (r', out) \<Longrightarrow>
   \<exists>d. follows h (sample_values (a @ d)) r' \<and> even (length d) \<and> carry_bytes r @ concat cs = d @ carry_bytes r' \<and>
     rs_m r \<le> rs_m r' \<and> out = outputs h (sample_values (a @ d)) (rs_m r) (rs_m r')"
proof (induction cs arbitrary: a r out)
  case Nil
  then show ?case by (intro exI [of _ "[]"]) simp
next
  case (Cons c cs)
  obtain r1 o1 where w: "rs_write h r c = (r1, o1)" by fastforce
  obtain o2 where rest: "write_all h r1 cs = (r', o2)" and out: "out = o1 @ o2"
    using Cons.prems(3) w by (auto split: prod.splits)
  from rs_write_follows [OF Cons.prems(1,2) w] obtain d where d:
    "follows h (sample_values (a @ d)) r1" "even (length d)" "carry_bytes r @ c = d @ carry_bytes r1"
    "rs_m r \<le> rs_m r1" "o1 = outputs h (sample_values (a @ d)) (rs_m r) (rs_m r1)" by blast
  have "even (length (a @ d))" using Cons.prems(2) d(2) by simp
  from Cons.IH [OF d(1) this rest] obtain e where e:
    "follows h (sample_values (a @ d @ e)) r'" "even (length e)" "carry_bytes r1 @ concat cs = e @ carry_bytes r'"
    "rs_m r1 \<le> rs_m r'" "o2 = outputs h (sample_values (a @ d @ e)) (rs_m r1) (rs_m r')" by auto
  have "sample_values (a @ d @ e) = sample_values (a @ d) @ sample_values e"
    using \<open>even (length (a @ d))\<close> by (metis append.assoc sample_values_append)
  moreover have "ready h (length (sample_values (a @ d))) m" if "m < rs_m r1" for m
    using d(1) that by (simp add: follows_def)
  ultimately have "o1 = outputs h (sample_values (a @ d @ e)) (rs_m r) (rs_m r1)"
    using d(5) by (simp add: outputs_append)
  then have "out = outputs h (sample_values (a @ d @ e)) (rs_m r) (rs_m r')"
    using out e(5) outputs_join [OF d(4) e(4)] by simp
  moreover have "carry_bytes r @ concat (c # cs) = (d @ e) @ carry_bytes r'"
    using d(3) e(3) by (metis append.assoc concat.simps(2))
  ultimately show ?case using e d by (intro exI [of _ "d @ e"]) simp
qed

lemma length_sample_values: "length (sample_values bytes) = length bytes div 2"
  unfolding sample_values_def by (induction bytes rule: linear16_to_pcm.induct) auto

text \<open>C11: Streaming changes nothing: for any kernel and however the provider cut the utterance, odd
  chunks included, the bytes written chunk by chunk and then flushed are those of converting the
  whole utterance at once.\<close>

theorem streaming_equals_one_shot:
  "resample_stream h chunks = resample_24k_to_16k h (concat chunks)"
proof -
  obtain r out where w: "write_all h new_resampler chunks = (r, out)" by fastforce
  have "follows h (sample_values []) new_resampler"
    by (simp add: follows_def new_resampler_def sample_values_def)
  from write_all_follows [OF this _ w] obtain b where b:
    "follows h (sample_values b) r" "even (length b)" "concat chunks = b @ carry_bytes r"
    "out = outputs h (sample_values b) 0 (rs_m r)"
    by (auto simp: new_resampler_def carry_bytes_def)
  let ?x = "sample_values b" and ?n = "length b div 2"
  have x: "sample_values (concat chunks) = ?x" "length (concat chunks) div 2 = ?n"
    using b(2,3) by (auto simp: carry_bytes_def sample_values_odd)
  show ?thesis
  proof (cases "?n = 0")
    case True
    then have "b = []" using b(2) by auto
    then have "rs_hist r = []" "rs_m r = 0"
      using b(1) by (auto simp: follows_def ready_def sample_values_def)
    then show ?thesis
      using True x b(4) w by (simp add: resample_outputs resample_stream_def rs_flush_def emit_def)
  next
    case False
    then have f: "rs_n r = length ?x" "rs_base r < length ?x" "rs_hist r = drop (rs_base r) ?x"
      "rs_base r \<le> window_lo h (center_of h (rs_m r))" "\<And>m. m < rs_m r \<Longrightarrow> ready h (length ?x) m"
      using b(1) length_sample_values [of b] by (auto simp: follows_def)
    obtain m out' where e: "emit_loop h r True (rs_m r) = (m, out')" by fastforce
    have "rs_m r \<le> out_count (length ?x)"
      using f(5) [of "rs_m r - 1"] ready_count by (cases "rs_m r") fastforce+
    with emit_loop_spec [OF f(1-4) e] have "out' = outputs h ?x (rs_m r) (out_count ?n)"
      by (simp add: length_sample_values max_def)
    moreover have "snd (rs_flush h r) = out'"
      using f(2,3) e by (simp add: rs_flush_def emit_def)
    ultimately show ?thesis
      using False x b(4) w outputs_join [of 0 "rs_m r" "out_count ?n" h ?x] \<open>rs_m r \<le> out_count (length ?x)\<close>
      by (simp add: resample_outputs resample_stream_def length_sample_values)
  qed
qed

end
