(* ===== verification/Voice_Detection.thy ===== *)
theory Voice_Detection
  imports Complex_Main Go_Prelude
begin

text \<open>
  \<open>internal/vad/vad.go\<close> and \<open>echo.go\<close>: the energy detector behind turn taking and
  barge-in, and the reference that keeps it from hearing the agent's own voice.

  A PCM frame is a list of 16-bit words; \<open>float64\<close> is \<open>real\<close>, so rounding is not
  modelled. The guard's ring is kept with its buffer, start and count, and related to the
  window of recent frames it stands for. The detector and the sender share one guard, so
  \<open>process\<close> takes it and returns it; the instant of \<open>g.now()\<close> is an argument.
\<close>

section \<open>The echo reference\<close>

record echo_sample =
  es_at :: instant
  es_rms :: real

record echo_guard =
  eg_window :: duration
  eg_gain :: real
  eg_margin :: real
  eg_buf :: "echo_sample list"
  eg_start :: nat
  eg_count :: nat

definition rms_energy :: "16 word list \<Rightarrow> real" where
  "rms_energy samples =
     (if samples = [] then 0
      else sqrt (sum_list (map (\<lambda>s. real_of_int (sint s) * real_of_int (sint s)) samples) / real (length samples)))"

definition default_echo_window :: duration where "default_echo_window = 400 * millisecond"
definition default_echo_gain :: real where "default_echo_gain = 6 / 10"
definition default_echo_margin :: real where "default_echo_margin = 18 / 10"

definition new_echo_guard :: "duration \<Rightarrow> real \<Rightarrow> real \<Rightarrow> echo_guard" where
  "new_echo_guard window gain margin =
     (let w = (if window \<le> 0 then default_echo_window else window) in
      \<lparr>eg_window = w,
       eg_gain = (if gain \<le> 0 then default_echo_gain else gain),
       eg_margin = (if margin \<le> 0 then default_echo_margin else margin),
       eg_buf = replicate (nat (w div (5 * millisecond)) + 8) \<lparr>es_at = 0, es_rms = 0\<rparr>,
       eg_start = 0, eg_count = 0\<rparr>)"

function prune :: "instant \<Rightarrow> echo_guard \<Rightarrow> echo_guard" where
  "prune now g =
     (if 0 < eg_count g \<and> es_at (eg_buf g ! eg_start g) < now - eg_window g
      then prune now (g\<lparr>eg_start := (eg_start g + 1) mod length (eg_buf g), eg_count := eg_count g - 1\<rparr>)
      else g)"
  by pat_completeness auto

termination prune
  by (relation "measure (\<lambda>(now, g). eg_count g)") auto

declare prune.simps [simp del]

definition observe_frame :: "instant \<Rightarrow> 16 word list \<Rightarrow> echo_guard \<Rightarrow> echo_guard" where
  "observe_frame now samples g =
     (let rms = rms_energy samples;
          g = prune now g;
          g = (if eg_count g = length (eg_buf g)
               then g\<lparr>eg_start := (eg_start g + 1) mod length (eg_buf g), eg_count := eg_count g - 1\<rparr>
               else g)
      in g\<lparr>eg_buf := (eg_buf g)[(eg_start g + eg_count g) mod length (eg_buf g) := \<lparr>es_at = now, es_rms = rms\<rparr>],
           eg_count := eg_count g + 1\<rparr>)"

definition echo_peak :: "echo_guard \<Rightarrow> real" where
  "echo_peak g =
     fold (\<lambda>i peak. let v = es_rms (eg_buf g ! ((eg_start g + i) mod length (eg_buf g)))
                    in if v > peak then v else peak) [0..<eg_count g] 0"

definition echo_floor :: "instant \<Rightarrow> echo_guard \<Rightarrow> real \<times> echo_guard" where
  "echo_floor now g = (let g = prune now g in (echo_peak g * eg_gain g, g))"

definition echo_threshold :: "instant \<Rightarrow> echo_guard option \<Rightarrow> real \<times> echo_guard option" where
  "echo_threshold now guard =
     (case guard of
        None \<Rightarrow> (0, None)
      | Some g \<Rightarrow> (case echo_floor now g of (fl, g') \<Rightarrow> (fl * eg_margin g', Some g')))"

definition reset_echo :: "echo_guard \<Rightarrow> echo_guard" where
  "reset_echo g = g\<lparr>eg_start := 0, eg_count := 0\<rparr>"

section \<open>The detector\<close>

record detector =
  vd_threshold :: real
  vd_speech_frames :: int
  vd_silent_frames :: int
  vd_speaking :: bool
  vd_speech_count :: int
  vd_silent_count :: int
  vd_adaptive :: bool
  vd_noise_floor :: real

definition noise_floor_alpha :: real where "noise_floor_alpha = 5 / 100"
definition noise_floor_multiplier :: real where "noise_floor_multiplier = 3"
definition adaptive_min_threshold :: real where "adaptive_min_threshold = 900"
definition adaptive_max_factor :: real where "adaptive_max_factor = 25 / 10"

definition new_detector :: "real \<Rightarrow> int \<Rightarrow> int \<Rightarrow> detector" where
  "new_detector threshold speech silent =
     \<lparr>vd_threshold = threshold, vd_speech_frames = speech, vd_silent_frames = silent,
      vd_speaking = False, vd_speech_count = 0, vd_silent_count = 0,
      vd_adaptive = False, vd_noise_floor = -1\<rparr>"

definition new_default :: detector where
  "new_default = (new_detector 1200 10 15)\<lparr>vd_adaptive := True\<rparr>"

definition new_barge_in :: detector where
  "new_barge_in = (new_detector 1200 2 15)\<lparr>vd_adaptive := True\<rparr>"

definition noise_threshold :: "detector \<Rightarrow> real" where
  "noise_threshold d =
     (if \<not> vd_adaptive d \<or> vd_noise_floor d < 0 then vd_threshold d
      else let thr = vd_noise_floor d * noise_floor_multiplier;
               thr = (if thr < adaptive_min_threshold then adaptive_min_threshold else thr);
               max_thr = vd_threshold d * adaptive_max_factor
           in if thr > max_thr then max_thr else thr)"

definition effective_threshold :: "instant \<Rightarrow> echo_guard option \<Rightarrow> detector \<Rightarrow> real" where
  "effective_threshold now guard d =
     (let thr = noise_threshold d; echo = fst (echo_threshold now guard)
      in if echo > thr then echo else thr)"

definition update_noise_floor :: "real \<Rightarrow> detector \<Rightarrow> detector" where
  "update_noise_floor energy d =
     (if \<not> vd_adaptive d then d
      else if vd_noise_floor d < 0 then d\<lparr>vd_noise_floor := energy\<rparr>
      else d\<lparr>vd_noise_floor := (1 - noise_floor_alpha) * vd_noise_floor d + noise_floor_alpha * energy\<rparr>)"

definition process :: "instant \<Rightarrow> 16 word list \<Rightarrow> echo_guard option \<times> detector \<Rightarrow> (bool \<times> bool) \<times> echo_guard option \<times> detector" where
  "process now samples gd =
     (case gd of (guard, d) \<Rightarrow>
      let energy = rms_energy samples;
          (echo_thr, guard) = echo_threshold now guard;
          thr = noise_threshold d;
          thr = (if echo_thr > thr then echo_thr else thr)
      in if energy > thr
         then let d = d\<lparr>vd_speech_count := vd_speech_count d + 1, vd_silent_count := 0\<rparr>
              in if \<not> vd_speaking d \<and> vd_speech_frames d \<le> vd_speech_count d
                 then ((True, False), guard, d\<lparr>vd_speaking := True\<rparr>)
                 else ((False, False), guard, d)
         else let d = (if echo_thr = 0 then update_noise_floor energy d else d);
                  d = d\<lparr>vd_silent_count := vd_silent_count d + 1, vd_speech_count := 0\<rparr>
              in if vd_speaking d \<and> vd_silent_frames d \<le> vd_silent_count d
                 then ((False, True), guard, d\<lparr>vd_speaking := False\<rparr>)
                 else ((False, False), guard, d))"

definition reset_detector :: "detector \<Rightarrow> detector" where
  "reset_detector d = d\<lparr>vd_speaking := False, vd_speech_count := 0, vd_silent_count := 0\<rparr>"

section \<open>The ring is a window of recent frames\<close>

text \<open>What a ring holds, oldest frame first, and the operations on that window.\<close>

definition live :: "echo_guard \<Rightarrow> echo_sample list" where
  "live g = map (\<lambda>i. eg_buf g ! ((eg_start g + i) mod length (eg_buf g))) [0..<eg_count g]"

definition guard_ok :: "echo_guard \<Rightarrow> bool" where
  "guard_ok g \<longleftrightarrow> eg_buf g \<noteq> [] \<and> eg_start g < length (eg_buf g) \<and> eg_count g \<le> length (eg_buf g)"

definition recent :: "duration \<Rightarrow> instant \<Rightarrow> echo_sample list \<Rightarrow> echo_sample list" where
  "recent w now = dropWhile (\<lambda>e. es_at e < now - w)"

datatype echo_event = Sent instant "16 word list" | Heard instant | Reset_Guard

fun echo_step :: "echo_guard \<Rightarrow> echo_event \<Rightarrow> echo_guard" where
  "echo_step g (Sent now samples) = observe_frame now samples g"
| "echo_step g (Heard now) = snd (echo_floor now g)"
| "echo_step g Reset_Guard = reset_echo g"

text \<open>The specification: a window of frames, of bounded length.\<close>

record window =
  wi_span :: duration
  wi_room :: nat
  wi_frames :: "echo_sample list"

fun window_step :: "window \<Rightarrow> echo_event \<Rightarrow> window" where
  "window_step w (Sent now samples) =
     (let fs = recent (wi_span w) now (wi_frames w);
          fs = (if length fs = wi_room w then tl fs else fs)
      in w\<lparr>wi_frames := fs @ [\<lparr>es_at = now, es_rms = rms_energy samples\<rparr>]\<rparr>)"
| "window_step w (Heard now) = w\<lparr>wi_frames := recent (wi_span w) now (wi_frames w)\<rparr>"
| "window_step w Reset_Guard = w\<lparr>wi_frames := []\<rparr>"

definition as_window :: "echo_guard \<Rightarrow> window" where
  "as_window g = \<lparr>wi_span = eg_window g, wi_room = length (eg_buf g), wi_frames = live g\<rparr>"

definition drop_oldest :: "echo_guard \<Rightarrow> echo_guard" where
  "drop_oldest g = g\<lparr>eg_start := (eg_start g + 1) mod length (eg_buf g), eg_count := eg_count g - 1\<rparr>"

lemma length_live [simp]: "length (live g) = eg_count g"
  by (simp add: live_def)

lemma live_Cons:
  assumes "guard_ok g" and "0 < eg_count g"
  shows "live g = eg_buf g ! eg_start g # live (drop_oldest g)"
proof -
  obtain c where c: "eg_count g = Suc c" using assms(2) gr0_conv_Suc by blast
  have "(eg_start g + 1) mod n + i = eg_start g + Suc i \<or> ((eg_start g + 1) mod n + i) mod n = (eg_start g + Suc i) mod n" for n i
    by (simp add: mod_add_left_eq)
  then have "((eg_start g + 1) mod length (eg_buf g) + i) mod length (eg_buf g) = (eg_start g + Suc i) mod length (eg_buf g)" for i
    by (metis)
  with assms c show ?thesis
    by (simp add: live_def drop_oldest_def guard_ok_def upt_conv_Cons map_Suc_upt [symmetric] del: upt_Suc)
qed

lemma drop_oldest_ok: "guard_ok g \<Longrightarrow> guard_ok (drop_oldest g)"
  by (auto simp: guard_ok_def drop_oldest_def)

lemma prune_step: "prune now g = (if 0 < eg_count g \<and> es_at (eg_buf g ! eg_start g) < now - eg_window g then prune now (drop_oldest g) else g)"
  by (subst prune.simps) (simp add: drop_oldest_def)

lemma prune_keeps:
  "eg_buf (prune now g) = eg_buf g \<and> eg_window (prune now g) = eg_window g \<and>
   eg_gain (prune now g) = eg_gain g \<and> eg_margin (prune now g) = eg_margin g"
proof (induction now g rule: prune.induct)
  case (1 now g)
  then show ?case by (subst (1 2 3 4) prune_step) (auto simp: drop_oldest_def)
qed

lemma prune_live:
  "guard_ok g \<Longrightarrow> guard_ok (prune now g) \<and> live (prune now g) = recent (eg_window g) now (live g)"
proof (induction now g rule: prune.induct)
  case (1 now g)
  show ?case
  proof (cases "0 < eg_count g \<and> es_at (eg_buf g ! eg_start g) < now - eg_window g")
    case True
    then have "prune now g = prune now (drop_oldest g)" by (subst prune_step) simp
    moreover have "live g = eg_buf g ! eg_start g # live (drop_oldest g)"
      using live_Cons [OF 1(2)] True by simp
    moreover have "eg_window (drop_oldest g) = eg_window g" by (simp add: drop_oldest_def)
    ultimately show ?thesis
      using 1(1) [OF True] drop_oldest_ok [OF 1(2)] True by (simp add: recent_def drop_oldest_def)
  next
    case False
    then have p: "prune now g = g" by (subst prune_step) (simp only: if_False)
    have "recent (eg_window g) now (live g) = live g"
    proof (cases "eg_count g")
      case 0
      then show ?thesis by (simp add: live_def recent_def)
    next
      case (Suc c)
      then show ?thesis using live_Cons [OF 1(2)] False by (simp add: recent_def)
    qed
    with p 1(2) show ?thesis by simp
  qed
qed

lemma live_append:
  assumes "guard_ok g" and "eg_count g < length (eg_buf g)"
  shows "live (g\<lparr>eg_buf := (eg_buf g)[(eg_start g + eg_count g) mod length (eg_buf g) := e], eg_count := eg_count g + 1\<rparr>) = live g @ [e]"
proof -
  let ?n = "length (eg_buf g)"
  have "(eg_start g + eg_count g) mod ?n \<noteq> (eg_start g + i) mod ?n" if "i < eg_count g" for i
  proof
    assume "(eg_start g + eg_count g) mod ?n = (eg_start g + i) mod ?n"
    then have "(eg_count g - i) mod ?n = 0"
      using that by (metis add_diff_cancel_left less_imp_le_nat mod_eq_dvd_iff_nat mod_0_imp_dvd dvd_imp_mod_0 add_le_cancel_left)
    with that assms(2) show False by simp
  qed
  moreover have "0 < ?n" using assms by (simp add: guard_ok_def)
  ultimately show ?thesis by (simp add: live_def)
qed

lemma observe_live:
  assumes "guard_ok g"
  shows "guard_ok (observe_frame now samples g)" and "as_window (observe_frame now samples g) = window_step (as_window g) (Sent now samples)"
proof -
  define p where "p = prune now g"
  define q where "q = (if eg_count p = length (eg_buf p) then drop_oldest p else p)"
  have p: "guard_ok p" "live p = recent (eg_window g) now (live g)" "eg_buf p = eg_buf g" "eg_window p = eg_window g"
    using prune_live [OF assms] prune_keeps by (simp_all add: p_def)
  then have q: "guard_ok q" "eg_count q < length (eg_buf q)" "eg_buf q = eg_buf g" "eg_window q = eg_window g"
    by (auto simp: q_def drop_oldest_ok) (auto simp: drop_oldest_def guard_ok_def)
  have ql: "live q = (if length (live p) = length (eg_buf g) then tl (live p) else live p)"
    using live_Cons [OF p(1)] p(1,3) by (auto simp: q_def guard_ok_def)
  have o: "observe_frame now samples g = q\<lparr>eg_buf := (eg_buf q)[(eg_start q + eg_count q) mod length (eg_buf q) := \<lparr>es_at = now, es_rms = rms_energy samples\<rparr>], eg_count := eg_count q + 1\<rparr>"
    by (simp add: observe_frame_def p_def q_def Let_def drop_oldest_def)
  show "guard_ok (observe_frame now samples g)" using q by (simp add: o guard_ok_def)
  show "as_window (observe_frame now samples g) = window_step (as_window g) (Sent now samples)"
    using live_append [OF q(1,2)] q ql p by (simp add: o as_window_def Let_def)
qed

lemma echo_step_ok: "guard_ok g \<Longrightarrow> guard_ok (echo_step g e)"
  by (cases e) (simp_all add: observe_live echo_floor_def Let_def prune_live, simp add: guard_ok_def reset_echo_def)

interpretation echo_reference: implements echo_step guard_ok as_window window_step
proof unfold_locales
  fix g e assume "guard_ok g"
  then show "guard_ok (echo_step g e)" by (rule echo_step_ok)
  show "as_window (echo_step g e) = window_step (as_window g) e"
  proof (cases e)
    case (Sent now samples)
    then show ?thesis using observe_live(2) [OF \<open>guard_ok g\<close>] by simp
  next
    case (Heard now)
    then show ?thesis
      using prune_live [OF \<open>guard_ok g\<close>] prune_keeps by (simp add: echo_floor_def Let_def as_window_def)
  next
    case Reset_Guard
    then show ?thesis by (simp add: as_window_def reset_echo_def live_def)
  qed
qed

section \<open>The bound is the loudest recent frame\<close>

lemma fold_max_if: "fold (\<lambda>v peak. if v > peak then v else peak) vs (p :: real) = fold max vs p"
  by (induction vs arbitrary: p) (auto simp: max_def)

lemma echo_peak_live: "echo_peak g = Max (insert 0 (es_rms ` set (live g)))"
proof -
  have "echo_peak g = fold (\<lambda>v peak. if v > peak then v else peak) (map es_rms (live g)) 0"
    by (simp add: echo_peak_def live_def fold_map comp_def Let_def)
  also have "\<dots> = Max (set (0 # map es_rms (live g)))"
    by (simp only: fold_max_if Max.set_eq_fold)
  finally show ?thesis by simp
qed

lemma echo_threshold_live:
  assumes "guard_ok g"
  shows "fst (echo_threshold now (Some g)) =
    Max (insert 0 (es_rms ` set (recent (eg_window g) now (live g)))) * eg_gain g * eg_margin g"
  using prune_live [OF assms] prune_keeps
  by (simp add: echo_threshold_def echo_floor_def Let_def echo_peak_live split: prod.split)

abbreviation frame_gap :: duration where "frame_gap \<equiv> 5 * millisecond"

definition spaced :: "echo_sample list \<Rightarrow> bool" where
  "spaced = sorted_wrt (\<lambda>a b. es_at a + frame_gap \<le> es_at b)"

lemma spaced_span:
  "spaced (e # es) \<Longrightarrow> \<forall>x \<in> set (e # es). es_at x \<le> hi \<Longrightarrow> int (length es) * frame_gap \<le> hi - es_at e"
proof (induction es arbitrary: e)
  case (Cons x es)
  have "int (length es) * frame_gap \<le> hi - es_at x"
    by (rule Cons.IH) (use Cons.prems in \<open>simp_all add: spaced_def\<close>)
  moreover have "es_at e + frame_gap \<le> es_at x"
    using Cons.prems(1) by (simp add: spaced_def)
  ultimately show ?case by (simp add: algebra_simps)
qed simp

lemma recent_spaced: "spaced es \<Longrightarrow> spaced (recent w now es)"
  unfolding recent_def spaced_def by (metis sorted_wrt_append takeWhile_dropWhile_id)

lemma recent_set: "spaced es \<Longrightarrow> set (recent w now es) = {e \<in> set es. now - w \<le> es_at e}"
proof (induction es)
  case (Cons e es)
  then have later: "es_at e \<le> es_at x" if "x \<in> set es" for x
    using that by (fastforce simp: spaced_def)
  have "set (recent w now es) = {x \<in> set es. now - w \<le> es_at x}"
    using Cons by (simp add: spaced_def)
  with later show ?case by (cases "es_at e < now - w") (fastforce simp: recent_def)+
qed (simp add: recent_def)

lemma recent_recent: "t \<le> now \<Longrightarrow> recent w now (recent w t es) = recent w now es"
  unfolding recent_def by (induction es) auto

lemma recent_snoc: "0 < w \<Longrightarrow> recent w (es_at e) (es @ [e]) = recent w (es_at e) es @ [e]"
  unfolding recent_def by (induction es) auto

lemma recent_short:
  assumes "spaced (es @ [e])" and "0 < w"
  shows "length (recent w (es_at e) es) < nat (w div frame_gap) + 8"
proof (cases "recent w (es_at e) es")
  case (Cons x xs)
  have "spaced es" and before: "\<forall>y \<in> set es. es_at y + frame_gap \<le> es_at e"
    using assms(1) by (simp_all add: spaced_def sorted_wrt_append)
  then have mem: "set (x # xs) = {y \<in> set es. es_at e - w \<le> es_at y}" and sp: "spaced (x # xs)"
    using recent_set recent_spaced Cons by metis+
  have "\<forall>y \<in> set (x # xs). es_at y \<le> es_at e - frame_gap"
    using mem before by fastforce
  note spaced_span [OF sp this]
  moreover have "es_at e - w \<le> es_at x" using mem by (metis (mono_tags, lifting) list.set_intros(1) mem_Collect_eq)
  ultimately have "int (length xs) * frame_gap \<le> w" by linarith
  then have "int (length xs) * frame_gap div frame_gap \<le> w div frame_gap" by (rule zdiv_mono1) simp
  then have "int (length xs) \<le> w div frame_gap" by simp
  with Cons show ?thesis by simp
qed simp

abbreviation sample_of :: "instant \<times> 16 word list \<Rightarrow> echo_sample" where
  "sample_of f \<equiv> \<lparr>es_at = fst f, es_rms = rms_energy (snd f)\<rparr>"

abbreviation sent :: "(instant \<times> 16 word list) list \<Rightarrow> echo_event list" where
  "sent frames \<equiv> map (\<lambda>f. Sent (fst f) (snd f)) frames"

lemma window_after:
  assumes "spaced (map sample_of frames)" and "0 < wi_span w" and "wi_frames w = []"
    and "wi_room w = nat (wi_span w div frame_gap) + 8"
  shows "fold (\<lambda>e w. window_step w e) (sent frames) w =
     w\<lparr>wi_frames := (if frames = [] then [] else recent (wi_span w) (fst (last frames)) (map sample_of frames))\<rparr>"
  using assms(1)
proof (induction frames rule: rev_induct)
  case Nil
  then show ?case using assms(3) by simp
next
  case (snoc f frames)
  let ?es = "map sample_of frames"
  have sp: "spaced (?es @ [sample_of f])" and "spaced ?es"
    using snoc.prems by (simp_all add: spaced_def sorted_wrt_append)
  then have le: "frames \<noteq> [] \<Longrightarrow> fst (last frames) \<le> fst f"
    by (auto simp: spaced_def sorted_wrt_append dest!: bspec [OF _ last_in_set])
  have r: "recent (wi_span w) (fst f) (if frames = [] then [] else recent (wi_span w) (fst (last frames)) ?es) = recent (wi_span w) (fst f) ?es"
    using le by (cases "frames = []") (simp_all add: recent_recent)
  have "length (recent (wi_span w) (fst f) ?es) < wi_room w"
    using recent_short [OF sp assms(2)] assms(4) by simp
  then show ?case
    using snoc.IH [OF \<open>spaced ?es\<close>] recent_snoc [OF assms(2), of "sample_of f" ?es] r by (simp add: Let_def)
qed

lemma new_echo_guard_ok:
  fixes window :: duration and gain margin :: real
  defines "g \<equiv> new_echo_guard window gain margin"
  shows "guard_ok g" and "0 < eg_window g" and "0 < eg_gain g" and "0 < eg_margin g" and "live g = []"
    and "length (eg_buf g) = nat (eg_window g div frame_gap) + 8"
  by (auto simp: g_def new_echo_guard_def guard_ok_def live_def Let_def default_echo_window_def default_echo_gain_def default_echo_margin_def)

abbreviation send_all :: "(instant \<times> 16 word list) list \<Rightarrow> echo_guard \<Rightarrow> echo_guard" where
  "send_all frames \<equiv> fold (\<lambda>f g. observe_frame (fst f) (snd f) g) frames"

lemma send_all_step: "send_all frames g = fold (\<lambda>e g. echo_step g e) (sent frames) g"
  by (simp add: fold_map comp_def)

lemma send_all_keeps: "eg_gain (send_all frames g) = eg_gain g \<and> eg_margin (send_all frames g) = eg_margin g \<and> eg_window (send_all frames g) = eg_window g"
  by (induction frames arbitrary: g) (simp_all add: observe_frame_def Let_def prune_keeps)

lemma echo_bound:
  fixes window gain margin frames now
  defines "g \<equiv> new_echo_guard window gain margin"
  assumes "spaced (map sample_of frames)" and "\<forall>f \<in> set frames. fst f \<le> now"
  shows "fst (echo_threshold now (Some (send_all frames g))) =
    Max (insert 0 {rms_energy (snd f) | f. f \<in> set frames \<and> now - eg_window g \<le> fst f}) * eg_gain g * eg_margin g"
proof -
  note new = new_echo_guard_ok [of window gain margin, folded g_def]
  let ?h = "send_all frames g"
  have ok: "guard_ok ?h" unfolding send_all_step by (rule echo_reference.run_invar [OF new(1)])
  have "as_window ?h = fold (\<lambda>e w. window_step w e) (sent frames) (as_window g)"
    unfolding send_all_step by (rule echo_reference.run_abs [OF new(1)])
  also have "\<dots> = (as_window g)\<lparr>wi_frames := (if frames = [] then [] else recent (eg_window g) (fst (last frames)) (map sample_of frames))\<rparr>"
    using window_after [OF assms(2), of "as_window g"] new by (simp add: as_window_def)
  finally have "live ?h = (if frames = [] then [] else recent (eg_window g) (fst (last frames)) (map sample_of frames))"
    by (simp add: as_window_def)
  then have "recent (eg_window g) now (live ?h) = recent (eg_window g) now (map sample_of frames)"
    using assms(3) by (cases "frames = []") (simp_all add: recent_recent)
  then have "es_rms ` set (recent (eg_window g) now (live ?h)) = {rms_energy (snd f) | f. f \<in> set frames \<and> now - eg_window g \<le> fst f}"
    using recent_set [OF assms(2)] by (force simp: image_iff)
  then show ?thesis using echo_threshold_live [OF ok] send_all_keeps by simp
qed

section \<open>Starts and ends of speech\<close>

text \<open>
  A call as the detector sees it: inbound frames, and outbound frames that reach the
  guard between them. The log keeps for every inbound frame whether it was louder than the
  threshold in force and what \<open>process\<close> returned.
\<close>

datatype vad_event = Inbound instant "16 word list" | Outbound instant "16 word list"

record verdict =
  ve_loud :: bool
  ve_started :: bool
  ve_ended :: bool

type_synonym vad_state = "verdict list \<times> echo_guard option \<times> detector"

fun vad_step :: "vad_state \<Rightarrow> vad_event \<Rightarrow> vad_state" where
  "vad_step (vs, guard, d) (Inbound now samples) =
     (case process now samples (guard, d) of
        ((st, en), guard', d') \<Rightarrow>
          (vs @ [\<lparr>ve_loud = effective_threshold now guard d < rms_energy samples, ve_started = st, ve_ended = en\<rparr>],
           guard', d'))"
| "vad_step (vs, guard, d) (Outbound now samples) = (vs, map_option (observe_frame now samples) guard, d)"

definition run_vad :: "vad_event list \<Rightarrow> echo_guard option \<Rightarrow> detector \<Rightarrow> verdict list" where
  "run_vad es guard d = fst (fold (\<lambda>e s. vad_step s e) es ([], guard, d))"

definition loud_tail :: "verdict list \<Rightarrow> nat" where
  "loud_tail vs = length (takeWhile ve_loud (rev vs))"

definition quiet_tail :: "verdict list \<Rightarrow> nat" where
  "quiet_tail vs = length (takeWhile (\<lambda>v. \<not> ve_loud v) (rev vs))"

definition starts :: "verdict list \<Rightarrow> nat" where
  "starts vs = length (filter ve_started vs)"

definition ends :: "verdict list \<Rightarrow> nat" where
  "ends vs = length (filter ve_ended vs)"

lemma tails_snoc [simp]:
  "loud_tail (vs @ [v]) = (if ve_loud v then loud_tail vs + 1 else 0)"
  "quiet_tail (vs @ [v]) = (if ve_loud v then 0 else quiet_tail vs + 1)"
  "starts (vs @ [v]) = starts vs + of_bool (ve_started v)"
  "ends (vs @ [v]) = ends vs + of_bool (ve_ended v)"
  by (simp_all add: loud_tail_def quiet_tail_def starts_def ends_def)

lemma tails_Nil [simp]: "loud_tail [] = 0" "quiet_tail [] = 0" "starts [] = 0" "ends [] = 0"
  by (simp_all add: loud_tail_def quiet_tail_def starts_def ends_def)

text \<open>An entry of the log is right when it follows from the entries before it.\<close>

definition verdict_ok :: "int \<Rightarrow> int \<Rightarrow> verdict list \<Rightarrow> verdict \<Rightarrow> bool" where
  "verdict_ok m k vs v \<longleftrightarrow>
     (ve_started v \<longleftrightarrow> starts vs = ends vs \<and> m \<le> int (loud_tail (vs @ [v])) \<and> ve_loud v) \<and>
     (ve_ended v \<longleftrightarrow> starts vs = ends vs + 1 \<and> k \<le> int (quiet_tail (vs @ [v])) \<and> \<not> ve_loud v)"

definition log_ok :: "int \<Rightarrow> int \<Rightarrow> verdict list \<Rightarrow> bool" where
  "log_ok m k vs \<longleftrightarrow> (\<forall>i < length vs. verdict_ok m k (take i vs) (vs ! i))"

definition vad_ok :: "vad_state \<Rightarrow> bool" where
  "vad_ok s \<longleftrightarrow> (case s of (vs, guard, d) \<Rightarrow>
     log_ok (vd_speech_frames d) (vd_silent_frames d) vs \<and>
     vd_speech_count d = int (loud_tail vs) \<and> vd_silent_count d = int (quiet_tail vs) \<and>
     starts vs = ends vs + of_bool (vd_speaking d))"

lemma log_ok_snoc: "log_ok m k vs \<Longrightarrow> verdict_ok m k vs v \<Longrightarrow> log_ok m k (vs @ [v])"
  by (auto simp: log_ok_def nth_append less_Suc_eq)

lemma update_noise_floor_keeps [simp]:
  "vd_speaking (update_noise_floor e d) = vd_speaking d"
  "vd_speech_count (update_noise_floor e d) = vd_speech_count d"
  "vd_silent_count (update_noise_floor e d) = vd_silent_count d"
  "vd_speech_frames (update_noise_floor e d) = vd_speech_frames d"
  "vd_silent_frames (update_noise_floor e d) = vd_silent_frames d"
  by (simp_all add: update_noise_floor_def)

text \<open>The decision of \<open>process\<close>, with the threshold of \<open>effective_threshold\<close>.\<close>

lemma process_loud:
  assumes "effective_threshold now guard d < rms_energy samples"
  shows "process now samples (guard, d) =
    (let on = (\<not> vd_speaking d \<and> vd_speech_frames d \<le> vd_speech_count d + 1) in
     ((on, False), snd (echo_threshold now guard),
      d\<lparr>vd_speech_count := vd_speech_count d + 1, vd_silent_count := 0, vd_speaking := on \<or> vd_speaking d\<rparr>))"
  using assms by (cases "echo_threshold now guard") (auto simp: process_def effective_threshold_def Let_def)

lemma process_quiet:
  assumes "\<not> effective_threshold now guard d < rms_energy samples"
  shows "process now samples (guard, d) =
    (let off = (vd_speaking d \<and> vd_silent_frames d \<le> vd_silent_count d + 1);
         d = (if fst (echo_threshold now guard) = 0 then update_noise_floor (rms_energy samples) d else d) in
     ((False, off), snd (echo_threshold now guard),
      d\<lparr>vd_silent_count := vd_silent_count d + 1, vd_speech_count := 0, vd_speaking := vd_speaking d \<and> \<not> off\<rparr>))"
  using assms by (cases "echo_threshold now guard") (auto simp: process_def effective_threshold_def Let_def)

lemma vad_step_ok: "vad_ok s \<Longrightarrow> vad_ok (vad_step s e)"
proof -
  obtain vs guard d where s: "s = (vs, guard, d)" by (cases s) auto
  assume ok: "vad_ok s"
  show ?thesis
  proof (cases e)
    case (Inbound now samples)
    show ?thesis
    proof (cases "effective_threshold now guard d < rms_energy samples")
      case True
      with ok show ?thesis
        by (auto simp: s Inbound vad_ok_def process_loud Let_def verdict_ok_def intro!: log_ok_snoc)
    next
      case False
      with ok show ?thesis
        by (auto simp: s Inbound vad_ok_def process_quiet Let_def verdict_ok_def intro!: log_ok_snoc)
    qed
  next
    case (Outbound now samples)
    with ok show ?thesis by (simp add: s vad_ok_def)
  qed
qed

interpretation detector_events: guarded_machine vad_step vad_ok
  by unfold_locales (rule vad_step_ok)

lemma vad_step_frames:
  "vd_speech_frames (snd (snd (vad_step s e))) = vd_speech_frames (snd (snd s))"
  "vd_silent_frames (snd (snd (vad_step s e))) = vd_silent_frames (snd (snd s))"
  by (cases s; cases e; auto simp: process_def Let_def split: prod.splits)+

lemma run_vad_ok: "log_ok speech silent (run_vad es guard ((new_detector thr speech silent)\<lparr>vd_adaptive := a\<rparr>))"
proof -
  let ?s = "([], guard, (new_detector thr speech silent)\<lparr>vd_adaptive := a\<rparr>) :: vad_state"
  let ?t = "fold (\<lambda>e s. vad_step s e) es ?s"
  have "vad_ok ?s" by (simp add: vad_ok_def log_ok_def new_detector_def)
  then have "vad_ok ?t" by (rule detector_events.run_invar)
  moreover have "vd_speech_frames (snd (snd ?t)) = speech" "vd_silent_frames (snd (snd ?t)) = silent"
    using detector_events.run_frame [of "\<lambda>s. vd_speech_frames (snd (snd s))", OF vad_step_frames(1) \<open>vad_ok ?s\<close>]
      detector_events.run_frame [of "\<lambda>s. vd_silent_frames (snd (snd s))", OF vad_step_frames(2) \<open>vad_ok ?s\<close>]
    by (simp_all add: new_detector_def)
  ultimately show ?thesis by (auto simp: vad_ok_def run_vad_def split: prod.splits)
qed

section \<open>Thresholds\<close>

lemma noise_threshold_range:
  assumes "vd_adaptive d" and "0 \<le> vd_noise_floor d" and "360 \<le> vd_threshold d"
  shows "900 \<le> noise_threshold d" and "noise_threshold d \<le> vd_threshold d * 25 / 10"
  using assms by (auto simp: noise_threshold_def adaptive_min_threshold_def adaptive_max_factor_def noise_floor_multiplier_def Let_def)

lemma noise_threshold_unlearned: "vd_noise_floor d < 0 \<Longrightarrow> noise_threshold d = vd_threshold d"
  by (simp add: noise_threshold_def)

lemma reset_keeps_noise_floor: "noise_threshold (reset_detector d) = noise_threshold d"
  by (simp add: noise_threshold_def reset_detector_def)

lemma echo_under_threshold:
  "energy \<le> fst (echo_threshold now guard) \<Longrightarrow> \<not> effective_threshold now guard d < energy"
  by (simp add: effective_threshold_def Let_def)

lemma rms_nonneg: "0 \<le> rms_energy samples"
  by (auto simp: rms_energy_def intro!: divide_nonneg_nonneg sum_list_nonneg)

lemma echo_bound_ge:
  assumes "spaced (map sample_of frames)" and "\<forall>f \<in> set frames. fst f \<le> now"
    and "f \<in> set frames" and "now - eg_window (new_echo_guard window gain margin) \<le> fst f"
  shows "rms_energy (snd f) * (eg_gain (new_echo_guard window gain margin) * eg_margin (new_echo_guard window gain margin))
    \<le> fst (echo_threshold now (Some (send_all frames (new_echo_guard window gain margin))))"
proof -
  let ?g = "new_echo_guard window gain margin"
  let ?R = "{rms_energy (snd f) | f. f \<in> set frames \<and> now - eg_window ?g \<le> fst f}"
  have "?R = (\<lambda>f. rms_energy (snd f)) ` {f \<in> set frames. now - eg_window ?g \<le> fst f}" by blast
  then have "finite ?R" by simp
  moreover have "rms_energy (snd f) \<in> ?R" using assms(3,4) by blast
  ultimately have "rms_energy (snd f) \<le> Max (insert 0 ?R)" by (intro Max_ge) (rule finite.insertI, assumption, rule insertI2)
  then have "rms_energy (snd f) * (eg_gain ?g * eg_margin ?g) \<le> Max (insert 0 ?R) * (eg_gain ?g * eg_margin ?g)"
    using new_echo_guard_ok(3,4) [of window gain margin] by (intro mult_right_mono) simp_all
  then show ?thesis using echo_bound [OF assms(1,2)] by (simp add: mult.assoc)
qed

section \<open>Properties\<close>

text \<open>C12: Whatever is sent, asked and reset, the guard's ring with its wrapping start and count
  behaves as a plain window: frames older than the window leave it, a new frame goes to its end,
  the oldest one gives way when the room is used up; and the bound the detector asks for is the
  loudest frame of that window times gain and margin, 0 when the window is empty.\<close>

theorem ring_is_a_window_of_recent_frames:
  fixes es :: "echo_event list" and window :: duration and gain margin :: real
  defines "g \<equiv> fold (\<lambda>e g. echo_step g e) es (new_echo_guard window gain margin)"
    and "w \<equiv> fold (\<lambda>e w. window_step w e) es (as_window (new_echo_guard window gain margin))"
  shows "as_window g = w \<and>
    fst (echo_threshold now (Some g)) =
      Max (insert 0 (es_rms ` set (recent (wi_span w) now (wi_frames w)))) * eg_gain g * eg_margin g"
proof -
  note new = new_echo_guard_ok(1) [of window gain margin]
  have w: "as_window g = w" unfolding g_def w_def by (rule echo_reference.run_abs [OF new])
  have "guard_ok g" unfolding g_def by (rule echo_reference.run_invar [OF new])
  from echo_threshold_live [OF this, of now] w show ?thesis by (auto simp: as_window_def)
qed

text \<open>C29: The detector reports a start exactly on the frame that completes the configured run of
  consecutive frames above the threshold while no speech is open, and an end exactly on the
  frame that completes the run of frames below it while speech is open; so starts and ends
  alternate, and at every moment there is at most one start without its end.\<close>

theorem speech_events_complete_their_runs:
  fixes es :: "vad_event list" and guard :: "echo_guard option" and thr :: real and m k :: int and a :: bool
  defines "vs \<equiv> run_vad es guard ((new_detector thr m k)\<lparr>vd_adaptive := a\<rparr>)"
  assumes "i < length vs"
  shows "(ve_started (vs ! i) \<longleftrightarrow>
      starts (take i vs) = ends (take i vs) \<and> ve_loud (vs ! i) \<and> m \<le> int (loud_tail (take (Suc i) vs))) \<and>
    (ve_ended (vs ! i) \<longleftrightarrow>
      starts (take i vs) = ends (take i vs) + 1 \<and> \<not> ve_loud (vs ! i) \<and> k \<le> int (quiet_tail (take (Suc i) vs)))"
proof -
  have "verdict_ok m k (take i vs) (vs ! i)"
    using run_vad_ok [where speech = m and silent = k and es = es and guard = guard and thr = thr and a = a] assms by (simp add: log_ok_def)
  with assms(2) show ?thesis by (auto simp: verdict_ok_def take_Suc_conv_app_nth)
qed

text \<open>The agent does not hear itself. When the sender has passed the guard its frames, at
  least 5 ms apart, an inbound frame no louder than one of those sent within the window,
  scaled by the gain and the margin, never starts speech, and as long as that frame was not
  silence it leaves the learned noise floor alone.\<close>

theorem returning_echo_is_not_speech:
  fixes frames :: "(instant \<times> 16 word list) list" and window :: duration and gain margin :: real
  defines "g0 \<equiv> new_echo_guard window gain margin"
  assumes "spaced (map sample_of frames)" and "\<forall>f \<in> set frames. fst f \<le> now"
    and "f \<in> set frames" and "now - eg_window g0 \<le> fst f"
    and "rms_energy echo \<le> rms_energy (snd f) * (eg_gain g0 * eg_margin g0)"
    and "process now echo (Some (send_all frames g0), d) = ((started, ended), guard, d')"
  shows "\<not> started \<and> (vd_speaking d' \<longrightarrow> vd_speaking d) \<and>
    (0 < rms_energy (snd f) \<longrightarrow> vd_noise_floor d' = vd_noise_floor d)"
proof -
  let ?b = "fst (echo_threshold now (Some (send_all frames g0)))"
  have le: "rms_energy (snd f) * (eg_gain g0 * eg_margin g0) \<le> ?b"
    using echo_bound_ge assms(2-5) unfolding g0_def by blast
  then have "rms_energy echo \<le> ?b" using assms(6) by linarith
  then have q: "\<not> effective_threshold now (Some (send_all frames g0)) d < rms_energy echo"
    by (rule echo_under_threshold)
  have "?b \<noteq> 0" if "0 < rms_energy (snd f)"
    using le mult_pos_pos [OF that mult_pos_pos] new_echo_guard_ok(3,4) [of window gain margin]
    unfolding g0_def by fastforce
  with assms(7) process_quiet [OF q] show ?thesis by (auto simp: Let_def split: if_splits)
qed

section \<open>Witnesses\<close>

lemma rms_one: "rms_energy [x] = \<bar>real_of_int (sint x)\<bar>"
  by (simp add: rms_energy_def real_sqrt_mult [symmetric] power2_eq_square [symmetric])

theorem speech_events_complete_their_runs_witness:
  "let vs = run_vad [Inbound 0 [5000], Inbound 1 [5000]] None ((new_detector 1200 2 15)\<lparr>vd_adaptive := True\<rparr>)
   in length vs = 2 \<and> loud_tail vs = 2 \<and> ve_started (vs ! 1)"
proof -
  define vs where "vs = run_vad [Inbound 0 [5000], Inbound 1 [5000]] None ((new_detector 1200 2 15)\<lparr>vd_adaptive := True\<rparr>)"
  have e: "vs = [\<lparr>ve_loud = True, ve_started = False, ve_ended = False\<rparr>, \<lparr>ve_loud = True, ve_started = True, ve_ended = False\<rparr>]"
    by (simp add: vs_def run_vad_def process_def echo_threshold_def effective_threshold_def noise_threshold_def
        new_detector_def rms_one Let_def)
  have t: "take 1 vs = [vs ! 0]" "take (Suc 1) vs = vs" by (simp_all add: e)
  have "ve_started (vs ! 1)"
    using speech_events_complete_their_runs [where i = 1 and es = "[Inbound 0 [5000], Inbound 1 [5000]]" and guard = None
        and thr = 1200 and m = 2 and k = 15 and a = True, folded vs_def]
    unfolding t by (simp add: e starts_def ends_def loud_tail_def)
  then show ?thesis by (simp add: Let_def vs_def [symmetric] e loud_tail_def)
qed

theorem returning_echo_is_not_speech_witness:
  "fst (process 1 [4000] (Some (send_all [(0, [5000])] (new_echo_guard 0 0 0)), new_barge_in)) = (False, False) \<and>
   \<not> fst (fst (process 1 [4000] (Some (send_all [(0, [5000])] (new_echo_guard 0 0 0)), new_barge_in)))"
proof -
  let ?p = "process 1 [4000] (Some (send_all [(0, [5000])] (new_echo_guard 0 0 0)), new_barge_in)"
  obtain st en guard d' where p: "?p = ((st, en), guard, d')" by (cases ?p) auto
  have g: "new_echo_guard 0 0 0 = \<lparr>eg_window = 400000000, eg_gain = 6 / 10, eg_margin = 18 / 10,
      eg_buf = replicate 88 \<lparr>es_at = 0, es_rms = 0\<rparr>, eg_start = 0, eg_count = 0\<rparr>"
    by (simp add: new_echo_guard_def default_echo_window_def default_echo_gain_def default_echo_margin_def)
  have "\<not> st \<and> (vd_speaking d' \<longrightarrow> vd_speaking new_barge_in)"
    using returning_echo_is_not_speech [of "[(0, [5000])]" 1 "(0, [5000])" 0 0 0 "[4000]" new_barge_in st en guard d'] p
    by (simp add: g rms_one spaced_def)
  moreover have "\<not> en"
    using p process_quiet process_loud by (auto simp: process_def new_barge_in_def new_detector_def Let_def split: prod.splits if_splits)
  ultimately show ?thesis unfolding p by simp
qed

end
