(* ===== verification/Speech_Input.thy ===== *)
theory Speech_Input
  imports Turn_Buffer Voice_Detection Speech_Output Plugin_Dispatch
begin

text \<open>
  Speech to text (\<open>internal/stt\<close>): merging the chunks of a transcript (\<open>transcript.go\<close>), the
  utterances of Deepgram and AssemblyAI (\<open>deepgram.go\<close>, \<open>assemblyai.go\<close>), and the cutting of the
  caller's audio into utterances for the engines that take whole ones (\<open>telnyx.go\<close>, \<open>openai.go\<close>).

  The clock is an argument; a time that was never set is \<open>None\<close>. Confidences are rationals.
\<close>

section \<open>Merging the chunks of a transcript\<close>

definition normalize_transcript :: "str \<Rightarrow> str" where
  "normalize_transcript s = join '' '' (str_fields (to_lower (trim_space s)))"

definition same_transcript :: "str \<Rightarrow> str \<Rightarrow> bool" where
  "same_transcript a b \<longleftrightarrow> normalize_transcript a = normalize_transcript b"

definition is_spoken_digit_token :: "str \<Rightarrow> bool" where
  "is_spoken_digit_token w \<longleftrightarrow> to_lower (trim_space w) \<in>
     {''0'', ''1'', ''2'', ''3'', ''4'', ''5'', ''6'', ''7'', ''8'', ''9'', ''zero'', ''oh'', ''o'', ''one'', ''two'',
      ''three'', ''four'', ''five'', ''six'', ''seven'', ''eight'', ''nine''}"

text \<open>The longest suffix of the words so far, of at most the given length, that the next words begin
  with.\<close>

fun overlap_from :: "str list \<Rightarrow> str list \<Rightarrow> nat \<Rightarrow> nat" where
  "overlap_from base nxt 0 = 0"
| "overlap_from base nxt (Suc k) =
     (if map to_lower (drop (length base - Suc k) base) = map to_lower (take (Suc k) nxt) then Suc k
      else overlap_from base nxt k)"

definition preserves_digit_boundary :: "str list \<Rightarrow> str list \<Rightarrow> nat \<Rightarrow> bool" where
  "preserves_digit_boundary base nxt overlap =
     (if overlap \<noteq> 1 \<or> length base < 2 \<or> length nxt < 2 then False
      else let w = to_lower (last base) in
        if w \<noteq> to_lower (hd nxt) \<or> \<not> is_spoken_digit_token w then False
        else is_spoken_digit_token (base ! (length base - 2)) \<and> is_spoken_digit_token (nxt ! 1))"

definition merge_words :: "str list \<Rightarrow> str list \<Rightarrow> str list" where
  "merge_words bw nw =
     (let k = overlap_from bw nw (min (length bw) (length nw));
          k = (if preserves_digit_boundary bw nw k then 0 else k)
      in if k = length nw then bw
         else if k = length bw \<and> length bw \<le> length nw then nw
         else bw @ drop k nw)"

definition merge_transcript_chunks :: "str \<Rightarrow> str \<Rightarrow> str" where
  "merge_transcript_chunks base nxt =
     (let base = trim_space base; nxt = trim_space nxt in
      if base = [] then nxt
      else if nxt = [] then base
      else let bw = str_fields base; nw = str_fields nxt in
        if bw = [] then nxt else if nw = [] then base
        else join '' '' (merge_words bw nw))"

section \<open>Deepgram\<close>

record transcript_result =
  sr_text :: str
  sr_final :: bool
  sr_confidence :: rat

record deepgram =
  dg_finalized :: str
  dg_last_partial :: str
  dg_last_final :: str
  dg_last_final_at :: "instant option"
  dg_speech_active :: bool
  dg_last_confidence :: rat

definition new_deepgram :: deepgram where
  "new_deepgram = \<lparr>dg_finalized = [], dg_last_partial = [], dg_last_final = [], dg_last_final_at = None,
     dg_speech_active = False, dg_last_confidence = 0\<rparr>"

definition recent_final_suppress_window :: duration where
  "recent_final_suppress_window = 5 * second"

definition should_suppress :: "instant \<Rightarrow> str \<Rightarrow> deepgram \<Rightarrow> bool" where
  "should_suppress now s d \<longleftrightarrow> same_transcript s (dg_last_final d) \<and>
     (case dg_last_final_at d of None \<Rightarrow> False | Some t \<Rightarrow> now - t < recent_final_suppress_window)"

definition reset_utterance :: "instant \<Rightarrow> str \<Rightarrow> deepgram \<Rightarrow> deepgram" where
  "reset_utterance now final d =
     (let d = d\<lparr>dg_finalized := [], dg_last_partial := [], dg_speech_active := False, dg_last_confidence := 0\<rparr> in
      if trim_space final \<noteq> [] then d\<lparr>dg_last_final := final, dg_last_final_at := Some now\<rparr> else d)"

definition partial_result :: "instant \<Rightarrow> str \<Rightarrow> rat \<Rightarrow> deepgram \<Rightarrow> deepgram \<times> transcript_result list" where
  "partial_result now s conf d =
     (let s = trim_space s in
      if s = [] \<or> same_transcript s (dg_last_partial d) \<or> should_suppress now s d then (d, [])
      else (d\<lparr>dg_last_partial := s\<rparr>, [\<lparr>sr_text = s, sr_final = False, sr_confidence = conf\<rparr>]))"

text \<open>A message carries the transcript of its first alternative, empty when there is none.\<close>

definition deepgram_message :: "instant \<Rightarrow> bool \<Rightarrow> bool \<Rightarrow> str \<Rightarrow> rat \<Rightarrow> deepgram \<Rightarrow> deepgram \<times> transcript_result list" where
  "deepgram_message now is_final speech_final transcript conf d =
     (let chunk = trim_space transcript in
      if chunk = [] then (d, [])
      else
        let d = d\<lparr>dg_last_confidence := conf\<rparr> in
        if is_final then
          (let d = d\<lparr>dg_finalized := merge_transcript_chunks (dg_finalized d) chunk\<rparr> in
           if speech_final then
             (let combined = trim_space (dg_finalized d);
                  combined = (if combined = [] then chunk else combined)
              in (reset_utterance now combined d,
                  if should_suppress now combined d then []
                  else [\<lparr>sr_text = combined, sr_final = True, sr_confidence = conf\<rparr>]))
           else partial_result now (dg_finalized d) conf d)
        else partial_result now
          (if dg_finalized d \<noteq> [] then trim_space (dg_finalized d @ '' '' @ chunk) else chunk) conf d)"

definition utterance_end :: "instant \<Rightarrow> deepgram \<Rightarrow> deepgram \<times> transcript_result list" where
  "utterance_end now d =
     (let combined = trim_space (dg_finalized d) in
      (reset_utterance now combined d,
       if combined \<noteq> [] \<and> \<not> should_suppress now combined d
       then [\<lparr>sr_text = combined, sr_final = True, sr_confidence = dg_last_confidence d\<rparr>] else []))"

datatype deepgram_event =
    Message instant bool bool str rat
  | Speech_began
  | Utterance_end instant

fun deepgram_step :: "deepgram \<Rightarrow> deepgram_event \<Rightarrow> deepgram \<times> transcript_result list" where
  "deepgram_step d (Message now is_final speech_final transcript conf) =
     deepgram_message now is_final speech_final transcript conf d"
| "deepgram_step d Speech_began = (d\<lparr>dg_speech_active := True\<rparr>, [])"
| "deepgram_step d (Utterance_end now) = utterance_end now d"

definition base_language :: "str \<Rightarrow> str" where
  "base_language locale =
     (let base = to_lower (trim_space locale) in
      case index_of ''-'' base of Some i \<Rightarrow> if 0 < i then take i base else base | None \<Rightarrow> base)"

definition nova3_language :: "str \<Rightarrow> str" where
  "nova3_language locale =
     (let base = base_language locale in
      if base = [] \<or> base = ''en'' then ''en''
      else if base = ''es'' then ''es'' else if base = ''zh'' then ''zh'' else ''multi'')"

section \<open>AssemblyAI\<close>

record assembly_turn =
  at_transcript :: str
  at_end_of_turn :: bool
  at_words :: "rat list"

record assembly =
  as_last_text :: str
  as_last_final :: str
  as_last_final_at :: "instant option"

definition suppress_duplicate :: duration where
  "suppress_duplicate = 5 * second"

definition transcript_confidence :: "rat list \<Rightarrow> rat" where
  "transcript_confidence words =
     (let ws = filter (\<lambda>w. 0 < w) words in if ws = [] then 0 else sum_list ws / of_nat (length ws))"

definition handle_turn :: "instant \<Rightarrow> assembly_turn \<Rightarrow> assembly \<Rightarrow> assembly \<times> transcript_result list" where
  "handle_turn now t a =
     (let s = trim_space (at_transcript t); conf = transcript_confidence (at_words t) in
      if s = [] then (a, [])
      else if at_end_of_turn t then
        (if same_transcript s (as_last_final a) \<and>
            (case as_last_final_at a of None \<Rightarrow> False | Some u \<Rightarrow> now - u < suppress_duplicate)
         then (a, [])
         else (a\<lparr>as_last_final := s, as_last_final_at := Some now, as_last_text := []\<rparr>,
               [\<lparr>sr_text = s, sr_final = True, sr_confidence = conf\<rparr>]))
      else if same_transcript s (as_last_text a) then (a, [])
      else (a\<lparr>as_last_text := s\<rparr>, [\<lparr>sr_text = s, sr_final = False, sr_confidence = conf\<rparr>]))"

section \<open>Telnyx\<close>

definition telnyx_frame_bytes :: nat where "telnyx_frame_bytes = frame_size * 2"
definition telnyx_onset_lookback_bytes :: nat where "telnyx_onset_lookback_bytes = 50 * telnyx_frame_bytes"
definition telnyx_max_utterance_bytes :: nat where "telnyx_max_utterance_bytes = 1500 * telnyx_frame_bytes"

record telnyx =
  tx_detector :: detector
  tx_speech_active :: bool
  tx_utterance :: "byte list list"
  tx_utts_bytes :: nat
  tx_lookback :: "byte list list"
  tx_lookback_bytes :: nat

definition new_telnyx :: telnyx where
  "new_telnyx = \<lparr>tx_detector = new_detector 1200 10 30, tx_speech_active = False, tx_utterance = [], tx_utts_bytes = 0,
     tx_lookback = [], tx_lookback_bytes = 0\<rparr>"

fun trim_lookback :: "byte list list \<Rightarrow> nat \<Rightarrow> byte list list \<times> nat" where
  "trim_lookback [] n = ([], n)"
| "trim_lookback (f # fs) n =
     (if telnyx_onset_lookback_bytes < n then trim_lookback fs (n - length f) else (f # fs, n))"

text \<open>One frame; the result is the utterance to be transcribed, if there is one. The client is open.\<close>

definition telnyx_send_audio :: "instant \<Rightarrow> byte list \<Rightarrow> telnyx \<Rightarrow> telnyx \<times> byte list list list" where
  "telnyx_send_audio now frame c =
     (case process now (linear16_to_pcm frame) (None, tx_detector c) of
        ((started, ended), _, det) \<Rightarrow>
          let c = c\<lparr>tx_detector := det\<rparr>;
              c = (if started
                   then c\<lparr>tx_speech_active := True, tx_utterance := tx_utterance c @ tx_lookback c,
                          tx_utts_bytes := tx_utts_bytes c + tx_lookback_bytes c, tx_lookback := [], tx_lookback_bytes := 0\<rparr>
                   else c);
              c = (if tx_speech_active c
                   then c\<lparr>tx_utterance := tx_utterance c @ [frame], tx_utts_bytes := tx_utts_bytes c + length frame\<rparr>
                   else case trim_lookback (tx_lookback c @ [frame]) (tx_lookback_bytes c + length frame) of
                     (fs, n) \<Rightarrow> c\<lparr>tx_lookback := fs, tx_lookback_bytes := n\<rparr>);
              frames = (if ended \<or> telnyx_max_utterance_bytes \<le> tx_utts_bytes c then tx_utterance c else []);
              c' = (if ended then c\<lparr>tx_speech_active := False, tx_utterance := [], tx_utts_bytes := 0\<rparr>
                    else if telnyx_max_utterance_bytes \<le> tx_utts_bytes c then c\<lparr>tx_utterance := [], tx_utts_bytes := 0\<rparr>
                    else c)
          in (c', if frames \<noteq> [] then [frames] else []))"

text \<open>A frame of the server: an error, nothing to report, or a result.\<close>

definition telnyx_error :: "json \<Rightarrow> (str \<times> str) option" where
  "telnyx_error e =
     (let source_ok = (case struct_field ''source'' (Json e) of
          None \<Rightarrow> True
        | Some (JObj kvs) \<Rightarrow> as_string (struct_field ''parameter'' (Json (JObj kvs))) \<noteq> None
        | Some _ \<Rightarrow> False) in
      case e of
        JNull \<Rightarrow> Some ([], [])
      | JObj kvs \<Rightarrow>
          (case (as_string (struct_field ''code'' (Json e)), as_string (struct_field ''title'' (Json e)),
                 as_string (struct_field ''detail'' (Json e))) of
             (Some code, Some title, Some detail) \<Rightarrow> if source_ok then Some (detail, title) else None
           | _ \<Rightarrow> None)
      | _ \<Rightarrow> None)"

definition telnyx_errors :: "raw \<Rightarrow> (str \<times> str) list option" where
  "telnyx_errors m =
     (case struct_field ''errors'' m of
        None \<Rightarrow> Some []
      | Some (JArr es) \<Rightarrow> if list_all (\<lambda>e. telnyx_error e \<noteq> None) es then Some (map (\<lambda>e. the (telnyx_error e)) es) else None
      | Some _ \<Rightarrow> None)"

definition route_telnyx_frame :: "raw \<Rightarrow> str + transcript_result option" where
  "route_telnyx_frame m =
     (let obj = (case m of Json (JObj kvs) \<Rightarrow> True | Json JNull \<Rightarrow> True | _ \<Rightarrow> False) in
      case (as_string (struct_field ''transcript'' m), as_number (struct_field ''confidence'' m),
            as_bool (struct_field ''is_final'' m), telnyx_errors m) of
        (Some s, Some conf, Some final, Some errs) \<Rightarrow>
          if \<not> obj then Inl ''telnyx stt frame decode''
          else (case errs of
            (detail, title) # _ \<Rightarrow> Inl (''telnyx stt: '' @ (if detail = [] then title else detail))
          | [] \<Rightarrow>
              (let s = trim_space s in
               if s = [] then Inr None
               else Inr (Some \<lparr>sr_text = s, sr_final = final, sr_confidence = (case conf of None \<Rightarrow> 0 | Some x \<Rightarrow> x)\<rparr>)))
      | _ \<Rightarrow> Inl ''telnyx stt frame decode'')"

text \<open>Of the frames after an upload the first final is taken, an error or the end of the connection
  gives none.\<close>

fun utterance_final :: "raw list \<Rightarrow> transcript_result option" where
  "utterance_final [] = None"
| "utterance_final (m # ms) =
     (case route_telnyx_frame m of
        Inl e \<Rightarrow> None
      | Inr (Some r) \<Rightarrow> if sr_final r then Some r else utterance_final ms
      | Inr None \<Rightarrow> utterance_final ms)"

section \<open>OpenAI\<close>

record batch_stt =
  bs_audio :: "byte list"
  bs_speaking :: bool
  bs_speech_start :: instant
  bs_last_speech :: instant

definition speech_energy_threshold :: real where "speech_energy_threshold = 500"
definition silence_timeout :: duration where "silence_timeout = 600 * millisecond"
definition max_buffer_duration :: duration where "max_buffer_duration = 30 * second"
definition min_speech_duration :: duration where "min_speech_duration = 200 * millisecond"

definition batch_send_audio :: "instant \<Rightarrow> byte list \<Rightarrow> batch_stt \<Rightarrow> batch_stt" where
  "batch_send_audio now bytes c =
     (let c = c\<lparr>bs_audio := bs_audio c @ bytes\<rparr> in
      if rms_energy (linear16_to_pcm bytes) > speech_energy_threshold then
        (if bs_speaking c then c else c\<lparr>bs_speaking := True, bs_speech_start := now\<rparr>)\<lparr>bs_last_speech := now\<rparr>
      else c)"

definition flush_if_needed :: "bool \<Rightarrow> instant \<Rightarrow> batch_stt \<Rightarrow> batch_stt \<times> byte list option" where
  "flush_if_needed force now c =
     (if bs_audio c = [] \<or> \<not> bs_speaking c then (c, None)
      else
        let silent_for = now - bs_last_speech c;
            speech_dur = now - bs_speech_start c;
            buf_dur = int (length (bs_audio c) div 2 div 16000) * second
        in if force \<or> silence_timeout < silent_for \<and> min_speech_duration < speech_dur \<or> max_buffer_duration \<le> buf_dur
           then (c\<lparr>bs_audio := [], bs_speaking := False\<rparr>, Some (bs_audio c))
           else (c, None))"

text \<open>Transcribing starts with a look at the client's context.\<close>

definition batch_transcribe :: "bool \<Rightarrow> (byte list \<Rightarrow> str option) \<Rightarrow> byte list \<Rightarrow> transcript_result list" where
  "batch_transcribe is_closed api pcm =
     (if is_closed then []
      else case api pcm of
        None \<Rightarrow> []
      | Some s \<Rightarrow> if s = [] then [] else [\<lparr>sr_text = s, sr_final = True, sr_confidence = 0\<rparr>])"

section \<open>A merged transcript keeps both chunks\<close>

text \<open>The words of a chunk occur in a row in a text, letter case apart.\<close>

definition said_in :: "str list \<Rightarrow> str list \<Rightarrow> bool" where
  "said_in ws txt \<longleftrightarrow> (\<exists>u v. map to_lower txt = u @ map to_lower ws @ v)"

lemma said_inI: "map to_lower txt = u @ map to_lower ws @ v \<Longrightarrow> said_in ws txt"
  unfolding said_in_def by blast

lemma said_in_refl: "said_in ws ws"
  by (rule said_inI [of _ "[]" _ "[]"]) simp

lemma said_in_trans: "said_in a b \<Longrightarrow> said_in b c \<Longrightarrow> said_in a c"
  unfolding said_in_def by (metis append.assoc)

lemma said_in_append: "said_in ws (ws @ v)" "said_in ws (u @ ws)"
  by (rule said_inI [of _ "[]" _ "map to_lower v"], simp, rule said_inI [of _ "map to_lower u" _ "[]"], simp)

lemma overlap_from_ok:
  "overlap_from b n k \<le> k \<and>
   map to_lower (drop (length b - overlap_from b n k) b) = map to_lower (take (overlap_from b n k) n)"
  by (induction k) auto

lemma merge_words_keeps: "said_in bw (merge_words bw nw) \<and> said_in nw (merge_words bw nw)"
proof -
  define k0 where "k0 = overlap_from bw nw (min (length bw) (length nw))"
  define k where "k = (if preserves_digit_boundary bw nw k0 then 0 else k0)"
  have o: "map to_lower (drop (length bw - k) bw) = map to_lower (take k nw)" and le: "k \<le> length bw" "k \<le> length nw"
    using overlap_from_ok [of bw nw "min (length bw) (length nw)"] by (auto simp: k_def k0_def)
  have split: "map to_lower bw = map to_lower (take (length bw - k) bw) @ map to_lower (take k nw)"
    using o by (metis append_take_drop_id map_append)
  have whole: "map to_lower nw = map to_lower (take k nw) @ map to_lower (drop k nw)"
    by (metis append_take_drop_id map_append)
  have m: "merge_words bw nw = (if k = length nw then bw else if k = length bw \<and> length bw \<le> length nw then nw else bw @ drop k nw)"
    unfolding merge_words_def Let_def k_def k0_def ..
  consider "k = length nw" | "k \<noteq> length nw" "k = length bw" | "k \<noteq> length nw" "k \<noteq> length bw" by blast
  then show ?thesis
  proof cases
    case 1
    with split have "said_in nw bw" by (intro said_inI [of _ "map to_lower (take (length bw - k) bw)" _ "[]"]) simp
    with 1 m said_in_refl show ?thesis by simp
  next
    case 2
    with split whole have "said_in bw nw" by (intro said_inI [of _ "[]" _ "map to_lower (drop k nw)"]) simp
    with 2 le m said_in_refl show ?thesis by simp
  next
    case 3
    have "said_in nw (bw @ drop k nw)"
      using split whole by (intro said_inI [of _ "map to_lower (take (length bw - k) bw)" _ "[]"]) simp
    with 3 m said_in_append show ?thesis by simp
  qed
qed

lemma trim_space_Nil_iff: "trim_space s = [] \<longleftrightarrow> str_fields s = []"
  using trim_space_Nil_words fields_empty_trim by blast

lemma merge_words_set: "set (merge_words bw nw) \<subseteq> set bw \<union> set nw"
proof -
  have "set (if b then bw else if c then nw else bw @ drop k nw) \<subseteq> set bw \<union> set nw" for b c k
    by (auto dest: in_set_dropD)
  then show ?thesis unfolding merge_words_def Let_def by blast
qed

lemma fields_join_merged:
  "str_fields (join '' '' (merge_words (str_fields base) (str_fields nxt))) = merge_words (str_fields base) (str_fields nxt)"
proof (rule fields_join, unfold list_all_iff, intro ballI)
  fix w assume "w \<in> set (merge_words (str_fields base) (str_fields nxt))"
  then obtain s where "w \<in> set (str_fields s)" using merge_words_set by blast
  then show "w \<noteq> [] \<and> (\<forall>c\<in>set w. \<not> is_space c)"
    using fields_nonempty fields_no_space [of w s] by (simp add: list_all_iff)
qed

lemma merge_transcript_fields:
  "str_fields (merge_transcript_chunks base nxt) =
     (if str_fields base = [] then str_fields nxt else if str_fields nxt = [] then str_fields base
      else merge_words (str_fields base) (str_fields nxt))"
  unfolding merge_transcript_chunks_def Let_def
  by (simp only: trim_space_Nil_iff fields_trim_space fields_join_merged if_distrib [of str_fields] if_cancel split: if_split) blast

lemma merge_keeps_chunks:
  "said_in (str_fields base) (str_fields (merge_transcript_chunks base nxt))"
  "said_in (str_fields nxt) (str_fields (merge_transcript_chunks base nxt))"
proof -
  have "said_in [] ws" for ws by (rule said_inI [of _ "[]" _ "map to_lower ws"]) simp
  then show "said_in (str_fields base) (str_fields (merge_transcript_chunks base nxt))"
    "said_in (str_fields nxt) (str_fields (merge_transcript_chunks base nxt))"
    using merge_words_keeps said_in_refl by (auto simp: merge_transcript_fields)
qed

section \<open>An utterance keeps its chunks\<close>

fun ends_utterance :: "deepgram_event \<Rightarrow> bool" where
  "ends_utterance (Message now is_final speech_final transcript conf) \<longleftrightarrow> is_final \<and> speech_final \<and> trim_space transcript \<noteq> []"
| "ends_utterance Speech_began \<longleftrightarrow> False"
| "ends_utterance (Utterance_end now) \<longleftrightarrow> True"

fun event_time :: "deepgram_event \<Rightarrow> instant" where
  "event_time (Message now _ _ _ _) = now"
| "event_time Speech_began = 0"
| "event_time (Utterance_end now) = now"

definition deepgram_run :: "deepgram_event list \<Rightarrow> deepgram" where
  "deepgram_run es = fold (\<lambda>e d. fst (deepgram_step d e)) es new_deepgram"

lemma partial_result_frame [simp]: "dg_finalized (fst (partial_result now s conf d)) = dg_finalized d"
  by (simp add: partial_result_def Let_def)

lemma finalized_kept:
  "said_in ws (str_fields (dg_finalized d)) \<Longrightarrow> \<not> ends_utterance e \<Longrightarrow>
   said_in ws (str_fields (dg_finalized (fst (deepgram_step d e))))"
  by (cases e) (auto simp: deepgram_message_def Let_def intro: said_in_trans merge_keeps_chunks)

lemma finalized_gains:
  "trim_space chunk \<noteq> [] \<Longrightarrow>
   said_in (str_fields chunk) (str_fields (dg_finalized (fst (deepgram_step d (Message now True False chunk conf)))))"
  using merge_keeps_chunks(2) [of "trim_space chunk"] by (simp add: deepgram_message_def Let_def)

lemma utterance_ends:
  assumes "said_in ws (str_fields (dg_finalized d))" and "ws \<noteq> []" and "ends_utterance e"
  shows "\<exists>words. said_in ws (str_fields words) \<and>
    ((\<exists>conf. snd (deepgram_step d e) = [\<lparr>sr_text = words, sr_final = True, sr_confidence = conf\<rparr>]) \<or>
     snd (deepgram_step d e) = [] \<and> should_suppress (event_time e) words d)"
proof -
  have ne: "trim_space w \<noteq> []" if "said_in ws (str_fields w)" for w
    using that assms(2) by (auto simp: trim_space_Nil_iff said_in_def)
  have sup: "should_suppress now w (d\<lparr>dg_last_confidence := c, dg_finalized := f\<rparr>) = should_suppress now w d" for now w c f
    by (simp add: should_suppress_def)
  show ?thesis
  proof (cases e)
    case (Message now is_final speech_final transcript conf)
    with assms(3) have m: "is_final" "speech_final" "trim_space transcript \<noteq> []" by auto
    let ?w = "trim_space (merge_transcript_chunks (dg_finalized d) (trim_space transcript))"
    have "said_in ws (str_fields ?w)"
      using said_in_trans [OF assms(1) merge_keeps_chunks(1)] by simp
    with m ne [OF this] show ?thesis
      by (intro exI [of _ ?w]) (simp add: Message deepgram_message_def Let_def sup trim_space_idem)
  next
    case (Utterance_end now)
    have "said_in ws (str_fields (trim_space (dg_finalized d)))" using assms(1) by simp
    with ne [OF assms(1)] show ?thesis
      by (intro exI [of _ "trim_space (dg_finalized d)"]) (simp add: Utterance_end utterance_end_def Let_def)
  qed (use assms(3) in simp)
qed

text \<open>A chunk that Deepgram declared final is not lost: when its utterance ends, one final result
  is reported that has the chunk's words in a row, letter case apart, unless the same text
  was reported as final within the last five seconds.\<close>

theorem utterance_keeps_every_chunk:
  assumes "trim_space chunk \<noteq> []" and "\<forall>m \<in> set mid. \<not> ends_utterance m" and "ends_utterance e"
  shows "\<exists>words d. d = deepgram_run (pre @ [Message now True False chunk conf] @ mid) \<and>
    said_in (str_fields chunk) (str_fields words) \<and>
    ((\<exists>c. snd (deepgram_step d e) = [\<lparr>sr_text = words, sr_final = True, sr_confidence = c\<rparr>]) \<or>
     snd (deepgram_step d e) = [] \<and> should_suppress (event_time e) words d)"
proof -
  let ?d = "deepgram_run (pre @ [Message now True False chunk conf] @ mid)"
  have "said_in (str_fields chunk) (str_fields (dg_finalized ?d))"
    using assms(2)
  proof (induction mid rule: rev_induct)
    case Nil
    show ?case using finalized_gains [OF assms(1)] by (simp add: deepgram_run_def)
  next
    case (snoc m mid)
    then show ?case
      using finalized_kept [of "str_fields chunk" "deepgram_run (pre @ [Message now True False chunk conf] @ mid)" m]
      by (simp add: deepgram_run_def)
  qed
  from utterance_ends [OF this _ assms(3)] assms(1) show ?thesis by (auto simp: trim_space_Nil_iff)
qed

section \<open>No speech is cut away\<close>

fun telnyx_run :: "telnyx \<Rightarrow> (instant \<times> byte list) list \<Rightarrow> telnyx \<times> byte list list list" where
  "telnyx_run c [] = (c, [])"
| "telnyx_run c (f # fs) =
     (case telnyx_send_audio (fst f) (snd f) c of (c', up) \<Rightarrow>
        (case telnyx_run c' fs of (c'', ups) \<Rightarrow> (c'', up @ ups)))"

text \<open>The frames during which the client took the caller to be speaking.\<close>

fun spoken_frames :: "telnyx \<Rightarrow> (instant \<times> byte list) list \<Rightarrow> byte list list" where
  "spoken_frames c [] = []"
| "spoken_frames c (f # fs) =
     (let c' = fst (telnyx_send_audio (fst f) (snd f) c) in
      (if tx_speech_active c \<or> tx_speech_active c' then [snd f] else []) @ spoken_frames c' fs)"

definition telnyx_ok :: "telnyx \<Rightarrow> bool" where
  "telnyx_ok c \<longleftrightarrow> (if tx_speech_active c then tx_lookback c = [] else tx_utterance c = [])"

lemma trim_lookback_suffix: "\<exists>k. fst (trim_lookback fs n) = drop k fs"
proof (induction fs n rule: trim_lookback.induct)
  case (2 f fs n)
  then obtain k where "telnyx_onset_lookback_bytes < n \<longrightarrow> fst (trim_lookback fs (n - length f)) = drop k fs" by blast
  then show ?case
    by (cases "telnyx_onset_lookback_bytes < n") (auto intro: exI [of _ "Suc k"] exI [of _ "0"])
qed simp

lemma telnyx_step:
  assumes "telnyx_ok c" and "telnyx_send_audio now f c = (c', up)"
  shows "telnyx_ok c' \<and>
    (if tx_speech_active c \<or> tx_speech_active c' then tx_lookback c' = [] \<and> concat up @ tx_utterance c' = tx_utterance c @ tx_lookback c @ [f]
     else (up = [] \<and> tx_utterance c' = [] \<and> tx_utterance c = [] \<and> (\<exists>k. tx_lookback c' = drop k (tx_lookback c @ [f]))) \<or>
       tx_lookback c' = [] \<and> concat up @ tx_utterance c' = tx_utterance c @ tx_lookback c @ [f])"
proof -
  obtain started ended g det where p: "process now (linear16_to_pcm f) (None, tx_detector c) = ((started, ended), g, det)"
    by (metis prod.collapse)
  obtain fs n where t: "trim_lookback (tx_lookback c @ [f]) (tx_lookback_bytes c + length f) = (fs, n)" by fastforce
  obtain k where k: "fs = drop k (tx_lookback c @ [f])"
    using trim_lookback_suffix [of "tx_lookback c @ [f]" "tx_lookback_bytes c + length f"] t by auto
  show ?thesis
  proof (cases "started \<or> tx_speech_active c")
    case True
    with assms p show ?thesis by (auto simp: telnyx_send_audio_def telnyx_ok_def Let_def split: if_splits)
  next
    case False
    with assms p t k show ?thesis by (auto simp: telnyx_send_audio_def telnyx_ok_def Let_def split: if_splits)
  qed
qed

lemma telnyx_run_keeps:
  assumes "telnyx_ok c" and "telnyx_run c fs = (c', ups)"
  shows "subseq (tx_utterance c @ spoken_frames c fs) (concat ups @ tx_utterance c') \<and>
    subseq (concat ups @ tx_utterance c' @ tx_lookback c') (tx_utterance c @ tx_lookback c @ map snd fs)"
  using assms
proof (induction fs arbitrary: c ups)
  case (Cons f fs)
  obtain c1 up where s: "telnyx_send_audio (fst f) (snd f) c = (c1, up)" by fastforce
  obtain ups' where r: "telnyx_run c1 fs = (c', ups')" and u: "ups = up @ ups'"
    using Cons.prems(2) s by (auto split: prod.splits)
  note st = telnyx_step [OF Cons.prems(1) s]
  from st have ok: "telnyx_ok c1" by blast
  note IH = Cons.IH [OF ok r]
  let ?U = "concat ups'" and ?sp = "spoken_frames c1 fs"
  let ?f = "if tx_speech_active c \<or> tx_speech_active c1 then [snd f] else []"
  have sp: "spoken_frames c (f # fs) = ?f @ ?sp" by (simp add: s)
  show ?case
  proof (cases "tx_lookback c1 = [] \<and> concat up @ tx_utterance c1 = tx_utterance c @ tx_lookback c @ [snd f]")
    case True
    have "subseq (tx_utterance c @ ?f @ ?sp) ((tx_utterance c @ tx_lookback c @ [snd f]) @ ?sp)"
      using list_emb_append2 [OF list_emb_append2 [OF subseq_order.order_refl [of ?sp], of "[snd f]"], of "tx_lookback c"]
      by (simp add: subseq_append' list_emb_append2)
    also have "\<dots> = concat up @ tx_utterance c1 @ ?sp" using True by (metis append.assoc)
    also have "subseq (concat up @ tx_utterance c1 @ ?sp) (concat up @ ?U @ tx_utterance c')"
      using IH by (simp add: subseq_append')
    finally have one: "subseq (tx_utterance c @ spoken_frames c (f # fs)) (concat ups @ tx_utterance c')"
      unfolding sp u by simp
    have "subseq (concat up @ ?U @ tx_utterance c' @ tx_lookback c') (concat up @ tx_utterance c1 @ tx_lookback c1 @ map snd fs)"
      using IH by (simp add: subseq_append')
    also have "\<dots> = tx_utterance c @ tx_lookback c @ map snd (f # fs)" using True by (metis append.assoc append_Nil append_Cons list.simps(9))
    finally show ?thesis using one by (simp add: u)
  next
    case False
    with st obtain k where k: "\<not> tx_speech_active c" "\<not> tx_speech_active c1" "up = []" "tx_utterance c1 = []" "tx_utterance c = []"
      "tx_lookback c1 = drop k (tx_lookback c @ [snd f])" by (auto split: if_splits)
    have "subseq (drop k (tx_lookback c @ [snd f]) @ map snd fs) ((tx_lookback c @ [snd f]) @ map snd fs)"
      by (metis append_take_drop_id subseq_append' subseq_drop_many subseq_order.order_refl append.assoc)
    with IH k show ?thesis
      unfolding sp u by (auto intro: subseq_order.trans)
  qed
qed simp

text \<open>Whatever the caller says is transcribed: while the client takes the caller to be speaking no
  frame is dropped, and frames are uploaded in order and at most once. What is dropped is
  silence that has grown too old for the lookback.\<close>

theorem no_speech_is_cut_away:
  fixes frames :: "(instant \<times> byte list) list"
  defines "c \<equiv> fst (telnyx_run new_telnyx frames)" and "uploads \<equiv> snd (telnyx_run new_telnyx frames)"
  shows "subseq (spoken_frames new_telnyx frames) (concat uploads @ tx_utterance c) \<and>
    subseq (concat uploads @ tx_utterance c @ tx_lookback c) (map snd frames)"
  using telnyx_run_keeps [of new_telnyx frames c uploads]
  by (simp add: c_def uploads_def telnyx_ok_def new_telnyx_def)

text \<open>The buffering client keeps the silence before speech too: after half a minute of it the first
  tick after the caller began cuts the utterance, however short it is.\<close>

lemma silence_cuts_the_first_words:
  assumes "\<not> bs_speaking c" and "960000 \<le> length (bs_audio c)" and "rms_energy (linear16_to_pcm bytes) > speech_energy_threshold"
  shows "\<exists>c'. flush_if_needed False now (batch_send_audio now bytes c) = (c', Some (bs_audio c @ bytes)) \<and> \<not> bs_speaking c'"
proof -
  have "bs_audio c \<noteq> []" using assms(2) by auto
  moreover have "30 \<le> int ((length (bs_audio c) + length bytes) div 2 div 16000)"
  proof -
    have "960000 div 2 div 16000 \<le> (length (bs_audio c) + length bytes) div 2 div 16000"
      using assms(2) by (intro div_le_mono) simp
    then show ?thesis by simp
  qed
  ultimately show ?thesis
    using assms by (simp add: batch_send_audio_def flush_if_needed_def Let_def max_buffer_duration_def)
qed

text \<open>What is flushed when the client is closed is never transcribed.\<close>

lemma closing_drops_the_last_words: "batch_transcribe True api pcm = []"
  by (simp add: batch_transcribe_def)

section \<open>Witness\<close>

theorem utterance_keeps_every_chunk_witness:
  "snd (deepgram_step (deepgram_run ([] @ [Message 0 True False ''Book a table'' 1] @ [Speech_began])) (Utterance_end 5)) =
     [\<lparr>sr_text = ''Book a table'', sr_final = True, sr_confidence = 1\<rparr>]"
proof -
  let ?d = "deepgram_run ([] @ [Message 0 True False ''Book a table'' 1] @ [Speech_began])"
  have "snd (deepgram_step ?d (Utterance_end 5)) = [\<lparr>sr_text = ''Book a table'', sr_final = True, sr_confidence = 1\<rparr>]"
    by code_simp
  moreover have "trim_space ''Book a table'' \<noteq> []" by code_simp
  then have "\<exists>words. said_in (str_fields ''Book a table'') (str_fields words)"
    using utterance_keeps_every_chunk [of "''Book a table''" "[Speech_began]" "Utterance_end 5" "[]" 0 1] by auto
  ultimately show ?thesis by blast
qed

end
