(* ===== verification/Speech_Clients.thy ===== *)
theory Speech_Clients
  imports Speech_Input Plugin_Host Configuration Go_Wire
begin

text \<open>
  The clients of the speech-to-text services (\<open>internal/stt\<close>): what they send, what they make of
  what the service sends, and which one a configuration selects (\<open>stt.go\<close>). AssemblyAI and Telnyx
  continue \<open>Speech_Input\<close>; Volcengine, Aliyun, Moonshine, VibeVoice and the WAV file OpenAI takes
  are here as a whole.

  Dialling and the transport are outside the model: an incoming message is a \<open>raw\<close>, what is
  written is a list of frames, and a write to an open connection succeeds. Decompression of a gzip
  payload, the parsing of its bytes and Deepgram's SDK types are parameters.
\<close>

section \<open>AssemblyAI\<close>

definition assembly_stream_url :: str where
  "assembly_stream_url = ''wss://streaming.assemblyai.com/v3/ws''"

definition assembly_url :: "assemblyai_config \<Rightarrow> str" where
  "assembly_url cfg =
     (let q = values_set ''encoding'' ''pcm_s16le'' (values_set ''sample_rate'' (itoa 16000) []);
          q = (if aai_model cfg \<noteq> [] then values_set ''speech_model'' (aai_model cfg) q else q);
          q = (if base_language (aai_language cfg) \<noteq> [] then values_set ''language_code'' (base_language (aai_language cfg)) q else q);
          q = values_set ''format_turns''
                (if (case aai_format_turns cfg of None \<Rightarrow> True | Some b \<Rightarrow> b) then ''true'' else ''false'') q;
          q = (if 0 < aai_end_of_turn_silence_ms cfg
               then values_set ''end_of_turn_confidence_threshold_silence_duration_ms'' (itoa (aai_end_of_turn_silence_ms cfg)) q
               else q);
          q = fold (\<lambda>kw q. if trim_space kw \<noteq> [] then values_add ''keyterm_prompt'' kw q else q) (aai_keyterms cfg) q
      in assembly_stream_url @ ''?'' @ query_encode q)"

definition decode_word :: "json \<Rightarrow> rat option" where
  "decode_word j =
     (if into_struct (Json j)
      then map_option (\<lambda>c. case c of None \<Rightarrow> 0 | Some x \<Rightarrow> x) (as_number (struct_field ''confidence'' (Json j)))
      else None)"

definition decode_turn :: "raw \<Rightarrow> assembly_turn option" where
  "decode_turn m =
     (case (as_int (struct_field ''turn_order'' m), as_bool (struct_field ''turn_is_formatted'' m),
            as_number (struct_field ''end_of_turn_confidence'' m)) of
        (Some _, Some _, Some _) \<Rightarrow>
          (case (as_string (struct_field ''transcript'' m), as_bool (struct_field ''end_of_turn'' m),
                 Option.bind (sub_list ''words'' m) (\<lambda>ws. all_some (map decode_word ws))) of
             (Some t, Some e, Some ws) \<Rightarrow> Some \<lparr>at_transcript = t, at_end_of_turn = e, at_words = ws\<rparr>
           | _ \<Rightarrow> None)
      | _ \<Rightarrow> None)"

text \<open>One message; the last component says whether the reader goes on.\<close>

definition assembly_message :: "instant \<Rightarrow> bool \<Rightarrow> raw \<Rightarrow> assembly \<Rightarrow> assembly \<times> transcript_result list \<times> bool" where
  "assembly_message now is_text m a =
     (if \<not> is_text then (a, [], True)
      else case (if into_struct m then as_string (struct_field ''type'' m) else None) of
        None \<Rightarrow> (a, [], True)
      | Some t \<Rightarrow>
          if t = ''Turn'' then
            (case decode_turn m of
               None \<Rightarrow> (a, [], True)
             | Some turn \<Rightarrow> (case handle_turn now turn a of (a', rs) \<Rightarrow> (a', rs, True)))
          else if t = ''Termination'' then (a, [], False)
          else (a, [], True))"

section \<open>Telnyx\<close>

definition telnyx_in_house_engine :: str where "telnyx_in_house_engine = ''Telnyx''"
definition telnyx_default_engine :: str where "telnyx_default_engine = ''Deepgram''"
definition telnyx_stt_url :: str where "telnyx_stt_url = ''wss://api.telnyx.com/v2/speech-to-text/transcription''"

definition telnyx_stt_endpoint :: "str \<Rightarrow> str" where
  "telnyx_stt_endpoint engine =
     telnyx_stt_url @ ''?transcription_engine='' @ query_escape engine @ ''&input_format=linear16&sample_rate=16000'' @
     (if engine \<noteq> telnyx_in_house_engine then ''&interim_results=true'' else [])"

text \<open>The hosted engines: one connection for the session, read until it ends or reports an error.\<close>

fun session_results :: "raw list \<Rightarrow> transcript_result list" where
  "session_results [] = []"
| "session_results (m # ms) =
     (case route_telnyx_frame m of
        Inl e \<Rightarrow> []
      | Inr None \<Rightarrow> session_results ms
      | Inr (Some r) \<Rightarrow> r # session_results ms)"

text \<open>The in-house engine: an utterance is uploaded on a connection of its own, with a pause after
  every tenth frame.\<close>

definition telnyx_send_batch_frames :: nat where "telnyx_send_batch_frames = 10"
definition telnyx_send_pace :: duration where "telnyx_send_pace = 30 * millisecond"

datatype upload = Send_frame "byte list" | Pause duration

fun upload_plan :: "nat \<Rightarrow> byte list list \<Rightarrow> upload list" where
  "upload_plan i [] = []"
| "upload_plan i (f # fs) =
     Send_frame f # (if (i + 1) mod telnyx_send_batch_frames = 0 then [Pause telnyx_send_pace] else []) @ upload_plan (i + 1) fs"

definition upload_time :: "byte list list \<Rightarrow> duration" where
  "upload_time fs = sum_list (map (\<lambda>u. case u of Pause d \<Rightarrow> d | Send_frame _ \<Rightarrow> 0) (upload_plan 0 fs))"

section \<open>Volcengine\<close>

definition volc_full_client :: byte where "volc_full_client = 1"
definition volc_audio_only :: byte where "volc_audio_only = 2"
definition volc_full_server :: byte where "volc_full_server = 9"
definition volc_error_message :: byte where "volc_error_message = 15"
definition volc_flag_last_packet :: byte where "volc_flag_last_packet = 2"

definition volc_frame :: "byte \<Rightarrow> byte \<Rightarrow> byte list \<Rightarrow> byte list" where
  "volc_frame msg_type flags payload =
     [0x11, push_bit 4 msg_type OR flags, 0x10, 0] @ put_be32 (of_nat (length payload)) @ payload"

definition default_end_window_ms :: int where "default_end_window_ms = 800"

definition volc_config :: "volcengine_config \<Rightarrow> json" where
  "volc_config cfg =
     JObj [(''user'', JObj [(''uid'', JStr ''streamcore'')]),
       (''audio'', JObj [(''format'', JStr ''pcm''), (''codec'', JStr ''raw''), (''rate'', JNum 16000),
          (''bits'', JNum 16), (''channel'', JNum 1)]),
       (''request'', JObj [(''model_name'', JStr (if vlc_model cfg = [] then ''bigmodel'' else vlc_model cfg)),
          (''enable_itn'', JBool True), (''enable_punc'', JBool True), (''show_utterances'', JBool True),
          (''end_window_size'', JNum (of_int (if vlc_end_window_ms cfg \<le> 0 then default_end_window_ms else vlc_end_window_ms cfg)))])]"

text \<open>A server message has a sequence number between the header and the payload length.\<close>

definition parse_volc_frame :: "(byte list \<Rightarrow> byte list option) \<Rightarrow> byte list \<Rightarrow> (byte \<times> byte list) option" where
  "parse_volc_frame gunzip data =
     (if length data < 12 then None
      else let msg_type = drop_bit 4 (data ! 1) AND 0x0F; payload = drop 12 data in
        if data ! 2 AND 0x0F = 1 then map_option (Pair msg_type) (gunzip payload)
        else Some (msg_type, payload))"

record volc_utterance =
  vu_text :: str
  vu_definite :: bool

record volc_response =
  vr_text :: str
  vr_utterances :: "volc_utterance list"
  vr_error :: str

definition decode_utterance :: "json \<Rightarrow> volc_utterance option" where
  "decode_utterance j =
     (case (as_string (struct_field ''text'' (Json j)), as_bool (struct_field ''definite'' (Json j))) of
        (Some t, Some d) \<Rightarrow> if into_struct (Json j) then Some \<lparr>vu_text = t, vu_definite = d\<rparr> else None
      | _ \<Rightarrow> None)"

definition decode_volc_response :: "raw \<Rightarrow> volc_response option" where
  "decode_volc_response m =
     (case (if into_struct m then sub_struct ''result'' m else None, as_string (struct_field ''error'' m)) of
        (Some r, Some e) \<Rightarrow>
          (case (as_string (struct_field ''text'' r), Option.bind (sub_list ''utterances'' r) (\<lambda>us. all_some (map decode_utterance us))) of
             (Some t, Some us) \<Rightarrow> Some \<lparr>vr_text = t, vr_utterances = us, vr_error = e\<rparr>
           | _ \<Rightarrow> None)
      | _ \<Rightarrow> None)"

definition volc_final :: "str \<Rightarrow> transcript_result" where
  "volc_final s = \<lparr>sr_text = s, sr_final = True, sr_confidence = 0\<rparr>"

definition volc_partial :: "str \<Rightarrow> transcript_result" where
  "volc_partial s = \<lparr>sr_text = s, sr_final = False, sr_confidence = 0\<rparr>"

text \<open>One response. The state is the number of utterances reported as final.\<close>

definition volc_results :: "volc_response \<Rightarrow> nat \<Rightarrow> nat \<times> transcript_result list" where
  "volc_results r emitted =
     (let us = vr_utterances r;
          definite = length (takeWhile vu_definite us);
          settled = map (\<lambda>u. trim_space (vu_text u)) (drop emitted (take definite us));
          finals = map volc_final (filter (\<lambda>s. s \<noteq> []) settled);
          pending = trim_space (concat (map vu_text (drop definite us)));
          shown = (if pending = [] \<and> us = [] then trim_space (vr_text r) else pending)
      in (definite, finals @ (if shown = [] then [] else [volc_partial shown])))"

definition volc_message ::
  "(byte list \<Rightarrow> byte list option) \<Rightarrow> (byte list \<Rightarrow> raw) \<Rightarrow> byte list \<Rightarrow> nat \<Rightarrow> nat \<times> transcript_result list" where
  "volc_message gunzip json_of data emitted =
     (case parse_volc_frame gunzip data of
        None \<Rightarrow> (emitted, [])
      | Some (t, payload) \<Rightarrow>
          if t = volc_error_message \<or> t \<noteq> volc_full_server \<or> payload = [] then (emitted, [])
          else (case decode_volc_response (json_of payload) of
             None \<Rightarrow> (emitted, [])
           | Some r \<Rightarrow> if vr_error r \<noteq> [] then (emitted, []) else volc_results r emitted))"

text \<open>The stream of one client: the configuration first, then audio; the mutex makes every write and
  the first half of \<open>Close\<close> a step, and \<open>Close\<close> goes on to the last packet.\<close>

definition volc_last_packet :: "byte list" where
  "volc_last_packet = [0x11, push_bit 4 volc_audio_only OR volc_flag_last_packet, 0x10, 0, 0, 0, 0, 0]"

record volc_stream =
  vk_closed :: bool
  vk_closing :: bool
  vk_wire :: "byte list list"
  vk_down :: bool

definition new_volc_stream :: "byte list \<Rightarrow> volc_stream" where
  "new_volc_stream body =
     \<lparr>vk_closed = False, vk_closing = False, vk_wire = [volc_frame volc_full_client 0 body], vk_down = False\<rparr>"

inductive volc_step :: "volc_stream \<Rightarrow> volc_stream \<Rightarrow> bool" where
  audio: "\<not> vk_closed s \<Longrightarrow> volc_step s (s\<lparr>vk_wire := vk_wire s @ [volc_frame volc_audio_only 0 data]\<rparr>)"
| close: "\<not> vk_closed s \<Longrightarrow> volc_step s (s\<lparr>vk_closed := True, vk_closing := True\<rparr>)"
| last_packet: "vk_closing s \<Longrightarrow> volc_step s (s\<lparr>vk_closing := False, vk_wire := vk_wire s @ [volc_last_packet]\<rparr>)"
| drop: "vk_closed s \<Longrightarrow> \<not> vk_closing s \<Longrightarrow> volc_step s (s\<lparr>vk_down := True\<rparr>)"

section \<open>Aliyun\<close>

datatype wire_frame = Audio_frame "byte list" | Control json | Closing

definition default_aliyun_model :: str where "default_aliyun_model = ''paraformer-realtime-v2''"

definition aliyun_run_task :: "str \<Rightarrow> aliyun_config \<Rightarrow> json" where
  "aliyun_run_task task cfg =
     JObj [(''header'', JObj [(''action'', JStr ''run-task''), (''task_id'', JStr task), (''streaming'', JStr ''duplex'')]),
       (''payload'', JObj [(''task_group'', JStr ''audio''), (''task'', JStr ''asr''), (''function'', JStr ''recognition''),
          (''model'', JStr (if aly_model cfg = [] then default_aliyun_model else aly_model cfg)),
          (''parameters'', JObj ([(''sample_rate'', JNum 16000), (''format'', JStr ''pcm'')] @
             (if aly_language cfg \<noteq> [] then [(''language_hints'', JArr [JStr (aly_language cfg)])] else []) @
             (if aly_vocabulary_id cfg \<noteq> [] then [(''vocabulary_id'', JStr (aly_vocabulary_id cfg))] else []))),
          (''input'', JObj [])])]"

definition aliyun_finish_task :: "str \<Rightarrow> json" where
  "aliyun_finish_task task =
     JObj [(''header'', JObj [(''action'', JStr ''finish-task''), (''task_id'', JStr task), (''streaming'', JStr ''duplex'')])]"

record aliyun_result =
  ar_event :: str
  ar_text :: str
  ar_sentence_end :: bool

definition decode_aliyun :: "raw \<Rightarrow> aliyun_result option" where
  "decode_aliyun m =
     (case (if into_struct m then sub_struct ''header'' m else None,
            Option.bind (sub_struct ''payload'' m) (\<lambda>p. Option.bind (sub_struct ''output'' p) (sub_struct ''sentence''))) of
        (Some h, Some s) \<Rightarrow>
          (case (all_some (map (\<lambda>k. as_string (struct_field k h))
                   [''event'', ''action'', ''task_id'', ''streaming'', ''error_code'', ''error_message'']),
                 as_string (struct_field ''text'' s), as_bool (struct_field ''sentence_end'' s)) of
             (Some (event # _), Some t, Some e) \<Rightarrow> Some \<lparr>ar_event = event, ar_text = t, ar_sentence_end = e\<rparr>
           | _ \<Rightarrow> None)
      | _ \<Rightarrow> None)"

text \<open>One message: whether the task counts as started afterwards, the results, and whether the reader
  goes on.\<close>

definition aliyun_message :: "bool \<Rightarrow> raw \<Rightarrow> bool \<Rightarrow> bool \<times> transcript_result list \<times> bool" where
  "aliyun_message is_text m started =
     (case (if is_text then decode_aliyun m else None) of
        None \<Rightarrow> (started, [], True)
      | Some r \<Rightarrow>
          if ar_event r = ''task-started'' then (True, [], True)
          else if ar_event r = ''result-generated'' then
            (let s = trim_space (ar_text r) in
             (started, if s = [] then [] else [\<lparr>sr_text = s, sr_final = ar_sentence_end r, sr_confidence = 0\<rparr>], True))
          else if ar_event r = ''task-failed'' \<or> ar_event r = ''task-finished'' then (started, [], False)
          else (started, [], True))"

text \<open>The constructor waits until the task has started or the call's context is done: over the
  messages received so far, does it return a client?\<close>

fun aliyun_handshake :: "(bool \<times> raw) list \<Rightarrow> bool" where
  "aliyun_handshake [] \<longleftrightarrow> False"
| "aliyun_handshake (m # ms) \<longleftrightarrow>
     (case aliyun_message (fst m) (snd m) False of (started, _, alive) \<Rightarrow> started \<or> alive \<and> aliyun_handshake ms)"

section \<open>Moonshine and VibeVoice\<close>

text \<open>Moonshine's server speaks Deepgram's messages; decoding them is the SDK's part.\<close>

definition route_moonshine ::
  "(raw \<Rightarrow> (bool \<times> bool \<times> str \<times> rat) option) \<Rightarrow> (raw \<Rightarrow> bool) \<Rightarrow> instant \<Rightarrow> raw \<Rightarrow> deepgram \<Rightarrow> str + deepgram \<times> transcript_result list" where
  "route_moonshine sdk sdk_ok now m d =
     (case (if into_struct m then as_string (struct_field ''type'' m) else None) of
        None \<Rightarrow> Inl ''frame is not JSON''
      | Some t \<Rightarrow>
          if t = ''Results'' then
            (case sdk m of
               None \<Rightarrow> Inl ''parse Results''
             | Some (is_final, speech_final, transcript, conf) \<Rightarrow>
                 Inr (deepgram_step d (Message now is_final speech_final transcript conf)))
          else if t = ''SpeechStarted'' then
            (if sdk_ok m then Inr (deepgram_step d Speech_began) else Inl ''parse SpeechStarted'')
          else if t = ''UtteranceEnd'' then
            (if sdk_ok m then Inr (deepgram_step d (Utterance_end now)) else Inl ''parse UtteranceEnd'')
          else if t = ''Error'' then
            (if as_string (struct_field ''description'' m) \<noteq> None \<and> as_string (struct_field ''message'' m) \<noteq> None
             then Inr (d, []) else Inl ''parse Error'')
          else Inr (d, []))"

definition vibevoice_message :: "raw \<Rightarrow> transcript_result list" where
  "vibevoice_message m =
     (case (if into_struct m then as_string (struct_field ''text'' m) else None, as_bool (struct_field ''is_final'' m)) of
        (Some t, Some f) \<Rightarrow> if t \<noteq> [] then [\<lparr>sr_text = t, sr_final = f, sr_confidence = 0\<rparr>] else []
      | _ \<Rightarrow> [])"

text \<open>Writing and closing under one mutex. VibeVoice and Moonshine say goodbye, Telnyx just closes.\<close>

record socket =
  so_closed :: bool
  so_wire :: "wire_frame list"

definition socket_send :: "byte list \<Rightarrow> socket \<Rightarrow> socket \<times> bool" where
  "socket_send data s =
     (if so_closed s then (s, False) else (s\<lparr>so_wire := so_wire s @ [Audio_frame data]\<rparr>, True))"

definition socket_close :: "socket \<Rightarrow> socket" where
  "socket_close s = (if so_closed s then s else s\<lparr>so_closed := True, so_wire := so_wire s @ [Closing]\<rparr>)"

definition telnyx_session_close :: "socket \<Rightarrow> socket" where
  "telnyx_session_close s = (if so_closed s then s else s\<lparr>so_closed := True\<rparr>)"

section \<open>A WAV file\<close>

definition encode_wav :: "byte list \<Rightarrow> nat \<Rightarrow> nat \<Rightarrow> nat \<Rightarrow> byte list" where
  "encode_wav pcm sample_rate channels bits_per_sample =
     (let byte_rate = sample_rate * channels * bits_per_sample div 8;
          block_align = channels * bits_per_sample div 8
      in to_bytes ''RIFF'' @ put_le32 (of_nat (36 + length pcm)) @ to_bytes ''WAVE'' @
         to_bytes ''fmt '' @ put_le32 16 @ put_uint16 1 @ put_uint16 (of_nat channels) @ put_le32 (of_nat sample_rate) @
         put_le32 (of_nat byte_rate) @ put_uint16 (of_nat block_align) @ put_uint16 (of_nat bits_per_sample) @
         to_bytes ''data'' @ put_le32 (of_nat (length pcm)) @ pcm)"

section \<open>The client a configuration selects\<close>

datatype telnyx_kind = Session_client str | Utterance_client

definition new_telnyx_client :: "telnyx_config \<Rightarrow> telnyx_kind" where
  "new_telnyx_client cfg =
     (let engine = (if tlx_transcription_engine cfg = [] then telnyx_default_engine else tlx_transcription_engine cfg) in
      if engine = telnyx_in_house_engine then Utterance_client else Session_client engine)"

datatype stt_client =
    Deepgram_client | Openai_client str | Assembly_client | Aliyun_client | Volc_client
  | Telnyx_client telnyx_kind | Vibevoice_client str | Moonshine_client str

datatype provider_error = Key_missing str | Unknown_provider str

definition new_stt_client :: "config \<Rightarrow> provider_error + stt_client" where
  "new_stt_client c =
     (let p = stt_provider (cf_stt c); need = (\<lambda>key client. if key = [] then Inl (Key_missing p) else Inr client) in
      if p = ''deepgram'' then need (dgr_api_key (cf_deepgram c)) Deepgram_client
      else if p = ''openai'' then
        need (oai_api_key (cf_openai c)) (Openai_client (if oai_stt_model (cf_openai c) = [] then ''whisper-1'' else oai_stt_model (cf_openai c)))
      else if p = ''assemblyai'' then need (aai_api_key (cf_assemblyai c)) Assembly_client
      else if p = ''aliyun'' then need (aly_api_key (cf_aliyun c)) Aliyun_client
      else if p = ''volcengine'' then need (vlc_api_key (cf_volcengine c)) Volc_client
      else if p = ''telnyx'' then need (tlx_api_key (cf_telnyx c)) (Telnyx_client (new_telnyx_client (cf_telnyx c)))
      else if p = ''vibevoice'' then Inr (Vibevoice_client (vbv_asr_url (cf_vibevoice c)))
      else if p = ''moonshine'' then Inr (Moonshine_client (mns_stt_url (cf_moonshine c)))
      else Inl (Unknown_provider p))"

text \<open>A client that does not say whether it streams partial transcripts is taken to.\<close>

fun emits_partials :: "stt_client \<Rightarrow> bool" where
  "emits_partials (Openai_client _) \<longleftrightarrow> False"
| "emits_partials (Telnyx_client k) \<longleftrightarrow> k \<noteq> Utterance_client"
| "emits_partials _ \<longleftrightarrow> True"

section \<open>A client that was closed writes nothing\<close>

datatype client_op = Send_audio "byte list" | Close_client

locale closable =
  fixes closed :: "'s \<Rightarrow> bool" and send :: "byte list \<Rightarrow> 's \<Rightarrow> 's \<times> bool" and close :: "'s \<Rightarrow> 's"
  assumes send_closed: "closed s \<Longrightarrow> send data s = (s, False)"
    and send_open: "\<not> closed s \<Longrightarrow> snd (send data s) \<and> \<not> closed (fst (send data s))"
    and close_closed: "closed (close s)"
    and close_again: "closed s \<Longrightarrow> close s = s"
begin

fun client_run :: "'s \<Rightarrow> client_op list \<Rightarrow> 's \<times> bool list" where
  "client_run s [] = (s, [])"
| "client_run s (Send_audio data # ops) =
     (case send data s of (s', ok) \<Rightarrow> (case client_run s' ops of (s'', oks) \<Rightarrow> (s'', ok # oks)))"
| "client_run s (Close_client # ops) = client_run (close s) ops"

lemma run_closed: "closed s \<Longrightarrow> fst (client_run s ops) = s \<and> set (snd (client_run s ops)) \<subseteq> {False}"
proof (induction ops)
  case (Cons op ops)
  then show ?case by (cases op) (auto simp: send_closed close_again split: prod.splits)
qed simp

lemma nothing_after_close:
  "fst (client_run (close s) ops) = close s \<and> set (snd (client_run (close s) ops)) \<subseteq> {False}"
  by (rule run_closed [OF close_closed])

end

interpretation farewell_socket: closable so_closed socket_send socket_close
  by unfold_locales (auto simp: socket_send_def socket_close_def)

interpretation telnyx_socket: closable so_closed socket_send telnyx_session_close
  by unfold_locales (auto simp: socket_send_def telnyx_session_close_def)

section \<open>Volcengine's utterances\<close>

definition settled :: "volc_response \<Rightarrow> str list" where
  "settled r = map vu_text (takeWhile vu_definite (vr_utterances r))"

text \<open>What the service promises: once settled, an utterance stays as it is.\<close>

fun only_appended :: "str list \<Rightarrow> volc_response list \<Rightarrow> bool" where
  "only_appended known [] \<longleftrightarrow> True"
| "only_appended known (r # rs) \<longleftrightarrow> prefix known (settled r) \<and> only_appended (settled r) rs"

fun volc_run :: "volc_response list \<Rightarrow> nat \<Rightarrow> nat \<times> transcript_result list" where
  "volc_run [] n = (n, [])"
| "volc_run (r # rs) n =
     (case volc_results r n of (n', out) \<Rightarrow> (case volc_run rs n' of (n'', out') \<Rightarrow> (n'', out @ out')))"

definition finals_of :: "transcript_result list \<Rightarrow> str list" where
  "finals_of rs = map sr_text (filter sr_final rs)"

definition spoken :: "str list \<Rightarrow> str list" where
  "spoken ss = filter (\<lambda>s. s \<noteq> []) (map trim_space ss)"

lemma finals_of_append [simp]: "finals_of (a @ b) = finals_of a @ finals_of b"
  by (simp add: finals_of_def)

lemma spoken_append: "spoken (a @ b) = spoken a @ spoken b"
  by (simp add: spoken_def)

lemma volc_results_settled:
  "fst (volc_results r n) = length (settled r) \<and> finals_of (snd (volc_results r n)) = spoken (drop n (settled r))"
proof -
  let ?us = "vr_utterances r"
  have t: "take (length (takeWhile vu_definite ?us)) ?us = takeWhile vu_definite ?us"
    by (metis takeWhile_eq_take)
  have "map (\<lambda>u. trim_space (vu_text u)) (drop n (takeWhile vu_definite ?us)) = map trim_space (drop n (settled r))"
    by (simp add: settled_def drop_map)
  moreover have "finals_of (map volc_final ss) = ss" for ss
    by (induction ss) (simp_all add: finals_of_def volc_final_def)
  moreover have "finals_of [volc_partial s] = []" for s by (simp add: finals_of_def volc_partial_def)
  moreover have "finals_of [] = []" by (simp add: finals_of_def)
  ultimately show ?thesis by (simp add: volc_results_def Let_def t spoken_def settled_def)
qed

lemma volc_run_settled:
  "only_appended known rs \<Longrightarrow>
   finals_of (snd (volc_run rs (length known))) = spoken (drop (length known) (last (known # map settled rs)))"
proof (induction rs arbitrary: known)
  case (Cons r rs)
  from Cons.prems obtain t where t: "settled r = known @ t" and rest: "only_appended (settled r) rs"
    by (auto elim: prefixE)
  obtain n out where v: "volc_results r (length known) = (n, out)" by fastforce
  with volc_results_settled [of r "length known"] t
  have n: "n = length (settled r)" and out: "finals_of out = spoken t" by simp_all
  obtain n' out' where v': "volc_run rs n = (n', out')" by fastforce
  have grow: "\<exists>u. last (ks # map settled rs) = ks @ u" if "only_appended ks rs" for ks
    using that
  proof (induction rs arbitrary: ks)
    case (Cons q qs)
    from Cons.prems obtain w where w: "settled q = ks @ w" and "only_appended (settled q) qs"
      by (auto elim: prefixE)
    with Cons.IH obtain u where "last (settled q # map settled qs) = settled q @ u" by blast
    with w show ?case by auto
  qed simp
  from grow [OF rest] obtain u where u: "last (settled r # map settled rs) = settled r @ u" by blast
  have "finals_of out' = spoken u"
    using Cons.IH [OF rest] v' u n by simp
  with v v' out u t show ?case by (simp add: spoken_append)
qed (simp add: finals_of_def spoken_def)

text \<open>Volcengine repeats the whole conversation in every message, yet every settled utterance is
  reported as a final exactly once and in order: provided settled utterances stay as they are,
  the finals of a session are the non-blank settled utterances of its last message.\<close>

theorem settled_utterances_are_reported_once:
  assumes "only_appended [] (rs @ [r])"
  shows "map sr_text (filter sr_final (snd (volc_run (rs @ [r]) 0))) =
    filter (\<lambda>s. s \<noteq> []) (map trim_space (settled r))"
  using volc_run_settled [OF assms] by (simp add: finals_of_def spoken_def)

theorem settled_utterances_are_reported_once_witness:
  "map sr_text (filter sr_final (snd (volc_run
      [\<lparr>vr_text = ''ni hao'', vr_utterances = [\<lparr>vu_text = ''ni'', vu_definite = False\<rparr>], vr_error = []\<rparr>,
       \<lparr>vr_text = ''ni hao'', vr_utterances = [\<lparr>vu_text = ''ni hao'', vu_definite = True\<rparr>], vr_error = []\<rparr>,
       \<lparr>vr_text = ''ni hao ma'', vr_utterances = [\<lparr>vu_text = ''ni hao'', vu_definite = True\<rparr>, \<lparr>vu_text = '' ma '', vu_definite = True\<rparr>], vr_error = []\<rparr>] 0))) =
   [''ni hao'', ''ma'']"
proof -
  let ?rs = "[\<lparr>vr_text = ''ni hao'', vr_utterances = [\<lparr>vu_text = ''ni'', vu_definite = False\<rparr>], vr_error = []\<rparr>,
       \<lparr>vr_text = ''ni hao'', vr_utterances = [\<lparr>vu_text = ''ni hao'', vu_definite = True\<rparr>], vr_error = []\<rparr>]"
  let ?r = "\<lparr>vr_text = ''ni hao ma'', vr_utterances = [\<lparr>vu_text = ''ni hao'', vu_definite = True\<rparr>, \<lparr>vu_text = '' ma '', vu_definite = True\<rparr>], vr_error = []\<rparr>"
  have "filter (\<lambda>s. s \<noteq> []) (map trim_space (settled ?r)) = [''ni hao'', ''ma'']" by code_simp
  moreover have "only_appended [] (?rs @ [?r])" by (simp add: settled_def)
  ultimately show ?thesis using settled_utterances_are_reported_once [of ?rs ?r] by simp
qed

section \<open>The last packet is the last\<close>

lemma last_packet_frame: "volc_last_packet = volc_frame volc_audio_only volc_flag_last_packet []"
  by (simp add: volc_last_packet_def volc_frame_def put_be32_def)

definition volc_stream_ok :: "byte list \<Rightarrow> volc_stream \<Rightarrow> bool" where
  "volc_stream_ok body s \<longleftrightarrow> (vk_closing s \<longrightarrow> vk_closed s) \<and>
     (\<exists>chunks. vk_wire s = [volc_frame volc_full_client 0 body] @ map (volc_frame volc_audio_only 0) chunks @
        (if vk_closed s \<and> \<not> vk_closing s then [volc_last_packet] else []))"

lemma volc_step_ok: "volc_step s t \<Longrightarrow> volc_stream_ok body s \<Longrightarrow> volc_stream_ok body t"
proof (induction rule: volc_step.induct)
  case (audio s data)
  then obtain chunks where "vk_wire s = [volc_frame volc_full_client 0 body] @ map (volc_frame volc_audio_only 0) chunks"
    and "vk_closing s \<longrightarrow> vk_closed s" by (auto simp: volc_stream_ok_def)
  then show ?case using audio
    by (auto simp: volc_stream_ok_def intro: exI [of _ "chunks @ [data]"])
qed (auto simp: volc_stream_ok_def)

text \<open>Whatever the interleaving of audio with the closing of a call, Volcengine gets the
  configuration first, then audio, and the packet that flushes the recogniser exactly once and
  last; a connection is dropped only after it was sent.\<close>

theorem last_packet_is_last:
  assumes "volc_step\<^sup>*\<^sup>* (new_volc_stream body) s"
  shows "\<exists>chunks. vk_wire s = [volc_frame volc_full_client 0 body] @ map (volc_frame volc_audio_only 0) chunks @
    (if vk_closed s \<and> \<not> vk_closing s then [volc_last_packet] else [])"
proof -
  have "volc_stream_ok body (new_volc_stream body)"
    by (simp add: volc_stream_ok_def new_volc_stream_def)
  with assms have "volc_stream_ok body s" by induction (auto intro: volc_step_ok)
  then show ?thesis by (auto simp: volc_stream_ok_def)
qed

theorem last_packet_is_last_witness:
  "\<exists>chunks. [volc_frame volc_full_client 0 [7], volc_frame volc_audio_only 0 [1, 2], volc_last_packet] =
    [volc_frame volc_full_client 0 [7]] @ map (volc_frame volc_audio_only 0) chunks @ [volc_last_packet]"
proof -
  let ?s0 = "new_volc_stream [7]"
  let ?s1 = "?s0\<lparr>vk_wire := vk_wire ?s0 @ [volc_frame volc_audio_only 0 [1, 2]]\<rparr>"
  let ?s2 = "?s1\<lparr>vk_closed := True, vk_closing := True\<rparr>"
  let ?s3 = "?s2\<lparr>vk_closing := False, vk_wire := vk_wire ?s2 @ [volc_last_packet]\<rparr>"
  have "volc_step ?s0 ?s1" by (rule volc_step.audio) (simp add: new_volc_stream_def)
  moreover have "volc_step ?s1 ?s2" by (rule volc_step.close) (simp add: new_volc_stream_def)
  moreover have "volc_step ?s2 ?s3" by (rule volc_step.last_packet) simp
  ultimately have "volc_step\<^sup>*\<^sup>* ?s0 ?s3" by (meson rtranclp.rtrancl_refl rtranclp.rtrancl_into_rtrancl)
  from last_packet_is_last [OF this] show ?thesis by (simp add: new_volc_stream_def)
qed

section \<open>Round trips\<close>

definition wav_payload :: "byte list \<Rightarrow> (nat \<times> nat \<times> nat \<times> byte list) option" where
  "wav_payload f =
     (if take 4 f = to_bytes ''RIFF'' \<and> get_le32 (drop 4 f) = of_nat (length f - 8) \<and> take 4 (drop 8 f) = to_bytes ''WAVE'' \<and>
         take 4 (drop 12 f) = to_bytes ''fmt '' \<and> take 4 (drop 36 f) = to_bytes ''data'' \<and>
         unat (get_le32 (drop 40 f)) = length (drop 44 f)
      then Some (unat (get_uint16 (f ! 22) (f ! 23)), unat (get_le32 (drop 24 f)), unat (get_uint16 (f ! 34) (f ! 35)), drop 44 f)
      else None)"

lemma wav_layout:
  fixes pcm :: "byte list" and rate channels bits :: nat
  defines "w \<equiv> encode_wav pcm rate channels bits"
  shows "take 4 w = to_bytes ''RIFF''" "get_le32 (drop 4 w) = of_nat (36 + length pcm)" "take 4 (drop 8 w) = to_bytes ''WAVE''"
    "take 4 (drop 12 w) = to_bytes ''fmt ''" "get_uint16 (w ! 22) (w ! 23) = of_nat channels"
    "get_le32 (drop 24 w) = of_nat rate" "get_uint16 (w ! 34) (w ! 35) = of_nat bits"
    "take 4 (drop 36 w) = to_bytes ''data''" "get_le32 (drop 40 w) = of_nat (length pcm)" "drop 44 w = pcm" "length w = 44 + length pcm"
proof -
  obtain a b c d e where q: "put_le32 (of_nat (36 + length pcm)) = a" "put_le32 (of_nat rate) = b" "put_le32 16 = c"
    "put_le32 (of_nat (rate * channels * bits div 8)) = d" "put_le32 (of_nat (length pcm)) = e" by blast
  then have len: "length a = 4" "length b = 4" "length c = 4" "length d = 4" "length e = 4"
    using length_put_le32 by metis+
  then obtain a0 a1 a2 a3 b0 b1 b2 b3 c0 c1 c2 c3 d0 d1 d2 d3 e0 e1 e2 e3
    where abs: "a = [a0, a1, a2, a3]" "b = [b0, b1, b2, b3]" "c = [c0, c1, c2, c3]" "d = [d0, d1, d2, d3]" "e = [e0, e1, e2, e3]"
    by (auto simp: length_Suc_conv numeral_eq_Suc)
  have w: "w = to_bytes ''RIFF'' @ a @ to_bytes ''WAVE'' @ to_bytes ''fmt '' @ c @ put_uint16 1 @ put_uint16 (of_nat channels) @ b @
      d @ put_uint16 (of_nat (channels * bits div 8)) @ put_uint16 (of_nat bits) @ to_bytes ''data'' @ e @ pcm"
    by (simp add: w_def encode_wav_def Let_def q del: of_nat_add)
  have rt: "get_le32 (a @ r) = of_nat (36 + length pcm)" "get_le32 (b @ r) = of_nat rate" "get_le32 (e @ r) = of_nat (length pcm)" for r
    using q get_put_le32 by auto
  note s = w abs to_bytes_def put_uint16_def
  show "take 4 w = to_bytes ''RIFF''" "take 4 (drop 8 w) = to_bytes ''WAVE''"
    "take 4 (drop 12 w) = to_bytes ''fmt ''" "take 4 (drop 36 w) = to_bytes ''data''" "drop 44 w = pcm" "length w = 44 + length pcm"
    by (simp_all add: s)
  show "get_le32 (drop 4 w) = of_nat (36 + length pcm)"
    using rt(1) by (simp add: s del: of_nat_add)
  show "get_le32 (drop 24 w) = of_nat rate" "get_le32 (drop 40 w) = of_nat (length pcm)"
    using rt(2,3) by (simp_all add: s)
  show "get_uint16 (w ! 22) (w ! 23) = of_nat channels" "get_uint16 (w ! 34) (w ! 35) = of_nat bits"
    using get_put_uint16 by (simp_all add: s)
qed

text \<open>The file sent for transcription is a WAV file of the caller's audio: a reader gets the channels,
  the sample rate, the sample width and every byte of the audio back.\<close>

theorem wav_carries_the_audio:
  assumes "36 + length pcm < 2 ^ 32" and "channels < 2 ^ 16" and "bits < 2 ^ 16" and "rate < 2 ^ 32"
  shows "wav_payload (encode_wav pcm rate channels bits) = Some (channels, rate, bits, pcm)"
proof -
  have "unat (of_nat (length pcm) :: 32 word) = length pcm" "unat (of_nat rate :: 32 word) = rate"
    "unat (of_nat channels :: 16 word) = channels" "unat (of_nat bits :: 16 word) = bits"
    using assms by (simp_all add: unat_of_nat)
  then show ?thesis by (simp add: wav_payload_def wav_layout)
qed

theorem wav_carries_the_audio_witness:
  "wav_payload (encode_wav [1, 0, 255, 255] 16000 1 16) = Some (1, 16000, 16, [1, 0, 255, 255])"
  using wav_carries_the_audio [of "[1, 0, 255, 255]" 1 16 16000] by simp

text \<open>The address of a Telnyx connection names exactly the configured engine: no name adds a parameter.\<close>

theorem engine_reaches_telnyx:
  "\<exists>query. telnyx_stt_endpoint engine = telnyx_stt_url @ ''?'' @ query \<and>
    parse_query query = [Some (''transcription_engine'', engine), Some (''input_format'', ''linear16''), Some (''sample_rate'', ''16000'')] @
      (if engine = telnyx_in_house_engine then [] else [Some (''interim_results'', ''true'')])"
proof -
  let ?tail = "''input_format=linear16&sample_rate=16000'' @ (if engine \<noteq> telnyx_in_house_engine then ''&interim_results=true'' else [])"
  let ?q = "encode_pair (''transcription_engine'', engine) @ ''&'' @ ?tail"
  have esc: "query_escape ''transcription_engine'' = ''transcription_engine''" by code_simp
  have "CHR ''&'' \<notin> set (encode_pair (''transcription_engine'', engine))"
    using query_escape_plain [of "CHR ''&''"] by (auto simp: encode_pair_def)
  then have "split_on (CHR ''&'') ?q = encode_pair (''transcription_engine'', engine) # split_on (CHR ''&'') ?tail"
    using split_aux_word [of "CHR ''&''" _ "[]" "''&'' @ ?tail"] by (simp add: split_on_def)
  moreover have "map parse_pair (split_on (CHR ''&'') ?tail) = [Some (''input_format'', ''linear16''), Some (''sample_rate'', ''16000'')] @
      (if engine = telnyx_in_house_engine then [] else [Some (''interim_results'', ''true'')])"
    by (cases "engine = telnyx_in_house_engine"; simp only: if_True if_False simp_thms; code_simp)
  ultimately have "parse_query ?q = [Some (''transcription_engine'', engine), Some (''input_format'', ''linear16''), Some (''sample_rate'', ''16000'')] @
      (if engine = telnyx_in_house_engine then [] else [Some (''interim_results'', ''true'')])"
    by (simp add: parse_query_def parse_encode_pair)
  moreover have "telnyx_stt_endpoint engine = telnyx_stt_url @ ''?'' @ ?q"
    by (simp add: telnyx_stt_endpoint_def encode_pair_def esc)
  ultimately show ?thesis by blast
qed

section \<open>Observations\<close>

text \<open>A task the service refuses never starts: the constructor waits until the call is over.\<close>

lemma refused_task_blocks_the_call:
  assumes "decode_aliyun m = Some r" and "ar_event r = ''task-failed''"
  shows "\<not> aliyun_handshake ((True, m) # ms)"
  using assms by (simp add: aliyun_message_def)

text \<open>With formatting on, AssemblyAI ends a turn twice, and the two texts differ by more than case and
  spaces: both are reported.\<close>

lemma formatted_turn_is_reported_twice:
  "let (a, first) = handle_turn 0 \<lparr>at_transcript = ''hi there'', at_end_of_turn = True, at_words = []\<rparr>
         \<lparr>as_last_text = [], as_last_final = [], as_last_final_at = None\<rparr>;
       (_, again) = handle_turn 100000000 \<lparr>at_transcript = ''Hi there.'', at_end_of_turn = True, at_words = []\<rparr> a
   in map sr_text (first @ again) = [''hi there'', ''Hi there.'']"
  by code_simp

text \<open>A long utterance that was cut is still being uploaded when a short one after it is done: the second
  half of what the caller said can be reported before the first.\<close>

lemma upload_time_pauses: "upload_time fs = int (length fs div telnyx_send_batch_frames) * telnyx_send_pace"
proof -
  have "sum_list (map (\<lambda>u. case u of Pause d \<Rightarrow> d | Send_frame _ \<Rightarrow> 0) (upload_plan i fs)) =
      int ((i + length fs) div 10 - i div 10) * telnyx_send_pace" for i
  proof (induction fs arbitrary: i)
    case (Cons f fs)
    have step: "(i + 1) div 10 - i div 10 = (if (i + 1) mod 10 = 0 then 1 else 0)"
      using div_Suc [of i 10] by simp
    have "i div 10 \<le> (i + 1) div 10" "(i + 1) div 10 \<le> (i + 1 + length fs) div 10" by (rule div_le_mono, simp)+
    then have "int ((i + length (f # fs)) div 10 - i div 10) =
        int ((i + 1 + length fs) div 10 - (i + 1) div 10) + int ((i + 1) div 10 - i div 10)" by simp
    then show ?case
      unfolding step using Cons.IH [of "i + 1"] by (auto simp: telnyx_send_batch_frames_def algebra_simps)
  qed simp
  from this [of 0] show ?thesis by (simp add: upload_time_def telnyx_send_batch_frames_def)
qed

lemma second_utterance_overtakes_the_first:
  assumes "length long = 1500" and "length short = 100"
  shows "2 * second + upload_time short < upload_time long"
  using assms by (simp add: upload_time_pauses telnyx_send_batch_frames_def telnyx_send_pace_def)

text \<open>A missing key or a misspelt provider does not keep the server from starting: it is found when the
  first caller connects.\<close>

lemma missing_key_is_found_by_the_caller:
  "load_config (\<lambda>_. []) No_file = Inr (apply_defaults no_config) \<and>
   new_stt_client (apply_defaults no_config) = Inl (Key_missing ''deepgram'')"
proof
  show "load_config (\<lambda>_. []) No_file = Inr (apply_defaults no_config)" by (rule empty_config_loads)
  show "new_stt_client (apply_defaults no_config) = Inl (Key_missing ''deepgram'')" by code_simp
qed

end
