(* ===== verification/Speech_Providers.thy ===== *)
theory Speech_Providers
  imports Go_Wire Resampler Speech_Clients
begin

text \<open>
  The text-to-speech clients (\<open>internal/tts\<close>): the requests they send, what they make of the
  answers, and which one a configuration selects (\<open>client.go\<close>). An HTTP answer is missing, or a
  status and the pieces its body is read in; a WebSocket conversation is the list of frames
  received. A synthesis that streams yields chunks of audio and perhaps an error at the end.

  Parameters: the parser of JSON text, the resampler's kernel, random identifiers, and the removal
  of Markdown (regular expressions). Cancellation is in \<open>Cartesia_Stream\<close> and \<open>Speech_Limiter\<close>;
  here a stream is read to its end.
\<close>

datatype stream_chunk = Audio "byte list" | Stream_error str

definition audio_of :: "stream_chunk list \<Rightarrow> byte list" where
  "audio_of cs = concat (map (\<lambda>c. case c of Audio b \<Rightarrow> b | Stream_error _ \<Rightarrow> []) cs)"

section \<open>Text encodings of audio\<close>

definition nibble :: "char \<Rightarrow> nat option" where
  "nibble c =
     (if is_digit c then Some (of_char c - 48)
      else if is_upper c \<and> (of_char c :: nat) < 71 then Some (of_char c - 55)
      else if is_lower c \<and> (of_char c :: nat) < 103 then Some (of_char c - 87)
      else None)"

fun hex_decode :: "str \<Rightarrow> byte list option" where
  "hex_decode [] = Some []"
| "hex_decode [c] = None"
| "hex_decode (a # b # s) =
     (case (nibble a, nibble b, hex_decode s) of
        (Some x, Some y, Some bs) \<Rightarrow> Some (of_nat (16 * x + y) # bs)
      | _ \<Rightarrow> None)"

definition base64_value :: "char \<Rightarrow> nat option" where
  "base64_value c =
     (if is_upper c then Some (of_char c - 65)
      else if is_lower c then Some (of_char c - 71)
      else if is_digit c then Some (of_char c + 4)
      else if c = CHR ''+'' then Some 62 else if c = CHR ''/'' then Some 63 else None)"

fun base64_quanta :: "str \<Rightarrow> byte list option" where
  "base64_quanta [] = Some []"
| "base64_quanta (a # b # c # d # s) =
     (case (base64_value a, base64_value b) of
        (Some w, Some x) \<Rightarrow>
          if c = CHR ''='' then
            (if d = CHR ''='' \<and> s = [] then Some [of_nat (w * 4 + x div 16)] else None)
          else (case base64_value c of
            None \<Rightarrow> None
          | Some y \<Rightarrow>
              if d = CHR ''='' then
                (if s = [] then Some [of_nat (w * 4 + x div 16), of_nat (x mod 16 * 16 + y div 4)] else None)
              else (case (base64_value d, base64_quanta s) of
                (Some z, Some bs) \<Rightarrow>
                  Some (of_nat (w * 4 + x div 16) # of_nat (x mod 16 * 16 + y div 4) # of_nat (y mod 4 * 64 + z) # bs)
              | _ \<Rightarrow> None))
      | _ \<Rightarrow> None)"
| "base64_quanta _ = None"

definition base64_decode :: "str \<Rightarrow> byte list option" where
  "base64_decode s = base64_quanta (filter (\<lambda>c. c \<noteq> CHR 10 \<and> c \<noteq> CHR 13) s)"

section \<open>HTTP\<close>

datatype http_body = Json_body json | Text_body str

record http_call =
  hc_url :: str
  hc_headers :: "(str \<times> str) list"
  hc_body :: http_body

datatype http_answer = No_answer | Answer nat "byte list list" bool

text \<open>The last component of an answer says that reading its body ended in an error.\<close>

definition http_stream :: "http_answer \<Rightarrow> str + stream_chunk list" where
  "http_stream r =
     (case r of
        No_answer \<Rightarrow> Inl ''request''
      | Answer status reads broken \<Rightarrow>
          if status \<noteq> 200 then Inl ''error''
          else Inr (map Audio (pump_pcm_stream reads) @ (if broken then [Stream_error ''tts stream read''] else [])))"

definition http_whole :: "http_answer \<Rightarrow> str + byte list" where
  "http_whole r =
     (case r of
        No_answer \<Rightarrow> Inl ''request''
      | Answer status reads broken \<Rightarrow>
          if status \<noteq> 200 then Inl ''error'' else if broken then Inl ''read response'' else Inr (concat reads))"

definition stream_whole :: "str + byte list \<Rightarrow> stream_chunk list" where
  "stream_whole r = (case r of Inl e \<Rightarrow> [Stream_error e] | Inr pcm \<Rightarrow> [Audio pcm])"

text \<open>Draining a stream into one buffer.\<close>

fun drain :: "stream_chunk list \<Rightarrow> str + byte list" where
  "drain [] = Inr []"
| "drain (Stream_error e # cs) = Inl e"
| "drain (Audio b # cs) = (case drain cs of Inl e \<Rightarrow> Inl e | Inr bs \<Rightarrow> Inr (b @ bs))"

definition default_to :: "str \<Rightarrow> str \<Rightarrow> str" where
  "default_to d s = (if s = [] then d else s)"

definition json_content :: "str \<times> str" where "json_content = (''Content-Type'', ''application/json'')"

subsection \<open>Deepgram and Moonshine\<close>

definition default_deepgram_tts_model :: str where "default_deepgram_tts_model = ''aura-2-thalia-en''"

definition deepgram_speech :: "str \<Rightarrow> str \<Rightarrow> str \<Rightarrow> http_call" where
  "deepgram_speech key model s =
     \<lparr>hc_url = ''https://api.deepgram.com/v1/speak?'' @ query_encode (values_set ''container'' ''none''
        (values_set ''sample_rate'' ''16000'' (values_set ''encoding'' ''linear16'' (values_set ''model'' (default_to default_deepgram_tts_model model) [])))),
      hc_headers = [(''Authorization'', ''Token '' @ key), (''Content-Type'', ''text/plain'')], hc_body = Text_body s\<rparr>"

definition default_moonshine_voice :: str where "default_moonshine_voice = ''kokoro_af_heart''"
definition default_moonshine_tts_url :: str where "default_moonshine_tts_url = ''http://127.0.0.1:8310''"

definition moonshine_speech :: "str \<Rightarrow> str \<Rightarrow> str \<Rightarrow> http_call" where
  "moonshine_speech base voice s =
     \<lparr>hc_url = trim_suffix ''/'' (default_to default_moonshine_tts_url base) @ ''/v1/speak?'' @ query_encode (values_set ''container'' ''none''
        (values_set ''sample_rate'' ''16000'' (values_set ''encoding'' ''linear16'' (values_set ''voice'' (default_to default_moonshine_voice voice) [])))),
      hc_headers = [(''Content-Type'', ''text/plain'')], hc_body = Text_body s\<rparr>"

subsection \<open>VibeVoice, ElevenLabs, Cartesia over HTTP\<close>

definition vibevoice_speech :: "str \<Rightarrow> str \<Rightarrow> str \<Rightarrow> http_call" where
  "vibevoice_speech base voice s =
     \<lparr>hc_url = default_to ''http://127.0.0.1:8300'' base @ ''/synthesize'', hc_headers = [json_content],
      hc_body = Json_body (JObj [(''text'', JStr s), (''voice'', JStr (default_to ''en-Emma_woman'' voice))])\<rparr>"

definition default_elevenlabs_voice :: str where "default_elevenlabs_voice = ''21m00Tcm4TlvDq8ikWAM''"
definition default_elevenlabs_model :: str where "default_elevenlabs_model = ''eleven_turbo_v2_5''"

definition elevenlabs_stability :: "voice_controls \<Rightarrow> rat" where
  "elevenlabs_stability vc =
     (if 0 < vo_speed vc then min (9 / 10) (max (15 / 100) (1 / 2 + (1 - vo_speed vc))) else 1 / 2)"

definition elevenlabs_speech :: "str \<Rightarrow> str \<Rightarrow> str \<Rightarrow> voice_controls \<Rightarrow> str \<Rightarrow> http_call" where
  "elevenlabs_speech key voice model vc s =
     \<lparr>hc_url = ''https://api.elevenlabs.io/v1/text-to-speech/'' @ default_to default_elevenlabs_voice voice @ ''?output_format=pcm_16000'',
      hc_headers = [(''xi-api-key'', key), json_content],
      hc_body = Json_body (JObj [(''text'', JStr s), (''model_id'', JStr (default_to default_elevenlabs_model model)),
        (''voice_settings'', JObj [(''stability'', JNum (elevenlabs_stability vc)), (''similarity_boost'', JNum (75 / 100))])])\<rparr>"

definition default_cartesia_voice :: str where "default_cartesia_voice = ''f786b574-daa5-4673-aa0c-cbe3e8534c02''"

definition raw_pcm_format :: json where
  "raw_pcm_format = JObj [(''container'', JStr ''raw''), (''encoding'', JStr ''pcm_s16le''), (''sample_rate'', JNum 16000)]"

definition cartesia_speech :: "str \<Rightarrow> str \<Rightarrow> str \<Rightarrow> http_call" where
  "cartesia_speech key voice s =
     \<lparr>hc_url = ''https://api.cartesia.ai/tts/bytes'',
      hc_headers = [(''Authorization'', ''Bearer '' @ key), json_content, (''Cartesia-Version'', ''2025-04-16'')],
      hc_body = Json_body (JObj [(''model_id'', JStr ''sonic-3''), (''transcript'', JStr s),
        (''voice'', JObj [(''mode'', JStr ''id''), (''id'', JStr (default_to default_cartesia_voice voice))]), (''output_format'', raw_pcm_format)])\<rparr>"

subsection \<open>Speechify\<close>

definition speechify_speech :: "str \<Rightarrow> str \<Rightarrow> str \<Rightarrow> str \<Rightarrow> http_call" where
  "speechify_speech key voice model s =
     \<lparr>hc_url = ''https://api.speechify.ai/v1/audio/speech'', hc_headers = [(''Authorization'', ''Bearer '' @ key), json_content],
      hc_body = Json_body (JObj [(''input'', JStr s), (''voice_id'', JStr (default_to ''geffen_32'' voice)),
        (''model'', JStr (default_to ''simba-3.2'' model)), (''audio_format'', JStr ''pcm''), (''output_format'', JStr ''pcm_24000'')])\<rparr>"

definition speechify_audio :: "(byte list \<Rightarrow> raw) \<Rightarrow> real list \<Rightarrow> http_answer \<Rightarrow> str + byte list" where
  "speechify_audio json_of h r =
     (case http_whole r of
        Inl e \<Rightarrow> Inl e
      | Inr body \<Rightarrow>
          (case (if into_struct (json_of body) then as_string (struct_field ''audio_data'' (json_of body)) else None,
                 as_string (struct_field ''audio_format'' (json_of body))) of
             (Some data, Some _) \<Rightarrow>
               (case base64_decode data of None \<Rightarrow> Inl ''decode audio'' | Some pcm \<Rightarrow> Inr (resample_24k_to_16k h pcm))
           | _ \<Rightarrow> Inl ''parse response''))"

subsection \<open>Cartesia's chunks\<close>

text \<open>The HTTP body is read in full pieces; an early failure is reported on the stream.\<close>

definition cartesia_stream_chunk_size :: nat where "cartesia_stream_chunk_size = 3200"

function full_pieces :: "byte list \<Rightarrow> byte list list" where
  "full_pieces bs =
     (if bs = [] then [] else take cartesia_stream_chunk_size bs # full_pieces (drop cartesia_stream_chunk_size bs))"
  by pat_completeness auto

termination full_pieces
  by (relation "measure length") (auto simp: cartesia_stream_chunk_size_def)

declare full_pieces.simps [simp del]

definition cartesia_http_stream :: "http_answer \<Rightarrow> stream_chunk list" where
  "cartesia_http_stream r =
     (case r of
        No_answer \<Rightarrow> [Stream_error ''cartesia request'']
      | Answer status reads broken \<Rightarrow>
          if status \<noteq> 200 then [Stream_error ''cartesia error'']
          else map Audio (full_pieces (concat reads)) @ (if broken then [Stream_error ''cartesia read''] else []))"

section \<open>Server-sent events\<close>

definition sse_payload :: "str \<Rightarrow> str option" where
  "sse_payload line =
     (let line = trim_space line in
      if line = [] \<or> \<not> has_prefix ''data:'' line then None
      else let p = trim_space (trim_prefix ''data:'' line) in if p = [] then None else Some p)"

subsection \<open>MiniMax\<close>

definition clamp_float :: "rat \<Rightarrow> rat \<Rightarrow> rat \<Rightarrow> rat" where
  "clamp_float v lo hi = (if v < lo then lo else if hi < v then hi else v)"

definition minimax_emotions :: "(str \<times> str) list" where
  "minimax_emotions = [(''warm'', ''happy''), (''excited'', ''happy''), (''calm'', ''calm''), (''empathetic'', ''calm'')]"

definition minimax_voice :: "str \<Rightarrow> voice_controls \<Rightarrow> json" where
  "minimax_voice voice vc =
     JObj ([(''voice_id'', JStr voice)] @
       (if 0 < vo_speed vc then [(''speed'', JNum (clamp_float (vo_speed vc) (1 / 2) 2))] else []) @
       (case map_of minimax_emotions (vo_tone vc) of None \<Rightarrow> [] | Some e \<Rightarrow> [(''emotion'', JStr e)]))"

definition minimax_speech :: "str \<Rightarrow> minimax_config \<Rightarrow> bool \<Rightarrow> voice_controls \<Rightarrow> http_call" where
  "minimax_speech s cfg stream vc =
     \<lparr>hc_url = trim_right (\<lambda>c. c = CHR ''/'') (default_to ''https://api.minimax.io/v1'' (mmx_base_url cfg)) @ ''/t2a_v2'',
      hc_headers = [(''Authorization'', ''Bearer '' @ mmx_api_key cfg), json_content],
      hc_body = Json_body (JObj [(''model'', JStr (default_to ''speech-2.6-turbo'' (mmx_model cfg))), (''text'', JStr s), (''stream'', JBool stream),
        (''output_format'', JStr ''hex''), (''voice_setting'', minimax_voice (default_to ''English_Graceful_Lady'' (mmx_voice_id cfg)) vc),
        (''audio_setting'', JObj [(''sample_rate'', JNum 16000), (''format'', JStr ''pcm''), (''channel'', JNum 1)])])\<rparr>"

record minimax_event =
  me_audio :: str
  me_status :: int
  me_code :: int
  me_message :: str

definition decode_minimax :: "raw \<Rightarrow> minimax_event option" where
  "decode_minimax m =
     (case (if into_struct m then sub_struct ''data'' m else None, sub_struct ''base_resp'' m) of
        (Some d, Some b) \<Rightarrow>
          (case (as_string (struct_field ''audio'' d), as_int (struct_field ''status'' d),
                 as_int (struct_field ''status_code'' b), as_string (struct_field ''status_msg'' b)) of
             (Some a, Some st, Some code, Some msg) \<Rightarrow> Some \<lparr>me_audio = a, me_status = st, me_code = code, me_message = msg\<rparr>
           | _ \<Rightarrow> None)
      | _ \<Rightarrow> None)"

definition minimax_error :: "minimax_event \<Rightarrow> str option" where
  "minimax_error e = (if me_code e \<noteq> 0 then Some (''minimax error '' @ itoa (me_code e) @ '': '' @ me_message e) else None)"

definition minimax_whole :: "(byte list \<Rightarrow> raw) \<Rightarrow> http_answer \<Rightarrow> str + byte list" where
  "minimax_whole json_of r =
     (case http_whole r of
        Inl e \<Rightarrow> Inl e
      | Inr body \<Rightarrow>
          (case decode_minimax (json_of body) of
             None \<Rightarrow> Inl ''minimax parse response''
           | Some ev \<Rightarrow>
               (case minimax_error ev of
                  Some e \<Rightarrow> Inl e
                | None \<Rightarrow>
                    if me_audio ev = [] then Inl ''minimax: response contained no audio''
                    else (case hex_decode (me_audio ev) of None \<Rightarrow> Inl ''minimax decode audio'' | Some pcm \<Rightarrow> Inr pcm))))"

text \<open>The events of a streamed answer, line by line; \<open>broken\<close> says that the scanner stopped with an error.\<close>

fun minimax_pump :: "(str \<Rightarrow> raw) \<Rightarrow> bool \<Rightarrow> pcm_aligner \<Rightarrow> str list \<Rightarrow> stream_chunk list" where
  "minimax_pump json_of broken a [] = (if broken then [Stream_error ''minimax stream read''] else [])"
| "minimax_pump json_of broken a (line # lines) =
     (case sse_payload line of
        None \<Rightarrow> minimax_pump json_of broken a lines
      | Some p \<Rightarrow>
          if p = ''[DONE]'' then minimax_pump json_of broken a lines
          else (case decode_minimax (json_of p) of
            None \<Rightarrow> minimax_pump json_of broken a lines
          | Some ev \<Rightarrow>
              (case minimax_error ev of
                 Some e \<Rightarrow> [Stream_error e]
               | None \<Rightarrow>
                   if me_status ev = 2 then []
                   else if me_audio ev = [] then minimax_pump json_of broken a lines
                   else (case hex_decode (me_audio ev) of
                     None \<Rightarrow> [Stream_error ''minimax decode audio'']
                   | Some pcm \<Rightarrow>
                       (case take_aligned a pcm of (a', out) \<Rightarrow>
                          (if out = [] then [] else [Audio out]) @ minimax_pump json_of broken a' lines)))))"

subsection \<open>MiMo\<close>

definition mimo_speech :: "str \<Rightarrow> mimo_config \<Rightarrow> bool \<Rightarrow> http_call" where
  "mimo_speech s cfg stream =
     \<lparr>hc_url = trim_right (\<lambda>c. c = CHR ''/'') (default_to ''https://api.xiaomimimo.com/v1'' (mim_base_url cfg)) @ ''/chat/completions'',
      hc_headers = [(''api-key'', mim_api_key cfg), json_content],
      hc_body = Json_body (JObj [(''model'', JStr (default_to ''mimo-v2.5-tts'' (mim_model cfg))),
        (''messages'', JArr [JObj [(''role'', JStr ''assistant''), (''content'', JStr s)]]),
        (''audio'', JObj [(''format'', JStr ''pcm''), (''voice'', JStr (default_to ''mimo_default'' (mim_voice cfg)))]),
        (''stream'', JBool stream)])\<rparr>"

text \<open>The first choice's audio, from the message of a whole answer or the delta of an event; an error
  object takes precedence. Only the first choice's shape is checked.\<close>

datatype mimo_event = Mimo_error str | No_choices | Mimo_audio str

definition decode_mimo :: "str \<Rightarrow> raw \<Rightarrow> mimo_event option" where
  "decode_mimo part m =
     (if \<not> into_struct m then None
      else case struct_field ''error'' m of
        Some (JObj e) \<Rightarrow>
          (case (as_string (struct_field ''code'' (Json (JObj e))), as_string (struct_field ''message'' (Json (JObj e))),
                 as_string (struct_field ''type'' (Json (JObj e)))) of
             (Some code, Some msg, Some _) \<Rightarrow> Some (Mimo_error (''mimo error '' @ code @ '': '' @ msg))
           | _ \<Rightarrow> None)
      | Some _ \<Rightarrow> None
      | None \<Rightarrow>
          (case sub_list ''choices'' m of
             None \<Rightarrow> None
           | Some [] \<Rightarrow> Some No_choices
           | Some (c # _) \<Rightarrow>
               if into_struct (Json c)
               then map_option Mimo_audio
                 (Option.bind (sub_struct part (Json c)) (\<lambda>d. Option.bind (sub_struct ''audio'' d) (\<lambda>a. as_string (struct_field ''data'' a))))
               else None))"

definition mimo_whole :: "(byte list \<Rightarrow> raw) \<Rightarrow> real list \<Rightarrow> http_answer \<Rightarrow> str + byte list" where
  "mimo_whole json_of h r =
     (case http_whole r of
        Inl e \<Rightarrow> Inl e
      | Inr body \<Rightarrow>
          (case decode_mimo ''message'' (json_of body) of
             None \<Rightarrow> Inl ''mimo parse response''
           | Some (Mimo_error e) \<Rightarrow> Inl e
           | Some No_choices \<Rightarrow> Inl ''mimo response carried no choices''
           | Some (Mimo_audio data) \<Rightarrow>
               (case base64_decode data of None \<Rightarrow> Inl ''mimo decode audio'' | Some pcm \<Rightarrow> Inr (resample_24k_to_16k h pcm))))"

definition mimo_end :: "real list \<Rightarrow> bool \<Rightarrow> resampler \<Rightarrow> stream_chunk list" where
  "mimo_end h broken r =
     (if broken then [Stream_error ''mimo stream read'']
      else case rs_flush h r of (_, out) \<Rightarrow> if out = [] then [] else [Audio out])"

fun mimo_pump :: "(str \<Rightarrow> raw) \<Rightarrow> real list \<Rightarrow> bool \<Rightarrow> resampler \<Rightarrow> str list \<Rightarrow> stream_chunk list" where
  "mimo_pump json_of h broken r [] = mimo_end h broken r"
| "mimo_pump json_of h broken r (line # lines) =
     (case sse_payload line of
        None \<Rightarrow> mimo_pump json_of h broken r lines
      | Some p \<Rightarrow>
          if p = ''[DONE]'' then mimo_end h False r
          else (case decode_mimo ''delta'' (json_of p) of
            None \<Rightarrow> mimo_pump json_of h broken r lines
          | Some (Mimo_error e) \<Rightarrow> [Stream_error e]
          | Some No_choices \<Rightarrow> mimo_pump json_of h broken r lines
          | Some (Mimo_audio data) \<Rightarrow>
              if data = [] then mimo_pump json_of h broken r lines
              else (case base64_decode data of
                None \<Rightarrow> [Stream_error ''mimo decode audio'']
              | Some pcm \<Rightarrow>
                  (case rs_write h r pcm of (r', out) \<Rightarrow>
                     (if out = [] then [] else [Audio out]) @ mimo_pump json_of h broken r' lines))))"

section \<open>Speeds\<close>

definition cartesia_speed :: "voice_controls \<Rightarrow> rat" where
  "cartesia_speed vc =
     (let speed = (if vo_speed vc = 0 then 1 else vo_speed vc);
          speed = (if speed < 8 / 10 then 8 / 10 else speed)
      in if 12 / 10 < speed then 12 / 10 else speed)"

definition telnyx_speed :: "rat \<Rightarrow> voice_controls \<Rightarrow> rat" where
  "telnyx_speed configured vc =
     (let base = (if configured = 0 then 1 else configured);
          speed = (if vo_speed vc = 0 then base else vo_speed vc);
          speed = (if speed < 8 / 10 then 8 / 10 else speed)
      in if 12 / 10 < speed then 12 / 10 else speed)"

text \<open>Whatever tag the model writes and whatever is configured, the speed or stability a provider is
  asked for is in the range that provider accepts.\<close>

theorem delivery_stays_in_range:
  "8 / 10 \<le> cartesia_speed vc \<and> cartesia_speed vc \<le> 12 / 10 \<and>
   8 / 10 \<le> telnyx_speed configured vc \<and> telnyx_speed configured vc \<le> 12 / 10 \<and>
   1 / 2 \<le> clamp_float (vo_speed vc) (1 / 2) 2 \<and> clamp_float (vo_speed vc) (1 / 2) 2 \<le> 2 \<and>
   15 / 100 \<le> elevenlabs_stability vc \<and> elevenlabs_stability vc \<le> 9 / 10"
  by (auto simp: cartesia_speed_def telnyx_speed_def clamp_float_def elevenlabs_stability_def min_def max_def Let_def)

section \<open>Streams carry the audio once\<close>

definition increment :: "(str \<Rightarrow> raw) \<Rightarrow> str \<Rightarrow> byte list \<Rightarrow> bool" where
  "increment json_of line pcm \<longleftrightarrow>
     (\<exists>p ev. sse_payload line = Some p \<and> p \<noteq> ''[DONE]'' \<and> decode_minimax (json_of p) = Some ev \<and>
        me_code ev = 0 \<and> me_status ev \<noteq> 2 \<and> hex_decode (me_audio ev) = Some pcm)"

definition aggregate :: "(str \<Rightarrow> raw) \<Rightarrow> str \<Rightarrow> bool" where
  "aggregate json_of line \<longleftrightarrow>
     (\<exists>p ev. sse_payload line = Some p \<and> p \<noteq> ''[DONE]'' \<and> decode_minimax (json_of p) = Some ev \<and>
        me_code ev = 0 \<and> me_status ev = 2)"

lemma minimax_increment:
  assumes "increment json_of line pcm"
  shows "minimax_pump json_of broken a (line # lines) =
    map Audio (snd (pump_read a pcm)) @ minimax_pump json_of broken (fst (pump_read a pcm)) lines"
proof -
  obtain p ev where p: "sse_payload line = Some p" "p \<noteq> ''[DONE]''" "decode_minimax (json_of p) = Some ev" "me_code ev = 0"
    "me_status ev \<noteq> 2" "hex_decode (me_audio ev) = Some pcm" using assms by (auto simp: increment_def)
  have "take_aligned a [] = (a, [])" using take_aligned_even [of a "[]"]
    by (cases a) (auto simp: take_aligned_def)
  with p show ?thesis
    by (cases "me_audio ev = []"; cases "pcm = []") (auto simp: minimax_error_def pump_read_def split: prod.splits)
qed

lemma minimax_increments:
  "list_all2 (increment json_of) lines pcms \<Longrightarrow>
   minimax_pump json_of broken a (lines @ rest) =
     map Audio (snd (run_chunks pump_read a pcms)) @ minimax_pump json_of broken (fst (run_chunks pump_read a pcms)) rest"
proof (induction lines pcms arbitrary: a rule: list_all2_induct)
  case (Cons line lines pcm pcms)
  then show ?case
    using minimax_increment [OF Cons.hyps(1), of broken a "lines @ rest"] by (simp del: minimax_pump.simps split: prod.splits)
qed simp

text \<open>A MiniMax stream plays every increment once and the aggregate that repeats them never: it yields
  exactly the chunks a raw stream of the same audio would, up to the event that ends it.\<close>

theorem minimax_plays_increments_once:
  assumes "list_all2 (increment json_of) lines pcms" and "aggregate json_of line"
  shows "minimax_pump json_of broken new_aligner (lines @ line # rest) = map Audio (pump_pcm_stream pcms)"
proof -
  have "minimax_pump json_of broken a (line # rest) = []" for a
    using assms(2) by (auto simp: aggregate_def minimax_error_def)
  with minimax_increments [OF assms(1)] show ?thesis by (simp add: pump_pcm_stream_def)
qed

definition mimo_increment :: "(str \<Rightarrow> raw) \<Rightarrow> str \<Rightarrow> byte list \<Rightarrow> bool" where
  "mimo_increment json_of line pcm \<longleftrightarrow>
     (\<exists>p data. sse_payload line = Some p \<and> p \<noteq> ''[DONE]'' \<and> decode_mimo ''delta'' (json_of p) = Some (Mimo_audio data) \<and>
        data \<noteq> [] \<and> base64_decode data = Some pcm)"

lemma audio_of_append [simp]: "audio_of (a @ b) = audio_of a @ audio_of b"
  by (simp add: audio_of_def)

lemma mimo_increments:
  "list_all2 (mimo_increment json_of) lines pcms \<Longrightarrow>
   audio_of (mimo_pump json_of h broken r (lines @ rest)) =
     snd (write_all h r pcms) @ audio_of (mimo_pump json_of h broken (fst (write_all h r pcms)) rest)"
proof (induction lines pcms arbitrary: r rule: list_all2_induct)
  case (Cons line lines pcm pcms)
  from Cons.hyps(1) have "audio_of (mimo_pump json_of h broken r (line # lines @ rest)) =
      snd (rs_write h r pcm) @ audio_of (mimo_pump json_of h broken (fst (rs_write h r pcm)) (lines @ rest))"
    by (auto simp: mimo_increment_def audio_of_def split: prod.splits)
  with Cons.IH show ?case by (simp split: prod.splits)
qed simp

text \<open>A MiMo stream plays the audio of all its events through one resampler, tail included: what is
  heard is the resampled stream of the decoded increments, whatever follows the end marker.\<close>

theorem mimo_plays_the_resampled_stream:
  assumes "list_all2 (mimo_increment json_of) lines pcms" and "sse_payload line = Some ''[DONE]''"
  shows "audio_of (mimo_pump json_of h broken new_resampler (lines @ line # rest)) = resample_stream h pcms"
proof -
  have "audio_of (mimo_pump json_of h broken r (line # rest)) = snd (rs_flush h r)" for r
    using assms(2) by (auto simp: mimo_end_def audio_of_def split: prod.splits)
  with mimo_increments [OF assms(1)] show ?thesis by (simp add: resample_stream_def split: prod.splits)
qed

text \<open>Draining a stream that has no error gives all of its audio.\<close>

lemma drain_audio: "list_all (\<lambda>c. \<exists>b. c = Audio b) cs \<Longrightarrow> drain cs = Inr (audio_of cs)"
  by (induction cs rule: drain.induct) (auto simp: audio_of_def)

section \<open>Witnesses\<close>

definition sample_minimax :: "str \<Rightarrow> raw" where
  "sample_minimax p =
     Json (JObj [(''data'', JObj [(''audio'', JStr (if p = ''1'' then ''01'' else if p = ''2'' then ''0203FF'' else ''010203FF'')),
       (''status'', JNum (if p = ''3'' then 2 else 1))]), (''base_resp'', JObj [(''status_code'', JNum 0)])])"

theorem minimax_plays_increments_once_witness:
  "minimax_pump sample_minimax False new_aligner [''data: 1'', ''data: 2'', ''data: 3''] = map Audio (pump_pcm_stream [[1], [2, 3, 255]])"
proof -
  have "increment sample_minimax ''data: 1'' [1]"
    unfolding increment_def by (intro exI [of _ "''1''"] exI [of _ "\<lparr>me_audio = ''01'', me_status = 1, me_code = 0, me_message = []\<rparr>"]) code_simp
  moreover have "increment sample_minimax ''data: 2'' [2, 3, 255]"
    unfolding increment_def by (intro exI [of _ "''2''"] exI [of _ "\<lparr>me_audio = ''0203FF'', me_status = 1, me_code = 0, me_message = []\<rparr>"]) code_simp
  moreover have "aggregate sample_minimax ''data: 3''"
    unfolding aggregate_def by (intro exI [of _ "''3''"] exI [of _ "\<lparr>me_audio = ''010203FF'', me_status = 2, me_code = 0, me_message = []\<rparr>"]) code_simp
  ultimately show ?thesis
    using minimax_plays_increments_once [of sample_minimax "[''data: 1'', ''data: 2'']" "[[1], [2, 3, 255]]" "''data: 3''" False "[]"] by simp
qed

definition sample_mimo :: "str \<Rightarrow> raw" where
  "sample_mimo p = Json (JObj [(''choices'', JArr [JObj [(''delta'', JObj [(''audio'', JObj [(''data'', JStr ''AQID'')])])]])])"

theorem mimo_plays_the_resampled_stream_witness:
  "audio_of (mimo_pump sample_mimo [1] False new_resampler [''data: 1'', ''data: [DONE]'']) = resample_stream [1] [[1, 2, 3]]"
proof -
  have "mimo_increment sample_mimo ''data: 1'' [1, 2, 3]"
    unfolding mimo_increment_def by (intro exI [of _ "''1''"] exI [of _ "''AQID''"]) code_simp
  moreover have "sse_payload ''data: [DONE]'' = Some ''[DONE]''" by code_simp
  ultimately show ?thesis
    using mimo_plays_the_resampled_stream [of sample_mimo "[''data: 1'']" "[[1, 2, 3]]" "''data: [DONE]''" "[1]" False "[]"] by simp
qed

end
