(* ===== verification/Markdown_Sanitizer.thy ===== *)
theory Markdown_Sanitizer
  imports Go_Prelude
begin

text \<open>
  What a sentence loses before it is spoken (\<open>internal/tts/sanitize.go\<close>): nine regular expressions, one
  after the other. Go's \<open>regexp\<close> is modelled as far as they use it: the matches at a position are
  listed in the order of preference of the package (earlier alternatives first, more repetitions
  first unless lazy), the first is taken, and \<open>ReplaceAllString\<close> goes on behind it. Strings are bytes;
  every class below that holds a byte from 128 up holds all of them, so cutting by runes is the same.
\<close>

section \<open>Regular expressions\<close>

text \<open>A subject is the byte before, what is left, and the groups matched so far.\<close>

type_synonym subject = "char option \<times> str \<times> (nat \<times> str) list"

datatype rx =
    Nothing
  | Class "char \<Rightarrow> bool"
  | Then rx rx
  | Either rx rx
  | Many bool rx
  | Text_start
  | Line_start
  | Text_end
  | Group nat rx

abbreviation left_over :: "subject \<Rightarrow> str" where "left_over s \<equiv> fst (snd s)"

text \<open>Repetition: each round must take something, so the length of the text bounds the rounds.\<close>

fun repeats :: "nat \<Rightarrow> bool \<Rightarrow> (subject \<Rightarrow> subject list) \<Rightarrow> subject \<Rightarrow> subject list" where
  "repeats 0 greedy f s = [s]"
| "repeats (Suc n) greedy f s =
     (let further = concat (map (repeats n greedy f) (filter (\<lambda>t. length (left_over t) < length (left_over s)) (f s)))
      in if greedy then further @ [s] else s # further)"

primrec rx_match :: "rx \<Rightarrow> subject \<Rightarrow> subject list" where
  "rx_match Nothing = (\<lambda>s. [s])"
| "rx_match (Class p) = (\<lambda>(prev, cs, g). case cs of [] \<Rightarrow> [] | c # cs \<Rightarrow> if p c then [(Some c, cs, g)] else [])"
| "rx_match (Then a b) = (\<lambda>s. concat (map (rx_match b) (rx_match a s)))"
| "rx_match (Either a b) = (\<lambda>s. rx_match a s @ rx_match b s)"
| "rx_match (Many greedy r) = (\<lambda>s. repeats (length (left_over s)) greedy (rx_match r) s)"
| "rx_match Text_start = (\<lambda>s. if fst s = None then [s] else [])"
| "rx_match Line_start = (\<lambda>s. if fst s = None \<or> fst s = Some (CHR 0x0A) then [s] else [])"
| "rx_match Text_end = (\<lambda>s. if left_over s = [] then [s] else [])"
| "rx_match (Group i r) = (\<lambda>s. map (\<lambda>(prev, cs, g). (prev, cs, (i, take (length (left_over s) - length cs) (left_over s)) # g)) (rx_match r s))"

definition one :: "char \<Rightarrow> rx" where "one c = Class (\<lambda>d. d = c)"
definition some_of :: "rx \<Rightarrow> rx" where "some_of r = Then r (Many True r)"

fun up_to :: "nat \<Rightarrow> rx \<Rightarrow> rx" where
  "up_to 0 r = Nothing"
| "up_to (Suc n) r = Either (Then r (up_to n r)) Nothing"

fun in_turn :: "rx list \<Rightarrow> rx" where
  "in_turn [] = Nothing"
| "in_turn [r] = r"
| "in_turn (r # rs) = Then r (in_turn rs)"

text \<open>\<open>ReplaceAllString\<close>: the template is a list of groups, one that has not matched is empty.\<close>

definition group_text :: "subject \<Rightarrow> nat \<Rightarrow> str" where
  "group_text s i = (case map_of (snd (snd s)) i of Some w \<Rightarrow> w | None \<Rightarrow> [])"

definition expand :: "nat list \<Rightarrow> str \<Rightarrow> subject \<Rightarrow> str" where
  "expand groups literal s = concat (map (group_text s) groups) @ literal"

definition first_match :: "rx \<Rightarrow> char option \<Rightarrow> str \<Rightarrow> subject option" where
  "first_match r prev cs = (case filter (\<lambda>t. length (left_over t) < length cs) (rx_match r (prev, cs, [])) of [] \<Rightarrow> None | t # _ \<Rightarrow> Some t)"

function replace_matches :: "rx \<Rightarrow> nat list \<Rightarrow> str \<Rightarrow> char option \<Rightarrow> str \<Rightarrow> str" where
  "replace_matches r groups literal prev [] = []"
| "replace_matches r groups literal prev (c # cs) =
     (case first_match r prev (c # cs) of
        Some t \<Rightarrow> expand groups literal t @ replace_matches r groups literal (fst t) (left_over t)
      | None \<Rightarrow> c # replace_matches r groups literal (Some c) cs)"
  by pat_completeness auto
termination
  by (relation "measure (\<lambda>(r, groups, literal, prev, cs). length cs)")
     (auto simp: first_match_def filter_eq_Cons_iff split: list.splits)

definition replace_all_string :: "rx \<Rightarrow> nat list \<Rightarrow> str \<Rightarrow> str \<Rightarrow> str" where
  "replace_all_string r groups literal = replace_matches r groups literal None"

section \<open>The nine expressions\<close>

definition horizontal :: "char \<Rightarrow> bool" where "horizontal c \<longleftrightarrow> c = CHR '' '' \<or> c = CHR 0x09"
definition white :: "char \<Rightarrow> bool" where "white c \<longleftrightarrow> c \<in> {CHR '' '', CHR 0x09, CHR 0x0A, CHR 0x0C, CHR 0x0D}"

definition md_image :: rx where
  "md_image = in_turn [one (CHR ''!''), one (CHR ''[''), Group 1 (Many True (Class (\<lambda>c. c \<noteq> CHR '']''))), one (CHR '']''),
     one (CHR ''(''), Many True (Class (\<lambda>c. c \<noteq> CHR '')'')), one (CHR '')'')]"

definition md_link :: rx where
  "md_link = in_turn [one (CHR ''[''), Group 1 (some_of (Class (\<lambda>c. c \<noteq> CHR '']''))), one (CHR '']''),
     one (CHR ''(''), Many True (Class (\<lambda>c. c \<noteq> CHR '')'')), one (CHR '')'')]"

definition tick :: rx where "tick = one (CHR 0x60)"

definition md_code_fence :: rx where
  "md_code_fence = in_turn [tick, tick, tick, Many True (Class (\<lambda>c. is_letter c \<or> is_digit c \<or> c = CHR ''_'' \<or> c = CHR ''-'')),
     up_to 1 (one (CHR 0x0A)), Group 1 (Many False (Class (\<lambda>_. True))), tick, tick, tick]"

definition md_inline_code :: rx where
  "md_inline_code = in_turn [some_of tick, Group 1 (some_of (Class (\<lambda>c. c \<noteq> CHR 0x60))), some_of tick]"

definition md_strike :: rx where
  "md_strike = in_turn [one (CHR ''~''), one (CHR ''~''), Group 1 (some_of (Class (\<lambda>c. c \<noteq> CHR ''~''))), one (CHR ''~''), one (CHR ''~'')]"

definition md_bold :: rx where
  "md_bold = in_turn [one (CHR ''*''), some_of (one (CHR ''*'')), Group 1 (some_of (Class (\<lambda>c. c \<noteq> CHR ''*''))),
     one (CHR ''*''), some_of (one (CHR ''*''))]"

definition md_italic_star :: rx where
  "md_italic_star = in_turn [Group 1 (Either Text_start (Class (\<lambda>c. white c \<or> c = CHR ''(''))), one (CHR ''*''),
     Group 2 (Then (Class (\<lambda>c. \<not> white c \<and> c \<noteq> CHR ''*'')) (Many False (Class (\<lambda>c. c \<noteq> CHR ''*'')))), one (CHR ''*''),
     Group 3 (Either (Class (\<lambda>c. white c \<or> c \<in> {CHR ''.'', CHR '','', CHR ''!'', CHR ''?'', CHR '';'', CHR '':'', CHR '')''})) Text_end)]"

definition md_line_lead :: rx where
  "md_line_lead = in_turn [Line_start, Many True (Class horizontal),
     Either (Then (one (CHR ''#'')) (up_to 5 (one (CHR ''#''))))
       (Either (some_of (one (CHR ''>'')))
         (Either (Class (\<lambda>c. c \<in> {CHR ''-'', CHR ''*'', CHR ''+''})) (Then (some_of (Class is_digit)) (one (CHR ''.''))))),
     some_of (Class horizontal)]"

definition multi_space :: rx where
  "multi_space = in_turn [Class horizontal, some_of (Class horizontal)]"

definition sanitize_for_tts :: "str \<Rightarrow> str" where
  "sanitize_for_tts text =
     (if text = [] then text
      else
        let s = replace_all_string md_image [1] [] text;
            s = replace_all_string md_link [1] [] s;
            s = replace_all_string md_code_fence [1] [] s;
            s = replace_all_string md_inline_code [1] [] s;
            s = replace_all_string md_strike [1] [] s;
            s = replace_all_string md_bold [1] [] s;
            s = replace_all_string md_italic_star [1, 2, 3] [] s;
            s = replace_all_string md_line_lead [] [] s
        in replace_all_string multi_space [] '' '' s)"

section \<open>Nothing is added\<close>

abbreviation groups_of :: "subject \<Rightarrow> (nat \<times> str) list" where "groups_of s \<equiv> snd (snd s)"

definition grouped :: "subject \<Rightarrow> nat" where
  "grouped s = sum_list (map (length \<circ> snd) (groups_of s))"

primrec groupless :: "rx \<Rightarrow> bool" where
  "groupless Nothing = True"
| "groupless (Class p) = True"
| "groupless (Then a b) = (groupless a \<and> groupless b)"
| "groupless (Either a b) = (groupless a \<and> groupless b)"
| "groupless (Many greedy r) = groupless r"
| "groupless Text_start = True"
| "groupless Line_start = True"
| "groupless Text_end = True"
| "groupless (Group i r) = False"

primrec flat :: "rx \<Rightarrow> bool" where
  "flat Nothing = True"
| "flat (Class p) = True"
| "flat (Then a b) = (flat a \<and> flat b)"
| "flat (Either a b) = (flat a \<and> flat b)"
| "flat (Many greedy r) = flat r"
| "flat Text_start = True"
| "flat Line_start = True"
| "flat Text_end = True"
| "flat (Group i r) = groupless r"

lemma repeats_rel:
  assumes "t \<in> set (repeats n greedy f s)" and refl: "\<And>s. R s s"
    and trans: "\<And>s t u. R s t \<Longrightarrow> R t u \<Longrightarrow> R s u" and step: "\<And>s t. t \<in> set (f s) \<Longrightarrow> R s t"
  shows "R s t"
  using assms(1)
proof (induction n arbitrary: s)
  case 0
  then show ?case by (simp add: refl)
next
  case (Suc n)
  then consider "t = s" | u where "u \<in> set (f s)" "t \<in> set (repeats n greedy f u)"
    by (auto simp: Let_def split: if_splits)
  then show ?case using Suc.IH step trans refl by cases blast+
qed

lemma match_groupless: "groupless r \<Longrightarrow> t \<in> set (rx_match r s) \<Longrightarrow> groups_of t = groups_of s"
proof (induction r arbitrary: s t)
  case (Then a b)
  then obtain u where "u \<in> set (rx_match a s)" and "t \<in> set (rx_match b u)" by (auto simp: Bex_def)
  with Then.IH Then.prems(1) show ?case by (metis groupless.simps(3))
next
  case (Many greedy r)
  then have "t \<in> set (repeats (length (left_over s)) greedy (rx_match r) s)" and "groupless r" by simp_all
  with Many.IH show ?case by (elim repeats_rel [where R = "\<lambda>s t. groups_of t = groups_of s"]) auto
qed (auto split: list.splits if_splits prod.splits)

definition derived :: "subject \<Rightarrow> subject \<Rightarrow> bool" where
  "derived s t \<longleftrightarrow> suffix (left_over t) (left_over s) \<and> (\<forall>(i, w) \<in> set (groups_of t). (i, w) \<in> set (groups_of s) \<or> set w \<subseteq> set (left_over s))"

lemma derived_refl: "derived s s"
  by (auto simp: derived_def)

lemma derived_trans: "derived s t \<Longrightarrow> derived t u \<Longrightarrow> derived s u"
  by (fastforce simp: derived_def dest: set_mono_suffix intro: suffix_order.trans)

lemma match_derived: "t \<in> set (rx_match r s) \<Longrightarrow> derived s t"
proof (induction r arbitrary: s t)
  case (Class p)
  then show ?case by (auto simp: derived_def suffix_ConsI split: list.splits if_splits prod.splits)
next
  case (Then a b)
  then obtain u where "u \<in> set (rx_match a s)" and "t \<in> set (rx_match b u)" by (auto simp: Bex_def)
  with Then.IH show ?case by (blast intro: derived_trans)
next
  case (Many greedy r)
  then have "t \<in> set (repeats (length (left_over s)) greedy (rx_match r) s)" by simp
  then show ?case using derived_refl derived_trans Many.IH by (rule repeats_rel)
next
  case (Group i r)
  then obtain u where "u \<in> set (rx_match r s)" and t: "t = (fst u, left_over u, (i, take (length (left_over s) - length (left_over u)) (left_over s)) # groups_of u)"
    by auto
  with Group.IH have "derived s u" by blast
  with t show ?case by (auto simp: derived_def dest: in_set_takeD)
qed (auto simp: derived_refl split: if_splits)

lemma match_size: "flat r \<Longrightarrow> t \<in> set (rx_match r s) \<Longrightarrow> grouped t + length (left_over t) \<le> grouped s + length (left_over s)"
proof (induction r arbitrary: s t)
  case (Class p)
  then show ?case by (auto simp: grouped_def split: list.splits if_splits prod.splits)
next
  case (Then a b)
  then obtain u where "u \<in> set (rx_match a s)" and "t \<in> set (rx_match b u)" by (auto simp: Bex_def)
  with Then.IH(1) [of u s] Then.IH(2) [of t u] Then.prems(1) show ?case by simp
next
  case (Many greedy r)
  then have "t \<in> set (repeats (length (left_over s)) greedy (rx_match r) s)" and "flat r" by simp_all
  with Many.IH show ?case
    by (elim repeats_rel [where R = "\<lambda>s t. grouped t + length (left_over t) \<le> grouped s + length (left_over s)"]) auto
next
  case (Group i r)
  then obtain u where u: "u \<in> set (rx_match r s)" and t: "t = (fst u, left_over u, (i, take (length (left_over s) - length (left_over u)) (left_over s)) # groups_of u)"
    by auto
  from Group.prems(1) match_groupless [OF _ u] have "groups_of u = groups_of s" by simp
  moreover have "length (left_over u) \<le> length (left_over s)" using match_derived [OF u] by (simp add: derived_def suffix_length_le)
  ultimately show ?case using t by (simp add: grouped_def)
qed (auto split: if_splits)

lemma group_text_size:
  assumes "distinct ks"
  shows "sum_list (map (\<lambda>k. length (group_text s k)) ks) \<le> grouped s"
proof -
  let ?f = "\<lambda>(g :: (nat \<times> str) list) k. length (case map_of g k of Some w \<Rightarrow> w | None \<Rightarrow> [])"
  have "sum_list (map (?f g) ks) \<le> sum_list (map (length \<circ> snd) g)" for g
    using assms
  proof (induction g arbitrary: ks)
    case (Cons x g)
    obtain j w where x: "x = (j, w)" by fastforce
    have "distinct ks \<Longrightarrow> sum_list (map (?f (x # g)) ks) \<le> length w + sum_list (map (?f g) (filter (\<lambda>k. k \<noteq> j) ks))"
      for ks
    proof (induction ks)
      case (Cons k ks)
      show ?case
      proof (cases "k = j")
        case True
        with Cons.prems have "map (?f (x # g)) ks = map (?f g) ks" and "filter (\<lambda>k. k \<noteq> j) ks = ks"
          by (auto simp: x filter_id_conv)
        then have "sum_list (map (?f (x # g)) ks) = sum_list (map (?f g) (filter (\<lambda>k. k \<noteq> j) ks))" by (simp only:)
        with True show ?thesis by (simp add: x del: map_eq_conv)
      next
        case False
        with Cons show ?thesis by (simp add: x)
      qed
    qed simp
    from this [OF Cons.prems] Cons.IH [of "filter (\<lambda>k. k \<noteq> j) ks"] Cons.prems show ?case by (simp add: x)
  qed simp
  then show ?thesis by (simp add: group_text_def grouped_def)
qed

lemma first_matchD:
  "first_match r prev cs = Some t \<Longrightarrow> t \<in> set (rx_match r (prev, cs, [])) \<and> length (left_over t) < length cs"
  by (auto simp: first_match_def filter_eq_Cons_iff split: list.splits)

lemma expand_bounds:
  assumes "t \<in> set (rx_match r (prev, cs, []))" and "length (left_over t) < length cs"
    and "flat r" and "distinct groups" and "length literal \<le> 1" and "groups = [] \<or> literal = []"
  shows "length (expand groups literal t) + length (left_over t) \<le> length cs \<and>
    set (expand groups literal t) \<subseteq> set literal \<union> set cs \<and> set (left_over t) \<subseteq> set cs"
proof -
  have "grouped t + length (left_over t) \<le> length cs" using match_size [OF assms(3,1)] by (simp add: grouped_def)
  moreover have "length (expand groups literal t) \<le> (if groups = [] then 1 else grouped t)"
    using group_text_size [OF assms(4), of t] assms(5,6) by (auto simp: expand_def length_concat comp_def)
  ultimately have "length (expand groups literal t) + length (left_over t) \<le> length cs"
    using assms(2) by (auto split: if_splits)
  moreover have d: "derived (prev, cs, []) t" using match_derived [OF assms(1)] .
  then have "set (left_over t) \<subseteq> set cs" by (simp add: derived_def set_mono_suffix)
  moreover have "set (group_text t i) \<subseteq> set cs" for i
  proof (cases "map_of (groups_of t) i")
    case (Some w)
    then have "(i, w) \<in> set (groups_of t)" by (rule map_of_SomeD)
    with d Some show ?thesis by (auto simp: derived_def group_text_def)
  qed (simp add: group_text_def)
  then have "set (expand groups literal t) \<subseteq> set literal \<union> set cs" by (auto simp: expand_def)
  ultimately show ?thesis by blast
qed

lemma replace_bounds:
  assumes "flat r" and "distinct groups" and "length literal \<le> 1" and "groups = [] \<or> literal = []"
  shows "length (replace_matches r groups literal prev cs) \<le> length cs \<and> set (replace_matches r groups literal prev cs) \<subseteq> set literal \<union> set cs"
  using assms
proof (induction r groups literal prev cs rule: replace_matches.induct)
  case (2 r groups literal prev c cs)
  show ?case
  proof (cases "first_match r prev (c # cs)")
    case None
    with 2 show ?thesis by auto
  next
    case (Some t)
    note * = first_matchD [OF Some]
    from 2(2) [OF Some 2(3-6)] expand_bounds [OF conjunct1 [OF *] conjunct2 [OF *] 2(3-6)] Some show ?thesis
      by fastforce
  qed
qed simp

lemma expressions_flat [simp]:
  "flat md_image" "flat md_link" "flat md_code_fence" "flat md_inline_code" "flat md_strike" "flat md_bold" "flat md_italic_star"
  "flat md_line_lead" "flat multi_space"
  by (simp_all add: md_image_def md_link_def md_code_fence_def md_inline_code_def md_strike_def md_bold_def md_italic_star_def
      md_line_lead_def multi_space_def one_def some_of_def tick_def numeral_eq_Suc)

text \<open>Sanitizing only takes away: what is spoken is never longer than the sentence and holds no character
  that was not there but blanks.\<close>

theorem sanitizing_only_takes_away:
  "length (sanitize_for_tts text) \<le> length text \<and> set (sanitize_for_tts text) \<subseteq> insert (CHR '' '') (set text)"
proof -
  have step: "length s \<le> length text \<and> set s \<subseteq> insert (CHR '' '') (set text) \<Longrightarrow> flat r \<Longrightarrow> distinct groups \<Longrightarrow>
      groups = [] \<and> (literal = [] \<or> literal = '' '') \<or> literal = [] \<Longrightarrow>
      length (replace_all_string r groups literal s) \<le> length text \<and> set (replace_all_string r groups literal s) \<subseteq> insert (CHR '' '') (set text)"
    for s r groups literal
    using replace_bounds [of r groups literal None s] by (fastforce simp: replace_all_string_def)
  show ?thesis
    by (simp add: sanitize_for_tts_def Let_def subset_insertI step)
qed

section \<open>Marks go, words stay\<close>

definition prefers :: "rx \<Rightarrow> subject \<Rightarrow> subject \<Rightarrow> bool" where
  "prefers r s t \<longleftrightarrow> (\<exists>ts. rx_match r s = t # ts)"

lemma prefers_then: "prefers a s t \<Longrightarrow> prefers b t u \<Longrightarrow> prefers (Then a b) s u"
  by (auto simp: prefers_def)

lemma prefers_class: "p c \<Longrightarrow> prefers (Class p) (prev, c # cs, g) (Some c, cs, g)"
  by (simp add: prefers_def)

lemma prefers_one: "prefers (one c) (prev, c # cs, g) (Some c, cs, g)"
  by (simp add: prefers_def one_def)

lemma prefers_group:
  "prefers r (prev, w @ cs, g) (q, cs, g) \<Longrightarrow> prefers (Group i r) (prev, w @ cs, g) (q, cs, (i, w) # g)"
  by (auto simp: prefers_def)

definition after :: "char option \<Rightarrow> str \<Rightarrow> char option" where
  "after prev w = (if w = [] then prev else Some (last w))"

lemma after_simps [simp]: "after prev [] = prev" "after prev (c # w) = after (Some c) w"
  by (simp_all add: after_def)

lemma repeats_class:
  "length (w @ cs) \<le> n \<Longrightarrow> list_all p w \<Longrightarrow> (\<forall>c cs'. cs = c # cs' \<longrightarrow> \<not> p c) \<Longrightarrow>
    \<exists>ts. repeats n True (rx_match (Class p)) (prev, w @ cs, g) = (after prev w, cs, g) # ts"
proof (induction w arbitrary: n prev)
  case Nil
  then show ?case by (cases n) (auto simp: Let_def split: list.splits)
next
  case (Cons c w)
  then obtain m where n: "n = Suc m" by (cases n) auto
  from Cons.IH [of m "Some c"] Cons.prems n obtain ts
    where "repeats m True (rx_match (Class p)) (Some c, w @ cs, g) = (after (Some c) w, cs, g) # ts"
    by auto
  with Cons.prems n show ?case by (simp add: Let_def)
qed

lemma prefers_many:
  "list_all p w \<Longrightarrow> (\<forall>c cs'. cs = c # cs' \<longrightarrow> \<not> p c) \<Longrightarrow> prefers (Many True (Class p)) (prev, w @ cs, g) (after prev w, cs, g)"
  using repeats_class [of w cs "length (w @ cs)" p prev g] by (simp add: prefers_def)

lemma prefers_some:
  assumes "list_all p w" and "w \<noteq> []" and "\<forall>c cs'. cs = c # cs' \<longrightarrow> \<not> p c"
  shows "prefers (some_of (Class p)) (prev, w @ cs, g) (after prev w, cs, g)"
proof -
  from assms obtain c v where w: "w = c # v" by (cases w) auto
  with assms prefers_many [of p v cs "Some c" g] show ?thesis
    unfolding some_of_def by (auto intro!: prefers_then prefers_class)
qed

lemma prefers_first_match:
  "prefers r (prev, cs, []) t \<Longrightarrow> length (left_over t) < length cs \<Longrightarrow> first_match r prev cs = Some t"
  by (auto simp: prefers_def first_match_def)

text \<open>An expression that begins with a certain character leaves a text without it alone.\<close>

definition begins :: "char \<Rightarrow> rx \<Rightarrow> bool" where
  "begins c r \<longleftrightarrow> (\<forall>prev d cs g. d \<noteq> c \<longrightarrow> rx_match r (prev, d # cs, g) = [])"

lemma begins_one: "begins c (one c)" "begins c (Then (one c) r)" "begins c (some_of (one c))" "begins c (Then (some_of (one c)) r)"
  by (simp_all add: begins_def one_def some_of_def)

lemma expressions_begin [simp]:
  "begins (CHR ''!'') md_image" "begins (CHR ''['') md_link" "begins (CHR 0x60) md_code_fence" "begins (CHR 0x60) md_inline_code"
  "begins (CHR ''~'') md_strike" "begins (CHR ''*'') md_bold"
  by (simp_all add: md_image_def md_link_def md_code_fence_def md_inline_code_def md_strike_def md_bold_def tick_def begins_one)

lemma begins_first: "begins k r \<Longrightarrow> d \<noteq> k \<Longrightarrow> first_match r prev (d # cs) = None"
  by (simp add: begins_def first_match_def)

lemma replace_copies:
  "begins k r \<Longrightarrow> k \<notin> set u \<Longrightarrow> replace_matches r gs lit prev (u @ cs) = u @ replace_matches r gs lit (after prev u) cs"
  by (induction u arbitrary: prev) (auto simp: begins_first)

lemma replace_nothing: "begins k r \<Longrightarrow> k \<notin> set u \<Longrightarrow> replace_matches r gs lit prev u = u"
  using replace_copies [of k r u gs lit prev "[]"] by simp

lemma image_nothing: "CHR ''['' \<notin> set u \<Longrightarrow> replace_matches md_image gs lit prev u = u"
proof (induction u arbitrary: prev)
  case (Cons c u)
  then have "first_match md_image prev (c # u) = None"
    by (cases u) (auto simp: first_match_def md_image_def one_def)
  with Cons show ?case by simp
qed simp

lemma match_needs:
  assumes "k \<notin> set (left_over s)"
  shows "rx_match (Then a (Then (one k) b)) s = []"
proof -
  have "rx_match (Then (one k) b) t = []" if "t \<in> set (rx_match a s)" for t
  proof -
    have "k \<notin> set (left_over t)" using match_derived [OF that] assms by (auto simp: derived_def dest: set_mono_suffix)
    then show ?thesis by (cases t; cases "left_over t") (auto simp: one_def)
  qed
  then show ?thesis by simp
qed

lemma italic_nothing: "CHR ''*'' \<notin> set u \<Longrightarrow> replace_matches md_italic_star gs lit prev u = u"
proof (induction u arbitrary: prev)
  case (Cons c u)
  then have "rx_match md_italic_star (prev, c # u, []) = []"
    unfolding md_italic_star_def in_turn.simps by (intro match_needs) simp
  then have "first_match md_italic_star prev (c # u) = None" by (simp add: first_match_def)
  with Cons show ?case by simp
qed simp

text \<open>A text that the last two expressions leave alone: no line begins with a blank, a digit or a mark of a list,
  heading or quotation, and no two blanks follow each other.\<close>

fun quiet :: "char option \<Rightarrow> str \<Rightarrow> bool" where
  "quiet prev [] = True"
| "quiet prev (c # cs) =
     ((prev = None \<or> prev = Some (CHR 0x0A) \<longrightarrow>
         \<not> horizontal c \<and> \<not> is_digit c \<and> c \<notin> {CHR ''#'', CHR ''>'', CHR ''-'', CHR ''*'', CHR ''+''}) \<and>
      (horizontal c \<longrightarrow> (case cs of [] \<Rightarrow> True | d # _ \<Rightarrow> \<not> horizontal d)) \<and> quiet (Some c) cs)"

lemma quiet_nothing:
  "quiet prev u \<Longrightarrow> replace_matches md_line_lead gs lit prev u = u"
  "quiet prev u \<Longrightarrow> replace_matches multi_space gs lit prev u = u"
proof (induction u arbitrary: prev)
  case (Cons c u)
  {
    case 1
    then have "first_match md_line_lead prev (c # u) = None"
      by (auto simp: first_match_def md_line_lead_def one_def some_of_def Let_def)
    with Cons 1 show ?case by simp
  next
    case 2
    then have "first_match multi_space prev (c # u) = None"
      by (cases u) (auto simp: first_match_def multi_space_def some_of_def)
    with Cons 2 show ?case by simp
  }
qed simp_all

definition unmarked :: "str \<Rightarrow> bool" where
  "unmarked u \<longleftrightarrow> set u \<inter> {CHR ''['', CHR 0x60, CHR ''~'', CHR ''*''} = {}"

definition enclose :: "str \<Rightarrow> str \<Rightarrow> str" where
  "enclose mark w = mark @ w @ mark"

lemma bold_goes:
  assumes "CHR ''*'' \<notin> set u" and "CHR ''*'' \<notin> set w" and "CHR ''*'' \<notin> set v" and "w \<noteq> []"
  shows "replace_matches md_bold [1] [] prev (u @ enclose ''**'' w @ v) = u @ w @ v"
proof -
  let ?star = "CHR ''*''"
  have stars: "prefers (some_of (one ?star)) (q, ?star # cs, g) (Some ?star, cs, g)" if "?star \<notin> set cs" for q cs g
    using that prefers_some [of "\<lambda>d. d = ?star" "[?star]" cs q g] by (cases cs) (auto simp: one_def)
  have stars': "prefers (some_of (one ?star)) (q, ?star # w @ cs, g) (Some ?star, w @ cs, g)" for q cs g
    using assms(2,4) prefers_some [of "\<lambda>d. d = ?star" "[?star]" "w @ cs" q g] by (cases w) (auto simp: one_def)
  have "prefers (some_of (Class (\<lambda>c. c \<noteq> ?star))) (Some ?star, w @ ?star # ?star # v, []) (after (Some ?star) w, ?star # ?star # v, [])"
    using assms(2,4) by (intro prefers_some) (auto simp: list_all_iff)
  then have "prefers md_bold (q, enclose ''**'' w @ v, []) (Some ?star, v, [(1, w)])" for q
    unfolding md_bold_def enclose_def using assms(3)
    by (auto intro!: prefers_then [OF prefers_one] prefers_then [OF stars'] prefers_then [OF prefers_group] prefers_one stars)
  from prefers_first_match [OF this, of "after prev u"] show ?thesis
    using assms(1,3) by (subst replace_copies [where k = ?star]) (auto simp: enclose_def expand_def group_text_def replace_nothing [where k = ?star])
qed

lemma strike_goes:
  assumes "CHR ''~'' \<notin> set u" and "CHR ''~'' \<notin> set w" and "CHR ''~'' \<notin> set v" and "w \<noteq> []"
  shows "replace_matches md_strike [1] [] prev (u @ enclose ''~~'' w @ v) = u @ w @ v"
proof -
  let ?mark = "CHR ''~''"
  have "prefers (some_of (Class (\<lambda>c. c \<noteq> ?mark))) (Some ?mark, w @ ?mark # ?mark # v, []) (after (Some ?mark) w, ?mark # ?mark # v, [])"
    using assms(2,4) by (intro prefers_some) (auto simp: list_all_iff)
  then have "prefers md_strike (q, enclose ''~~'' w @ v, []) (Some ?mark, v, [(1, w)])" for q
    unfolding md_strike_def enclose_def
    by (auto intro!: prefers_then [OF prefers_one] prefers_then [OF prefers_group] prefers_one)
  from prefers_first_match [OF this, of "after prev u"] show ?thesis
    using assms(1,3) by (subst replace_copies [where k = ?mark]) (auto simp: enclose_def expand_def group_text_def replace_nothing [where k = ?mark])
qed

lemma fence_first: "d \<noteq> CHR 0x60 \<Longrightarrow> first_match md_code_fence prev (CHR 0x60 # d # cs) = None"
  "first_match md_code_fence prev [CHR 0x60] = None"
  by (simp_all add: first_match_def md_code_fence_def tick_def one_def)

lemma fence_passes:
  "\<forall>d ds. cs = d # ds \<longrightarrow> d \<noteq> CHR 0x60 \<Longrightarrow>
    replace_matches md_code_fence gs lit prev (CHR 0x60 # cs) = CHR 0x60 # replace_matches md_code_fence gs lit (Some (CHR 0x60)) cs"
  by (cases cs) (auto simp: fence_first)

lemma fence_nothing:
  assumes "CHR 0x60 \<notin> set u" and "CHR 0x60 \<notin> set w" and "CHR 0x60 \<notin> set v" and "w \<noteq> []"
  shows "replace_matches md_code_fence gs lit prev (u @ enclose [CHR 0x60] w @ v) = u @ enclose [CHR 0x60] w @ v"
proof -
  let ?go = "replace_matches md_code_fence gs lit"
  have "?go q (CHR 0x60 # v) = CHR 0x60 # v" for q
    using assms(3) by (subst fence_passes) (auto simp: replace_nothing [where k = "CHR 0x60"])
  then have "?go q (w @ CHR 0x60 # v) = w @ CHR 0x60 # v" for q
    using assms(2) by (simp add: replace_copies [where k = "CHR 0x60"])
  moreover have "\<forall>d ds. w @ CHR 0x60 # v = d # ds \<longrightarrow> d \<noteq> CHR 0x60"
    using assms(2,4) by (cases w) auto
  ultimately have "?go q (CHR 0x60 # w @ CHR 0x60 # v) = CHR 0x60 # w @ CHR 0x60 # v" for q
    by (simp only: fence_passes)
  then show ?thesis using assms(1) by (simp add: enclose_def replace_copies [where k = "CHR 0x60"])
qed

lemma code_goes:
  assumes "CHR 0x60 \<notin> set u" and "CHR 0x60 \<notin> set w" and "CHR 0x60 \<notin> set v" and "w \<noteq> []"
  shows "replace_matches md_inline_code [1] [] prev (u @ enclose [CHR 0x60] w @ v) = u @ w @ v"
proof -
  let ?mark = "CHR 0x60"
  have ticks: "prefers (some_of tick) (q, ?mark # cs, g) (Some ?mark, cs, g)" if "\<forall>c cs'. cs = c # cs' \<longrightarrow> c \<noteq> ?mark" for q cs g
    using that prefers_some [of "\<lambda>d. d = ?mark" "[?mark]" cs q g] by (auto simp: tick_def one_def)
  have "prefers (some_of (Class (\<lambda>c. c \<noteq> ?mark))) (Some ?mark, w @ ?mark # v, []) (after (Some ?mark) w, ?mark # v, [])"
    using assms(2,4) by (intro prefers_some) (auto simp: list_all_iff)
  from prefers_group [OF this] have g: "prefers (Group 1 (some_of (Class (\<lambda>c. c \<noteq> ?mark)))) (Some ?mark, w @ ?mark # v, []) (after (Some ?mark) w, ?mark # v, [(1, w)])" .
  have t: "prefers (some_of tick) (q, ?mark # w @ ?mark # v, []) (Some ?mark, w @ ?mark # v, [])" for q
    using assms(2,4) by (intro ticks) (cases w, auto)
  have "prefers (some_of tick) (q, ?mark # v, [(1, w)]) (Some ?mark, v, [(1, w)])" for q
    using assms(3) by (intro ticks) auto
  from prefers_then [OF t prefers_then [OF g this]] have "prefers md_inline_code (q, enclose [?mark] w @ v, []) (Some ?mark, v, [(1, w)])" for q
    by (simp add: md_inline_code_def enclose_def)
  from prefers_first_match [OF this, of "after prev u"] show ?thesis
    using assms(1,3) by (subst replace_copies [where k = ?mark]) (auto simp: enclose_def expand_def group_text_def replace_nothing [where k = ?mark])
qed

text \<open>C36: Marks go and words stay: a quiet text without marks is spoken as it is, and enclosing some words of it
  in the marks of bold, struck or code text changes nothing of what is spoken.\<close>

theorem marks_go_and_words_stay:
  assumes "quiet None (u @ w @ v)" and "unmarked (u @ w @ v)" and "w \<noteq> []"
  shows "sanitize_for_tts (u @ w @ v) = u @ w @ v \<and> sanitize_for_tts (u @ enclose ''**'' w @ v) = u @ w @ v \<and>
    sanitize_for_tts (u @ enclose ''~~'' w @ v) = u @ w @ v \<and> sanitize_for_tts (u @ enclose [CHR 0x60] w @ v) = u @ w @ v"
proof -
  let ?t = "u @ w @ v"
  note q = quiet_nothing [OF assms(1)]
  have no: "CHR ''['' \<notin> set ?t" "CHR 0x60 \<notin> set ?t" "CHR ''~'' \<notin> set ?t" "CHR ''*'' \<notin> set ?t"
    using assms(2) by (auto simp: unmarked_def)
  note parts = no [simplified]
  have link: "CHR ''['' \<notin> set x \<Longrightarrow> replace_matches md_link gs lit prev x = x" for x gs lit prev
    by (rule replace_nothing [where k = "CHR ''[''"]) simp_all
  have fence: "CHR 0x60 \<notin> set x \<Longrightarrow> replace_matches md_code_fence gs lit prev x = x" for x gs lit prev
    by (rule replace_nothing [where k = "CHR 0x60"]) simp_all
  have code: "CHR 0x60 \<notin> set x \<Longrightarrow> replace_matches md_inline_code gs lit prev x = x" for x gs lit prev
    by (rule replace_nothing [where k = "CHR 0x60"]) simp_all
  have strike: "CHR ''~'' \<notin> set x \<Longrightarrow> replace_matches md_strike gs lit prev x = x" for x gs lit prev
    by (rule replace_nothing [where k = "CHR ''~''"]) simp_all
  have bold: "CHR ''*'' \<notin> set x \<Longrightarrow> replace_matches md_bold gs lit prev x = x" for x gs lit prev
    by (rule replace_nothing [where k = "CHR ''*''"]) simp_all
  note pass = image_nothing link fence code strike bold italic_nothing
  note defs = sanitize_for_tts_def replace_all_string_def Let_def
  have "sanitize_for_tts ?t = ?t" using parts q unfolding defs by (simp add: pass)
  moreover have "sanitize_for_tts (u @ enclose ''**'' w @ v) = ?t"
  proof -
    have "replace_matches md_bold [1] [] None (u @ enclose ''**'' w @ v) = ?t" using parts assms(3) by (intro bold_goes) auto
    then show ?thesis using parts q unfolding defs by (simp add: pass enclose_def)
  qed
  moreover have "sanitize_for_tts (u @ enclose ''~~'' w @ v) = ?t"
  proof -
    have "replace_matches md_strike [1] [] None (u @ enclose ''~~'' w @ v) = ?t" using parts assms(3) by (intro strike_goes) auto
    then show ?thesis using parts q unfolding defs by (simp add: pass enclose_def)
  qed
  moreover have "sanitize_for_tts (u @ enclose [CHR 0x60] w @ v) = ?t"
  proof -
    have "replace_matches md_inline_code [1] [] None (u @ enclose [CHR 0x60] w @ v) = ?t"
      "replace_matches md_code_fence [1] [] None (u @ enclose [CHR 0x60] w @ v) = u @ enclose [CHR 0x60] w @ v"
      using parts assms(3) by (intro code_goes fence_nothing; auto)+
    then show ?thesis using parts q unfolding defs by (simp add: pass enclose_def)
  qed
  ultimately show ?thesis by simp
qed

theorem marks_go_and_words_stay_witness:
  "sanitize_for_tts ''The **2019 Leaf** is great.'' = ''The 2019 Leaf is great.''"
  using marks_go_and_words_stay [of "''The ''" "''2019 Leaf''" "'' is great.''"]
  by (simp add: enclose_def unmarked_def horizontal_def is_digit_def)

section \<open>What the code does not mean to do\<close>

text \<open>An emphasised word takes the blank behind it, and the next one is not seen; the first word of code on one
  line is taken for the name of its language.\<close>

lemma second_emphasis_stays: "sanitize_for_tts ''*very* *very* good'' = ''very *very* good''"
  by code_simp

lemma fenced_word_is_lost: "sanitize_for_tts ''say ```hello``` now'' = ''say now''"
  by code_simp

end
