(* ===== verification/Speech_Sessions.thy ===== *)
theory Speech_Sessions
  imports Speech_Providers Markdown_Sanitizer
begin

text \<open>
  Speech synthesis over WebSockets, one connection per utterance: Volcengine's binary events,
  Aliyun's tasks and Telnyx's frames (\<open>internal/tts/volcengine.go\<close>, \<open>aliyun.go\<close>, \<open>telnyx.go\<close>),
  and the choice of the client (\<open>client.go\<close>). A conversation is a function of the frames the
  service sends; the connection ends after the last of them. Marshalling JSON to bytes is a
  parameter, as are the identifiers of sessions.
\<close>

section \<open>Volcengine\<close>

abbreviation volc_connection_started :: "32 word" where "volc_connection_started \<equiv> 50"
abbreviation volc_session_started :: "32 word" where "volc_session_started \<equiv> 150"
abbreviation volc_session_finished :: "32 word" where "volc_session_finished \<equiv> 152"
abbreviation volc_session_failed :: "32 word" where "volc_session_failed \<equiv> 153"
abbreviation volc_tts_response :: "32 word" where "volc_tts_response \<equiv> 352"

definition volc_tts_frame :: "32 word \<Rightarrow> str \<Rightarrow> byte list \<Rightarrow> byte list" where
  "volc_tts_frame event session payload =
     [0x11, push_bit 4 1 OR 4, 0x10, 0] @ put_be32 event @
     (if session \<noteq> [] then put_be32 (of_nat (length session)) @ to_bytes session else []) @
     put_be32 (of_nat (length payload)) @ payload"

definition volc_session_scoped :: "32 word \<Rightarrow> bool" where
  "volc_session_scoped event \<longleftrightarrow>
     event \<in> {volc_session_started, volc_session_finished, volc_session_failed, volc_tts_response, 350, 351, 359}"

text \<open>The length at a position, when there are four bytes to read it from.\<close>

definition length_at :: "nat \<Rightarrow> byte list \<Rightarrow> nat option" where
  "length_at p data = (if length data < p + 4 then None else Some (unat (get_be32 (drop p data))))"

definition parse_volc_tts :: "byte list \<Rightarrow> (32 word \<times> byte list) option" where
  "parse_volc_tts data =
     (if length data < 8 then None
      else
        let with_event = (data ! 1 AND 0x0F AND 4 \<noteq> 0);
            event = (if with_event then get_be32 (drop 4 data) else 0);
            p = (if with_event then 8 else 4);
            skipped = (if volc_session_scoped event
                       then (case length_at p data of
                          None \<Rightarrow> None
                        | Some n \<Rightarrow> if length data < p + 4 + n then None else Some (p + 4 + n))
                       else Some p)
        in case skipped of
          None \<Rightarrow> None
        | Some p \<Rightarrow> (case length_at p data of
            None \<Rightarrow> None
          | Some n \<Rightarrow> Some (event, take n (drop (p + 4) data))))"

record volc_voice =
  vv_speaker :: str
  vv_resource :: str
  vv_url :: str

definition new_volc_voice :: "str \<Rightarrow> str \<Rightarrow> str \<Rightarrow> volc_voice" where
  "new_volc_voice speaker resource url =
     \<lparr>vv_speaker = default_to ''zh_female_vv_uranus_bigtts'' speaker, vv_resource = default_to ''seed-tts-2.0'' resource,
      vv_url = default_to ''wss://openspeech.bytedance.com/api/v3/tts/bidirection'' url\<rparr>"

definition volc_tts_request :: "volc_voice \<Rightarrow> int \<Rightarrow> str \<Rightarrow> json" where
  "volc_tts_request v event s =
     JObj [(''user'', JObj [(''uid'', JStr ''streamcore'')]), (''event'', JNum (of_int event)), (''namespace'', JStr ''BidirectionalTTS''),
       (''req_params'', JObj ((if s = [] then [] else [(''text'', JStr s)]) @ [(''speaker'', JStr (vv_speaker v)),
          (''audio_params'', JObj [(''format'', JStr ''pcm''), (''sample_rate'', JNum 16000)])]))]"

text \<open>Waiting for an event: the frames read and, unless the service refuses, those still to come.\<close>

fun volc_expect :: "32 word \<Rightarrow> byte list list \<Rightarrow> byte list list \<times> (str + byte list list)" where
  "volc_expect want [] = ([], Inl ''read'')"
| "volc_expect want (d # ds) =
     (let rest = (case volc_expect want ds of (heard, r) \<Rightarrow> (d # heard, r)) in
      case parse_volc_tts d of
        None \<Rightarrow> rest
      | Some (event, payload) \<Rightarrow>
          if event = want then ([d], Inr ds)
          else if event = volc_session_failed \<or> event = 0 then ([d], Inl (trim_space (of_bytes payload)))
          else rest)"

fun volc_pump :: "byte list list \<Rightarrow> stream_chunk list" where
  "volc_pump [] = [Stream_error ''volcengine stream read'']"
| "volc_pump (d # ds) =
     (case parse_volc_tts d of
        None \<Rightarrow> volc_pump ds
      | Some (event, payload) \<Rightarrow>
          if event = volc_tts_response then Audio payload # volc_pump ds
          else if event = volc_session_finished then []
          else if event = volc_session_failed \<or> event = 0 then [Stream_error (''volcengine: '' @ trim_space (of_bytes payload))]
          else volc_pump ds)"

datatype talk = Says "byte list" | Hears "byte list"

definition volc_speak ::
  "(json \<Rightarrow> byte list) \<Rightarrow> volc_voice \<Rightarrow> str \<Rightarrow> str \<Rightarrow> byte list list \<Rightarrow> talk list \<times> (str + stream_chunk list)" where
  "volc_speak marshal v session s incoming =
     (let start = [Says (volc_tts_frame 1 [] (to_bytes ''{}''))] in
      case volc_expect volc_connection_started incoming of
        (heard, Inl e) \<Rightarrow> (start @ map Hears heard, Inl (''volcengine connection: '' @ e))
      | (heard, Inr incoming) \<Rightarrow>
          let start = start @ map Hears heard @ [Says (volc_tts_frame 100 session (marshal (volc_tts_request v 100 [])))] in
          (case volc_expect volc_session_started incoming of
             (heard, Inl e) \<Rightarrow> (start @ map Hears heard, Inl (''volcengine session: '' @ e))
           | (heard, Inr incoming) \<Rightarrow>
               (start @ map Hears heard @
                  [Says (volc_tts_frame 200 session (marshal (volc_tts_request v 200 s))),
                   Says (volc_tts_frame 102 session (marshal (JObj [(''event'', JNum 102), (''namespace'', JStr ''BidirectionalTTS'')])))],
                Inr (volc_pump incoming))))"

section \<open>Aliyun\<close>

datatype incoming = Text_frame raw | Binary_frame "byte list"

record aliyun_voice =
  av_voice :: str
  av_model :: str
  av_url :: str

definition new_aliyun_voice :: "str \<Rightarrow> str \<Rightarrow> str \<Rightarrow> aliyun_voice" where
  "new_aliyun_voice voice model url =
     \<lparr>av_voice = default_to ''longxiaochun_v2'' voice, av_model = default_to ''cosyvoice-v2'' model,
      av_url = default_to ''wss://dashscope.aliyuncs.com/api-ws/v1/inference'' url\<rparr>"

definition aliyun_header :: "str \<Rightarrow> str \<Rightarrow> str \<times> json" where
  "aliyun_header action task =
     (''header'', JObj [(''action'', JStr action), (''task_id'', JStr task), (''streaming'', JStr ''duplex'')])"

definition aliyun_speech_task :: "aliyun_voice \<Rightarrow> str \<Rightarrow> json" where
  "aliyun_speech_task v task =
     JObj [aliyun_header ''run-task'' task,
       (''payload'', JObj [(''task_group'', JStr ''audio''), (''task'', JStr ''tts''), (''function'', JStr ''SpeechSynthesizer''),
          (''model'', JStr (av_model v)),
          (''parameters'', JObj [(''text_type'', JStr ''PlainText''), (''voice'', JStr (av_voice v)), (''format'', JStr ''pcm''), (''sample_rate'', JNum 16000)]),
          (''input'', JObj [])])]"

definition aliyun_text :: "str \<Rightarrow> str \<Rightarrow> json" where
  "aliyun_text task s =
     JObj [aliyun_header ''continue-task'' task, (''payload'', JObj [(''input'', JObj (if s = [] then [] else [(''text'', JStr s)]))])]"

definition aliyun_finish :: "str \<Rightarrow> json" where
  "aliyun_finish task = JObj [aliyun_header ''finish-task'' task, (''payload'', JObj [(''input'', JObj [])])]"

text \<open>The event of a control message and its error, if it decodes.\<close>

definition aliyun_event :: "raw \<Rightarrow> (str \<times> str) option" where
  "aliyun_event m =
     (case (if into_struct m then sub_struct ''header'' m else None) of
        None \<Rightarrow> None
      | Some h \<Rightarrow>
          (case all_some (map (\<lambda>k. as_string (struct_field k h))
                   [''event'', ''error_code'', ''error_message'', ''action'', ''task_id'', ''streaming'']) of
             Some (event # code # msg # _) \<Rightarrow> Some (event, ''aliyun '' @ code @ '': '' @ msg)
           | _ \<Rightarrow> None))"

fun aliyun_open :: "incoming list \<Rightarrow> str + incoming list" where
  "aliyun_open [] = Inl ''aliyun handshake''"
| "aliyun_open (f # fs) =
     (case f of
        Binary_frame _ \<Rightarrow> aliyun_open fs
      | Text_frame m \<Rightarrow>
          (case aliyun_event m of
             None \<Rightarrow> aliyun_open fs
           | Some (event, e) \<Rightarrow>
               if event = ''task-started'' then Inr fs
               else if event = ''task-failed'' then Inl e
               else aliyun_open fs))"

fun aliyun_pump :: "incoming list \<Rightarrow> stream_chunk list" where
  "aliyun_pump [] = [Stream_error ''aliyun stream read'']"
| "aliyun_pump (f # fs) =
     (case f of
        Binary_frame data \<Rightarrow> Audio data # aliyun_pump fs
      | Text_frame m \<Rightarrow>
          (case aliyun_event m of
             None \<Rightarrow> aliyun_pump fs
           | Some (event, e) \<Rightarrow>
               if event = ''task-failed'' then [Stream_error e]
               else if event = ''task-finished'' then []
               else aliyun_pump fs))"

definition aliyun_speak :: "aliyun_voice \<Rightarrow> str \<Rightarrow> str \<Rightarrow> incoming list \<Rightarrow> json list \<times> (str + stream_chunk list)" where
  "aliyun_speak v task s frames =
     (case aliyun_open frames of
        Inl e \<Rightarrow> ([aliyun_speech_task v task], Inl e)
      | Inr frames \<Rightarrow> ([aliyun_speech_task v task, aliyun_text task s, aliyun_finish task], Inr (aliyun_pump frames)))"

section \<open>Telnyx\<close>

definition default_telnyx_voice :: str where
  "default_telnyx_voice = ''Telnyx.Qwen3TTS.d9348e0d-988a-42cc-a64e-18093fe45c03''"

definition telnyx_speech_url :: "str \<Rightarrow> str" where
  "telnyx_speech_url voice =
     ''wss://api.telnyx.com/v2/text-to-speech/speech?voice='' @ query_escape (default_to default_telnyx_voice voice) @
     ''&audio_format=linear16&sample_rate=16000''"

definition telnyx_says :: "rat \<Rightarrow> voice_controls \<Rightarrow> str \<Rightarrow> json list" where
  "telnyx_says configured vc s =
     [JObj [(''text'', JStr '' ''), (''voice_settings'', JObj [(''voice_speed'', JNum (telnyx_speed configured vc))])],
      JObj [(''text'', JStr s), (''flush'', JBool True)],
      JObj [(''text'', JStr [])]]"

datatype speech_frame = Speech_audio "byte list" | Speech_final | Speech_notice | Speech_failed str

definition route_telnyx_speech :: "raw \<Rightarrow> speech_frame" where
  "route_telnyx_speech m =
     (case (if into_struct m then as_string (struct_field ''audio'' m) else None, as_bool (struct_field ''isfinal'' m),
            as_string (struct_field ''error'' m)) of
        (Some data, Some final, Some e) \<Rightarrow>
          if e \<noteq> [] then Speech_failed (''telnyx: '' @ e)
          else if final then Speech_final
          else if data \<noteq> [] then
            (case base64_decode data of None \<Rightarrow> Speech_failed ''telnyx audio decode'' | Some pcm \<Rightarrow> Speech_audio pcm)
          else Speech_notice
      | _ \<Rightarrow> Speech_failed ''telnyx frame decode'')"

fun telnyx_pump :: "raw list \<Rightarrow> stream_chunk list" where
  "telnyx_pump [] = [Stream_error ''telnyx: connection lost'']"
| "telnyx_pump (m # ms) =
     (case route_telnyx_speech m of
        Speech_failed e \<Rightarrow> [Stream_error e]
      | Speech_final \<Rightarrow> []
      | Speech_notice \<Rightarrow> telnyx_pump ms
      | Speech_audio pcm \<Rightarrow> (if pcm = [] then [] else [Audio pcm]) @ telnyx_pump ms)"

section \<open>The client a configuration selects\<close>

datatype tts_client =
    Deepgram_speech str | Cartesia_speech str | Limited nat str | Elevenlabs_speech str str | Speechify_speech str str
  | Telnyx_speech str rat | Minimax_speech minimax_config | Mimo_speech mimo_config | Aliyun_speech aliyun_voice
  | Volc_speech volc_voice | Vibevoice_speech str str | Moonshine_speech str str

definition new_tts_client :: "config \<Rightarrow> provider_error + tts_client" where
  "new_tts_client c =
     (let p = tts_provider (cf_tts c); need = (\<lambda>key client. if key = [] then Inl (Key_missing p) else Inr client) in
      if p = ''deepgram'' then need (dgr_api_key (cf_deepgram c)) (Deepgram_speech (dgr_tts_model (cf_deepgram c)))
      else if p = ''cartesia'' then
        need (cts_api_key (cf_cartesia c))
          (let voice = default_to default_cartesia_voice (cts_voice_id (cf_cartesia c)) in
           if 0 < cts_max_concurrency (cf_cartesia c) then Limited (nat (cts_max_concurrency (cf_cartesia c))) voice
           else Cartesia_speech voice)
      else if p = ''elevenlabs'' then need (elv_api_key (cf_elevenlabs c)) (Elevenlabs_speech (elv_voice_id (cf_elevenlabs c)) (elv_model (cf_elevenlabs c)))
      else if p = ''speechify'' then need (spf_api_key (cf_speechify c)) (Speechify_speech (spf_voice_id (cf_speechify c)) (spf_model (cf_speechify c)))
      else if p = ''telnyx'' then need (tlx_api_key (cf_telnyx c)) (Telnyx_speech (tlx_voice (cf_telnyx c)) (tlx_voice_speed (cf_telnyx c)))
      else if p = ''minimax'' then need (mmx_api_key (cf_minimax c)) (Minimax_speech (cf_minimax c))
      else if p = ''mimo'' then need (mim_api_key (cf_mimo c)) (Mimo_speech (cf_mimo c))
      else if p = ''aliyun'' then
        need (aly_api_key (cf_aliyun c)) (Aliyun_speech (new_aliyun_voice (aly_voice (cf_aliyun c)) (aly_tts_model (cf_aliyun c)) (aly_url (cf_aliyun c))))
      else if p = ''volcengine'' then
        need (vlc_api_key (cf_volcengine c))
          (Volc_speech (new_volc_voice (vlc_speaker (cf_volcengine c)) (vlc_tts_resource_id (cf_volcengine c)) (vlc_tts_url (cf_volcengine c))))
      else if p = ''vibevoice'' then Inr (Vibevoice_speech (vbv_tts_url (cf_vibevoice c)) (vbv_voice (cf_vibevoice c)))
      else if p = ''moonshine'' then Inr (Moonshine_speech (mns_tts_url (cf_moonshine c)) (mns_voice (cf_moonshine c)))
      else Inl (Unknown_provider p))"

text \<open>Whether the client takes the delivery a tag asks for; the others speak without it.\<close>

fun takes_controls :: "tts_client \<Rightarrow> bool" where
  "takes_controls (Cartesia_speech _) \<longleftrightarrow> True"
| "takes_controls (Limited _ _) \<longleftrightarrow> True"
| "takes_controls (Elevenlabs_speech _ _) \<longleftrightarrow> True"
| "takes_controls (Telnyx_speech _ _) \<longleftrightarrow> True"
| "takes_controls (Minimax_speech _) \<longleftrightarrow> True"
| "takes_controls _ \<longleftrightarrow> False"

text \<open>What the wrapped client is asked to speak: the text without Markdown, with the controls it takes.\<close>

definition sanitized_request :: "tts_client \<Rightarrow> str \<Rightarrow> voice_controls option \<Rightarrow> str \<times> voice_controls option" where
  "sanitized_request client s vc = (sanitize_for_tts s, if takes_controls client then vc else None)"

section \<open>Frames are read as they were written\<close>

lemma length_at_put:
  "n < 2 ^ 32 \<Longrightarrow> length a = p \<Longrightarrow> length_at p (a @ put_be32 (of_nat n) @ r) = Some n"
  by (simp add: length_at_def unat_of_nat)

lemma parse_volc_tts_frame:
  assumes "volc_session_scoped event \<longleftrightarrow> session \<noteq> []" and "length session < 2 ^ 32" and "length payload < 2 ^ 32"
  shows "parse_volc_tts (volc_tts_frame event session payload) = Some (event, payload)"
proof -
  define h where "h = [0x11, 0x14, 0x10, 0 :: byte] @ put_be32 event"
  define m where "m = (if session \<noteq> [] then put_be32 (of_nat (length session)) @ to_bytes session else [])"
  let ?d = "h @ m @ put_be32 (of_nat (length payload)) @ payload"
  have d: "volc_tts_frame event session payload = ?d"
    by (simp add: volc_tts_frame_def h_def m_def push_bit_eq_mult)
  have h: "length h = 8" "h ! 1 = 0x14" "drop 4 (h @ r) = put_be32 event @ r" for r
    by (simp_all add: h_def)
  then have basics: "\<not> length ?d < 8" "?d ! 1 AND 0x0F AND 4 \<noteq> 0" "get_be32 (drop 4 ?d) = event"
    by (simp_all add: nth_append)
  have tail: "length_at (8 + length m) ?d = Some (length payload)"
    using length_at_put [of "length payload" "h @ m" "8 + length m" payload] assms(3) h by simp
  have rest: "take (length payload) (drop (8 + length m + 4) ?d) = payload"
    using h by simp
  have lm: "length m = (if session = [] then 0 else 4 + length session)" by (simp add: m_def to_bytes_def)
  have at: "session \<noteq> [] \<Longrightarrow> length_at 8 ?d = Some (length session)"
    using length_at_put [of "length session" h 8 "to_bytes session @ put_be32 (of_nat (length payload)) @ payload"] assms(2) h
    by (simp add: m_def)
  have fits: "\<not> length ?d < 8 + length m" using h by simp
  obtain D where D: "?d = D" by blast
  show ?thesis
    using basics at fits tail rest assms(1)
    unfolding d D parse_volc_tts_def Let_def lm by (cases "session = []") (simp_all add: add.assoc)
qed

text \<open>A Volcengine utterance arrives whole: when the service accepts the connection and the session,
  streams audio and finishes, the text is sent once, after both acceptances, and the audio heard
  is exactly the payloads of the audio frames in order, whatever the service sends afterwards.\<close>

theorem volc_utterance_arrives:
  assumes "session \<noteq> []" and "length session < 2 ^ 32" and "length a < 2 ^ 32" and "length b < 2 ^ 32" and "length z < 2 ^ 32"
    and "list_all (\<lambda>p. length p < 2 ^ 32) payloads"
  shows "volc_speak marshal v session s
      (volc_tts_frame volc_connection_started [] a # volc_tts_frame volc_session_started session b #
       map (volc_tts_frame volc_tts_response session) payloads @ volc_tts_frame volc_session_finished session z # extra) =
    ([Says (volc_tts_frame 1 [] (to_bytes ''{}'')), Hears (volc_tts_frame volc_connection_started [] a),
      Says (volc_tts_frame 100 session (marshal (volc_tts_request v 100 []))), Hears (volc_tts_frame volc_session_started session b),
      Says (volc_tts_frame 200 session (marshal (volc_tts_request v 200 s))),
      Says (volc_tts_frame 102 session (marshal (JObj [(''event'', JNum 102), (''namespace'', JStr ''BidirectionalTTS'')])))],
     Inr (map Audio payloads))"
proof -
  have p: "parse_volc_tts (volc_tts_frame volc_connection_started [] a) = Some (volc_connection_started, a)"
    "parse_volc_tts (volc_tts_frame volc_session_started session b) = Some (volc_session_started, b)"
    "parse_volc_tts (volc_tts_frame volc_session_finished session z) = Some (volc_session_finished, z)"
    using assms by (auto intro!: parse_volc_tts_frame simp: volc_session_scoped_def)
  have "volc_pump (map (volc_tts_frame volc_tts_response session) payloads @ volc_tts_frame volc_session_finished session z # extra) = map Audio payloads"
    using assms(6)
  proof (induction payloads)
    case (Cons q qs)
    then have "parse_volc_tts (volc_tts_frame volc_tts_response session q) = Some (volc_tts_response, q)"
      using assms(1,2) by (intro parse_volc_tts_frame) (simp_all add: volc_session_scoped_def)
    with Cons show ?case by simp
  qed (simp add: p)
  then show ?thesis by (simp add: volc_speak_def p Let_def)
qed

section \<open>A lost connection is no short utterance\<close>

definition ends_in_error :: "stream_chunk list \<Rightarrow> bool" where
  "ends_in_error cs \<longleftrightarrow> (\<exists>ds e. cs = ds @ [Stream_error e])"

lemma ends_in_error [simp]: "ends_in_error [Stream_error e]" "ends_in_error (Audio b # cs) = ends_in_error cs"
  by (auto simp: ends_in_error_def Cons_eq_append_conv)

lemma volc_pump_end: "ends_in_error (volc_pump ds) \<or> list_ex (\<lambda>d. \<exists>p. parse_volc_tts d = Some (volc_session_finished, p)) ds"
proof (induction ds)
  case (Cons d ds)
  then show ?case by (cases "parse_volc_tts d") (auto split: if_splits)
qed simp

lemma aliyun_pump_end:
  "ends_in_error (aliyun_pump fs) \<or> list_ex (\<lambda>f. \<exists>m e. f = Text_frame m \<and> aliyun_event m = Some (''task-finished'', e)) fs"
proof (induction fs)
  case (Cons f fs)
  then show ?case
    by (cases "case f of Text_frame m \<Rightarrow> aliyun_event m | Binary_frame b \<Rightarrow> None"; cases f) (auto split: if_splits)
qed simp

lemma telnyx_pump_end: "ends_in_error (telnyx_pump ms) \<or> list_ex (\<lambda>m. route_telnyx_speech m = Speech_final) ms"
proof (induction ms)
  case (Cons m ms)
  then show ?case by (cases "route_telnyx_speech m") auto
qed simp

text \<open>C39: A connection that is lost while an utterance streams is reported: unless the service said that the
  utterance is finished, the stream ends with an error, so no caller takes a cut-off
  utterance for a whole one; draining it into a buffer fails.\<close>

theorem lost_connection_is_reported:
  "((\<exists>cs e. volc_pump ds = cs @ [Stream_error e]) \<or> (\<exists>d p. d \<in> set ds \<and> parse_volc_tts d = Some (volc_session_finished, p))) \<and>
   ((\<exists>cs e. aliyun_pump fs = cs @ [Stream_error e]) \<or> (\<exists>m e. Text_frame m \<in> set fs \<and> aliyun_event m = Some (''task-finished'', e))) \<and>
   ((\<exists>cs e. telnyx_pump ms = cs @ [Stream_error e]) \<or> (\<exists>m. m \<in> set ms \<and> route_telnyx_speech m = Speech_final)) \<and>
   (\<exists>e'. drain (cs' @ [Stream_error e]) = Inl e')"
proof (intro conjI)
  show "\<exists>e'. drain (cs' @ [Stream_error e]) = Inl e'"
  proof (induction cs')
    case (Cons c cs)
    then show ?case by (cases c) auto
  qed simp
qed (use volc_pump_end aliyun_pump_end telnyx_pump_end in \<open>(fastforce simp: ends_in_error_def list_ex_iff)+\<close>)

section \<open>Observations\<close>

text \<open>These three clients and Cartesia's pass a chunk on as it came: when a provider cuts a sample in two,
  the byte is lost and every sample after it is put together from the wrong halves.\<close>

lemma split_sample_is_noise:
  "concat (map linear16_to_pcm [[1], [0, 2, 0]]) \<noteq> linear16_to_pcm [1, 0, 2, 0] \<and>
   concat (map linear16_to_pcm (pump_pcm_stream [[1], [0, 2, 0]])) = linear16_to_pcm [1, 0, 2, 0]"
  by code_simp

section \<open>Witness\<close>

theorem volc_utterance_arrives_witness:
  "snd (volc_speak (\<lambda>_. [123, 125]) (new_volc_voice [] [] []) ''s'' ''hello''
      (volc_tts_frame volc_connection_started [] [] # volc_tts_frame volc_session_started ''s'' [] #
       map (volc_tts_frame volc_tts_response ''s'') [[1, 2], [3, 4]] @ volc_tts_frame volc_session_finished ''s'' [] # [])) =
   Inr [Audio [1, 2], Audio [3, 4]]"
  using volc_utterance_arrives [of "''s''" "[]" "[]" "[]" "[[1, 2], [3, 4]]" "\<lambda>_. [123, 125]" "new_volc_voice [] [] []" "''hello''" "[]"]
  by simp

end
