(* ===== verification/Response_Ownership.thy ===== *)
theory Response_Ownership
  imports Barge_In
begin

text \<open>
  Who owns the agent's voice: \<open>supersedeResponse\<close>, \<open>registerResponse\<close>,
  \<open>finishResponse\<close>, \<open>cancelResponse\<close> and the queueing of frames of
  \<open>internal/pipeline/agent.go\<close>, as an interleaving of the agent loop, any number of
  response goroutines, the greeting and the sender.

  One event is one atomic access to shared state: an atomic counter, a critical section of
  \<open>responseMu\<close>, one channel operation. Between two events of a goroutine any others may
  come. A response is an index into the list of responses ever started; the generation
  counter, 64 bits wide in the code, is a natural number.

  Two scheduling facts are built in: the greeting reads the generation before the first turn
  has been dispatched (its goroutine is the last one \<open>Start\<close> launches, and a turn takes
  hundreds of milliseconds to arrive), and only the agent loop supersedes, as \<open>runAgent\<close>
  does. A goroutine blocked on a full queue whose context is cancelled may take either
  branch of Go's \<open>select\<close>, so a cancelled response can still queue a frame.
\<close>

section \<open>State\<close>

datatype phase = Started | Registered | Finishing | Draining | Done

record resp =
  rp_gen :: nat
  rp_phase :: phase
  rp_cancelled :: bool
  rp_pushed :: bool
  rp_marked :: bool

text \<open>Where the agent loop is inside \<open>supersedeResponse\<close>, and whether a turn waits for it.\<close>

datatype loop_pc = Idle | Bumped bool | Cancelled bool | Silent bool | Dispatch

record voice =
  vc_gen :: nat
  vc_cancel :: "nat option"
  vc_cancel_gen :: nat
  vc_resps :: "resp list"
  vc_queue :: "nat list"
  vc_speaking :: bool
  vc_ended :: "instant option"
  vc_pc :: loop_pc

definition out_pcm_ch_size :: nat where
  "out_pcm_ch_size = 100"

definition new_voice :: voice where
  "new_voice = \<lparr> vc_gen = 0, vc_cancel = None, vc_cancel_gen = 0, vc_resps = [], vc_queue = [],
     vc_speaking = False, vc_ended = None, vc_pc = Idle \<rparr>"

definition new_resp :: "nat \<Rightarrow> resp" where
  "new_resp g = \<lparr> rp_gen = g, rp_phase = Started, rp_cancelled = False, rp_pushed = False, rp_marked = False \<rparr>"

section \<open>Operations\<close>

definition set_speaking :: "bool \<Rightarrow> instant \<Rightarrow> voice \<Rightarrow> voice" where
  "set_speaking b now v =
     (let v' = v\<lparr>vc_speaking := b\<rparr>
      in if vc_speaking v \<and> \<not> b then v'\<lparr>vc_ended := Some now\<rparr> else v')"

definition upd_resp :: "nat \<Rightarrow> (resp \<Rightarrow> resp) \<Rightarrow> voice \<Rightarrow> voice" where
  "upd_resp i f v = v\<lparr>vc_resps := (vc_resps v)[i := f (vc_resps v ! i)]\<rparr>"

definition call_cancel :: "nat \<Rightarrow> voice \<Rightarrow> voice" where
  "call_cancel i v = upd_resp i (\<lambda>r. r\<lparr>rp_cancelled := True\<rparr>) v"

definition cancel_response :: "voice \<Rightarrow> voice" where
  "cancel_response v =
     (case vc_cancel v of None \<Rightarrow> v | Some i \<Rightarrow> (call_cancel i v)\<lparr>vc_cancel := None\<rparr>)"

definition register_response :: "nat \<Rightarrow> voice \<Rightarrow> voice \<times> bool" where
  "register_response i v =
     (let g = rp_gen (vc_resps v ! i) in
      if vc_gen v \<noteq> g then (v, False)
      else let v1 = (case vc_cancel v of None \<Rightarrow> v | Some j \<Rightarrow> call_cancel j v)
        in (v1\<lparr>vc_cancel := Some i, vc_cancel_gen := g\<rparr>, True))"

text \<open>The locked part of \<open>finishResponse\<close>; the answer says whether the response is stale.\<close>

definition release_response :: "nat \<Rightarrow> voice \<Rightarrow> voice \<times> bool" where
  "release_response i v =
     (let g = rp_gen (vc_resps v ! i);
          v1 = (if vc_cancel_gen v = g then v\<lparr>vc_cancel := None\<rparr> else v)
      in (v1, vc_gen v \<noteq> g))"

definition backchannel_grace :: duration where
  "backchannel_grace = 1500 * millisecond"

definition agent_speech_recent :: "instant \<Rightarrow> voice \<Rightarrow> bool" where
  "agent_speech_recent now v =
     (vc_speaking v \<or> (case vc_ended v of None \<Rightarrow> False | Some t \<Rightarrow> now - t < backchannel_grace))"

definition is_passive_acknowledgement :: "bool \<Rightarrow> str \<Rightarrow> str \<Rightarrow> bool" where
  "is_passive_acknowledgement over_agent_speech txt interrupted =
     (if \<not> over_agent_speech \<or> \<not> is_acknowledgement_only txt then False
      else if interrupted \<noteq> [] then False else True)"

section \<open>Events\<close>

datatype voice_event =
    Greet
  | Bump bool
  | Cancel_current
  | Drop_frame
  | Drained
  | Silence instant
  | Dispatch_turn
  | Register nat
  | Push nat
  | Mark_speaking nat instant
  | Release nat
  | End_speech nat instant
  | End_drain nat
  | Send_frame

definition phase_of :: "voice \<Rightarrow> nat \<Rightarrow> phase" where
  "phase_of v i = (if i < length (vc_resps v) then rp_phase (vc_resps v ! i) else Done)"

definition set_phase :: "phase \<Rightarrow> nat \<Rightarrow> voice \<Rightarrow> voice" where
  "set_phase ph i v = upd_resp i (\<lambda>r. r\<lparr>rp_phase := ph\<rparr>) v"

fun voice_step :: "voice \<Rightarrow> voice_event \<Rightarrow> voice option" where
  "voice_step v Greet =
     (if vc_gen v = 0 \<and> vc_resps v = [] then Some (v\<lparr>vc_resps := [new_resp 0]\<rparr>) else None)"
| "voice_step v (Bump turn) =
     (if vc_pc v = Idle then Some (v\<lparr>vc_gen := vc_gen v + 1, vc_pc := Bumped turn\<rparr>) else None)"
| "voice_step v Cancel_current =
     (case vc_pc v of Bumped turn \<Rightarrow> Some ((cancel_response v)\<lparr>vc_pc := Cancelled turn\<rparr>) | _ \<Rightarrow> None)"
| "voice_step v Drop_frame =
     (case vc_pc v of
        Cancelled turn \<Rightarrow> if vc_queue v = [] then None else Some (v\<lparr>vc_queue := tl (vc_queue v)\<rparr>)
      | _ \<Rightarrow> None)"
| "voice_step v Drained =
     (case vc_pc v of
        Cancelled turn \<Rightarrow> if vc_queue v = [] then Some (v\<lparr>vc_pc := Silent turn\<rparr>) else None
      | _ \<Rightarrow> None)"
| "voice_step v (Silence now) =
     (case vc_pc v of
        Silent turn \<Rightarrow> Some ((set_speaking False now v)\<lparr>vc_pc := (if turn then Dispatch else Idle)\<rparr>)
      | _ \<Rightarrow> None)"
| "voice_step v Dispatch_turn =
     (if vc_pc v = Dispatch
      then Some (v\<lparr>vc_resps := vc_resps v @ [new_resp (vc_gen v)], vc_pc := Idle\<rparr>) else None)"
| "voice_step v (Register i) =
     (if phase_of v i = Started then
        (case register_response i v of
           (v1, True) \<Rightarrow> Some (set_phase Registered i v1)
         | (v1, False) \<Rightarrow> Some (set_phase Done i (call_cancel i v1)))
      else None)"
| "voice_step v (Push i) =
     (if phase_of v i = Registered \<and> length (vc_queue v) < out_pcm_ch_size
      then Some (upd_resp i (\<lambda>r. r\<lparr>rp_pushed := True\<rparr>) (v\<lparr>vc_queue := vc_queue v @ [i]\<rparr>)) else None)"
| "voice_step v (Mark_speaking i now) =
     (if phase_of v i = Registered \<and> rp_pushed (vc_resps v ! i) \<and> \<not> rp_marked (vc_resps v ! i)
      then Some (upd_resp i (\<lambda>r. r\<lparr>rp_marked := True\<rparr>) (set_speaking True now v)) else None)"
| "voice_step v (Release i) =
     (if phase_of v i = Registered then
        (case release_response i (call_cancel i v) of
           (v1, stale) \<Rightarrow> Some (set_phase (if stale then Done else Finishing) i v1))
      else None)"
| "voice_step v (End_speech i now) =
     (if phase_of v i = Finishing then Some (set_phase Draining i (set_speaking False now v)) else None)"
| "voice_step v (End_drain i) =
     (if phase_of v i = Draining then Some (set_phase Done i v) else None)"
| "voice_step v Send_frame =
     (if vc_queue v = [] then None else Some (v\<lparr>vc_queue := tl (vc_queue v)\<rparr>))"

inductive reachable :: "voice \<Rightarrow> bool" where
  start: "reachable new_voice"
| step: "reachable v \<Longrightarrow> voice_step v e = Some v' \<Longrightarrow> reachable v'"

fun voice_run :: "voice \<Rightarrow> voice_event list \<Rightarrow> voice option" where
  "voice_run v [] = Some v"
| "voice_run v (e # es) = (case voice_step v e of None \<Rightarrow> None | Some v' \<Rightarrow> voice_run v' es)"

lemma run_reachable: "reachable v \<Longrightarrow> voice_run v es = Some v' \<Longrightarrow> reachable v'"
  by (induction es arbitrary: v) (auto split: option.splits intro: reachable.step)

section \<open>The invariant\<close>

text \<open>A response that can still produce audio of its own accord.\<close>

definition audible :: "voice \<Rightarrow> nat \<Rightarrow> bool" where
  "audible v i \<longleftrightarrow> phase_of v i = Registered \<and> \<not> rp_cancelled (vc_resps v ! i)"

definition gens :: "voice \<Rightarrow> nat list" where
  "gens v = map rp_gen (vc_resps v)"

definition bumping :: "voice \<Rightarrow> bool" where
  "bumping v \<longleftrightarrow> (\<exists>t. vc_pc v = Bumped t)"

definition voice_ok :: "voice \<Rightarrow> bool" where
  "voice_ok v \<longleftrightarrow>
     distinct (gens v) \<and> (\<forall>g \<in> set (gens v). g \<le> vc_gen v) \<and>
     (vc_pc v \<noteq> Idle \<longrightarrow> 0 < vc_gen v \<and> (\<forall>g \<in> set (gens v). g < vc_gen v)) \<and>
     (\<forall>i. audible v i \<longrightarrow> vc_cancel v = Some i) \<and>
     (\<forall>i. vc_cancel v = Some i \<longrightarrow> i < length (gens v) \<and> gens v ! i = vc_cancel_gen v) \<and>
     (\<forall>i. audible v i \<longrightarrow> \<not> bumping v \<longrightarrow> gens v ! i = vc_gen v)"

lemma voice_okD:
  assumes "voice_ok v"
  shows "distinct (gens v)" "g \<in> set (gens v) \<Longrightarrow> g \<le> vc_gen v"
    "vc_pc v \<noteq> Idle \<Longrightarrow> 0 < vc_gen v" "vc_pc v \<noteq> Idle \<Longrightarrow> g \<in> set (gens v) \<Longrightarrow> g < vc_gen v"
    "audible v i \<Longrightarrow> vc_cancel v = Some i"
    "vc_cancel v = Some i \<Longrightarrow> i < length (gens v) \<and> gens v ! i = vc_cancel_gen v"
    "audible v i \<Longrightarrow> \<not> bumping v \<Longrightarrow> gens v ! i = vc_gen v"
  using assms unfolding voice_ok_def by blast+

lemma voice_okI:
  assumes "distinct (gens v)" and "\<And>g. g \<in> set (gens v) \<Longrightarrow> g \<le> vc_gen v"
    and "vc_pc v \<noteq> Idle \<Longrightarrow> 0 < vc_gen v" and "\<And>g. vc_pc v \<noteq> Idle \<Longrightarrow> g \<in> set (gens v) \<Longrightarrow> g < vc_gen v"
    and "\<And>i. audible v i \<Longrightarrow> vc_cancel v = Some i"
    and "\<And>i. vc_cancel v = Some i \<Longrightarrow> i < length (gens v) \<and> gens v ! i = vc_cancel_gen v"
    and "\<And>i. audible v i \<Longrightarrow> \<not> bumping v \<Longrightarrow> gens v ! i = vc_gen v"
  shows "voice_ok v"
  using assms unfolding voice_ok_def by blast

lemma audible_bound: "audible v i \<Longrightarrow> i < length (vc_resps v)"
  by (auto simp: audible_def phase_of_def split: if_splits)

lemma length_gens [simp]: "length (gens v) = length (vc_resps v)"
  by (simp add: gens_def)

lemma voice_frame [simp]:
  "vc_gen (upd_resp i f v) = vc_gen v" "vc_cancel (upd_resp i f v) = vc_cancel v"
  "vc_cancel_gen (upd_resp i f v) = vc_cancel_gen v" "vc_queue (upd_resp i f v) = vc_queue v"
  "vc_speaking (upd_resp i f v) = vc_speaking v" "vc_pc (upd_resp i f v) = vc_pc v"
  "length (vc_resps (upd_resp i f v)) = length (vc_resps v)"
  "vc_gen (set_speaking b now v) = vc_gen v" "vc_cancel (set_speaking b now v) = vc_cancel v"
  "vc_cancel_gen (set_speaking b now v) = vc_cancel_gen v" "vc_pc (set_speaking b now v) = vc_pc v"
  "vc_resps (set_speaking b now v) = vc_resps v" "vc_queue (set_speaking b now v) = vc_queue v"
  "vc_speaking (set_speaking b now v) = b"
  by (simp_all add: upd_resp_def set_speaking_def Let_def)

lemma resp_upd: "vc_resps (upd_resp i f v) ! j =
    (if j = i \<and> i < length (vc_resps v) then f (vc_resps v ! i) else vc_resps v ! j)"
  by (cases "i < length (vc_resps v)") (auto simp: upd_resp_def list_update_beyond)

lemma gens_upd: "(\<And>r. rp_gen (f r) = rp_gen r) \<Longrightarrow> gens (upd_resp i f v) = gens v"
  by (rule nth_equalityI) (simp_all add: gens_def resp_upd)

lemma phase_upd: "phase_of (upd_resp i f v) j =
    (if j = i \<and> i < length (vc_resps v) then rp_phase (f (vc_resps v ! i)) else phase_of v j)"
  by (auto simp: phase_of_def resp_upd)

lemma voice_ok_frame:
  assumes "voice_ok v" and g: "gens v' = gens v" and n: "vc_gen v' = vc_gen v"
    and pc: "vc_pc v' \<noteq> Idle \<Longrightarrow> vc_pc v \<noteq> Idle" "\<not> bumping v' \<Longrightarrow> \<not> bumping v"
    and c: "vc_cancel v' = vc_cancel v" and cg: "vc_cancel_gen v' = vc_cancel_gen v"
    and aud: "\<And>i. audible v' i \<Longrightarrow> audible v i"
  shows "voice_ok v'"
proof -
  note ok = voice_okD [OF assms(1)]
  show ?thesis
    by (rule voice_okI; unfold g n c cg) (use ok pc aud in blast)+
qed

lemma set_phase_audible:
  "ph \<noteq> Registered \<Longrightarrow> audible (set_phase ph i v) j \<Longrightarrow> audible v j \<and> j \<noteq> i"
  by (auto simp: audible_def set_phase_def phase_upd resp_upd phase_of_def split: if_splits)

lemma set_phase_gens [simp]: "gens (set_phase ph i v) = gens v"
  by (simp add: set_phase_def gens_upd)

lemma call_cancel_gens [simp]: "gens (call_cancel i v) = gens v"
  by (simp add: call_cancel_def gens_upd)

lemma call_cancel_audible: "audible (call_cancel i v) j \<longleftrightarrow> audible v j \<and> j \<noteq> i"
  by (auto simp: audible_def call_cancel_def phase_upd resp_upd phase_of_def)

lemma call_cancel_frame [simp]:
  "vc_gen (call_cancel i v) = vc_gen v" "vc_cancel (call_cancel i v) = vc_cancel v"
  "vc_cancel_gen (call_cancel i v) = vc_cancel_gen v" "vc_pc (call_cancel i v) = vc_pc v"
  "length (vc_resps (call_cancel i v)) = length (vc_resps v)"
  "phase_of (call_cancel i v) j = phase_of v j"
  by (simp_all add: call_cancel_def phase_upd) (simp add: phase_of_def)

lemma set_phase_frame [simp]:
  "vc_gen (set_phase ph i v) = vc_gen v" "vc_cancel (set_phase ph i v) = vc_cancel v"
  "vc_cancel_gen (set_phase ph i v) = vc_cancel_gen v" "vc_pc (set_phase ph i v) = vc_pc v"
  by (simp_all add: set_phase_def)

lemma gens_frame [simp]:
  "gens (vc_cancel_update c v) = gens v" "gens (vc_cancel_gen_update d v) = gens v"
  "gens (vc_pc_update p v) = gens v" "gens (vc_queue_update q v) = gens v"
  "gens (vc_gen_update g v) = gens v" "gens (set_speaking b now v) = gens v"
  by (simp_all add: gens_def)

lemma audible_frame [simp]:
  "audible (vc_cancel_update c v) i = audible v i" "audible (vc_cancel_gen_update d v) i = audible v i"
  "audible (vc_pc_update p v) i = audible v i" "audible (vc_queue_update q v) i = audible v i"
  "audible (vc_gen_update g v) i = audible v i" "audible (set_speaking b now v) i = audible v i"
  by (simp_all add: audible_def phase_of_def)

lemma append_resp:
  "gens (v\<lparr>vc_resps := vc_resps v @ [new_resp g]\<rparr>) = gens v @ [g]"
  "audible (v\<lparr>vc_resps := vc_resps v @ [new_resp g]\<rparr>) i \<longleftrightarrow> audible v i"
  by (auto simp: gens_def new_resp_def audible_def phase_of_def nth_append)

subsection \<open>One lemma per event that touches ownership\<close>

lemma register_ok:
  assumes "voice_ok v" and "phase_of v i = Started" and "vc_gen v = rp_gen (vc_resps v ! i)"
  shows "voice_ok (set_phase Registered i (fst (register_response i v)))"
proof -
  let ?v = "fst (register_response i v)" and ?w = "set_phase Registered i (fst (register_response i v))"
  note ok = voice_okD [OF assms(1)]
  have i: "i < length (vc_resps v)" using assms(2) by (auto simp: phase_of_def split: if_splits)
  then have gi: "gens v ! i = vc_gen v" "gens v ! i \<in> set (gens v)" using assms(3) by (simp_all add: gens_def)
  then have idle: "vc_pc v = Idle" using ok(4) [of "gens v ! i"] by force
  have g: "gens ?w = gens v" "vc_gen ?w = vc_gen v" "vc_pc ?w = Idle" "vc_cancel ?w = Some i"
      "vc_cancel_gen ?w = vc_gen v"
    using assms(3) idle by (auto simp: register_response_def Let_def split: option.split)
  have aud: "j = i" if "audible ?w j" for j
  proof (rule ccontr)
    assume "j \<noteq> i"
    with that have "audible ?v j" by (auto simp: audible_def set_phase_def phase_upd resp_upd)
    then have "audible v j \<and> vc_cancel v \<noteq> Some j"
      using assms(3) by (auto simp: register_response_def Let_def call_cancel_audible split: option.splits)
    with ok(5) show False by blast
  qed
  show ?thesis
    by (rule voice_okI; unfold g) (use ok(1,2) i gi in \<open>auto simp: gi dest!: aud\<close>)
qed

lemma cancel_ok:
  assumes "voice_ok v" and "vc_pc v = Bumped t"
  shows "voice_ok ((cancel_response v)\<lparr>vc_pc := Cancelled t\<rparr>)"
proof -
  let ?w = "(cancel_response v)\<lparr>vc_pc := Cancelled t\<rparr>"
  note ok = voice_okD [OF assms(1)]
  have none: "\<not> audible ?w i" for i
    using ok(5) [of i] by (auto simp: cancel_response_def call_cancel_audible split: option.splits)
  have g: "gens ?w = gens v" "vc_gen ?w = vc_gen v" "vc_pc ?w = Cancelled t" "vc_cancel ?w = None"
    by (auto simp: cancel_response_def split: option.split)
  have "vc_pc v \<noteq> Idle" using assms(2) by simp
  with ok(1-4) none show ?thesis by (intro voice_okI; unfold g) blast+
qed

lemma release_ok:
  assumes "voice_ok v" and "phase_of v i = Registered" and "ph \<noteq> Registered"
  shows "voice_ok (set_phase ph i (fst (release_response i (call_cancel i v))))"
proof -
  let ?w = "set_phase ph i (fst (release_response i (call_cancel i v)))"
  note ok = voice_okD [OF assms(1)]
  have i: "i < length (vc_resps v)" using assms(2) by (auto simp: phase_of_def split: if_splits)
  have gi: "rp_gen (vc_resps (call_cancel i v) ! i) = gens v ! i"
    using i by (simp add: call_cancel_def resp_upd gens_def)
  have g: "gens ?w = gens v" "vc_gen ?w = vc_gen v" "vc_pc ?w = vc_pc v" "vc_cancel_gen ?w = vc_cancel_gen v"
    by (simp_all add: release_response_def Let_def)
  have c: "vc_cancel ?w = (if vc_cancel_gen v = gens v ! i then None else vc_cancel v)"
    by (simp add: release_response_def Let_def gi)
  have aud: "audible v j \<and> j \<noteq> i" if "audible ?w j" for j
    using set_phase_audible [OF assms(3) that]
    by (auto simp: release_response_def Let_def call_cancel_audible split: if_splits)
  have keep: "vc_cancel_gen v \<noteq> gens v ! i" if "vc_cancel v = Some j" "j \<noteq> i" for j
    using ok(1) ok(6) [OF that(1)] that(2) i by (metis length_gens nth_eq_iff_index_eq)
  have b: "bumping ?w = bumping v" unfolding bumping_def g(3) ..
  have A: "vc_cancel ?w = Some j" if "audible ?w j" for j
    unfolding c using aud [OF that] ok(5) [of j] keep by simp
  have B: "vc_cancel v = Some j" if "vc_cancel ?w = Some j" for j
    using that unfolding c by (simp split: if_splits)
  show ?thesis
    by (rule voice_okI; (unfold g b)?) (use ok aud A B in blast)+
qed

lemma step_ok:
  assumes "voice_ok v" and "voice_step v e = Some v'"
  shows "voice_ok v'"
proof (cases e)
  case Greet
  then have v': "v' = v\<lparr>vc_resps := [new_resp 0]\<rparr>" and z: "vc_gen v = 0" "vc_resps v = []"
    using assms(2) by (auto split: if_splits)
  note ok = voice_okD [OF assms(1)]
  have "\<not> audible v' i" for i by (simp add: v' audible_def phase_of_def new_resp_def)
  moreover have "gens v' = [0]" by (simp add: v' gens_def new_resp_def)
  moreover have "vc_cancel v = None" using ok(6) z(2) by (cases "vc_cancel v") auto
  moreover have "vc_pc v = Idle" using ok(3) z(1) by (metis less_irrefl)
  ultimately show ?thesis by (intro voice_okI) (auto simp: v' z)
next
  case (Bump turn)
  then have v': "v' = v\<lparr>vc_gen := vc_gen v + 1, vc_pc := Bumped turn\<rparr>"
    using assms(2) by (auto split: if_splits)
  note ok = voice_okD [OF assms(1)]
  show ?thesis
    by (rule voice_okI) (use ok in \<open>auto simp: v' bumping_def less_Suc_eq_le intro: le_SucI\<close>)
next
  case Cancel_current
  with assms(2) obtain t where "vc_pc v = Bumped t" "v' = (cancel_response v)\<lparr>vc_pc := Cancelled t\<rparr>"
    by (auto split: loop_pc.splits)
  with cancel_ok [OF assms(1)] show ?thesis by blast
next
  case Drop_frame
  with assms(2) show ?thesis
    by (intro voice_ok_frame [OF assms(1)]) (auto simp: bumping_def split: loop_pc.splits if_splits)
next
  case Drained
  with assms(2) show ?thesis
    by (intro voice_ok_frame [OF assms(1)]) (auto simp: bumping_def split: loop_pc.splits if_splits)
next
  case (Silence now)
  with assms(2) show ?thesis
    by (intro voice_ok_frame [OF assms(1)]) (auto simp: bumping_def split: loop_pc.splits if_splits)
next
  case Dispatch_turn
  let ?w = "v\<lparr>vc_resps := vc_resps v @ [new_resp (vc_gen v)]\<rparr>"
  from Dispatch_turn assms(2) have v': "v' = ?w\<lparr>vc_pc := Idle\<rparr>" and pc: "vc_pc v = Dispatch"
    by (auto split: if_splits)
  note ok = voice_okD [OF assms(1)]
  have g: "gens v' = gens v @ [vc_gen v]" "vc_gen v' = vc_gen v" "vc_cancel v' = vc_cancel v"
      "vc_cancel_gen v' = vc_cancel_gen v" "vc_pc v' = Idle" and aud: "\<And>i. audible v' i \<longleftrightarrow> audible v i"
    by (simp_all add: v' append_resp)
  have nb: "\<not> bumping v" "vc_pc v \<noteq> Idle" using pc by (simp_all add: bumping_def)
  have fresh: "vc_gen v \<notin> set (gens v)" using ok(4) [OF nb(2)] by blast
  show ?thesis
  proof (rule voice_okI; unfold g)
    show "distinct (gens v @ [vc_gen v])" using ok(1) fresh by simp
    show "x \<le> vc_gen v" if "x \<in> set (gens v @ [vc_gen v])" for x using that ok(2) by auto
    show "vc_cancel v = Some i" if "audible v' i" for i using that ok(5) by (simp add: aud)
    show "i < length (gens v @ [vc_gen v]) \<and> (gens v @ [vc_gen v]) ! i = vc_cancel_gen v"
      if "vc_cancel v = Some i" for i using ok(6) [OF that] by (simp add: nth_append)
    show "(gens v @ [vc_gen v]) ! i = vc_gen v" if "audible v' i" for i
      using that ok(7) [of i] nb audible_bound [of v i] by (simp add: aud nth_append)
  qed simp_all
next
  case (Register i)
  show ?thesis
  proof (cases "vc_gen v = rp_gen (vc_resps v ! i)")
    case True
    with Register assms(2) have "v' = set_phase Registered i (fst (register_response i v))" "phase_of v i = Started"
      by (auto simp: register_response_def Let_def split: if_splits)
    with register_ok [OF assms(1) _ True] show ?thesis by simp
  next
    case False
    with Register assms(2) have v': "v' = set_phase Done i (call_cancel i v)"
      by (auto simp: register_response_def Let_def split: if_splits)
    show ?thesis
      by (rule voice_ok_frame [OF assms(1)])
        (use set_phase_audible [of Done i "call_cancel i v"] in \<open>auto simp: v' call_cancel_audible bumping_def\<close>)
  qed
next
  case (Push i)
  then have v': "v' = upd_resp i (\<lambda>r. r\<lparr>rp_pushed := True\<rparr>) (v\<lparr>vc_queue := vc_queue v @ [i]\<rparr>)"
    using assms(2) by (auto split: if_splits)
  show ?thesis
    by (rule voice_ok_frame [OF assms(1)])
      (auto simp: v' gens_upd audible_def phase_upd resp_upd phase_of_def bumping_def split: if_splits)
next
  case (Mark_speaking i now)
  then have v': "v' = upd_resp i (\<lambda>r. r\<lparr>rp_marked := True\<rparr>) (set_speaking True now v)"
    using assms(2) by (auto split: if_splits)
  show ?thesis
    by (rule voice_ok_frame [OF assms(1)])
      (auto simp: v' gens_upd audible_def phase_upd resp_upd phase_of_def bumping_def split: if_splits)
next
  case (Release i)
  with assms(2) obtain ph where "ph \<noteq> Registered" "phase_of v i = Registered"
      "v' = set_phase ph i (fst (release_response i (call_cancel i v)))"
    by (auto split: if_splits prod.splits)
  with release_ok [OF assms(1)] show ?thesis by blast
next
  case (End_speech i now)
  then have v': "v' = set_phase Draining i (set_speaking False now v)"
    using assms(2) by (auto split: if_splits)
  show ?thesis
    by (rule voice_ok_frame [OF assms(1)])
      (use set_phase_audible [of Draining i "set_speaking False now v"] in \<open>auto simp: v' bumping_def\<close>)
next
  case (End_drain i)
  then have v': "v' = set_phase Done i v" using assms(2) by (auto split: if_splits)
  show ?thesis
    by (rule voice_ok_frame [OF assms(1)])
      (use set_phase_audible [of Done i v] in \<open>auto simp: v' bumping_def\<close>)
next
  case Send_frame
  with assms(2) show ?thesis
    by (intro voice_ok_frame [OF assms(1)]) (auto simp: bumping_def split: if_splits)
qed

lemma reachable_ok: "reachable v \<Longrightarrow> voice_ok v"
proof (induction rule: reachable.induct)
  case start
  show ?case by (rule voice_okI) (simp_all add: new_voice_def gens_def audible_def phase_of_def)
next
  case (step v e v')
  then show ?case by (blast intro: step_ok)
qed

section \<open>Properties\<close>


definition first_turn :: "voice_event list" where
  "first_turn = [Bump True, Cancel_current, Drained, Silence 0, Dispatch_turn, Register 0, Push 0]"


text \<open>A response that has been superseded can still raise the speaking flag: when the
  barge-in falls between queueing its first frame and setting the flag, the flag is set after
  the supersede cleared it, and the response's own clean-up, finding itself stale, does not
  clear it again. A state is reachable in which the agent counts as speaking although no
  response is left and no frame is queued.\<close>

theorem superseded_response_strands_speaking:
  "\<exists>v. reachable v \<and> vc_speaking v \<and> vc_queue v = [] \<and> vc_pc v = Idle \<and> (\<forall>i. phase_of v i = Done) \<and>
     (\<forall>now. agent_speech_recent now v)"
proof -
  obtain v where v: "voice_run new_voice (first_turn @ [Bump False, Cancel_current, Drop_frame, Drained,
      Silence 5, Mark_speaking 0 6, Release 0]) = Some v"
    and w: "vc_speaking v" "vc_queue v = []" "vc_pc v = Idle" "phase_of v 0 = Done" "length (vc_resps v) = 1"
    by (simp add: first_turn_def new_voice_def cancel_response_def set_speaking_def phase_of_def
        register_response_def new_resp_def set_phase_def upd_resp_def out_pcm_ch_size_def
        release_response_def call_cancel_def)
  have "\<forall>i. phase_of v i = Done" using w(4,5) by (auto simp: phase_of_def)
  with w run_reachable [OF reachable.start v] show ?thesis
    by (intro exI [of _ v]) (simp add: agent_speech_recent_def)
qed

end
