(* ===== verification/Confirmation_Gate.thy ===== *)
theory Confirmation_Gate
  imports Go_Json
begin

text \<open>
  The two-call gate for tools that ask for a spoken confirmation
  (\<open>internal/plugin/confirm.go\<close>, \<open>gateToolCall\<close> in \<open>internal/pipeline/toolgate.go\<close>). The
  random token an issue draws and the clock are arguments; \<open>sha\<close> stands for SHA-256 and
  \<open>fl\<close> for the rounding of a number to \<open>float64\<close>. Every operation on the store runs under
  its lock, so a history is a list of calls.
\<close>

section \<open>Definitions\<close>

definition confirm_token_field :: str where
  "confirm_token_field = ''confirm_token''"

definition default_confirmation_ttl :: duration where
  "default_confirmation_ttl = 5 * 60 * second"

record pending_confirmation =
  pc_session :: str
  pc_tool :: str
  pc_hash :: str
  pc_expires :: instant

record confirmation_store =
  cs_pending :: "str \<Rightarrow> pending_confirmation option"
  cs_ttl :: duration

definition new_confirmation_store :: "duration \<Rightarrow> confirmation_store" where
  "new_confirmation_store ttl =
     \<lparr> cs_pending = Map.empty, cs_ttl = (if ttl \<le> 0 then default_confirmation_ttl else ttl) \<rparr>"

datatype confirm_error = Bad_token | Not_valid | Arguments_changed

text \<open>A tool as the gate sees it.\<close>

record gated_tool =
  gt_name :: str
  gt_confirm :: bool
  gt_prompter :: "(raw \<Rightarrow> str) option"

record challenge =
  ch_token :: str
  ch_prompt :: str

definition sweep :: "instant \<Rightarrow> confirmation_store \<Rightarrow> confirmation_store" where
  "sweep now s = s\<lparr>cs_pending := (\<lambda>t. case cs_pending s t of
     None \<Rightarrow> None
   | Some e \<Rightarrow> if pc_expires e < now then None else Some e)\<rparr>"

definition issue :: "instant \<Rightarrow> str \<Rightarrow> str \<Rightarrow> str \<Rightarrow> str \<Rightarrow> confirmation_store \<Rightarrow> confirmation_store" where
  "issue now token session tool args_hash s =
     (let s1 = sweep now s in
      s1\<lparr>cs_pending := (cs_pending s1)(token \<mapsto>
        \<lparr> pc_session = session, pc_tool = tool, pc_hash = args_hash, pc_expires = now + cs_ttl s1 \<rparr>)\<rparr>)"

definition consume :: "instant \<Rightarrow> str \<Rightarrow> str \<Rightarrow> str \<Rightarrow> str \<Rightarrow> confirmation_store \<Rightarrow>
    confirmation_store \<times> confirm_error option" where
  "consume now token session tool args_hash s =
     (let s1 = sweep now s in
      case cs_pending s1 token of
        None \<Rightarrow> (s1, Some Not_valid)
      | Some e \<Rightarrow>
          let s2 = s1\<lparr>cs_pending := (cs_pending s1)(token := None)\<rparr> in
          if pc_session e \<noteq> session \<or> pc_tool e \<noteq> tool then (s2, Some Not_valid)
          else if pc_hash e \<noteq> args_hash then (s2, Some Arguments_changed)
          else (s2, None))"

definition split_confirm_token :: "raw \<Rightarrow> confirm_error + (str \<times> raw)" where
  "split_confirm_token args =
     (if args = Absent then Inr ([], Json (JObj []))
      else case unmarshal_fields args of
        None \<Rightarrow> Inr ([], args)
      | Some flds \<Rightarrow>
          (case map_of flds confirm_token_field of
             None \<Rightarrow> Inr ([], args)
           | Some raw_token \<Rightarrow>
               let clean = Json (marshal_map (AList.delete confirm_token_field flds)) in
               (case raw_token of
                  JStr token \<Rightarrow> Inr (token, clean)
                | JNull \<Rightarrow> Inr ([], clean)
                | _ \<Rightarrow> Inl Bad_token)))"

definition hash_args :: "(raw \<Rightarrow> str) \<Rightarrow> (rat \<Rightarrow> rat) \<Rightarrow> raw \<Rightarrow> str" where
  "hash_args sha fl args = (case args of Json j \<Rightarrow> sha (Json (recode fl j)) | _ \<Rightarrow> sha args)"

datatype gate_answer =
    Refused confirm_error
  | Run raw
  | Challenged raw challenge

definition confirmation_prompt :: "gated_tool \<Rightarrow> raw \<Rightarrow> str" where
  "confirmation_prompt tool clean =
     (case gt_prompter tool of
        None \<Rightarrow> ''Run '' @ gt_name tool @ ''?''
      | Some p \<Rightarrow> if p clean = [] then ''Run '' @ gt_name tool @ ''?'' else p clean)"

text \<open>One call of the gate: at an instant, with the token an issue would draw.\<close>

record gate_call =
  gc_now :: instant
  gc_fresh :: str
  gc_session :: str
  gc_tool :: gated_tool
  gc_args :: raw

definition gate :: "(raw \<Rightarrow> str) \<Rightarrow> (rat \<Rightarrow> rat) \<Rightarrow> confirmation_store \<Rightarrow> gate_call \<Rightarrow>
    confirmation_store \<times> gate_answer" where
  "gate sha fl s c =
     (case split_confirm_token (gc_args c) of
        Inl e \<Rightarrow> (s, Refused e)
      | Inr (token, clean) \<Rightarrow>
          if \<not> gt_confirm (gc_tool c) then (s, Run clean)
          else
            let h = hash_args sha fl clean in
            if token \<noteq> [] then
              (case consume (gc_now c) token (gc_session c) (gt_name (gc_tool c)) h s of
                 (s', Some e) \<Rightarrow> (s', Refused e)
               | (s', None) \<Rightarrow> (s', Run clean))
            else
              (issue (gc_now c) (gc_fresh c) (gc_session c) (gt_name (gc_tool c)) h s,
               Challenged clean \<lparr> ch_token = gc_fresh c, ch_prompt = confirmation_prompt (gc_tool c) clean \<rparr>))"

definition gate_run :: "(raw \<Rightarrow> str) \<Rightarrow> (rat \<Rightarrow> rat) \<Rightarrow> confirmation_store \<Rightarrow> gate_call list \<Rightarrow> confirmation_store" where
  "gate_run sha fl s cs = fold (\<lambda>c s. fst (gate sha fl s c)) cs s"

section \<open>The store\<close>

lemma sweep_pending:
  "cs_pending (sweep now s) t = Some e \<longleftrightarrow> cs_pending s t = Some e \<and> now \<le> pc_expires e"
  by (auto simp: sweep_def split: option.splits)

lemma sweep_ttl [simp]: "cs_ttl (sweep now s) = cs_ttl s"
  by (simp add: sweep_def)

definition redeem_confirmation :: "instant \<Rightarrow> str \<Rightarrow> str \<Rightarrow> str \<Rightarrow> confirmation_store \<Rightarrow> str \<Rightarrow>
    confirmation_store \<times> pending_confirmation option" where
  "redeem_confirmation now session tool args_hash s token =
     (case consume now token session tool args_hash s of
        (s', None) \<Rightarrow> (s', cs_pending s token)
      | (s', Some _) \<Rightarrow> (s', None))"

lemma consume_cases:
  assumes "consume now token session tool h s = (s', r)"
  shows "cs_pending s' = (cs_pending (sweep now s))(token := None)" and "cs_ttl s' = cs_ttl s"
    and "r = None \<Longrightarrow> \<exists>e. cs_pending s token = Some e \<and> now \<le> pc_expires e \<and>
      pc_session e = session \<and> pc_tool e = tool \<and> pc_hash e = h"
  using assms sweep_pending [of now s token]
  by (auto simp: consume_def Let_def fun_eq_iff split: option.splits if_splits)

interpretation approvals: single_use cs_pending "redeem_confirmation now session tool h"
  for now session tool h
proof (unfold_locales, goal_cases)
  case (1 s t s' v)
  then show ?case by (auto simp: redeem_confirmation_def split: prod.splits option.splits)
next
  case (2 s t s' r)
  obtain s1 e where c: "consume now t session tool h s = (s1, e)" by fastforce
  with 2 have "s' = s1" by (auto simp: redeem_confirmation_def split: option.splits)
  with consume_cases(1) [OF c] show ?case by simp
next
  case (3 s t s' r u v)
  obtain s1 e where c: "consume now t session tool h s = (s1, e)" by fastforce
  with 3 have "s' = s1" by (auto simp: redeem_confirmation_def split: option.splits)
  with consume_cases(1) [OF c] 3(2) show ?case
    by (auto simp: sweep_pending split: if_splits)
qed

section \<open>Splitting the token off\<close>

text \<open>What reaches the tool carries no token.\<close>

lemma clean_has_no_token:
  assumes "split_confirm_token args = Inr (token, clean)" and "unmarshal_fields clean = Some flds"
  shows "map_of flds confirm_token_field = None"
proof (cases "\<exists>fs. unmarshal_fields args = Some fs \<and> map_of fs confirm_token_field \<noteq> None")
  case True
  then obtain fs v where fs: "unmarshal_fields args = Some fs" "map_of fs confirm_token_field = Some v" by auto
  let ?d = "AList.delete confirm_token_field fs"
  from assms(1) fs have "args \<noteq> Absent" by (auto simp: unmarshal_fields_def)
  with assms(1) fs have c: "clean = Json (marshal_map ?d)"
    by (auto simp: split_confirm_token_def Let_def split: json.splits)
  have "confirm_token_field \<notin> fst ` set ?d"
    by (metis map_of_delete_self map_of_eq_None_iff)
  then have "map_of (rev (sort_key fst ?d)) confirm_token_field = None"
    by (simp add: map_of_eq_None_iff)
  with assms(2) c show ?thesis by (auto simp: unmarshal_fields_def marshal_map_def map_of_decode_map)
next
  case False
  with assms show ?thesis
    by (auto simp: split_confirm_token_def unmarshal_fields_def decode_map_def split: if_splits option.splits)
qed

lemma token_was_presented:
  assumes "split_confirm_token args = Inr (token, clean)" and "token \<noteq> []"
  shows "\<exists>fs. unmarshal_fields args = Some fs \<and> map_of fs confirm_token_field = Some (JStr token)"
  using assms by (auto simp: split_confirm_token_def Let_def split: if_splits option.splits json.splits)

section \<open>Approvals in a history\<close>

definition presents :: "gate_call \<Rightarrow> str \<Rightarrow> bool" where
  "presents c token \<longleftrightarrow> token \<noteq> [] \<and> gt_confirm (gc_tool c) \<and>
     (\<exists>clean. split_confirm_token (gc_args c) = Inr (token, clean))"

definition clean_args :: "gate_call \<Rightarrow> raw" where
  "clean_args c = (case split_confirm_token (gc_args c) of Inr (_, clean) \<Rightarrow> clean | Inl _ \<Rightarrow> Absent)"

text \<open>A call asks for approval of an action: it is answered with a challenge.\<close>

definition asks :: "gate_call \<Rightarrow> bool" where
  "asks c \<longleftrightarrow> gt_confirm (gc_tool c) \<and> (\<exists>clean. split_confirm_token (gc_args c) = Inr ([], clean))"

definition entry_of :: "(raw \<Rightarrow> str) \<Rightarrow> (rat \<Rightarrow> rat) \<Rightarrow> duration \<Rightarrow> gate_call \<Rightarrow> pending_confirmation" where
  "entry_of sha fl ttl c = \<lparr> pc_session = gc_session c, pc_tool = gt_name (gc_tool c),
     pc_hash = hash_args sha fl (clean_args c), pc_expires = gc_now c + ttl \<rparr>"

lemma gate_ttl [simp]: "cs_ttl (fst (gate sha fl s c)) = cs_ttl s"
  using consume_cases(2)
  by (auto simp: gate_def issue_def Let_def split: sum.splits prod.splits option.splits)

lemma gate_run_snoc [simp]: "gate_run sha fl s (cs @ [c]) = fst (gate sha fl (gate_run sha fl s cs) c)"
  by (simp add: gate_run_def)

lemma gate_run_ttl [simp]: "cs_ttl (gate_run sha fl s cs) = cs_ttl s"
  by (induction cs rule: rev_induct) (simp_all add: gate_run_def)

lemma gate_keeps:
  assumes "cs_pending (fst (gate sha fl s c)) t = Some e"
  shows "(cs_pending s t = Some e \<and> \<not> presents c t) \<or>
    (asks c \<and> gc_fresh c = t \<and> e = entry_of sha fl (cs_ttl s) c)"
proof (cases "split_confirm_token (gc_args c)")
  case (Inl x)
  with assms show ?thesis by (simp add: gate_def presents_def)
next
  case (Inr p)
  obtain token clean where p: "p = (token, clean)" by fastforce
  show ?thesis
  proof (cases "gt_confirm (gc_tool c)")
    case False
    with assms Inr p show ?thesis by (simp add: gate_def presents_def)
  next
    case True
    show ?thesis
    proof (cases "token = []")
      case True
      with assms Inr p \<open>gt_confirm _\<close> show ?thesis
        by (auto simp: gate_def issue_def Let_def sweep_pending presents_def asks_def entry_of_def clean_args_def
            split: if_splits)
    next
      case False
      obtain s1 r where k: "consume (gc_now c) token (gc_session c) (gt_name (gc_tool c)) (hash_args sha fl clean) s = (s1, r)"
        by fastforce
      with assms Inr p True False have "cs_pending s1 t = Some e"
        by (auto simp: gate_def Let_def split: option.splits)
      with consume_cases(1) [OF k] have "cs_pending s t = Some e" "t \<noteq> token"
        by (auto simp: sweep_pending split: if_splits)
      with Inr p show ?thesis by (auto simp: presents_def)
    qed
  qed
qed

lemma pending_was_asked:
  assumes "cs_pending (gate_run sha fl (new_confirmation_store ttl) cs) t = Some e"
  shows "\<exists>pre f mid. cs = pre @ f # mid \<and> asks f \<and> gc_fresh f = t \<and>
    e = entry_of sha fl (cs_ttl (new_confirmation_store ttl)) f \<and> (\<forall>g \<in> set mid. \<not> presents g t)"
  using assms
proof (induction cs rule: rev_induct)
  case Nil
  then show ?case by (simp add: gate_run_def new_confirmation_store_def)
next
  case (snoc c cs)
  let ?s = "gate_run sha fl (new_confirmation_store ttl) cs"
  from gate_keeps [of sha fl ?s c t e] snoc.prems
  consider "cs_pending ?s t = Some e" "\<not> presents c t"
    | "asks c" "gc_fresh c = t" "e = entry_of sha fl (cs_ttl (new_confirmation_store ttl)) c" by auto
  then show ?case
  proof cases
    case 1
    from snoc.IH [OF 1(1)] obtain pre f mid where "cs = pre @ f # mid" "asks f" "gc_fresh f = t"
      "e = entry_of sha fl (cs_ttl (new_confirmation_store ttl)) f" "\<forall>g \<in> set mid. \<not> presents g t" by blast
    with 1(2) show ?thesis
      by (intro exI [of _ pre] exI [of _ f] exI [of _ "mid @ [c]"]) auto
  next
    case 2
    then show ?thesis by (intro exI [of _ cs] exI [of _ c] exI [of _ "[]"]) simp
  qed
qed

section \<open>Properties\<close>

text \<open>C3: a tool behind the gate runs only on a spoken approval of exactly this action: an earlier
  call of the same tool in the same conversation was answered with a challenge whose token the
  call presents, the arguments hash to what was challenged, no more than the lifetime has
  passed, and the token was not presented in between; what the tool is given carries no token.\<close>

theorem gated_tool_runs_only_on_approval:
  assumes "snd (gate sha fl (gate_run sha fl (new_confirmation_store ttl) cs) c) = Run clean"
    and "gt_confirm (gc_tool c)"
  shows "\<exists>pre f mid t p. cs = pre @ f # mid \<and> presents c t \<and>
    snd (gate sha fl (gate_run sha fl (new_confirmation_store ttl) pre) f) =
      Challenged (clean_args f) \<lparr> ch_token = t, ch_prompt = p \<rparr> \<and>
    gc_session f = gc_session c \<and> gt_name (gc_tool f) = gt_name (gc_tool c) \<and>
    hash_args sha fl (clean_args f) = hash_args sha fl clean \<and>
    gc_now c \<le> gc_now f + (if ttl \<le> 0 then default_confirmation_ttl else ttl) \<and>
    (\<forall>g \<in> set mid. \<not> presents g t) \<and>
    (\<forall>fs. unmarshal_fields clean = Some fs \<longrightarrow> map_of fs confirm_token_field = None)"
proof -
  let ?s = "gate_run sha fl (new_confirmation_store ttl) cs"
  obtain token clean' where split: "split_confirm_token (gc_args c) = Inr (token, clean')"
    using assms(1) by (cases "split_confirm_token (gc_args c)") (auto simp: gate_def)
  with assms have t: "token \<noteq> []" by (auto simp: gate_def Let_def)
  obtain s1 r where k: "consume (gc_now c) token (gc_session c) (gt_name (gc_tool c)) (hash_args sha fl clean') ?s = (s1, r)"
    by fastforce
  with assms split t have r: "r = None" "clean' = clean"
    by (auto simp: gate_def Let_def split: option.splits)
  from consume_cases(3) [OF k r(1)] obtain e where e: "cs_pending ?s token = Some e" "gc_now c \<le> pc_expires e"
    "pc_session e = gc_session c" "pc_tool e = gt_name (gc_tool c)" "pc_hash e = hash_args sha fl clean'" by blast
  from pending_was_asked [OF e(1)] obtain pre f mid where f: "cs = pre @ f # mid" "asks f" "gc_fresh f = token"
    "e = entry_of sha fl (cs_ttl (new_confirmation_store ttl)) f" "\<forall>g \<in> set mid. \<not> presents g token" by blast
  from f(2,3) have "snd (gate sha fl (gate_run sha fl (new_confirmation_store ttl) pre) f) =
      Challenged (clean_args f) \<lparr> ch_token = token, ch_prompt = confirmation_prompt (gc_tool f) (clean_args f) \<rparr>"
    by (auto simp: asks_def gate_def clean_args_def Let_def)
  moreover have "presents c token" using split t assms(2) by (auto simp: presents_def)
  ultimately show ?thesis
    using f e r(2) clean_has_no_token [OF split]
    by (intro exI [of _ pre] exI [of _ f] exI [of _ mid] exI [of _ token] exI)
      (auto simp: entry_of_def new_confirmation_store_def)
qed


definition pay_tool :: gated_tool where
  "pay_tool = \<lparr> gt_name = ''pay'', gt_confirm = True, gt_prompter = None \<rparr>"

definition pay_call :: "instant \<Rightarrow> json fields \<Rightarrow> gate_call" where
  "pay_call now args = \<lparr> gc_now = now, gc_fresh = ''confirm_1'', gc_session = ''s'', gc_tool = pay_tool,
     gc_args = Json (JObj args) \<rparr>"

theorem gated_tool_runs_only_on_approval_witness:
  "\<exists>pre f mid. [pay_call 0 [(''to'', JStr ''ann'')]] = pre @ f # mid \<and>
     hash_args (\<lambda>r. if r = Json (JObj []) then ''0'' else ''1'') id (clean_args f) =
     hash_args (\<lambda>r. if r = Json (JObj []) then ''0'' else ''1'') id (Json (JObj [(''to'', JStr ''ann'')]))"
proof -
  let ?sha = "\<lambda>r. if r = Json (JObj []) then ''0'' else ''1''"
  let ?c = "pay_call 60 [(''to'', JStr ''ann''), (''confirm_token'', JStr ''confirm_1'')]"
  have d: "decode_map [(''to'', JStr ''ann'')] = [(''to'', JStr ''ann'')]"
    "decode_map [(''to'', JStr ''ann''), (''confirm_token'', JStr ''confirm_1'')] =
       [(''to'', JStr ''ann''), (''confirm_token'', JStr ''confirm_1'')]"
    by (simp_all add: decode_map_def)
  have "snd (gate ?sha id (gate_run ?sha id (new_confirmation_store 0) [pay_call 0 [(''to'', JStr ''ann'')]]) ?c) =
      Run (Json (JObj [(''to'', JStr ''ann'')]))"
    by (simp add: gate_run_def gate_def pay_call_def pay_tool_def split_confirm_token_def unmarshal_fields_def
        d confirm_token_field_def Let_def issue_def consume_def sweep_def new_confirmation_store_def
        default_confirmation_ttl_def hash_args_def marshal_map_def)
  moreover have "gt_confirm (gc_tool ?c)" by (simp add: pay_call_def pay_tool_def)
  ultimately show ?thesis
    using gated_tool_runs_only_on_approval [of ?sha id 0 "[pay_call 0 [(''to'', JStr ''ann'')]]" ?c] by blast
qed

section \<open>The hash identifies arguments only up to rounding\<close>

text \<open>Two amounts that round to the same \<open>float64\<close> hash alike, so an approval given for the one
  runs the tool with the other.\<close>

lemma approval_covers_rounding:
  assumes "fl x = fl y"
  shows "hash_args sha fl (Json (JObj [(k, JNum x)])) = hash_args sha fl (Json (JObj [(k, JNum y)]))"
  using assms by (simp add: hash_args_def decode_map_def)

end
