(* ===== verification/Realtime_Session.thy ===== *)
theory Realtime_Session
  imports Speech_Output Config_Types Response_Ownership Plugin_Dispatch Confirmation_Gate Plugin_Registry
begin

text \<open>
  The speech-to-speech mode: the fragments of a caller's turn
  (\<open>internal/pipeline/realtime_turn.go\<close>), the handlers and the outbound pump of
  \<open>realtime.go\<close>, and the session set-up and event dispatch of \<open>internal/realtime/grok.go\<close>.

  The provider's read goroutine runs the handlers one after the other; the pump and the
  sender run beside it. A step is one handler, one statement of the pump that touches
  shared state, or one frame taken by the sender, in any order. Logs keep what was sent to
  the client, written to the transcript, announced and put on the outbound channel.
\<close>

section \<open>The caller's turn\<close>

definition contains_fold :: "str \<Rightarrow> str \<Rightarrow> bool" where
  "contains_fold haystack needle \<longleftrightarrow> contains_str (to_lower haystack) (to_lower needle)"

definition merge_user_fragments :: "str \<Rightarrow> str \<Rightarrow> str" where
  "merge_user_fragments acc0 next0 =
     (let acc = trim_space acc0; frag = trim_space next0 in
      if acc = [] then frag
      else if frag = [] then acc
      else if contains_fold frag acc then frag
      else if contains_fold acc frag then acc
      else acc @ '' '' @ frag)"

record user_turn =
  ut_committed :: str
  ut_partial :: str

definition new_user_turn :: user_turn where
  "new_user_turn = \<lparr>ut_committed = [], ut_partial = []\<rparr>"

definition turn_text :: "user_turn \<Rightarrow> str" where
  "turn_text t = merge_user_fragments (ut_committed t) (ut_partial t)"

definition turn_update :: "str \<Rightarrow> user_turn \<Rightarrow> user_turn \<times> str" where
  "turn_update s t = (let t = t\<lparr>ut_partial := s\<rparr> in (t, turn_text t))"

definition turn_complete :: "str \<Rightarrow> user_turn \<Rightarrow> user_turn \<times> str" where
  "turn_complete s t =
     (let t = t\<lparr>ut_committed := merge_user_fragments (ut_committed t) s, ut_partial := []\<rparr> in (t, turn_text t))"

definition turn_close :: "user_turn \<Rightarrow> user_turn \<times> str" where
  "turn_close t = (t\<lparr>ut_committed := [], ut_partial := []\<rparr>, turn_text t)"

section \<open>Events of the provider\<close>

record grok_event =
  ge_type :: str
  ge_transcript :: str
  ge_delta :: str
  ge_name :: str
  ge_call_id :: str
  ge_arguments :: raw
  ge_audio :: "(byte list \<times> byte list) option"

datatype provider_event =
    Response_started
  | Speech_started
  | Speech_stopped
  | User_transcript str bool
  | Agent_transcript str
  | Audio "byte list"
  | Response_done
  | Tool_requested str str raw
  | Ignored

text \<open>The audio of a JSON event is what decoding its \<open>audio\<close> and \<open>delta\<close> fields gave.\<close>

definition json_audio :: "grok_event \<Rightarrow> provider_event" where
  "json_audio ev =
     (case ge_audio ev of
        None \<Rightarrow> Ignored
      | Some (audio, delta) \<Rightarrow>
          let pcm = (if delta = [] then audio else delta) in if pcm = [] then Ignored else Audio pcm)"

definition handle_event :: "grok_event \<Rightarrow> provider_event" where
  "handle_event ev =
     (let ty = ge_type ev in
      if ty = ''response.created'' then Response_started
      else if ty = ''input_audio_buffer.speech_started'' then Speech_started
      else if ty = ''input_audio_buffer.speech_stopped'' then Speech_stopped
      else if ty = ''conversation.item.input_audio_transcription.updated'' then
        (if ge_transcript ev = [] then Ignored else User_transcript (ge_transcript ev) False)
      else if ty = ''conversation.item.input_audio_transcription.completed'' then
        (if ge_transcript ev = [] then Ignored else User_transcript (ge_transcript ev) True)
      else if ty \<in> {''response.output_audio_transcript.delta'', ''response.audio_transcript.delta'',
                    ''response.output_text.delta'', ''response.text.delta''} then
        (if ge_delta ev = [] then Ignored else Agent_transcript (ge_delta ev))
      else if ty \<in> {''response.output_audio.delta'', ''response.audio.delta''} then json_audio ev
      else if ty = ''response.done'' then Response_done
      else if ty = ''response.function_call_arguments.done'' then
        Tool_requested (ge_name ev) (ge_call_id ev) (ge_arguments ev)
      else Ignored)"

text \<open>One message of the socket: binary audio, or the text of an event, \<open>None\<close> when malformed.\<close>

definition read_message :: "byte list + grok_event option \<Rightarrow> provider_event" where
  "read_message m =
     (case m of
        Inl bytes \<Rightarrow> if bytes = [] then Ignored else Audio bytes
      | Inr None \<Rightarrow> Ignored
      | Inr (Some ev) \<Rightarrow> handle_event ev)"

section \<open>The session's set-up\<close>

definition when_positive :: "str \<Rightarrow> rat \<Rightarrow> (str \<times> json) list" where
  "when_positive key v = (if 0 < v then [(key, JNum v)] else [])"

definition audio_format :: json where
  "audio_format = JObj [(''type'', JStr ''audio/pcm''), (''rate'', JNum 16000)]"

definition turn_detection :: "grok_config \<Rightarrow> json" where
  "turn_detection cfg = JObj ((''type'', JStr ''server_vad'') #
     when_positive ''threshold'' (grk_vad_threshold cfg) @
     when_positive ''silence_duration_ms'' (of_int (grk_silence_duration_ms cfg)) @
     when_positive ''prefix_padding_ms'' (of_int (grk_prefix_padding_ms cfg)) @
     when_positive ''idle_timeout_ms'' (of_int (grk_idle_timeout_ms cfg)))"

definition input_transcription :: "grok_config \<Rightarrow> (str \<times> json) list" where
  "input_transcription cfg =
     (if grk_transcription cfg = Some True
      then [(''transcription'', JObj ((''model'', JStr ''grok-transcribe'') #
              (if grk_language_hint cfg = [] then [] else [(''language_hint'', JStr (grk_language_hint cfg))]) @
              (if grk_keyterms cfg = [] then [] else [(''keyterms'', JArr (map JStr (grk_keyterms cfg)))])))]
      else [])"

record realtime_tool =
  rtt_name :: str
  rtt_description :: str
  rtt_parameters :: "json option"

definition session_tools :: "grok_config \<Rightarrow> realtime_tool list \<Rightarrow> json list" where
  "session_tools cfg defs =
     (if grk_web_search cfg then [JObj [(''type'', JStr ''web_search'')]] else []) @
     (if grk_x_search cfg then [JObj [(''type'', JStr ''x_search'')]] else []) @
     map (\<lambda>t. JObj [(''type'', JStr ''function''), (''name'', JStr (rtt_name t)), (''description'', JStr (rtt_description t)),
        (''parameters'', case rtt_parameters t of None \<Rightarrow> JObj [] | Some p \<Rightarrow> p)]) defs"

definition session_update :: "grok_config \<Rightarrow> str \<Rightarrow> realtime_tool list \<Rightarrow> json" where
  "session_update cfg extra defs =
     JObj [(''type'', JStr ''session.update''),
       (''session'', JObj (
          [(''instructions'', JStr (if extra = [] then grk_system_prompt cfg
              else grk_system_prompt cfg @ [CHR 0x0A, CHR 0x0A] @ extra)),
           (''audio'', JObj [
              (''input'', JObj ([(''format'', audio_format), (''transport'', JStr ''binary'')] @ input_transcription cfg)),
              (''output'', JObj [(''format'', audio_format), (''transport'', JStr ''binary'')])])] @
          (if grk_voice cfg = [] then [] else [(''voice'', JStr (grk_voice cfg))]) @
          [(''turn_detection'', turn_detection cfg)] @
          (if session_tools cfg defs = [] then [] else [(''tools'', JArr (session_tools cfg defs))])))]"

section \<open>Tool calls of the model\<close>

text \<open>
  \<open>search\<close> is the knowledge base, \<open>None\<close> when none is configured; a search gives no chunks
  when it fails. \<open>ask\<close> is what a plugin answers when asked for a confirmation prompt.
\<close>

definition rag_tool_name :: str where
  "rag_tool_name = ''knowledge_search''"

definition realtime_tools :: "registry option \<Rightarrow> bool \<Rightarrow> (str \<times> str) list" where
  "realtime_tools reg rag =
     (case reg of None \<Rightarrow> [] | Some r \<Rightarrow> map (\<lambda>t. (ts_name (spec_of t), ts_description (spec_of t))) (tools r)) @
     (if rag then [(rag_tool_name, ''Search the knowledge base for information needed to answer the caller. Call this whenever the answer depends on specific facts, documents, or details you were not given.'')] else [])"

definition realtime_rag_search :: "(str \<Rightarrow> str list option) option \<Rightarrow> raw \<Rightarrow> str outcome" where
  "realtime_rag_search search args =
     (let query = (case args of
        Json (JObj kvs) \<Rightarrow> as_string (struct_field ''query'' args)
      | Json JNull \<Rightarrow> Some []
      | _ \<Rightarrow> None) in
      case query of
        None \<Rightarrow> Fail (''parse '' @ rag_tool_name @ '' arguments'')
      | Some q \<Rightarrow>
          if trim_space q = [] then Done ''No query supplied.''
          else case search of
            None \<Rightarrow> Panic
          | Some f \<Rightarrow>
              (case f q of
                 None \<Rightarrow> Done ''The knowledge base is unavailable right now.''
               | Some [] \<Rightarrow> Done ''No matching information found.''
               | Some chunks \<Rightarrow> Done (join ([CHR 0x0A] @ ''---'' @ [CHR 0x0A]) chunks)))"

definition gated_of :: "(json \<Rightarrow> str) \<Rightarrow> (nat \<Rightarrow> str \<Rightarrow> raw \<Rightarrow> str) \<Rightarrow> registered \<Rightarrow> gated_tool" where
  "gated_of show ask r =
     (let t = spec_of r in
      \<lparr>gt_name = ts_name t, gt_confirm = ts_confirm t,
       gt_prompter = Some (\<lambda>args.
         case r of
           Packet _ \<Rightarrow> render_prompt show (ts_confirm_prompt t) args
         | Hosted h _ \<Rightarrow>
             if ts_confirm_prompt t \<noteq> [] then render_prompt show (ts_confirm_prompt t) args
             else if \<not> ts_confirm t then [] else ask h (ts_name t) args)\<rparr>)"

datatype tool_answer = Answered "str outcome" | Asks challenge | Runs registered raw

definition handle_realtime_tool_call ::
  "(registered \<Rightarrow> gated_tool) \<Rightarrow> (raw \<Rightarrow> str) \<Rightarrow> (rat \<Rightarrow> rat) \<Rightarrow> (str \<Rightarrow> str list option) option \<Rightarrow> registry option \<Rightarrow>
   instant \<Rightarrow> str \<Rightarrow> str \<Rightarrow> confirmation_store \<Rightarrow> str \<Rightarrow> raw \<Rightarrow> confirmation_store \<times> tool_answer" where
  "handle_realtime_tool_call gated sha fl search reg now fresh session store name args =
     (let args = (if args = Absent then Json (JObj []) else args) in
      if name = rag_tool_name then (store, Answered (realtime_rag_search search args))
      else case reg of
        None \<Rightarrow> (store, Answered (Fail (''unknown tool: '' @ name)))
      | Some r \<Rightarrow>
          (case get_tool r name of
             None \<Rightarrow> (store, Answered (Fail (''unknown tool: '' @ name)))
           | Some t \<Rightarrow>
               (case gate sha fl store \<lparr>gc_now = now, gc_fresh = fresh, gc_session = session, gc_tool = gated t, gc_args = args\<rparr> of
                  (store', Refused e) \<Rightarrow> (store', Answered (Fail ''confirmation''))
                | (store', Challenged clean ch) \<Rightarrow> (store', Asks ch)
                | (store', Run clean) \<Rightarrow> (store', Runs t clean))))"

text \<open>What goes back to the model when a call is over; \<open>Panic\<close> goes nowhere, it ends the process.\<close>

definition tool_reply :: "str \<Rightarrow> str outcome \<Rightarrow> json list" where
  "tool_reply cid out =
     (let reply = (\<lambda>output. [
        JObj [(''type'', JStr ''conversation.item.create''),
          (''item'', JObj [(''type'', JStr ''function_call_output''), (''call_id'', JStr cid), (''output'', JStr output)])],
        JObj [(''type'', JStr ''response.create'')]]) in
      case out of Panic \<Rightarrow> [] | Fail e \<Rightarrow> reply (''Error: '' @ e) | Done output \<Rightarrow> reply output)"

definition speak_request :: "str \<Rightarrow> json" where
  "speak_request greeting =
     JObj [(''type'', JStr ''response.create''),
       (''response'', JObj [(''instructions'', JStr (''Open the conversation by saying exactly this, word for word, '' @
          ''adding nothing before or after it: '' @ greeting))])]"

section \<open>Handlers, pump and sender\<close>

datatype client_message = Transcript str bool | Response_text str | State_msg str

datatype pump =
    Pump_idle
  | Pump_got realtime_chunk
  | Pump_push pcm bool bool
  | Pump_drain

record rt_call =
  rx_queue :: realtime_queue
  rx_turn :: user_turn
  rx_gen :: nat
  rx_current :: nat
  rx_interrupted :: bool
  rx_user :: str
  rx_agent :: str
  rx_speaking :: bool
  rx_out :: "pcm_frame list"
  rx_pump :: pump
  rx_messages :: "client_message list"
  rx_log :: "(str \<times> str) list"
  rx_completed :: "(nat \<times> str \<times> str) list"
  rx_pushed :: "pcm_frame list"

definition new_rt_call :: rt_call where
  "new_rt_call =
     \<lparr>rx_queue = new_realtime_queue, rx_turn = new_user_turn, rx_gen = 0, rx_current = 0, rx_interrupted = False,
      rx_user = [], rx_agent = [], rx_speaking = False, rx_out = [], rx_pump = Pump_idle, rx_messages = [],
      rx_log = [], rx_completed = [], rx_pushed = []\<rparr>"

definition tell :: "client_message \<Rightarrow> rt_call \<Rightarrow> rt_call" where
  "tell m s = s\<lparr>rx_messages := rx_messages s @ [m]\<rparr>"

definition on_response_started :: "rt_call \<Rightarrow> rt_call" where
  "on_response_started s =
     (let gen = rx_gen s + 1;
          (t, user) = turn_close (rx_turn s);
          s = s\<lparr>rx_gen := gen, rx_current := gen, rx_interrupted := False, rx_turn := t, rx_user := user\<rparr>
      in if user = [] then s
         else (tell (Transcript user True) s)\<lparr>rx_log := rx_log s @ [(''user'', user)]\<rparr>)"

definition on_user_transcript :: "str \<Rightarrow> bool \<Rightarrow> rt_call \<Rightarrow> rt_call" where
  "on_user_transcript s final c =
     (case (if final then turn_complete s (rx_turn c) else turn_update s (rx_turn c)) of
        (t, merged) \<Rightarrow> tell (Transcript merged False) (c\<lparr>rx_turn := t\<rparr>))"

definition on_agent_transcript :: "str \<Rightarrow> rt_call \<Rightarrow> rt_call" where
  "on_agent_transcript d s = (tell (Response_text d) s)\<lparr>rx_agent := rx_agent s @ d\<rparr>"

definition on_speech_started :: "rt_call \<Rightarrow> rt_call" where
  "on_speech_started s =
     tell (State_msg ''listening'')
       (s\<lparr>rx_speaking := False, rx_interrupted := True, rx_gen := rx_gen s + 1, rx_current := 0,
          rx_queue := rt_discard (rx_queue s), rx_out := []\<rparr>)"

definition on_response_done :: "rt_call \<Rightarrow> rt_call" where
  "on_response_done s =
     (let gen = rx_current s; response = rx_agent s;
          s = (if response = [] then s else s\<lparr>rx_log := rx_log s @ [(''assistant'', response)], rx_agent := []\<rparr>);
          s = (if gen \<noteq> 0 \<and> \<not> rx_interrupted s
               then s\<lparr>rx_completed := rx_completed s @ [(gen, rx_user s, response)]\<rparr> else s)
      in s\<lparr>rx_queue := rt_end_response (rx_queue s)\<rparr>)"

fun on_event :: "provider_event \<Rightarrow> rt_call \<Rightarrow> rt_call" where
  "on_event Response_started s = on_response_started s"
| "on_event Speech_started s = on_speech_started s"
| "on_event Speech_stopped s = tell (State_msg ''thinking'') s"
| "on_event (User_transcript t final) s = on_user_transcript t final s"
| "on_event (Agent_transcript d) s = on_agent_transcript d s"
| "on_event (Audio bytes) s = s\<lparr>rx_queue := rt_push (linear16_to_pcm bytes) (rx_queue s)\<rparr>"
| "on_event Response_done s = on_response_done s"
| "on_event (Tool_requested name cid args) s = s"
| "on_event Ignored s = s"

definition pump_end :: "bool \<Rightarrow> rt_call \<Rightarrow> rt_call" where
  "pump_end ends s = (if ends then s\<lparr>rx_speaking := False, rx_pump := Pump_drain\<rparr> else s\<lparr>rx_pump := Pump_idle\<rparr>)"

definition pump_step :: "bool \<Rightarrow> rt_call \<Rightarrow> rt_call" where
  "pump_step timed_out s =
     (case rx_pump s of
        Pump_idle \<Rightarrow>
          (case rt_next (rx_queue s) of
             (q, Chunk c) \<Rightarrow> s\<lparr>rx_queue := q, rx_pump := Pump_got c\<rparr>
           | (q, _) \<Rightarrow> s)
      | Pump_got c \<Rightarrow>
          (case rt_frame c of
             None \<Rightarrow> pump_end (rt_end_of_response c) s
           | Some frame \<Rightarrow>
               let new = \<not> rx_speaking s;
                   s = (if new then tell (State_msg ''speaking'') (s\<lparr>rx_speaking := True\<rparr>) else s)
               in s\<lparr>rx_pump := Pump_push frame new (rt_end_of_response c)\<rparr>)
      | Pump_push frame new ends \<Rightarrow>
          if out_pcm_ch_size \<le> length (rx_out s) then s
          else let f = \<lparr>pf_samples = frame, pf_new_talkspurt = new\<rparr>
               in pump_end ends (s\<lparr>rx_out := rx_out s @ [f], rx_pushed := rx_pushed s @ [f]\<rparr>)
      | Pump_drain \<Rightarrow>
          if rx_out s = [] \<or> timed_out then tell (State_msg ''listening'') (s\<lparr>rx_pump := Pump_idle\<rparr>) else s)"

datatype rt_action = Provider provider_event | Pump bool | Sender

fun rt_step :: "rt_call \<Rightarrow> rt_action \<Rightarrow> rt_call" where
  "rt_step s (Provider e) = on_event e s"
| "rt_step s (Pump timed_out) = pump_step timed_out s"
| "rt_step s Sender = s\<lparr>rx_out := tl (rx_out s)\<rparr>"

definition run_rt :: "rt_action list \<Rightarrow> rt_call \<Rightarrow> rt_call" where
  "run_rt es s = fold (\<lambda>e s. rt_step s e) es s"

lemma run_rt_simps [simp]:
  "run_rt [] s = s"
  "run_rt (es @ fs) s = run_rt fs (run_rt es s)"
  "run_rt (e # es) s = run_rt es (rt_step s e)"
  by (simp_all add: run_rt_def)

section \<open>A turn keeps what the caller said\<close>

lemma contains_fold_refl: "contains_fold x x"
  unfolding contains_fold_def contains_str_iff by (metis append_Nil append_Nil2)

lemma contains_fold_Nil [simp]: "contains_fold x []"
  unfolding contains_fold_def contains_str_iff to_lower_def by auto

lemma contains_fold_trans: "contains_fold x y \<Longrightarrow> contains_fold y z \<Longrightarrow> contains_fold x z"
  unfolding contains_fold_def contains_str_iff by (metis append.assoc)

lemma to_lower_append [simp]: "to_lower (a @ b) = to_lower a @ to_lower b"
  by (simp add: to_lower_def)

lemma contains_foldI: "x = a @ b @ c \<Longrightarrow> contains_fold x b"
  unfolding contains_fold_def contains_str_iff
  by (rule exI [of _ "to_lower a"], rule exI [of _ "to_lower c"]) simp

lemma merge_contains:
  "contains_fold (merge_user_fragments acc frag) (trim_space acc)"
  "contains_fold (merge_user_fragments acc frag) (trim_space frag)"
  using contains_foldI [of "trim_space acc @ '' '' @ trim_space frag" "[]" "trim_space acc" "'' '' @ trim_space frag"]
    contains_foldI [of "trim_space acc @ '' '' @ trim_space frag" "trim_space acc @ '' ''" "trim_space frag" "[]"]
  by (simp_all add: merge_user_fragments_def Let_def contains_fold_refl)

lemma merge_trimmed: "trim_space (merge_user_fragments acc frag) = merge_user_fragments acc frag"
proof -
  let ?a = "trim_space acc" and ?b = "trim_space frag"
  have "trim_space (?a @ '' '' @ ?b) = ?a @ '' '' @ ?b" if "?a \<noteq> []" "?b \<noteq> []"
    using that trim_space_fixed_ends [OF trim_space_idem, of acc] trim_space_fixed_ends [OF trim_space_idem, of frag]
    by (intro trim_space_word_ends) auto
  then show ?thesis by (simp add: merge_user_fragments_def Let_def trim_space_idem)
qed

lemma pump_step_frame [simp]:
  "rx_turn (pump_step b s) = rx_turn s" "rx_gen (pump_step b s) = rx_gen s" "rx_current (pump_step b s) = rx_current s"
  "rx_interrupted (pump_step b s) = rx_interrupted s" "rx_user (pump_step b s) = rx_user s"
  "rx_agent (pump_step b s) = rx_agent s" "rx_log (pump_step b s) = rx_log s"
  "rx_completed (pump_step b s) = rx_completed s"
  by (auto simp: pump_step_def pump_end_def tell_def Let_def split: pump.splits next_result.splits prod.splits option.splits)

lemmas handler_defs = on_response_started_def on_user_transcript_def on_agent_transcript_def on_speech_started_def
  on_response_done_def tell_def Let_def

lemmas turn_defs = turn_complete_def turn_update_def turn_close_def turn_text_def new_user_turn_def Let_def

definition user_part :: "rt_action \<Rightarrow> user_turn \<Rightarrow> user_turn" where
  "user_part e t =
     (case e of
        Provider Response_started \<Rightarrow> new_user_turn
      | Provider (User_transcript f True) \<Rightarrow> fst (turn_complete f t)
      | Provider (User_transcript f False) \<Rightarrow> fst (turn_update f t)
      | _ \<Rightarrow> t)"

lemma rx_turn_step: "rx_turn (rt_step s e) = user_part e (rx_turn s)"
proof (cases e)
  case (Provider ev)
  then show ?thesis
    by (cases ev) (auto simp: handler_defs user_part_def turn_defs split: bool.splits)
qed (simp_all add: user_part_def)

lemma trim_space_Nil: "trim_space [] = []"
  by (simp add: trim_space_def trim_def trim_right_def)

lemma committed_trimmed:
  "trim_space (ut_committed (rx_turn (run_rt es new_rt_call))) = ut_committed (rx_turn (run_rt es new_rt_call))"
proof (induction es rule: rev_induct)
  case (snoc e es)
  then show ?case
    by (auto simp: rx_turn_step user_part_def turn_defs merge_trimmed trim_space_Nil
        split: rt_action.splits provider_event.splits bool.splits)
qed (simp add: new_rt_call_def new_user_turn_def trim_space_Nil)

lemma committed_kept:
  assumes "contains_fold (ut_committed (rx_turn (run_rt es new_rt_call))) f" and "e \<noteq> Provider Response_started"
  shows "contains_fold (ut_committed (rx_turn (run_rt (es @ [e]) new_rt_call))) f"
proof -
  let ?t = "rx_turn (run_rt es new_rt_call)"
  have "contains_fold (merge_user_fragments (ut_committed ?t) g) f" for g
    using contains_fold_trans [OF merge_contains(1) [of "ut_committed ?t" g]] assms(1)
    by (simp add: committed_trimmed)
  with assms show ?thesis
    by (auto simp: rx_turn_step user_part_def turn_defs split: rt_action.splits provider_event.splits bool.splits)
qed


lemma short_answer_swallowed:
  "snd (turn_close (fst (turn_complete ''no'' (fst (turn_complete ''I know'' new_user_turn))))) = ''I know''"
  by code_simp

section \<open>What is announced\<close>

definition deltas :: "rt_action list \<Rightarrow> str" where
  "deltas es = concat (map (\<lambda>e. case e of Provider (Agent_transcript d) \<Rightarrow> d | _ \<Rightarrow> []) es)"

definition since_done :: "rt_action list \<Rightarrow> rt_action list" where
  "since_done es = rev (takeWhile (\<lambda>e. e \<noteq> Provider Response_done) (rev es))"

definition answering :: "rt_action list \<Rightarrow> rt_action list \<Rightarrow> rt_action list \<Rightarrow> bool" where
  "answering es pre mid \<longleftrightarrow> es = pre @ [Provider Response_started] @ mid \<and>
     Provider Response_started \<notin> set mid \<and> Provider Speech_started \<notin> set mid"

lemma answering_snoc:
  "answering (es @ [e]) pre mid \<longleftrightarrow>
     e = Provider Response_started \<and> pre = es \<and> mid = [] \<or>
     e \<noteq> Provider Response_started \<and> e \<noteq> Provider Speech_started \<and> (\<exists>mid'. mid = mid' @ [e] \<and> answering es pre mid')"
  by (cases mid rule: rev_cases) (auto simp: answering_def)

lemma agent_text: "rx_agent (run_rt es new_rt_call) = deltas (since_done es)"
proof (induction es rule: rev_induct)
  case (snoc e es)
  show ?case
  proof (cases e)
    case (Provider ev)
    with snoc show ?thesis
      by (cases ev) (auto simp: handler_defs since_done_def deltas_def split: prod.splits)
  qed (use snoc in \<open>simp_all add: since_done_def deltas_def\<close>)
qed (simp add: new_rt_call_def since_done_def deltas_def)

lemma answering_state:
  "(rx_current (run_rt es new_rt_call) \<noteq> 0 \<and> \<not> rx_interrupted (run_rt es new_rt_call) \<longleftrightarrow> (\<exists>pre mid. answering es pre mid)) \<and>
   (\<forall>pre mid. answering es pre mid \<longrightarrow> rx_user (run_rt es new_rt_call) = turn_text (rx_turn (run_rt pre new_rt_call)))"
proof (induction es rule: rev_induct)
  case Nil
  show ?case by (simp add: answering_def new_rt_call_def)
next
  case (snoc e es)
  show ?case
  proof (cases e)
    case (Provider ev)
    with snoc show ?thesis
      by (cases ev) (auto simp: handler_defs answering_snoc turn_close_def split: prod.splits)
  qed (use snoc in \<open>auto simp: answering_snoc\<close>)
qed

definition announces :: "rt_action list \<Rightarrow> str \<Rightarrow> str \<Rightarrow> bool" where
  "announces before user response \<longleftrightarrow>
     (\<exists>asked mid. answering before asked mid \<and> user = turn_text (rx_turn (run_rt asked new_rt_call)) \<and>
        response = deltas (since_done before))"

lemma announces_iff:
  "announces es user response \<longleftrightarrow>
     rx_current (run_rt es new_rt_call) \<noteq> 0 \<and> \<not> rx_interrupted (run_rt es new_rt_call) \<and>
     user = rx_user (run_rt es new_rt_call) \<and> response = rx_agent (run_rt es new_rt_call)"
  unfolding announces_def agent_text using answering_state [of es] by metis

lemma completed_by:
  "rx_completed (rt_step s e) = rx_completed s @
     (if e = Provider Response_done \<and> rx_current s \<noteq> 0 \<and> \<not> rx_interrupted s
      then [(rx_current s, rx_user s, rx_agent s)] else [])"
proof (cases e)
  case (Provider ev)
  then show ?thesis by (cases ev) (simp_all add: handler_defs split: prod.split)
qed simp_all

lemma completed_step:
  "(\<exists>gen. (gen, user, response) \<in> set (rx_completed (run_rt (es @ [e]) new_rt_call))) \<longleftrightarrow>
   (\<exists>gen. (gen, user, response) \<in> set (rx_completed (run_rt es new_rt_call))) \<or>
   e = Provider Response_done \<and> announces es user response"
  by (auto simp: completed_by announces_iff simp del: rt_step.simps)

lemma split_snoc:
  "(\<exists>before rest. es @ [e] = before @ [d] @ rest \<and> P before) \<longleftrightarrow>
   (\<exists>before rest. es = before @ [d] @ rest \<and> P before) \<or> e = d \<and> P es" (is "?L \<longleftrightarrow> ?R")
proof
  assume ?L
  then obtain before rest where "es @ [e] = before @ [d] @ rest" "P before" by blast
  then show ?R by (cases rest rule: rev_cases) auto
next
  assume ?R
  then show ?L by fastforce
qed


text \<open>After a tool call the second response is announced without the caller's question: the turn
  was closed by the first.\<close>

lemma tool_reply_is_announced_without_the_question:
  "rx_completed (run_rt (map Provider
     [User_transcript ''weather?'' True, Response_started, Tool_requested ''weather'' ''c1'' Absent, Response_done,
      Response_started, Agent_transcript ''Sunny.'', Response_done]) new_rt_call) =
   [(1, ''weather?'', []), (2, [], ''Sunny.'')]"
  by code_simp

section \<open>What the caller still hears\<close>

definition held :: "rt_call \<Rightarrow> nat" where
  "held s = (case rx_pump s of Pump_got c \<Rightarrow> if rt_frame c = None then 0 else 1 | Pump_push _ _ _ \<Rightarrow> 1 | _ \<Rightarrow> 0)"

text \<open>A barge-in silences the agent: from when the provider reports speech until it sends audio
  again the outbound channel gets at most one more frame, the one the pump was holding,
  however handlers, pump and sender interleave.\<close>

theorem barge_in_leaves_one_frame:
  fixes s :: rt_call and es :: "rt_action list"
  assumes "\<forall>bytes. Provider (Audio bytes) \<notin> set es"
  defines "s' \<equiv> run_rt (Provider Speech_started # es) s"
  shows "length (rx_pushed s') \<le> length (rx_pushed s) + held s \<and> length (rx_out s') \<le> 1"
proof -
  have step: "rq_pending (rx_queue (rt_step t e)) = [] \<and> length (rx_pushed (rt_step t e)) + held (rt_step t e) \<le> length (rx_pushed t) + held t \<and>
      length (rx_out (rt_step t e)) + held (rt_step t e) \<le> length (rx_out t) + held t"
    if "rq_pending (rx_queue t) = []" "\<forall>bytes. e \<noteq> Provider (Audio bytes)" for t e
  proof (cases e)
    case (Provider ev)
    with that show ?thesis by (cases ev) (auto simp: handler_defs held_def rt_discard_def rt_end_response_def split: prod.splits)
  next
    case (Pump b)
    with that show ?thesis
      by (auto simp: pump_step_def pump_end_def tell_def Let_def held_def rt_next_def frame_size_def split: pump.splits option.splits)
  qed (use that in \<open>simp add: held_def\<close>)
  let ?t = "on_speech_started s"
  have "rq_pending (rx_queue (run_rt es ?t)) = [] \<and> length (rx_pushed (run_rt es ?t)) + held (run_rt es ?t) \<le> length (rx_pushed ?t) + held ?t \<and>
      length (rx_out (run_rt es ?t)) + held (run_rt es ?t) \<le> length (rx_out ?t) + held ?t"
    using assms(1)
  proof (induction es rule: rev_induct)
    case Nil
    show ?case by (simp add: on_speech_started_def tell_def rt_discard_def)
  next
    case (snoc e es)
    then show ?case using step [of "run_rt es ?t" e] by fastforce
  qed
  moreover have "rx_pushed ?t = rx_pushed s" "rx_out ?t = []" "held ?t = held s" "held s \<le> 1"
    by (auto simp: on_speech_started_def tell_def held_def split: pump.split)
  ultimately show ?thesis by (auto simp: s'_def)
qed

text \<open>The frame is real: held across the barge-in it starts a talkspurt of its own, and the client
  is told that the agent speaks while the caller does.\<close>

lemma held_frame_speaks_after_barge_in:
  fixes voice :: pcm
  assumes "length voice = frame_size"
  defines "s \<equiv> run_rt [Provider Response_started, Provider (Audio (pcm_to_linear16 voice)), Pump False,
      Provider Speech_started, Pump False, Pump False] new_rt_call"
  shows "rx_out s = [\<lparr>pf_samples = voice, pf_new_talkspurt = True\<rparr>] \<and> rx_speaking s \<and>
    rx_messages s = [State_msg ''listening'', State_msg ''speaking'']"
proof -
  have v: "voice \<noteq> []" using assms(1) by (auto simp: frame_size_def)
  let ?c = "\<lparr>rt_frame = Some voice, rt_end_of_response = False\<rparr>"
  let ?s1 = "run_rt [Provider Response_started, Provider (Audio (pcm_to_linear16 voice))] new_rt_call"
  have "rt_next (rx_queue ?s1) = (new_realtime_queue, Chunk ?c)" and "rx_pump ?s1 = Pump_idle" and "rx_messages ?s1 = []"
    using v assms(1) by (simp_all add: on_response_started_def turn_close_def turn_text_def merge_user_fragments_def
      trim_space_Nil new_rt_call_def new_user_turn_def new_realtime_queue_def rt_push_def linear16_of_pcm rt_next_def)
  then have s2: "rx_pump (run_rt [Pump False, Provider Speech_started] ?s1) = Pump_got ?c"
    "rx_messages (run_rt [Pump False, Provider Speech_started] ?s1) = [State_msg ''listening'']"
    "\<not> rx_speaking (run_rt [Pump False, Provider Speech_started] ?s1)"
    "rx_out (run_rt [Pump False, Provider Speech_started] ?s1) = []"
    by (simp_all add: pump_step_def on_speech_started_def tell_def)
  have "rx_out (run_rt [Pump False, Pump False] t) = [\<lparr>pf_samples = voice, pf_new_talkspurt = True\<rparr>] \<and>
      rx_speaking (run_rt [Pump False, Pump False] t) \<and>
      rx_messages (run_rt [Pump False, Pump False] t) = [State_msg ''listening'', State_msg ''speaking'']"
    if "rx_pump t = Pump_got ?c" "rx_messages t = [State_msg ''listening'']" "\<not> rx_speaking t" "rx_out t = []" for t
    using that by (simp add: pump_step_def pump_end_def tell_def out_pcm_ch_size_def Let_def)
  from this [OF s2] show ?thesis by (simp add: s_def)
qed

section \<open>Arguments that arrive as a string\<close>

text \<open>
  The provider sends a call's arguments as a JSON string, and \<open>runToolCall\<close> passes the raw string
  on. A string is no object, so no search, gate or dispatching tool can read its arguments.
\<close>

lemma string_arguments_reach_no_tool:
  "realtime_rag_search search (Json (JStr a)) = Fail (''parse '' @ rag_tool_name @ '' arguments'')"
  "split_confirm_token (Json (JStr a)) = Inr ([], Json (JStr a))"
  "gt_confirm (gated t) \<Longrightarrow> reg name = Some t \<Longrightarrow>
     snd (gate sha fl store \<lparr>gc_now = now, gc_fresh = fresh, gc_session = session, gc_tool = gated t, gc_args = Json (JStr a)\<rparr>) \<noteq> Run clean"
  "dispatch_execute show ts d (Json (JStr a)) = Fail (''tool '' @ ts_name ts @ '': '' @ ''decode arguments'')"
  by (simp_all add: realtime_rag_search_def split_confirm_token_def unmarshal_fields_def gate_def Let_def
      dispatch_execute_def decode_args_def)

lemma knowledge_search_without_knowledge_base:
  "trim_space q \<noteq> [] \<Longrightarrow>
   handle_realtime_tool_call gated sha fl None reg now fresh session store rag_tool_name (Json (JObj [(''query'', JStr q)])) =
     (store, Answered Panic)"
  by (simp add: handle_realtime_tool_call_def realtime_rag_search_def struct_field_def to_lower_def is_upper_def Let_def)

section \<open>Witnesses\<close>


theorem barge_in_leaves_one_frame_witness:
  "length (rx_pushed (run_rt [Provider Speech_started, Pump False, Sender] new_rt_call)) \<le> 0 + 0"
  using barge_in_leaves_one_frame [of "[Pump False, Sender]" new_rt_call] by (simp add: new_rt_call_def held_def)

end
