(* ===== verification/Call_Wiring.thy ===== *)
theory Call_Wiring
  imports Ollama_Backend Agent_Backend Plugin_Loading Speech_Sessions Realtime_Session Turn_Quality Voice_Detection Partial_Reflex
begin

text \<open>
  How a call is put together: the durable half of it (\<open>internal/pipeline/conversation.go\<close>), what
  \<open>New\<close> of \<open>pipeline.go\<close> makes of a conversation, a configuration and the plugins, the
  goroutines \<open>Start\<close> launches, the greeting, and the handler of the model's tool calls. A
  pipeline is known by a number; codecs, the back end of a configuration and its speech client
  are arguments where they are not modelled elsewhere.
\<close>

section \<open>The client of the model\<close>

datatype live_llm = Live_openai llm_client | Live_ollama ollama_client | Live_agent agent_client

definition live_client :: "byte list \<Rightarrow> llm_backend \<Rightarrow> live_llm" where
  "live_client random b =
     (case b of
        Openai_backend key model system url \<Rightarrow> Live_openai (new_client system)
      | Ollama_backend oc \<Rightarrow> Live_ollama oc
      | Agent_backend url key ms rid \<Rightarrow> Live_agent (new_agent url key ms rid random))"

fun append_to_llm :: "str \<Rightarrow> live_llm \<Rightarrow> live_llm" where
  "append_to_llm s (Live_openai c) = Live_openai (append_system_prompt s c)"
| "append_to_llm s (Live_ollama oc) = Live_ollama (oc\<lparr>oc_client := append_system_prompt s (oc_client oc)\<rparr>)"
| "append_to_llm s (Live_agent c) = Live_agent (agent_append_prompt s c)"

text \<open>The agent owns its tools: it ignores the server's.\<close>

fun owns_its_tools :: "live_llm \<Rightarrow> bool" where
  "owns_its_tools (Live_agent c) \<longleftrightarrow> True"
| "owns_its_tools _ \<longleftrightarrow> False"

type_synonym tool_def = "str \<times> str \<times> json"

section \<open>The conversation\<close>

text \<open>\<open>cv_handler\<close> is the pipeline whose closure handles the model's tool calls.\<close>

record conv_state =
  cv_session :: str
  cv_llm :: "live_llm option"
  cv_tools :: "tool_def list"
  cv_handler :: "nat option"
  cv_log :: "transcript_entry list"
  cv_summary :: "str option"
  cv_last_summary_at :: int
  cv_turn_seq :: "64 word"

definition new_conversation :: "(config \<Rightarrow> str \<Rightarrow> llm_refusal + llm_backend) \<Rightarrow> byte list \<Rightarrow> config \<Rightarrow> str \<Rightarrow> str \<Rightarrow> llm_refusal + conv_state" where
  "new_conversation build random c sid rid =
     (let fresh = \<lparr>cv_session = sid, cv_llm = None, cv_tools = [], cv_handler = None, cv_log = [], cv_summary = None,
                   cv_last_summary_at = 0, cv_turn_seq = 0\<rparr>
      in if realtime_enabled c then Inr fresh
         else case build c rid of
           Inl e \<Rightarrow> Inl e
         | Inr b \<Rightarrow> Inr (fresh\<lparr>cv_llm := Some (live_client random b)\<rparr>))"

definition next_turn :: "conv_state \<Rightarrow> conv_state \<times> 64 word \<times> str" where
  "next_turn cv =
     (let seq = cv_turn_seq cv + 1 in (cv\<lparr>cv_turn_seq := seq\<rparr>, seq, ''turn_'' @ digits_of (unat seq)))"

definition conv_summary :: "conv_state \<Rightarrow> str" where
  "conv_summary cv = (case cv_summary cv of None \<Rightarrow> [] | Some s \<Rightarrow> s)"

definition has_history :: "conv_state option \<Rightarrow> bool" where
  "has_history cv \<longleftrightarrow> (case cv of None \<Rightarrow> False | Some c \<Rightarrow> cv_llm c \<noteq> None)"

section \<open>A pipeline\<close>

record call_pipeline =
  pl_number :: nat
  pl_conv :: conv_state
  pl_tts :: "tts_client option"
  pl_direction :: str
  pl_suppress_greeting :: bool
  pl_vad :: detector
  pl_barge_in :: detector
  pl_echo_guard :: "echo_guard option"
  pl_reflex :: "reflex_entry list option"
  pl_ssrc :: "32 word"
  pl_marker_next :: bool

datatype pipeline_error = No_decoder | No_encoder | No_llm llm_refusal | No_tts provider_error

definition new_partial_reflex :: "registry option \<Rightarrow> reflex_entry list option" where
  "new_partial_reflex reg =
     (case reg of
        None \<Rightarrow> None
      | Some r \<Rightarrow>
          if partial_tools r = [] then None
          else Some (concat (map (\<lambda>t. case ts_on_partial t of None \<Rightarrow> [] | Some q \<Rightarrow> [reflex_entry_of t q]) (partial_tools r))))"

definition tool_defs :: "registry \<Rightarrow> tool_def list" where
  "tool_defs r = map (\<lambda>t. (ts_name (spec_of t), ts_description (spec_of t), parameters (spec_of t))) (tools r)"

definition tone_rule :: str where
  "tone_rule = [CHR 0x0A, CHR 0x0A] @ ''OPTIONAL tone control: you may start a sentence with exactly one tag from '' @
     ''[warm] [empathetic] [calm] [excited] to shape how it is spoken'' @ [CHR 0x20, CHR 0xE2, CHR 0x80, CHR 0x94, CHR 0x20] @
     ''e.g. '' @ [CHR 0x22] @ ''[empathetic] I'' @ [CHR 0x27] @ ''m really sorry to hear that.'' @ [CHR 0x22] @
     '' Use it sparingly, only when the moment calls for it (apologies, bad news, congratulations). The tag is never '' @
     ''spoken aloud. Never invent other tags.''"

text \<open>The tools and the prompt of the model's client, at the end of \<open>New\<close>.\<close>

definition offer_tools :: "nat \<Rightarrow> tool_def list \<Rightarrow> conv_state \<Rightarrow> conv_state" where
  "offer_tools n defs cv =
     (case cv_llm cv of
        None \<Rightarrow> cv
      | Some l \<Rightarrow> if defs = [] \<or> owns_its_tools l then cv else cv\<lparr>cv_tools := defs, cv_handler := Some n\<rparr>)"

definition append_prompt :: "str \<Rightarrow> conv_state \<Rightarrow> conv_state" where
  "append_prompt s cv = cv\<lparr>cv_llm := map_option (append_to_llm s) (cv_llm cv)\<rparr>"

definition wire_llm :: "nat \<Rightarrow> (registry \<times> skill list) option \<Rightarrow> conv_state \<Rightarrow> conv_state" where
  "wire_llm n mgr cv =
     (let cv = (case mgr of
          None \<Rightarrow> cv
        | Some (reg, skills) \<Rightarrow>
            let cv = offer_tools n (tool_defs reg) cv
            in if skills_prompt skills = [] then cv else append_prompt (skills_prompt skills) cv)
      in append_prompt tone_rule cv)"

definition new_pipeline :: "bool \<Rightarrow> bool \<Rightarrow> (config \<Rightarrow> str \<Rightarrow> llm_refusal + llm_backend) \<Rightarrow> byte list \<Rightarrow> nat \<Rightarrow> config \<Rightarrow>
    (registry \<times> skill list) option \<Rightarrow> str \<Rightarrow> bool \<Rightarrow> conv_state option \<Rightarrow> bool \<Rightarrow> pipeline_error + call_pipeline" where
  "new_pipeline dec enc build random n c mgr direction aec_absent conv resumed =
     (if \<not> dec then Inl No_decoder
      else if \<not> enc then Inl No_encoder
      else case (case conv of Some cv \<Rightarrow> Inr cv | None \<Rightarrow> new_conversation build random c [] []) of
        Inl e \<Rightarrow> Inl (No_llm e)
      | Inr cv \<Rightarrow>
          case (if realtime_enabled c then Inr None else map_sum (\<lambda>e. e) Some (new_tts_client c)) of
            Inl e \<Rightarrow> Inl (No_tts e)
          | Inr tts \<Rightarrow>
              let guard = (if echo_guard_for c aec_absent
                    then Some (new_echo_guard (ppl_echo_guard_window_ms (cf_pipeline c) * millisecond)
                      (of_rat (ppl_echo_guard_gain (cf_pipeline c))) (of_rat (ppl_echo_guard_margin (cf_pipeline c))))
                    else None);
                  p = \<lparr>pl_number = n, pl_conv = cv, pl_tts = tts, pl_direction = direction, pl_suppress_greeting = resumed,
                       pl_vad = new_default, pl_barge_in = new_barge_in, pl_echo_guard = guard,
                       pl_reflex = new_partial_reflex (map_option fst mgr), pl_ssrc = 12345678, pl_marker_next = True\<rparr>
              in Inr (if realtime_enabled c then p else p\<lparr>pl_conv := wire_llm n mgr cv\<rparr>))"

section \<open>The greeting and the goroutines\<close>

definition greeting_text :: "config \<Rightarrow> str \<Rightarrow> str" where
  "greeting_text c direction =
     (if direction = ''outbound'' \<and> ppl_greeting_outgoing (cf_pipeline c) \<noteq> [] then ppl_greeting_outgoing (cf_pipeline c)
      else ppl_greeting (cf_pipeline c))"

datatype worker = Reader | Inbound | Agent_loop | Sender_loop | Realtime_loop

definition workers_of :: "config \<Rightarrow> worker list" where
  "workers_of c =
     (if realtime_enabled c then [Reader, Realtime_loop, Sender_loop] else [Reader, Inbound, Agent_loop, Sender_loop])"

datatype greeting = No_greeting | Greet_by_voice str | Greet_when_ready str

definition start_greeting :: "config \<Rightarrow> call_pipeline \<Rightarrow> greeting" where
  "start_greeting c p =
     (let g = greeting_text c (pl_direction p) in
      if g = [] \<or> pl_suppress_greeting p then No_greeting
      else if realtime_enabled c then Greet_when_ready g else Greet_by_voice g)"

record started_call =
  sc_workers :: "worker set"
  sc_cancelled :: bool
  sc_returned :: bool
  sc_sinks :: sinks

text \<open>Everything that befalls a call: its own goroutines and helpers end or panic, the goroutines that \<open>Start\<close> does not wait
  for (turn buffer, responses, speech-to-speech output) panic, the speech-to-speech provider cannot be
  reached, \<open>Start\<close> returns once all its goroutines have, the call is stopped, and other calls bind and unbind
  themselves.\<close>

datatype call_event =
  Worker_returns worker | Worker_panics worker | Side_panics | Provider_unreachable | Helper_panics | Stop_call | Start_returns
  | Binds str nat | Unbinds str

definition begin_call :: "config \<Rightarrow> call_pipeline \<Rightarrow> bool \<Rightarrow> sinks \<Rightarrow> started_call" where
  "begin_call c p mgr m =
     \<lparr>sc_workers = set (workers_of c), sc_cancelled = False, sc_returned = False,
      sc_sinks = (if mgr \<and> cv_session (pl_conv p) \<noteq> [] then bind_session (cv_session (pl_conv p)) (pl_number p) m else m)\<rparr>"

definition recover_panic :: "worker \<Rightarrow> started_call \<Rightarrow> started_call" where
  "recover_panic w s = s\<lparr>sc_workers := sc_workers s - {w}, sc_cancelled := True\<rparr>"

definition recover_keep_alive :: "started_call \<Rightarrow> started_call" where
  "recover_keep_alive s = s"

fun call_step :: "call_pipeline \<Rightarrow> bool \<Rightarrow> started_call \<Rightarrow> call_event \<Rightarrow> started_call option" where
  "call_step p mgr s (Worker_returns w) = (if w \<in> sc_workers s then Some (s\<lparr>sc_workers := sc_workers s - {w}\<rparr>) else None)"
| "call_step p mgr s (Worker_panics w) = (if w \<in> sc_workers s then Some (recover_panic w s) else None)"
| "call_step p mgr s Side_panics = Some (s\<lparr>sc_cancelled := True\<rparr>)"
| "call_step p mgr s Provider_unreachable = (if Realtime_loop \<in> sc_workers s then Some (recover_panic Realtime_loop s) else None)"
| "call_step p mgr s Helper_panics = Some (recover_keep_alive s)"
| "call_step p mgr s Stop_call = Some (s\<lparr>sc_cancelled := True\<rparr>)"
| "call_step p mgr s Start_returns =
     (if sc_workers s = {} \<and> \<not> sc_returned s
      then Some (s\<lparr>sc_returned := True,
        sc_sinks := (if mgr \<and> cv_session (pl_conv p) \<noteq> [] then unbind_session (cv_session (pl_conv p)) (sc_sinks s) else sc_sinks s)\<rparr>)
      else None)"
| "call_step p mgr s (Binds sid n) = Some (s\<lparr>sc_sinks := bind_session sid n (sc_sinks s)\<rparr>)"
| "call_step p mgr s (Unbinds sid) = Some (s\<lparr>sc_sinks := unbind_session sid (sc_sinks s)\<rparr>)"

fun call_run :: "call_pipeline \<Rightarrow> bool \<Rightarrow> started_call \<Rightarrow> call_event list \<Rightarrow> started_call option" where
  "call_run p mgr s [] = Some s"
| "call_run p mgr s (e # es) = (case call_step p mgr s e of None \<Rightarrow> None | Some s' \<Rightarrow> call_run p mgr s' es)"

section \<open>A tool call of the model\<close>

definition classic_tool_call ::
  "(registered \<Rightarrow> gated_tool) \<Rightarrow> (raw \<Rightarrow> str) \<Rightarrow> (rat \<Rightarrow> rat) \<Rightarrow> registry \<Rightarrow>
   instant \<Rightarrow> str \<Rightarrow> str \<Rightarrow> confirmation_store \<Rightarrow> str \<Rightarrow> raw \<Rightarrow> confirmation_store \<times> tool_answer" where
  "classic_tool_call gated sha fl reg now fresh session store name args =
     (case get_tool reg name of
        None \<Rightarrow> (store, Answered (Fail (''unknown tool: '' @ name)))
      | Some t \<Rightarrow>
          (case gate sha fl store \<lparr>gc_now = now, gc_fresh = fresh, gc_session = session, gc_tool = gated t, gc_args = args\<rparr> of
             (store', Refused e) \<Rightarrow> (store', Answered (Fail ''confirmation''))
           | (store', Challenged clean ch) \<Rightarrow> (store', Asks ch)
           | (store', Run clean) \<Rightarrow> (store', Runs t clean)))"

section \<open>Numbers of turns\<close>

definition digits_value :: "str \<Rightarrow> nat" where
  "digits_value s = fold (\<lambda>c v. v * 10 + (of_char c - 48)) s 0"

lemma digits_value_digits [simp]: "digits_value (digits_of n) = n"
proof (induction n rule: digits_of.induct)
  case (1 n)
  show ?case
  proof (cases "n < 10")
    case True
    then show ?thesis by (subst digits_of.simps) (simp add: digits_value_def)
  next
    case False
    have "n mod 10 + 48 < 256" by (rule order.strict_trans1 [of _ "9 + 48"]) auto
    with 1 False show ?thesis by (subst digits_of.simps) (simp add: digits_value_def)
  qed
qed

fun number_turns :: "nat \<Rightarrow> conv_state \<Rightarrow> conv_state \<times> (64 word \<times> str) list" where
  "number_turns 0 cv = (cv, [])"
| "number_turns (Suc n) cv =
     (case next_turn cv of (cv, seq, tid) \<Rightarrow> (case number_turns n cv of (cv, rest) \<Rightarrow> (cv, (seq, tid) # rest)))"

lemma number_turns_from:
  "unat (cv_turn_seq cv) + n < 2 ^ 64 \<Longrightarrow>
    map (\<lambda>(seq, tid). (unat seq, tid)) (snd (number_turns n cv)) =
      map (\<lambda>i. (i, ''turn_'' @ digits_of i)) [unat (cv_turn_seq cv) + 1..<unat (cv_turn_seq cv) + 1 + n]"
proof (induction n arbitrary: cv)
  case (Suc n)
  have "unat (cv_turn_seq cv + 1) = unat (cv_turn_seq cv) + 1"
    using Suc.prems by (simp add: unat_word_ariths take_bit_nat_eq_self)
  moreover obtain cv2 rest where r: "number_turns n (cv\<lparr>cv_turn_seq := cv_turn_seq cv + 1\<rparr>) = (cv2, rest)" by fastforce
  moreover have "[unat (cv_turn_seq cv) + 1..<unat (cv_turn_seq cv) + 1 + Suc n] =
      (unat (cv_turn_seq cv) + 1) # [unat (cv_turn_seq cv) + 1 + 1..<unat (cv_turn_seq cv) + 1 + 1 + n]"
    by (subst upt_conv_Cons) simp_all
  ultimately show ?case
    using Suc.IH [of "cv\<lparr>cv_turn_seq := cv_turn_seq cv + 1\<rparr>"] Suc.prems
    by (simp add: next_turn_def Let_def del: upt_Suc)
qed simp

text \<open>The turns of a conversation are numbered from one upwards and no two have the same name, as long
  as they are fewer than 2 to the 64th.\<close>

theorem turns_have_names_of_their_own:
  assumes "cv_turn_seq cv = 0" and "n < 2 ^ 64"
  shows "map (unat \<circ> fst) (snd (number_turns n cv)) = [1..<Suc n] \<and> distinct (map snd (snd (number_turns n cv)))"
proof -
  have eq: "map (\<lambda>(seq, tid). (unat seq, tid)) (snd (number_turns n cv)) = map (\<lambda>i. (i, ''turn_'' @ digits_of i)) [1..<Suc n]"
    using number_turns_from [of cv n] assms by simp
  have "inj digits_of" by (metis digits_value_digits injI)
  then have "distinct (map (\<lambda>i. ''turn_'' @ digits_of i) [1..<Suc n])"
    by (auto simp: distinct_map inj_def inj_on_def)
  moreover have "map (unat \<circ> fst) (snd (number_turns n cv)) = map fst (map (\<lambda>(seq, tid). (unat seq, tid)) (snd (number_turns n cv)))"
    and "map snd (snd (number_turns n cv)) = map snd (map (\<lambda>(seq, tid). (unat seq, tid)) (snd (number_turns n cv)))"
    by (simp_all add: comp_def split_def)
  ultimately show ?thesis unfolding eq by (simp add: comp_def)
qed

section \<open>A conversation across reconnects\<close>

text \<open>A conversation and what it is after a number of pipelines have been built on it.\<close>

inductive rewired :: "config \<Rightarrow> conv_state \<Rightarrow> nat \<Rightarrow> conv_state \<Rightarrow> bool" for c :: config and cv :: conv_state where
  untouched: "rewired c cv 0 cv"
| again: "rewired c cv n cv1 \<Longrightarrow> new_pipeline dec enc build random i c mgr direction aec (Some cv1) resumed = Inr p \<Longrightarrow>
    rewired c cv (Suc n) (pl_conv p)"

lemma pipeline_conv:
  assumes "new_pipeline dec enc build random i c mgr direction aec (Some cv) resumed = Inr p"
  shows "pl_conv p = (if realtime_enabled c then cv else wire_llm i mgr cv)" and "pl_suppress_greeting p = resumed"
    and "pl_direction p = direction" and "pl_number p = i"
  using assms by (auto simp: new_pipeline_def Let_def split: if_splits sum.splits)

definition durable :: "conv_state \<Rightarrow> str \<times> transcript_entry list \<times> str option \<times> int \<times> 64 word" where
  "durable cv = (cv_session cv, cv_log cv, cv_summary cv, cv_last_summary_at cv, cv_turn_seq cv)"

lemma wire_durable: "durable (wire_llm i mgr cv) = durable cv"
  by (simp add: wire_llm_def durable_def append_prompt_def offer_tools_def Let_def split: option.splits prod.splits)

lemma rewired_durable: "rewired c cv n cv' \<Longrightarrow> durable cv' = durable cv"
  by (induction rule: rewired.induct) (auto simp: pipeline_conv(1) wire_durable)

lemma cv_llm_wire:
  "cv_llm (wire_llm i mgr cv) =
     map_option (append_to_llm tone_rule \<circ> (case mgr of None \<Rightarrow> (\<lambda>l. l)
       | Some (reg, skills) \<Rightarrow> if skills_prompt skills = [] then (\<lambda>l. l) else append_to_llm (skills_prompt skills))) (cv_llm cv)"
  by (auto simp: wire_llm_def append_prompt_def offer_tools_def Let_def option.map_comp comp_def
    split: option.splits prod.splits)

lemma tone_rule_nonempty: "tone_rule \<noteq> []"
  by (simp add: tone_rule_def)

lemma append_overwrites:
  assumes "ll_history c = m # h" and "ms_role m = System"
  shows "append_system_prompt tone_rule c = c\<lparr>ll_history := m\<lparr>ms_content := ll_system_prompt c @ tone_rule\<rparr> # h\<rparr>"
    and "append_system_prompt tone_rule (append_system_prompt s c) =
      c\<lparr>ll_history := m\<lparr>ms_content := ll_system_prompt c @ tone_rule\<rparr> # h\<rparr>"
  using assms by (simp_all add: append_system_prompt_def tone_rule_nonempty)

lemma wire_openai:
  assumes "cv_llm cv = Some (Live_openai c)" and "ll_history c = m # h" and "ms_role m = System"
  shows "cv_llm (wire_llm i mgr cv) = Some (Live_openai (c\<lparr>ll_history := m\<lparr>ms_content := ll_system_prompt c @ tone_rule\<rparr> # h\<rparr>))"
  using assms by (auto simp: cv_llm_wire append_overwrites split: option.splits prod.splits)


text \<open>An agent's system text grows with every reconnect: each pipeline appends the tone rule, and the
  skills, once more.\<close>

theorem agent_prompt_grows_with_every_resume:
  assumes "rewired c cv n cv'" and "\<not> realtime_enabled c" and "cv_llm cv = Some (Live_agent a)"
  shows "\<exists>a'. cv_llm cv' = Some (Live_agent a') \<and> length (ag_system a) + n * length tone_rule \<le> length (ag_system a')"
  using assms(1)
proof (induction rule: rewired.induct)
  case untouched
  from assms(3) show ?case by auto
next
  case (again n cv1 dec enc build random i mgr direction aec resumed p)
  then obtain a1 where a1: "cv_llm cv1 = Some (Live_agent a1)"
    "length (ag_system a) + n * length tone_rule \<le> length (ag_system a1)" by blast
  with assms(2) pipeline_conv(1) [OF again.hyps(2)] show ?case
    by (auto simp: cv_llm_wire agent_append_prompt_def split: option.splits prod.splits)
qed

section \<open>The tools on offer\<close>

text \<open>Every tool the model is offered can be called: its handler is the newest pipeline's, and a call
  of an offered name finds a tool of that name.\<close>

theorem offered_tools_are_callable:
  assumes "new_pipeline dec enc build random i c (Some (reg, skills)) direction aec (Some cv) resumed = Inr p"
    and "\<not> realtime_enabled c" and "cv_llm cv = Some l" and "\<not> owns_its_tools l" and "tools reg \<noteq> []" and "registry_ok reg"
  shows "cv_handler (pl_conv p) = Some i \<and> map fst (cv_tools (pl_conv p)) = map (ts_name \<circ> spec_of) (tools reg) \<and>
    list_all (\<lambda>(name, _). case get_tool reg name of None \<Rightarrow> False | Some r \<Rightarrow> ts_name (spec_of r) = name) (cv_tools (pl_conv p))"
proof -
  have "tool_defs reg \<noteq> []" using assms(5) by (simp add: tool_defs_def)
  then have conv: "cv_handler (pl_conv p) = Some i \<and> cv_tools (pl_conv p) = tool_defs reg"
    using assms(2-4) pipeline_conv(1) [OF assms(1)] by (simp add: wire_llm_def offer_tools_def append_prompt_def Let_def)
  have "get_tool reg (ts_name (spec_of r)) = Some r" if "r \<in> set (tools reg)" for r
  proof -
    from that obtain k where k: "(k, r) \<in> set reg" "\<not> is_internal r" by (auto simp: tools_def)
    with assms(6) have "map_of reg k = Some r" by (auto simp: registry_ok_def)
    with assms(6) k(2) show ?thesis by (auto simp: registry_ok_def get_tool_def lookup_tool_def)
  qed
  then have "list_all (\<lambda>(name, _). case get_tool reg name of None \<Rightarrow> False | Some r \<Rightarrow> ts_name (spec_of r) = name) (tool_defs reg)"
    by (auto simp: list_all_iff tool_defs_def)
  with conv show ?thesis by (simp add: tool_defs_def comp_def)
qed


section \<open>The life of a call\<close>

lemma call_run_snoc:
  "call_run p mgr s (es @ [e]) = (case call_run p mgr s es of None \<Rightarrow> None | Some s' \<Rightarrow> call_step p mgr s' e)"
  by (induction es arbitrary: s) (auto split: option.splits)

definition stays_away :: "str \<Rightarrow> call_event \<Rightarrow> bool" where
  "stays_away sid e \<longleftrightarrow> (case e of Binds t _ \<Rightarrow> t \<noteq> sid | Unbinds t \<Rightarrow> t \<noteq> sid | _ \<Rightarrow> True)"

lemma call_run_frame:
  assumes "call_run p True (begin_call c p True m) es = Some s" and "cv_session (pl_conv p) = sid" and "sid \<noteq> []"
    and "list_all (stays_away sid) es"
  shows "sc_sinks s sid = (if sc_returned s then None else Some (pl_number p)) \<and> (sc_returned s \<longrightarrow> sc_workers s = {})"
  using assms(1,4)
proof (induction es arbitrary: s rule: rev_induct)
  case Nil
  with assms show ?case by (auto simp: begin_call_def bind_session_def)
next
  case (snoc e es)
  then obtain s1 where s1: "call_run p True (begin_call c p True m) es = Some s1" "call_step p True s1 e = Some s"
    by (auto simp: call_run_snoc split: option.splits)
  with snoc assms(2,3) show ?case
    by (cases e) (auto simp: stays_away_def bind_session_def unbind_session_def recover_panic_def recover_keep_alive_def split: if_splits)
qed

text \<open>While a call runs plugins reach it under its session, from before its first goroutine starts until
  \<open>Start\<close> returns, which it does not before all its goroutines have ended; after that they get an
  error. What befalls its helpers and other sessions changes nothing.\<close>

theorem running_call_is_reachable:
  assumes "call_run p True (begin_call c p True m) es = Some s" and "cv_session (pl_conv p) = sid" and "sid \<noteq> []"
    and "list_all (stays_away sid) es"
  shows "find_sink (sc_sinks s) sid = (if sc_returned s then Inl (No_live_session sid) else Inr (pl_number p)) \<and>
    (sc_returned s \<longrightarrow> sc_workers s = {})"
  using call_run_frame [OF assms] by (simp add: find_sink_def)

text \<open>A panic costs one call and no more: a call is cancelled exactly when it was stopped, one of its
  goroutines panicked or its speech-to-speech provider could not be reached, and never by a helper.\<close>

theorem call_is_cancelled_for_a_reason:
  assumes "call_run p mgr (begin_call c p mgr m) es = Some s"
  shows "sc_cancelled s \<longleftrightarrow> Stop_call \<in> set es \<or> Side_panics \<in> set es \<or> Provider_unreachable \<in> set es \<or> (\<exists>w. Worker_panics w \<in> set es)"
  using assms
proof (induction es arbitrary: s rule: rev_induct)
  case Nil
  then show ?case by (auto simp: begin_call_def)
next
  case (snoc e es)
  then obtain s1 where s1: "call_run p mgr (begin_call c p mgr m) es = Some s1" "call_step p mgr s1 e = Some s"
    by (auto simp: call_run_snoc split: option.splits)
  from snoc.IH [OF s1(1)] s1(2) show ?case
    by (cases e) (auto simp: recover_panic_def recover_keep_alive_def split: if_splits)
qed

text \<open>A resumed call is not greeted again.\<close>

lemma resumed_call_is_not_greeted:
  "new_pipeline dec enc build random i c mgr direction aec (Some cv) True = Inr p \<Longrightarrow> start_greeting c p = No_greeting"
  by (simp add: start_greeting_def pipeline_conv Let_def)

text \<open>A tool that is itself called \<open>knowledge_search\<close> is offered in the speech-to-speech mode and never runs.\<close>

lemma knowledge_search_is_shadowed:
  "handle_realtime_tool_call gated sha fl search reg now fresh session store rag_tool_name args =
    (store, Answered (realtime_rag_search search (if args = Absent then Json (JObj []) else args)))"
  by (simp add: handle_realtime_tool_call_def)

section \<open>Witnesses\<close>

definition sample_conversation :: "live_llm \<Rightarrow> conv_state" where
  "sample_conversation l =
     \<lparr>cv_session = ''s1'', cv_llm = Some l, cv_tools = [], cv_handler = None, cv_log = [], cv_summary = None,
      cv_last_summary_at = 0, cv_turn_seq = 0\<rparr>"

definition sample_voice_config :: config where
  "sample_voice_config = no_config\<lparr>cf_tts := (cf_tts no_config)\<lparr>tts_provider := ''moonshine''\<rparr>\<rparr>"

definition sample_pipeline :: "(registry \<times> skill list) option \<Rightarrow> live_llm \<Rightarrow> call_pipeline" where
  "sample_pipeline mgr l =
     \<lparr>pl_number = 7, pl_conv = wire_llm 7 mgr (sample_conversation l),
      pl_tts = Some (Moonshine_speech (mns_tts_url (cf_moonshine no_config)) (mns_voice (cf_moonshine no_config))),
      pl_direction = [], pl_suppress_greeting = True, pl_vad = new_default, pl_barge_in = new_barge_in, pl_echo_guard = None,
      pl_reflex = new_partial_reflex (map_option fst mgr), pl_ssrc = 12345678, pl_marker_next = True\<rparr>"

lemma sample_config_classic: "\<not> realtime_enabled sample_voice_config"
  by (simp add: realtime_enabled_def sample_voice_config_def no_config_def no_realtime_config_def)

lemma sample_new_pipeline:
  "new_pipeline True True build random 7 sample_voice_config mgr [] False (Some (sample_conversation l)) True = Inr (sample_pipeline mgr l)"
  by (simp add: new_pipeline_def sample_config_classic sample_pipeline_def Let_def new_tts_client_def echo_guard_for_def
      realtime_enabled_def no_realtime_config_def sample_voice_config_def no_config_def no_pipeline_config_def echo_guard_always_def echo_guard_auto_def)

lemma sample_rewired:
  "rewired sample_voice_config (sample_conversation l) 1 (pl_conv (sample_pipeline None l))"
  using rewired.again [OF rewired.untouched sample_new_pipeline [of undefined "[]" None]] by simp

theorem turns_have_names_of_their_own_witness:
  "map (unat \<circ> fst) (snd (number_turns 3 (sample_conversation (Live_openai (new_client ''p''))))) = [1, 2, 3]"
  using turns_have_names_of_their_own [of "sample_conversation (Live_openai (new_client ''p''))" 3]
  by (simp add: sample_conversation_def upt_rec)


theorem agent_prompt_grows_with_every_resume_witness:
  "\<exists>a'. cv_llm (pl_conv (sample_pipeline None (Live_agent (new_agent ''u'' [] 0 ''r'' [])))) = Some (Live_agent a') \<and>
    length tone_rule \<le> length (ag_system a')"
  using agent_prompt_grows_with_every_resume [OF sample_rewired [of "Live_agent (new_agent ''u'' [] 0 ''r'' [])"] sample_config_classic,
      of "new_agent ''u'' [] 0 ''r'' []"]
  by (simp add: sample_conversation_def new_agent_def)

definition sample_registry :: registry where
  "sample_registry = [(''wave'', Packet ((plain_tool ''wave'')\<lparr>ts_dispatch := Some drive_packet\<rparr>))]"

lemma drive_topic_set: "\<not> Plugin_Manifest.blank (ds_topic drive_packet)"
  by code_simp

theorem offered_tools_are_callable_witness:
  "map fst (cv_tools (pl_conv (sample_pipeline (Some (sample_registry, [])) (Live_openai (new_client ''p''))))) = [''wave'']"
proof -
  let ?l = "Live_openai (new_client ''p'')"
  have "cv_llm (sample_conversation ?l) = Some ?l" by (simp add: sample_conversation_def)
  moreover have "\<not> owns_its_tools ?l" by simp
  moreover have "tools sample_registry \<noteq> []" by (simp add: sample_registry_def tools_def is_internal_def plain_tool_def)
  moreover have "registry_ok sample_registry"
    using drive_topic_set by (simp add: registry_ok_def sample_registry_def plain_tool_def)
  ultimately show ?thesis
    using offered_tools_are_callable [OF sample_new_pipeline [of undefined "[]" "Some (sample_registry, [])" ?l] sample_config_classic]
    by (simp add: sample_registry_def tools_def is_internal_def plain_tool_def)
qed


theorem running_call_is_reachable_witness:
  "find_sink (sc_sinks (begin_call sample_voice_config (sample_pipeline None (Live_openai (new_client ''p''))) True Map.empty)) ''s1'' = Inr 7"
  using running_call_is_reachable [of "sample_pipeline None (Live_openai (new_client ''p''))" sample_voice_config Map.empty "[]" _ "''s1''"]
  by (simp add: begin_call_def sample_pipeline_def sample_conversation_def wire_llm_def append_prompt_def Let_def)

theorem call_is_cancelled_for_a_reason_witness:
  "sc_cancelled (the (call_run (sample_pipeline None (Live_openai (new_client ''p''))) True
    (begin_call sample_voice_config (sample_pipeline None (Live_openai (new_client ''p''))) True Map.empty) [Helper_panics, Worker_panics Reader]))"
proof -
  let ?p = "sample_pipeline None (Live_openai (new_client ''p''))"
  have "Reader \<in> sc_workers (begin_call sample_voice_config ?p True Map.empty)"
    by (simp add: begin_call_def workers_of_def)
  then obtain s where s: "call_run ?p True (begin_call sample_voice_config ?p True Map.empty) [Helper_panics, Worker_panics Reader] = Some s"
    by (auto simp: recover_keep_alive_def)
  from call_is_cancelled_for_a_reason [OF s] s show ?thesis by simp
qed

end
