(* ===== verification/Inbound_Audio.thy ===== *)
theory Inbound_Audio
  imports Speech_Output
begin

text \<open>
  The caller's audio on its way in: \<open>runReader\<close> (\<open>internal/pipeline/inbound.go\<close>) decodes the packets of the
  remote track into a channel of fifty frames, and \<open>runInbound\<close> or, in the speech-to-speech mode, \<open>runRealtime\<close>
  (\<open>realtime.go\<close>) starts the service and passes the frames on; there the greeting waits for the service
  (\<open>greetRealtimeWhenReady\<close>). The goroutines interleave by single channel operations. What is done with a frame
  besides (barge-in) is in \<open>Barge_In\<close>. Packets, the Opus decoder and its state are arguments.
\<close>

datatype 'p track_read = Track_error | Garbage | Packet_in 'p

type_synonym ('d, 'p) opus_decoder = "'d \<Rightarrow> 'p \<Rightarrow> 'd \<times> pcm option"

definition in_pcm_ch_size :: nat where "in_pcm_ch_size = 50"

text \<open>What a reader makes of a track: a packet that does not parse or decode is skipped, an error ends it.\<close>

fun decoded :: "('d, 'p) opus_decoder \<Rightarrow> 'd \<Rightarrow> 'p track_read list \<Rightarrow> pcm list" where
  "decoded dec d [] = []"
| "decoded dec d (Track_error # rs) = []"
| "decoded dec d (Garbage # rs) = decoded dec d rs"
| "decoded dec d (Packet_in p # rs) =
     (case dec d p of (d', None) \<Rightarrow> decoded dec d' rs | (d', Some f) \<Rightarrow> f # decoded dec d' rs)"

section \<open>The goroutines\<close>

datatype service = Starting | Listening | Ended

text \<open>\<open>ea_held\<close> is the frame the reader waits to hand over, \<open>ea_taken\<close> logs what the service loop has taken,
  \<open>ea_heard\<close> what the service was sent and \<open>ea_spoken\<close> what it was asked to speak.\<close>

record ('d, 'p) ear =
  ea_track :: "'p track_read list"
  ea_decoder :: 'd
  ea_held :: "pcm option"
  ea_reader :: bool
  ea_channel :: "pcm list"
  ea_service :: service
  ea_taken :: "pcm list"
  ea_heard :: "byte list list"
  ea_ready :: bool
  ea_greeting :: "str option"
  ea_spoken :: "str list"
  ea_cancelled :: bool

definition new_ear :: "'d \<Rightarrow> 'p track_read list \<Rightarrow> str option \<Rightarrow> ('d, 'p) ear" where
  "new_ear d track greeting =
     \<lparr>ea_track = track, ea_decoder = d, ea_held = None, ea_reader = True, ea_channel = [], ea_service = Starting, ea_taken = [], ea_heard = [],
      ea_ready = False, ea_greeting = greeting, ea_spoken = [], ea_cancelled = False\<rparr>"

definition read_track :: "('d, 'p) opus_decoder \<Rightarrow> ('d, 'p) ear \<Rightarrow> ('d, 'p) ear" where
  "read_track dec s =
     (case ea_track s of
        [] \<Rightarrow> s
      | Track_error # rs \<Rightarrow> s\<lparr>ea_track := rs, ea_reader := False\<rparr>
      | Garbage # rs \<Rightarrow> s\<lparr>ea_track := rs\<rparr>
      | Packet_in p # rs \<Rightarrow> (case dec (ea_decoder s) p of (d, held) \<Rightarrow> s\<lparr>ea_track := rs, ea_decoder := d, ea_held := held\<rparr>))"

definition service_starts :: "bool \<Rightarrow> bool \<Rightarrow> ('d, 'p) ear \<Rightarrow> ('d, 'p) ear" where
  "service_starts realtime ok s =
     (if ok then s\<lparr>ea_service := Listening, ea_ready := realtime\<rparr>
      else s\<lparr>ea_service := Ended, ea_cancelled := (ea_cancelled s \<or> realtime)\<rparr>)"

definition pass_on :: "bool \<Rightarrow> pcm \<Rightarrow> pcm list \<Rightarrow> ('d, 'p) ear \<Rightarrow> ('d, 'p) ear" where
  "pass_on ok f fs s =
     (let s = s\<lparr>ea_channel := fs, ea_taken := ea_taken s @ [f]\<rparr>
      in if ok then s\<lparr>ea_heard := ea_heard s @ [pcm_to_linear16 f]\<rparr> else s\<lparr>ea_service := Ended\<rparr>)"

definition greet_realtime :: "str \<Rightarrow> ('d, 'p) ear \<Rightarrow> ('d, 'p) ear" where [simp]:
  "greet_realtime g s = s\<lparr>ea_greeting := None, ea_spoken := ea_spoken s @ [g]\<rparr>"

inductive ear_step :: "('d, 'p) opus_decoder \<Rightarrow> bool \<Rightarrow> ('d, 'p) ear \<Rightarrow> ('d, 'p) ear \<Rightarrow> bool" for dec realtime where
  reads: "ea_reader s \<Longrightarrow> ea_held s = None \<Longrightarrow> ea_track s \<noteq> [] \<Longrightarrow> ear_step dec realtime s (read_track dec s)"
| hands_over: "ea_reader s \<Longrightarrow> ea_held s = Some f \<Longrightarrow> length (ea_channel s) < in_pcm_ch_size \<Longrightarrow>
    ear_step dec realtime s (s\<lparr>ea_held := None, ea_channel := ea_channel s @ [f]\<rparr>)"
| reader_leaves: "ea_cancelled s \<Longrightarrow> ea_reader s \<Longrightarrow> ear_step dec realtime s (s\<lparr>ea_held := None, ea_reader := False\<rparr>)"
| starts: "ea_service s = Starting \<Longrightarrow> ear_step dec realtime s (service_starts realtime ok s)"
| passes_on: "ea_service s = Listening \<Longrightarrow> ea_channel s = f # fs \<Longrightarrow> ear_step dec realtime s (pass_on ok f fs s)"
| service_leaves: "ea_cancelled s \<Longrightarrow> ea_service s = Listening \<Longrightarrow> ear_step dec realtime s (s\<lparr>ea_service := Ended\<rparr>)"
| greets: "ea_ready s \<Longrightarrow> ea_greeting s = Some g \<Longrightarrow> ear_step dec realtime s (greet_realtime g s)"
| greeter_leaves: "ea_cancelled s \<Longrightarrow> ear_step dec realtime s (s\<lparr>ea_greeting := None\<rparr>)"
| stops: "ear_step dec realtime s (s\<lparr>ea_cancelled := True\<rparr>)"

inductive ear_steps :: "('d, 'p) opus_decoder \<Rightarrow> bool \<Rightarrow> ('d, 'p) ear \<Rightarrow> ('d, 'p) ear \<Rightarrow> bool" for dec realtime where
  none: "ear_steps dec realtime s s"
| some: "ear_steps dec realtime s t \<Longrightarrow> ear_step dec realtime t u \<Longrightarrow> ear_steps dec realtime s u"

definition on_the_way :: "('d, 'p) ear \<Rightarrow> pcm list" where
  "on_the_way s = ea_channel s @ (case ea_held s of None \<Rightarrow> [] | Some f \<Rightarrow> [f])"

definition ear_ok :: "('d, 'p) opus_decoder \<Rightarrow> pcm list \<Rightarrow> str option \<Rightarrow> ('d, 'p) ear \<Rightarrow> bool" where
  "ear_ok dec said greeting s \<longleftrightarrow>
     (if ea_reader s then ea_taken s @ on_the_way s @ decoded dec (ea_decoder s) (ea_track s) = said
      else prefix (ea_taken s @ on_the_way s) said) \<and>
     prefix (ea_heard s) (map pcm_to_linear16 (ea_taken s)) \<and>
     (ea_service s \<noteq> Ended \<longrightarrow> ea_heard s = map pcm_to_linear16 (ea_taken s)) \<and> (ea_service s = Starting \<longrightarrow> ea_taken s = []) \<and>
     length (ea_channel s) \<le> in_pcm_ch_size \<and>
     (ea_spoken s = [] \<or> ea_ready s \<and> ea_greeting s = None \<and> greeting = Some (hd (ea_spoken s)) \<and> length (ea_spoken s) = 1) \<and>
     (ea_greeting s = None \<or> ea_greeting s = greeting) \<and> (ea_ready s \<longrightarrow> ea_service s \<noteq> Starting)"

lemma ear_ok_new: "ear_ok dec (decoded dec d track) g (new_ear d track g)"
  by (simp add: ear_ok_def new_ear_def on_the_way_def)

lemma ear_ok_step: "ear_step dec realtime s t \<Longrightarrow> ear_ok dec said g s \<Longrightarrow> ear_ok dec said g t"
proof (induction rule: ear_step.induct)
  case (reads s)
  then obtain r rs where t: "ea_track s = r # rs" by (cases "ea_track s") auto
  with reads show ?case
    by (cases r) (auto simp: ear_ok_def read_track_def on_the_way_def prefix_def split: prod.splits option.splits)
next
  case (hands_over s f)
  then show ?case by (auto simp: ear_ok_def on_the_way_def)
next
  case (reader_leaves s)
  then show ?case by (auto simp: ear_ok_def on_the_way_def prefix_def split: option.splits)
next
  case (starts s ok)
  then show ?case by (auto simp: ear_ok_def on_the_way_def service_starts_def)
next
  case (passes_on s f fs ok)
  then show ?case by (auto simp: ear_ok_def on_the_way_def pass_on_def Let_def)
next
  case (service_leaves s)
  then show ?case by (auto simp: ear_ok_def on_the_way_def)
next
  case (greets s f)
  then show ?case by (auto simp: ear_ok_def on_the_way_def)
next
  case (greeter_leaves s)
  then show ?case by (auto simp: ear_ok_def on_the_way_def)
next
  case (stops s)
  then show ?case by (auto simp: ear_ok_def on_the_way_def)
qed

lemma ear_ok_steps: "ear_steps dec realtime s t \<Longrightarrow> ear_ok dec said g s \<Longrightarrow> ear_ok dec said g t"
  by (induction rule: ear_steps.induct) (auto intro: ear_ok_step)

section \<open>Properties\<close>

text \<open>C34: The service hears the caller as decoded: what it is sent is a beginning of the frames of the track, in
  order and each once, and while reader and service run the rest is on the way or still to be read;
  never more than fifty frames wait.\<close>

theorem service_hears_the_caller:
  assumes "ear_steps dec realtime (new_ear d track greeting) s"
  shows "prefix (ea_heard s) (map pcm_to_linear16 (decoded dec d track)) \<and> length (ea_channel s) \<le> in_pcm_ch_size \<and>
    (ea_reader s \<and> ea_service s = Listening \<longrightarrow>
       ea_heard s @ map pcm_to_linear16 (on_the_way s @ decoded dec (ea_decoder s) (ea_track s)) = map pcm_to_linear16 (decoded dec d track))"
proof -
  have ok: "ear_ok dec (decoded dec d track) greeting s" using ear_ok_steps [OF assms ear_ok_new] .
  have "prefix (ea_taken s) (decoded dec d track)"
  proof (cases "ea_reader s")
    case True
    with ok have "ea_taken s @ (on_the_way s @ decoded dec (ea_decoder s) (ea_track s)) = decoded dec d track" by (simp add: ear_ok_def)
    then show ?thesis by (metis prefixI)
  next
    case False
    with ok show ?thesis by (auto simp: ear_ok_def dest: append_prefixD)
  qed
  then have "prefix (map pcm_to_linear16 (ea_taken s)) (map pcm_to_linear16 (decoded dec d track))" by (rule map_mono_prefix)
  with ok have "prefix (ea_heard s) (map pcm_to_linear16 (decoded dec d track))" by (auto simp: ear_ok_def)
  moreover have "ea_reader s \<and> ea_service s = Listening \<longrightarrow>
      ea_heard s @ map pcm_to_linear16 (on_the_way s @ decoded dec (ea_decoder s) (ea_track s)) = map pcm_to_linear16 (decoded dec d track)"
    using ok by (auto simp: ear_ok_def simp flip: map_append)
  ultimately show ?thesis using ok by (simp add: ear_ok_def)
qed

lemma ear_steps_front: "ear_steps dec realtime t u \<Longrightarrow> ear_step dec realtime s t \<Longrightarrow> ear_steps dec realtime s u"
  by (induction rule: ear_steps.induct) (auto intro: ear_steps.intros)

definition ahead :: "('d, 'p) opus_decoder \<Rightarrow> ('d, 'p) ear \<Rightarrow> pcm list" where
  "ahead dec s = on_the_way s @ (if ea_reader s then decoded dec (ea_decoder s) (ea_track s) else [])"

definition work_left :: "('d, 'p) ear \<Rightarrow> nat" where
  "work_left s = 3 * length (ea_track s) + (case ea_held s of None \<Rightarrow> 0 | Some _ \<Rightarrow> 2) + length (ea_channel s)"

definition attentive :: "('d, 'p) ear \<Rightarrow> bool" where
  "attentive s \<longleftrightarrow> ea_service s = Listening \<and> ea_heard s = map pcm_to_linear16 (ea_taken s) \<and> (ea_held s = None \<or> ea_reader s)"

lemma next_piece:
  assumes "attentive s"
  shows "(\<exists>t. ear_step dec realtime s t \<and> attentive t \<and> work_left t < work_left s \<and> ea_taken t @ ahead dec t = ea_taken s @ ahead dec s) \<or>
    ahead dec s = []"
proof -
  consider f fs where "ea_channel s = f # fs" | f where "ea_channel s = []" "ea_held s = Some f"
    | "ea_channel s = []" "ea_held s = None" "ea_reader s" "ea_track s \<noteq> []" | "ahead dec s = []"
    by (cases "ea_channel s"; cases "ea_held s"; cases "ea_reader s"; cases "ea_track s") (auto simp: ahead_def on_the_way_def)
  then show ?thesis
  proof cases
    case 1
    have "ear_step dec realtime s (pass_on True f fs s)" using assms 1 by (intro ear_step.passes_on) (auto simp: attentive_def)
    with assms 1 show ?thesis
      by (intro disjI1 exI [of _ "pass_on True f fs s"]) (auto simp: attentive_def pass_on_def work_left_def ahead_def on_the_way_def)
  next
    case 2
    let ?t = "s\<lparr>ea_held := None, ea_channel := ea_channel s @ [f]\<rparr>"
    have "ear_step dec realtime s ?t" using assms 2 by (intro ear_step.hands_over) (auto simp: attentive_def in_pcm_ch_size_def)
    with assms 2 show ?thesis
      by (intro disjI1 exI [of _ ?t]) (auto simp: attentive_def work_left_def ahead_def on_the_way_def)
  next
    case 3
    then obtain r rs where t: "ea_track s = r # rs" by (cases "ea_track s") auto
    have "ear_step dec realtime s (read_track dec s)" using 3 by (intro ear_step.reads)
    moreover have "attentive (read_track dec s) \<and> work_left (read_track dec s) < work_left s \<and>
        ea_taken (read_track dec s) @ ahead dec (read_track dec s) = ea_taken s @ ahead dec s"
      using assms 3 t
      by (cases r) (auto simp: attentive_def read_track_def work_left_def ahead_def on_the_way_def split: prod.splits option.splits)
    ultimately show ?thesis by blast
  qed simp
qed

lemma catches_up:
  "attentive s \<Longrightarrow> \<exists>t. ear_steps dec realtime s t \<and> ea_heard t = map pcm_to_linear16 (ea_taken s @ ahead dec s)"
proof (induction "work_left s" arbitrary: s rule: less_induct)
  case less
  from next_piece [OF less.prems, of dec realtime] show ?case
  proof
    assume "ahead dec s = []"
    with less.prems show ?thesis by (auto simp: attentive_def intro: ear_steps.none)
  next
    assume "\<exists>t. ear_step dec realtime s t \<and> attentive t \<and> work_left t < work_left s \<and> ea_taken t @ ahead dec t = ea_taken s @ ahead dec s"
    then obtain t where t: "ear_step dec realtime s t" "attentive t" "work_left t < work_left s" "ea_taken t @ ahead dec t = ea_taken s @ ahead dec s"
      by blast
    from less.hyps [OF t(3,2)] t(1,4) show ?thesis by (auto intro: ear_steps_front)
  qed
qed

text \<open>Whoever speaks is heard in the end: from every state in which reader and service run, some
  continuation brings the service every frame of the track.\<close>

theorem caller_is_heard:
  assumes "ear_steps dec realtime (new_ear d track greeting) s" and "ea_reader s" and "ea_service s = Listening"
  shows "\<exists>t. ear_steps dec realtime s t \<and> ea_heard t = map pcm_to_linear16 (decoded dec d track)"
proof -
  have ok: "ear_ok dec (decoded dec d track) greeting s" using ear_ok_steps [OF assms(1) ear_ok_new] .
  with assms(2,3) have "attentive s" and "ea_taken s @ ahead dec s = decoded dec d track"
    by (simp_all add: ear_ok_def attentive_def ahead_def)
  with catches_up [of s dec realtime] show ?thesis by auto
qed

text \<open>The greeting waits for the speech-to-speech service: it is spoken once at most, as configured, and only to
  a service that has been reached.\<close>

theorem greeting_waits_for_the_service:
  assumes "ear_steps dec realtime (new_ear d track greeting) s" and "ea_spoken s \<noteq> []"
  shows "greeting = Some (hd (ea_spoken s)) \<and> length (ea_spoken s) = 1 \<and> ea_ready s \<and> ea_service s \<noteq> Starting"
  using ear_ok_steps [OF assms(1) ear_ok_new] assms(2) by (auto simp: ear_ok_def)

section \<open>What the code does not mean to do\<close>

text \<open>When speech-to-text cannot be started, or a frame cannot be sent, the loop ends and the call goes on without
  anyone hearing the caller; only a speech-to-speech service that cannot be started ends the call.\<close>

lemma deaf_for_good: "ear_steps dec realtime s t \<Longrightarrow> ea_service s = Ended \<Longrightarrow> ea_service t = Ended \<and> ea_heard t = ea_heard s"
proof (induction rule: ear_steps.induct)
  case (some s t u)
  from some.hyps(2) some.IH [OF some.prems] show ?case
    by (induction rule: ear_step.induct) (auto simp: read_track_def split: list.splits track_read.splits prod.splits)
qed simp

lemma deaf_call_goes_on:
  "\<exists>s. ear_steps dec False (new_ear d track greeting) s \<and> ea_service s = Ended \<and> \<not> ea_cancelled s"
  using ear_steps.some [OF ear_steps.none ear_step.starts [where ok = False and s = "new_ear d track greeting" and realtime = False]]
  by (fastforce simp: new_ear_def service_starts_def)

lemma failed_send_leaves_the_call:
  "ea_service s = Listening \<Longrightarrow> ea_channel s = f # fs \<Longrightarrow> \<not> ea_cancelled s \<Longrightarrow>
    \<exists>t. ear_step dec True s t \<and> ea_service t = Ended \<and> \<not> ea_cancelled t"
  using ear_step.passes_on [where ok = False and dec = dec and realtime = True] by (fastforce simp: pass_on_def)

section \<open>Witnesses\<close>

definition plain_decoder :: "(unit, pcm) opus_decoder" where
  "plain_decoder d p = (d, if p = [] then None else Some p)"

lemma one_packet_run:
  "\<exists>s. ear_steps plain_decoder True (new_ear () [Packet_in [7]] (Some ''Hi'')) s \<and> ea_reader s \<and> ea_service s = Listening \<and> ea_spoken s = [''Hi'']"
proof -
  let ?s = "new_ear () [Packet_in [7]] (Some ''Hi'') :: (unit, pcm) ear"
  let ?t = "service_starts True True ?s"
  have t: "ear_steps plain_decoder True ?s ?t"
    by (rule ear_steps.some [OF ear_steps.none ear_step.starts]) (simp add: new_ear_def)
  have "ear_step plain_decoder True ?t (greet_realtime ''Hi'' ?t)"
    by (rule ear_step.greets) (simp_all add: new_ear_def service_starts_def)
  from ear_steps.some [OF t this] show ?thesis by (intro exI conjI) (auto simp: new_ear_def service_starts_def)
qed

theorem service_hears_the_caller_witness:
  "\<exists>s :: (unit, pcm) ear. ea_heard s @ map pcm_to_linear16 (on_the_way s @ decoded plain_decoder (ea_decoder s) (ea_track s)) = [[7, 0]]"
proof -
  obtain s where "ear_steps plain_decoder True (new_ear () [Packet_in [7]] (Some ''Hi'')) s" "ea_reader s" "ea_service s = Listening"
    using one_packet_run by blast
  with service_hears_the_caller [OF this(1)] show ?thesis
    by (intro exI [of _ s]) (simp add: plain_decoder_def pcm_to_linear16_def put_uint16_def)
qed

theorem caller_is_heard_witness: "\<exists>t :: (unit, pcm) ear. ea_heard t = [[7, 0]]"
proof -
  obtain s where "ear_steps plain_decoder True (new_ear () [Packet_in [7]] (Some ''Hi'')) s" "ea_reader s" "ea_service s = Listening"
    using one_packet_run by blast
  from caller_is_heard [OF this] show ?thesis by (auto simp: plain_decoder_def pcm_to_linear16_def put_uint16_def)
qed

theorem greeting_waits_for_the_service_witness: "\<exists>s :: (unit, pcm) ear. ea_ready s \<and> length (ea_spoken s) = 1"
proof -
  obtain s where "ear_steps plain_decoder True (new_ear () [Packet_in [7]] (Some ''Hi'')) s" "ea_spoken s \<noteq> []"
    using one_packet_run by auto
  from greeting_waits_for_the_service [OF this] show ?thesis by blast
qed

end
