(* ===== verification/Turn_Response.thy ===== *)
theory Turn_Response
  imports Speech_Output Language_Model
begin

text \<open>
  One response of the agent (\<open>respond\<close> in \<open>internal/pipeline/agent.go\<close>) as the two goroutines it
  is: the one that reads the model's stream and the one that speaks. They share a channel of
  eight sentences and a context that a barge-in or a newer turn cancels at any time. A step is one
  operation of either on what they share; a callback that is next in the list has been entered, and a
  model that fails earlier is one with a shorter list. How a sentence becomes frames is \<open>Speech_Output\<close>.
  What the model sends is an argument, a list of the callbacks it makes.
\<close>

section \<open>The text as it is remembered\<close>

text \<open>\<open>strings.ReplaceAll\<close> for a text that is not empty.\<close>

function replace_all :: "str \<Rightarrow> str \<Rightarrow> str \<Rightarrow> str" where
  "replace_all old new s =
     (if s = [] then []
      else if old \<noteq> [] \<and> has_prefix old s then new @ replace_all old new (drop (length old) s)
      else hd s # replace_all old new (tl s))"
  by pat_completeness auto

termination replace_all
  by (relation "measure (\<lambda>(old, new, s). length s)") auto

declare replace_all.simps [simp del]

definition bracketed :: "str \<Rightarrow> str" where
  "bracketed tag = ''['' @ tag @ '']''"

definition upper_char :: "char \<Rightarrow> char" where
  "upper_char c = (if is_lower c then char_of (of_char c - 32 :: nat) else c)"

definition capitalised :: "str \<Rightarrow> str" where
  "capitalised tag = map upper_char (take 1 tag) @ drop 1 tag"

text \<open>Go leaves the order open in which the map of tags is visited: it is the argument \<open>tags\<close>.\<close>

definition strip_voice_tags :: "str list \<Rightarrow> str \<Rightarrow> str" where
  "strip_voice_tags tags s =
     (if CHR ''['' \<notin> set s then s
      else trim_space (join '' '' (str_fields
        (fold (\<lambda>t s. replace_all (bracketed (capitalised t)) [] (replace_all (bracketed t) [] s)) tags s))))"

definition remember_chunk :: "str list \<Rightarrow> str \<Rightarrow> str \<Rightarrow> str" where
  "remember_chunk tags prev chunk = strip_voice_tags tags (prev @ chunk)"

definition agent_text :: "str list \<Rightarrow> str list \<Rightarrow> str" where
  "agent_text tags chunks = fold (\<lambda>c prev. remember_chunk tags prev c) chunks []"

section \<open>The two goroutines\<close>

datatype callback = On_chunk str | On_sentence str

datatype producer = Producing "callback list" | Returned bool

datatype speaker = Listening | Speaking str | Quiet

definition sentence_buf :: nat where "sentence_buf = 8"

record turn_run =
  tn_producer :: producer
  tn_queue :: "str list"
  tn_closed :: bool
  tn_speaker :: speaker
  tn_cancelled :: bool
  tn_failed :: bool
  tn_text :: str
  tn_response :: str
  tn_messages :: "str list"
  tn_spoken :: "str list"
  tn_settled :: bool

definition start_turn :: "callback list \<Rightarrow> turn_run" where
  "start_turn cs =
     \<lparr>tn_producer = Producing cs, tn_queue = [], tn_closed = False, tn_speaker = Listening, tn_cancelled = False,
      tn_failed = False, tn_text = [], tn_response = [], tn_messages = [], tn_spoken = [], tn_settled = False\<rparr>"

datatype turn_action = Chunk_in | Sentence_in | Sentence_lost | Model_returns | Model_fails | Take_sentence | Spoken | Speech_fails | Speech_ends | Cancel_turn | Settle

inductive reply_step :: "str list \<Rightarrow> turn_run \<Rightarrow> turn_action \<Rightarrow> turn_run \<Rightarrow> bool" for tags :: "str list" where
  chunk: "tn_producer t = Producing (On_chunk c # cs) \<Longrightarrow>
    reply_step tags t Chunk_in (t\<lparr>tn_producer := Producing cs, tn_text := remember_chunk tags (tn_text t) c,
      tn_response := tn_response t @ c, tn_messages := tn_messages t @ [c]\<rparr>)"
| sentence: "tn_producer t = Producing (On_sentence s # cs) \<Longrightarrow> length (tn_queue t) < sentence_buf \<Longrightarrow>
    reply_step tags t Sentence_in (t\<lparr>tn_producer := Producing cs, tn_queue := tn_queue t @ [s]\<rparr>)"
| lost: "tn_producer t = Producing (On_sentence s # cs) \<Longrightarrow> tn_cancelled t \<Longrightarrow>
    reply_step tags t Sentence_lost (t\<lparr>tn_producer := Producing cs\<rparr>)"
| returns: "tn_producer t = Producing [] \<Longrightarrow> reply_step tags t Model_returns (t\<lparr>tn_producer := Returned True, tn_closed := True\<rparr>)"
| fails: "tn_producer t = Producing cs \<Longrightarrow> (\<nexists>s cs'. cs = On_sentence s # cs') \<Longrightarrow>
    reply_step tags t Model_fails (t\<lparr>tn_producer := Returned False, tn_closed := True\<rparr>)"
| take: "tn_speaker t = Listening \<Longrightarrow> tn_queue t = s # q \<Longrightarrow>
    reply_step tags t Take_sentence (t\<lparr>tn_queue := q, tn_speaker := (if tn_cancelled t then Quiet else Speaking s)\<rparr>)"
| spoken: "tn_speaker t = Speaking s \<Longrightarrow> reply_step tags t Spoken (t\<lparr>tn_speaker := Listening, tn_spoken := tn_spoken t @ [s]\<rparr>)"
| silent: "tn_speaker t = Speaking s \<Longrightarrow>
    reply_step tags t Speech_fails (t\<lparr>tn_speaker := Quiet, tn_failed := (tn_failed t \<or> \<not> tn_cancelled t)\<rparr>)"
| ends: "tn_speaker t = Listening \<Longrightarrow> tn_queue t = [] \<Longrightarrow> tn_closed t \<Longrightarrow> reply_step tags t Speech_ends (t\<lparr>tn_speaker := Quiet\<rparr>)"
| cancel: "reply_step tags t Cancel_turn (t\<lparr>tn_cancelled := True\<rparr>)"
| settle: "tn_producer t = Returned ok \<Longrightarrow> tn_speaker t = Quiet \<Longrightarrow> \<not> tn_settled t \<Longrightarrow> reply_step tags t Settle (t\<lparr>tn_settled := True\<rparr>)"

text \<open>What a settled turn leaves behind: the line of the transcript and the announced answer.\<close>

definition transcript_line :: "turn_run \<Rightarrow> (str \<times> str) list" where
  "transcript_line t = (if tn_text t = [] then [] else [(''agent'', tn_text t)])"

definition announcement :: "str list \<Rightarrow> turn_run \<Rightarrow> str option" where
  "announcement tags t = (if tn_producer t = Returned True then Some (strip_voice_tags tags (tn_response t)) else None)"

text \<open>A run of a turn with what it does on the way.\<close>

inductive reply_steps :: "str list \<Rightarrow> turn_run \<Rightarrow> turn_action list \<Rightarrow> turn_run \<Rightarrow> bool" for tags :: "str list" where
  none: "reply_steps tags t [] t"
| some: "reply_step tags t a t1 \<Longrightarrow> reply_steps tags t1 as t2 \<Longrightarrow> reply_steps tags t (a # as) t2"

inductive_cases reply_stepE: "reply_step tags t a t'"

section \<open>What holds on the way\<close>

definition sentences_of :: "callback list \<Rightarrow> str list" where
  "sentences_of cs = concat (map (\<lambda>c. case c of On_sentence s \<Rightarrow> [s] | On_chunk _ \<Rightarrow> []) cs)"

definition chunks_in :: "callback list \<Rightarrow> str list" where
  "chunks_in cs = concat (map (\<lambda>c. case c of On_chunk c \<Rightarrow> [c] | On_sentence _ \<Rightarrow> []) cs)"

lemma callback_simps [simp]:
  "sentences_of [] = []" "sentences_of (On_sentence s # cs) = s # sentences_of cs" "sentences_of (On_chunk c # cs) = sentences_of cs"
  "chunks_in [] = []" "chunks_in (On_chunk c # cs) = c # chunks_in cs" "chunks_in (On_sentence s # cs) = chunks_in cs"
  by (simp_all add: sentences_of_def chunks_in_def)

definition rest_of :: "turn_run \<Rightarrow> callback list" where
  "rest_of t = (case tn_producer t of Producing cs \<Rightarrow> cs | Returned _ \<Rightarrow> [])"

definition in_mouth :: "turn_run \<Rightarrow> str list" where
  "in_mouth t = (case tn_speaker t of Speaking s \<Rightarrow> [s] | _ \<Rightarrow> [])"

definition turn_ok :: "str list \<Rightarrow> callback list \<Rightarrow> turn_run \<Rightarrow> bool" where
  "turn_ok tags cs t \<longleftrightarrow>
     tn_response t = concat (tn_messages t) \<and> tn_text t = agent_text tags (tn_messages t) \<and>
     (tn_producer t = Returned False \<or> tn_messages t @ chunks_in (rest_of t) = chunks_in cs) \<and>
     (tn_producer t = Returned False \<or> tn_cancelled t \<or> tn_failed t \<or>
        tn_spoken t @ in_mouth t @ tn_queue t @ sentences_of (rest_of t) = sentences_of cs) \<and>
     (tn_closed t \<longleftrightarrow> (\<exists>ok. tn_producer t = Returned ok)) \<and>
     (tn_speaker t = Quiet \<longrightarrow> tn_cancelled t \<or> tn_failed t \<or> tn_closed t \<and> tn_queue t = []) \<and>
     (tn_settled t \<longrightarrow> tn_closed t \<and> tn_speaker t = Quiet) \<and> length (tn_queue t) \<le> sentence_buf"

lemma turn_ok_start: "turn_ok tags cs (start_turn cs)"
  by (simp add: turn_ok_def start_turn_def rest_of_def in_mouth_def agent_text_def)

lemma turn_ok_step: "reply_step tags t a t' \<Longrightarrow> turn_ok tags cs t \<Longrightarrow> turn_ok tags cs t'"
  by (induction rule: reply_step.induct) (auto simp: turn_ok_def rest_of_def in_mouth_def agent_text_def)

lemma turn_ok_steps: "reply_steps tags t as t' \<Longrightarrow> turn_ok tags cs t \<Longrightarrow> turn_ok tags cs t'"
  by (induction rule: reply_steps.induct) (auto intro: turn_ok_step)

lemma reply_steps_snoc: "reply_steps tags t as t1 \<Longrightarrow> reply_step tags t1 a t2 \<Longrightarrow> reply_steps tags t (as @ [a]) t2"
  by (induction rule: reply_steps.induct) (auto intro: reply_steps.intros)

lemma reply_steps_append: "reply_steps tags t as t1 \<Longrightarrow> reply_steps tags t1 bs t2 \<Longrightarrow> reply_steps tags t (as @ bs) t2"
  by (induction rule: reply_steps.induct) (auto intro: reply_steps.intros)

text \<open>Every step but a cancellation brings the turn nearer to its end.\<close>

definition distance :: "turn_run \<Rightarrow> nat" where
  "distance t =
     (case tn_producer t of Producing cs \<Rightarrow> 4 * length cs + 1 | Returned _ \<Rightarrow> 0) + 3 * length (tn_queue t) +
     (case tn_speaker t of Listening \<Rightarrow> 1 | Speaking _ \<Rightarrow> 3 | Quiet \<Rightarrow> 0) + (if tn_settled t then 0 else 1)"

lemma step_comes_nearer: "reply_step tags t a t' \<Longrightarrow> a \<noteq> Cancel_turn \<Longrightarrow> distance t' < distance t"
  by (induction rule: reply_step.induct) (auto simp: distance_def split: producer.splits)

lemma cancel_keeps_distance: "reply_step tags t Cancel_turn t' \<Longrightarrow> distance t' = distance t"
  by (elim reply_stepE) (auto simp: distance_def)

lemma steps_bounded: "reply_steps tags t as t' \<Longrightarrow> length (filter (\<lambda>a. a \<noteq> Cancel_turn) as) + distance t' \<le> distance t"
proof (induction rule: reply_steps.induct)
  case (some t a t1 as t2)
  show ?case
  proof (cases "a = Cancel_turn")
    case True
    with some cancel_keeps_distance [of tags t t1] show ?thesis by simp
  next
    case False
    with some step_comes_nearer [of tags t a t1] show ?thesis by simp
  qed
qed simp

text \<open>A turn that is not settled can go on without being cancelled, unless speech failed.\<close>

lemma turn_goes_on:
  assumes "turn_ok tags cs t" and "\<not> tn_settled t" and "tn_failed t \<longrightarrow> tn_cancelled t"
  shows "\<exists>a t'. reply_step tags t a t' \<and> a \<noteq> Cancel_turn"
proof (cases "tn_producer t")
  case (Producing ds)
  show ?thesis
  proof (cases ds)
    case Nil
    with Producing show ?thesis by (auto intro: reply_step.returns)
  next
    case (Cons d ds')
    show ?thesis
    proof (cases d)
      case (On_chunk c)
      with Producing Cons show ?thesis by (auto intro: reply_step.chunk)
    next
      case (On_sentence s)
      show ?thesis
      proof (cases "tn_cancelled t \<or> length (tn_queue t) < sentence_buf")
        case True
        with Producing Cons On_sentence show ?thesis by (auto intro: reply_step.sentence reply_step.lost)
      next
        case False
        then obtain q qs where q: "tn_queue t = q # qs" by (cases "tn_queue t") (auto simp: sentence_buf_def)
        have "tn_speaker t \<noteq> Quiet" using assms False Producing q by (auto simp: turn_ok_def)
        then show ?thesis using q by (cases "tn_speaker t") (auto intro: reply_step.take reply_step.spoken)
      qed
    qed
  qed
next
  case (Returned ok)
  then have closed: "tn_closed t" using assms(1) by (auto simp: turn_ok_def)
  show ?thesis
  proof (cases "tn_speaker t")
    case Listening
    then show ?thesis using closed by (cases "tn_queue t") (auto intro: reply_step.take reply_step.ends)
  next
    case (Speaking s)
    then show ?thesis by (auto intro: reply_step.spoken)
  next
    case Quiet
    then show ?thesis using Returned assms(2) by (auto intro: reply_step.settle)
  qed
qed

section \<open>Properties\<close>

text \<open>C6: A turn that is neither interrupted nor struck by an error says exactly what the model sent:
  every sentence in order and once, while the client is sent every chunk, and what the
  turn's end announces is the text of all chunks.\<close>

theorem settled_turn_said_everything:
  assumes "reply_steps tags (start_turn cs) as t" and "tn_settled t" and "\<not> tn_cancelled t" and "\<not> tn_failed t"
    and "tn_producer t = Returned True"
  shows "tn_spoken t = sentences_of cs \<and> tn_messages t = chunks_in cs \<and> tn_text t = agent_text tags (chunks_in cs) \<and>
    announcement tags t = Some (strip_voice_tags tags (concat (chunks_in cs)))"
  using turn_ok_steps [OF assms(1) turn_ok_start] assms(2-5)
  by (auto simp: turn_ok_def rest_of_def in_mouth_def announcement_def)

text \<open>C13: Every turn settles: however its two goroutines and a cancellation interleave, a run takes at
  most four steps per callback of the model and three more, and where no goroutine can take
  another step the turn has settled, unless speech failed while nobody cancelled it.\<close>

theorem turn_settles:
  assumes "reply_steps tags (start_turn cs) as t"
  shows "length (filter (\<lambda>a. a \<noteq> Cancel_turn) as) \<le> 4 * length cs + 3 \<and>
    ((\<exists>a t'. reply_step tags t a t' \<and> a \<noteq> Cancel_turn) \<or> tn_settled t \<or> tn_failed t \<and> \<not> tn_cancelled t)"
proof -
  have "distance (start_turn cs) = 4 * length cs + 3" by (simp add: distance_def start_turn_def)
  with steps_bounded [OF assms] turn_goes_on [OF turn_ok_steps [OF assms turn_ok_start]] show ?thesis by auto
qed

lemma cancelled_step:
  "reply_step tags t a t' \<Longrightarrow> tn_cancelled t \<Longrightarrow>
    tn_cancelled t' \<and> length (tn_spoken t') + length (in_mouth t') \<le> length (tn_spoken t) + length (in_mouth t)"
  by (induction rule: reply_step.induct) (auto simp: in_mouth_def)

text \<open>A cancelled turn falls silent: at most the sentence that is being spoken is still finished,
  whatever the model has sent or still sends.\<close>

theorem cancelled_turn_falls_silent:
  assumes "reply_steps tags t as t'" and "tn_cancelled t"
  shows "length (tn_spoken t') \<le> length (tn_spoken t) + 1"
proof -
  have "tn_cancelled t' \<and> length (tn_spoken t') + length (in_mouth t') \<le> length (tn_spoken t) + length (in_mouth t)"
    using assms by (induction rule: reply_steps.induct) (auto dest!: cancelled_step)
  moreover have "length (in_mouth t) \<le> 1" by (cases "tn_speaker t") (auto simp: in_mouth_def)
  ultimately show ?thesis by simp
qed

section \<open>What the code does not mean to do\<close>

text \<open>When speech fails the speaking goroutine returns and reads no more sentences. A model that sends more
  than the channel holds then waits in its callback until something else cancels the turn.\<close>

definition stuck_turn :: turn_run where
  "stuck_turn = (start_turn [])\<lparr>tn_producer := Producing [On_sentence ''a.''], tn_queue := replicate 8 ''a.'',
     tn_speaker := Quiet, tn_failed := True\<rparr>"

lemma stuck_turn_waits: "reply_step tags stuck_turn a t' \<Longrightarrow> a = Cancel_turn"
  by (elim reply_stepE) (auto simp: stuck_turn_def start_turn_def sentence_buf_def)

lemma queue_fills:
  "n + length q \<le> sentence_buf \<Longrightarrow>
    reply_steps tags (t\<lparr>tn_producer := Producing (replicate n (On_sentence s) @ cs), tn_queue := q\<rparr>)
      (replicate n Sentence_in) (t\<lparr>tn_producer := Producing cs, tn_queue := q @ replicate n s\<rparr>)"
proof (induction n arbitrary: q)
  case (Suc n)
  let ?t = "t\<lparr>tn_producer := Producing (replicate n (On_sentence s) @ cs), tn_queue := q @ [s]\<rparr>"
  have "reply_step tags (t\<lparr>tn_producer := Producing (replicate (Suc n) (On_sentence s) @ cs), tn_queue := q\<rparr>) Sentence_in ?t"
    using reply_step.sentence [of "t\<lparr>tn_producer := Producing (replicate (Suc n) (On_sentence s) @ cs), tn_queue := q\<rparr>"
      s "replicate n (On_sentence s) @ cs" tags] Suc.prems by simp
  moreover have "reply_steps tags ?t (replicate n Sentence_in) (t\<lparr>tn_producer := Producing cs, tn_queue := (q @ [s]) @ replicate n s\<rparr>)"
    using Suc.IH [of "q @ [s]"] Suc.prems by simp
  ultimately show ?case by (auto intro: reply_steps.some simp: replicate_app_Cons_same)
qed (simp add: reply_steps.none)

text \<open>A failed voice can hang its turn: with ten sentences to say and the first one failing, the turn
  reaches a state in which neither goroutine ever moves again and only a cancellation from outside
  helps.\<close>

theorem failed_voice_can_hang_the_turn:
  "\<exists>as. reply_steps tags (start_turn (replicate 10 (On_sentence ''a.''))) as stuck_turn \<and> Cancel_turn \<notin> set as \<and>
    (\<forall>a t'. reply_step tags stuck_turn a t' \<longrightarrow> a = Cancel_turn)"
proof -
  let ?c = "On_sentence ''a.''"
  let ?t0 = "start_turn (replicate 10 ?c)"
  let ?t1 = "?t0\<lparr>tn_producer := Producing (replicate 9 ?c), tn_queue := [''a.'']\<rparr>"
  let ?t2 = "?t1\<lparr>tn_queue := [], tn_speaker := Speaking ''a.''\<rparr>"
  let ?t3 = "?t2\<lparr>tn_speaker := Quiet, tn_failed := True\<rparr>"
  have "reply_step tags ?t0 Sentence_in ?t1"
    using reply_step.sentence [of ?t0 "''a.''" "replicate 9 ?c" tags]
    by (simp add: start_turn_def sentence_buf_def numeral_eq_Suc)
  moreover have "reply_step tags ?t1 Take_sentence ?t2"
    using reply_step.take [of ?t1 "''a.''" "[]" tags] by (simp add: start_turn_def)
  moreover have "reply_step tags ?t2 Speech_fails ?t3"
    using reply_step.silent [of ?t2 "''a.''" tags] by (simp add: start_turn_def)
  moreover have "reply_steps tags ?t3 (replicate 8 Sentence_in) stuck_turn"
    using queue_fills [where t = ?t3 and n = 8 and q = "[]" and s = "''a.''" and cs = "[?c]" and tags = tags]
    by (simp add: start_turn_def stuck_turn_def sentence_buf_def replicate_append_same numeral_eq_Suc)
  ultimately have "reply_steps tags ?t0 (Sentence_in # Take_sentence # Speech_fails # replicate 8 Sentence_in) stuck_turn"
    by (blast intro: reply_steps.some)
  moreover have "Cancel_turn \<notin> set (Sentence_in # Take_sentence # Speech_fails # replicate 8 Sentence_in)" by simp
  ultimately show ?thesis using stuck_turn_waits by blast
qed

text \<open>Tags are stripped from what has been accumulated so far: a bracket anywhere in the answer makes
  each later chunk lose the space before it.\<close>

lemma bracket_glues_words:
  "agent_text [''warm''] [''See [1] '', ''and go.''] = ''See [1]and go.''"
  "agent_text [''warm''] [''See (1) '', ''and go.''] = ''See (1) and go.''"
  by code_simp+

section \<open>Witnesses\<close>

lemma two_sentences_run:
  "\<exists>as t. reply_steps [''warm''] (start_turn [On_chunk ''Hi.'', On_sentence ''Hi.'']) as t \<and> tn_settled t \<and>
    \<not> tn_cancelled t \<and> \<not> tn_failed t \<and> tn_producer t = Returned True"
proof -
  let ?cs = "[On_chunk ''Hi.'', On_sentence ''Hi.'']"
  let ?t1 = "(start_turn ?cs)\<lparr>tn_producer := Producing [On_sentence ''Hi.''], tn_text := remember_chunk [''warm''] [] ''Hi.'',
    tn_response := ''Hi.'', tn_messages := [''Hi.'']\<rparr>"
  let ?t2 = "?t1\<lparr>tn_producer := Producing [], tn_queue := [''Hi.'']\<rparr>"
  let ?t3 = "?t2\<lparr>tn_producer := Returned True, tn_closed := True\<rparr>"
  let ?t4 = "?t3\<lparr>tn_queue := [], tn_speaker := Speaking ''Hi.''\<rparr>"
  let ?t5 = "?t4\<lparr>tn_speaker := Listening, tn_spoken := [''Hi.'']\<rparr>"
  let ?t6 = "?t5\<lparr>tn_speaker := Quiet\<rparr>"
  let ?t7 = "?t6\<lparr>tn_settled := True\<rparr>"
  have "reply_step [''warm''] (start_turn ?cs) Chunk_in ?t1"
    using reply_step.chunk [of "start_turn ?cs" "''Hi.''" "[On_sentence ''Hi.'']" "[''warm'']"] by (simp add: start_turn_def)
  moreover have "reply_step [''warm''] ?t1 Sentence_in ?t2"
    using reply_step.sentence [of ?t1 "''Hi.''" "[]" "[''warm'']"] by (simp add: start_turn_def sentence_buf_def)
  moreover have "reply_step [''warm''] ?t2 Model_returns ?t3"
    using reply_step.returns [of ?t2 "[''warm'']"] by (simp add: start_turn_def)
  moreover have "reply_step [''warm''] ?t3 Take_sentence ?t4"
    using reply_step.take [of ?t3 "''Hi.''" "[]" "[''warm'']"] by (simp add: start_turn_def)
  moreover have "reply_step [''warm''] ?t4 Spoken ?t5"
    using reply_step.spoken [of ?t4 "''Hi.''" "[''warm'']"] by (simp add: start_turn_def)
  moreover have "reply_step [''warm''] ?t5 Speech_ends ?t6"
    using reply_step.ends [of ?t5 "[''warm'']"] by (simp add: start_turn_def)
  moreover have "reply_step [''warm''] ?t6 Settle ?t7"
    using reply_step.settle [of ?t6 True "[''warm'']"] by (simp add: start_turn_def)
  ultimately have "reply_steps [''warm''] (start_turn ?cs)
    [Chunk_in, Sentence_in, Model_returns, Take_sentence, Spoken, Speech_ends, Settle] ?t7"
    by (blast intro: reply_steps.intros)
  then show ?thesis by (intro exI [of _ ?t7] exI) (auto simp: start_turn_def)
qed

theorem settled_turn_said_everything_witness:
  "\<exists>t :: turn_run. tn_spoken t = [''Hi.''] \<and> tn_messages t = [''Hi.'']"
proof -
  obtain as t where "reply_steps [''warm''] (start_turn [On_chunk ''Hi.'', On_sentence ''Hi.'']) as t" "tn_settled t"
    "\<not> tn_cancelled t" "\<not> tn_failed t" "tn_producer t = Returned True"
    using two_sentences_run by blast
  from settled_turn_said_everything [OF this] show ?thesis by (intro exI [of _ t]) auto
qed

theorem turn_settles_witness:
  "\<exists>as t. reply_steps [''warm''] (start_turn [On_chunk ''Hi.'', On_sentence ''Hi.'']) as t \<and>
    length (filter (\<lambda>a. a \<noteq> Cancel_turn) as) \<le> 11"
proof -
  obtain as t where run: "reply_steps [''warm''] (start_turn [On_chunk ''Hi.'', On_sentence ''Hi.'']) as t"
    using two_sentences_run by blast
  from turn_settles [OF run] run show ?thesis by auto
qed

theorem cancelled_turn_falls_silent_witness:
  "length (tn_spoken (stuck_turn\<lparr>tn_cancelled := True, tn_producer := Producing []\<rparr>)) \<le> 1"
proof -
  let ?t = "stuck_turn\<lparr>tn_cancelled := True\<rparr>"
  have "reply_step [] ?t Sentence_lost (stuck_turn\<lparr>tn_cancelled := True, tn_producer := Producing []\<rparr>)"
    using reply_step.lost [of ?t "''a.''" "[]" "[]"] by (simp add: stuck_turn_def)
  then have "reply_steps [] ?t [Sentence_lost] (stuck_turn\<lparr>tn_cancelled := True, tn_producer := Producing []\<rparr>)"
    by (blast intro: reply_steps.intros)
  from cancelled_turn_falls_silent [OF this] show ?thesis by (simp add: stuck_turn_def start_turn_def)
qed

end
