(* ===== verification/Speech_Pacing.thy ===== *)
theory Speech_Pacing
  imports Speech_Output Response_Ownership "HOL-Library.Word"
begin

text \<open>
  When frames leave: the pacing of a talkspurt (\<open>streamTalkspurt\<close> in \<open>internal/pipeline/outbound.go\<close>),
  the wait for the outbound queue to empty (\<open>waitOutboundEmpty\<close> in \<open>agent.go\<close>) and the tones
  played while a tool runs and when it is done (\<open>thinking.go\<close>). Time is in nanoseconds; how
  long a receive, a sleep or a write really takes is an argument, as is what a poll sees. Samples of a tone
  are computed over the reals.
\<close>

section \<open>A talkspurt\<close>

definition frame_time :: duration where "frame_time = 20 * millisecond"
definition gap_limit :: duration where "gap_limit = 100 * millisecond"

text \<open>A frame with how long the sender waits for it, how much longer than asked it sleeps, and how long
  encoding and writing it takes.\<close>

record arrival =
  ar_frame :: pcm_frame
  ar_wait :: duration
  ar_late :: duration
  ar_took :: duration

text \<open>The frames sent, with the time each starts to be: \<open>t0\<close> is the talkspurt's start, \<open>idx\<close> the next frame's
  number. It ends when no frame comes for the limit, or with the context.\<close>

fun stream_frames :: "instant \<Rightarrow> nat \<Rightarrow> instant \<Rightarrow> arrival list \<Rightarrow> (instant \<times> pcm_frame) list" where
  "stream_frames t0 idx now [] = []"
| "stream_frames t0 idx now (a # as) =
     (if gap_limit \<le> ar_wait a then []
      else
        let wait = t0 + int idx * frame_time - now;
            got = now + ar_wait a;
            (t0, idx) = (if pf_new_talkspurt (ar_frame a) then (got, 0) else (t0, idx));
            due = (if 0 < wait then got + wait + ar_late a else got)
        in (due, ar_frame a) # stream_frames t0 (idx + 1) (due + ar_took a) as)"

definition stream_talkspurt :: "instant \<Rightarrow> pcm_frame \<Rightarrow> duration \<Rightarrow> arrival list \<Rightarrow> (instant \<times> pcm_frame) list" where
  "stream_talkspurt now frame took as = (now, frame) # stream_frames (now + took) 1 (now + took) as"

definition timely :: "arrival \<Rightarrow> bool" where
  "timely a \<longleftrightarrow> 0 \<le> ar_wait a \<and> 0 \<le> ar_late a \<and> 0 \<le> ar_took a"

lemma stream_frames_due:
  assumes "list_all timely as" and "list_all (\<lambda>a. \<not> pf_new_talkspurt (ar_frame a)) as" and "i < length (stream_frames t0 idx now as)"
  shows "t0 + int (idx + i) * frame_time \<le> fst (stream_frames t0 idx now as ! i)"
  using assms
proof (induction as arbitrary: idx now i)
  case (Cons a as)
  show ?case
  proof (cases i)
    case 0
    with Cons.prems show ?thesis by (auto simp: timely_def Let_def)
  next
    case (Suc k)
    with Cons.prems Cons.IH [of k "idx + 1"] show ?thesis
      by (auto simp: Let_def algebra_simps split: if_splits)
  qed
qed simp

lemma sorted_head: "(a :: int) \<le> b \<Longrightarrow> sorted (b # xs) \<Longrightarrow> sorted (a # xs)"
  by (auto intro: order_trans)

lemma stream_frames_sorted:
  assumes "list_all timely as"
  shows "sorted (now # map fst (stream_frames t0 idx now as))"
  using assms
proof (induction as arbitrary: t0 idx now)
  case (Cons a as)
  obtain t1 i1 where s: "(if pf_new_talkspurt (ar_frame a) then (now + ar_wait a, 0) else (t0, idx)) = (t1, i1)" by fastforce
  let ?wait = "t0 + int idx * frame_time - now"
  let ?due = "if 0 < ?wait then now + ar_wait a + ?wait + ar_late a else now + ar_wait a"
  let ?rest = "map fst (stream_frames t1 (i1 + 1) (?due + ar_took a) as)"
  have le: "now \<le> ?due" "?due \<le> ?due + ar_took a" using Cons.prems by (auto simp: timely_def)
  have "sorted ((?due + ar_took a) # ?rest)" using Cons by (intro Cons.IH) simp
  with le(2) have "sorted (?due # ?rest)" by (rule sorted_head)
  moreover from this le(1) have "\<forall>t \<in> set (?due # ?rest). now \<le> t" by (auto intro: order_trans)
  ultimately have "sorted (now # ?due # ?rest)" by (simp only: sorted_simps(2)) simp
  with s show ?case by (simp add: Let_def del: sorted_simps(2))
qed simp

text \<open>Speech leaves no faster than it plays: the k-th frame of a talkspurt never leaves before k times 20
  milliseconds from when its first frame was out, however late or early the frames come and however
  irregular the timers are, and no frame leaves before the one ahead of it.\<close>

theorem talkspurt_is_paced:
  assumes "list_all timely as" and "list_all (\<lambda>a. \<not> pf_new_talkspurt (ar_frame a)) as" and "0 \<le> took"
    and "k < length (stream_talkspurt now frame took as)"
  shows "now + int k * frame_time \<le> fst (stream_talkspurt now frame took as ! k) \<and>
    sorted (map fst (stream_talkspurt now frame took as))"
proof
  show "now + int k * frame_time \<le> fst (stream_talkspurt now frame took as ! k)"
  proof (cases k)
    case 0
    then show ?thesis by (simp add: stream_talkspurt_def)
  next
    case (Suc i)
    with assms stream_frames_due [of as i "now + took" 1 "now + took"] show ?thesis
      by (auto simp: stream_talkspurt_def)
  qed
  have "sorted ((now + took) # map fst (stream_frames (now + took) 1 (now + took) as))"
    using assms(1) by (rule stream_frames_sorted)
  then show "sorted (map fst (stream_talkspurt now frame took as))"
    using assms(3) by (auto simp: stream_talkspurt_def)
qed

section \<open>Waiting for the queue to empty\<close>

text \<open>What the n-th poll sees; timers fire on time, and when both are due at once either may win.\<close>

record poll =
  po_superseded :: bool
  po_empty :: bool
  po_sleep_wins :: bool

datatype wait_end = Superseded | Played_out | Gave_up

definition drain_timeout :: duration where "drain_timeout = 5000 * millisecond"
definition drain_grace :: duration where "drain_grace = 300 * millisecond"
definition poll_interval :: duration where "poll_interval = 20 * millisecond"

function wait_outbound_empty :: "(nat \<Rightarrow> poll) \<Rightarrow> nat \<Rightarrow> wait_end \<times> duration" where
  "wait_outbound_empty polls n =
     (let elapsed = int n * poll_interval in
      if po_superseded (polls n) then (Superseded, elapsed)
      else if po_empty (polls n) then (Played_out, elapsed + drain_grace)
      else if drain_timeout < elapsed + poll_interval \<or> drain_timeout = elapsed + poll_interval \<and> \<not> po_sleep_wins (polls n)
      then (Gave_up, max elapsed drain_timeout)
      else wait_outbound_empty polls (n + 1))"
  by pat_completeness auto

termination wait_outbound_empty
  by (relation "measure (\<lambda>(polls, n). 251 - n)") (auto simp: poll_interval_def drain_timeout_def)

declare wait_outbound_empty.simps [simp del]

text \<open>Waiting for speech to play out ends: after five seconds and the grace period at the latest, having
  polled 251 times at most, and it reports that all was played only when it saw the queue
  empty.\<close>

theorem waiting_for_playout_ends:
  "case wait_outbound_empty polls 0 of (e, d) \<Rightarrow>
     0 \<le> d \<and> d \<le> drain_timeout + drain_grace \<and>
     (e = Played_out \<longrightarrow> (\<exists>n \<le> 250. po_empty (polls n) \<and> d = int n * poll_interval + drain_grace)) \<and>
     (e = Superseded \<longrightarrow> (\<exists>n \<le> 250. po_superseded (polls n)))"
proof -
  have "case wait_outbound_empty polls n of (e, d) \<Rightarrow>
     0 \<le> d \<and> d \<le> drain_timeout + drain_grace \<and>
     (e = Played_out \<longrightarrow> (\<exists>n \<le> 250. po_empty (polls n) \<and> d = int n * poll_interval + drain_grace)) \<and>
     (e = Superseded \<longrightarrow> (\<exists>n \<le> 250. po_superseded (polls n)))" if "n \<le> 250" for n
    using that
  proof (induction polls n rule: wait_outbound_empty.induct)
    case (1 polls n)
    show ?case
    proof (cases "po_superseded (polls n) \<or> po_empty (polls n) \<or> drain_timeout < int n * poll_interval + poll_interval \<or>
        drain_timeout = int n * poll_interval + poll_interval \<and> \<not> po_sleep_wins (polls n)")
      case True
      with 1(2) show ?thesis
        by (subst wait_outbound_empty.simps) (auto simp: Let_def poll_interval_def drain_timeout_def drain_grace_def)
    next
      case False
      then have "n + 1 \<le> 250" by (auto simp: poll_interval_def drain_timeout_def)
      with False 1 show ?thesis by (subst wait_outbound_empty.simps) (auto simp: Let_def)
    qed
  qed
  then show ?thesis by simp
qed

section \<open>Tones\<close>

definition think_freq :: real where "think_freq = 330"
definition think_amplitude :: real where "think_amplitude = 3000"
definition think_pulse_samples :: nat where "think_pulse_samples = 16000 * 150 div 1000"
definition think_silence_samples :: nat where "think_silence_samples = 16000 * 1850 div 1000"
definition sent_tone_samples :: nat where "sent_tone_samples = 16000 * 100 div 1000"
definition sent_gap_samples :: nat where "sent_gap_samples = 16000 * 30 div 1000"

definition envelope :: "nat \<Rightarrow> nat \<Rightarrow> real" where
  "envelope n i =
     (let fade = n div 4 in
      if i < fade then real i / real fade else if n - fade < i then real (n - i) / real fade else 1)"

text \<open>Go converts a float to an integer towards zero.\<close>

definition toward_zero :: "real \<Rightarrow> int" where
  "toward_zero x = (if x < 0 then - \<lfloor>- x\<rfloor> else \<lfloor>x\<rfloor>)"

definition tone_value :: "real \<Rightarrow> real \<Rightarrow> nat \<Rightarrow> nat \<Rightarrow> real" where
  "tone_value freq amplitude n i = amplitude * envelope n i * sin (2 * pi * freq * (real i / 16000))"

definition write_tone :: "real \<Rightarrow> real \<Rightarrow> nat \<Rightarrow> pcm" where
  "write_tone freq amplitude n = map (\<lambda>i. word_of_int (toward_zero (tone_value freq amplitude n i))) [0..<n]"

definition thinking_pulse :: "pcm list" where
  "thinking_pulse = slice_to_frames (write_tone think_freq think_amplitude think_pulse_samples @ replicate think_silence_samples 0)"

definition sent_sound :: "pcm list" where
  "sent_sound = slice_to_frames (write_tone 523 3000 sent_tone_samples @ replicate sent_gap_samples 0 @ write_tone 659 3000 sent_tone_samples)"

text \<open>The goroutine that plays while a tool runs, and the queue it fills; the sender takes from it.\<close>

record tone_loop =
  tl_next :: nat
  tl_queue :: "pcm_frame list"
  tl_over :: bool

datatype tone_event = Push_tone | Tool_done | Frame_sent

fun tone_step :: "pcm list \<Rightarrow> tone_loop \<Rightarrow> tone_event \<Rightarrow> tone_loop option" where
  "tone_step pulse s Push_tone =
     (if tl_over s \<or> out_pcm_ch_size \<le> length (tl_queue s) then None
      else Some (s\<lparr>tl_next := tl_next s + 1,
        tl_queue := tl_queue s @ [\<lparr>pf_samples = pulse ! (tl_next s mod length pulse), pf_new_talkspurt = (tl_next s = 0)\<rparr>]\<rparr>))"
| "tone_step pulse s Tool_done = (if tl_over s then None else Some (s\<lparr>tl_over := True\<rparr>))"
| "tone_step pulse s Frame_sent = (if tl_queue s = [] then None else Some (s\<lparr>tl_queue := tl (tl_queue s)\<rparr>))"

fun tone_run :: "pcm list \<Rightarrow> tone_loop \<Rightarrow> tone_event list \<Rightarrow> tone_loop option" where
  "tone_run pulse s [] = Some s"
| "tone_run pulse s (e # es) = (case tone_step pulse s e of None \<Rightarrow> None | Some s' \<Rightarrow> tone_run pulse s' es)"

definition sent_frames :: "pcm_frame list" where
  "sent_frames = map (\<lambda>(i, f). \<lparr>pf_samples = f, pf_new_talkspurt = (i = 0)\<rparr>) (enumerate 0 sent_sound)"

lemma envelope_unit: "i < n \<Longrightarrow> 0 \<le> envelope n i \<and> envelope n i \<le> 1"
  by (auto simp: envelope_def Let_def field_simps)

lemma toward_zero_le: "\<bar>toward_zero x\<bar> \<le> \<lfloor>\<bar>x\<bar>\<rfloor>"
  by (auto simp: toward_zero_def abs_if)

lemma tone_value_le: "i < n \<Longrightarrow> 0 \<le> amplitude \<Longrightarrow> \<bar>tone_value freq amplitude n i\<bar> \<le> amplitude"
proof -
  assume "i < n" "0 \<le> amplitude"
  then have "\<bar>amplitude * envelope n i\<bar> \<le> amplitude" "\<bar>sin (2 * pi * freq * (real i / 16000))\<bar> \<le> 1"
    using envelope_unit [of i n] by (auto simp: abs_mult mult_left_le)
  then have "\<bar>amplitude * envelope n i\<bar> * \<bar>sin (2 * pi * freq * (real i / 16000))\<bar> \<le> amplitude * 1"
    using \<open>0 \<le> amplitude\<close> by (intro mult_mono) auto
  then show ?thesis by (simp add: tone_value_def abs_mult)
qed

lemma write_tone_bounded:
  assumes "w \<in> set (write_tone freq 3000 n)"
  shows "\<bar>sint w\<bar> \<le> 3000"
proof -
  from assms obtain i where i: "i < n" "w = word_of_int (toward_zero (tone_value freq 3000 n i))" by (auto simp: write_tone_def)
  let ?z = "toward_zero (tone_value freq 3000 n i)"
  have "\<lfloor>\<bar>tone_value freq 3000 n i\<bar>\<rfloor> \<le> 3000" using tone_value_le [OF i(1), of 3000 freq] by linarith
  with toward_zero_le [of "tone_value freq 3000 n i"] have z: "\<bar>?z\<bar> \<le> 3000" by linarith
  then have "sint (word_of_int ?z :: 16 word) = ?z"
    by (simp add: signed_of_int signed_take_bit_int_eq_self)
  with z i(2) show ?thesis by simp
qed

lemma slice_samples: "w \<in> set f \<Longrightarrow> f \<in> set (slice_to_frames samples) \<Longrightarrow> w \<in> set samples \<or> w = 0"
proof (induction samples rule: slice_to_frames.induct)
  case (1 samples)
  have "f \<in> set (if samples = [] then []
      else if frame_size \<le> length samples then take frame_size samples # slice_to_frames (drop frame_size samples)
      else [samples @ replicate (frame_size - length samples) 0])"
    using 1(3) by (simp only: slice_to_frames.simps [of samples])
  with 1(1,2) show ?case by (auto split: if_splits dest: in_set_takeD in_set_dropD)
qed

lemma slice_count: "length (slice_to_frames samples) = (length samples + (frame_size - 1)) div frame_size"
proof (induction samples rule: slice_to_frames.induct)
  case (1 samples)
  show ?case
  proof (cases "frame_size \<le> length samples")
    case True
    then have "samples \<noteq> []" by (auto simp: frame_size_def)
    with True 1 have "length (slice_to_frames samples) = Suc ((length samples - frame_size + (frame_size - 1)) div frame_size)"
      by (subst slice_to_frames.simps) simp
    also have "\<dots> = (length samples - frame_size + (frame_size - 1) + frame_size) div frame_size"
      by (simp add: frame_size_def)
    finally show ?thesis using True by (simp add: frame_size_def)
  next
    case False
    then have "samples = [] \<or> (length samples + (frame_size - 1)) div frame_size = 1"
      by (cases samples) (auto simp: frame_size_def intro!: div_nat_eqI)
    with False show ?thesis by (subst slice_to_frames.simps) (auto simp: frame_size_def)
  qed
qed

text \<open>The tones are within their volume and never overflow a sample, and a cycle of the thinking tone is
  exactly as many frames as the outbound queue holds.\<close>

theorem tones_do_not_clip:
  "(\<forall>f \<in> set thinking_pulse \<union> set sent_sound. \<forall>w \<in> set f. \<bar>sint w\<bar> \<le> 3000) \<and>
    length thinking_pulse = out_pcm_ch_size \<and> length sent_sound = 12"
proof -
  have "\<bar>sint w\<bar> \<le> 3000" if "f \<in> set thinking_pulse" "w \<in> set f" for f w
    using slice_samples [OF that(2) that(1) [unfolded thinking_pulse_def]] write_tone_bounded
    by (auto simp: think_amplitude_def)
  moreover have "\<bar>sint w\<bar> \<le> 3000" if "f \<in> set sent_sound" "w \<in> set f" for f w
    using slice_samples [OF that(2) that(1) [unfolded sent_sound_def]] write_tone_bounded by auto
  ultimately show ?thesis
    by (auto simp: thinking_pulse_def sent_sound_def slice_count write_tone_def frame_size_def out_pcm_ch_size_def
      think_pulse_samples_def think_silence_samples_def sent_tone_samples_def sent_gap_samples_def)
qed

lemma tone_run_append: "tone_run pulse s (as @ bs) = (case tone_run pulse s as of None \<Rightarrow> None | Some s' \<Rightarrow> tone_run pulse s' bs)"
  by (induction as arbitrary: s) (auto split: option.splits)

lemma tone_pushes:
  "length (tl_queue s) + n \<le> out_pcm_ch_size \<Longrightarrow> \<not> tl_over s \<Longrightarrow>
    \<exists>q. tone_run pulse s (replicate n Push_tone) = Some (s\<lparr>tl_next := tl_next s + n, tl_queue := tl_queue s @ q\<rparr>) \<and> length q = n"
proof (induction n arbitrary: s)
  case (Suc n)
  let ?f = "\<lparr>pf_samples = pulse ! (tl_next s mod length pulse), pf_new_talkspurt = (tl_next s = 0)\<rparr>"
  from Suc.IH [of "s\<lparr>tl_next := tl_next s + 1, tl_queue := tl_queue s @ [?f]\<rparr>"] Suc.prems show ?case
    by (auto intro: exI [of _ "?f # _"])
qed auto

text \<open>A tool's answer can wait two seconds behind its own thinking tone: the tone is produced as fast
  as the queue takes it, and when the tool is done a full queue of it is still to be played.\<close>

theorem thinking_tone_can_delay_the_answer:
  "\<exists>es s. tone_run thinking_pulse \<lparr>tl_next = 0, tl_queue = [], tl_over = False\<rparr> es = Some s \<and> tl_over s \<and>
     int (length (tl_queue s)) * frame_time = 2000 * millisecond"
proof -
  let ?s = "\<lparr>tl_next = 0, tl_queue = [], tl_over = False\<rparr>"
  obtain q where q: "tone_run thinking_pulse ?s (replicate 100 Push_tone) = Some (?s\<lparr>tl_next := 100, tl_queue := q\<rparr>)" "length q = 100"
    using tone_pushes [of ?s 100 thinking_pulse] by (auto simp: out_pcm_ch_size_def)
  then have "tone_run thinking_pulse ?s (replicate 100 Push_tone @ [Tool_done]) = Some (?s\<lparr>tl_next := 100, tl_queue := q, tl_over := True\<rparr>)"
    by (simp add: tone_run_append)
  with q(2) show ?thesis
    by (intro exI [of _ "replicate 100 Push_tone @ [Tool_done]"] exI [of _ "?s\<lparr>tl_next := 100, tl_queue := q, tl_over := True\<rparr>"])
      (simp add: frame_time_def)
qed

section \<open>Witnesses\<close>

theorem talkspurt_is_paced_witness:
  "1040000000 \<le> fst (stream_talkspurt 1000000000 \<lparr>pf_samples = [], pf_new_talkspurt = True\<rparr> 1000
    [\<lparr>ar_frame = \<lparr>pf_samples = [], pf_new_talkspurt = False\<rparr>, ar_wait = 0, ar_late = 5, ar_took = 1000\<rparr>,
     \<lparr>ar_frame = \<lparr>pf_samples = [], pf_new_talkspurt = False\<rparr>, ar_wait = 7, ar_late = 0, ar_took = 1000\<rparr>] ! 2)"
  using talkspurt_is_paced [of "[\<lparr>ar_frame = \<lparr>pf_samples = [], pf_new_talkspurt = False\<rparr>, ar_wait = 0, ar_late = 5, ar_took = 1000\<rparr>,
     \<lparr>ar_frame = \<lparr>pf_samples = [], pf_new_talkspurt = False\<rparr>, ar_wait = 7, ar_late = 0, ar_took = 1000\<rparr>]" 1000 2 1000000000
     "\<lparr>pf_samples = [], pf_new_talkspurt = True\<rparr>"]
  by (simp add: timely_def stream_talkspurt_def Let_def gap_limit_def frame_time_def)

end
