(* ===== verification/Image_Capture.thy ===== *)
theory Image_Capture
  imports Plugin_Host
begin

text \<open>
  Pictures from the client: the receiver of image messages (\<open>internal/pipeline/vision.go\<close>), the
  capture of a camera frame (\<open>toolgate.go\<close>) and the merging of what was captured into a tool's
  arguments (\<open>internal/plugin/tool.go\<close>).

  The result channel holds one result. A retry is given by whether the request was sent and by
  the messages handled before the waiter woke up.
\<close>

section \<open>Messages\<close>

datatype image_message =
    Image_start str int str
  | Image_chunk str int str
  | Image_end str
  | Bad_image
  | Not_image

text \<open>\<open>sniffed\<close> says that the text contains the prefix of an image message.\<close>

definition parse_image_message :: "bool \<Rightarrow> raw \<Rightarrow> image_message" where
  "parse_image_message sniffed m =
     (let ty = (case m of Json (JObj kvs) \<Rightarrow> as_string (struct_field ''type'' m) | Json JNull \<Rightarrow> Some [] | _ \<Rightarrow> None);
          name = as_string (struct_field ''id'' m) in
      if \<not> sniffed then Not_image
      else if ty = Some ''image_start'' then
        (case (name, as_int (struct_field ''total_size'' m), as_string (struct_field ''mime'' m)) of
           (Some i, Some n, Some mime) \<Rightarrow> Image_start i n mime | _ \<Rightarrow> Bad_image)
      else if ty = Some ''image_chunk'' then
        (case (name, as_int (struct_field ''index'' m), as_string (struct_field ''data'' m)) of
           (Some i, Some k, Some d) \<Rightarrow> Image_chunk i k d | _ \<Rightarrow> Bad_image)
      else if ty = Some ''image_end'' then
        (case name of Some i \<Rightarrow> Image_end i | None \<Rightarrow> Bad_image)
      else Not_image)"

section \<open>The receiver\<close>

record image_assembly =
  as_mime :: str
  as_total :: int
  as_chunks :: "(int \<times> str) list"

datatype image_result = Image str str | Missing_chunk int str

record image_receiver =
  ir_pending :: "str \<Rightarrow> image_assembly option"
  ir_result :: "image_result option"

definition new_image_receiver :: image_receiver where
  "new_image_receiver = \<lparr>ir_pending = (\<lambda>_. None), ir_result = None\<rparr>"

definition deliver :: "image_result \<Rightarrow> image_receiver \<Rightarrow> image_receiver" where
  "deliver res r = r\<lparr>ir_result := Some res\<rparr>"

text \<open>The loop over the indices from \<open>i\<close>: the first index without a chunk, or all data.\<close>

fun join_chunks :: "(int \<times> str) list \<Rightarrow> int \<Rightarrow> nat \<Rightarrow> int + str" where
  "join_chunks cs i 0 = Inr []"
| "join_chunks cs i (Suc n) =
     (case map_of cs i of
        None \<Rightarrow> Inl i
      | Some chunk \<Rightarrow> (case join_chunks cs (i + 1) n of Inl k \<Rightarrow> Inl k | Inr rest \<Rightarrow> Inr (chunk @ rest)))"

definition handle_message :: "image_message \<Rightarrow> image_receiver \<Rightarrow> image_receiver \<times> bool" where
  "handle_message m r =
     (case m of
        Image_start i n mime \<Rightarrow>
          (r\<lparr>ir_pending := (ir_pending r)(i \<mapsto> \<lparr>as_mime = mime, as_total = n, as_chunks = []\<rparr>)\<rparr>, True)
      | Image_chunk i k d \<Rightarrow>
          (case ir_pending r i of
             None \<Rightarrow> (r, True)
           | Some asm \<Rightarrow>
               (r\<lparr>ir_pending := (ir_pending r)(i \<mapsto> asm\<lparr>as_chunks := AList.update k d (as_chunks asm)\<rparr>)\<rparr>, True))
      | Image_end i \<Rightarrow>
          (let r' = r\<lparr>ir_pending := (ir_pending r)(i := None)\<rparr> in
           case ir_pending r i of
             None \<Rightarrow> (r', True)
           | Some asm \<Rightarrow>
               (case join_chunks (as_chunks asm) 0 (length (as_chunks asm)) of
                  Inl k \<Rightarrow> (deliver (Missing_chunk k i) r', True)
                | Inr pic \<Rightarrow> (deliver (Image pic (as_mime asm)) r', True)))
      | Bad_image \<Rightarrow> (r, True)
      | Not_image \<Rightarrow> (r, False))"

definition handle_all :: "image_message list \<Rightarrow> image_receiver \<Rightarrow> image_receiver" where
  "handle_all ms r = fold (\<lambda>m r. fst (handle_message m r)) ms r"

section \<open>Asking the client\<close>

definition max_retries :: nat where
  "max_retries = 3"

datatype capture_error = Not_requested | No_response | Incomplete int str

fun request_rounds :: "(bool \<times> image_message list) list \<Rightarrow> image_receiver \<Rightarrow> image_receiver \<times> (capture_error + str \<times> str)" where
  "request_rounds [] r = (r\<lparr>ir_pending := (\<lambda>_. None)\<rparr>, Inl No_response)"
| "request_rounds ((sent, ms) # rest) r =
     (if \<not> sent then (r, Inl Not_requested)
      else
        let r = handle_all ms r in
        case ir_result r of
          None \<Rightarrow> request_rounds rest r
        | Some (Image pic mime) \<Rightarrow> (r\<lparr>ir_result := None\<rparr>, Inr (pic, mime))
        | Some (Missing_chunk k i) \<Rightarrow> (r\<lparr>ir_result := None\<rparr>, Inl (Incomplete k i)))"

definition request_and_wait :: "(nat \<Rightarrow> bool \<times> image_message list) \<Rightarrow> image_receiver \<Rightarrow>
    image_receiver \<times> (capture_error + str \<times> str)" where
  "request_and_wait env r = request_rounds (map env [0..<max_retries]) (r\<lparr>ir_result := None\<rparr>)"

definition capture_camera_frame :: "(nat \<Rightarrow> bool \<times> image_message list) \<Rightarrow> image_receiver \<Rightarrow>
    image_receiver \<times> (capture_error + json)" where
  "capture_camera_frame env r =
     (case request_and_wait env r of
        (r', Inl e) \<Rightarrow> (r', Inl e)
      | (r', Inr (pic, mime)) \<Rightarrow>
          (r', Inr (JObj ((''image_base64'', JStr pic) # (if mime = [] then [] else [(''image_mime'', JStr mime)])))))"

text \<open>A tool's requirements are captured in turn and merged into its arguments. \<open>supply\<close> asks the
  client, \<open>None\<close> where the server cannot; arguments that are \<open>null\<close> give a nil map.\<close>

fun merge_captures :: "(str \<Rightarrow> raw option) \<Rightarrow> str list \<Rightarrow> json fields option \<Rightarrow> json fields option outcome" where
  "merge_captures supply [] args = Done args"
| "merge_captures supply (c # cs) args =
     (case supply c of
        None \<Rightarrow> Fail ''Could not get''
      | Some captured \<Rightarrow>
          (case unmarshal_fields captured of
             None \<Rightarrow> Fail ''Could not read''
           | Some extra \<Rightarrow>
               if extra = [] then merge_captures supply cs args
               else case args of
                 None \<Rightarrow> Panic
               | Some m \<Rightarrow> merge_captures supply cs (Some (fold (\<lambda>kv m. AList.update (fst kv) (snd kv) m) extra m))))"

definition capture_requirements :: "(str \<Rightarrow> raw option) option \<Rightarrow> str list \<Rightarrow> raw \<Rightarrow> raw outcome" where
  "capture_requirements supply requires params =
     (if requires = [] then Done params
      else case supply of
        None \<Rightarrow> Fail ''this server cannot supply''
      | Some f \<Rightarrow>
          let args = (case params of
              Json JNull \<Rightarrow> None
            | Json (JObj kvs) \<Rightarrow> Some (decode_map kvs)
            | _ \<Rightarrow> Some []) in
          (case merge_captures f requires args of
             Panic \<Rightarrow> Panic
           | Fail e \<Rightarrow> Fail e
           | Done None \<Rightarrow> Done (Json JNull)
           | Done (Some m) \<Rightarrow> Done (Json (marshal_map m))))"

section \<open>Chunks in any order\<close>

fun for_image :: "str \<Rightarrow> image_message \<Rightarrow> bool" where
  "for_image i (Image_start j n mime) \<longleftrightarrow> j = i"
| "for_image i (Image_chunk j k d) \<longleftrightarrow> j = i"
| "for_image i (Image_end j) \<longleftrightarrow> j = i"
| "for_image i _ \<longleftrightarrow> False"

lemma other_image: "\<not> for_image i m \<Longrightarrow> ir_pending (fst (handle_message m r)) i = ir_pending r i"
  by (cases m) (auto simp: handle_message_def deliver_def Let_def split: option.split sum.split)

text \<open>What the receiver holds of an image is the last data of each index received.\<close>

fun received :: "str \<Rightarrow> image_message list \<Rightarrow> (int \<times> str) list" where
  "received i [] = []"
| "received i (Image_chunk j k d # ms) = (if j = i then (k, d) # received i ms else received i ms)"
| "received i (m # ms) = received i ms"

lemma handle_chunks:
  assumes "ir_pending r i = Some asm" and "\<forall>m \<in> set ms. for_image i m \<longrightarrow> (\<exists>k d. m = Image_chunk i k d)"
  shows "ir_pending (handle_all ms r) i =
    Some (asm\<lparr>as_chunks := fold (\<lambda>kv cs. AList.update (fst kv) (snd kv) cs) (received i ms) (as_chunks asm)\<rparr>)"
  using assms
proof (induction ms arbitrary: r asm)
  case (Cons m ms)
  show ?case
  proof (cases "for_image i m")
    case True
    with Cons.prems obtain k d where m: "m = Image_chunk i k d" by auto
    have "ir_pending (fst (handle_message m r)) i = Some (asm\<lparr>as_chunks := AList.update k d (as_chunks asm)\<rparr>)"
      using Cons.prems(1) by (simp add: m handle_message_def)
    from Cons.IH [OF this] Cons.prems(2) show ?thesis by (simp add: handle_all_def m)
  next
    case False
    with Cons.prems(1) have "ir_pending (fst (handle_message m r)) i = Some asm" by (simp add: other_image)
    moreover from False have "received i (m # ms) = received i ms" by (cases m) auto
    ultimately show ?thesis using Cons.IH Cons.prems(2) by (simp add: handle_all_def)
  qed
qed (simp add: handle_all_def)

lemma join_all:
  "(\<forall>k. i \<le> k \<and> k < i + int n \<longrightarrow> map_of cs k = Some (f k)) \<Longrightarrow>
   join_chunks cs i n = Inr (concat (map (\<lambda>k. f (i + int k)) [0..<n]))"
proof (induction n arbitrary: i)
  case (Suc n)
  have "join_chunks cs (i + 1) n = Inr (concat (map (\<lambda>k. f (i + 1 + int k)) [0..<n]))"
    by (rule Suc.IH) (use Suc.prems in auto)
  moreover have "map_of cs i = Some (f i)" using Suc.prems by simp
  moreover have "map (\<lambda>k. f (i + int k)) [0..<Suc n] = f i # map (\<lambda>k. f (i + 1 + int k)) [0..<n]"
    by (simp only: upt_conv_Cons map_Suc_upt [symmetric]) (simp add: comp_def add.assoc)
  ultimately show ?case by simp
qed simp

lemma map_of_fold_update:
  "map_of (fold (\<lambda>kv m. AList.update (fst kv) (snd kv) m) kvs m) = map_of m ++ map_of (rev kvs)"
  by (induction kvs arbitrary: m) (auto simp: update_conv map_add_def fun_eq_iff split: option.split)

lemma distinct_fold_update:
  "distinct (map fst m) \<Longrightarrow> distinct (map fst (fold (\<lambda>kv m. AList.update (fst kv) (snd kv) m) kvs m))"
  by (induction kvs arbitrary: m) (auto simp: distinct_update)

lemma received_iff: "(k, d) \<in> set (received i ms) \<longleftrightarrow> Image_chunk i k d \<in> set ms"
  by (induction i ms rule: received.induct) auto

lemma map_of_only: "(\<forall>(k, d) \<in> set kvs. d = f k) \<Longrightarrow> k \<in> fst ` set kvs \<Longrightarrow> map_of kvs k = Some (f k)"
  by (induction kvs) auto

lemma end_of_image:
  "ir_pending r i = Some asm \<Longrightarrow> join_chunks (as_chunks asm) 0 (length (as_chunks asm)) = Inr pic \<Longrightarrow>
   ir_result (fst (handle_message (Image_end i) r)) = Some (Image pic (as_mime asm))"
  by (simp add: handle_message_def Let_def deliver_def)

text \<open>C37: A picture cut into chunks comes out whole, with the type it was announced with, in whatever
  order its chunks arrive, however often one is repeated, and whatever messages of other
  pictures arrive in between.\<close>

theorem image_survives_any_order:
  assumes "\<forall>m \<in> set ms. for_image i m \<longrightarrow> (\<exists>k < length cs. m = Image_chunk i (int k) (cs ! k))"
    and "\<forall>k < length cs. Image_chunk i (int k) (cs ! k) \<in> set ms"
  shows "ir_result (handle_all (Image_start i n mime # ms @ [Image_end i]) r) = Some (Image (concat cs) mime)"
proof -
  let ?asm = "\<lparr>as_mime = mime, as_total = n, as_chunks = []\<rparr>"
  let ?r = "handle_all ms (fst (handle_message (Image_start i n mime) r))"
  let ?kvs = "received i ms"
  let ?map = "fold (\<lambda>kv m. AList.update (fst kv) (snd kv) m) ?kvs []"
  have "\<forall>m \<in> set ms. for_image i m \<longrightarrow> (\<exists>k d. m = Image_chunk i k d)" using assms(1) by blast
  from handle_chunks [OF _ this, of _ ?asm]
  have p: "ir_pending ?r i = Some (?asm\<lparr>as_chunks := ?map\<rparr>)"
    by (simp add: handle_message_def)
  have dom: "fst ` set ?kvs = int ` {..<length cs}"
  proof
    show "fst ` set ?kvs \<subseteq> int ` {..<length cs}" using assms(1) by (fastforce simp: received_iff)
    have "int k \<in> fst ` set ?kvs" if "k < length cs" for k
      using assms(2) that received_iff [of "int k" "cs ! k" i ms] by (metis fst_conv imageI)
    then show "int ` {..<length cs} \<subseteq> fst ` set ?kvs" by blast
  qed
  have vals: "\<forall>(k, d) \<in> set (rev ?kvs). d = cs ! nat k" using assms(1) by (fastforce simp: received_iff)
  have get: "map_of ?map k = Some (cs ! nat k)" if "0 \<le> k" "k < int (length cs)" for k
  proof -
    have "map_of (rev ?kvs) k = Some (cs ! nat k)"
    proof (rule map_of_only [OF vals])
      from that have "k = int (nat k)" "nat k < length cs" by auto
      with dom show "k \<in> fst ` set (rev ?kvs)" by (metis imageI lessThan_iff set_rev)
    qed
    then show ?thesis by (simp add: map_of_fold_update)
  qed
  have "dom (map_of ?map) = dom (map_of (rev ?kvs))" by (simp add: map_of_fold_update)
  then have "fst ` set ?map = fst ` set ?kvs" by (simp only: dom_map_of_conv_image_fst set_rev)
  then have len: "length ?map = length cs"
    using distinct_card [OF distinct_fold_update [of "[]" ?kvs]] dom by (simp add: card_image)
  have "join_chunks ?map 0 (length cs) = Inr (concat (map (\<lambda>k. cs ! nat (0 + int k)) [0..<length cs]))"
    by (rule join_all) (use get in auto)
  then have "join_chunks ?map 0 (length cs) = Inr (concat cs)" by (simp add: map_nth)
  then have "ir_result (fst (handle_message (Image_end i) ?r)) = Some (Image (concat cs) mime)"
    using end_of_image [OF p] len by simp
  then show ?thesis by (simp add: handle_all_def)
qed

text \<open>The announced size is not checked: a picture that lost its last chunk is taken for whole, and one
  of which nothing arrived is an empty picture.\<close>

lemma lost_tail_is_accepted:
  "ir_result (handle_all [Image_start ''p'' 6 [], Image_chunk ''p'' 0 ''abc'', Image_end ''p''] new_image_receiver) =
     Some (Image ''abc'' [])"
  "ir_result (handle_all [Image_start ''p'' 6 [], Image_end ''p''] new_image_receiver) = Some (Image [] [])"
  by code_simp+

section \<open>What the tool receives\<close>

lemma merge_captures_fields:
  assumes "merge_captures supply cs (Some m) = Done res" and "distinct (map fst m)"
  shows "\<exists>m'. res = Some m' \<and> distinct (map fst m') \<and>
    (\<forall>k. (\<forall>c \<in> set cs. \<forall>r f. supply c = Some r \<longrightarrow> unmarshal_fields r = Some f \<longrightarrow> map_of (rev f) k = None) \<longrightarrow> map_of m' k = map_of m k) \<and>
    (\<forall>c r f. cs \<noteq> [] \<longrightarrow> last cs = c \<longrightarrow> supply c = Some r \<longrightarrow> unmarshal_fields r = Some f \<longrightarrow>
       (\<forall>k v. map_of (rev f) k = Some v \<longrightarrow> map_of m' k = Some v))"
  using assms
proof (induction cs arbitrary: m)
  case (Cons c cs)
  then obtain r f where c: "supply c = Some r" "unmarshal_fields r = Some f"
    by (auto split: option.splits)
  let ?m = "fold (\<lambda>kv m. AList.update (fst kv) (snd kv) m) f m"
  have "merge_captures supply cs (Some ?m) = Done res"
    using Cons.prems(1) c by (auto split: if_splits)
  from Cons.IH [OF this distinct_fold_update [OF Cons.prems(2)]] c show ?case
    by (cases "cs = []") (auto simp: map_of_fold_update map_add_def split: option.split)
qed auto

lemma null_arguments_and_capture_panic:
  "capture_requirements (Some (\<lambda>c. Some (Json (JObj [(''image_base64'', JStr ''abc'')])))) [''camera_frame''] (Json JNull) = Panic"
  by code_simp

section \<open>Witness\<close>

theorem image_survives_any_order_witness:
  "ir_result (handle_all (Image_start ''p'' 6 ''image/png'' #
     [Image_chunk ''p'' 1 ''def'', Image_start ''q'' 1 [], Image_chunk ''p'' 0 ''abc''] @ [Image_end ''p'']) new_image_receiver) =
   Some (Image ''abcdef'' ''image/png'')"
  using image_survives_any_order [where i = "''p''" and cs = "[''abc'', ''def'']" and n = 6 and mime = "''image/png''"
      and ms = "[Image_chunk ''p'' 1 ''def'', Image_start ''q'' 1 [], Image_chunk ''p'' 0 ''abc'']" and r = new_image_receiver]
  by (auto simp: less_Suc_eq)

end
