(* ===== verification/Knowledge_Base.thy ===== *)
theory Knowledge_Base
  imports Plugin_Host Go_Wire Configuration
begin

text \<open>
  Retrieval from a vector store (\<open>internal/rag\<close>): the embedding of a query, the two stores, what is
  checked of a store before the server starts with it, and a search. The services and the
  database are arguments: a service answers a request with a status and a body or not at all, the
  database answers the queries the code sends. Numbers are rationals; \<open>narrow\<close> is the rounding to
  \<open>float32\<close>, which can overflow; \<open>show_f\<close> prints a number and \<open>is_float\<close> accepts a printed one.
  An error is the data its message is made of.
\<close>

section \<open>The contract of a store\<close>

definition default_embedding_model :: str where
  "default_embedding_model = ''text-embedding-3-small''"

definition model_dimensions :: "(str \<times> int) list" where
  "model_dimensions = [(''text-embedding-3-small'', 1536), (''text-embedding-3-large'', 3072), (''text-embedding-ada-002'', 1536)]"

definition normalize_model :: "str \<Rightarrow> str" where
  "normalize_model model = (if model = [] then default_embedding_model else model)"

definition dimensions_for :: "str \<Rightarrow> int option" where
  "dimensions_for model = map_of model_dimensions (normalize_model model)"

datatype store_error =
    Dimension_mismatch str str int int
  | Model_mismatch str str str
  | No_model_column str
  | No_table str
  | No_embedding_column str
  | Inspect_failed str str

definition dimension_mismatch :: "str \<Rightarrow> str \<Rightarrow> int \<Rightarrow> int \<Rightarrow> store_error" where
  "dimension_mismatch table model want got = Dimension_mismatch table (normalize_model model) want got"

definition model_mismatch :: "str \<Rightarrow> str \<Rightarrow> str \<Rightarrow> store_error" where
  "model_mismatch table want got = Model_mismatch table (normalize_model want) (if got = [] then ''(null)'' else got)"

text \<open>The width of an embedding as PostgREST returns it: pgvector's text form, or an array.\<close>

definition json_number :: "json \<Rightarrow> bool" where
  "json_number j \<longleftrightarrow> (case j of JNum _ \<Rightarrow> True | JNull \<Rightarrow> True | _ \<Rightarrow> False)"

definition vector_width :: "(str \<Rightarrow> bool) \<Rightarrow> json option \<Rightarrow> int option" where
  "vector_width is_float v =
     (case v of
        Some (JStr s) \<Rightarrow>
          (let s = trim_suffix '']'' (trim_prefix ''['' (trim_space s)); parts = split_on (CHR '','') s
           in if s = [] then None
              else if list_all (\<lambda>p. is_float (trim_space p)) parts then Some (int (length parts)) else None)
      | Some (JArr js) \<Rightarrow> if js \<noteq> [] \<and> list_all json_number js then Some (int (length js)) else None
      | _ \<Rightarrow> None)"

section \<open>Embedding a query\<close>

record embedder =
  em_api_key :: str
  em_model :: str
  em_dims :: int

definition new_embedder :: "str \<Rightarrow> str \<Rightarrow> embedder" where
  "new_embedder key model =
     \<lparr>em_api_key = key, em_model = normalize_model model,
      em_dims = (case dimensions_for model of None \<Rightarrow> 0 | Some d \<Rightarrow> d)\<rparr>"

datatype service_answer = Unanswered str | Answered int str

datatype search_error =
    Embed_failed search_error
  | Transport str
  | Bad_status int str
  | Other_width int str str
  | Bad_json
  | No_data
  | Wrong_width str int int
  | Query_failed str

definition embedding_url :: str where
  "embedding_url = ''https://api.openai.com/v1/embeddings''"

definition embedding_request :: "embedder \<Rightarrow> str \<Rightarrow> json" where
  "embedding_request e query = JObj [(''model'', JStr (em_model e)), (''input'', JStr query)]"

definition decode_floats :: "(rat \<Rightarrow> rat option) \<Rightarrow> json list \<Rightarrow> rat list option" where
  "decode_floats narrow js = all_some (map (\<lambda>j. case j of JNum x \<Rightarrow> narrow x | JNull \<Rightarrow> Some 0 | _ \<Rightarrow> None) js)"

definition decode_embedding :: "(rat \<Rightarrow> rat option) \<Rightarrow> json \<Rightarrow> rat list option" where
  "decode_embedding narrow j =
     (if into_struct (Json j) then Option.bind (sub_list ''embedding'' (Json j)) (decode_floats narrow) else None)"

definition embed :: "(rat \<Rightarrow> rat option) \<Rightarrow> (str \<Rightarrow> raw) \<Rightarrow> (str \<Rightarrow> json \<Rightarrow> service_answer) \<Rightarrow> embedder \<Rightarrow> str \<Rightarrow> search_error + rat list" where
  "embed narrow json_of post e query =
     (case post embedding_url (embedding_request e query) of
        Unanswered err \<Rightarrow> Inl (Transport err)
      | Answered status body \<Rightarrow>
          if status \<noteq> 200 then Inl (Bad_status status body)
          else case (if into_struct (json_of body) then Option.bind (sub_list ''data'' (json_of body)) (\<lambda>ds. all_some (map (decode_embedding narrow) ds)) else None) of
            None \<Rightarrow> Inl Bad_json
          | Some [] \<Rightarrow> Inl No_data
          | Some (v # _) \<Rightarrow>
              if 0 < em_dims e \<and> int (length v) \<noteq> em_dims e then Inl (Wrong_width (em_model e) (int (length v)) (em_dims e))
              else Inr v)"

section \<open>PostgreSQL\<close>

definition format_vector :: "(rat \<Rightarrow> str) \<Rightarrow> rat list \<Rightarrow> str" where
  "format_vector show_f v = ''['' @ join '','' (map show_f v) @ '']''"

text \<open>
  A table: the type modifier of each column (-1 for a bare \<open>vector\<close>), and of each row the content,
  the width of its embedding and the model it names. \<open>pg_describe\<close> and \<open>pg_first_other\<close> are what the
  two queries of the check select.
\<close>

record vector_row =
  vr_content :: str
  vr_width :: int
  vr_model :: "str option"

record vector_table =
  vt_columns :: "(str \<times> int) list"
  vt_rows :: "vector_row list"

definition pg_describe :: "vector_table \<Rightarrow> (str \<times> int) list" where
  "pg_describe t = filter (\<lambda>c. fst c \<in> {''embedding'', ''embedding_model''}) (vt_columns t)"

definition pg_first_other :: "vector_table \<Rightarrow> str \<Rightarrow> str option option" where
  "pg_first_other t want = map_option vr_model (find (\<lambda>r. vr_model r \<noteq> Some want) (vt_rows t))"

definition verify_row_models :: "str \<Rightarrow> str \<Rightarrow> str + str option option \<Rightarrow> store_error option" where
  "verify_row_models table model found =
     (case found of
        Inl e \<Rightarrow> Some (Inspect_failed table e)
      | Inr None \<Rightarrow> None
      | Inr (Some got) \<Rightarrow> Some (model_mismatch table (normalize_model model) (case got of None \<Rightarrow> [] | Some m \<Rightarrow> m)))"

definition verify_store :: "str + (str \<times> int) list \<Rightarrow> (str \<Rightarrow> str + str option option) \<Rightarrow> str \<Rightarrow> str \<Rightarrow> store_error option" where
  "verify_store described first_other table model =
     (case described of
        Inl e \<Rightarrow> Some (Inspect_failed table e)
      | Inr cols \<Rightarrow>
          if cols = [] then Some (No_table table)
          else case map_of cols ''embedding'' of
            None \<Rightarrow> Some (No_embedding_column table)
          | Some typmod \<Rightarrow>
              (case dimensions_for model of
                 Some want \<Rightarrow> if 0 < typmod \<and> typmod \<noteq> want then Some (dimension_mismatch table model want typmod)
                   else if map_of cols ''embedding_model'' = None then Some (No_model_column table)
                   else verify_row_models table model (first_other (normalize_model model))
               | None \<Rightarrow> if map_of cols ''embedding_model'' = None then Some (No_model_column table)
                   else verify_row_models table model (first_other (normalize_model model))))"

section \<open>Supabase\<close>

definition path_escape :: "str \<Rightarrow> str" where
  "path_escape s =
     concat (map (\<lambda>c. if unreserved c \<or> c \<in> set ''$&+:=@'' then [c]
       else [CHR ''%'', hex_digit (of_char c div 16), hex_digit (of_char c mod 16)]) s)"

definition supabase_base :: "str \<Rightarrow> str \<Rightarrow> str" where
  "supabase_base url table = trim_suffix ''/'' url @ ''/rest/v1/'' @ path_escape table"

definition mismatch_query :: "str \<Rightarrow> str" where
  "mismatch_query want =
     ''?select=embedding,embedding_model&or=(embedding_model.neq.'' @ query_escape want @ '',embedding_model.is.null)&limit=1''"

definition sample_query :: str where
  "sample_query = ''?select=embedding,embedding_model&limit=1''"

record supabase_row =
  sr_embedding :: "json option"
  sr_model :: str

definition decode_row :: "json \<Rightarrow> supabase_row option" where
  "decode_row j =
     (case (if into_struct (Json j) then as_string (struct_field ''embedding_model'' (Json j)) else None) of
        None \<Rightarrow> None
      | Some m \<Rightarrow> Some \<lparr>sr_embedding = struct_field ''embedding'' (Json j), sr_model = m\<rparr>)"

definition supabase_select :: "(str \<Rightarrow> raw) \<Rightarrow> service_answer \<Rightarrow> str + supabase_row list" where
  "supabase_select json_of answer =
     (case answer of
        Unanswered e \<Rightarrow> Inl e
      | Answered status body \<Rightarrow>
          if status \<noteq> 200 then Inl (''returned '' @ itoa status @ '': '' @ trim_space (take 512 body))
          else case (case json_of body of Json (JArr js) \<Rightarrow> all_some (map decode_row js) | Json JNull \<Rightarrow> Some [] | _ \<Rightarrow> None) of
            None \<Rightarrow> Inl ''decode response''
          | Some rows \<Rightarrow> Inr rows)"

definition is_missing_column :: "str \<Rightarrow> bool" where
  "is_missing_column msg \<longleftrightarrow>
     contains_str msg ''42703'' \<or> contains_str msg ''embedding_model'' \<and> contains_str msg ''does not exist''"

definition verify_supabase :: "(str \<Rightarrow> bool) \<Rightarrow> (str \<Rightarrow> raw) \<Rightarrow> (str \<Rightarrow> service_answer) \<Rightarrow> str \<Rightarrow> str \<Rightarrow> str \<Rightarrow> store_error option" where
  "verify_supabase is_float json_of get url table model =
     (let base = supabase_base url table; want = normalize_model model in
      case supabase_select json_of (get (base @ mismatch_query want)) of
        Inl e \<Rightarrow> if is_missing_column e then Some (No_model_column table) else None
      | Inr (row # _) \<Rightarrow> Some (model_mismatch table want (sr_model row))
      | Inr [] \<Rightarrow>
          (case supabase_select json_of (get (base @ sample_query)) of
             Inl e \<Rightarrow> None
           | Inr [] \<Rightarrow> None
           | Inr (row # _) \<Rightarrow>
               (case (dimensions_for model, vector_width is_float (sr_embedding row)) of
                  (Some want_dims, Some got) \<Rightarrow> if got \<noteq> want_dims then Some (dimension_mismatch table model want_dims got) else None
                | _ \<Rightarrow> None)))"

section \<open>The client of a configuration\<close>

record pgvector_client =
  pg_embedder :: embedder
  pg_table :: str
  pg_top_k :: int

record supabase_client =
  sb_url :: str
  sb_api_key :: str
  sb_function :: str
  sb_embedder :: embedder
  sb_top_k :: int

datatype rag_client = Pgvector pgvector_client | Supabase supabase_client

datatype rag_refusal = Pg_connect str | Supabase_unset str | Store_refused store_error | Unknown_rag str

definition default_top_k :: "int \<Rightarrow> int" where
  "default_top_k k = (if k = 0 then 3 else k)"

definition rag_table :: "str \<Rightarrow> str" where
  "rag_table t = (if t = [] then ''documents'' else t)"

definition new_pgvector :: "(str \<Rightarrow> str option) \<Rightarrow> (str \<Rightarrow> str \<Rightarrow> store_error option) \<Rightarrow> config \<Rightarrow> rag_refusal + pgvector_client" where
  "new_pgvector connect verify c =
     (case connect (pgv_connection_string (cf_pgvector c)) of
        Some e \<Rightarrow> Inl (Pg_connect e)
      | None \<Rightarrow>
          let table = rag_table (pgv_table (cf_pgvector c)) in
          (case verify table (ragc_embedding_model (cf_rag c)) of
             Some e \<Rightarrow> Inl (Store_refused e)
           | None \<Rightarrow> Inr \<lparr>pg_embedder = new_embedder (oai_api_key (cf_openai c)) (ragc_embedding_model (cf_rag c)),
               pg_table = table, pg_top_k = default_top_k (ragc_top_k (cf_rag c))\<rparr>))"

definition new_supabase :: "(str \<Rightarrow> str \<Rightarrow> str \<Rightarrow> store_error option) \<Rightarrow> config \<Rightarrow> rag_refusal + supabase_client" where
  "new_supabase verify c =
     (let s = cf_supabase c in
      if spb_url s = [] then Inl (Supabase_unset ''url'')
      else if spb_api_key s = [] then Inl (Supabase_unset ''api_key'')
      else case verify (spb_url s) (rag_table (spb_table s)) (ragc_embedding_model (cf_rag c)) of
        Some e \<Rightarrow> Inl (Store_refused e)
      | None \<Rightarrow> Inr \<lparr>sb_url = spb_url s, sb_api_key = spb_api_key s,
          sb_function = (if spb_function s = [] then ''match_documents'' else spb_function s),
          sb_embedder = new_embedder (oai_api_key (cf_openai c)) (ragc_embedding_model (cf_rag c)),
          sb_top_k = default_top_k (ragc_top_k (cf_rag c))\<rparr>)"

definition new_rag_client ::
  "(str \<Rightarrow> str option) \<Rightarrow> (str \<Rightarrow> str \<Rightarrow> store_error option) \<Rightarrow> (str \<Rightarrow> str \<Rightarrow> str \<Rightarrow> store_error option) \<Rightarrow> config \<Rightarrow> rag_refusal + rag_client option" where
  "new_rag_client connect verify verify_sb c =
     (let p = ragc_provider (cf_rag c) in
      if p = ''pgvector'' then map_sum (\<lambda>e. e) (\<lambda>r. Some (Pgvector r)) (new_pgvector connect verify c)
      else if p = ''supabase'' then map_sum (\<lambda>e. e) (\<lambda>r. Some (Supabase r)) (new_supabase verify_sb c)
      else if p = [] \<or> p = ''none'' then Inr None
      else Inl (Unknown_rag p))"

section \<open>Searching\<close>

text \<open>\<open>nearest\<close> answers the SQL query with the contents, or an error on the way.\<close>

definition pg_query :: "pgvector_client \<Rightarrow> str" where
  "pg_query c = ''SELECT content FROM '' @ pg_table c @ '' ORDER BY embedding <=> $1::vector LIMIT $2''"

definition pg_search ::
  "(str \<Rightarrow> search_error + rat list) \<Rightarrow> (rat \<Rightarrow> str) \<Rightarrow> (str \<Rightarrow> str \<Rightarrow> int \<Rightarrow> str + str list) \<Rightarrow> pgvector_client \<Rightarrow> str \<Rightarrow> int \<Rightarrow> search_error + str list" where
  "pg_search emb show_f nearest c query top_k =
     (let k = (if top_k = 0 then pg_top_k c else top_k) in
      case emb query of
        Inl e \<Rightarrow> Inl (Embed_failed e)
      | Inr v \<Rightarrow> (case nearest (pg_query c) (format_vector show_f v) k of Inl e \<Rightarrow> Inl (Query_failed e) | Inr chunks \<Rightarrow> Inr chunks))"

definition rpc_url :: "supabase_client \<Rightarrow> str" where
  "rpc_url c = sb_url c @ ''/rest/v1/rpc/'' @ sb_function c"

definition match_request :: "rat list \<Rightarrow> int \<Rightarrow> json" where
  "match_request v k = JObj [(''query_embedding'', JArr (map JNum v)), (''match_count'', JNum (of_int k))]"

definition decode_match :: "json \<Rightarrow> str option" where
  "decode_match j =
     (if into_struct (Json j) \<and> as_number (struct_field ''similarity'' (Json j)) \<noteq> None
      then as_string (struct_field ''content'' (Json j)) else None)"

definition supabase_search ::
  "(str \<Rightarrow> search_error + rat list) \<Rightarrow> (str \<Rightarrow> raw) \<Rightarrow> (str \<Rightarrow> json \<Rightarrow> service_answer) \<Rightarrow> supabase_client \<Rightarrow> str \<Rightarrow> int \<Rightarrow> search_error + str list" where
  "supabase_search emb json_of post c query top_k =
     (let k = (if top_k = 0 then sb_top_k c else top_k) in
      case emb query of
        Inl e \<Rightarrow> Inl (Embed_failed e)
      | Inr v \<Rightarrow>
          (case post (rpc_url c) (match_request v k) of
             Unanswered e \<Rightarrow> Inl (Transport e)
           | Answered status body \<Rightarrow>
               if status \<noteq> 200 then
                 Inl (if contains_str body ''dimensions'' then Other_width status body (em_model (sb_embedder c)) else Bad_status status body)
               else case (case json_of body of Json (JArr js) \<Rightarrow> all_some (map decode_match js) | Json JNull \<Rightarrow> Some [] | _ \<Rightarrow> None) of
                 None \<Rightarrow> Inl Bad_json
               | Some chunks \<Rightarrow> Inr chunks))"

section \<open>What a checked store promises\<close>

text \<open>
  The client of a store searches with vectors of one model. A check of the store that finds
  nothing means that its rows are of that model and, where the width is known, of that width:
  the contract between the check at the start and every search after it. \<open>sound\<close> says that a
  store is what it shows to the check.
\<close>

locale checked_store =
  fixes verify :: "'s \<Rightarrow> str \<Rightarrow> store_error option"
    and rows :: "'s \<Rightarrow> vector_row list"
    and sound :: "'s \<Rightarrow> bool"
  assumes same_model: "sound s \<Longrightarrow> verify s model = None \<Longrightarrow> r \<in> set (rows s) \<Longrightarrow> vr_model r = Some (normalize_model model)"
    and same_width: "sound s \<Longrightarrow> verify s model = None \<Longrightarrow> dimensions_for model = Some d \<Longrightarrow> r \<in> set (rows s) \<Longrightarrow> vr_width r = d"
begin

lemma comparable:
  assumes "sound s" and "verify s model = None" and "r \<in> set (rows s)"
    and "embed narrow json_of post (new_embedder key model) query = Inr v"
  shows "vr_model r = Some (normalize_model model) \<and> (dimensions_for model = None \<or> vr_width r = int (length v))"
proof (cases "dimensions_for model")
  case None
  with same_model [OF assms(1-3)] show ?thesis by simp
next
  case (Some d)
  have "0 < d" using Some by (auto simp: dimensions_for_def model_dimensions_def split: if_splits)
  then have "int (length v) = d"
    using assms(4) Some by (auto simp: embed_def new_embedder_def split: service_answer.splits if_splits option.splits list.splits)
  with same_width [OF assms(1,2) Some assms(3)] same_model [OF assms(1-3)] show ?thesis by simp
qed

end

text \<open>A column of a fixed width holds only vectors of that width.\<close>

definition pg_sound :: "vector_table \<Rightarrow> bool" where
  "pg_sound t \<longleftrightarrow>
     (case map_of (vt_columns t) ''embedding'' of None \<Rightarrow> True | Some w \<Rightarrow> 0 < w \<and> list_all (\<lambda>r. vr_width r = w) (vt_rows t))"

definition pg_verify :: "str \<Rightarrow> vector_table \<Rightarrow> str \<Rightarrow> store_error option" where
  "pg_verify table t model = verify_store (Inr (pg_describe t)) (\<lambda>want. Inr (pg_first_other t want)) table model"

lemma map_of_filter_fst: "k \<in> S \<Longrightarrow> map_of (filter (\<lambda>c. fst c \<in> S) cs) k = map_of cs k"
  by (induction cs) auto

lemma map_of_pg_describe: "map_of (pg_describe t) ''embedding'' = map_of (vt_columns t) ''embedding''"
  unfolding pg_describe_def by (rule map_of_filter_fst) simp

lemma normalize_idem [simp]: "normalize_model (normalize_model m) = normalize_model m"
  by (simp add: normalize_model_def default_embedding_model_def)

interpretation pg: checked_store "pg_verify table" vt_rows pg_sound for table
proof unfold_locales
  fix t :: vector_table and model and r
  assume s: "pg_sound t" "pg_verify table t model = None" "r \<in> set (vt_rows t)"
  have "verify_row_models table model (Inr (pg_first_other t (normalize_model model))) = None"
    using s(2) by (auto simp: pg_verify_def verify_store_def split: option.splits if_splits)
  then have "find (\<lambda>r. vr_model r \<noteq> Some (normalize_model model)) (vt_rows t) = None"
    by (auto simp: verify_row_models_def pg_first_other_def split: option.splits)
  with s(3) show "vr_model r = Some (normalize_model model)" by (auto simp: find_None_iff)
next
  fix t :: vector_table and model d and r
  assume s: "pg_sound t" "pg_verify table t model = None" "dimensions_for model = Some d" "r \<in> set (vt_rows t)"
  obtain w where w: "map_of (vt_columns t) ''embedding'' = Some w" "\<not> (0 < w \<and> w \<noteq> d)"
    using s(2,3) by (auto simp: pg_verify_def verify_store_def map_of_pg_describe split: option.splits if_splits)
  with s(1,4) show "vr_width r = d" by (auto simp: pg_sound_def list_all_iff)
qed

text \<open>What PostgREST answers comes from the rows: one that disagrees when there is one, a sample when
  there are any; the rows have one width, as those of a typed column do.\<close>

definition serves_rows :: "(str \<Rightarrow> bool) \<Rightarrow> (str \<Rightarrow> raw) \<Rightarrow> str \<Rightarrow> str \<Rightarrow> (str \<Rightarrow> service_answer) \<times> vector_row list \<Rightarrow> bool" where
  "serves_rows is_float json_of url table s \<longleftrightarrow>
     (\<forall>want. \<exists>found. supabase_select json_of (fst s (supabase_base url table @ mismatch_query want)) = Inr found \<and>
        (found \<noteq> [] \<or> list_all (\<lambda>r. vr_model r = Some want) (snd s))) \<and>
     (\<exists>sample. supabase_select json_of (fst s (supabase_base url table @ sample_query)) = Inr sample \<and>
        (snd s = [] \<or> sample \<noteq> [] \<and> vector_width is_float (sr_embedding (hd sample)) = Some (vr_width (hd (snd s))))) \<and>
     list_all (\<lambda>r. vr_width r = vr_width (hd (snd s))) (snd s)"

definition supabase_verify :: "(str \<Rightarrow> bool) \<Rightarrow> (str \<Rightarrow> raw) \<Rightarrow> str \<Rightarrow> str \<Rightarrow> (str \<Rightarrow> service_answer) \<times> vector_row list \<Rightarrow> str \<Rightarrow> store_error option" where
  "supabase_verify is_float json_of url table s model = verify_supabase is_float json_of (fst s) url table model"

lemma supabase_verified:
  assumes "serves_rows is_float json_of url table s" and "supabase_verify is_float json_of url table s model = None"
  shows "supabase_select json_of (fst s (supabase_base url table @ mismatch_query (normalize_model model))) = Inr []"
proof -
  obtain found where "supabase_select json_of (fst s (supabase_base url table @ mismatch_query (normalize_model model))) = Inr found"
    using assms(1) unfolding serves_rows_def by blast
  with assms(2) show ?thesis by (cases found) (auto simp: supabase_verify_def verify_supabase_def Let_def)
qed

interpretation supabase: checked_store "supabase_verify is_float json_of url table" snd "serves_rows is_float json_of url table"
  for is_float json_of url table
proof unfold_locales
  fix s :: "(str \<Rightarrow> service_answer) \<times> vector_row list" and model and r
  assume s: "serves_rows is_float json_of url table s" "supabase_verify is_float json_of url table s model = None" "r \<in> set (snd s)"
  obtain found where "supabase_select json_of (fst s (supabase_base url table @ mismatch_query (normalize_model model))) = Inr found"
    "found \<noteq> [] \<or> list_all (\<lambda>r. vr_model r = Some (normalize_model model)) (snd s)"
    using s(1) unfolding serves_rows_def by blast
  with supabase_verified [OF s(1,2)] s(3) show "vr_model r = Some (normalize_model model)" by (auto simp: list_all_iff)
next
  fix s :: "(str \<Rightarrow> service_answer) \<times> vector_row list" and model d and r
  assume s: "serves_rows is_float json_of url table s" "supabase_verify is_float json_of url table s model = None"
    "dimensions_for model = Some d" "r \<in> set (snd s)"
  obtain sample where q: "supabase_select json_of (fst s (supabase_base url table @ sample_query)) = Inr sample" "sample \<noteq> []"
    "vector_width is_float (sr_embedding (hd sample)) = Some (vr_width (hd (snd s)))"
    using s(1,4) unfolding serves_rows_def by (metis empty_iff empty_set)
  then have "vr_width (hd (snd s)) = d"
    using s(2,3) supabase_verified [OF s(1,2)]
    by (cases sample) (auto simp: supabase_verify_def verify_supabase_def Let_def split: if_splits)
  moreover have "vr_width r = vr_width (hd (snd s))" using s(1,4) by (auto simp: serves_rows_def list_all_iff)
  ultimately show "vr_width r = d" by simp
qed

section \<open>Printed vectors\<close>

lemma split_aux_join:
  assumes "ps \<noteq> []" and "list_all (\<lambda>p. d \<notin> set p) ps"
  shows "split_aux d acc (join [d] ps) = (rev acc @ hd ps) # tl ps"
  using assms
proof (induction "[d]" ps arbitrary: acc rule: join.induct)
  case (3 p q ps)
  then show ?case by (simp add: split_aux_step)
qed (simp_all add: split_aux_end)

lemma dropWhile_id: "s = [] \<or> \<not> P (hd s) \<Longrightarrow> dropWhile P s = s"
  by (cases s) auto

lemma trim_space_word: "s \<noteq> [] \<Longrightarrow> \<not> is_space (hd s) \<Longrightarrow> \<not> is_space (last s) \<Longrightarrow> trim_space s = s"
  by (simp add: trim_space_def trim_def trim_right_def dropWhile_id hd_rev)

text \<open>A number is printed without white space and commas.\<close>

definition prints_well :: "(str \<Rightarrow> bool) \<Rightarrow> str \<Rightarrow> bool" where
  "prints_well is_float s \<longleftrightarrow> s \<noteq> [] \<and> CHR '','' \<notin> set s \<and> list_all (\<lambda>c. \<not> is_space c) s \<and> is_float s"

lemma format_vector_split:
  assumes "v \<noteq> []" and "list_all (\<lambda>x. prints_well is_float (show_f x)) v"
  shows "trim_suffix '']'' (trim_prefix ''['' (trim_space (format_vector show_f v))) = join '','' (map show_f v)"
proof -
  have "trim_space (format_vector show_f v) = format_vector show_f v"
    by (rule trim_space_word) (simp_all add: format_vector_def is_space_def)
  then show ?thesis by (simp add: format_vector_def trim_suffix_def has_suffix_def trim_prefix_def)
qed

section \<open>Properties\<close>

text \<open>A server that starts with a pgvector store searches it only with vectors its rows can be compared
  with: every row names the model the query is embedded with and, where the width is known, has
  the width of the query.\<close>

theorem pgvector_compares_like_with_like:
  assumes "new_pgvector connect (\<lambda>table. pg_verify table t) cfg = Inr c" and "pg_sound t"
    and "embed narrow json_of post (pg_embedder c) query = Inr v" and "r \<in> set (vt_rows t)"
  shows "vr_model r = Some (em_model (pg_embedder c)) \<and>
    (dimensions_for (em_model (pg_embedder c)) = None \<or> vr_width r = int (length v))"
proof -
  have c: "pg_verify (rag_table (pgv_table (cf_pgvector cfg))) t (ragc_embedding_model (cf_rag cfg)) = None"
    "pg_embedder c = new_embedder (oai_api_key (cf_openai cfg)) (ragc_embedding_model (cf_rag cfg))"
    using assms(1) by (auto simp: new_pgvector_def Let_def split: option.splits)
  from pg.comparable [OF assms(2) c(1) assms(4)] assms(3) show ?thesis
    unfolding c(2) by (auto simp: new_embedder_def dimensions_for_def)
qed

text \<open>The same holds for Supabase whenever it answers the two queries of the check from its rows.\<close>

theorem supabase_compares_like_with_like:
  assumes "new_supabase (verify_supabase is_float json_of get) cfg = Inr c"
    and "serves_rows is_float json_of (sb_url c) (rag_table (spb_table (cf_supabase cfg))) (get, rows)"
    and "embed narrow parse post (sb_embedder c) query = Inr v" and "r \<in> set rows"
  shows "vr_model r = Some (em_model (sb_embedder c)) \<and>
    (dimensions_for (em_model (sb_embedder c)) = None \<or> vr_width r = int (length v))"
proof -
  have c: "supabase_verify is_float json_of (sb_url c) (rag_table (spb_table (cf_supabase cfg))) (get, rows) (ragc_embedding_model (cf_rag cfg)) = None"
    "sb_embedder c = new_embedder (oai_api_key (cf_openai cfg)) (ragc_embedding_model (cf_rag cfg))"
    using assms(1) by (auto simp: new_supabase_def supabase_verify_def Let_def split: option.splits if_splits)
  from supabase.comparable [OF assms(2) c(1)] assms(3,4) show ?thesis
    unfolding c(2) by (auto simp: new_embedder_def dimensions_for_def)
qed

text \<open>The width read from a row's text form is the number of components the vector was printed with.\<close>

theorem printed_vector_keeps_its_width:
  assumes "v \<noteq> []" and "list_all (\<lambda>x. prints_well is_float (show_f x)) v"
  shows "vector_width is_float (Some (JStr (format_vector show_f v))) = Some (int (length v))"
proof -
  have p: "list_all (prints_well is_float) (map show_f v)" using assms(2) by (simp add: list_all_iff)
  have split: "split_on (CHR '','') (join '','' (map show_f v)) = map show_f v"
    using p assms(1) split_aux_join [of "map show_f v" "CHR '',''" "[]"]
    by (cases v) (simp_all add: split_on_def list_all_iff prints_well_def)
  have "join '','' (map show_f v) \<noteq> []"
    using assms by (cases "map show_f v" rule: list.exhaust; cases v; cases "tl v") (auto simp: prints_well_def)
  moreover have "list_all (\<lambda>p. is_float (trim_space p)) (map show_f v)"
  proof -
    have "trim_space p = p" if "prints_well is_float p" for p
      using that by (intro trim_space_word) (auto simp: prints_well_def list_all_iff)
    with p show ?thesis by (auto simp: list_all_iff prints_well_def)
  qed
  ultimately show ?thesis using format_vector_split [OF assms] split by (simp add: vector_width_def Let_def)
qed

section \<open>Witnesses\<close>

definition sample_table :: vector_table where
  "sample_table = \<lparr>vt_columns = [(''embedding'', 1536), (''embedding_model'', -1)],
     vt_rows = [\<lparr>vr_content = ''We close at 3pm.'', vr_width = 1536, vr_model = Some ''text-embedding-3-small''\<rparr>]\<rparr>"

definition sample_embedding :: "str \<Rightarrow> raw" where
  "sample_embedding body = Json (JObj [(''data'', JArr [JObj [(''embedding'', JArr (replicate 1536 (JNum 0)))]])])"

definition sample_pgvector :: "config \<Rightarrow> config" where
  "sample_pgvector c = c\<lparr>cf_rag := \<lparr>ragc_provider = ''pgvector'', ragc_top_k = 0, ragc_embedding_model = []\<rparr>\<rparr>"

lemma decode_zeros: "decode_floats Some (replicate n (JNum 0)) = Some (replicate n 0)"
  by (induction n) (simp_all add: decode_floats_def)

lemma sample_embed: "embed Some sample_embedding (\<lambda>_ _. Answered 200 []) (new_embedder key []) query = Inr (replicate 1536 0)"
proof -
  have "decode_embedding Some (JObj [(''embedding'', JArr (replicate 1536 (JNum 0)))]) = Some (replicate 1536 0)"
    by (simp add: decode_embedding_def sub_list_def struct_field_def to_lower_def is_upper_def decode_zeros)
  then show ?thesis
    by (simp add: embed_def sample_embedding_def sub_list_def struct_field_def to_lower_def is_upper_def new_embedder_def
        dimensions_for_def normalize_model_def default_embedding_model_def model_dimensions_def)
qed

theorem pgvector_compares_like_with_like_witness:
  "vr_width (hd (vt_rows sample_table)) = int (length (replicate 1536 (0::rat)))"
proof -
  let ?cfg = "sample_pgvector no_config"
  have n: "new_pgvector (\<lambda>_. None) (\<lambda>table. pg_verify table sample_table) ?cfg = Inr \<lparr>pg_embedder = new_embedder (oai_api_key (cf_openai ?cfg)) [],
      pg_table = rag_table (pgv_table (cf_pgvector ?cfg)), pg_top_k = 3\<rparr>"
    by (simp add: new_pgvector_def pg_verify_def verify_store_def pg_describe_def pg_first_other_def verify_row_models_def sample_table_def
        dimensions_for_def normalize_model_def default_embedding_model_def model_dimensions_def default_top_k_def sample_pgvector_def Let_def)
  have "pg_sound sample_table" by (simp add: pg_sound_def sample_table_def)
  from pgvector_compares_like_with_like [OF n this, of Some sample_embedding "\<lambda>_ _. Answered 200 []" "[]" "replicate 1536 0" "hd (vt_rows sample_table)"]
  show ?thesis
    by (simp add: sample_embed sample_table_def new_embedder_def dimensions_for_def normalize_model_def default_embedding_model_def
        model_dimensions_def)
qed

text \<open>A PostgREST over the rows of the table: \<open>none\<close> and \<open>row\<close> stand for the two bodies it sends.\<close>

definition sample_postgrest :: "str \<Rightarrow> service_answer" where
  "sample_postgrest url =
     Answered 200 (if url = supabase_base ''https://x'' ''documents'' @ mismatch_query ''text-embedding-3-small'' then ''none'' else ''row'')"

definition sample_rows :: "str \<Rightarrow> raw" where
  "sample_rows body =
     (if body = ''none'' then Json (JArr [])
      else Json (JArr [JObj [(''embedding'', JArr (replicate 1536 (JNum 0))), (''embedding_model'', JStr ''text-embedding-3-small'')]]))"

definition sample_supabase :: "config \<Rightarrow> config" where
  "sample_supabase c = c\<lparr>cf_rag := \<lparr>ragc_provider = ''supabase'', ragc_top_k = 0, ragc_embedding_model = []\<rparr>,
     cf_supabase := \<lparr>spb_url = ''https://x'', spb_api_key = ''k'', spb_function = [], spb_table = []\<rparr>\<rparr>"

lemma sample_selects:
  "supabase_select sample_rows (Answered 200 ''none'') = Inr []"
  "supabase_select sample_rows (Answered 200 ''row'') =
     Inr [\<lparr>sr_embedding = Some (JArr (replicate 1536 (JNum 0))), sr_model = ''text-embedding-3-small''\<rparr>]"
  by (simp_all add: supabase_select_def sample_rows_def decode_row_def struct_field_def to_lower_def is_upper_def)

lemma sample_width: "vector_width is_float (Some (JArr (replicate 1536 (JNum 0)))) = Some 1536"
  by (simp add: vector_width_def json_number_def list_all_iff)

lemma sample_served: "serves_rows is_float sample_rows ''https://x'' ''documents'' (sample_postgrest, vt_rows sample_table)"
proof -
  have q: "mismatch_query want \<noteq> sample_query" for want by (simp add: mismatch_query_def sample_query_def)
  have "want = ''text-embedding-3-small''" if "mismatch_query want = mismatch_query ''text-embedding-3-small''" for want
  proof -
    from that have "query_escape want = query_escape ''text-embedding-3-small''" by (simp add: mismatch_query_def)
    then show ?thesis by (metis query_unescape_escape option.inject)
  qed
  then show ?thesis
    by (auto simp: serves_rows_def sample_postgrest_def sample_selects sample_width sample_table_def q [symmetric])
qed

theorem supabase_compares_like_with_like_witness:
  "vr_model (hd (vt_rows sample_table)) = Some ''text-embedding-3-small''"
proof -
  let ?cfg = "sample_supabase no_config"
  let ?e = "new_embedder (oai_api_key (cf_openai ?cfg)) []"
  have t: "rag_table (spb_table (cf_supabase ?cfg)) = ''documents''" by (simp add: rag_table_def sample_supabase_def)
  have n: "new_supabase (verify_supabase (\<lambda>_. True) sample_rows sample_postgrest) ?cfg =
      Inr \<lparr>sb_url = ''https://x'', sb_api_key = ''k'', sb_function = ''match_documents'', sb_embedder = ?e, sb_top_k = 3\<rparr>"
    by (simp add: new_supabase_def verify_supabase_def sample_supabase_def rag_table_def default_top_k_def sample_postgrest_def sample_selects
        sample_width normalize_model_def default_embedding_model_def dimensions_for_def model_dimensions_def mismatch_query_def sample_query_def Let_def)
  show ?thesis
    using supabase_compares_like_with_like [OF n, where rows = "vt_rows sample_table" and narrow = Some and parse = sample_embedding
      and post = "\<lambda>_ _. Answered 200 []" and query = "[]" and v = "replicate 1536 0" and r = "hd (vt_rows sample_table)"]
    by (simp add: t sample_served sample_embed) (simp add: sample_table_def new_embedder_def normalize_model_def default_embedding_model_def)
qed

theorem printed_vector_keeps_its_width_witness:
  "vector_width (\<lambda>s. s \<noteq> []) (Some (JStr (format_vector (\<lambda>x. if x = 0 then ''0'' else ''0.5'') [0, 1 / 2, 0]))) = Some 3"
  using printed_vector_keeps_its_width [of "[0, 1 / 2, 0]" "\<lambda>s. s \<noteq> []" "\<lambda>x. if x = 0 then ''0'' else ''0.5''"]
  by (simp add: prints_well_def is_space_def)

section \<open>Observations\<close>

text \<open>A column without a width is accepted whatever it holds.\<close>

lemma bare_column_is_not_checked:
  "pg_verify ''documents'' (sample_table\<lparr>vt_columns := [(''embedding'', -1), (''embedding_model'', -1)],
     vt_rows := map (\<lambda>r. r\<lparr>vr_width := 3072\<rparr>) (vt_rows sample_table)\<rparr>) [] = None"
  by (simp add: pg_verify_def verify_store_def pg_describe_def pg_first_other_def verify_row_models_def sample_table_def
      dimensions_for_def normalize_model_def default_embedding_model_def model_dimensions_def)

text \<open>A Supabase project that is down is not checked, now or later.\<close>

lemma unreachable_store_is_accepted: "verify_supabase is_float json_of (\<lambda>_. Unanswered ''connection refused'') url table model = None"
  by (simp add: verify_supabase_def supabase_select_def is_missing_column_def contains_str_def Let_def)

text \<open>The check tolerates a slash at the end of the project's URL, a search does not.\<close>

lemma slash_is_kept_in_searches:
  "supabase_base ''https://x/'' ''documents'' = ''https://x/rest/v1/documents'' \<and>
   rpc_url \<lparr>sb_url = ''https://x/'', sb_api_key = ''k'', sb_function = ''match_documents'', sb_embedder = new_embedder [] [], sb_top_k = 3\<rparr> =
     ''https://x//rest/v1/rpc/match_documents''"
  by code_simp

end
