(* ===== verification/Device_Packets.thy ===== *)
theory Device_Packets
  imports Speech_Providers Plugin_Dispatch Partial_Reflex Image_Capture Plugin_Registry
begin

text \<open>
  What a plugin gets from the call it belongs to (\<open>internal/pipeline/toolgate.go\<close>): packets to the
  client, a completion, a search, a picture; and the packets that a partial transcript sends ahead
  of the model (\<open>fireReflex\<close> in \<open>partial.go\<close>). A text is its bytes; what renders a JSON value, what
  the data channel accepts and what a tool returns are arguments.
\<close>

section \<open>Base64\<close>

definition base64_alphabet :: str where
  "base64_alphabet = ''ABCDEFGHIJKLMNOPQRSTUVWXYZabcdefghijklmnopqrstuvwxyz0123456789+/''"

definition base64_char :: "nat \<Rightarrow> char" where
  "base64_char n = base64_alphabet ! (n mod 64)"

fun base64_encode :: "byte list \<Rightarrow> str" where
  "base64_encode [] = []"
| "base64_encode [a] = [base64_char (unat a div 4), base64_char (unat a mod 4 * 16), CHR ''='', CHR ''='']"
| "base64_encode [a, b] =
     [base64_char (unat a div 4), base64_char (unat a mod 4 * 16 + unat b div 16), base64_char (unat b mod 16 * 4), CHR ''='']"
| "base64_encode (a # b # c # bs) =
     [base64_char (unat a div 4), base64_char (unat a mod 4 * 16 + unat b div 16),
      base64_char (unat b mod 16 * 4 + unat c div 64), base64_char (unat c mod 64)] @ base64_encode bs"

lemma base64_table:
  "list_all (\<lambda>n. base64_value (base64_alphabet ! n) = Some n \<and> base64_alphabet ! n \<notin> {CHR ''='', CHR 10, CHR 13}) [0..<64]"
  by code_simp

lemma base64_char_facts [simp]:
  "n < 64 \<Longrightarrow> base64_value (base64_char n) = Some n"
  "base64_char n \<noteq> CHR ''=''" "base64_char n \<noteq> CHR 10" "base64_char n \<noteq> CHR 13"
proof -
  have *: "base64_value (base64_alphabet ! (n mod 64)) = Some (n mod 64) \<and> base64_alphabet ! (n mod 64) \<notin> {CHR ''='', CHR 10, CHR 13}"
    using base64_table by (auto simp: list_all_iff)
  then show "base64_char n \<noteq> CHR ''=''" "base64_char n \<noteq> CHR 10" "base64_char n \<noteq> CHR 13" by (auto simp: base64_char_def)
  show "n < 64 \<Longrightarrow> base64_value (base64_char n) = Some n" using * by (simp add: base64_char_def)
qed

lemma byte_small: "unat (b :: byte) < 256"
  using unsigned_less [of b] by simp

lemma sextets [simp]:
  "unat (a :: byte) div 4 < 64" "unat (a :: byte) mod 4 * 16 < 64" "unat (a :: byte) mod 16 * 4 < 64"
  "unat (a :: byte) mod 4 * 16 + unat (b :: byte) div 16 < 64" "unat b mod 16 * 4 + unat (c :: byte) div 64 < 64"
  using byte_small [of a] byte_small [of b] byte_small [of c] by (auto simp: less_mult_imp_div_less)

lemma base64_no_breaks: "filter (\<lambda>c. c \<noteq> CHR 10 \<and> c \<noteq> CHR 13) (base64_encode bs) = base64_encode bs"
  by (induction bs rule: base64_encode.induct) auto

lemma byte_parts [simp]:
  "unat (b :: byte) div 16 div 16 = 0" "unat (b :: byte) div 16 mod 16 = unat b div 16"
  "unat (b :: byte) div 64 div 4 = 0" "unat (b :: byte) div 64 mod 4 = unat b div 64"
  using byte_small [of b] by (auto simp: less_mult_imp_div_less)

lemma base64_quanta_encode: "base64_quanta (base64_encode bs) = Some bs"
  by (induction bs rule: base64_encode.induct) simp_all

lemma base64_round_trip [simp]: "base64_decode (base64_encode bs) = Some bs"
  by (simp add: base64_decode_def base64_no_breaks base64_quanta_encode)

section \<open>Packets\<close>

record data_packet =
  dp_type :: str
  dp_topic :: str
  dp_payload :: str

definition bytes_of :: "str \<Rightarrow> byte list" where
  "bytes_of s = map of_char s"

definition text_of :: "byte list \<Rightarrow> str" where
  "text_of bs = map (\<lambda>b. char_of (unat b)) bs"

lemma unat_of_char: "unat (of_char c :: byte) = of_char c"
proof -
  have "(of_char c :: nat) < 2 ^ 8" using nat_of_char_less_256 [of c] by simp
  then have "unat (of_nat (of_char c) :: byte) = of_char c" by (simp add: unsigned_of_nat take_bit_nat_eq_self)
  then show ?thesis by (simp only: of_nat_of_char)
qed

lemma text_of_bytes [simp]: "text_of (bytes_of s) = s"
  by (simp add: text_of_def bytes_of_def unat_of_char map_idI)

text \<open>The text of a raw payload; one that is missing is sent as an empty object.\<close>

definition payload_text :: "(json \<Rightarrow> str) \<Rightarrow> raw \<Rightarrow> str" where
  "payload_text render p = (case p of Absent \<Rightarrow> [] | Json j \<Rightarrow> render j | Malformed s \<Rightarrow> s)"

definition emission_packet :: "(json \<Rightarrow> str) \<Rightarrow> tool_emission \<Rightarrow> data_packet" where
  "emission_packet render em =
     \<lparr>dp_type = ''data'', dp_topic = te_topic em,
      dp_payload = base64_encode (bytes_of (let t = payload_text render (te_payload em) in if t = [] then ''{}'' else t))\<rparr>"

definition emit_to_client :: "(json \<Rightarrow> str) \<Rightarrow> (data_packet \<Rightarrow> bool) \<Rightarrow> tool_emission \<Rightarrow> str + data_packet" where
  "emit_to_client render ok em =
     (let pk = emission_packet render em in if ok pk then Inr pk else Inl (''send '' @ te_topic em))"

section \<open>What a plugin may ask for\<close>

text \<open>A client is built once for all completions of a call that has none of its own.\<close>

definition completion_client :: "'l option \<Rightarrow> 'e + 'l \<Rightarrow> ('e + 'l) option \<Rightarrow> ('e + 'l) option \<times> (str + 'l)" where
  "completion_client own built once =
     (case own of
        Some l \<Rightarrow> (once, Inr l)
      | None \<Rightarrow>
          let r = (case once of Some r \<Rightarrow> r | None \<Rightarrow> built)
          in (Some r, case r of Inl e \<Rightarrow> Inl ''no model available for plugin completion'' | Inr l \<Rightarrow> Inr l))"

definition sink_complete :: "('l \<Rightarrow> str \<Rightarrow> str \<Rightarrow> str + str) \<Rightarrow> 'l option \<Rightarrow> 'e + 'l \<Rightarrow> ('e + 'l) option \<Rightarrow> str \<Rightarrow> str \<Rightarrow> ('e + 'l) option \<times> (str + str)" where
  "sink_complete one_shot own built once system prompt =
     (case completion_client own built once of
        (once', Inl e) \<Rightarrow> (once', Inl e)
      | (once', Inr l) \<Rightarrow> (once', one_shot l system prompt))"

definition sink_search :: "(str \<Rightarrow> int \<Rightarrow> str + str list) option \<Rightarrow> str \<Rightarrow> int \<Rightarrow> str + str list" where
  "sink_search rag q limit = (case rag of None \<Rightarrow> Inl ''no knowledge base is configured'' | Some search \<Rightarrow> search q limit)"

definition camera_frame_capability :: str where "camera_frame_capability = ''camera_frame''"

definition sink_capture :: "(nat \<Rightarrow> bool \<times> image_message list) \<Rightarrow> str \<Rightarrow> image_receiver \<Rightarrow> image_receiver \<times> (capture_error option + json)" where
  "sink_capture env capability r =
     (if capability = camera_frame_capability
      then (case capture_camera_frame env r of (r', Inl e) \<Rightarrow> (r', Inl (Some e)) | (r', Inr j) \<Rightarrow> (r', Inr j))
      else (r, Inl None))"

section \<open>Packets ahead of the model\<close>

fun fire_emissions :: "instant \<Rightarrow> (json \<Rightarrow> str) \<Rightarrow> (data_packet \<Rightarrow> bool) \<Rightarrow> (str \<Rightarrow> instant option) \<Rightarrow> tool_emission list \<Rightarrow>
    (str \<Rightarrow> instant option) \<times> data_packet list" where
  "fire_emissions now render ok marks [] = (marks, [])"
| "fire_emissions now render ok marks (em # ems) =
     (case emit_to_client render ok em of
        Inl e \<Rightarrow> fire_emissions now render ok marks ems
      | Inr pk \<Rightarrow>
          (case fire_emissions now render ok (remember_reflex_emission now (te_topic em) (payload_text render (te_payload em)) marks) ems of
             (marks', out) \<Rightarrow> (marks', pk # out)))"

text \<open>\<open>None\<close> is a panic on the transcript's goroutine.\<close>

definition fire_reflex :: "instant \<Rightarrow> (json \<Rightarrow> str) \<Rightarrow> (data_packet \<Rightarrow> bool) \<Rightarrow> returned outcome \<Rightarrow> (str \<Rightarrow> instant option) \<Rightarrow>
    ((str \<Rightarrow> instant option) \<times> data_packet list) option" where
  "fire_reflex now render ok executed marks =
     (case executed of
        Panic \<Rightarrow> None
      | Fail e \<Rightarrow> Some (marks, [])
      | Done r \<Rightarrow> Some (fire_emissions now render ok marks (tr_emit (parse_result render r))))"

fun fire_hits :: "instant \<Rightarrow> (json \<Rightarrow> str) \<Rightarrow> (data_packet \<Rightarrow> bool) \<Rightarrow> (reflex_hit \<Rightarrow> returned outcome) \<Rightarrow> reflex_hit list \<Rightarrow>
    (str \<Rightarrow> instant option) \<Rightarrow> ((str \<Rightarrow> instant option) \<times> data_packet list) option" where
  "fire_hits now render ok execute [] marks = Some (marks, [])"
| "fire_hits now render ok execute (h # hs) marks =
     (case fire_reflex now render ok (execute h) marks of
        None \<Rightarrow> None
      | Some (sent1, out) \<Rightarrow> map_option (\<lambda>(sent2, rest). (sent2, out @ rest)) (fire_hits now render ok execute hs sent1))"

definition reflex_on_partial :: "instant \<Rightarrow> (json \<Rightarrow> str) \<Rightarrow> (data_packet \<Rightarrow> bool) \<Rightarrow> (reflex_hit \<Rightarrow> returned outcome) \<Rightarrow>
    reflex_entry list option \<Rightarrow> str \<Rightarrow> reflex \<Rightarrow> (str \<Rightarrow> instant option) \<Rightarrow>
    (reflex \<times> (str \<Rightarrow> instant option) \<times> data_packet list) option" where
  "reflex_on_partial now render ok execute entries partial s marks =
     (case entries of
        None \<Rightarrow> Some (s, marks, [])
      | Some es \<Rightarrow>
          (case observe es partial s of
             None \<Rightarrow> None
           | Some (s', hits) \<Rightarrow> map_option (Pair s') (fire_hits now render ok execute hits marks)))"

section \<open>What the client reads\<close>

text \<open>A packet reaches the client's handler as it was emitted: under its topic, its payload decodes to
  the bytes of the JSON the plugin gave, or of an empty object when it gave none.\<close>

theorem emitted_packet_is_read_back:
  "dp_type (emission_packet render em) = ''data'' \<and> dp_topic (emission_packet render em) = te_topic em \<and>
    map_option text_of (base64_decode (dp_payload (emission_packet render em))) =
      Some (if payload_text render (te_payload em) = [] then ''{}'' else payload_text render (te_payload em))"
  by (simp add: emission_packet_def Let_def)

section \<open>Once and no more\<close>

abbreviation key_of :: "(json \<Rightarrow> str) \<Rightarrow> tool_emission \<Rightarrow> str" where
  "key_of render em \<equiv> emission_key (te_topic em) (payload_text render (te_payload em))"

definition plain_topics :: "tool_emission list \<Rightarrow> bool" where
  "plain_topics ems \<longleftrightarrow> distinct (map te_topic ems) \<and> list_all (\<lambda>em. CHR 0x00 \<notin> set (te_topic em)) ems"

lemma topic_prefix:
  assumes "CHR 0x00 \<notin> set a" and "CHR 0x00 \<notin> set b"
  shows "has_prefix (a @ [CHR 0x00]) (emission_key b p) \<longleftrightarrow> a = b"
proof
  assume "has_prefix (a @ [CHR 0x00]) (emission_key b p)"
  then obtain t where "a @ CHR 0x00 # t = b @ CHR 0x00 # p" by (auto simp: has_prefix_iff emission_key_def)
  with assms show "a = b" by (auto simp: append_eq_append_conv2 append_eq_Cons_conv Cons_eq_append_conv)
qed (auto simp: has_prefix_iff emission_key_def)

lemma keys_differ: "CHR 0x00 \<notin> set (te_topic a) \<Longrightarrow> CHR 0x00 \<notin> set (te_topic b) \<Longrightarrow> te_topic a \<noteq> te_topic b \<Longrightarrow> key_of render a \<noteq> key_of render b"
  using topic_prefix [of "te_topic a" "te_topic b"] topic_prefix [of "te_topic a" "te_topic a"] by metis

lemma plain_topics_Cons:
  "plain_topics (em # ems) \<longleftrightarrow> CHR 0x00 \<notin> set (te_topic em) \<and> plain_topics ems \<and> list_all (\<lambda>e. te_topic e \<noteq> te_topic em) ems"
  by (auto simp: plain_topics_def list_all_iff image_iff)

lemma fire_keeps_record:
  assumes "marks (key_of render em) = Some now" and "plain_topics (em # ems)"
  shows "fst (fire_emissions now render (\<lambda>_. True) marks ems) (key_of render em) = Some now"
  using assms
proof (induction ems arbitrary: marks)
  case (Cons e es)
  have "\<not> has_prefix (te_topic e @ [CHR 0x00]) (key_of render em)" "key_of render em \<noteq> key_of render e"
    using Cons.prems(2) topic_prefix [of "te_topic e" "te_topic em"] keys_differ [of em e] by (auto simp: plain_topics_Cons)
  with Cons.prems have "remember_reflex_emission now (te_topic e) (payload_text render (te_payload e)) marks (key_of render em) = Some now"
    by (simp add: remember_reflex_emission_def reflex_dedup_ttl_def)
  with Cons.IH [of "remember_reflex_emission now (te_topic e) (payload_text render (te_payload e)) marks"] Cons.prems(2)
  show ?case by (simp add: emit_to_client_def Let_def plain_topics_Cons case_prod_beta)
qed simp

lemma fire_records:
  assumes "plain_topics ems"
  shows "snd (fire_emissions now render (\<lambda>_. True) marks ems) = map (emission_packet render) ems \<and>
    list_all (\<lambda>em. fst (fire_emissions now render (\<lambda>_. True) marks ems) (key_of render em) = Some now) ems"
  using assms
proof (induction ems arbitrary: marks)
  case (Cons e es)
  let ?marks = "remember_reflex_emission now (te_topic e) (payload_text render (te_payload e)) marks"
  have "?marks (key_of render e) = Some now" by (simp add: remember_reflex_emission_def)
  then have "fst (fire_emissions now render (\<lambda>_. True) ?marks es) (key_of render e) = Some now"
    by (rule fire_keeps_record) (rule Cons.prems)
  with Cons.IH [of ?marks] Cons.prems show ?case
    by (simp add: emit_to_client_def Let_def plain_topics_Cons case_prod_beta)
qed simp

lemma repeated_emissions_are_dropped:
  assumes "plain_topics ems" and "now - t \<le> reflex_dedup_ttl" and "list_all (\<lambda>em. marks (key_of render em) = Some t) ems"
  shows "\<exists>marks'. send_emissions now (payload_text render) ok marks ems = (marks', [], True) \<and>
    list_all (\<lambda>em. marks' (key_of render em) = None) ems \<and> (\<forall>k. marks k = None \<longrightarrow> marks' k = None)"
  using assms
proof (induction ems arbitrary: marks)
  case (Cons e es)
  let ?marks = "marks(key_of render e := None)"
  have "?marks (key_of render em) = Some t" if "em \<in> set es" for em
  proof -
    have "CHR 0x00 \<notin> set (te_topic em)" "CHR 0x00 \<notin> set (te_topic e)" "te_topic em \<noteq> te_topic e"
      using Cons.prems(1) that by (auto simp: plain_topics_def list_all_iff image_iff)
    then have "key_of render em \<noteq> key_of render e" by (rule keys_differ)
    with Cons.prems(3) that show ?thesis by (simp add: list_all_iff)
  qed
  then have "list_all (\<lambda>em. ?marks (key_of render em) = Some t) es" by (simp add: list_all_iff)
  with Cons.IH [of ?marks] Cons.prems obtain marks' where
    "send_emissions now (payload_text render) ok ?marks es = (marks', [], True)"
    "list_all (\<lambda>em. marks' (key_of render em) = None) es" "\<forall>k. ?marks k = None \<longrightarrow> marks' k = None"
    unfolding plain_topics_Cons by blast
  moreover have "reflex_already_sent now marks (key_of render e) = (?marks, True)"
    using Cons.prems by (simp add: reflex_already_sent_def)
  moreover have "marks' (key_of render e) = None" "\<forall>k. marks k = None \<longrightarrow> marks' k = None" using calculation(3) by auto
  ultimately show ?case by (intro exI [of _ marks']) simp
qed simp

lemma fresh_emissions_go_out:
  assumes "list_all (\<lambda>em. marks (key_of render em) = None) ems"
  shows "send_emissions now (payload_text render) (\<lambda>_. True) marks ems = (marks, ems, True)"
  using assms by (induction ems) (auto simp: reflex_already_sent_def)


text \<open>A reflex that sends two packets of one topic forgets the first: the model's call sends it again.\<close>

definition two_steps :: returned where
  "two_steps = encode_result \<lparr>tr_speak = ''ok'', tr_emit =
     [\<lparr>te_topic = ''move'', te_payload = Json (JNum 1), te_session = []\<rparr>,
      \<lparr>te_topic = ''move'', te_payload = Json (JNum 2), te_session = []\<rparr>]\<rparr>"

definition render_two :: "json \<Rightarrow> str" where
  "render_two j = (case j of JNum n \<Rightarrow> if n = 1 then ''1'' else ''2'' | _ \<Rightarrow> ''x'')"

lemma second_packet_forgets_the_first:
  "map te_payload (fst (snd (run_tool 1 (payload_text render_two) render_two (\<lambda>_. True)
     (fst (the (fire_reflex 0 render_two (\<lambda>_. True) (Done two_steps) Map.empty))) (Done two_steps)))) = [Json (JNum 1)]"
  by code_simp


text \<open>Two completions of a call without a client of its own use the one that was built first.\<close>

lemma one_client_for_all_completions:
  "snd (completion_client None b2 (fst (completion_client None b1 once))) = snd (completion_client None b1 once)"
  by (auto simp: completion_client_def Let_def split: option.splits sum.splits)

lemma only_pictures_are_captured:
  "capability \<noteq> camera_frame_capability \<Longrightarrow> sink_capture env capability r = (r, Inl None)"
  by (simp add: sink_capture_def)

end
