(* ===== verification/Plugin_Services.thy ===== *)
theory Plugin_Services
  imports Plugin_Host Device_Packets
begin

text \<open>
  A plugin's own requests from the line it writes to the line it reads (\<open>handleInbound\<close> and \<open>serve\<close> in
  \<open>internal/plugin/callbacks.go\<close>, the callbacks of \<open>session.go\<close>), on the services of the calls in
  progress, and the running of a hosted tool with what it requires (\<open>tool.go\<close>). What renders JSON, what a
  data channel accepts, what another tool returns and what models answer are arguments.
\<close>

section \<open>What a plugin writes\<close>

record inbound_message =
  im_method :: str
  im_id :: raw
  im_params :: raw

text \<open>A field that is kept as it is: \<open>null\<close> is a value, not an absence.\<close>

definition raw_member :: "str \<Rightarrow> raw \<Rightarrow> raw" where
  "raw_member k r =
     (case r of
        Json (JObj kvs) \<Rightarrow> (case find (\<lambda>kv. to_lower (fst kv) = k) (rev kvs) of None \<Rightarrow> Absent | Some kv \<Rightarrow> Json (snd kv))
      | _ \<Rightarrow> Absent)"

definition decode_inbound :: "raw \<Rightarrow> inbound_message option" where
  "decode_inbound l =
     (case (as_string (struct_field ''jsonrpc'' l), as_string (struct_field ''method'' l)) of
        (Some _, Some m) \<Rightarrow> Some \<lparr>im_method = m, im_id = raw_member ''id'' l, im_params = raw_member ''params'' l\<rparr>
      | _ \<Rightarrow> None)"

definition text_param :: "str \<Rightarrow> inbound_message \<Rightarrow> str option" where
  "text_param k msg =
     (case im_params msg of
        Json (JObj kvs) \<Rightarrow> as_string (struct_field k (im_params msg))
      | Json JNull \<Rightarrow> Some []
      | _ \<Rightarrow> None)"

definition decode_request :: "inbound_message \<Rightarrow> plugin_request" where
  "decode_request msg =
     (let session = text_param ''session_id'' msg; field = (\<lambda>k. raw_member k (im_params msg)) in
      if im_method msg = ''emit'' then
        Emit (case (text_param ''topic'' msg, session) of
          (Some t, Some i) \<Rightarrow> Some \<lparr>em_topic = t, em_payload = field ''payload'', em_session = i\<rparr> | _ \<Rightarrow> None)
      else if im_method msg = ''tools/call'' then
        Tools_call (case (text_param ''name'' msg, session) of
          (Some n, Some i) \<Rightarrow> Some (n, field ''arguments'', i) | _ \<Rightarrow> None)
      else if im_method msg = ''llm/complete'' then
        Llm_complete (case (text_param ''system'' msg, text_param ''prompt'' msg, session) of
          (Some s, Some q, Some i) \<Rightarrow> Some (s, q, i) | _ \<Rightarrow> None)
      else if im_method msg = ''rag/search'' then
        Rag_search (case (text_param ''query'' msg, as_int (struct_field ''limit'' (im_params msg)), session) of
          (Some q, Some n, Some i) \<Rightarrow> Some (q, n, i) | _ \<Rightarrow> None)
      else Other_method (im_method msg))"

section \<open>What the calls do for it\<close>

record 'l call_services =
  cl_llm :: "'l option"
  cl_once :: "(str + 'l) option"
  cl_search :: "(str \<Rightarrow> int \<Rightarrow> str + str list) option"
  cl_packets :: "data_packet list"

record 'l world =
  wl_render :: "json \<Rightarrow> str"
  wl_sends :: "nat \<Rightarrow> data_packet \<Rightarrow> bool"
  wl_one_shot :: "'l \<Rightarrow> str \<Rightarrow> str \<Rightarrow> str + str"
  wl_built :: "str + 'l"
  wl_run :: "execution \<Rightarrow> str + str"

datatype reply_error = Not_served serve_error | Service_failed str

definition perform :: "'l world \<Rightarrow> (nat \<Rightarrow> 'l call_services) \<Rightarrow> served \<Rightarrow> (nat \<Rightarrow> 'l call_services) \<times> (reply_error + json)" where
  "perform w calls sv =
     (case sv of
        Emitted k em \<Rightarrow>
          (case emit_to_client (wl_render w) (wl_sends w k) \<lparr>te_topic = em_topic em, te_payload = em_payload em, te_session = em_session em\<rparr> of
             Inl e \<Rightarrow> (calls, Inl (Service_failed e))
           | Inr pk \<Rightarrow> (calls(k := (calls k)\<lparr>cl_packets := cl_packets (calls k) @ [pk]\<rparr>), Inr (JStr ''ok'')))
      | Called x \<Rightarrow> (calls, case wl_run w x of Inl e \<Rightarrow> Inl (Service_failed e) | Inr s \<Rightarrow> Inr (JStr s))
      | Completed k system prompt \<Rightarrow>
          (case sink_complete (wl_one_shot w) (cl_llm (calls k)) (wl_built w) (cl_once (calls k)) system prompt of
             (once, r) \<Rightarrow> (calls(k := (calls k)\<lparr>cl_once := once\<rparr>), case r of Inl e \<Rightarrow> Inl (Service_failed e) | Inr s \<Rightarrow> Inr (JStr s)))
      | Searched k q n \<Rightarrow>
          (calls, case sink_search (cl_search (calls k)) q n of Inl e \<Rightarrow> Inl (Service_failed e) | Inr rs \<Rightarrow> Inr (JArr (map JStr rs))))"

text \<open>A reply carries the id of its request as it was; without one there is none.\<close>

record inbound_reply =
  rp_id :: raw
  rp_answer :: "reply_error + json"

definition handle_inbound :: "'l world \<Rightarrow> registry \<Rightarrow> sinks \<Rightarrow> tool_spec list \<Rightarrow> (nat \<Rightarrow> 'l call_services) \<Rightarrow> raw \<Rightarrow>
    (nat \<Rightarrow> 'l call_services) \<times> inbound_reply option" where
  "handle_inbound w reg m own calls l =
     (case decode_inbound l of
        None \<Rightarrow> (calls, None)
      | Some msg \<Rightarrow>
          (case (case serve reg m own (decode_request msg) of Inl e \<Rightarrow> (calls, Inl (Not_served e)) | Inr sv \<Rightarrow> perform w calls sv) of
             (calls', r) \<Rightarrow> (calls', if im_id msg = Absent then None else Some \<lparr>rp_id = im_id msg, rp_answer = r\<rparr>)))"

section \<open>Running a hosted tool\<close>

datatype hosted_run = Tells str | Sends rpc_request | Not_running | Run_panics

definition execute_hosted :: "(str \<Rightarrow> raw option) option \<Rightarrow> bool \<Rightarrow> tool_spec \<Rightarrow> str \<Rightarrow> raw \<Rightarrow> hosted_run" where
  "execute_hosted supply running t session params =
     (case capture_requirements supply (ts_requires t) params of
        Panic \<Rightarrow> Run_panics
      | Fail e \<Rightarrow> Tells e
      | Done p \<Rightarrow> (case execute_request running (ts_name t) session p of None \<Rightarrow> Not_running | Some rq \<Rightarrow> Sends rq))"

section \<open>Properties\<close>

definition named_session :: "inbound_message \<Rightarrow> str option" where
  "named_session msg = text_param ''session_id'' msg"

text \<open>Which call a request was served by is the one its session is bound to.\<close>

fun served_by :: "served \<Rightarrow> nat option" where
  "served_by (Emitted k em) = Some k"
| "served_by (Called x) = None"
| "served_by (Completed k s p) = Some k"
| "served_by (Searched k q n) = Some k"

lemma serve_names_the_call:
  "serve reg m own (decode_request msg) = Inr sv \<Longrightarrow> served_by sv = Some k \<Longrightarrow> \<exists>s. named_session msg = Some s \<and> m s = Some k"
  by (auto simp: decode_request_def serve_emit_def serve_tool_call_def serve_complete_def serve_search_def find_sink_def named_session_def Let_def
      split: if_splits option.splits sum.splits)

lemma perform_frame: "perform w calls sv = (calls', r) \<Longrightarrow> calls' k \<noteq> calls k \<Longrightarrow> served_by sv = Some k"
  by (cases sv) (auto simp: perform_def split: sum.splits prod.splits if_splits)


lemma plain_keys:
  "to_lower ''jsonrpc'' = ''jsonrpc''" "to_lower ''method'' = ''method''" "to_lower ''params'' = ''params''" "to_lower ''id'' = ''id''"
  "to_lower ''topic'' = ''topic''" "to_lower ''payload'' = ''payload''" "to_lower ''session_id'' = ''session_id''"
  by code_simp+

definition emit_line :: "str \<Rightarrow> json \<Rightarrow> str \<Rightarrow> json \<Rightarrow> raw" where
  "emit_line topic payload session i =
     Json (JObj [(''jsonrpc'', JStr ''2.0''), (''method'', JStr ''emit''),
       (''params'', JObj [(''topic'', JStr topic), (''payload'', payload), (''session_id'', JStr session)]), (''id'', i)])"

text \<open>What a plugin emits arrives: a packet for a call in progress whose client can be reached is added to
  what its client has been sent, under its topic, its payload reads back as the JSON given, and the
  plugin is told.\<close>

theorem emitted_packet_arrives:
  assumes "m session = Some k" and "topic \<noteq> []" and "session \<noteq> []" and "\<And>pk. wl_sends w k pk" and "wl_render w payload \<noteq> []"
  shows "\<exists>pk. handle_inbound w reg m own calls (emit_line topic payload session i) =
      (calls(k := (calls k)\<lparr>cl_packets := cl_packets (calls k) @ [pk]\<rparr>), Some \<lparr>rp_id = Json i, rp_answer = Inr (JStr ''ok'')\<rparr>) \<and>
    dp_topic pk = topic \<and> map_option text_of (base64_decode (dp_payload pk)) = Some (wl_render w payload)"
proof -
  let ?em = "\<lparr>em_topic = topic, em_payload = Json payload, em_session = session\<rparr>"
  let ?pk = "emission_packet (wl_render w) \<lparr>te_topic = topic, te_payload = Json payload, te_session = session\<rparr>"
  let ?params = "JObj [(''topic'', JStr topic), (''payload'', payload), (''session_id'', JStr session)]"
  let ?msg = "\<lparr>im_method = ''emit'', im_id = Json i, im_params = Json ?params\<rparr>"
  have msg: "decode_inbound (emit_line topic payload session i) = Some ?msg"
    by (simp add: decode_inbound_def emit_line_def struct_field_def raw_member_def plain_keys)
  have "text_param ''topic'' ?msg = Some topic" "text_param ''session_id'' ?msg = Some session" "raw_member ''payload'' (im_params ?msg) = Json payload"
    by (simp_all add: text_param_def struct_field_def raw_member_def plain_keys)
  then have request: "decode_request ?msg = Emit (Some ?em)" by (simp add: decode_request_def)
  have "serve reg m own (Emit (Some ?em)) = Inr (Emitted k ?em)" using assms(1-3) by (simp add: serve_emit_def find_sink_def)
  moreover have "perform w calls (Emitted k ?em) = (calls(k := (calls k)\<lparr>cl_packets := cl_packets (calls k) @ [?pk]\<rparr>), Inr (JStr ''ok''))"
    using assms(4) by (simp add: perform_def emit_to_client_def Let_def)
  ultimately have "handle_inbound w reg m own calls (emit_line topic payload session i) =
      (calls(k := (calls k)\<lparr>cl_packets := cl_packets (calls k) @ [?pk]\<rparr>), Some \<lparr>rp_id = Json i, rp_answer = Inr (JStr ''ok'')\<rparr>)"
    using msg request by (simp add: handle_inbound_def)
  moreover have "dp_topic ?pk = topic \<and> map_option text_of (base64_decode (dp_payload ?pk)) = Some (wl_render w payload)"
    using assms(5) by (simp add: emission_packet_def payload_text_def)
  ultimately show ?thesis by blast
qed

text \<open>A tool is not run without what it requires: when the server or the client cannot supply it, or what
  the client sent cannot be read, the model is told in words and the plugin is not asked.\<close>

theorem missing_requirement_is_told:
  assumes "ts_requires t = c # cs" and "supply = None \<or> (\<exists>f. supply = Some f \<and> (f c = None \<or> (\<exists>r. f c = Some r \<and> unmarshal_fields r = None)))"
  shows "\<exists>e. execute_hosted supply running t session params = Tells e"
  using assms by (auto simp: execute_hosted_def capture_requirements_def Let_def split: option.splits)

section \<open>Witnesses\<close>

definition quiet_world :: "unit world" where
  "quiet_world = \<lparr>wl_render = (\<lambda>_. ''7''), wl_sends = (\<lambda>_ _. True), wl_one_shot = (\<lambda>_ _ _. Inl ''no model''), wl_built = Inl ''no model'',
     wl_run = (\<lambda>_. Inl ''no tool'')\<rparr>"

definition idle_calls :: "nat \<Rightarrow> unit call_services" where
  "idle_calls = (\<lambda>_. \<lparr>cl_llm = None, cl_once = None, cl_search = None, cl_packets = []\<rparr>)"

theorem emitted_packet_arrives_witness:
  "map dp_topic (cl_packets (fst (handle_inbound quiet_world [] [''s1'' \<mapsto> 3] [] idle_calls (emit_line ''led'' (JNum 7) ''s1'' (JNum 1))) 3)) = [''led'']"
proof -
  have "wl_sends quiet_world 3 pk" "wl_render quiet_world (JNum 7) \<noteq> []" for pk by (simp_all add: quiet_world_def)
  with emitted_packet_arrives [of "[''s1'' \<mapsto> 3]" "''s1''" 3 "''led''" quiet_world "JNum 7" "[]" "[]" idle_calls "JNum 1"] obtain pk
    where "handle_inbound quiet_world [] [''s1'' \<mapsto> 3] [] idle_calls (emit_line ''led'' (JNum 7) ''s1'' (JNum 1)) =
      (idle_calls(3 := (idle_calls 3)\<lparr>cl_packets := cl_packets (idle_calls 3) @ [pk]\<rparr>), Some \<lparr>rp_id = Json (JNum 1), rp_answer = Inr (JStr ''ok'')\<rparr>)"
      "dp_topic pk = ''led''" by auto
  then show ?thesis by (simp add: idle_calls_def)
qed


theorem missing_requirement_is_told_witness:
  "\<exists>e. execute_hosted None True ((plain_tool ''look'')\<lparr>ts_requires := [''camera_frame'']\<rparr>) ''s1'' Absent = Tells e"
  using missing_requirement_is_told [of "(plain_tool ''look'')\<lparr>ts_requires := [''camera_frame'']\<rparr>" "''camera_frame''" "[]" None] by simp

end
