(* ===== verification/Display_Cards.thy ===== *)
theory Display_Cards
  imports Agent_Backend Plugin_Dispatch
begin

text \<open>
  The display projector (\<open>plugins/plugins/display-projector\<close>): a plugin that turns a finished turn into
  a small card for a screen. The answer itself becomes the card when it is short and plain,
  otherwise a model is asked for one, and whatever it says is cut to what the screen can show. Texts
  are bytes; white space is ASCII. The model and the JSON parser are arguments.
\<close>

section \<open>Runes\<close>

text \<open>A byte that begins no character is a rune of its own.\<close>

function runes :: "str \<Rightarrow> str list" where
  "runes s = (if s = [] then [] else let n = max 1 (rune_len s) in take n s # runes (drop n s))"
  by pat_completeness auto

termination runes
  by (relation "measure length") (auto simp: max_def)

declare runes.simps [simp del]

definition rune_count :: "str \<Rightarrow> nat" where
  "rune_count s = length (runes s)"

text \<open>Converting to runes and back replaces what is no character.\<close>

definition valid_rune :: "str \<Rightarrow> str" where
  "valid_rune r = (if rune_len r = 0 then [CHR 0xEF, CHR 0xBF, CHR 0xBD] else r)"

definition truncate_runes :: "str \<Rightarrow> nat \<Rightarrow> str" where
  "truncate_runes s limit = (if rune_count s \<le> limit then s else concat (map valid_rune (take limit (runes s))))"

definition normalize_space :: "str \<Rightarrow> str" where
  "normalize_space s = join '' '' (str_fields s)"

definition markup_chars :: str where "markup_chars = ''#*`_<>[]''"

definition contains_markup :: "str \<Rightarrow> bool" where
  "contains_markup s \<longleftrightarrow> list_ex (\<lambda>c. c \<in> set markup_chars) s \<or> contains_str s ''```''"

section \<open>Cards\<close>

record card =
  cd_layout :: str
  cd_title :: str
  cd_primary :: str
  cd_secondary :: str
  cd_detail :: str
  cd_body :: str
  cd_items :: "str list"

definition empty_card :: card where
  "empty_card = \<lparr>cd_layout = [], cd_title = [], cd_primary = [], cd_secondary = [], cd_detail = [], cd_body = [], cd_items = []\<rparr>"

definition max_title :: nat where "max_title = 32"
definition max_primary :: nat where "max_primary = 24"
definition max_secondary :: nat where "max_secondary = 48"
definition max_detail :: nat where "max_detail = 80"
definition max_body :: nat where "max_body = 180"
definition max_list_items :: nat where "max_list_items = 4"
definition max_list_item :: nat where "max_list_item = 40"
definition default_fast_path :: int where "default_fast_path = 80"

datatype card_error =
    Not_a_card
  | Trailing_data
  | Has_markup
  | Does_not_allow str
  | Requires str
  | Unknown_layout str
  | Model_failed str

definition card_layout :: "card \<Rightarrow> str" where
  "card_layout c = to_lower (trim_space (cd_layout c))"

definition normalize_model_card :: "card \<Rightarrow> card" where
  "normalize_model_card c =
     (let l = card_layout c in
      if l = ''hero'' \<or> l = ''status'' then
        c\<lparr>cd_primary := (if cd_primary c = [] \<and> cd_body c \<noteq> [] then cd_body c else cd_primary c), cd_body := [], cd_items := []\<rparr>
      else if l = ''text'' then
        c\<lparr>cd_body := (if cd_body c = [] \<and> cd_primary c \<noteq> [] then cd_primary c else cd_body c), cd_primary := [], cd_items := []\<rparr>
      else if l = ''list'' then
        c\<lparr>cd_items := (if cd_items c \<noteq> [] then cd_items c
             else if cd_primary c \<noteq> [] then [cd_primary c]
             else if cd_body c \<noteq> [] then [cd_body c] else []),
          cd_primary := [], cd_body := []\<rparr>
      else c)"

fun sanitize_items :: "str list \<Rightarrow> card_error + str list" where
  "sanitize_items [] = Inr []"
| "sanitize_items (i # is) =
     (let item = normalize_space i in
      if contains_markup item then Inl Has_markup
      else case sanitize_items is of
        Inl e \<Rightarrow> Inl e
      | Inr rest \<Rightarrow> Inr (if item = [] then rest else truncate_runes item max_list_item # rest))"

definition check_layout :: "card \<Rightarrow> card_error + card" where
  "check_layout c =
     (let l = cd_layout c in
      if l = ''hero'' \<or> l = ''status'' then
        (if cd_body c \<noteq> [] \<or> cd_items c \<noteq> [] then Inl (Does_not_allow l)
         else if cd_title c = [] \<or> cd_primary c = [] then Inl (Requires l) else Inr c)
      else if l = ''text'' then
        (if cd_primary c \<noteq> [] \<or> cd_items c \<noteq> [] then Inl (Does_not_allow l)
         else if cd_title c = [] \<or> cd_body c = [] then Inl (Requires l) else Inr c)
      else if l = ''list'' then
        (if cd_primary c \<noteq> [] \<or> cd_body c \<noteq> [] then Inl (Does_not_allow l)
         else if cd_title c = [] \<or> cd_items c = [] then Inl (Requires l) else Inr c)
      else Inl (Unknown_layout l))"

definition sanitize_card :: "card \<Rightarrow> card_error + card" where
  "sanitize_card c =
     (let title = normalize_space (cd_title c); primary = normalize_space (cd_primary c);
          secondary = normalize_space (cd_secondary c); detail = normalize_space (cd_detail c); body = normalize_space (cd_body c)
      in if list_ex contains_markup [title, primary, secondary, detail, body] then Inl Has_markup
         else case sanitize_items (take max_list_items (cd_items c)) of
           Inl e \<Rightarrow> Inl e
         | Inr items \<Rightarrow> check_layout
             \<lparr>cd_layout = card_layout c, cd_title = truncate_runes title max_title, cd_primary = truncate_runes primary max_primary,
              cd_secondary = truncate_runes secondary max_secondary, cd_detail = truncate_runes detail max_detail,
              cd_body = truncate_runes body max_body, cd_items = items\<rparr>)"

section \<open>What a model says\<close>

definition card_fields :: "str list" where
  "card_fields = [''layout'', ''title'', ''primary'', ''secondary'', ''detail'', ''body'']"

text \<open>\<open>null\<close> leaves a text empty.\<close>

fun text_value :: "json \<Rightarrow> str option" where
  "text_value JNull = Some []"
| "text_value (JStr s) = Some s"
| "text_value _ = None"

fun card_items :: "json option \<Rightarrow> str list option" where
  "card_items None = Some []"
| "card_items (Some JNull) = Some []"
| "card_items (Some (JArr js)) =
     (if list_all (\<lambda>j. text_value j \<noteq> None) js then Some (map (\<lambda>j. case text_value j of Some t \<Rightarrow> t | None \<Rightarrow> []) js) else None)"
| "card_items (Some _) = None"

text \<open>Fields are matched without regard to case; one that is unknown or of another type is an error.\<close>

definition card_field_ok :: "str \<times> json \<Rightarrow> bool" where
  "card_field_ok kv \<longleftrightarrow>
     (to_lower (fst kv) \<in> set card_fields \<and> text_value (snd kv) \<noteq> None) \<or>
     (to_lower (fst kv) = ''items'' \<and> card_items (Some (snd kv)) \<noteq> None)"

definition card_text :: "str \<Rightarrow> json \<Rightarrow> str" where
  "card_text name j = (case as_string (struct_field name (Json j)) of Some s \<Rightarrow> s | None \<Rightarrow> [])"

definition decode_card :: "json \<Rightarrow> card option" where
  "decode_card j =
     (case j of
        JNull \<Rightarrow> Some empty_card
      | JObj kvs \<Rightarrow>
          if list_all card_field_ok kvs
          then Some \<lparr>cd_layout = card_text ''layout'' j, cd_title = card_text ''title'' j, cd_primary = card_text ''primary'' j,
            cd_secondary = card_text ''secondary'' j, cd_detail = card_text ''detail'' j, cd_body = card_text ''body'' j,
            cd_items = (case card_items (struct_field ''items'' (Json j)) of Some is \<Rightarrow> is | None \<Rightarrow> [])\<rparr>
          else None
      | _ \<Rightarrow> None)"

text \<open>\<open>More\<close> asks for another element: white space, a closing bracket or a closing brace is none.\<close>

definition more_data :: "str \<Rightarrow> bool" where
  "more_data rest \<longleftrightarrow> (case dropWhile (\<lambda>c. c \<in> {CHR '' '', CHR 9, CHR 10, CHR 13}) rest of
     [] \<Rightarrow> False | c # _ \<Rightarrow> c \<noteq> CHR '']'' \<and> c \<noteq> CHR 0x7D)"

definition decode_model_card :: "(str \<Rightarrow> (json \<times> str) option) \<Rightarrow> str \<Rightarrow> card_error + card" where
  "decode_model_card parse data =
     (case parse data of
        None \<Rightarrow> Inl Not_a_card
      | Some (j, rest) \<Rightarrow>
          (case decode_card j of
             None \<Rightarrow> Inl Not_a_card
           | Some c \<Rightarrow> if more_data rest then Inl Trailing_data else sanitize_card (normalize_model_card c)))"

section \<open>Projecting a turn\<close>

definition new_fast_path :: "int \<Rightarrow> int" where
  "new_fast_path n = (if n \<le> 0 then default_fast_path else n)"

definition is_sentence_end :: "char \<Rightarrow> bool" where
  "is_sentence_end c \<longleftrightarrow> c = CHR ''.'' \<or> c = CHR ''!'' \<or> c = CHR ''?''"

definition simple_card :: "int \<Rightarrow> str \<Rightarrow> card option" where
  "simple_card limit response =
     (let limit = new_fast_path limit; s = normalize_space response in
      if s = [] \<or> limit < int (rune_count s) \<or> list_ex (\<lambda>c. c = CHR 10 \<or> c = CHR 13 \<or> c \<in> set markup_chars) s then None
      else let primary = trim_right is_sentence_end s in
        if rune_count s \<le> max_primary \<and> primary \<noteq> []
        then Some (empty_card\<lparr>cd_layout := ''hero'', cd_title := ''Answer'', cd_primary := primary\<rparr>)
        else Some (empty_card\<lparr>cd_layout := ''text'', cd_title := ''Answer'', cd_body := s\<rparr>))"

definition project_card :: "(str \<Rightarrow> str \<Rightarrow> str + str) \<Rightarrow> (str \<Rightarrow> (json \<times> str) option) \<Rightarrow> int \<Rightarrow> str \<Rightarrow> str \<Rightarrow> card_error + card" where
  "project_card ask parse limit transcript response =
     (case simple_card limit response of
        Some c \<Rightarrow> sanitize_card c
      | None \<Rightarrow>
          (case ask transcript response of
             Inl e \<Rightarrow> Inl (Model_failed e)
           | Inr output \<Rightarrow> decode_model_card parse output))"

record completed_turn =
  ct_session :: str
  ct_turn_id :: str
  ct_turn_seq :: "64 word"
  ct_transcript :: str
  ct_response :: str
  ct_interrupted :: bool

record card_event =
  ce_topic :: str
  ce_type :: str
  ce_version :: nat
  ce_session :: str
  ce_turn_id :: str
  ce_turn_seq :: "64 word"
  ce_card :: card

definition card_topic :: str where "card_topic = ''display.card''"

definition project_turn :: "(str \<Rightarrow> str \<Rightarrow> str + str) \<Rightarrow> (str \<Rightarrow> (json \<times> str) option) \<Rightarrow> int \<Rightarrow> completed_turn \<Rightarrow> card_error + card_event option" where
  "project_turn ask parse limit t =
     (if ct_interrupted t then Inr None
      else case project_card ask parse (new_fast_path limit) (ct_transcript t) (ct_response t) of
        Inl e \<Rightarrow> Inl e
      | Inr c \<Rightarrow> Inr (Some \<lparr>ce_topic = card_topic, ce_type = card_topic, ce_version = 1, ce_session = ct_session t,
          ce_turn_id = ct_turn_id t, ce_turn_seq = ct_turn_seq t, ce_card = c\<rparr>))"

section \<open>Truncated texts\<close>

lemma runes_Nil [simp]: "runes [] = []"
  by (subst runes.simps) simp

lemma runes_nonempty: "s \<noteq> [] \<Longrightarrow> runes s \<noteq> []"
  by (subst runes.simps) (simp add: Let_def)

lemma rune_len_self: "rune_len s \<noteq> 0 \<Longrightarrow> rune_len (take (rune_len s) s) = length (take (rune_len s) s)"
  using rune_len_take [of s] rune_len_le [of s] by simp

lemma runes_valid: "r \<in> set (runes s) \<Longrightarrow> r \<noteq> [] \<and> (rune_len r = 0 \<or> rune_len r = length r)"
proof (induction s rule: runes.induct)
  case (1 s)
  then have s: "s \<noteq> []" by auto
  let ?n = "max 1 (rune_len s)"
  have "r = take ?n s \<or> r \<in> set (runes (drop ?n s))"
    using 1(2) s by (subst (asm) runes.simps) (simp add: Let_def)
  then show ?case
  proof
    assume r: "r = take ?n s"
    show ?thesis
    proof (cases "rune_len s = 0")
      case True
      with r s obtain c where "r = [c]" by (cases s) auto
      then show ?thesis using rune_len_le [of "[c]"] by (auto simp del: rune_len.simps)
    next
      case False
      then have "?n = rune_len s" by simp
      with r False s rune_len_self [OF False] show ?thesis by (auto simp: rune_len_take)
    qed
  qed (use 1(1) s in auto)
qed

lemma runes_concat:
  "list_all (\<lambda>r. r \<noteq> [] \<and> rune_len r = length r) rs \<Longrightarrow> runes (concat rs) = rs"
proof (induction rs)
  case (Cons r rs)
  then have "rune_len (r @ concat rs) = length r" by (simp add: rune_len_append)
  with Cons show ?case by (subst runes.simps) (simp add: Let_def max_def Suc_le_eq)
qed simp

lemma valid_rune_whole: "r \<in> set (runes s) \<Longrightarrow> valid_rune r \<noteq> [] \<and> rune_len (valid_rune r) = length (valid_rune r)"
  using runes_valid [of r s] by (auto simp: valid_rune_def trail_def)

lemma truncate_runes_fits: "rune_count (truncate_runes s n) \<le> n"
proof (cases "rune_count s \<le> n")
  case False
  have "list_all (\<lambda>r. r \<noteq> [] \<and> rune_len r = length r) (map valid_rune (take n (runes s)))"
    using valid_rune_whole by (auto simp: list_all_iff dest: in_set_takeD)
  then show ?thesis using False by (simp add: truncate_runes_def rune_count_def runes_concat)
qed (simp add: truncate_runes_def)

lemma truncate_runes_Nil: "0 < n \<Longrightarrow> truncate_runes s n = [] \<longleftrightarrow> s = []"
proof -
  assume "0 < n"
  have "concat (map valid_rune (take n (runes s))) \<noteq> []" if "s \<noteq> []"
  proof -
    note nonempty = that
    obtain r rs where r: "runes s = r # rs" using runes_nonempty [OF nonempty] by (cases "runes s") auto
    then have "valid_rune r \<noteq> []" using valid_rune_whole [of r s] by simp
    with r \<open>0 < n\<close> show ?thesis by (cases n) auto
  qed
  then show ?thesis by (auto simp: truncate_runes_def rune_count_def)
qed

section \<open>What the screen can show\<close>

definition card_fits :: "card \<Rightarrow> bool" where
  "card_fits c \<longleftrightarrow>
     rune_count (cd_title c) \<le> max_title \<and> rune_count (cd_primary c) \<le> max_primary \<and>
     rune_count (cd_secondary c) \<le> max_secondary \<and> rune_count (cd_detail c) \<le> max_detail \<and>
     rune_count (cd_body c) \<le> max_body \<and> length (cd_items c) \<le> max_list_items \<and>
     list_all (\<lambda>i. i \<noteq> [] \<and> rune_count i \<le> max_list_item) (cd_items c) \<and> cd_title c \<noteq> [] \<and>
     (cd_layout c \<in> {''hero'', ''status''} \<and> cd_primary c \<noteq> [] \<and> cd_body c = [] \<and> cd_items c = [] \<or>
      cd_layout c = ''text'' \<and> cd_body c \<noteq> [] \<and> cd_primary c = [] \<and> cd_items c = [] \<or>
      cd_layout c = ''list'' \<and> cd_items c \<noteq> [] \<and> cd_primary c = [] \<and> cd_body c = [])"

lemma sanitize_items_fit:
  "sanitize_items is = Inr items \<Longrightarrow> length items \<le> length is \<and> list_all (\<lambda>i. i \<noteq> [] \<and> rune_count i \<le> max_list_item) items"
proof (induction "is" arbitrary: items)
  case (Cons i "is")
  then obtain rest where rest: "sanitize_items is = Inr rest"
    "items = (if normalize_space i = [] then rest else truncate_runes (normalize_space i) max_list_item # rest)"
    by (auto simp: Let_def split: if_splits sum.splits)
  with Cons.IH [OF rest(1)] show ?case by (auto simp: truncate_runes_fits truncate_runes_Nil max_list_item_def)
qed simp

lemma check_layout_same: "check_layout c = Inr c' \<Longrightarrow> c' = c"
  by (auto simp: check_layout_def Let_def split: if_splits)

lemma check_layout_shape:
  "check_layout c = Inr c' \<Longrightarrow> cd_title c \<noteq> [] \<and>
     (cd_layout c \<in> {''hero'', ''status''} \<and> cd_primary c \<noteq> [] \<and> cd_body c = [] \<and> cd_items c = [] \<or>
      cd_layout c = ''text'' \<and> cd_body c \<noteq> [] \<and> cd_primary c = [] \<and> cd_items c = [] \<or>
      cd_layout c = ''list'' \<and> cd_items c \<noteq> [] \<and> cd_primary c = [] \<and> cd_body c = [])"
  by (auto simp: check_layout_def Let_def split: if_splits)

lemma sanitized_card_fits:
  assumes "sanitize_card c = Inr c'"
  shows "card_fits c'"
proof -
  from assms obtain items where items: "sanitize_items (take max_list_items (cd_items c)) = Inr items"
    and c: "check_layout \<lparr>cd_layout = card_layout c, cd_title = truncate_runes (normalize_space (cd_title c)) max_title,
      cd_primary = truncate_runes (normalize_space (cd_primary c)) max_primary,
      cd_secondary = truncate_runes (normalize_space (cd_secondary c)) max_secondary,
      cd_detail = truncate_runes (normalize_space (cd_detail c)) max_detail,
      cd_body = truncate_runes (normalize_space (cd_body c)) max_body, cd_items = items\<rparr> = Inr c'"
    by (auto simp: sanitize_card_def Let_def split: if_splits sum.splits)
  from sanitize_items_fit [OF items] have "length items \<le> max_list_items"
    "list_all (\<lambda>i. i \<noteq> [] \<and> rune_count i \<le> max_list_item) items" by auto
  with check_layout_shape [OF c] check_layout_same [OF c] show ?thesis
    unfolding card_fits_def by (simp add: truncate_runes_fits)
qed

text \<open>Whatever the model says, a card that leaves the plugin fits the screen: every text within its limit in
  characters, a known layout with the fields it wants and none it does not, at most four items and
  none of them empty; and it names the turn it belongs to. An interrupted turn has no card.\<close>

theorem every_card_fits_the_screen:
  assumes "project_turn ask parse limit t = Inr (Some e)"
  shows "card_fits (ce_card e) \<and> ce_session e = ct_session t \<and> ce_turn_id e = ct_turn_id t \<and> ce_turn_seq e = ct_turn_seq t \<and>
    \<not> ct_interrupted t"
proof -
  from assms obtain c where c: "project_card ask parse (new_fast_path limit) (ct_transcript t) (ct_response t) = Inr c"
    "ce_card e = c" "\<not> ct_interrupted t"
    "ce_session e = ct_session t" "ce_turn_id e = ct_turn_id t" "ce_turn_seq e = ct_turn_seq t"
    by (auto simp: project_turn_def split: if_splits sum.splits)
  from c(1) have "\<exists>c0. sanitize_card c0 = Inr c"
    by (auto simp: project_card_def decode_model_card_def split: option.splits sum.splits if_splits)
  with c(2-) sanitized_card_fits show ?thesis by auto
qed

section \<open>The short way\<close>

lemma set_join_fields: "c \<in> set (join '' '' ws) \<Longrightarrow> c = CHR '' '' \<or> (\<exists>w \<in> set ws. c \<in> set w)"
  by (induction ws rule: induct_list012) auto

lemma fields_aux_chars: "w \<in> set (fields_aux acc s) \<Longrightarrow> c \<in> set w \<Longrightarrow> c \<in> set acc \<or> c \<in> set s"
  by (induction acc s rule: fields_aux.induct) (auto split: if_splits)

lemma normalize_chars: "c \<in> set (normalize_space s) \<Longrightarrow> c = CHR '' '' \<or> c \<in> set s"
  using set_join_fields [of c "str_fields s"] fields_aux_chars [of _ "[]" s c] by (auto simp: normalize_space_def str_fields_def)

lemma plain_text_no_markup:
  assumes "\<not> list_ex (\<lambda>c. c \<in> set markup_chars) s"
  shows "\<not> contains_markup (normalize_space s)"
proof -
  have plain: "c \<notin> set markup_chars" if "c \<in> set (normalize_space s)" for c
    using normalize_chars [OF that] assms by (auto simp: list_ex_iff markup_chars_def)
  moreover have "\<not> contains_str (normalize_space s) ''```''"
    using plain [of "CHR 0x60"] by (auto simp: contains_str_iff markup_chars_def)
  ultimately show ?thesis by (auto simp: contains_markup_def list_ex_iff)
qed

lemma normalize_space_idem [simp]: "normalize_space (normalize_space s) = normalize_space s"
  by (simp add: normalize_space_def)

lemma fields_aux_Nil: "fields_aux acc s = [] \<Longrightarrow> acc = [] \<and> list_all is_space s"
  by (induction acc s rule: fields_aux.induct) (auto split: if_splits)

lemma join_Nil: "list_all (\<lambda>w. w \<noteq> []) ws \<Longrightarrow> join '' '' ws = [] \<Longrightarrow> ws = []"
  by (induction ws rule: induct_list012) auto

lemma normalize_Nil: "normalize_space s = [] \<Longrightarrow> list_all is_space s"
  using join_Nil [of "str_fields s"] fields_nonempty [of _ s] fields_aux_Nil [of "[]" s]
  by (auto simp: normalize_space_def str_fields_def list_all_iff)

lemma normalized_head:
  assumes "normalize_space s = c # t"
  shows "\<not> is_space c"
proof -
  obtain w ws where w: "str_fields s = w # ws" using assms by (cases "str_fields s") (auto simp: normalize_space_def)
  then have "w \<noteq> []" "list_all (\<lambda>c. \<not> is_space c) w" using fields_nonempty [of w s] fields_no_space [of w s] by auto
  with assms w show ?thesis by (cases w; cases ws) (auto simp: normalize_space_def)
qed

lemma trim_right_prefix: "\<exists>t. s = trim_right p s @ t"
  by (metis rev_append rev_rev_ident takeWhile_dropWhile_id trim_right_def)

text \<open>A short and plain answer becomes a card without asking a model, and never fails to.\<close>

theorem short_answer_needs_no_model:
  assumes "simple_card limit response = Some c0"
  shows "\<exists>c. project_card ask parse limit transcript response = Inr c \<and> card_fits c"
proof -
  let ?s = "normalize_space response"
  have s: "?s \<noteq> []" "\<not> list_ex (\<lambda>c. c \<in> set markup_chars) ?s"
    using assms by (auto simp: simple_card_def Let_def list_ex_iff split: if_splits)
  have answer: "normalize_space ''Answer'' = ''Answer''" "\<not> contains_markup ''Answer''" by code_simp+
  have empty: "normalize_space [] = []" "\<not> contains_markup []" "truncate_runes [] n = []" for n
    by (auto simp: normalize_space_def str_fields_def contains_markup_def contains_str_def truncate_runes_def rune_count_def)
  have title: "truncate_runes ''Answer'' max_title \<noteq> []" by (simp add: truncate_runes_Nil max_title_def)
  have layouts: "card_layout (empty_card\<lparr>cd_layout := ''hero'', cd_title := a, cd_primary := b\<rparr>) = ''hero''"
    "card_layout (empty_card\<lparr>cd_layout := ''text'', cd_title := a, cd_body := b\<rparr>) = ''text''" for a b
    by (simp_all add: card_layout_def empty_card_def) (code_simp+)
  have "\<exists>c. sanitize_card c0 = Inr c"
  proof -
    consider (hero) p where "p = trim_right is_sentence_end ?s" "p \<noteq> []"
        "c0 = empty_card\<lparr>cd_layout := ''hero'', cd_title := ''Answer'', cd_primary := p\<rparr>"
      | (plain) "c0 = empty_card\<lparr>cd_layout := ''text'', cd_title := ''Answer'', cd_body := ?s\<rparr>"
      using assms by (auto simp: simple_card_def Let_def split: if_splits)
    then show ?thesis
    proof cases
      case hero
      obtain t where t: "?s = p @ t" using trim_right_prefix [of ?s is_sentence_end] hero(1) by auto
      with hero(2) obtain c u where "p = c # u" by (cases p) auto
      with t normalized_head [of response c "u @ t"] have "\<not> list_all is_space p" by simp
      then have "normalize_space p \<noteq> []" using normalize_Nil by blast
      moreover have "\<not> contains_markup (normalize_space p)" using s(2) t by (intro plain_text_no_markup) (auto simp: list_ex_iff)
      ultimately show ?thesis unfolding hero(3) sanitize_card_def layouts
        by (simp add: empty_card_def answer empty Let_def check_layout_def title truncate_runes_Nil max_primary_def)
    next
      case plain
      have "\<not> contains_markup ?s" using plain_text_no_markup [OF s(2)] by simp
      then show ?thesis unfolding plain sanitize_card_def layouts using s(1)
        by (simp add: empty_card_def answer empty Let_def check_layout_def title truncate_runes_Nil max_body_def)
    qed
  qed
  then obtain c where c: "sanitize_card c0 = Inr c" by blast
  with assms sanitized_card_fits [OF c] show ?thesis by (auto simp: project_card_def)
qed

text \<open>What follows the card is not looked at when it is a closing brace, so more than one object passes.\<close>

lemma trailing_brace_is_accepted: "\<not> more_data [CHR 0x7D, CHR ''x'']"
  by (simp add: more_data_def)

section \<open>Witnesses\<close>

definition sample_turn :: completed_turn where
  "sample_turn = \<lparr>ct_session = ''s1'', ct_turn_id = ''turn_1'', ct_turn_seq = 1, ct_transcript = ''Time?'', ct_response = ''Ten o clock.'',
     ct_interrupted = False\<rparr>"

theorem every_card_fits_the_screen_witness:
  "\<exists>e. project_turn (\<lambda>_ _. Inl []) (\<lambda>_. None) 0 sample_turn = Inr (Some e) \<and> card_fits (ce_card e) \<and> cd_primary (ce_card e) = ''Ten o clock''"
proof -
  have "project_turn (\<lambda>_ _. Inl []) (\<lambda>_. None) 0 sample_turn = Inr (Some
    \<lparr>ce_topic = card_topic, ce_type = card_topic, ce_version = 1, ce_session = ''s1'', ce_turn_id = ''turn_1'', ce_turn_seq = 1,
     ce_card = \<lparr>cd_layout = ''hero'', cd_title = ''Answer'', cd_primary = ''Ten o clock'', cd_secondary = [], cd_detail = [], cd_body = [], cd_items = []\<rparr>\<rparr>)"
    by code_simp
  from every_card_fits_the_screen [OF this] this show ?thesis by auto
qed

theorem short_answer_needs_no_model_witness:
  "\<exists>c. project_card (\<lambda>_ _. Inl []) (\<lambda>_. None) 0 [] ''Yes.'' = Inr c \<and> card_fits c"
proof -
  have "simple_card 0 ''Yes.'' = Some \<lparr>cd_layout = ''hero'', cd_title = ''Answer'', cd_primary = ''Yes'', cd_secondary = [], cd_detail = [], cd_body = [], cd_items = []\<rparr>"
    by code_simp
  from short_answer_needs_no_model [OF this] show ?thesis .
qed

end
