(* ===== verification/Developer_Plugins.thy ===== *)
theory Developer_Plugins
  imports Plugin_Registry Go_Wire
begin

text \<open>
  The two developer plugins (\<open>plugins/plugins/github/main.go\<close>, \<open>codex/main.go\<close>): what each declares and
  when, which tool a call reaches, and the two internal tools with which they reach each other.
  The plugin SDK, the GitHub App and the Codex service behind them are not part of the repository and are
  arguments: what the tools are and do, whether credentials are accepted, how a call's
  parameters are bound and how a call to another plugin is answered.
\<close>

section \<open>Tools\<close>

text \<open>A tool may take the session it runs in and may have a prompt of its own.\<close>

record dev_tool =
  dt_name :: str
  dt_description :: str
  dt_parameters :: json
  dt_confirm :: bool
  dt_thinking :: bool
  dt_run :: "(str option \<Rightarrow> raw \<Rightarrow> str + str)"
  dt_session :: bool
  dt_prompt :: "(raw \<Rightarrow> str) option"

record tool_call_in =
  ti_tool :: str
  ti_session :: str
  ti_params :: raw

definition declared_tool :: "dev_tool \<Rightarrow> tool_spec" where
  "declared_tool t =
     \<lparr>ts_name = dt_name t, ts_description = dt_description t, ts_parameters_raw = Some (dt_parameters t), ts_confirm = dt_confirm t,
      ts_thinking = dt_thinking t, ts_requires = [], ts_internal = False, ts_confirm_prompt = [], ts_dispatch = None, ts_on_partial = None\<rparr>"

definition repository_schema :: "bool \<Rightarrow> json" where
  "repository_schema required =
     JObj ([(''type'', JStr ''object''), (''properties'', JObj [(''repository'', JObj [(''type'', JStr ''string'')])])] @
       (if required then [(''required'', JArr [JStr ''repository''])] else []))"

definition internal_tool :: "str \<Rightarrow> str \<Rightarrow> bool \<Rightarrow> tool_spec" where
  "internal_tool name description required =
     \<lparr>ts_name = name, ts_description = description, ts_parameters_raw = Some (repository_schema required), ts_confirm = False,
      ts_thinking = False, ts_requires = [], ts_internal = True, ts_confirm_prompt = [], ts_dispatch = None, ts_on_partial = None\<rparr>"

text \<open>The tools by name: the last of a name wins, as in a map that is filled in order.\<close>

definition find_tool :: "dev_tool list \<Rightarrow> str \<Rightarrow> dev_tool option" where
  "find_tool ts name = find (\<lambda>t. dt_name t = name) (rev ts)"

definition run_dev_tool :: "dev_tool list \<Rightarrow> tool_call_in \<Rightarrow> str + str" where
  "run_dev_tool ts c =
     (case find_tool ts (ti_tool c) of
        None \<Rightarrow> Inl (''unknown tool: '' @ ti_tool c)
      | Some t \<Rightarrow> dt_run t (if dt_session t then Some (ti_session c) else None) (ti_params c))"

definition confirm_dev_tool :: "dev_tool list \<Rightarrow> tool_call_in \<Rightarrow> str + str" where
  "confirm_dev_tool ts c =
     (case find_tool ts (ti_tool c) of
        None \<Rightarrow> Inl (''unknown tool: '' @ ti_tool c)
      | Some t \<Rightarrow> Inr (case dt_prompt t of None \<Rightarrow> [] | Some ask \<Rightarrow> ask (ti_params c)))"

definition clone_credentials_tool :: str where "clone_credentials_tool = ''github.clone_credentials''"
definition task_source_tool :: str where "task_source_tool = ''codex.pull_request_source''"

definition em_dash :: str where "em_dash = [CHR 0xE2, CHR 0x80, CHR 0x94]"

definition clone_credentials_description :: str where
  "clone_credentials_description =
     ''Internal: a clone URL and a short-lived installation token for an allowlisted repository. '' @ ''Not for the model '' @ em_dash @
     '' this is how a developer agent fetches a repository it has no credential for.''"

definition task_source_description :: str where
  "task_source_description =
     ''Internal: the worktree, branch and summary of the Codex task open in this conversation. '' @ ''Not for the model '' @ em_dash @
     '' this is how a pull request finds the change it should publish.''"

section \<open>GitHub\<close>

text \<open>\<open>gs_tools\<close> says which tools there are, with or without a source of tasks.\<close>

record github_service =
  gs_tools :: "bool \<Rightarrow> dev_tool list"
  gs_clone :: "str \<Rightarrow> str + (str \<times> str)"

record github_plugin =
  gp_service :: "github_service option"
  gp_tools :: "dev_tool list"

definition new_github :: github_plugin where
  "new_github = \<lparr>gp_service = None, gp_tools = []\<rparr>"

definition github_declare :: "github_service \<Rightarrow> bool \<Rightarrow> github_plugin \<Rightarrow> github_plugin \<times> tool_spec list" where
  "github_declare svc tasks p =
     (p\<lparr>gp_tools := gs_tools svc tasks\<rparr>,
      internal_tool clone_credentials_tool
        clone_credentials_description True #
      map declared_tool (gs_tools svc tasks))"

text \<open>\<open>settings\<close> are what binding them gave, with the plugin's switch and what the App's credentials lead to.\<close>

definition github_initialize :: "str + (bool \<times> (str + github_service)) \<Rightarrow> github_plugin \<Rightarrow> github_plugin \<times> (str + tool_spec list)" where
  "github_initialize settings p =
     (case settings of
        Inl e \<Rightarrow> (p, Inl (''read settings: '' @ e))
      | Inr (enabled, auth) \<Rightarrow>
          if \<not> enabled then (p, Inr [])
          else case auth of
            Inl e \<Rightarrow> (p, Inr [])
          | Inr svc \<Rightarrow> (case github_declare svc False (p\<lparr>gp_service := Some svc\<rparr>) of (p, ts) \<Rightarrow> (p, Inr ts)))"

text \<open>\<open>None\<close> leaves what was declared as it is.\<close>

definition github_ready :: "(str \<Rightarrow> bool) \<Rightarrow> github_plugin \<Rightarrow> github_plugin \<times> tool_spec list option" where
  "github_ready has p =
     (case gp_service p of
        None \<Rightarrow> (p, None)
      | Some svc \<Rightarrow>
          if \<not> has task_source_tool then (p, None)
          else (case github_declare svc True p of (p, ts) \<Rightarrow> (p, Some ts)))"

definition github_clone_credentials :: "github_service option \<Rightarrow> (str + str) \<Rightarrow> str + json" where
  "github_clone_credentials svc repository =
     (case svc of
        None \<Rightarrow> Inl ''github is not configured''
      | Some s \<Rightarrow>
          (case repository of
             Inl e \<Rightarrow> Inl e
           | Inr r \<Rightarrow>
               (case gs_clone s r of
                  Inl e \<Rightarrow> Inl e
                | Inr (url, token) \<Rightarrow> Inr (JObj [(''token'', JStr token), (''url'', JStr url)]))))"

text \<open>What a call gives: the credentials, or a tool's answer.\<close>

definition github_execute :: "(raw \<Rightarrow> str + str) \<Rightarrow> github_plugin \<Rightarrow> tool_call_in \<Rightarrow> str + (json + str)" where
  "github_execute bind_repository p c =
     (if ti_tool c = clone_credentials_tool
      then map_sum (\<lambda>e. e) Inl (github_clone_credentials (gp_service p) (bind_repository (ti_params c)))
      else map_sum (\<lambda>e. e) Inr (run_dev_tool (gp_tools p) c))"

definition github_confirm :: "github_plugin \<Rightarrow> tool_call_in \<Rightarrow> str + str" where
  "github_confirm p c = confirm_dev_tool (gp_tools p) c"

record task_change =
  tk_worktree :: str
  tk_branch :: str
  tk_title :: str
  tk_summary :: str
  tk_tests_run :: bool

text \<open>The branch a pull request is opened from, asked of the Codex plugin; \<open>answer\<close> is what it says.\<close>

definition github_task_source :: "str + raw \<Rightarrow> str + task_change" where
  "github_task_source answer =
     (case answer of
        Inl e \<Rightarrow> Inl e
      | Inr m \<Rightarrow>
          if \<not> into_struct m then Inl (task_source_tool @ '' answered'')
          else case (as_string (struct_field ''worktree_path'' m), as_string (struct_field ''branch'' m), as_string (struct_field ''title'' m),
              as_string (struct_field ''summary'' m), as_bool (struct_field ''tests_run'' m), as_string (struct_field ''error'' m)) of
            (Some w, Some b, Some t, Some s, Some r, Some e) \<Rightarrow>
              if e \<noteq> [] then Inl e
              else Inr \<lparr>tk_worktree = w, tk_branch = b, tk_title = t, tk_summary = s, tk_tests_run = r\<rparr>
          | _ \<Rightarrow> Inl (task_source_tool @ '' answered''))"

section \<open>Codex\<close>

record codex_manager =
  cm_tools :: "dev_tool list"
  cm_source :: "str \<Rightarrow> str \<Rightarrow> str + task_change"

record codex_plugin =
  cx_manager :: "codex_manager option"
  cx_tools :: "dev_tool list"

definition new_codex :: codex_plugin where
  "new_codex = \<lparr>cx_manager = None, cx_tools = []\<rparr>"

text \<open>Creating the manager may fail, and so may starting it.\<close>

definition codex_initialize :: "str + (bool \<times> (str + codex_manager) \<times> str option) \<Rightarrow> codex_plugin \<Rightarrow> codex_plugin \<times> (str + tool_spec list)" where
  "codex_initialize settings p =
     (case settings of
        Inl e \<Rightarrow> (p, Inl (''read settings: '' @ e))
      | Inr (enabled, created, started) \<Rightarrow>
          if \<not> enabled then (p, Inr [])
          else case created of
            Inl e \<Rightarrow> (p, Inr [])
          | Inr m \<Rightarrow>
              (case started of
                 Some e \<Rightarrow> (p, Inr [])
               | None \<Rightarrow>
                   (p\<lparr>cx_manager := Some m, cx_tools := cx_tools p @ cm_tools m\<rparr>,
                    Inr (internal_tool task_source_tool
                      task_source_description False #
                      map declared_tool (cm_tools m)))))"

definition codex_ready :: "(str \<Rightarrow> bool) \<Rightarrow> codex_plugin \<Rightarrow> codex_plugin \<times> tool_spec list option" where
  "codex_ready has p = (p, None)"

definition codex_pull_request_source :: "codex_manager option \<Rightarrow> str \<Rightarrow> (str + str) \<Rightarrow> str + json" where
  "codex_pull_request_source m session repository =
     (case m of
        None \<Rightarrow> Inl ''codex is not configured''
      | Some mgr \<Rightarrow>
          (case repository of
             Inl e \<Rightarrow> Inl e
           | Inr r \<Rightarrow>
               (case cm_source mgr session r of
                  Inl e \<Rightarrow> Inl e
                | Inr ch \<Rightarrow> Inr (JObj [(''worktree_path'', JStr (tk_worktree ch)), (''branch'', JStr (tk_branch ch)),
                    (''title'', JStr (tk_title ch)), (''summary'', JStr (tk_summary ch)), (''tests_run'', JBool (tk_tests_run ch))]))))"

definition codex_execute :: "(raw \<Rightarrow> str + str) \<Rightarrow> codex_plugin \<Rightarrow> tool_call_in \<Rightarrow> str + (json + str)" where
  "codex_execute bind_repository p c =
     (if ti_tool c = task_source_tool
      then map_sum (\<lambda>e. e) Inl (codex_pull_request_source (cx_manager p) (ti_session c) (bind_repository (ti_params c)))
      else map_sum (\<lambda>e. e) Inr (run_dev_tool (cx_tools p) c))"

definition codex_confirm :: "codex_plugin \<Rightarrow> tool_call_in \<Rightarrow> str + str" where
  "codex_confirm p c = confirm_dev_tool (cx_tools p) c"

text \<open>The credential to clone a repository with, asked of the GitHub plugin.\<close>

definition codex_clone_credentials :: "str \<Rightarrow> str + raw \<Rightarrow> str + (str \<times> str)" where
  "codex_clone_credentials repository answer =
     (let failed = (\<lambda>why. Inl (''clone credentials for '' @ repository @ '': '' @ why)) in
      case answer of
        Inl e \<Rightarrow> failed e
      | Inr m \<Rightarrow>
          if \<not> into_struct m then failed ''unreadable answer''
          else case (as_string (struct_field ''url'' m), as_string (struct_field ''token'' m), as_string (struct_field ''error'' m)) of
            (Some url, Some token, Some e) \<Rightarrow> if e \<noteq> [] then failed e else Inr (url, token)
          | _ \<Rightarrow> failed ''unreadable answer'')"

section \<open>The two together\<close>

lemma answer_fields [simp]:
  "to_lower ''token'' = ''token''" "to_lower ''url'' = ''url''" "to_lower ''worktree_path'' = ''worktree_path''"
  "to_lower ''branch'' = ''branch''" "to_lower ''title'' = ''title''" "to_lower ''summary'' = ''summary''"
  "to_lower ''tests_run'' = ''tests_run''"
  by (code_simp; rule TrueI)+

definition as_answer :: "str + json \<Rightarrow> str + raw" where
  "as_answer = map_sum (\<lambda>e. e) Json"

text \<open>What crosses between the two plugins arrives as it was sent: Codex gets the clone URL and the token
  that GitHub minted for the repository, and GitHub gets the worktree, branch, title, summary and
  test result of the task open in the conversation; a refusal arrives as a refusal.\<close>

theorem plugins_exchange_what_they_mean:
  "codex_clone_credentials repo (as_answer (github_clone_credentials (Some svc) (Inr repo))) =
     (case gs_clone svc repo of Inl e \<Rightarrow> Inl (''clone credentials for '' @ repo @ '': '' @ e) | Inr ut \<Rightarrow> Inr ut) \<and>
   github_task_source (as_answer (codex_pull_request_source (Some m) session (Inr repo))) = cm_source m session repo"
proof
  show "codex_clone_credentials repo (as_answer (github_clone_credentials (Some svc) (Inr repo))) =
     (case gs_clone svc repo of Inl e \<Rightarrow> Inl (''clone credentials for '' @ repo @ '': '' @ e) | Inr ut \<Rightarrow> Inr ut)"
    by (cases "gs_clone svc repo")
      (auto simp: codex_clone_credentials_def github_clone_credentials_def as_answer_def struct_field_def Let_def)
  show "github_task_source (as_answer (codex_pull_request_source (Some m) session (Inr repo))) = cm_source m session repo"
    by (cases "cm_source m session repo")
      (auto simp: github_task_source_def codex_pull_request_source_def as_answer_def struct_field_def)
qed

text \<open>A tool registered under a host's declaration.\<close>

lemma internal_tool_hidden: "get_tool (register (Hosted h (internal_tool n d b)) reg) n = None"
  by (simp add: get_tool_def lookup_tool_def register_def internal_tool_def is_internal_def update_conv)

lemma fold_register_lookup:
  "n \<notin> (\<lambda>r. ts_name (spec_of r)) ` set rs \<Longrightarrow> map_of (fold register rs reg) n = map_of reg n"
  by (induction rs arbitrary: reg) (auto simp: register_def update_conv)

text \<open>Credentials are out of the model's reach: once GitHub's declaration is registered no tool of the name that
  mints a token can be called by the model, though the plugin answers it; and without a source of
  tasks only what needs none is offered.\<close>

theorem credentials_are_out_of_reach:
  assumes "github_initialize (Inr (True, Inr svc)) new_github = (p, Inr specs)"
    and "list_all (\<lambda>t. dt_name t \<noteq> clone_credentials_tool) (gs_tools svc False)"
  shows "get_tool (fold register (map (Hosted h) specs) reg) clone_credentials_tool = None \<and>
    github_execute bnd p \<lparr>ti_tool = clone_credentials_tool, ti_session = s, ti_params = m\<rparr> =
      map_sum (\<lambda>e. e) Inl (github_clone_credentials (Some svc) (bnd m)) \<and>
    map ts_name (tl specs) = map dt_name (gs_tools svc False)"
proof -
  from assms(1) have p: "p = \<lparr>gp_service = Some svc, gp_tools = gs_tools svc False\<rparr>"
    and specs: "\<exists>d. specs = internal_tool clone_credentials_tool d True # map declared_tool (gs_tools svc False)"
    by (auto simp: github_initialize_def github_declare_def new_github_def)
  then obtain d where d: "specs = internal_tool clone_credentials_tool d True # map declared_tool (gs_tools svc False)" by blast
  have "clone_credentials_tool \<notin> (\<lambda>r. ts_name (spec_of r)) ` set (map (Hosted h) (map declared_tool (gs_tools svc False)))"
    using assms(2) by (auto simp: list_all_iff declared_tool_def)
  from fold_register_lookup [OF this] internal_tool_hidden [of h clone_credentials_tool d True reg]
  have "get_tool (fold register (map (Hosted h) specs) reg) clone_credentials_tool = None"
    by (simp add: d get_tool_def lookup_tool_def)
  then show ?thesis by (simp add: p d github_execute_def declared_tool_def comp_def)
qed

text \<open>A call reaches the tool that was declared: after any declaration of the GitHub plugin every declared
  name is answered by the tool of that name, and a name that was not declared is refused.\<close>

theorem declared_tools_are_answered:
  assumes "github_declare svc tasks p0 = (p, specs)" and "distinct (map dt_name (gs_tools svc tasks))"
    and "clone_credentials_tool \<notin> set (map dt_name (gs_tools svc tasks))" and "name \<noteq> clone_credentials_tool"
  shows "github_execute bnd p \<lparr>ti_tool = name, ti_session = s, ti_params = m\<rparr> =
    (case find (\<lambda>t. dt_name t = name) (gs_tools svc tasks) of
       None \<Rightarrow> Inl (''unknown tool: '' @ name)
     | Some t \<Rightarrow> map_sum (\<lambda>e. e) Inr (dt_run t (if dt_session t then Some s else None) m)) \<and>
    (name \<in> set (map ts_name specs) \<longleftrightarrow> find (\<lambda>t. dt_name t = name) (gs_tools svc tasks) \<noteq> None)"
proof -
  have p: "gp_tools p = gs_tools svc tasks" and specs: "map ts_name specs = clone_credentials_tool # map dt_name (gs_tools svc tasks)"
    using assms(1) by (auto simp: github_declare_def declared_tool_def internal_tool_def comp_def)
  have "find (\<lambda>t. dt_name t = name) (rev ts) = find (\<lambda>t. dt_name t = name) ts" if "distinct (map dt_name ts)" for ts :: "dev_tool list"
    using that
  proof (induction ts)
    case (Cons t ts)
    have app: "find P (xs @ ys) = (case find P xs of None \<Rightarrow> find P ys | Some x \<Rightarrow> Some x)" for P :: "dev_tool \<Rightarrow> bool" and xs ys
      by (induction xs) auto
    show ?case
    proof (cases "dt_name t = name")
      case True
      with Cons.prems have "find (\<lambda>t. dt_name t = name) (rev ts) = None" by (auto simp: find_None_iff image_iff)
      with True show ?thesis by (simp add: app)
    next
      case False
      with Cons show ?thesis by (simp add: app split: option.splits)
    qed
  qed simp
  then have "find_tool (gs_tools svc tasks) name = find (\<lambda>t. dt_name t = name) (gs_tools svc tasks)"
    using assms(2) by (simp add: find_tool_def)
  moreover have "name \<in> set (map ts_name specs) \<longleftrightarrow> find (\<lambda>t. dt_name t = name) (gs_tools svc tasks) \<noteq> None"
    using assms(4) by (auto simp: specs find_None_iff)
  ultimately show ?thesis using assms(4)
    by (simp add: github_execute_def run_dev_tool_def p split: option.splits)
qed

section \<open>Witnesses\<close>

definition ci_tool :: dev_tool where
  "ci_tool = \<lparr>dt_name = ''github.ci'', dt_description = [], dt_parameters = JObj [], dt_confirm = False, dt_thinking = True,
     dt_run = (\<lambda>s m. Inr ''green''), dt_session = False, dt_prompt = None\<rparr>"

definition sample_service :: github_service where
  "sample_service = \<lparr>gs_tools = (\<lambda>tasks. [ci_tool]), gs_clone = (\<lambda>r. Inr (''https://'' @ r, ''t0''))\<rparr>"

theorem credentials_are_out_of_reach_witness:
  "get_tool (fold register (map (Hosted 1) (internal_tool clone_credentials_tool
     clone_credentials_description True # [declared_tool ci_tool])) [])
     clone_credentials_tool = None"
proof -
  let ?specs = "internal_tool clone_credentials_tool
     clone_credentials_description True # [declared_tool ci_tool]"
  have i: "github_initialize (Inr (True, Inr sample_service)) new_github = (\<lparr>gp_service = Some sample_service, gp_tools = [ci_tool]\<rparr>, Inr ?specs)"
    by (simp add: github_initialize_def github_declare_def new_github_def sample_service_def)
  have "list_all (\<lambda>t. dt_name t \<noteq> clone_credentials_tool) (gs_tools sample_service False)"
    by (simp add: sample_service_def ci_tool_def clone_credentials_tool_def)
  from credentials_are_out_of_reach [OF i this, of 1 "[]" "\<lambda>_. Inl []" "[]" Absent] show ?thesis by blast
qed

theorem declared_tools_are_answered_witness:
  "github_execute (\<lambda>_. Inl []) (fst (github_declare sample_service False new_github)) \<lparr>ti_tool = ''github.ci'', ti_session = [], ti_params = Absent\<rparr> =
    Inr (Inr ''green'')"
proof -
  obtain p specs where d: "github_declare sample_service False new_github = (p, specs)" by fastforce
  have "distinct (map dt_name (gs_tools sample_service False))" "clone_credentials_tool \<notin> set (map dt_name (gs_tools sample_service False))"
    "''github.ci'' \<noteq> clone_credentials_tool"
    by (simp_all add: sample_service_def ci_tool_def clone_credentials_tool_def)
  from declared_tools_are_answered [OF d this, of "\<lambda>_. Inl []" "[]" Absent] show ?thesis
    unfolding d fst_conv by (simp add: sample_service_def ci_tool_def)
qed

end
