(* ===== verification/Speech_Limiter.thy ===== *)
theory Speech_Limiter
  imports Go_Prelude
begin

text \<open>
  The limit on concurrent speech generations (\<open>internal/tts/limiter.go\<close>): a counting semaphore that
  all calls of the process share. Every request is a goroutine; a step is one of its atomic
  operations, on the channel \<open>slots\<close> or on one of the two counters, so the steps interleave as
  the requests do. A request's stream ends, fails to start or is cancelled at any time.
\<close>

section \<open>Requests and the semaphore\<close>

datatype request_phase =
    Arrived
  | Found_full
  | Queued
  | Took_slot bool
  | Leaving_queue
  | Generating
  | Releasing
  | Returned_slot
  | Giving_up
  | Refused
  | Finished

record generation_limiter =
  gl_limit :: nat
  gl_slots :: nat
  gl_in_use :: int
  gl_waiting :: int
  gl_requests :: "request_phase list"

definition new_generation_limiter :: "nat \<Rightarrow> generation_limiter" where
  "new_generation_limiter limit =
     \<lparr>gl_limit = limit, gl_slots = 0, gl_in_use = 0, gl_waiting = 0, gl_requests = []\<rparr>"

text \<open>The first caller's limit is the process's limit.\<close>

definition shared_limiter :: "nat \<Rightarrow> generation_limiter option \<Rightarrow> generation_limiter" where
  "shared_limiter limit global = (case global of None \<Rightarrow> new_generation_limiter limit | Some l \<Rightarrow> l)"

abbreviation at_phase :: "generation_limiter \<Rightarrow> nat \<Rightarrow> request_phase \<Rightarrow> bool" where
  "at_phase l i p \<equiv> i < length (gl_requests l) \<and> gl_requests l ! i = p"

abbreviation go :: "nat \<Rightarrow> request_phase \<Rightarrow> generation_limiter \<Rightarrow> generation_limiter" where
  "go i p l \<equiv> l\<lparr>gl_requests := (gl_requests l)[i := p]\<rparr>"

text \<open>\<open>acquire\<close>: the fast path, or the queue, which can be left by a slot or by cancellation;
  \<open>release\<close>: the slot first, then the counter.\<close>

inductive limiter_step :: "generation_limiter \<Rightarrow> generation_limiter \<Rightarrow> bool" where
  arrive: "limiter_step l (l\<lparr>gl_requests := gl_requests l @ [Arrived]\<rparr>)"
| fast: "at_phase l i Arrived \<Longrightarrow> gl_slots l < gl_limit l \<Longrightarrow>
    limiter_step l (go i (Took_slot False) (l\<lparr>gl_slots := gl_slots l + 1\<rparr>))"
| busy: "at_phase l i Arrived \<Longrightarrow> gl_slots l = gl_limit l \<Longrightarrow> limiter_step l (go i Found_full l)"
| join_queue: "at_phase l i Found_full \<Longrightarrow> limiter_step l (go i Queued (l\<lparr>gl_waiting := gl_waiting l + 1\<rparr>))"
| slot_freed: "at_phase l i Queued \<Longrightarrow> gl_slots l < gl_limit l \<Longrightarrow>
    limiter_step l (go i (Took_slot True) (l\<lparr>gl_slots := gl_slots l + 1\<rparr>))"
| cancelled_in_queue: "at_phase l i Queued \<Longrightarrow> limiter_step l (go i Giving_up l)"
| give_up: "at_phase l i Giving_up \<Longrightarrow> limiter_step l (go i Refused (l\<lparr>gl_waiting := gl_waiting l - 1\<rparr>))"
| count_in: "at_phase l i (Took_slot queued) \<Longrightarrow>
    limiter_step l (go i (if queued then Leaving_queue else Generating) (l\<lparr>gl_in_use := gl_in_use l + 1\<rparr>))"
| leave_queue: "at_phase l i Leaving_queue \<Longrightarrow> limiter_step l (go i Generating (l\<lparr>gl_waiting := gl_waiting l - 1\<rparr>))"
| generation_over: "at_phase l i Generating \<Longrightarrow> limiter_step l (go i Releasing l)"
| release_slot: "at_phase l i Releasing \<Longrightarrow> 0 < gl_slots l \<Longrightarrow>
    limiter_step l (go i Returned_slot (l\<lparr>gl_slots := gl_slots l - 1\<rparr>))"
| count_out: "at_phase l i Returned_slot \<Longrightarrow> limiter_step l (go i Finished (l\<lparr>gl_in_use := gl_in_use l - 1\<rparr>))"

section \<open>Slots and counters\<close>

fun holds_slot :: "request_phase \<Rightarrow> bool" where
  "holds_slot (Took_slot _) \<longleftrightarrow> True"
| "holds_slot Leaving_queue \<longleftrightarrow> True"
| "holds_slot Generating \<longleftrightarrow> True"
| "holds_slot Releasing \<longleftrightarrow> True"
| "holds_slot _ \<longleftrightarrow> False"

definition counted :: "request_phase \<Rightarrow> bool" where
  "counted p \<longleftrightarrow> p \<in> {Leaving_queue, Generating, Releasing, Returned_slot}"

definition in_queue :: "request_phase \<Rightarrow> bool" where
  "in_queue p \<longleftrightarrow> p \<in> {Queued, Took_slot True, Leaving_queue, Giving_up}"

definition tally :: "(request_phase \<Rightarrow> bool) \<Rightarrow> request_phase list \<Rightarrow> nat" where
  "tally P ps = length (filter P ps)"

lemma tally_update:
  assumes "i < length ps"
  shows "int (tally P (ps[i := q])) = int (tally P ps) + (if P q then 1 else 0) - (if P (ps ! i) then 1 else 0)"
proof -
  define a b where "a = take i ps" and "b = drop (Suc i) ps"
  have "ps = a @ ps ! i # b" using id_take_nth_drop [OF assms] by (simp add: a_def b_def)
  then have "tally P ps = tally P (a @ ps ! i # b)" by simp
  moreover have "ps[i := q] = a @ q # b" using upd_conv_take_nth_drop [OF assms] by (simp add: a_def b_def)
  ultimately show ?thesis by (simp add: tally_def)
qed

definition limiter_ok :: "nat \<Rightarrow> generation_limiter \<Rightarrow> bool" where
  "limiter_ok n l \<longleftrightarrow> gl_limit l = n \<and> gl_slots l \<le> n \<and> int (gl_slots l) = int (tally holds_slot (gl_requests l)) \<and>
     gl_in_use l = int (tally counted (gl_requests l)) \<and> gl_waiting l = int (tally in_queue (gl_requests l))"

text \<open>A move accounts for what it changes.\<close>

lemma limiter_ok_go:
  assumes "limiter_ok n l" and "at_phase l i p"
    and "int s - int (gl_slots l) = (if holds_slot q then 1 else 0) - (if holds_slot p then 1 else 0)" and "s \<le> n"
    and "u - gl_in_use l = (if counted q then 1 else 0) - (if counted p then 1 else 0)"
    and "w - gl_waiting l = (if in_queue q then 1 else 0) - (if in_queue p then 1 else 0)"
  shows "limiter_ok n (go i q (l\<lparr>gl_slots := s, gl_in_use := u, gl_waiting := w\<rparr>))"
proof -
  from assms(2) have i: "i < length (gl_requests l)" by simp
  show ?thesis
    using assms tally_update [OF i, of holds_slot q] tally_update [OF i, of counted q] tally_update [OF i, of in_queue q]
    by (simp add: limiter_ok_def)
qed

lemma limiter_step_ok: "limiter_step l l' \<Longrightarrow> limiter_ok n l \<Longrightarrow> limiter_ok n l'"
proof (induction rule: limiter_step.induct)
  case (arrive l)
  then show ?case by (simp add: limiter_ok_def tally_def counted_def in_queue_def)
next
  case (fast l i)
  with limiter_ok_go [of n l i "Arrived" "gl_slots l + 1" "Took_slot False" "gl_in_use l" "gl_waiting l"] show ?case
    by (simp add: limiter_ok_def counted_def in_queue_def)
next
  case (busy l i)
  with limiter_ok_go [of n l i "Arrived" "gl_slots l" "Found_full" "gl_in_use l" "gl_waiting l"] show ?case
    by (simp add: limiter_ok_def counted_def in_queue_def)
next
  case (join_queue l i)
  with limiter_ok_go [of n l i "Found_full" "gl_slots l" "Queued" "gl_in_use l" "gl_waiting l + 1"] show ?case
    by (simp add: limiter_ok_def counted_def in_queue_def)
next
  case (slot_freed l i)
  with limiter_ok_go [of n l i "Queued" "gl_slots l + 1" "Took_slot True" "gl_in_use l" "gl_waiting l"] show ?case
    by (simp add: limiter_ok_def counted_def in_queue_def)
next
  case (cancelled_in_queue l i)
  with limiter_ok_go [of n l i "Queued" "gl_slots l" "Giving_up" "gl_in_use l" "gl_waiting l"] show ?case
    by (simp add: limiter_ok_def counted_def in_queue_def)
next
  case (give_up l i)
  with limiter_ok_go [of n l i "Giving_up" "gl_slots l" "Refused" "gl_in_use l" "gl_waiting l - 1"] show ?case
    by (simp add: limiter_ok_def counted_def in_queue_def)
next
  case (count_in l i queued)
  with limiter_ok_go [of n l i "Took_slot queued" "gl_slots l" "if queued then Leaving_queue else Generating" "gl_in_use l + 1" "gl_waiting l"] show ?case
    by (simp add: limiter_ok_def counted_def in_queue_def)
next
  case (leave_queue l i)
  with limiter_ok_go [of n l i "Leaving_queue" "gl_slots l" "Generating" "gl_in_use l" "gl_waiting l - 1"] show ?case
    by (simp add: limiter_ok_def counted_def in_queue_def)
next
  case (generation_over l i)
  with limiter_ok_go [of n l i "Generating" "gl_slots l" "Releasing" "gl_in_use l" "gl_waiting l"] show ?case
    by (simp add: limiter_ok_def counted_def in_queue_def)
next
  case (release_slot l i)
  with limiter_ok_go [of n l i "Releasing" "gl_slots l - 1" "Returned_slot" "gl_in_use l" "gl_waiting l"] show ?case
    by (auto simp: limiter_ok_def counted_def in_queue_def)
next
  case (count_out l i)
  with limiter_ok_go [of n l i "Returned_slot" "gl_slots l" "Finished" "gl_in_use l - 1" "gl_waiting l"] show ?case
    by (simp add: limiter_ok_def counted_def in_queue_def)
qed

lemma limiter_reachable_ok: "limiter_step\<^sup>*\<^sup>* (new_generation_limiter n) l \<Longrightarrow> limiter_ok n l"
proof (induction rule: rtranclp_induct)
  case base
  show ?case by (simp add: limiter_ok_def new_generation_limiter_def tally_def)
qed (blast intro: limiter_step_ok)

lemma tally_pos: "p \<in> set ps \<Longrightarrow> P p \<Longrightarrow> 0 < tally P ps"
  by (auto simp: tally_def filter_empty_conv)

lemma tally_zero: "\<forall>p \<in> set ps. \<not> P p \<Longrightarrow> tally P ps = 0"
  by (simp add: tally_def)

text \<open>C20: At no time are more utterances generated than the account allows: generating requests hold
  slots, of which there are at most \<open>n\<close>; giving a slot back never blocks; and when every request is
  over, all slots are free and both counters are zero.\<close>

theorem generations_stay_within_the_limit:
  assumes "limiter_step\<^sup>*\<^sup>* (new_generation_limiter n) l"
  shows "length (filter (\<lambda>p. p = Generating) (gl_requests l)) \<le> gl_slots l \<and> gl_slots l \<le> n \<and>
    (Releasing \<in> set (gl_requests l) \<longrightarrow> 0 < gl_slots l) \<and>
    (set (gl_requests l) \<subseteq> {Refused, Finished} \<longrightarrow> gl_slots l = 0 \<and> gl_in_use l = 0 \<and> gl_waiting l = 0)"
proof -
  have ok: "gl_slots l \<le> n" "gl_slots l = tally holds_slot (gl_requests l)"
    "gl_in_use l = int (tally counted (gl_requests l))" "gl_waiting l = int (tally in_queue (gl_requests l))"
    using limiter_reachable_ok [OF assms] by (simp_all add: limiter_ok_def)
  have "length (filter (\<lambda>p. p = Generating) ps) \<le> length (filter holds_slot ps)" for ps
    by (induction ps) auto
  moreover have "Releasing \<in> set (gl_requests l) \<Longrightarrow> 0 < tally holds_slot (gl_requests l)"
    by (rule tally_pos [of Releasing]) simp_all
  moreover have "set (gl_requests l) \<subseteq> {Refused, Finished} \<Longrightarrow>
      tally holds_slot (gl_requests l) = 0 \<and> tally counted (gl_requests l) = 0 \<and> tally in_queue (gl_requests l) = 0"
    by (intro conjI tally_zero) (auto simp: counted_def in_queue_def)
  ultimately show ?thesis using ok by (simp add: tally_def)
qed

section \<open>Everyone is served\<close>

fun last_phase :: "request_phase \<Rightarrow> request_phase" where
  "last_phase Giving_up = Refused"
| "last_phase Refused = Refused"
| "last_phase _ = Finished"

fun remaining :: "request_phase \<Rightarrow> nat" where
  "remaining Arrived = 8"
| "remaining Found_full = 7"
| "remaining Queued = 6"
| "remaining (Took_slot _) = 5"
| "remaining Leaving_queue = 4"
| "remaining Generating = 3"
| "remaining Releasing = 2"
| "remaining Returned_slot = 1"
| "remaining Giving_up = 1"
| "remaining _ = 0"

abbreviation work :: "generation_limiter \<Rightarrow> nat" where
  "work l \<equiv> sum_list (map remaining (gl_requests l))"

lemma sum_list_less:
  "i < length ps \<Longrightarrow> remaining q < remaining (ps ! i) \<Longrightarrow> sum_list (map remaining (ps[i := q])) < sum_list (map remaining ps)"
  by (induction ps arbitrary: i) (auto simp: nth_Cons split: nat.splits)

lemma advance:
  assumes "at_phase l i p" and "limiter_step l (go i q l')" and "gl_requests l' = gl_requests l"
    and "remaining q < remaining p" and "last_phase q = last_phase p"
  shows "\<exists>l''. limiter_step l l'' \<and> work l'' < work l \<and> map last_phase (gl_requests l'') = map last_phase (gl_requests l)"
proof (intro exI conjI)
  show "limiter_step l (go i q l')" by (rule assms(2))
  show "work (go i q l') < work l" using assms sum_list_less [of i "gl_requests l" q] by simp
  show "map last_phase (gl_requests (go i q l')) = map last_phase (gl_requests l)"
    using assms by (auto intro!: nth_equalityI simp: nth_list_update)
qed

lemma holder_advances:
  assumes "limiter_ok n l" and "at_phase l i p" and "holds_slot p"
  shows "\<exists>l'. limiter_step l l' \<and> work l' < work l \<and> map last_phase (gl_requests l') = map last_phase (gl_requests l)"
proof -
  have slots: "0 < gl_slots l"
    using assms tally_pos [of p "gl_requests l" holds_slot] by (auto simp: limiter_ok_def)
  show ?thesis
  proof (cases p)
    case (Took_slot queued)
    with assms(2) show ?thesis by (cases queued) (auto intro: advance [OF _ limiter_step.count_in])
  next
    case Leaving_queue
    with assms(2) show ?thesis by (auto intro: advance [OF _ limiter_step.leave_queue])
  next
    case Generating
    with assms(2) show ?thesis by (auto intro: advance [OF _ limiter_step.generation_over])
  next
    case Releasing
    with assms(2) slots show ?thesis by (auto intro: advance [OF _ limiter_step.release_slot])
  qed (use assms(3) in simp_all)
qed

lemma someone_advances:
  assumes "limiter_ok n l" and "0 < n" and "at_phase l i p" and "0 < remaining p"
  shows "\<exists>l'. limiter_step l l' \<and> work l' < work l \<and> map last_phase (gl_requests l') = map last_phase (gl_requests l)"
proof (cases "holds_slot p")
  case True
  with assms show ?thesis by (blast intro: holder_advances)
next
  case False
  consider "gl_slots l < gl_limit l" | "gl_slots l = gl_limit l" using assms(1) by (force simp: limiter_ok_def)
  note room = this
  show ?thesis
  proof (cases p)
    case Arrived
    from room show ?thesis
    proof cases
      case 1
      with Arrived assms(3) limiter_step.fast [of i l] show ?thesis
        using advance [where l = l and i = i and p = p and q = "Took_slot False" and l' = "l\<lparr>gl_slots := gl_slots l + 1\<rparr>"] by simp
    next
      case 2
      with Arrived assms(3) limiter_step.busy [of i l] show ?thesis using advance [where l = l and i = i and p = p and q = Found_full and l' = l] by simp
    qed
  next
    case Found_full
    with assms(3) show ?thesis by (auto intro: advance [OF _ limiter_step.join_queue])
  next
    case Queued
    from room show ?thesis
    proof cases
      case 1
      with Queued assms(3) limiter_step.slot_freed [of i l] show ?thesis
        using advance [where l = l and i = i and p = p and q = "Took_slot True" and l' = "l\<lparr>gl_slots := gl_slots l + 1\<rparr>"] by simp
    next
      case 2
      with assms(1,2) have "0 < tally holds_slot (gl_requests l)" by (simp add: limiter_ok_def)
      then obtain q where "q \<in> set (gl_requests l)" "holds_slot q" by (auto simp: tally_def filter_empty_conv)
      then show ?thesis using holder_advances [OF assms(1)] by (auto simp: in_set_conv_nth)
    qed
  next
    case Giving_up
    with assms(3) show ?thesis by (auto intro: advance [OF _ limiter_step.give_up])
  next
    case Returned_slot
    with assms(3) show ?thesis by (auto intro: advance [OF _ limiter_step.count_out])
  qed (use False assms(4) in simp_all)
qed

lemma all_served:
  "limiter_ok n l \<Longrightarrow> 0 < n \<Longrightarrow>
   \<exists>l'. limiter_step\<^sup>*\<^sup>* l l' \<and> gl_requests l' = map last_phase (gl_requests l) \<and> limiter_ok n l'"
proof (induction "work l" arbitrary: l rule: less_induct)
  case less
  show ?case
  proof (cases "\<exists>p \<in> set (gl_requests l). 0 < remaining p")
    case True
    then obtain i p where "at_phase l i p" "0 < remaining p" by (auto simp: in_set_conv_nth)
    from someone_advances [OF less.prems this] obtain l1 where
      l1: "limiter_step l l1" "work l1 < work l" "map last_phase (gl_requests l1) = map last_phase (gl_requests l)" by blast
    from less.hyps [OF l1(2) limiter_step_ok [OF l1(1) less.prems(1)] less.prems(2)]
    show ?thesis using l1 by (metis converse_rtranclp_into_rtranclp)
  next
    case False
    have "last_phase p = p" if "remaining p = 0" for p using that by (cases p) simp_all
    with False have "map last_phase (gl_requests l) = gl_requests l" by (intro map_idI) auto
    with less.prems show ?thesis by (metis rtranclp.rtrancl_refl)
  qed
qed

text \<open>C31: No request waits for ever behind the others: from every reachable state a run without further
  arrivals or cancellations serves every request that was not cancelled, and leaves all slots free.\<close>

theorem every_request_is_served:
  assumes "limiter_step\<^sup>*\<^sup>* (new_generation_limiter n) l" and "0 < n"
  shows "\<exists>l'. limiter_step\<^sup>*\<^sup>* l l' \<and> gl_requests l' = map last_phase (gl_requests l) \<and> gl_slots l' = 0"
proof -
  obtain l' where l': "limiter_step\<^sup>*\<^sup>* l l'" "gl_requests l' = map last_phase (gl_requests l)" "limiter_ok n l'"
    using all_served [OF limiter_reachable_ok [OF assms(1)] assms(2)] by blast
  have "\<not> holds_slot (last_phase p)" for p by (cases p) simp_all
  then have "tally holds_slot (gl_requests l') = 0" using l'(2) by (intro tally_zero) auto
  with l' show ?thesis by (auto simp: limiter_ok_def)
qed

section \<open>Witnesses\<close>

definition one_slot_two_requests :: generation_limiter where
  "one_slot_two_requests =
     \<lparr>gl_limit = 1, gl_slots = 1, gl_in_use = 1, gl_waiting = 1, gl_requests = [Generating, Queued]\<rparr>"

lemma one_slot_two_requests_reachable: "limiter_step\<^sup>*\<^sup>* (new_generation_limiter 1) one_slot_two_requests"
proof -
  note step = converse_rtranclp_into_rtranclp
  show ?thesis
    by (rule step, rule limiter_step.arrive, rule step, rule limiter_step.arrive,
        rule step, rule limiter_step.fast [where i = 0], simp_all add: new_generation_limiter_def,
        rule step, rule limiter_step.busy [where i = 1], simp_all,
        rule step, rule limiter_step.join_queue [where i = 1], simp_all,
        rule step, rule limiter_step.count_in [where i = 0 and queued = False], simp_all add: one_slot_two_requests_def)
qed

theorem generations_stay_within_the_limit_witness:
  "length (filter (\<lambda>p. p = Generating) [Generating, Queued]) \<le> 1 \<and> gl_slots one_slot_two_requests = 1"
  using generations_stay_within_the_limit [OF one_slot_two_requests_reachable]
  by (simp add: one_slot_two_requests_def)

theorem every_request_is_served_witness:
  "\<exists>l'. limiter_step\<^sup>*\<^sup>* one_slot_two_requests l' \<and> gl_requests l' = [Finished, Finished] \<and> gl_slots l' = 0"
  using every_request_is_served [OF one_slot_two_requests_reachable] by (simp add: one_slot_two_requests_def)

end
