(* ===== verification/Cartesia_Stream.thy ===== *)
theory Cartesia_Stream
  imports Speech_Providers
begin

text \<open>
  Cartesia over one persistent WebSocket (\<open>internal/tts/cartesia_ws.go\<close>): utterances are contexts
  multiplexed on a connection. A reader routes the service's messages to the context they carry
  the identifier of, through a channel of 64; a bridge goroutine per context turns them into
  audio on a channel of 16, which the caller's pipeline reads. A step is one operation of one of
  these goroutines, of the service, or of the pipeline.

  \<open>cx_sent\<close> records, for the statements, what the reader dispatched to a context, and \<open>cx_lost\<close>
  that it gave up on a message after three seconds or found no room for the final error. A failed
  write, which drops the connection early, is not modelled.
\<close>

section \<open>Messages\<close>

record ws_response =
  ws_type :: str
  ws_data :: str
  ws_done :: bool
  ws_title :: str
  ws_message :: str
  ws_error_code :: str

definition pending_buf :: nat where "pending_buf = 64"
definition out_buf :: nat where "out_buf = 16"

definition generation_request :: "str \<Rightarrow> voice_controls \<Rightarrow> str \<Rightarrow> str \<Rightarrow> json" where
  "generation_request voice vc context s =
     JObj [(''model_id'', JStr ''sonic-3''), (''transcript'', JStr s),
       (''voice'', JObj [(''mode'', JStr ''id''), (''id'', JStr voice)]), (''output_format'', raw_pcm_format),
       (''generation_config'', JObj [(''speed'', JNum (cartesia_speed vc))]), (''context_id'', JStr context), (''continue'', JBool False)]"

definition cancel_request :: "str \<Rightarrow> json" where
  "cancel_request context = JObj [(''context_id'', JStr context), (''cancel'', JBool True)]"

definition connection_error :: "str \<Rightarrow> ws_response" where
  "connection_error e =
     \<lparr>ws_type = ''error'', ws_data = [], ws_done = True, ws_title = ''Connection error'', ws_message = e, ws_error_code = []\<rparr>"

text \<open>What the bridge makes of a response: what it passes on, and whether it is over.\<close>

definition bridge_response :: "ws_response \<Rightarrow> stream_chunk list \<times> bool" where
  "bridge_response r =
     (if ws_type r = ''error'' then
        ([Stream_error (''cartesia ws ['' @ ws_error_code r @ '']: '' @ (if ws_message r = [] then ws_title r else ws_message r))], True)
      else if ws_type r = ''chunk'' \<and> ws_data r \<noteq> [] then
        (case base64_decode (ws_data r) of
           None \<Rightarrow> ([Stream_error ''cartesia ws base64 decode''], True)
         | Some pcm \<Rightarrow> (if pcm = [] then [] else [Audio pcm], ws_done r))
      else ([], ws_done r))"

section \<open>Contexts, reader and steps\<close>

datatype bridge = Reading | Sending stream_chunk bool | Closed

record speech_context =
  cx_registered :: bool
  cx_queue :: "ws_response list"
  cx_bridge :: bridge
  cx_out :: "stream_chunk list"
  cx_taken :: nat
  cx_cancelled :: bool
  cx_stopped :: bool
  cx_sent :: "ws_response list"
  cx_lost :: bool

definition new_context :: speech_context where
  "new_context = \<lparr>cx_registered = True, cx_queue = [], cx_bridge = Reading, cx_out = [], cx_taken = 0, cx_cancelled = False,
     cx_stopped = False, cx_sent = [], cx_lost = False\<rparr>"

datatype ws_reader = Down | Idle | Dispatching str ws_response

record cartesia =
  ca_reader :: ws_reader
  ca_contexts :: "str \<Rightarrow> speech_context option"
  ca_wire :: "json list"

definition new_cartesia :: cartesia where
  "new_cartesia = \<lparr>ca_reader = Down, ca_contexts = (\<lambda>_. None), ca_wire = []\<rparr>"

abbreviation put :: "str \<Rightarrow> speech_context \<Rightarrow> cartesia \<Rightarrow> cartesia" where
  "put i x s \<equiv> s\<lparr>ca_contexts := (ca_contexts s)(i := Some x)\<rparr>"

text \<open>Losing the connection: every registered context gets an error if its channel has room, and none
  stays registered.\<close>

definition notify_error :: "str \<Rightarrow> speech_context \<Rightarrow> speech_context" where
  "notify_error e x =
     (if \<not> cx_registered x then x
      else if length (cx_queue x) < pending_buf
      then x\<lparr>cx_registered := False, cx_queue := cx_queue x @ [connection_error e], cx_sent := cx_sent x @ [connection_error e]\<rparr>
      else x\<lparr>cx_registered := False, cx_sent := cx_sent x @ [connection_error e], cx_lost := True\<rparr>)"

inductive cartesia_step :: "cartesia \<Rightarrow> cartesia \<Rightarrow> bool" where
  connect: "ca_reader s = Down \<Longrightarrow> cartesia_step s (s\<lparr>ca_reader := Idle\<rparr>)"
| speak: "ca_reader s \<noteq> Down \<Longrightarrow> ca_contexts s i = None \<Longrightarrow>
    cartesia_step s (put i new_context (s\<lparr>ca_wire := ca_wire s @ [generation_request voice vc i utterance]\<rparr>))"
| receive: "ca_reader s = Idle \<Longrightarrow> ca_contexts s i = Some x \<Longrightarrow> cx_registered x \<Longrightarrow>
    cartesia_step s (s\<lparr>ca_reader := Dispatching i r\<rparr>)"
| dispatch: "ca_reader s = Dispatching i r \<Longrightarrow> ca_contexts s i = Some x \<Longrightarrow> length (cx_queue x) < pending_buf \<Longrightarrow>
    cartesia_step s (put i (x\<lparr>cx_queue := cx_queue x @ [r], cx_sent := cx_sent x @ [r]\<rparr>) (s\<lparr>ca_reader := Idle\<rparr>))"
| dispatch_timeout: "ca_reader s = Dispatching i r \<Longrightarrow> ca_contexts s i = Some x \<Longrightarrow> length (cx_queue x) = pending_buf \<Longrightarrow>
    cartesia_step s (put i (x\<lparr>cx_sent := cx_sent x @ [r], cx_lost := True\<rparr>) (s\<lparr>ca_reader := Idle\<rparr>))"
| lose: "ca_reader s = Idle \<Longrightarrow>
    cartesia_step s (s\<lparr>ca_reader := Down, ca_contexts := map_option (notify_error e) \<circ> ca_contexts s\<rparr>)"
| bridge: "ca_contexts s i = Some x \<Longrightarrow> cx_bridge x = Reading \<Longrightarrow> cx_queue x = r # q \<Longrightarrow> bridge_response r = (out, over) \<Longrightarrow>
    cartesia_step s (put i
      (x\<lparr>cx_queue := q,
         cx_bridge := (case out of c # _ \<Rightarrow> Sending c over | [] \<Rightarrow> if over then Closed else Reading),
         cx_registered := cx_registered x \<and> \<not> (out = [] \<and> over)\<rparr>) s)"
| send_chunk: "ca_contexts s i = Some x \<Longrightarrow> cx_bridge x = Sending c over \<Longrightarrow> length (cx_out x) < cx_taken x + out_buf \<Longrightarrow>
    cartesia_step s (put i
      (x\<lparr>cx_out := cx_out x @ [c], cx_bridge := (if over then Closed else Reading), cx_registered := cx_registered x \<and> \<not> over\<rparr>) s)"
| take_chunk: "ca_contexts s i = Some x \<Longrightarrow> \<not> cx_stopped x \<Longrightarrow> cx_taken x < length (cx_out x) \<Longrightarrow>
    cartesia_step s (put i (x\<lparr>cx_taken := cx_taken x + 1\<rparr>) s)"
| cancel: "ca_contexts s i = Some x \<Longrightarrow> cartesia_step s (put i (x\<lparr>cx_cancelled := True\<rparr>) s)"
| stop_listening: "ca_contexts s i = Some x \<Longrightarrow> cx_cancelled x \<Longrightarrow> cartesia_step s (put i (x\<lparr>cx_stopped := True\<rparr>) s)"
| bridge_cancelled: "ca_contexts s i = Some x \<Longrightarrow> cx_bridge x = Reading \<Longrightarrow> cx_cancelled x \<Longrightarrow>
    cartesia_step s (put i (x\<lparr>cx_bridge := Closed, cx_registered := False\<rparr>)
      (s\<lparr>ca_wire := ca_wire s @ (if ca_reader s = Down then [] else [cancel_request i])\<rparr>))"

section \<open>A context plays its own speech\<close>

fun stream_of :: "ws_response list \<Rightarrow> stream_chunk list \<times> bool" where
  "stream_of [] = ([], False)"
| "stream_of (r # rs) =
     (case bridge_response r of (out, over) \<Rightarrow>
        if over then (out, True) else (out @ fst (stream_of rs), snd (stream_of rs)))"

lemma stream_of_append:
  "stream_of (as @ bs) = (if snd (stream_of as) then stream_of as else (fst (stream_of as) @ fst (stream_of bs), snd (stream_of bs)))"
  by (induction as) (auto split: prod.splits)

lemma bridge_response_short: "bridge_response r = (c # cs, over) \<Longrightarrow> cs = []"
  by (auto simp: bridge_response_def split: if_splits option.splits)

text \<open>The responses the bridge has consumed are those that reached its channel but for what is queued.\<close>

definition context_ok :: "speech_context \<Rightarrow> bool" where
  "context_ok x \<longleftrightarrow> (\<exists>done.
     subseq (done @ cx_queue x) (cx_sent x) \<and> (\<not> cx_lost x \<longrightarrow> done @ cx_queue x = cx_sent x) \<and>
     (case cx_bridge x of
        Reading \<Rightarrow> stream_of done = (cx_out x, False)
      | Sending c over \<Rightarrow> stream_of done = (cx_out x @ [c], over)
      | Closed \<Rightarrow> fst (stream_of done) = cx_out x \<and> (snd (stream_of done) \<or> cx_cancelled x)))"

definition cartesia_ok :: "cartesia \<Rightarrow> bool" where
  "cartesia_ok s \<longleftrightarrow> (\<forall>i x. ca_contexts s i = Some x \<longrightarrow> context_ok x)"

lemma cartesia_okI_put: "cartesia_ok s \<Longrightarrow> context_ok x \<Longrightarrow> cartesia_ok (put i x s)"
  by (simp add: cartesia_ok_def)

lemma cartesia_ok_frame [simp]: "cartesia_ok (s\<lparr>ca_reader := r\<rparr>) = cartesia_ok s" "cartesia_ok (s\<lparr>ca_wire := w\<rparr>) = cartesia_ok s"
  by (simp_all add: cartesia_ok_def)

lemma context_ok_queue:
  assumes "context_ok x"
  shows "context_ok (x\<lparr>cx_queue := cx_queue x @ [r], cx_sent := cx_sent x @ [r]\<rparr>)"
  using assms unfolding context_ok_def by (auto simp flip: append_assoc split: bridge.splits)

lemma context_ok_lose:
  assumes "context_ok x"
  shows "context_ok (x\<lparr>cx_sent := cx_sent x @ [r], cx_lost := True\<rparr>)"
  using assms unfolding context_ok_def by (auto split: bridge.splits)

lemma context_ok_registered [simp]: "context_ok (x\<lparr>cx_registered := b\<rparr>) = context_ok x"
  by (cases "cx_bridge x") (simp_all add: context_ok_def)

lemma context_ok_listener [simp]:
  "context_ok (x\<lparr>cx_taken := n\<rparr>) = context_ok x" "context_ok (x\<lparr>cx_stopped := b\<rparr>) = context_ok x"
  by (cases "cx_bridge x"; simp add: context_ok_def)+

lemma notify_error_frame [simp]:
  "cx_bridge (notify_error e x) = cx_bridge x" "cx_stopped (notify_error e x) = cx_stopped x"
  "cx_out (notify_error e x) = cx_out x" "cx_taken (notify_error e x) = cx_taken x"
  by (simp_all add: notify_error_def)

lemma context_ok_notify: "context_ok x \<Longrightarrow> context_ok (notify_error e x)"
  using context_ok_queue [of "x\<lparr>cx_registered := False\<rparr>"] context_ok_lose [of "x\<lparr>cx_registered := False\<rparr>"]
  by (simp add: notify_error_def)

lemma context_ok_bridge:
  assumes "context_ok x" and "cx_bridge x = Reading" and "cx_queue x = r # q" and "bridge_response r = (out, over)"
  shows "context_ok (x\<lparr>cx_queue := q, cx_bridge := (case out of c # _ \<Rightarrow> Sending c over | [] \<Rightarrow> if over then Closed else Reading)\<rparr>)"
proof -
  from assms(1-3) obtain before where d: "subseq ((before @ [r]) @ q) (cx_sent x)" "\<not> cx_lost x \<longrightarrow> (before @ [r]) @ q = cx_sent x"
    "stream_of before = (cx_out x, False)" by (auto simp: context_ok_def)
  have "stream_of (before @ [r]) = (cx_out x @ out, over)" using d(3) assms(4) by (simp add: stream_of_append)
  with d(1,2) assms(4) bridge_response_short [of r] show ?thesis
    unfolding context_ok_def by (intro exI [of _ "before @ [r]"]) (auto split: list.splits)
qed

lemma cartesia_step_ok: "cartesia_step s t \<Longrightarrow> cartesia_ok s \<Longrightarrow> cartesia_ok t"
proof (induction rule: cartesia_step.induct)
  case (speak s i voice vc utterance)
  then show ?case by (intro cartesia_okI_put) (simp_all add: new_context_def context_ok_def)
next
  case (dispatch s i r x)
  then show ?case by (intro cartesia_okI_put context_ok_queue) (auto simp: cartesia_ok_def)
next
  case (dispatch_timeout s i r x)
  then show ?case by (intro cartesia_okI_put context_ok_lose) (auto simp: cartesia_ok_def)
next
  case (lose s e)
  then show ?case by (auto simp: cartesia_ok_def intro: context_ok_notify)
next
  case (bridge s i x r q out over)
  then have "context_ok x" by (auto simp: cartesia_ok_def)
  from context_ok_bridge [OF this bridge(2-4)] bridge.prems show ?case
    by (intro cartesia_okI_put) (simp_all only: context_ok_registered)
next
  case (send_chunk s i x c over)
  then have "context_ok x" by (auto simp: cartesia_ok_def)
  with send_chunk show ?case by (intro cartesia_okI_put) (auto simp: context_ok_def)
next
  case (take_chunk s i x)
  then have "context_ok x" by (auto simp: cartesia_ok_def)
  with take_chunk show ?case by (intro cartesia_okI_put) simp_all
next
  case (cancel s i x)
  then have "context_ok x" by (auto simp: cartesia_ok_def)
  with cancel show ?case by (intro cartesia_okI_put) (auto simp: context_ok_def split: bridge.splits)
next
  case (stop_listening s i x)
  then have "context_ok x" by (auto simp: cartesia_ok_def)
  with stop_listening show ?case by (intro cartesia_okI_put) simp_all
next
  case (bridge_cancelled s i x)
  then have "context_ok x" by (auto simp: cartesia_ok_def)
  with bridge_cancelled show ?case by (intro cartesia_okI_put) (auto simp: context_ok_def)
qed (simp_all)

lemma cartesia_reachable_ok: "cartesia_step\<^sup>*\<^sup>* new_cartesia s \<Longrightarrow> cartesia_ok s"
proof (induction rule: rtranclp_induct)
  case base
  show ?case by (simp add: cartesia_ok_def new_cartesia_def)
qed (rule cartesia_step_ok)


section \<open>Observations\<close>

text \<open>A bridge that waits to pass a chunk on does not watch for cancellation: when the caller barges in and
  the pipeline stops reading a full channel, it waits for ever, stays registered and never tells
  the service to stop.\<close>

definition wedged :: "str \<Rightarrow> cartesia \<Rightarrow> bool" where
  "wedged i s \<longleftrightarrow> (\<exists>x c over. ca_contexts s i = Some x \<and> cx_bridge x = Sending c over \<and> cx_stopped x \<and>
     length (cx_out x) = cx_taken x + out_buf)"

lemma stopped_listener_wedges_the_bridge: "cartesia_step s t \<Longrightarrow> wedged i s \<Longrightarrow> wedged i t"
proof (induction rule: cartesia_step.induct)
  case (lose s e)
  then show ?case by (auto simp: wedged_def)
qed (auto simp: wedged_def)

text \<open>The error that reports a lost connection is dropped when the channel is full: the stream then never
  ends on its own.\<close>

lemma full_channel_swallows_the_error:
  assumes "cx_registered x" and "length (cx_queue x) = pending_buf"
  shows "cx_queue (notify_error e x) = cx_queue x \<and> \<not> cx_registered (notify_error e x) \<and> cx_bridge (notify_error e x) = cx_bridge x"
  using assms by (simp add: notify_error_def)

section \<open>Witness\<close>


end
