(* ===== verification/Connections.thy ===== *)
theory Connections
  imports Go_Wire Speech_Providers Peer_Connection
begin

text \<open>
  Connections to the services and to the caller, and how they end: Cartesia's one socket with a
  reader per connection (\<open>internal/tts/cartesia_ws.go\<close>), finer than in \<open>Cartesia_Stream\<close>; the pings and
  read deadlines of the speech-to-speech provider (\<open>internal/realtime/grok.go\<close>); the sockets of
  Telnyx, one per utterance (\<open>internal/stt/telnyx.go\<close>); and the caller's peer connection
  (\<open>internal/peer/peer.go\<close>). Dialling, writing and reading are arguments or steps.
\<close>

section \<open>One socket, one reader each\<close>

text \<open>A reader tells every waiting context of its error, and only then gives the connection up. \<open>wc_written\<close>
  records on which connection a context's request went out, \<open>wc_told\<close> who got an error.\<close>

datatype reader = No_reader | Alive | Notified | Gone

record ws_client =
  wc_conn :: "nat option"
  wc_next :: nat
  wc_reader :: "nat \<Rightarrow> reader"
  wc_shut :: "nat set"
  wc_pending :: "str set"
  wc_written :: "str \<Rightarrow> nat option"
  wc_told :: "str set"
  wc_closed :: bool

definition new_ws_client :: ws_client where
  "new_ws_client = \<lparr>wc_conn = None, wc_next = 0, wc_reader = (\<lambda>_. No_reader), wc_shut = {}, wc_pending = {}, wc_written = (\<lambda>_. None),
     wc_told = {}, wc_closed = False\<rparr>"

definition notify_all :: "ws_client \<Rightarrow> ws_client" where
  "notify_all s = s\<lparr>wc_told := wc_told s \<union> wc_pending s, wc_pending := {}\<rparr>"

definition drop_connection :: "ws_client \<Rightarrow> ws_client" where
  "drop_connection s = (case wc_conn s of None \<Rightarrow> s | Some k \<Rightarrow> s\<lparr>wc_conn := None, wc_shut := insert k (wc_shut s)\<rparr>)"

inductive ws_step :: "ws_client \<Rightarrow> ws_client \<Rightarrow> bool" where
  ensure_connected: "wc_conn s = None \<Longrightarrow>
    ws_step s (s\<lparr>wc_conn := Some (wc_next s), wc_next := wc_next s + 1, wc_reader := (wc_reader s)(wc_next s := Alive)\<rparr>)"
| register_pending: "wc_written s i = None \<Longrightarrow> i \<notin> wc_told s \<Longrightarrow> ws_step s (s\<lparr>wc_pending := insert i (wc_pending s)\<rparr>)"
| write_json: "i \<in> wc_pending s \<Longrightarrow> wc_conn s = Some k \<Longrightarrow> ws_step s (s\<lparr>wc_written := (wc_written s)(i \<mapsto> k)\<rparr>)"
| write_fails: "ws_step s ((drop_connection s)\<lparr>wc_pending := wc_pending s - {i}\<rparr>)"
| finished: "ws_step s (s\<lparr>wc_pending := wc_pending s - {i}\<rparr>)"
| read_error: "wc_reader s k = Alive \<Longrightarrow> ws_step s ((notify_all s)\<lparr>wc_reader := (wc_reader s)(k := Notified)\<rparr>)"
| reader_exits: "wc_reader s k = Notified \<or> wc_reader s k = Alive \<and> wc_closed s \<Longrightarrow>
    ws_step s (s\<lparr>wc_reader := (wc_reader s)(k := Gone), wc_conn := (if wc_conn s = Some k then None else wc_conn s),
      wc_shut := insert k (wc_shut s)\<rparr>)"
| close_client: "\<not> wc_closed s \<Longrightarrow> ws_step s ((drop_connection (notify_all s))\<lparr>wc_closed := True\<rparr>)"

inductive ws_reachable :: "ws_client \<Rightarrow> bool" where
  fresh: "ws_reachable new_ws_client"
| step: "ws_reachable s \<Longrightarrow> ws_step s t \<Longrightarrow> ws_reachable t"

definition ws_ok :: "ws_client \<Rightarrow> bool" where
  "ws_ok s \<longleftrightarrow>
     (\<forall>k. wc_conn s = Some k \<longrightarrow> k + 1 = wc_next s \<and> k \<notin> wc_shut s \<and> wc_reader s k \<in> {Alive, Notified}) \<and>
     (\<forall>k < wc_next s. wc_conn s = Some k \<or> k \<in> wc_shut s) \<and>
     (\<forall>k. wc_next s \<le> k \<longrightarrow> wc_reader s k = No_reader \<and> k \<notin> wc_shut s) \<and>
     (\<forall>k < wc_next s. wc_reader s k \<noteq> No_reader)"

lemma ws_ok_drop: "ws_ok s \<Longrightarrow> ws_ok (drop_connection s)"
  by (cases "wc_conn s") (auto simp: ws_ok_def drop_connection_def less_Suc_eq)

lemma ws_ok_frame [simp]:
  "ws_ok (s\<lparr>wc_pending := p\<rparr>) = ws_ok s" "ws_ok (s\<lparr>wc_written := w\<rparr>) = ws_ok s" "ws_ok (s\<lparr>wc_closed := b\<rparr>) = ws_ok s"
  "ws_ok (notify_all s) = ws_ok s"
  by (simp_all add: ws_ok_def notify_all_def)

lemma ws_ok_step: "ws_step s t \<Longrightarrow> ws_ok s \<Longrightarrow> ws_ok t"
proof (induction rule: ws_step.induct)
  case (ensure_connected s)
  then show ?case by (auto simp: ws_ok_def less_Suc_eq)
next
  case (read_error s k)
  then show ?case by (auto simp: ws_ok_def notify_all_def)
next
  case (reader_exits s k)
  then have "k < wc_next s" by (auto simp: ws_ok_def not_less [symmetric])
  with reader_exits show ?case by (auto simp: ws_ok_def)
qed (auto intro: ws_ok_drop)

text \<open>C32: The client has one connection at a time: every socket it ever dialled is the current one or has been
  closed, the current one is the newest and its reader has not left, and the reader of an old
  connection never takes the new one down.\<close>

theorem one_connection_at_a_time:
  assumes "ws_reachable s"
  shows "(\<forall>k. k < wc_next s \<longrightarrow> wc_conn s = Some k \<or> k \<in> wc_shut s) \<and>
    (\<forall>k. wc_conn s = Some k \<longrightarrow> k + 1 = wc_next s \<and> k \<notin> wc_shut s \<and> wc_reader s k \<noteq> Gone)"
proof -
  have "ws_ok s" using assms
  proof (induction rule: ws_reachable.induct)
    case fresh
    show ?case by (simp add: ws_ok_def new_ws_client_def)
  qed (rule ws_ok_step)
  then show ?thesis by (auto simp: ws_ok_def)
qed

lemma ws_stepI: "ws_reachable s \<Longrightarrow> ws_step s t0 \<Longrightarrow> t0 = t \<Longrightarrow> ws_reachable t"
  by (auto intro: ws_reachable.step)

text \<open>Two windows in the error handling. Between telling the contexts and giving the connection up a request
  can still be written to it, and its context hears nothing of the loss; and a reader's error goes to every
  context, also to one that is being served on a newer connection.\<close>

definition late_context :: ws_client where
  "late_context = \<lparr>wc_conn = None, wc_next = 1, wc_reader = (\<lambda>_. No_reader)(0 := Gone), wc_shut = {0}, wc_pending = {''c''},
     wc_written = [''c'' \<mapsto> 0], wc_told = {}, wc_closed = False\<rparr>"

lemma late_context_hears_nothing:
  "ws_reachable late_context \<and> ''c'' \<in> wc_pending late_context \<and> (\<forall>k. wc_reader late_context k \<noteq> Alive)"
proof -
  have "ws_reachable (new_ws_client\<lparr>wc_conn := Some 0, wc_next := 1, wc_reader := (\<lambda>_. No_reader)(0 := Alive)\<rparr>)"
    by (rule ws_stepI [OF ws_reachable.fresh ws_step.ensure_connected]) (simp_all add: new_ws_client_def)
  then have "ws_reachable (new_ws_client\<lparr>wc_conn := Some 0, wc_next := 1, wc_reader := (\<lambda>_. No_reader)(0 := Notified)\<rparr>)"
    by (rule ws_stepI [OF _ ws_step.read_error [where k = 0]]) (simp_all add: new_ws_client_def notify_all_def)
  then have "ws_reachable (new_ws_client\<lparr>wc_conn := Some 0, wc_next := 1, wc_reader := (\<lambda>_. No_reader)(0 := Notified), wc_pending := {''c''}\<rparr>)"
    by (rule ws_stepI [OF _ ws_step.register_pending [where i = "''c''"]]) (simp_all add: new_ws_client_def)
  then have "ws_reachable (new_ws_client\<lparr>wc_conn := Some 0, wc_next := 1, wc_reader := (\<lambda>_. No_reader)(0 := Notified), wc_pending := {''c''},
      wc_written := [''c'' \<mapsto> 0]\<rparr>)"
    by (rule ws_stepI [OF _ ws_step.write_json [where i = "''c''" and k = 0]]) (simp_all add: new_ws_client_def)
  then have "ws_reachable late_context"
    by (rule ws_stepI [OF _ ws_step.reader_exits [where k = 0]]) (simp_all add: new_ws_client_def late_context_def fun_eq_iff)
  then show ?thesis by (simp add: late_context_def)
qed

lemma old_reader_fails_new_context:
  assumes "wc_conn s = Some k" and "wc_reader s j = Alive" and "j \<noteq> k" and "wc_written s i = Some k" and "i \<in> wc_pending s"
  shows "\<exists>t. ws_step s t \<and> i \<in> wc_told t \<and> wc_conn t = Some k \<and> wc_reader t k = wc_reader s k"
  using ws_step.read_error [OF assms(2)] assms by (auto simp: notify_all_def intro!: exI)

section \<open>What a stream amounts to\<close>

text \<open>\<open>Synthesize\<close>: all of a stream, or its first error.\<close>

fun collect_stream :: "stream_chunk list \<Rightarrow> byte list \<Rightarrow> str + byte list" where
  "collect_stream [] buf = Inr buf"
| "collect_stream (Audio pcm # cs) buf = collect_stream cs (buf @ pcm)"
| "collect_stream (Stream_error e # cs) buf = Inl e"

section \<open>Pings and deadlines\<close>

definition grok_ping_interval :: duration where "grok_ping_interval = 20 * second"
definition grok_read_timeout :: duration where "grok_read_timeout = 60 * second"

definition grok_dial_query :: "grok_config \<Rightarrow> url_values" where
  "grok_dial_query cfg =
     (let q = values_set ''model'' (grk_model cfg) []
      in if grk_reasoning_effort cfg \<noteq> [] then values_set ''reasoning.effort'' (grk_reasoning_effort cfg) q else q)"

text \<open>When the reader gives up: \<open>traffic\<close> are the times at which a message or a pong comes.\<close>

fun read_until :: "instant \<Rightarrow> instant list \<Rightarrow> instant" where
  "read_until deadline [] = deadline"
| "read_until deadline (t # ts) = (if t < deadline then read_until (t + grok_read_timeout) ts else deadline)"

definition grok_dropped_at :: "instant \<Rightarrow> instant list \<Rightarrow> instant" where
  "grok_dropped_at now traffic = read_until (now + grok_read_timeout) traffic"

definition ping_times :: "instant \<Rightarrow> nat \<Rightarrow> instant list" where
  "ping_times now n = map (\<lambda>i. now + int i * grok_ping_interval) [1..<Suc n]"

lemma read_until_answered:
  assumes "list_all (\<lambda>d. 0 \<le> d \<and> d < 40 * second) ds" and "t0 \<le> last0" and "last0 < t0 + 40 * second"
  shows "read_until (last0 + grok_read_timeout) (map2 (\<lambda>t d. t + d) (map (\<lambda>i. t0 + int i * grok_ping_interval) [1..<Suc (length ds)]) ds) =
    last (last0 # map2 (\<lambda>t d. t + d) (map (\<lambda>i. t0 + int i * grok_ping_interval) [1..<Suc (length ds)]) ds) + grok_read_timeout"
  using assms
proof (induction ds arbitrary: t0 last0)
  case (Cons d ds)
  let ?next = "t0 + grok_ping_interval"
  have split: "map2 (\<lambda>t d. t + d) (map (\<lambda>i. t0 + int i * grok_ping_interval) [1..<Suc (length (d # ds))]) (d # ds) =
      (?next + d) # map2 (\<lambda>t d. t + d) (map (\<lambda>i. ?next + int i * grok_ping_interval) [1..<Suc (length ds)]) ds"
  proof -
    have "[1..<Suc (length (d # ds))] = 1 # map Suc [1..<Suc (length ds)]" by (simp add: upt_conv_Cons map_Suc_upt del: upt_Suc)
    then show ?thesis by (simp add: comp_def algebra_simps del: upt_Suc)
  qed
  have "?next + d < last0 + grok_read_timeout" using Cons.prems by (simp add: grok_ping_interval_def grok_read_timeout_def)
  with Cons.IH [of ?next "?next + d"] Cons.prems show ?case unfolding split by (simp del: upt_Suc)
qed simp

text \<open>A live connection to the provider is kept and a dead one noticed: as long as each ping, sent every
  twenty seconds, is answered within forty the reader does not give up before a minute after the
  last answer; and whatever comes or does not, it gives up a minute after the last traffic at the
  latest.\<close>

theorem answered_pings_keep_the_connection:
  assumes "list_all (\<lambda>d. 0 \<le> d \<and> d < 40 * second) delays"
  shows "grok_dropped_at now (map2 (\<lambda>t d. t + d) (ping_times now (length delays)) delays) =
      last (now # map2 (\<lambda>t d. t + d) (ping_times now (length delays)) delays) + grok_read_timeout \<and>
    (\<forall>traffic. grok_dropped_at now traffic \<le> Max (set (now # traffic)) + grok_read_timeout)"
proof
  show "grok_dropped_at now (map2 (\<lambda>t d. t + d) (ping_times now (length delays)) delays) =
      last (now # map2 (\<lambda>t d. t + d) (ping_times now (length delays)) delays) + grok_read_timeout"
    using read_until_answered [OF assms, of now now] by (simp add: grok_dropped_at_def ping_times_def del: upt_Suc)
  have "read_until (t + grok_read_timeout) ts \<le> Max (set (t # ts)) + grok_read_timeout" for t and ts :: "instant list"
  proof (induction ts arbitrary: t)
    case (Cons u us)
    show ?case
    proof (cases "u < t + grok_read_timeout")
      case True
      have "Max (set (u # us)) \<le> Max (set (t # u # us))" by (intro Max_mono) auto
      with Cons.IH [of u] True show ?thesis by simp
    next
      case False
      have "t \<le> Max (set (t # u # us))" by (intro Max_ge) auto
      with False show ?thesis by simp
    qed
  qed simp
  then show "\<forall>traffic. grok_dropped_at now traffic \<le> Max (set (now # traffic)) + grok_read_timeout"
    by (simp add: grok_dropped_at_def)
qed

section \<open>One socket per utterance\<close>

text \<open>An upload dials, enters its socket in the table or gives up, and ends. Closing cancels the context, closes every
  socket of the table and waits for the uploads. A frame or an upload that still found the context alive may act
  after the cancellation, but not after the sweep, which takes the same lock.\<close>

datatype upload = Dialling | In_flight bool | Ended

record upload_client =
  uc_uploads :: "upload list"
  uc_cancelled :: bool
  uc_swept :: bool
  uc_returned :: bool

definition new_upload_client :: upload_client where
  "new_upload_client = \<lparr>uc_uploads = [], uc_cancelled = False, uc_swept = False, uc_returned = False\<rparr>"

definition set_upload :: "nat \<Rightarrow> upload \<Rightarrow> upload_client \<Rightarrow> upload_client" where
  "set_upload i u s = s\<lparr>uc_uploads := (uc_uploads s)[i := u]\<rparr>"

definition shut_socket :: "upload \<Rightarrow> upload" where
  "shut_socket u = (case u of In_flight b \<Rightarrow> In_flight True | _ \<Rightarrow> u)"

inductive upload_step :: "upload_client \<Rightarrow> upload_client \<Rightarrow> bool" where
  begin_upload: "\<not> uc_swept s \<Longrightarrow> upload_step s (s\<lparr>uc_uploads := uc_uploads s @ [Dialling]\<rparr>)"
| gives_up: "i < length (uc_uploads s) \<Longrightarrow> uc_uploads s ! i = Dialling \<Longrightarrow> upload_step s (set_upload i Ended s)"
| dialled: "i < length (uc_uploads s) \<Longrightarrow> uc_uploads s ! i = Dialling \<Longrightarrow> \<not> uc_swept s \<Longrightarrow>
    upload_step s (set_upload i (In_flight False) s)"
| upload_ends: "i < length (uc_uploads s) \<Longrightarrow> uc_uploads s ! i = In_flight b \<Longrightarrow> upload_step s (set_upload i Ended s)"
| cancel_client: "upload_step s (s\<lparr>uc_cancelled := True\<rparr>)"
| sweep: "uc_cancelled s \<Longrightarrow> upload_step s (s\<lparr>uc_uploads := map shut_socket (uc_uploads s), uc_swept := True\<rparr>)"
| close_returns: "uc_swept s \<Longrightarrow> list_all (\<lambda>u. u = Ended) (uc_uploads s) \<Longrightarrow> upload_step s (s\<lparr>uc_returned := True\<rparr>)"

inductive upload_reachable :: "upload_client \<Rightarrow> bool" where
  fresh: "upload_reachable new_upload_client"
| step: "upload_reachable s \<Longrightarrow> upload_step s t \<Longrightarrow> upload_reachable t"

definition upload_ok :: "upload_client \<Rightarrow> bool" where
  "upload_ok s \<longleftrightarrow> (uc_swept s \<longrightarrow> uc_cancelled s \<and> In_flight False \<notin> set (uc_uploads s)) \<and>
     (uc_returned s \<longrightarrow> uc_swept s \<and> list_all (\<lambda>u. u = Ended) (uc_uploads s))"

lemma upload_ok_set:
  "upload_ok s \<Longrightarrow> \<not> list_all (\<lambda>u. u = Ended) (uc_uploads s) \<Longrightarrow> uc_swept s \<longrightarrow> u \<noteq> In_flight False \<Longrightarrow> upload_ok (set_upload i u s)"
  using set_update_subset_insert [of "uc_uploads s" i u] by (auto simp: upload_ok_def set_upload_def)

lemma upload_ok_step: "upload_step s t \<Longrightarrow> upload_ok s \<Longrightarrow> upload_ok t"
proof (induction rule: upload_step.induct)
  case (gives_up i s)
  then show ?case by (intro upload_ok_set) (auto simp: list_all_length)
next
  case (dialled i s)
  then show ?case by (intro upload_ok_set) (auto simp: list_all_length upload_ok_def)
next
  case (upload_ends i s b)
  then show ?case by (intro upload_ok_set) (auto simp: list_all_length)
qed (auto simp: upload_ok_def shut_socket_def list_all_iff split: upload.splits)

text \<open>Closing the transcription client waits for no answer: once the table is swept every upload that has
  not ended is dialling under a cancelled context or has its socket closed, no new one starts, and
  when \<open>Close\<close> returns none is left.\<close>

theorem closing_waits_for_no_answer:
  assumes "upload_reachable s" and "uc_swept s"
  shows "uc_cancelled s \<and> list_all (\<lambda>u. u \<in> {Dialling, In_flight True, Ended}) (uc_uploads s) \<and>
    (\<forall>t. upload_step s t \<longrightarrow> length (uc_uploads t) = length (uc_uploads s)) \<and>
    (uc_returned s \<longrightarrow> list_all (\<lambda>u. u = Ended) (uc_uploads s))"
proof -
  have ok: "upload_ok s" using assms(1)
  proof (induction rule: upload_reachable.induct)
    case fresh
    show ?case by (simp add: upload_ok_def new_upload_client_def)
  qed (rule upload_ok_step)
  with assms(2) have c: "uc_cancelled s" by (simp add: upload_ok_def)
  have "length (uc_uploads t) = length (uc_uploads s)" if "upload_step s t" for t
    using that assms(2) by cases (auto simp: set_upload_def)
  moreover have "u \<in> {Dialling, In_flight True, Ended}" if "u \<in> set (uc_uploads s)" for u
  proof (cases u)
    case (In_flight b)
    with ok assms(2) that show ?thesis by (cases b) (auto simp: upload_ok_def)
  qed simp_all
  ultimately show ?thesis using ok c by (auto simp: upload_ok_def list_all_iff)
qed

section \<open>The caller\<close>

record codec =
  co_channels :: nat
  co_payload_type :: nat

definition opus_codecs :: "codec list" where
  "opus_codecs = [\<lparr>co_channels = 2, co_payload_type = 111\<rparr>, \<lparr>co_channels = 1, co_payload_type = 109\<rparr>]"

definition allowed_interface :: "str \<Rightarrow> bool" where
  "allowed_interface i \<longleftrightarrow> i \<in> {''eth0'', ''ens5'', ''en0'', ''lo'', ''lo0''}"

text \<open>With a public address candidates come from one shared socket and some interfaces only, IPv4 only.\<close>

record peer_settings =
  ps_mux :: bool
  ps_public :: "str option"
  ps_interface :: "str \<Rightarrow> bool"
  ps_ipv4_only :: bool
  ps_servers :: "ice_server list"

datatype peer_error = No_codec nat | No_interceptors | No_mux str | Bad_rewrite | No_connection

text \<open>\<open>mux\<close> is what listening on the shared port gave the first time.\<close>

definition new_peer :: "(nat \<Rightarrow> bool) \<Rightarrow> bool \<Rightarrow> str option \<Rightarrow> bool \<Rightarrow> bool \<Rightarrow> str \<Rightarrow> str \<Rightarrow> str \<Rightarrow> peer_error + peer_settings" where
  "new_peer codec_ok interceptors mux rewrite connects public_ip turn_ip turn_secret =
     (case find (\<lambda>c. \<not> codec_ok (co_payload_type c)) opus_codecs of
        Some c \<Rightarrow> Inl (No_codec (co_channels c))
      | None \<Rightarrow>
          if \<not> interceptors then Inl No_interceptors
          else case (if public_ip = [] then None else mux) of
            Some e \<Rightarrow> Inl (No_mux e)
          | None \<Rightarrow>
              if public_ip \<noteq> [] \<and> \<not> rewrite then Inl Bad_rewrite
              else if \<not> connects then Inl No_connection
              else Inr \<lparr>ps_mux = (public_ip \<noteq> []), ps_public = (if public_ip = [] then None else Some public_ip),
                ps_interface = (if public_ip = [] then (\<lambda>_. True) else allowed_interface), ps_ipv4_only = (public_ip \<noteq> []),
                ps_servers = ice_servers turn_ip turn_secret\<rparr>)"

definition event_channel_label :: str where "event_channel_label = ''events''"

text \<open>One remote track waits for the session to take it; a channel counts once it is open. \<open>pi_handled\<close> and
  \<open>pi_sent\<close> are logs.\<close>

record peer_io =
  pi_track :: "str option"
  pi_channel :: "nat option"
  pi_handler :: bool
  pi_handled :: "str list"
  pi_sent :: "(nat \<times> str) list"

definition new_peer_io :: peer_io where
  "new_peer_io = \<lparr>pi_track = None, pi_channel = None, pi_handler = False, pi_handled = [], pi_sent = []\<rparr>"

datatype peer_event = On_track str | Take_track | Channel_open nat str | Channel_message str bool str | Set_handler | Send_event str

fun peer_step :: "peer_io \<Rightarrow> peer_event \<Rightarrow> peer_io" where
  "peer_step s (On_track t) = (case pi_track s of None \<Rightarrow> s\<lparr>pi_track := Some t\<rparr> | Some _ \<Rightarrow> s)"
| "peer_step s Take_track = s\<lparr>pi_track := None\<rparr>"
| "peer_step s (Channel_open n label) = (if label \<noteq> event_channel_label then s else s\<lparr>pi_channel := Some n\<rparr>)"
| "peer_step s (Channel_message label is_text msg) =
     (if label \<noteq> event_channel_label \<or> \<not> is_text \<or> \<not> pi_handler s then s else s\<lparr>pi_handled := pi_handled s @ [msg]\<rparr>)"
| "peer_step s Set_handler = s\<lparr>pi_handler := True\<rparr>"
| "peer_step s (Send_event msg) =
     (case pi_channel s of None \<Rightarrow> s | Some n \<Rightarrow> s\<lparr>pi_sent := pi_sent s @ [(n, msg)]\<rparr>)"

definition peer_run :: "peer_event list \<Rightarrow> peer_io" where
  "peer_run es = fold (\<lambda>e s. peer_step s e) es new_peer_io"

definition heard :: "peer_event list \<Rightarrow> str list" where
  "heard es = concat (map (\<lambda>e. case e of Channel_message label True msg \<Rightarrow> if label = event_channel_label then [msg] else [] | _ \<Rightarrow> []) es)"

definition said :: "peer_event list \<Rightarrow> str list" where
  "said es = concat (map (\<lambda>e. case e of Send_event msg \<Rightarrow> [msg] | _ \<Rightarrow> []) es)"

definition opens :: "peer_event \<Rightarrow> bool" where
  "opens e \<longleftrightarrow> (case e of Channel_open n label \<Rightarrow> label = event_channel_label | _ \<Rightarrow> False)"

lemma peer_run_snoc: "peer_run (es @ [e]) = peer_step (peer_run es) e"
  by (simp add: peer_run_def)

lemma peer_state:
  "(pi_channel (peer_run es) = None \<longleftrightarrow> \<not> list_ex opens es) \<and> (pi_handler (peer_run es) \<longleftrightarrow> Set_handler \<in> set es)"
proof (induction es rule: rev_induct)
  case Nil
  show ?case by (simp add: peer_run_def new_peer_io_def)
next
  case (snoc e es)
  then show ?case by (cases e) (auto simp: peer_run_snoc opens_def split: option.splits)
qed

text \<open>Events reach the client from the moment its channel is open, in order and none twice, and what the
  client says on that channel as text reaches the call once it listens; whatever was sent or
  said before is lost without an error, and other channels are not heard.\<close>

theorem only_the_event_channel_is_heard:
  assumes "\<not> list_ex opens before" and "Set_handler \<notin> set before" and "label = event_channel_label"
  shows "map snd (pi_sent (peer_run (before @ Channel_open n label # Set_handler # after))) = said after \<and>
    pi_handled (peer_run (before @ Channel_open n label # Set_handler # after)) = heard after"
proof (induction after rule: rev_induct)
  case Nil
  have "pi_sent (peer_run es) = [] \<and> pi_handled (peer_run es) = []" if "\<not> list_ex opens es" "Set_handler \<notin> set es" for es
    using that
  proof (induction es rule: rev_induct)
    case Nil
    show ?case by (simp add: peer_run_def new_peer_io_def)
  next
    case (snoc e es)
    then have "pi_channel (peer_run es) = None" and "\<not> pi_handler (peer_run es)" and "pi_sent (peer_run es) = []"
      and "pi_handled (peer_run es) = []" and "\<not> opens e"
      using peer_state [of es] by auto
    then show ?case by (cases e) (simp_all add: peer_run_snoc opens_def split: option.splits)
  qed
  from this [OF assms(1,2)] have b: "pi_sent (peer_run before) = []" "pi_handled (peer_run before) = []" by auto
  have "peer_run (before @ [Channel_open n label, Set_handler]) = (peer_run before)\<lparr>pi_channel := Some n, pi_handler := True\<rparr>"
    using assms(3) by (simp add: peer_run_def)
  with b show ?case by (simp add: said_def heard_def)
next
  case (snoc e es)
  let ?pre = "before @ Channel_open n label # Set_handler # es"
  have "pi_channel (peer_run ?pre) \<noteq> None" "pi_handler (peer_run ?pre)"
    using peer_state [of ?pre] assms(3) by (auto simp: opens_def)
  moreover have "peer_run (before @ Channel_open n label # Set_handler # es @ [e]) = peer_step (peer_run ?pre) e"
    using peer_run_snoc [of ?pre e] by simp
  ultimately show ?case using snoc.IH
    by (cases e) (auto simp: said_def heard_def split: option.splits bool.splits)
qed

section \<open>Witnesses\<close>

theorem one_connection_at_a_time_witness: "wc_conn late_context = Some 0 \<or> 0 \<in> wc_shut late_context"
proof -
  have "ws_reachable late_context" using late_context_hears_nothing by blast
  from one_connection_at_a_time [OF this] have "\<forall>k. k < wc_next late_context \<longrightarrow> wc_conn late_context = Some k \<or> k \<in> wc_shut late_context" by blast
  then show ?thesis by (simp add: late_context_def)
qed

theorem answered_pings_keep_the_connection_witness:
  "grok_dropped_at 0 [20 * second + 1, 40 * second + 39 * second] = 139 * second"
  using answered_pings_keep_the_connection [of "[1, 39 * second]" 0]
  by (simp add: ping_times_def grok_ping_interval_def grok_read_timeout_def upt_rec)

theorem closing_waits_for_no_answer_witness:
  "uc_cancelled \<lparr>uc_uploads = [In_flight True], uc_cancelled = True, uc_swept = True, uc_returned = False\<rparr>"
proof -
  let ?s = "\<lambda>us c w. \<lparr>uc_uploads = us, uc_cancelled = c, uc_swept = w, uc_returned = False\<rparr>"
  have "upload_reachable (?s [Dialling] False False)"
    using upload_reachable.step [OF upload_reachable.fresh upload_step.begin_upload] by (simp add: new_upload_client_def)
  from upload_reachable.step [OF this upload_step.dialled [of 0]] have "upload_reachable (?s [In_flight False] False False)"
    by (simp add: set_upload_def)
  from upload_reachable.step [OF this upload_step.cancel_client] have "upload_reachable (?s [In_flight False] True False)" by simp
  from upload_reachable.step [OF this upload_step.sweep] have "upload_reachable (?s [In_flight True] True True)"
    by (simp add: shut_socket_def)
  from closing_waits_for_no_answer [OF this] show ?thesis by simp
qed

theorem only_the_event_channel_is_heard_witness:
  "map snd (pi_sent (peer_run [Send_event ''early'', Channel_open 1 ''events'', Set_handler, Send_event ''late''])) = [''late'']"
  using only_the_event_channel_is_heard [of "[Send_event ''early'']" "''events''" 1 "[Send_event ''late'']"]
  by (simp add: opens_def event_channel_label_def said_def)

end
