(* ===== verification/Service_Dialing.thy ===== *)
theory Service_Dialing
  imports Speech_Clients Speech_Sessions Realtime_Session Connections
begin

text \<open>
  Opening a connection to a voice service: the address and the headers each client dials with, what it makes of a
  refusal, and what a client that cannot be set up leaves behind (\<open>internal/stt/volcengine.go\<close>, \<open>aliyun.go\<close>,
  \<open>assemblyai.go\<close>, \<open>telnyx.go\<close>; \<open>internal/tts/volcengine.go\<close>, \<open>aliyun.go\<close>, \<open>cartesia_ws.go\<close>, \<open>telnyx.go\<close>;
  \<open>internal/realtime/grok.go\<close>). The service's answer to the handshake, whether a write succeeds and the
  random connection id are arguments.
\<close>

section \<open>Addresses and headers\<close>

record dial_request =
  di_url :: str
  di_headers :: "(str \<times> str) list"

abbreviation bearer_key :: "str \<Rightarrow> str \<times> str" where "bearer_key key \<equiv> (''Authorization'', ''Bearer '' @ key)"

definition volc_stt_url :: str where "volc_stt_url = ''wss://openspeech.bytedance.com/api/v3/sauc/bigmodel''"

definition volc_stt_dial :: "volcengine_config \<Rightarrow> str \<Rightarrow> dial_request" where
  "volc_stt_dial cfg cid =
     \<lparr>di_url = default_to volc_stt_url (vlc_url cfg),
      di_headers = [(''X-Api-Key'', vlc_api_key cfg), (''X-Api-Resource-Id'', default_to ''volc.seedasr.sauc.duration'' (vlc_resource_id cfg)),
        (''X-Api-Connect-Id'', cid)]\<rparr>"

definition aliyun_stt_url :: str where "aliyun_stt_url = ''wss://dashscope.aliyuncs.com/api-ws/v1/inference''"

definition aliyun_stt_dial :: "aliyun_config \<Rightarrow> dial_request" where
  "aliyun_stt_dial cfg = \<lparr>di_url = default_to aliyun_stt_url (aly_url cfg), di_headers = [bearer_key (aly_api_key cfg)]\<rparr>"

definition assembly_dial :: "assemblyai_config \<Rightarrow> dial_request" where
  "assembly_dial cfg = \<lparr>di_url = assembly_url cfg, di_headers = [(''Authorization'', aai_api_key cfg)]\<rparr>"

definition telnyx_stt_dial :: "str \<Rightarrow> str \<Rightarrow> dial_request" where
  "telnyx_stt_dial engine key = \<lparr>di_url = telnyx_stt_endpoint engine, di_headers = [bearer_key key]\<rparr>"

definition volc_tts_dial :: "str \<Rightarrow> volc_voice \<Rightarrow> str \<Rightarrow> dial_request" where
  "volc_tts_dial key v cid =
     \<lparr>di_url = vv_url v, di_headers = [(''X-Api-Key'', key), (''X-Api-Resource-Id'', vv_resource v), (''X-Api-Connect-Id'', cid)]\<rparr>"

definition aliyun_tts_dial :: "str \<Rightarrow> aliyun_voice \<Rightarrow> dial_request" where
  "aliyun_tts_dial key v = \<lparr>di_url = av_url v, di_headers = [bearer_key key]\<rparr>"

definition cartesia_ws_url :: str where "cartesia_ws_url = ''wss://api.cartesia.ai/tts/websocket''"
definition cartesia_ws_version :: str where "cartesia_ws_version = ''2025-04-16''"

definition cartesia_ws_dial :: "cartesia_config \<Rightarrow> dial_request" where
  "cartesia_ws_dial cfg =
     \<lparr>di_url = default_to cartesia_ws_url (cts_ws_url cfg),
      di_headers = [bearer_key (cts_api_key cfg), (''Cartesia-Version'', cartesia_ws_version)]\<rparr>"

definition telnyx_tts_dial :: "telnyx_config \<Rightarrow> dial_request" where
  "telnyx_tts_dial cfg = \<lparr>di_url = telnyx_speech_url (tlx_voice cfg), di_headers = [bearer_key (tlx_api_key cfg)]\<rparr>"

definition grok_dial_url :: str where "grok_dial_url = ''wss://api.x.ai/v1/realtime''"

definition grok_dial :: "grok_config \<Rightarrow> dial_request" where
  "grok_dial cfg = \<lparr>di_url = grok_dial_url @ ''?'' @ query_encode (grok_dial_query cfg), di_headers = [bearer_key (grk_api_key cfg)]\<rparr>"

section \<open>Refusals\<close>

datatype dial_answer = Connected | Refused nat str | Unreachable

datatype dial_error = Key_required | Refused_with nat str | Voice_unavailable str | Not_dialled | Setup_failed | Call_over

definition refusal_limit :: nat where "refusal_limit = 512"

text \<open>Most clients show the beginning of what the service says, some only that the handshake failed.\<close>

definition dial_with_words :: "dial_answer \<Rightarrow> dial_error option" where
  "dial_with_words a =
     (case a of Connected \<Rightarrow> None | Refused status body \<Rightarrow> Some (Refused_with status (trim_space (take refusal_limit body))) | Unreachable \<Rightarrow> Some Not_dialled)"

definition dial_plainly :: "dial_answer \<Rightarrow> dial_error option" where
  "dial_plainly a = (if a = Connected then None else Some Not_dialled)"

definition dial_telnyx_voice :: "str \<Rightarrow> dial_answer \<Rightarrow> dial_error option" where
  "dial_telnyx_voice voice a =
     (case a of Connected \<Rightarrow> None | Refused status body \<Rightarrow> Some (if status = 403 then Voice_unavailable voice else Not_dialled) | Unreachable \<Rightarrow> Some Not_dialled)"

section \<open>Setting up a client\<close>

datatype connection = No_connection_yet | In_use | Closing_down | Shut

text \<open>\<open>op_sent\<close> is what was handed to the connection, the frame that could not be written included.\<close>

record set_up =
  op_error :: "dial_error option"
  op_sent :: "wire_frame list"
  op_connection :: connection
  op_cancelled :: bool

definition not_opened :: "dial_error \<Rightarrow> set_up" where
  "not_opened e = \<lparr>op_error = Some e, op_sent = [], op_connection = No_connection_yet, op_cancelled = True\<rparr>"

definition opened :: "wire_frame list \<Rightarrow> set_up" where
  "opened fs = \<lparr>op_error = None, op_sent = fs, op_connection = In_use, op_cancelled = False\<rparr>"

text \<open>Volcengine's \<open>Close\<close> flushes with an empty packet and lets two seconds pass before it lets go.\<close>

definition open_volc_stt :: "volcengine_config \<Rightarrow> dial_answer \<Rightarrow> bool \<Rightarrow> set_up" where
  "open_volc_stt cfg a config_written =
     (case dial_with_words a of
        Some e \<Rightarrow> not_opened e
      | None \<Rightarrow>
          if config_written then opened [Control (volc_config cfg)]
          else \<lparr>op_error = Some Setup_failed, op_sent = [Control (volc_config cfg), Audio_frame []], op_connection = Closing_down, op_cancelled = False\<rparr>)"

text \<open>Aliyun's client waits for the task; \<open>ms\<close> is what the service has said when the call's context ends, if it does,
  and \<open>None\<close> means it is still waiting.\<close>

definition open_aliyun_stt :: "str \<Rightarrow> aliyun_config \<Rightarrow> dial_answer \<Rightarrow> bool \<Rightarrow> (bool \<times> raw) list \<Rightarrow> bool \<Rightarrow> set_up option" where
  "open_aliyun_stt task cfg a run_written ms call_over =
     (let run = Control (aliyun_run_task task cfg); finish = Control (aliyun_finish_task task) in
      case dial_with_words a of
        Some e \<Rightarrow> Some (not_opened e)
      | None \<Rightarrow>
          if \<not> run_written then
            Some \<lparr>op_error = Some Setup_failed, op_sent = [run, finish], op_connection = Shut, op_cancelled = True\<rparr>
          else if aliyun_handshake ms then Some (opened [run])
          else if call_over then Some \<lparr>op_error = Some Call_over, op_sent = [run, finish], op_connection = Shut, op_cancelled = True\<rparr>
          else None)"

definition open_assembly :: "assemblyai_config \<Rightarrow> dial_answer \<Rightarrow> set_up" where
  "open_assembly cfg a =
     (if aai_api_key cfg = [] then \<lparr>op_error = Some Key_required, op_sent = [], op_connection = No_connection_yet, op_cancelled = False\<rparr>
      else case dial_plainly a of Some e \<Rightarrow> not_opened e | None \<Rightarrow> opened [])"

definition open_telnyx_session :: "dial_answer \<Rightarrow> set_up" where
  "open_telnyx_session a = (case dial_with_words a of Some e \<Rightarrow> not_opened e | None \<Rightarrow> opened [])"

text \<open>An utterance for Telnyx's voices: three frames on a connection of its own, given up at the first that cannot be
  written.\<close>

fun write_frames :: "bool list \<Rightarrow> json list \<Rightarrow> wire_frame list \<times> bool" where
  "write_frames oks [] = ([], True)"
| "write_frames [] (j # js) = ([], False)"
| "write_frames (ok # oks) (j # js) = (if ok then (case write_frames oks js of (fs, done) \<Rightarrow> (Control j # fs, done)) else ([Control j], False))"

definition open_telnyx_speech :: "telnyx_config \<Rightarrow> voice_controls \<Rightarrow> str \<Rightarrow> dial_answer \<Rightarrow> bool list \<Rightarrow> set_up" where
  "open_telnyx_speech cfg vc s a oks =
     (case dial_telnyx_voice (default_to default_telnyx_voice (tlx_voice cfg)) a of
        Some e \<Rightarrow> \<lparr>op_error = Some e, op_sent = [], op_connection = No_connection_yet, op_cancelled = False\<rparr>
      | None \<Rightarrow>
          (case write_frames oks (telnyx_says (tlx_voice_speed cfg) vc s) of
             (fs, True) \<Rightarrow> opened fs
           | (fs, False) \<Rightarrow> \<lparr>op_error = Some Setup_failed, op_sent = fs, op_connection = Shut, op_cancelled = False\<rparr>))"

definition open_grok :: "grok_config \<Rightarrow> str \<Rightarrow> realtime_tool list \<Rightarrow> dial_answer \<Rightarrow> bool \<Rightarrow> set_up" where
  "open_grok cfg added ts a update_written =
     (case (case a of Connected \<Rightarrow> None | Refused status _ \<Rightarrow> Some (Refused_with status []) | Unreachable \<Rightarrow> Some Not_dialled) of
        Some e \<Rightarrow> \<lparr>op_error = Some e, op_sent = [], op_connection = No_connection_yet, op_cancelled = False\<rparr>
      | None \<Rightarrow>
          if update_written then opened [Control (session_update cfg added ts)]
          else \<lparr>op_error = Some Setup_failed, op_sent = [Control (session_update cfg added ts)], op_connection = Shut, op_cancelled = True\<rparr>)"

section \<open>Properties\<close>

datatype voice_service =
  Volc_stt | Aliyun_stt | Assembly_stt | Telnyx_stt | Volc_tts | Aliyun_tts | Cartesia_tts | Telnyx_tts | Grok_speech

fun dial_of :: "voice_service \<Rightarrow> config \<Rightarrow> str \<Rightarrow> dial_request" where
  "dial_of Volc_stt c cid = volc_stt_dial (cf_volcengine c) cid"
| "dial_of Aliyun_stt c cid = aliyun_stt_dial (cf_aliyun c)"
| "dial_of Assembly_stt c cid = assembly_dial (cf_assemblyai c)"
| "dial_of Telnyx_stt c cid = telnyx_stt_dial (default_to telnyx_default_engine (tlx_transcription_engine (cf_telnyx c))) (tlx_api_key (cf_telnyx c))"
| "dial_of Volc_tts c cid = volc_tts_dial (vlc_api_key (cf_volcengine c))
     (new_volc_voice (vlc_speaker (cf_volcengine c)) (vlc_tts_resource_id (cf_volcengine c)) (vlc_tts_url (cf_volcengine c))) cid"
| "dial_of Aliyun_tts c cid = aliyun_tts_dial (aly_api_key (cf_aliyun c))
     (new_aliyun_voice (aly_voice (cf_aliyun c)) (aly_tts_model (cf_aliyun c)) (aly_url (cf_aliyun c)))"
| "dial_of Cartesia_tts c cid = cartesia_ws_dial (cf_cartesia c)"
| "dial_of Telnyx_tts c cid = telnyx_tts_dial (cf_telnyx c)"
| "dial_of Grok_speech c cid = grok_dial (cf_grok c)"

fun key_of :: "voice_service \<Rightarrow> config \<Rightarrow> str" where
  "key_of Volc_stt c = vlc_api_key (cf_volcengine c)"
| "key_of Aliyun_stt c = aly_api_key (cf_aliyun c)"
| "key_of Assembly_stt c = aai_api_key (cf_assemblyai c)"
| "key_of Telnyx_stt c = tlx_api_key (cf_telnyx c)"
| "key_of Volc_tts c = vlc_api_key (cf_volcengine c)"
| "key_of Aliyun_tts c = aly_api_key (cf_aliyun c)"
| "key_of Cartesia_tts c = cts_api_key (cf_cartesia c)"
| "key_of Telnyx_tts c = tlx_api_key (cf_telnyx c)"
| "key_of Grok_speech c = grk_api_key (cf_grok c)"

fun with_key :: "str \<Rightarrow> voice_service \<Rightarrow> config \<Rightarrow> config" where
  "with_key k Assembly_stt c = c\<lparr>cf_assemblyai := (cf_assemblyai c)\<lparr>aai_api_key := k\<rparr>\<rparr>"
| "with_key k Cartesia_tts c = c\<lparr>cf_cartesia := (cf_cartesia c)\<lparr>cts_api_key := k\<rparr>\<rparr>"
| "with_key k Grok_speech c = c\<lparr>cf_grok := (cf_grok c)\<lparr>grk_api_key := k\<rparr>\<rparr>"
| "with_key k x c =
     (if x \<in> {Volc_stt, Volc_tts} then c\<lparr>cf_volcengine := (cf_volcengine c)\<lparr>vlc_api_key := k\<rparr>\<rparr>
      else if x \<in> {Aliyun_stt, Aliyun_tts} then c\<lparr>cf_aliyun := (cf_aliyun c)\<lparr>aly_api_key := k\<rparr>\<rparr>
      else c\<lparr>cf_telnyx := (cf_telnyx c)\<lparr>tlx_api_key := k\<rparr>\<rparr>)"

fun same_section :: "voice_service \<Rightarrow> config \<Rightarrow> config \<Rightarrow> bool" where
  "same_section Assembly_stt c c' \<longleftrightarrow> cf_assemblyai c = cf_assemblyai c'"
| "same_section Cartesia_tts c c' \<longleftrightarrow> cf_cartesia c = cf_cartesia c'"
| "same_section Grok_speech c c' \<longleftrightarrow> cf_grok c = cf_grok c'"
| "same_section x c c' \<longleftrightarrow>
     (if x \<in> {Volc_stt, Volc_tts} then cf_volcengine c = cf_volcengine c'
      else if x \<in> {Aliyun_stt, Aliyun_tts} then cf_aliyun c = cf_aliyun c' else cf_telnyx c = cf_telnyx c')"

fun configured_url :: "voice_service \<Rightarrow> config \<Rightarrow> str" where
  "configured_url Volc_stt c = vlc_url (cf_volcengine c)"
| "configured_url Volc_tts c = vlc_tts_url (cf_volcengine c)"
| "configured_url Aliyun_stt c = aly_url (cf_aliyun c)"
| "configured_url Aliyun_tts c = aly_url (cf_aliyun c)"
| "configured_url Cartesia_tts c = cts_ws_url (cf_cartesia c)"
| "configured_url _ c = []"

lemmas dial_defs = volc_stt_dial_def aliyun_stt_dial_def assembly_dial_def telnyx_stt_dial_def volc_tts_dial_def aliyun_tts_dial_def
  cartesia_ws_dial_def telnyx_tts_dial_def grok_dial_def new_volc_voice_def new_aliyun_voice_def

lemma address_without_key [simp]:
  "assembly_url (a\<lparr>aai_api_key := k\<rparr>) = assembly_url a" "grok_dial_query (g\<lparr>grk_api_key := k\<rparr>) = grok_dial_query g"
  by (simp_all add: assembly_url_def grok_dial_query_def Let_def)

text \<open>A key goes to its own service and nowhere else: every client sends the key of its own section as a header,
  the address does not depend on it, nothing of another section goes out, and the connection is
  encrypted unless the operator has set another address.\<close>

theorem keys_stay_with_their_service:
  "(\<exists>h p. (h, p @ key_of x c) \<in> set (di_headers (dial_of x c cid)) \<and> p \<in> {[], ''Bearer ''}) \<and>
    di_url (dial_of x (with_key k x c) cid) = di_url (dial_of x c cid) \<and>
    (same_section x c c' \<longrightarrow> dial_of x c cid = dial_of x c' cid) \<and>
    (has_prefix ''wss://'' (di_url (dial_of x c cid)) \<or> configured_url x c \<noteq> [] \<and> di_url (dial_of x c cid) = configured_url x c)"
proof (intro conjI)
  show "\<exists>h p. (h, p @ key_of x c) \<in> set (di_headers (dial_of x c cid)) \<and> p \<in> {[], ''Bearer ''}"
    by (cases x) (auto simp: dial_defs intro: exI [of _ "''Bearer ''"] exI [of _ "[]"])
  show "di_url (dial_of x (with_key k x c) cid) = di_url (dial_of x c cid)"
    by (cases x) (simp_all add: dial_defs)
  show "same_section x c c' \<longrightarrow> dial_of x c cid = dial_of x c' cid"
    by (cases x) simp_all
  show "has_prefix ''wss://'' (di_url (dial_of x c cid)) \<or> configured_url x c \<noteq> [] \<and> di_url (dial_of x c cid) = configured_url x c"
    by (cases x) (simp_all add: dial_defs default_to_def volc_stt_url_def aliyun_stt_url_def assembly_url_def assembly_stream_url_def
        telnyx_stt_endpoint_def telnyx_stt_url_def cartesia_ws_url_def telnyx_speech_url_def grok_dial_url_def has_prefix_def Let_def)
qed

definition openings :: "config \<Rightarrow> set_up set" where
  "openings c =
     {r. \<exists>a ok. r = open_volc_stt (cf_volcengine c) a ok} \<union> {r. \<exists>task a ok ms over. open_aliyun_stt task (cf_aliyun c) a ok ms over = Some r} \<union>
     {r. \<exists>a. r = open_assembly (cf_assemblyai c) a} \<union> {r. \<exists>a. r = open_telnyx_session a} \<union>
     {r. \<exists>vc s a oks. r = open_telnyx_speech (cf_telnyx c) vc s a oks} \<union> {r. \<exists>added ts a ok. r = open_grok (cf_grok c) added ts a ok}"

lemmas opening_defs = open_volc_stt_def open_aliyun_stt_def open_assembly_def open_telnyx_session_def open_telnyx_speech_def open_grok_def
  not_opened_def opened_def Let_def

text \<open>A client that cannot be set up leaves no connection in use, and one that can has a connection and its
  context alive.\<close>

theorem failed_opening_leaves_nothing_in_use:
  assumes "r \<in> openings c"
  shows "if op_error r = None then op_connection r = In_use \<and> \<not> op_cancelled r else op_connection r \<noteq> In_use"
  using assms unfolding openings_def
  by (elim UnE CollectE exE) (auto simp: opening_defs split: option.splits if_splits prod.splits bool.splits)

text \<open>A service is configured before it hears or says anything: a client that is handed out has sent its
  configuration and nothing else, and Telnyx's voice has been told speed, text and end.\<close>

theorem opened_client_is_configured:
  "(op_error (open_volc_stt vc a ok) = None \<longrightarrow> op_sent (open_volc_stt vc a ok) = [Control (volc_config vc)]) \<and>
    (open_aliyun_stt task ac a ok ms over = Some r \<and> op_error r = None \<longrightarrow> op_sent r = [Control (aliyun_run_task task ac)] \<and> aliyun_handshake ms) \<and>
    (op_error (open_telnyx_speech tc ctl s a oks) = None \<longrightarrow>
       op_sent (open_telnyx_speech tc ctl s a oks) = map Control (telnyx_says (tlx_voice_speed tc) ctl s)) \<and>
    (op_error (open_grok gc added ts a ok) = None \<longrightarrow> op_sent (open_grok gc added ts a ok) = [Control (session_update gc added ts)])"
proof -
  have all: "write_frames oks js = (fs, True) \<Longrightarrow> fs = map Control js" for oks js fs
    by (induction oks js arbitrary: fs rule: write_frames.induct) (auto split: if_splits prod.splits)
  show ?thesis by (auto simp: opening_defs dest!: all split: option.splits if_splits prod.splits bool.splits)
qed

lemma sublist_trim_space: "sublist (trim_space u) u"
proof -
  obtain us where u: "u = us @ dropWhile is_space u" using suffix_dropWhile [of is_space u] by (auto simp: suffix_def)
  obtain vs where "rev (dropWhile is_space u) = vs @ dropWhile is_space (rev (dropWhile is_space u))"
    using suffix_dropWhile [of is_space "rev (dropWhile is_space u)"] by (auto simp: suffix_def)
  then have "dropWhile is_space u = rev (dropWhile is_space (rev (dropWhile is_space u))) @ rev vs" by (metis rev_append rev_rev_ident)
  then have "dropWhile is_space u = trim_space u @ rev vs" by (simp add: trim_space_def trim_def trim_right_def)
  with u have "u = us @ trim_space u @ rev vs" by metis
  then show ?thesis unfolding sublist_def by blast
qed

text \<open>A refusal is reported in few words: what a client shows of the service's answer is at most 512 bytes of
  it, and a voice Telnyx does not know is told apart from other failures.\<close>

theorem refusals_are_short:
  "dial_with_words a = Some (Refused_with status w) \<Longrightarrow> length w \<le> refusal_limit \<and> (\<exists>body. a = Refused status body \<and> sublist w body)"
proof -
  assume "dial_with_words a = Some (Refused_with status w)"
  then obtain body where a: "a = Refused status body" and w: "w = trim_space (take refusal_limit body)"
    by (auto simp: dial_with_words_def split: dial_answer.splits)
  have "sublist w (take refusal_limit body)" using w by (simp add: sublist_trim_space)
  moreover have "sublist (take refusal_limit body) body" by (simp add: prefix_imp_sublist take_is_prefix)
  ultimately have "sublist w body" and "length w \<le> length (take refusal_limit body)"
    by (blast intro: sublist_order.order_trans) (metis \<open>sublist w (take refusal_limit body)\<close> sublist_length_le)
  with a show ?thesis by simp
qed

section \<open>Witnesses\<close>

theorem failed_opening_leaves_nothing_in_use_witness:
  "op_connection (open_telnyx_session (Refused 401 ''no'')) \<noteq> In_use"
proof -
  have "open_telnyx_session (Refused 401 ''no'') \<in> openings c" for c unfolding openings_def by blast
  from failed_opening_leaves_nothing_in_use [OF this] show ?thesis by (simp add: opening_defs dial_with_words_def split: if_splits)
qed

theorem keys_stay_with_their_service_witness:
  "di_url (dial_of Grok_speech (with_key ''k2'' Grok_speech no_config) ''id'') = di_url (dial_of Grok_speech no_config ''id'')"
  using keys_stay_with_their_service [of Grok_speech no_config "''id''" "''k2''" no_config] by blast

theorem opened_client_is_configured_witness:
  "op_sent (open_volc_stt (cf_volcengine no_config) Connected True) = [Control (volc_config (cf_volcengine no_config))]"
  using conjunct1 [OF opened_client_is_configured] by (simp add: open_volc_stt_def dial_with_words_def opened_def)

theorem refusals_are_short_witness: "length ''denied'' \<le> refusal_limit"
proof -
  have "dial_with_words (Refused 401 '' denied '') = Some (Refused_with 401 ''denied'')" by code_simp
  from refusals_are_short [OF this] show ?thesis by blast
qed

end
