(* ===== verification/Spec2Isabelle.thy ===== *)
theory Spec2Isabelle
  imports
    Rate_Limiter Session_Manager ICE_Restart Peer_Connection Signaling Server_Startup Configuration
    Call_Wiring Inbound_Audio Barge_In Turn_Buffer Turn_Quality Response_Ownership Turn_Response Speech_Pacing
    Realtime_Session Voice_Detection Speech_Output Resampler Image_Capture Partial_Reflex
    Language_Model Agent_Backend Ollama_Backend Knowledge_Base
    Confirmation_Gate Plugin_Registry Plugin_Host Plugin_Dispatch Plugin_Loading Plugin_Services Device_Packets
    Display_Cards Developer_Plugins
    Speech_Input Speech_Clients Speech_Limiter Speech_Sessions Cartesia_Stream Markdown_Sanitizer Connections Service_Dialing
begin

text \<open>
  \<^bold>\<open>StreamCore server\<close>, a voice-agent server written in Go. A client opens a call with a WHIP request; the
  server answers with its half of a WebRTC session. From then on one pipeline per call turns the caller's
  audio into text, the text into the reply of a language model or agent, and the reply into speech. Plugins
  are processes that offer tools to the model and may ask the call for packets, completions, searches and
  pictures. In the speech-to-speech mode one provider replaces the chain of services.

  \<^bold>\<open>How the parts interact.\<close> \<open>main.go\<close> puts CORS and JWT middleware around the WHIP endpoint
  (\<open>Server_Startup\<close>), the endpoint (\<open>Signaling\<close>) asks the limiter (\<open>Rate_Limiter\<close>) and the table of sessions
  (\<open>Session_Manager\<close>), restarts ICE (\<open>ICE_Restart\<close>) and adds peers (\<open>Peer_Connection\<close>, \<open>Connections\<close>). A peer
  that is up starts a pipeline (\<open>Call_Wiring\<close>). There \<open>Inbound_Audio\<close> feeds \<open>Voice_Detection\<close>, \<open>Barge_In\<close> and a
  transcription client (\<open>Speech_Input\<close>, \<open>Speech_Clients\<close>); finals become turns (\<open>Turn_Buffer\<close>), partials may fire
  tools early (\<open>Partial_Reflex\<close>); a turn takes the voice (\<open>Response_Ownership\<close>), is put to the model
  (\<open>Turn_Quality\<close>, \<open>Language_Model\<close>, \<open>Agent_Backend\<close>, \<open>Ollama_Backend\<close>, \<open>Knowledge_Base\<close>), spoken sentence by
  sentence (\<open>Turn_Response\<close>, \<open>Markdown_Sanitizer\<close>, \<open>Speech_Providers\<close> and its neighbours) and sent
  (\<open>Speech_Output\<close>, \<open>Speech_Pacing\<close>). Tools go through \<open>Confirmation_Gate\<close>, \<open>Plugin_Registry\<close>, \<open>Plugin_Dispatch\<close>
  and \<open>Plugin_Host\<close>; what plugins ask for comes back through \<open>Plugin_Services\<close> and \<open>Device_Packets\<close>.

  \<^bold>\<open>Theories and code.\<close> State is a record with the fields of the struct, an operation a function or a step
  named after the method.

  \<^item> \<open>Go_Prelude\<close>, \<open>Go_Json\<close>, \<open>Go_Wire\<close>: strings, time, JSON values and wire formats as the server uses Go's
    standard library; and the contracts below. \<open>Config_Types\<close>, \<open>Configuration\<close> (\<open>internal/config\<close>): the
    sections as records, the environment, defaults and checks.
  \<^item> Calls: \<open>Rate_Limiter\<close>, \<open>Signaling\<close> (\<open>internal/signaling\<close>); \<open>Session_Manager\<close> (\<open>internal/session\<close>) on an object
    store with shared addresses, its calls whole and split at the release of locks; \<open>ICE_Restart\<close>,
    \<open>Peer_Connection\<close>, part of \<open>Connections\<close> (\<open>internal/peer\<close>); \<open>Server_Startup\<close> (\<open>main.go\<close>, \<open>internal/turn\<close>,
    \<open>internal/procstat\<close>).
  \<^item> The pipeline (\<open>internal/pipeline\<close>): \<open>Call_Wiring\<close> (\<open>pipeline.go\<close>, \<open>conversation.go\<close>), \<open>Inbound_Audio\<close> and
    \<open>Barge_In\<close> (\<open>inbound.go\<close>, \<open>bargein.go\<close>, \<open>duck.go\<close>), \<open>Turn_Buffer\<close>, \<open>Turn_Quality\<close>, \<open>Response_Ownership\<close> and
    \<open>Turn_Response\<close> (\<open>agent.go\<close>), \<open>Speech_Pacing\<close> (\<open>outbound.go\<close>, \<open>thinking.go\<close>), \<open>Realtime_Session\<close> (\<open>realtime.go\<close>,
    \<open>realtime_turn.go\<close> and \<open>internal/realtime\<close>), \<open>Partial_Reflex\<close> (\<open>partial.go\<close>), \<open>Image_Capture\<close> (\<open>vision.go\<close>),
    \<open>Device_Packets\<close> (\<open>toolgate.go\<close>).
  \<^item> Signals: \<open>Voice_Detection\<close> (\<open>internal/vad\<close>), \<open>Speech_Output\<close> (\<open>internal/audio\<close> and the framing of a turn),
    \<open>Resampler\<close>. Samples are words of 16 bits, RTP counters wrap at their width; gains and thresholds are
    reals where the code has \<open>float64\<close>.
  \<^item> Services: \<open>Language_Model\<close>, \<open>Agent_Backend\<close>, \<open>Ollama_Backend\<close> (\<open>internal/llm\<close>), \<open>Knowledge_Base\<close>
    (\<open>internal/rag\<close>), \<open>Speech_Input\<close>, \<open>Speech_Clients\<close> (\<open>internal/stt\<close>), \<open>Speech_Providers\<close>, \<open>Speech_Sessions\<close>,
    \<open>Cartesia_Stream\<close>, \<open>Speech_Limiter\<close>, \<open>Markdown_Sanitizer\<close> (\<open>internal/tts\<close>); \<open>Connections\<close> and
    \<open>Service_Dialing\<close> on how connections are opened, kept and closed.
  \<^item> Plugins: \<open>Plugin_Manifest\<close>, \<open>Plugin_Registry\<close>, \<open>Plugin_Loading\<close>, \<open>Plugin_Host\<close>, \<open>Plugin_Dispatch\<close>,
    \<open>Plugin_Services\<close>, \<open>Confirmation_Gate\<close> (\<open>internal/plugin\<close>); \<open>Display_Cards\<close>, \<open>Developer_Plugins\<close>
    (\<open>plugins/plugins\<close>).

  \<^bold>\<open>Contracts.\<close> Seven locales state what several components promise, each interpreted on the definitions of
  the components that keep it. \<open>guarded_machine\<close>: a step function keeps an invariant, so every run does
  (sessions, limiter, endpoint, registry, turn buffer, summary, detector, links). \<open>implements\<close> extends it by an
  abstraction function (the ring of the echo guard is a window of recent frames). \<open>lossless_stream\<close> and its
  extension \<open>aligned_stream\<close>: nothing is lost when a stream is cut anew, and the cutting does not matter
  (sentences, the aligner, frames, the agent's text, the turn buffer). \<open>single_use\<close>: a token works once
  (resume tokens, approvals, packets sent ahead). \<open>closable\<close> (a client that is closed sends
  nothing more) and \<open>checked_store\<close> (a store that passed its check compares like with like) do the same for
  sockets and vector stores.

  \<^bold>\<open>What the lemmas show.\<close> In each theory first what every operation keeps, then what it does on each branch,
  errors included, then the properties, each with a closed witness. The main groups: who may do what (sessions
  within the limit, tokens once, tools behind the gate, requests behind the JWT, plugins only at the call they
  name); nothing is lost or doubled (words of a turn, samples of a reply, sentences, chunks of a transcript,
  pictures, packets); everything ends or goes on (turns, tool loops, waiting calls, requests for a slot, the
  wait for playout); ranges hold (rates, arguments of tools, cards, delivery controls). Where the code does
  something it does not mean to, a lemma shows the run that does it, under its own heading.

  \<^bold>\<open>Concurrency.\<close> Goroutines interleave as steps of an inductive relation or of an event function; a step is
  one critical section or one channel operation, so every interleaving of the code is one of the model's. The
  Go memory model is taken to be sequentially consistent, as the code's locks and atomics make it.

  \<^bold>\<open>Bounds and fuel.\<close> Loops are functions with a measure. Two loops that the code does not bound,
  \<open>chat_loop\<close> and \<open>ollama_loop\<close>, are partial functions; that they return, after at most six and eleven requests,
  is proved. \<open>repeats\<close> in \<open>Markdown_Sanitizer\<close> has the length of the text as fuel: each round takes a
  character. Numbers in the code (50, 100 and 8 places in channels, 2.5 s of merging, 600 ms of overlap, 5.3 s
  of waiting) are the model's; none was reduced.

  \<^bold>\<open>What is not modelled.\<close> Third-party code is an argument: the WebRTC stack, Opus, the JWT, TURN and YAML
  libraries, JSON parsing of text, the SDKs of OpenAI, Ollama and Deepgram, PostgreSQL and the remote services;
  where a property rests on one, what it must do is a premise. Sockets and their deadlines are left out but where
  a component's state depends on them, and so are the headers of plain HTTP requests, log lines, the wording of most error
  messages, timings kept for statistics, and the interfaces the developer plugins copy. Unicode is
  ASCII where Go classifies or folds characters, and exact bytes elsewhere. Floating-point numbers are exact
  reals or rationals.
\<close>

end
